(* ===== verification/Prelude.thy ===== *)
theory Prelude
  imports Main "HOL-Library.Word" "HOL-Library.Sublist"
begin

text \<open>
  Shared vocabulary of the development: bytes and fixed-width integers, the
  conversions between \<open>std::string\<close> characters and \<open>std::byte\<close> values, the
  little-endian codec every wire format of the program is built from, and the
  generic list lemmas the component proofs rely on.  Two collections carry the
  automation: \<open>wire_simps\<close> (length and take/drop facts of encoders) and
  \<open>key_simps\<close> (character-class facts of the key grammar).
\<close>

unbundle bit_operations_syntax

named_theorems wire_simps \<open>length, take and drop facts of the wire encoders\<close>
named_theorems key_simps \<open>character-class facts of the key grammar\<close>

type_synonym byte = "8 word"
type_synonym bytes = "byte list"
type_synonym u32 = "32 word"
type_synonym u64 = "64 word"

section \<open>Characters and bytes\<close>

definition byte_of_char :: "char \<Rightarrow> byte" where
  "byte_of_char c = of_nat (of_char c)"

definition char_of_byte :: "byte \<Rightarrow> char" where
  "char_of_byte b = char_of (unat b)"

definition bytes_of_string :: "string \<Rightarrow> bytes" where
  "bytes_of_string s = map byte_of_char s"

definition string_of_bytes :: "bytes \<Rightarrow> string" where
  "string_of_bytes bs = map char_of_byte bs"

lemma char_of_byte_of_char [simp]: "char_of_byte (byte_of_char c) = c"
proof -
  have "of_char c < (256::nat)" by simp
  then have "unat (of_nat (of_char c) :: byte) = of_char c"
    by (simp add: unat_of_nat)
  then show ?thesis by (simp add: byte_of_char_def char_of_byte_def)
qed

lemma byte_of_char_of_byte [simp]: "byte_of_char (char_of_byte b) = b"
proof -
  have "unat b < 256" using unsigned_less[of b, where ?'a = nat] by simp
  then show ?thesis by (simp add: byte_of_char_def char_of_byte_def of_char_of)
qed

lemma byte_of_char_inject [simp]: "byte_of_char c = byte_of_char d \<longleftrightarrow> c = d"
  by (metis char_of_byte_of_char)

lemma string_of_bytes_of_string [simp]: "string_of_bytes (bytes_of_string s) = s"
  by (simp add: string_of_bytes_def bytes_of_string_def comp_def)

lemma bytes_of_string_of_bytes [simp]: "bytes_of_string (string_of_bytes bs) = bs"
  by (simp add: string_of_bytes_def bytes_of_string_def comp_def)

lemma length_bytes_of_string [simp, wire_simps]: "length (bytes_of_string s) = length s"
  by (simp add: bytes_of_string_def)

lemma length_string_of_bytes [simp, wire_simps]: "length (string_of_bytes bs) = length bs"
  by (simp add: string_of_bytes_def)

lemma bytes_of_string_append [simp]:
  "bytes_of_string (s @ t) = bytes_of_string s @ bytes_of_string t"
  by (simp add: bytes_of_string_def)

lemma bytes_of_string_inject [simp]: "bytes_of_string s = bytes_of_string t \<longleftrightarrow> s = t"
  by (metis string_of_bytes_of_string)

section \<open>String views\<close>

definition starts_with :: "'a list \<Rightarrow> 'a list \<Rightarrow> bool" where
  "starts_with s p \<longleftrightarrow> take (length p) s = p"

definition isalnum :: "char \<Rightarrow> bool" where
  "isalnum c = (let n = of_char c :: nat in
     (48 \<le> n \<and> n \<le> 57) \<or> (65 \<le> n \<and> n \<le> 90) \<or> (97 \<le> n \<and> n \<le> 122))"

definition isdigit :: "char \<Rightarrow> bool" where
  "isdigit c = (let n = of_char c :: nat in 48 \<le> n \<and> n \<le> 57)"

lemma starts_with_append [simp]: "starts_with (p @ s) p"
  by (simp add: starts_with_def)

lemma starts_with_self [simp]: "starts_with p p"
  by (simp add: starts_with_def)

lemma starts_with_Nil [simp]: "starts_with s []"
  by (simp add: starts_with_def)

lemma starts_with_Cons [simp]:
  "starts_with s (c # p) \<longleftrightarrow> (\<exists>t. s = c # t \<and> starts_with t p)"
  by (cases s) (auto simp: starts_with_def)

lemma starts_withD: "starts_with s p \<Longrightarrow> s = p @ drop (length p) s"
  by (metis append_take_drop_id starts_with_def)

lemma starts_with_iff: "starts_with s p \<longleftrightarrow> (\<exists>t. s = p @ t)"
  by (metis starts_withD starts_with_append)

text \<open>The first occurrence of a separator: \<open>find\<close> followed by two \<open>substr\<close> calls.\<close>

lemma takeWhile_sep [simp]: "c \<notin> set h \<Longrightarrow> takeWhile (\<lambda>x. x \<noteq> c) (h @ c # t) = h"
  by (induction h) auto

lemma dropWhile_sep [simp]: "c \<notin> set h \<Longrightarrow> dropWhile (\<lambda>x. x \<noteq> c) (h @ c # t) = c # t"
  by (induction h) auto

lemma takeWhile_none [simp]: "c \<notin> set h \<Longrightarrow> takeWhile (\<lambda>x. x \<noteq> c) h = h"
  by (induction h) auto

lemma dropWhile_none [simp]: "c \<notin> set h \<Longrightarrow> dropWhile (\<lambda>x. x \<noteq> c) h = []"
  by (induction h) auto

lemma dropWhile_sepD:
  assumes "dropWhile (\<lambda>x. x \<noteq> c) s = d # t"
  shows "d = c \<and> s = takeWhile (\<lambda>x. x \<noteq> c) s @ c # t"
  using assms takeWhile_dropWhile_id[of "\<lambda>x. x \<noteq> c" s] hd_dropWhile[of "\<lambda>x. x \<noteq> c" s]
  by auto

lemma sep_notin_takeWhile: "c \<notin> set (takeWhile (\<lambda>x. x \<noteq> c) s)"
  by (metis set_takeWhileD)

lemma sep_unique:
  assumes "c \<notin> set h" "c \<notin> set h'"
  shows "h @ c # t = h' @ c # t' \<longleftrightarrow> h = h' \<and> t = t'"
  by (metis assms append_same_eq dropWhile_sep list.inject takeWhile_sep)

section \<open>Little-endian integers\<close>

text \<open>
  \<open>le_put n w\<close> is the loop "for i in 0..n: push byte(w >> 8*i)";
  \<open>le_get\<close> is the loop "value |= word(b_i) << 8*i".
\<close>

definition le_put :: "nat \<Rightarrow> 'a::len word \<Rightarrow> bytes" where
  "le_put n w = map (\<lambda>i. ucast (drop_bit (8 * i) w)) [0..<n]"

primrec le_get_from :: "nat \<Rightarrow> 'a::len word \<Rightarrow> bytes \<Rightarrow> 'a word" where
  "le_get_from i acc [] = acc"
| "le_get_from i acc (b # bs) = le_get_from (Suc i) (acc OR push_bit (8 * i) (ucast b)) bs"

definition le_get :: "bytes \<Rightarrow> 'a::len word" where
  "le_get bs = le_get_from 0 0 bs"

lemma length_le_put [simp, wire_simps]: "length (le_put n w) = n"
  by (simp add: le_put_def)

lemma bit_le_get_from:
  "bit (le_get_from i acc bs :: 'a::len word) n \<longleftrightarrow>
     bit acc n \<or> (n < LENGTH('a) \<and> 8 * i \<le> n \<and> n < 8 * (i + length bs) \<and>
       bit (bs ! ((n - 8 * i) div 8)) (n mod 8))"
proof (induction bs arbitrary: i acc)
  case Nil
  then show ?case by auto
next
  case (Cons b bs)
  have lower: "bit (push_bit (8 * i) (ucast b) :: 'a word) n \<longleftrightarrow>
      n < LENGTH('a) \<and> 8 * i \<le> n \<and> n < 8 * i + 8 \<and> bit b (n - 8 * i)"
    using bit_imp_le_length[of b "n - 8 * i"] by (auto simp: bit_simps)
  have step: "bit (le_get_from i acc (b # bs)) n \<longleftrightarrow> bit acc n \<or>
      (n < LENGTH('a) \<and> 8 * i \<le> n \<and> n < 8 * i + 8 \<and> bit b (n - 8 * i)) \<or>
      (n < LENGTH('a) \<and> 8 * Suc i \<le> n \<and> n < 8 * (Suc i + length bs) \<and>
        bit (bs ! ((n - 8 * Suc i) div 8)) (n mod 8))"
    by (simp only: le_get_from.simps Cons.IH bit_or_iff lower disj_assoc)
  show ?case
  proof (cases "n < 8 * i + 8")
    case True
    show ?thesis
    proof (cases "8 * i \<le> n")
      case le: True
      with True obtain m where m: "n = 8 * i + m" "m < 8"
        by (metis add_less_cancel_left le_Suc_ex)
      then have "(n - 8 * i) div 8 = 0" "n mod 8 = n - 8 * i" by simp_all
      with le True step show ?thesis by simp
    next
      case False
      with step show ?thesis by simp
    qed
  next
    case False
    then obtain m where m: "n = 8 * i + 8 + m" by (metis le_Suc_ex not_less)
    have "(n - 8 * i) div 8 = Suc ((n - 8 * Suc i) div 8)" by (simp add: m)
    moreover have "\<not> n < 8 * i + 8" "8 * i \<le> n" "8 * Suc i \<le> n" by (simp_all add: m)
    moreover have "8 * (Suc i + length bs) = 8 * (i + length (b # bs))" by simp
    ultimately show ?thesis unfolding step by (simp only: simp_thms nth_Cons_Suc)
  qed
qed

lemma bit_le_get:
  "bit (le_get bs :: 'a::len word) n \<longleftrightarrow>
     n < LENGTH('a) \<and> n < 8 * length bs \<and> bit (bs ! (n div 8)) (n mod 8)"
  by (simp add: le_get_def bit_le_get_from)

lemma le_get_put:
  assumes "8 * n = LENGTH('a::len)"
  shows "le_get (le_put n (w :: 'a word)) = w"
proof (rule bit_word_eqI)
  fix k assume k: "k < LENGTH('a)"
  with assms have "k div 8 < n" by simp
  then have "bit (le_put n w ! (k div 8)) (k mod 8) = bit w (8 * (k div 8) + k mod 8)"
    by (simp add: le_put_def bit_simps)
  also have "8 * (k div 8) + k mod 8 = k" by simp
  finally show "bit (le_get (le_put n w) :: 'a word) k = bit w k"
    using k assms by (simp add: bit_le_get)
qed

lemma le_put_get:
  assumes "8 * length bs = LENGTH('a::len)"
  shows "le_put (length bs) (le_get bs :: 'a word) = bs"
proof (rule nth_equalityI)
  fix i assume i: "i < length (le_put (length bs) (le_get bs :: 'a word))"
  show "le_put (length bs) (le_get bs :: 'a word) ! i = bs ! i"
  proof (rule bit_word_eqI)
    fix k assume "k < LENGTH(8)"
    with i assms show "bit (le_put (length bs) (le_get bs :: 'a word) ! i) k = bit (bs ! i) k"
      by (simp add: le_put_def bit_simps bit_le_get)
  qed
qed simp

lemma le_put_inject:
  assumes "8 * n = LENGTH('a::len)"
  shows "le_put n (v :: 'a word) = le_put n w \<longleftrightarrow> v = w"
  by (metis assms le_get_put)

text \<open>The two integer widths of the wire formats.\<close>

lemma le_get_put_u32 [simp]: "le_get (le_put 4 (w :: u32)) = w"
  by (rule le_get_put) simp

lemma le_get_put_u64 [simp]: "le_get (le_put 8 (w :: u64)) = w"
  by (rule le_get_put) simp

lemma le_put_get_u32: "length bs = 4 \<Longrightarrow> le_put 4 (le_get bs :: u32) = bs"
  using le_put_get[of bs, where 'a = 32] by simp

lemma le_put_get_u64: "length bs = 8 \<Longrightarrow> le_put 8 (le_get bs :: u64) = bs"
  using le_put_get[of bs, where 'a = 64] by simp

section \<open>Codec interfaces\<close>

text \<open>
  What a client of a wire format relies on.  A \<open>codec\<close> decodes what it encoded; an
  \<open>exact_codec\<close> moreover accepts nothing but encodings of valid values, so a byte sequence
  has at most one meaning and a value exactly one spelling.
\<close>

locale codec =
  fixes enc :: "'a \<Rightarrow> 'b list"
    and dec :: "'b list \<Rightarrow> 'a option"
    and valid :: "'a \<Rightarrow> bool"
  assumes dec_enc: "valid x \<Longrightarrow> dec (enc x) = Some x"
begin

lemma enc_inject: "valid x \<Longrightarrow> valid y \<Longrightarrow> enc x = enc y \<longleftrightarrow> x = y"
  by (metis dec_enc option.inject)

end

locale exact_codec = codec +
  assumes dec_exact: "dec bs = Some x \<Longrightarrow> valid x \<and> enc x = bs"
begin

lemma dec_iff: "dec bs = Some x \<longleftrightarrow> valid x \<and> enc x = bs"
  using dec_enc dec_exact by blast

lemma dec_inject: "dec bs = Some x \<Longrightarrow> dec cs = Some x \<Longrightarrow> bs = cs"
  by (metis dec_exact)

lemma dec_None_iff: "dec bs = None \<longleftrightarrow> (\<forall>x. valid x \<longrightarrow> enc x \<noteq> bs)"
  by (metis dec_iff not_None_eq)

end

text \<open>The fixed-width integers are exact codecs on byte strings of their width.\<close>

definition le_dec :: "nat \<Rightarrow> bytes \<Rightarrow> 'a::len word option" where
  "le_dec n bs = (if length bs = n then Some (le_get bs) else None)"

interpretation u32_codec: exact_codec "le_put 4 :: u32 \<Rightarrow> bytes" "le_dec 4" "\<lambda>_. True"
  by unfold_locales (auto simp: le_dec_def le_put_get_u32 split: if_splits)

interpretation u64_codec: exact_codec "le_put 8 :: u64 \<Rightarrow> bytes" "le_dec 8" "\<lambda>_. True"
  by unfold_locales (auto simp: le_dec_def le_put_get_u64 split: if_splits)

end
