(* ===== verification/Status.thy ===== *)
theory Status
  imports Prelude
begin

text \<open>
  The status vocabulary and the success-or-error result of the public API:
  \<open>include/sitos/status.hpp\<close>, \<open>src/status.cpp\<close> and \<open>include/sitos/result.hpp\<close>.
  A \<open>Result<T>\<close> is a sum whose left injection is the \<open>ErrorInfo\<close>; the
  valueless state a throwing assignment leaves behind is not modelled, because
  \<open>AssignResultState\<close> replaces it by an error before rethrowing.  The numbers in
  \<open>errc_value\<close> are those of the POSIX platforms the build supports.
\<close>

datatype Status =
    Ok | NotFound | TypeMismatch | Timeout | Disconnected | ReadOnly | InvalidKey
  | InvalidArgument | Error | OutcomeUnknown | StateLost | CatalogUnavailable

definition status_value :: "Status \<Rightarrow> nat" where
  "status_value s = (case s of
     Ok \<Rightarrow> 0 | NotFound \<Rightarrow> 1 | TypeMismatch \<Rightarrow> 2 | Timeout \<Rightarrow> 3 | Disconnected \<Rightarrow> 4
   | ReadOnly \<Rightarrow> 5 | InvalidKey \<Rightarrow> 6 | InvalidArgument \<Rightarrow> 7 | Error \<Rightarrow> 8
   | OutcomeUnknown \<Rightarrow> 9 | StateLost \<Rightarrow> 10 | CatalogUnavailable \<Rightarrow> 11)"

definition all_statuses :: "Status list" where
  "all_statuses = [Ok, NotFound, TypeMismatch, Timeout, Disconnected, ReadOnly, InvalidKey,
     InvalidArgument, Error, OutcomeUnknown, StateLost, CatalogUnavailable]"

text \<open>\<open>static_cast<Status>(value)\<close>, restricted to the enumerators.\<close>

definition status_of_value :: "nat \<Rightarrow> Status option" where
  "status_of_value n = (if n < length all_statuses then Some (all_statuses ! n) else None)"

definition StatusMessage :: "nat \<Rightarrow> string" where
  "StatusMessage value = (case status_of_value value of
     None \<Rightarrow> ''error''
   | Some s \<Rightarrow> (case s of
       Ok \<Rightarrow> ''ok'' | NotFound \<Rightarrow> ''not found'' | TypeMismatch \<Rightarrow> ''type mismatch''
     | Timeout \<Rightarrow> ''timeout'' | Disconnected \<Rightarrow> ''disconnected'' | ReadOnly \<Rightarrow> ''read-only''
     | InvalidKey \<Rightarrow> ''invalid key'' | InvalidArgument \<Rightarrow> ''invalid argument''
     | Error \<Rightarrow> ''error'' | OutcomeUnknown \<Rightarrow> ''outcome unknown''
     | StateLost \<Rightarrow> ''state lost'' | CatalogUnavailable \<Rightarrow> ''catalog unavailable''))"

datatype error_category = GenericCategory | SystemCategory | StatusCategory | OtherCategory nat

record error_code =
  ec_value :: int
  ec_category :: error_category

definition no_error_code :: error_code where
  "no_error_code = \<lparr>ec_value = 0, ec_category = SystemCategory\<rparr>"

definition MakeErrorCode :: "Status \<Rightarrow> error_code" where
  "MakeErrorCode status =
     (let status = (if status = Ok then Error else status)
      in \<lparr>ec_value = int (status_value status), ec_category = StatusCategory\<rparr>)"

datatype errc =
    invalid_argument | timed_out | not_connected | connection_aborted | connection_refused
  | connection_reset | network_down | network_reset | network_unreachable | host_unreachable
  | broken_pipe

definition errc_value :: "errc \<Rightarrow> int" where
  "errc_value e = (case e of
     invalid_argument \<Rightarrow> 22 | timed_out \<Rightarrow> 110 | not_connected \<Rightarrow> 107 | connection_aborted \<Rightarrow> 103
   | connection_refused \<Rightarrow> 111 | connection_reset \<Rightarrow> 104 | network_down \<Rightarrow> 100
   | network_reset \<Rightarrow> 102 | network_unreachable \<Rightarrow> 101 | host_unreachable \<Rightarrow> 113
   | broken_pipe \<Rightarrow> 32)"

definition StatusFromErrorCode :: "error_code \<Rightarrow> Status" where
  "StatusFromErrorCode error =
    (if ec_category error \<noteq> GenericCategory then Error
     else if ec_value error = errc_value invalid_argument then InvalidArgument
     else if ec_value error = errc_value timed_out then Timeout
     else if ec_value error \<in> set (map errc_value [not_connected, connection_aborted,
        connection_refused, connection_reset, network_down, network_reset,
        network_unreachable, host_unreachable, broken_pipe]) then Disconnected
     else Error)"

record ErrorInfo =
  ei_status :: Status
  ei_message :: string
  ei_cause :: error_code

definition MakeErrorInfo :: "Status \<Rightarrow> string \<Rightarrow> error_code \<Rightarrow> ErrorInfo" where
  "MakeErrorInfo status message cause =
     (let status = (if status = Ok then Error else status);
          cause = (if ec_value cause = 0 then MakeErrorCode status else cause)
      in \<lparr>ei_status = status, ei_message = message, ei_cause = cause\<rparr>)"

definition MakeLegacyErrorInfo :: "error_code \<Rightarrow> ErrorInfo" where
  "MakeLegacyErrorInfo cause =
     (if ec_value cause = 0 then MakeErrorInfo Error '''' no_error_code
      else MakeErrorInfo (StatusFromErrorCode cause) '''' cause)"

type_synonym 'a Result = "ErrorInfo + 'a"

definition Result_Ok :: "'a \<Rightarrow> 'a Result" where
  "Result_Ok v = Inr v"

definition Result_Err :: "Status \<Rightarrow> string \<Rightarrow> error_code \<Rightarrow> 'a Result" where
  "Result_Err status message cause = Inl (MakeErrorInfo status message cause)"

definition Result_ErrCode :: "error_code \<Rightarrow> 'a Result" where
  "Result_ErrCode cause = Inl (MakeLegacyErrorInfo cause)"

abbreviation Err :: "Status \<Rightarrow> string \<Rightarrow> 'a Result" where
  "Err status message \<equiv> Result_Err status message no_error_code"

definition IsOk :: "'a Result \<Rightarrow> bool" where
  "IsOk r = (case r of Inl _ \<Rightarrow> False | Inr _ \<Rightarrow> True)"

definition StatusCode :: "'a Result \<Rightarrow> Status" where
  "StatusCode r = (case r of Inl e \<Rightarrow> ei_status e | Inr _ \<Rightarrow> Ok)"

definition Message :: "'a Result \<Rightarrow> string" where
  "Message r = (case r of Inl e \<Rightarrow> ei_message e | Inr _ \<Rightarrow> '''')"

definition ErrFrom :: "'b Result \<Rightarrow> 'a Result" where
  "ErrFrom source = (case source of Inr _ \<Rightarrow> Err Error '''' | Inl e \<Rightarrow> Inl e)"

section \<open>The representation invariant of results\<close>

text \<open>
  Every error carries a status other than \<open>Ok\<close> and a nonzero error code, so that
  the boolean test, the status and the error code of a result never disagree.
\<close>

definition result_wf :: "'a Result \<Rightarrow> bool" where
  "result_wf r = (case r of Inl e \<Rightarrow> ei_status e \<noteq> Ok \<and> ec_value (ei_cause e) \<noteq> 0 | Inr _ \<Rightarrow> True)"

lemma status_value_less: "status_value s < 12"
  by (cases s) (simp_all add: status_value_def)

lemma status_of_value_inverse [simp]: "status_of_value (status_value s) = Some s"
  by (cases s) (simp_all add: status_of_value_def status_value_def all_statuses_def)

lemma status_value_of_value: "status_of_value n = Some s \<Longrightarrow> status_value s = n"
proof -
  assume a: "status_of_value n = Some s"
  then have "n < 12" "s = all_statuses ! n"
    by (simp_all add: status_of_value_def all_statuses_def split: if_splits)
  then show ?thesis
    by (auto simp: less_Suc_eq numeral_eq_Suc all_statuses_def status_value_def)
qed

lemma status_value_inject [simp]: "status_value s = status_value t \<longleftrightarrow> s = t"
  by (metis option.inject status_of_value_inverse)

lemma status_value_0 [simp]: "status_value s = 0 \<longleftrightarrow> s = Ok"
  by (cases s) (simp_all add: status_value_def)

lemma MakeErrorCode_nonzero [simp]: "ec_value (MakeErrorCode s) \<noteq> 0"
  by (simp add: MakeErrorCode_def Let_def)

lemma MakeErrorInfo_status [simp]:
  "s \<noteq> Ok \<Longrightarrow> ei_status (MakeErrorInfo s m c) = s"
  by (simp add: MakeErrorInfo_def)

lemma MakeErrorInfo_wf [simp]:
  "ei_status (MakeErrorInfo s m c) \<noteq> Ok" "ec_value (ei_cause (MakeErrorInfo s m c)) \<noteq> 0"
  by (simp_all add: MakeErrorInfo_def Let_def)

lemma result_wf_Result_Ok [simp]: "result_wf (Result_Ok v)"
  by (simp add: result_wf_def Result_Ok_def)

lemma result_wf_Result_Err [simp]: "result_wf (Result_Err s m c)"
  by (simp add: result_wf_def Result_Err_def)

lemma result_wf_Result_ErrCode [simp]: "result_wf (Result_ErrCode c)"
  by (simp add: result_wf_def Result_ErrCode_def MakeLegacyErrorInfo_def)

lemma result_wf_ErrFrom [simp]: "result_wf r \<Longrightarrow> result_wf (ErrFrom r :: 'a Result)"
  by (cases r) (simp_all add: result_wf_def ErrFrom_def Result_Err_def)

lemma Result_Err_not_ok [simp]: "\<not> IsOk (Result_Err s m c)"
  by (simp add: IsOk_def Result_Err_def)

lemma StatusCode_Result_Err [simp]: "s \<noteq> Ok \<Longrightarrow> StatusCode (Result_Err s m c) = s"
  by (simp add: StatusCode_def Result_Err_def)

lemma StatusCode_Result_Ok [simp]: "StatusCode (Result_Ok v) = Ok"
  by (simp add: StatusCode_def Result_Ok_def)

end
