(* ===== verification/Key.thy ===== *)
theory Key
  imports Prelude
begin

text \<open>
  The key space of the program, \<open>src/key.cpp\<close>: the chunk and identifier
  grammars, the builders of the six route families, the incoming-key parser
  \<open>ParseKey\<close> and the session liveliness keys.  The lemmas show that the parser
  and the builders are inverse to each other, so the routes are unambiguous.
  Character classes are those of the C locale.
\<close>

datatype ScopeKind = ScopeBase | ScopeSession | ScopeSnap

record Scope =
  scope_kind :: ScopeKind
  scope_sid :: string

datatype BufferClass = Durable | Ephemeral

datatype KeyKind = KeyBase | KeySession | KeySnapshot | KeyMetaSession | KeyMetaAck | KeyBuffer

record ParsedKey =
  pk_kind :: KeyKind
  pk_sid :: string
  pk_uuid :: string
  pk_relative_key :: string
  pk_is_batch :: bool
  pk_buffer_class :: "BufferClass option"

section \<open>Grammar\<close>

definition IsValidChunkChar :: "char \<Rightarrow> bool" where
  "IsValidChunkChar c \<longleftrightarrow> isalnum c \<or> c = CHR ''_'' \<or> c = CHR ''-'' \<or> c = CHR ''.''"

definition IsValidChunk :: "string \<Rightarrow> bool" where
  "IsValidChunk chunk \<longleftrightarrow> chunk \<noteq> [] \<and> list_all IsValidChunkChar chunk"

text \<open>The \<open>while\<close> loop of \<open>IsValidChunkSequence\<close>, on the part of the view from \<open>start\<close> on.\<close>

function chunk_loop :: "string \<Rightarrow> bool" where
  "chunk_loop v =
     (if \<not> IsValidChunk (takeWhile (\<lambda>c. c \<noteq> CHR ''/'') v) then False
      else (case dropWhile (\<lambda>c. c \<noteq> CHR ''/'') v of
              [] \<Rightarrow> True
            | _ # rest \<Rightarrow> chunk_loop rest))"
  by pat_completeness auto
termination
proof (relation "measure length")
  fix v :: string and d rest
  assume "dropWhile (\<lambda>c. c \<noteq> CHR ''/'') v = d # rest"
  then have "length (d # rest) \<le> length v" by (metis length_dropWhile_le)
  then show "(rest, v) \<in> measure length" by simp
qed simp

definition IsValidChunkSequence :: "string \<Rightarrow> bool" where
  "IsValidChunkSequence value =
     (if value = [] then False
      else if hd value = CHR ''/'' \<or> last value = CHR ''/'' then False
      else chunk_loop value)"

definition kBatchSegment :: string where
  "kBatchSegment = '':batch''"

definition IsValidIdChar :: "char \<Rightarrow> bool" where
  "IsValidIdChar c \<longleftrightarrow> isalnum c \<or> c = CHR ''_'' \<or> c = CHR ''-''"

definition IsValidId :: "string \<Rightarrow> bool" where
  "IsValidId ident \<longleftrightarrow> ident \<noteq> [] \<and> list_all IsValidIdChar ident"

definition IsValidKey :: "string \<Rightarrow> bool" where
  "IsValidKey key = IsValidChunkSequence key"

definition IsValidSessionId :: "string \<Rightarrow> bool" where
  "IsValidSessionId sid = IsValidId sid"

definition IsValidPrefix :: "string \<Rightarrow> bool" where
  "IsValidPrefix p = IsValidChunkSequence p"

definition IsValidAckUuid :: "string \<Rightarrow> bool" where
  "IsValidAckUuid uuid = IsValidId uuid"

section \<open>Scopes and builders\<close>

definition ParseScope :: "string \<Rightarrow> Scope option" where
  "ParseScope scope =
    (if scope = ''base'' then Some \<lparr>scope_kind = ScopeBase, scope_sid = ''''\<rparr>
     else if length scope > length ''session/'' \<and> starts_with scope ''session/''
          \<and> IsValidSessionId (drop (length ''session/'') scope)
       then Some \<lparr>scope_kind = ScopeSession, scope_sid = drop (length ''session/'') scope\<rparr>
     else if length scope > length ''snap/'' \<and> starts_with scope ''snap/''
          \<and> IsValidSessionId (drop (length ''snap/'') scope)
       then Some \<lparr>scope_kind = ScopeSnap, scope_sid = drop (length ''snap/'') scope\<rparr>
     else None)"

definition BuildKey :: "string \<Rightarrow> string \<Rightarrow> string \<Rightarrow> string option" where
  "BuildKey p scope user_key =
    (if \<not> IsValidPrefix p \<or> ParseScope scope = None \<or> \<not> IsValidKey user_key then None
     else Some (p @ ''/'' @ scope @ ''/'' @ user_key))"

definition buffer_class_name :: "BufferClass \<Rightarrow> string" where
  "buffer_class_name bc = (case bc of Durable \<Rightarrow> ''durable'' | Ephemeral \<Rightarrow> ''ephemeral'')"

definition BuildBufferKey :: "string \<Rightarrow> string \<Rightarrow> BufferClass \<Rightarrow> string \<Rightarrow> string option" where
  "BuildBufferKey p sid buffer_class user_key =
    (if \<not> IsValidPrefix p \<or> \<not> IsValidSessionId sid \<or> \<not> IsValidKey user_key then None
     else Some (p @ ''/'' @ ''buffers'' @ ''/'' @ sid @ ''/'' @
                buffer_class_name buffer_class @ ''/'' @ user_key))"

definition BuildBatchKey :: "string \<Rightarrow> string \<Rightarrow> string option" where
  "BuildBatchKey p scope =
    (if \<not> IsValidPrefix p then None
     else if scope = ''base'' then Some (p @ ''/'' @ scope @ ''/'' @ kBatchSegment)
     else if length scope > length ''session/'' \<and> starts_with scope ''session/'' then
       (if \<not> IsValidSessionId (drop (length ''session/'') scope) then None
        else Some (p @ ''/'' @ scope @ ''/'' @ kBatchSegment))
     else None)"

definition BuildMetaSessionKey :: "string \<Rightarrow> string \<Rightarrow> string option" where
  "BuildMetaSessionKey p sid =
    (if \<not> IsValidPrefix p \<or> \<not> IsValidSessionId sid then None
     else Some (p @ ''/'' @ ''meta/session'' @ ''/'' @ sid))"

definition kSessionLiveliness :: string where
  "kSessionLiveliness = ''/meta/live/session/''"

definition BuildSessionLivelinessSelector :: "string \<Rightarrow> string \<Rightarrow> string option" where
  "BuildSessionLivelinessSelector p sid =
    (if \<not> IsValidPrefix p \<or> \<not> IsValidSessionId sid then None
     else Some (p @ kSessionLiveliness @ sid @ ''/*''))"

definition BuildSessionLivelinessKey :: "string \<Rightarrow> string \<Rightarrow> string \<Rightarrow> string option" where
  "BuildSessionLivelinessKey p sid generation_uuid =
    (if \<not> IsValidPrefix p \<or> \<not> IsValidSessionId sid \<or> \<not> IsValidAckUuid generation_uuid then None
     else Some (p @ kSessionLiveliness @ sid @ ''/'' @ generation_uuid))"

definition ParseSessionLivelinessKey :: "string \<Rightarrow> string \<Rightarrow> string \<Rightarrow> string option" where
  "ParseSessionLivelinessKey p sid key =
    (if \<not> starts_with key p then None else
     let key = drop (length p) key in
     if \<not> starts_with key kSessionLiveliness then None else
     let key = drop (length kSessionLiveliness) key in
     if \<not> starts_with key sid then None else
     let key = drop (length sid) key in
     if \<not> starts_with key ''/'' then None else
     let key = drop 1 key in
     if \<not> IsValidAckUuid key then None else Some key)"

definition BuildMetaAckKey :: "string \<Rightarrow> string \<Rightarrow> string option" where
  "BuildMetaAckKey p uuid =
    (if \<not> IsValidPrefix p \<or> \<not> IsValidAckUuid uuid then None
     else Some (p @ ''/'' @ ''meta/ack'' @ ''/'' @ uuid))"

section \<open>The incoming-key parser\<close>

definition StripPrefix :: "string \<Rightarrow> string \<Rightarrow> string option" where
  "StripPrefix p full_key =
    (if length full_key \<le> length p \<or> full_key ! length p \<noteq> CHR ''/'' then None
     else if \<not> starts_with full_key p then None
     else Some (drop (length p + 1) full_key))"

definition SplitFirst :: "string \<Rightarrow> (string \<times> string) option" where
  "SplitFirst rest =
    (case dropWhile (\<lambda>c. c \<noteq> CHR ''/'') rest of
       [] \<Rightarrow> None
     | _ # tail \<Rightarrow> Some (takeWhile (\<lambda>c. c \<noteq> CHR ''/'') rest, tail))"

definition parsed :: "KeyKind \<Rightarrow> string \<Rightarrow> string \<Rightarrow> string \<Rightarrow> bool \<Rightarrow> BufferClass option \<Rightarrow> ParsedKey" where
  "parsed kind sid uuid rel batch bc =
     \<lparr>pk_kind = kind, pk_sid = sid, pk_uuid = uuid, pk_relative_key = rel,
      pk_is_batch = batch, pk_buffer_class = bc\<rparr>"

definition ParseBaseTail :: "string \<Rightarrow> ParsedKey option" where
  "ParseBaseTail tail =
    (if tail = kBatchSegment then Some (parsed KeyBase '''' '''' '''' True None)
     else if \<not> IsValidKey tail then None
     else Some (parsed KeyBase '''' '''' tail False None))"

definition ParseSessionTail :: "string \<Rightarrow> ParsedKey option" where
  "ParseSessionTail tail =
    (case SplitFirst tail of
       None \<Rightarrow> None
     | Some (sid, value) \<Rightarrow>
         if \<not> IsValidSessionId sid then None
         else if value = kBatchSegment then Some (parsed KeySession sid '''' '''' True None)
         else if \<not> IsValidKey value then None
         else Some (parsed KeySession sid '''' value False None))"

definition ParseSnapTail :: "string \<Rightarrow> ParsedKey option" where
  "ParseSnapTail tail =
    (case SplitFirst tail of
       None \<Rightarrow> None
     | Some (sid, value) \<Rightarrow>
         if \<not> IsValidSessionId sid then None
         else if \<not> IsValidKey value then None
         else Some (parsed KeySnapshot sid '''' value False None))"

definition ParseBuffersTail :: "string \<Rightarrow> ParsedKey option" where
  "ParseBuffersTail tail =
    (case SplitFirst tail of
       None \<Rightarrow> None
     | Some (sid, class_and_key) \<Rightarrow>
         if \<not> IsValidSessionId sid then None else
         (case SplitFirst class_and_key of
            None \<Rightarrow> None
          | Some (class_name, user_key) \<Rightarrow>
              (case (if class_name = ''durable'' then Some Durable
                     else if class_name = ''ephemeral'' then Some Ephemeral else None) of
                 None \<Rightarrow> None
               | Some buffer_class \<Rightarrow>
                   if \<not> IsValidKey user_key then None
                   else Some (parsed KeyBuffer sid '''' user_key False (Some buffer_class)))))"

definition ParseMetaTail :: "string \<Rightarrow> ParsedKey option" where
  "ParseMetaTail tail =
    (case SplitFirst tail of
       None \<Rightarrow> None
     | Some (meta_kind, ident) \<Rightarrow>
         if meta_kind = ''session'' then
           (if \<not> IsValidSessionId ident then None
            else Some (parsed KeyMetaSession ident '''' '''' False None))
         else if meta_kind = ''ack'' then
           (if \<not> IsValidAckUuid ident then None
            else Some (parsed KeyMetaAck '''' ident '''' False None))
         else None)"

definition ParseKey :: "string \<Rightarrow> string \<Rightarrow> ParsedKey option" where
  "ParseKey p full_key =
    (case StripPrefix p full_key of
       None \<Rightarrow> None
     | Some rest \<Rightarrow>
         if rest = ''base'' then None else
         (case SplitFirst rest of
            None \<Rightarrow> None
          | Some (head, tail) \<Rightarrow>
              if head = ''base'' then ParseBaseTail tail
              else if head = ''session'' then ParseSessionTail tail
              else if head = ''snap'' then ParseSnapTail tail
              else if head = ''buffers'' then ParseBuffersTail tail
              else if head = ''meta'' then ParseMetaTail tail
              else None))"

section \<open>Facts of the grammar\<close>

declare chunk_loop.simps [simp del]

lemma slash_not_chunk_char [simp, key_simps]: "\<not> IsValidChunkChar (CHR ''/'')"
  by (simp add: IsValidChunkChar_def isalnum_def)

lemma colon_not_chunk_char [simp, key_simps]: "\<not> IsValidChunkChar (CHR '':'')"
  by (simp add: IsValidChunkChar_def isalnum_def)

lemma slash_not_id_char [simp, key_simps]: "\<not> IsValidIdChar (CHR ''/'')"
  by (simp add: IsValidIdChar_def isalnum_def)

lemma id_char_chunk_char: "IsValidIdChar c \<Longrightarrow> IsValidChunkChar c"
  by (auto simp: IsValidIdChar_def IsValidChunkChar_def)

lemma slash_notin_id: "IsValidId s \<Longrightarrow> CHR ''/'' \<notin> set s"
  by (auto simp: IsValidId_def list_all_iff)

lemma slash_notin_sid [simp, key_simps]: "IsValidSessionId s \<Longrightarrow> CHR ''/'' \<notin> set s"
  by (simp add: IsValidSessionId_def slash_notin_id)

lemma slash_notin_uuid [simp, key_simps]: "IsValidAckUuid s \<Longrightarrow> CHR ''/'' \<notin> set s"
  by (simp add: IsValidAckUuid_def slash_notin_id)

lemma slash_notin_chunk: "IsValidChunk s \<Longrightarrow> CHR ''/'' \<notin> set s"
  by (auto simp: IsValidChunk_def list_all_iff)

lemma chunk_loop_chunk:
  assumes "CHR ''/'' \<notin> set s"
  shows "chunk_loop s \<longleftrightarrow> IsValidChunk s"
  using assms by (subst chunk_loop.simps) simp

lemma chunk_loop_sep:
  assumes "CHR ''/'' \<notin> set h"
  shows "chunk_loop (h @ CHR ''/'' # t) \<longleftrightarrow> IsValidChunk h \<and> chunk_loop t"
  using assms by (subst chunk_loop.simps) simp

text \<open>Sequences compose: a slash joins two valid sequences and nothing else.\<close>

lemma chunk_loop_join: "chunk_loop (s @ CHR ''/'' # t) \<longleftrightarrow> chunk_loop s \<and> chunk_loop t"
proof (induction "length s" arbitrary: s rule: less_induct)
  case less
  show ?case
  proof (cases "CHR ''/'' \<in> set s")
    case False
    then show ?thesis by (simp add: chunk_loop_sep chunk_loop_chunk)
  next
    case True
    then obtain h s' where s: "s = h @ CHR ''/'' # s'" "CHR ''/'' \<notin> set h"
      by (metis split_list_first)
    with less.hyps[of s'] show ?thesis by (simp add: chunk_loop_sep)
  qed
qed

lemma not_chunk_loop_Nil [simp]: "\<not> chunk_loop []"
  by (subst chunk_loop.simps) (simp add: IsValidChunk_def)

text \<open>The early checks of the code on the ends of the view are implied by its loop.\<close>

lemma IsValidChunkSequence_loop: "IsValidChunkSequence v \<longleftrightarrow> chunk_loop v"
proof -
  have "\<not> chunk_loop v" if "v \<noteq> []" "hd v = CHR ''/''"
  proof -
    from that obtain t where "v = [] @ CHR ''/'' # t" by (cases v) auto
    then show ?thesis by (simp only: chunk_loop_join not_chunk_loop_Nil simp_thms)
  qed
  moreover have "\<not> chunk_loop v" if "v \<noteq> []" "last v = CHR ''/''"
  proof -
    from that have "v = butlast v @ CHR ''/'' # []" by (metis append_butlast_last_id)
    then have "chunk_loop v \<longleftrightarrow> chunk_loop (butlast v) \<and> chunk_loop []"
      by (metis chunk_loop_join)
    then show ?thesis by simp
  qed
  ultimately show ?thesis by (auto simp: IsValidChunkSequence_def)
qed

lemma IsValidKey_loop: "IsValidKey v \<longleftrightarrow> chunk_loop v"
  by (simp add: IsValidKey_def IsValidChunkSequence_loop)

lemma IsValidPrefix_loop: "IsValidPrefix v \<longleftrightarrow> chunk_loop v"
  by (simp add: IsValidPrefix_def IsValidChunkSequence_loop)

lemma chunk_loop_chars:
  "chunk_loop v \<Longrightarrow> c \<in> set v \<Longrightarrow> IsValidChunkChar c \<or> c = CHR ''/''"
proof (induction "length v" arbitrary: v rule: less_induct)
  case less
  show ?case
  proof (cases "CHR ''/'' \<in> set v")
    case False
    with less.prems show ?thesis by (auto simp: chunk_loop_chunk IsValidChunk_def list_all_iff)
  next
    case True
    then obtain h t where v: "v = h @ CHR ''/'' # t" "CHR ''/'' \<notin> set h"
      by (metis split_list_first)
    with less.prems less.hyps[of t] show ?thesis
      by (auto simp: chunk_loop_sep IsValidChunk_def list_all_iff)
  qed
qed

lemma batch_not_valid_key [simp]: "\<not> IsValidKey kBatchSegment"
proof
  assume "IsValidKey kBatchSegment"
  from chunk_loop_chars[OF this[unfolded IsValidKey_loop], of "CHR '':''"] show False
    by (simp add: kBatchSegment_def)
qed

lemma StripPrefix_append [simp]: "StripPrefix p (p @ CHR ''/'' # rest) = Some rest"
  by (simp add: StripPrefix_def starts_with_def)

lemma StripPrefix_Some: "StripPrefix p k = Some rest \<longleftrightarrow> k = p @ CHR ''/'' # rest"
proof
  assume a: "StripPrefix p k = Some rest"
  then have "length p < length k" "k ! length p = CHR ''/''" "take (length p) k = p"
    "rest = drop (Suc (length p)) k"
    by (auto simp: StripPrefix_def starts_with_def split: if_splits)
  then show "k = p @ CHR ''/'' # rest" by (metis id_take_nth_drop)
qed simp

lemma SplitFirst_sep [simp]: "CHR ''/'' \<notin> set h \<Longrightarrow> SplitFirst (h @ CHR ''/'' # t) = Some (h, t)"
  by (simp add: SplitFirst_def)

lemma SplitFirst_Some: "SplitFirst r = Some (h, t) \<longleftrightarrow> r = h @ CHR ''/'' # t \<and> CHR ''/'' \<notin> set h"
proof
  assume a: "SplitFirst r = Some (h, t)"
  then obtain d where d: "dropWhile (\<lambda>c. c \<noteq> CHR ''/'') r = d # t"
    and h: "h = takeWhile (\<lambda>c. c \<noteq> CHR ''/'') r"
    by (auto simp: SplitFirst_def split: list.splits)
  from dropWhile_sepD[OF d] h show "r = h @ CHR ''/'' # t \<and> CHR ''/'' \<notin> set h"
    by (simp add: sep_notin_takeWhile)
qed simp

lemma SplitFirst_Cons [simp]:
  "SplitFirst (c # s) =
     (if c = CHR ''/'' then Some ([], s) else map_option (apfst (Cons c)) (SplitFirst s))"
  by (cases "dropWhile (\<lambda>c. c \<noteq> CHR ''/'') s") (simp_all add: SplitFirst_def del: dropWhile_eq_Nil_conv)

section \<open>The route grammar and the parser\<close>

text \<open>
  The routes of \<open>docs/03_wire_protocol.md\<close> section 1.1 as a relation between full keys
  and their classification.
\<close>

inductive route_key :: "string \<Rightarrow> string \<Rightarrow> ParsedKey \<Rightarrow> bool" for p where
  base_batch: "route_key p (p @ ''/base/'' @ kBatchSegment) (parsed KeyBase '''' '''' '''' True None)"
| base_value: "IsValidKey u \<Longrightarrow>
    route_key p (p @ ''/base/'' @ u) (parsed KeyBase '''' '''' u False None)"
| session_batch: "IsValidSessionId sid \<Longrightarrow>
    route_key p (p @ ''/session/'' @ sid @ ''/'' @ kBatchSegment)
      (parsed KeySession sid '''' '''' True None)"
| session_value: "IsValidSessionId sid \<Longrightarrow> IsValidKey u \<Longrightarrow>
    route_key p (p @ ''/session/'' @ sid @ ''/'' @ u) (parsed KeySession sid '''' u False None)"
| snap_value: "IsValidSessionId sid \<Longrightarrow> IsValidKey u \<Longrightarrow>
    route_key p (p @ ''/snap/'' @ sid @ ''/'' @ u) (parsed KeySnapshot sid '''' u False None)"
| buffer_value: "IsValidSessionId sid \<Longrightarrow> IsValidKey u \<Longrightarrow>
    route_key p (p @ ''/buffers/'' @ sid @ ''/'' @ buffer_class_name bc @ ''/'' @ u)
      (parsed KeyBuffer sid '''' u False (Some bc))"
| meta_session: "IsValidSessionId sid \<Longrightarrow>
    route_key p (p @ ''/meta/session/'' @ sid) (parsed KeyMetaSession sid '''' '''' False None)"
| meta_ack: "IsValidAckUuid uuid \<Longrightarrow>
    route_key p (p @ ''/meta/ack/'' @ uuid) (parsed KeyMetaAck '''' uuid '''' False None)"

inductive_cases route_keyE: "route_key p key k"

lemma SplitFirst_buffer_class [simp]:
  "SplitFirst (buffer_class_name bc @ CHR ''/'' # u) = Some (buffer_class_name bc, u)"
  by (cases bc) (simp_all add: buffer_class_name_def SplitFirst_def)

lemma ParseKey_head:
  assumes "CHR ''/'' \<notin> set h"
  shows "ParseKey p (p @ CHR ''/'' # h @ CHR ''/'' # tail) =
     (if h = ''base'' then ParseBaseTail tail
      else if h = ''session'' then ParseSessionTail tail
      else if h = ''snap'' then ParseSnapTail tail
      else if h = ''buffers'' then ParseBuffersTail tail
      else if h = ''meta'' then ParseMetaTail tail
      else None)"
proof -
  have "h @ CHR ''/'' # tail \<noteq> ''base''"
  proof
    assume "h @ CHR ''/'' # tail = ''base''"
    then have "CHR ''/'' \<in> set ''base''" by (metis in_set_conv_decomp)
    then show False by simp
  qed
  with assms show ?thesis by (simp add: ParseKey_def)
qed

lemmas ParseKey_heads [simp] =
  ParseKey_head[of "''base''", simplified] ParseKey_head[of "''session''", simplified]
  ParseKey_head[of "''snap''", simplified] ParseKey_head[of "''buffers''", simplified]
  ParseKey_head[of "''meta''", simplified]

lemmas parse_tail_defs =
  ParseBaseTail_def ParseSessionTail_def ParseSnapTail_def ParseBuffersTail_def ParseMetaTail_def

lemma route_key_parses: "route_key p key k \<Longrightarrow> ParseKey p key = Some k"
proof (induction rule: route_key.induct)
  case (buffer_value sid u bc)
  then show ?case by (cases bc) (simp_all add: ParseBuffersTail_def buffer_class_name_def)
qed (auto simp: parse_tail_defs)

lemma ParseBaseTail_route:
  "ParseBaseTail t = Some k \<Longrightarrow> route_key p (p @ ''/base/'' @ t) k"
  using base_batch[of p] base_value[of _ p]
  by (auto simp: ParseBaseTail_def split: if_splits)

lemma ParseSessionTail_route:
  "ParseSessionTail t = Some k \<Longrightarrow> route_key p (p @ ''/session/'' @ t) k"
  using session_batch[of _ p] session_value[of _ _ p]
  by (auto simp: ParseSessionTail_def SplitFirst_Some split: option.splits prod.splits if_splits)

lemma ParseSnapTail_route:
  "ParseSnapTail t = Some k \<Longrightarrow> route_key p (p @ ''/snap/'' @ t) k"
  using snap_value[of _ _ p]
  by (auto simp: ParseSnapTail_def SplitFirst_Some split: option.splits prod.splits if_splits)

lemma ParseBuffersTail_route:
  "ParseBuffersTail t = Some k \<Longrightarrow> route_key p (p @ ''/buffers/'' @ t) k"
  using buffer_value[of _ _ p Durable] buffer_value[of _ _ p Ephemeral]
  by (auto simp: ParseBuffersTail_def SplitFirst_Some buffer_class_name_def
      split: option.splits prod.splits if_splits)

lemma ParseMetaTail_route:
  "ParseMetaTail t = Some k \<Longrightarrow> route_key p (p @ ''/meta/'' @ t) k"
  using meta_session[of _ p] meta_ack[of _ p]
  by (auto simp: ParseMetaTail_def SplitFirst_Some split: option.splits prod.splits if_splits)

lemma ParseKey_route: "ParseKey p key = Some k \<Longrightarrow> route_key p key k"
proof -
  assume parse: "ParseKey p key = Some k"
  then obtain rest where "StripPrefix p key = Some rest"
    by (auto simp: ParseKey_def split: option.splits)
  then have key: "key = p @ CHR ''/'' # rest" by (simp add: StripPrefix_Some)
  with parse obtain h t where "SplitFirst rest = Some (h, t)"
    by (auto simp: ParseKey_def split: option.splits if_splits)
  then have rest: "rest = h @ CHR ''/'' # t" "CHR ''/'' \<notin> set h"
    by (simp_all add: SplitFirst_Some)
  from parse have tails: "(if h = ''base'' then ParseBaseTail t
      else if h = ''session'' then ParseSessionTail t
      else if h = ''snap'' then ParseSnapTail t
      else if h = ''buffers'' then ParseBuffersTail t
      else if h = ''meta'' then ParseMetaTail t else None) = Some k"
    unfolding key rest(1) ParseKey_head[OF rest(2)] .
  show ?thesis
    using tails ParseBaseTail_route[of t k p] ParseSessionTail_route[of t k p]
      ParseSnapTail_route[of t k p] ParseBuffersTail_route[of t k p] ParseMetaTail_route[of t k p]
    by (simp add: key rest(1) split: if_splits)
qed

lemma ParseKey_iff_route: "ParseKey p key = Some k \<longleftrightarrow> route_key p key k"
  using ParseKey_route route_key_parses by blast

section \<open>Builders and parser are inverse\<close>

text \<open>The builder that produces a classified key, by kind.\<close>

definition RenderKey :: "string \<Rightarrow> ParsedKey \<Rightarrow> string option" where
  "RenderKey p k = (case pk_kind k of
     KeyBase \<Rightarrow> if pk_is_batch k then BuildBatchKey p ''base''
                else BuildKey p ''base'' (pk_relative_key k)
   | KeySession \<Rightarrow> if pk_is_batch k then BuildBatchKey p (''session/'' @ pk_sid k)
                else BuildKey p (''session/'' @ pk_sid k) (pk_relative_key k)
   | KeySnapshot \<Rightarrow> BuildKey p (''snap/'' @ pk_sid k) (pk_relative_key k)
   | KeyBuffer \<Rightarrow> Option.bind (pk_buffer_class k)
                  (\<lambda>bc. BuildBufferKey p (pk_sid k) bc (pk_relative_key k))
   | KeyMetaSession \<Rightarrow> BuildMetaSessionKey p (pk_sid k)
   | KeyMetaAck \<Rightarrow> BuildMetaAckKey p (pk_uuid k))"

text \<open>The fields a kind does not use are empty, as the comments on \<open>ParsedKey\<close> say.\<close>

definition parsed_key_wf :: "ParsedKey \<Rightarrow> bool" where
  "parsed_key_wf k =
    ((pk_kind k \<in> {KeyBase, KeyMetaAck} \<longrightarrow> pk_sid k = '''') \<and>
     (pk_kind k \<noteq> KeyMetaAck \<longrightarrow> pk_uuid k = '''') \<and>
     (pk_is_batch k \<longrightarrow> pk_kind k \<in> {KeyBase, KeySession} \<and> pk_relative_key k = '''') \<and>
     (pk_kind k \<in> {KeyMetaSession, KeyMetaAck} \<longrightarrow> pk_relative_key k = '''') \<and>
     (pk_kind k \<noteq> KeyBuffer \<longrightarrow> pk_buffer_class k = None))"

lemma parsed_sel [simp]:
  "pk_kind (parsed kd s u r b c) = kd" "pk_sid (parsed kd s u r b c) = s"
  "pk_uuid (parsed kd s u r b c) = u" "pk_relative_key (parsed kd s u r b c) = r"
  "pk_is_batch (parsed kd s u r b c) = b" "pk_buffer_class (parsed kd s u r b c) = c"
  by (simp_all add: parsed_def)

lemma parsed_collapse:
  "k = parsed (pk_kind k) (pk_sid k) (pk_uuid k) (pk_relative_key k) (pk_is_batch k)
     (pk_buffer_class k)"
  by (simp add: parsed_def)

lemma ParseScope_base [simp]:
  "ParseScope ''base'' = Some \<lparr>scope_kind = ScopeBase, scope_sid = ''''\<rparr>"
  by (simp add: ParseScope_def)

lemma valid_sid_nonempty [simp]: "IsValidSessionId sid \<Longrightarrow> sid \<noteq> []"
  by (auto simp: IsValidSessionId_def IsValidId_def)

lemma ParseScope_session [simp]:
  "ParseScope (''session/'' @ sid) =
     (if IsValidSessionId sid then Some \<lparr>scope_kind = ScopeSession, scope_sid = sid\<rparr> else None)"
  using valid_sid_nonempty[of sid] by (auto simp: ParseScope_def)

lemma ParseScope_snap [simp]:
  "ParseScope (''snap/'' @ sid) =
     (if IsValidSessionId sid then Some \<lparr>scope_kind = ScopeSnap, scope_sid = sid\<rparr> else None)"
  using valid_sid_nonempty[of sid] by (auto simp: ParseScope_def)

lemma ParseScope_Some:
  "ParseScope scope = Some s \<longleftrightarrow>
     (scope = ''base'' \<and> s = \<lparr>scope_kind = ScopeBase, scope_sid = ''''\<rparr>) \<or>
     (\<exists>sid. IsValidSessionId sid \<and> scope = ''session/'' @ sid \<and>
        s = \<lparr>scope_kind = ScopeSession, scope_sid = sid\<rparr>) \<or>
     (\<exists>sid. IsValidSessionId sid \<and> scope = ''snap/'' @ sid \<and>
        s = \<lparr>scope_kind = ScopeSnap, scope_sid = sid\<rparr>)" (is "?l \<longleftrightarrow> ?r")
proof
  assume ?l
  then show ?r
    using starts_withD[of scope "''session/''"] starts_withD[of scope "''snap/''"]
    unfolding ParseScope_def by (simp split: if_splits)
next
  assume ?r then show ?l by (elim disjE exE conjE) (simp_all only: ParseScope_base
      ParseScope_session ParseScope_snap if_True)
qed

lemmas builder_defs =
  BuildKey_def BuildBufferKey_def BuildBatchKey_def BuildMetaSessionKey_def BuildMetaAckKey_def

lemma BuildBatchKey_session:
  "BuildBatchKey p (''session/'' @ sid) =
     (if IsValidPrefix p \<and> IsValidSessionId sid
      then Some (p @ ''/session/'' @ sid @ ''/'' @ kBatchSegment) else None)"
  using valid_sid_nonempty[of sid] by (auto simp: BuildBatchKey_def)

lemma BuildKey_session:
  "BuildKey p (''session/'' @ sid) u =
     (if IsValidPrefix p \<and> IsValidSessionId sid \<and> IsValidKey u
      then Some (p @ ''/session/'' @ sid @ ''/'' @ u) else None)"
  unfolding BuildKey_def ParseScope_session by simp

lemma BuildKey_snap:
  "BuildKey p (''snap/'' @ sid) u =
     (if IsValidPrefix p \<and> IsValidSessionId sid \<and> IsValidKey u
      then Some (p @ ''/snap/'' @ sid @ ''/'' @ u) else None)"
  unfolding BuildKey_def ParseScope_snap by simp

lemma BuildKey_base:
  "BuildKey p ''base'' u =
     (if IsValidPrefix p \<and> IsValidKey u then Some (p @ ''/base/'' @ u) else None)"
  unfolding BuildKey_def ParseScope_base by simp

lemma BuildBatchKey_base:
  "BuildBatchKey p ''base'' =
     (if IsValidPrefix p then Some (p @ ''/base/'' @ kBatchSegment) else None)"
  unfolding BuildBatchKey_def by simp

lemmas build_eqs = BuildBatchKey_session BuildKey_session BuildKey_snap BuildKey_base
  BuildBatchKey_base BuildBufferKey_def BuildMetaSessionKey_def BuildMetaAckKey_def

lemmas build_cons_eqs = build_eqs[unfolded append.simps]
lemmas route_cons_intros = route_key.intros[unfolded append.simps]

lemma route_key_wf: "route_key p key k \<Longrightarrow> parsed_key_wf k"
  by (induction rule: route_key.induct) (simp_all add: parsed_key_wf_def)

lemma route_key_renders:
  assumes "IsValidPrefix p" and "route_key p key k"
  shows "RenderKey p k = Some key"
  using assms(2,1)
  by (induction rule: route_key.induct) (simp_all add: RenderKey_def build_cons_eqs)

lemma RenderKey_parsed_route:
  assumes "RenderKey p (parsed kd sid uuid rel bt bc) = Some key"
    and "parsed_key_wf (parsed kd sid uuid rel bt bc)"
  shows "route_key p key (parsed kd sid uuid rel bt bc)"
  using assms
  by (cases kd; cases bt) (auto simp: RenderKey_def build_cons_eqs parsed_key_wf_def
      bind_eq_Some_conv intro: route_cons_intros split: if_splits)

lemma RenderKey_route:
  "RenderKey p k = Some key \<Longrightarrow> parsed_key_wf k \<Longrightarrow> route_key p key k"
  using RenderKey_parsed_route parsed_collapse by metis

lemma ParseSessionLivelinessKey_Some:
  "ParseSessionLivelinessKey p sid key = Some g \<longleftrightarrow>
     IsValidAckUuid g \<and> key = p @ kSessionLiveliness @ sid @ ''/'' @ g"
  by (auto simp: ParseSessionLivelinessKey_def Let_def starts_with_iff)

lemma ParseKey_liveliness: "ParseKey p (p @ kSessionLiveliness @ t) = None"
  by (simp add: kSessionLiveliness_def ParseMetaTail_def)

section \<open>Properties\<close>

text \<open>C35: the incoming-key parser accepts exactly the keys of the documented route grammar,
  and classifies each of them as the grammar does: session ids, user keys and uuids that
  reach the node are valid, \<open>:batch\<close> is recognised only under base and session, and no key
  has two classifications.\<close>

theorem ParseKey_grammar: "ParseKey p key = Some k \<longleftrightarrow> route_key p key k"
  by (rule ParseKey_iff_route)

text \<open>Under a valid prefix, the parser and the builders are inverse: a classification is
  returned exactly for the key its builder makes from it, and its unused fields are empty.\<close>

theorem ParseKey_build_inverse:
  assumes "IsValidPrefix p"
  shows "ParseKey p key = Some k \<longleftrightarrow> parsed_key_wf k \<and> RenderKey p k = Some key"
  using ParseKey_iff_route RenderKey_route assms route_key_renders route_key_wf by blast

theorem ParseKey_build_inverse_witness:
  "ParseKey ''app/x'' ''app/x/session/s1/a.b/c'' =
     Some (parsed KeySession ''s1'' '''' ''a.b/c'' False None)"
proof -
  have "IsValidPrefix ''app/x''" by code_simp
  moreover have "parsed_key_wf (parsed KeySession ''s1'' '''' ''a.b/c'' False None)" by code_simp
  moreover have "RenderKey ''app/x'' (parsed KeySession ''s1'' '''' ''a.b/c'' False None) =
      Some ''app/x/session/s1/a.b/c''" by code_simp
  ultimately show ?thesis using ParseKey_build_inverse by blast
qed

text \<open>Session liveliness keys round-trip: for a valid prefix and session id the parser
  returns a generation exactly when the builder makes the key from it, and no such key is
  ever classified as a value, batch, buffer or metadata route.\<close>

theorem liveliness_key_roundtrip:
  assumes "IsValidPrefix p" and "IsValidSessionId sid"
  shows "(ParseSessionLivelinessKey p sid key = Some g \<longleftrightarrow>
           BuildSessionLivelinessKey p sid g = Some key) \<and>
         (ParseSessionLivelinessKey p sid key = Some g \<longrightarrow> ParseKey p key = None)"
  using assms by (auto simp: ParseSessionLivelinessKey_Some BuildSessionLivelinessKey_def
      ParseKey_liveliness split: if_splits)

theorem liveliness_key_roundtrip_witness:
  "ParseSessionLivelinessKey ''app'' ''s1'' ''app/meta/live/session/s1/g-1'' = Some ''g-1'' \<and>
   ParseKey ''app'' ''app/meta/live/session/s1/g-1'' = None"
proof -
  have "IsValidPrefix ''app''" "IsValidSessionId ''s1''" by code_simp+
  moreover have "BuildSessionLivelinessKey ''app'' ''s1'' ''g-1'' =
      Some ''app/meta/live/session/s1/g-1''" by code_simp
  ultimately show ?thesis using liveliness_key_roundtrip by blast
qed

end
