(* ===== verification/ParamValue.thy ===== *)
theory ParamValue
  imports Prelude
begin

text \<open>
  The typed parameter value and its payload v1 codec, \<open>src/param_value.cpp\<close> and
  \<open>include/sitos/param_value.hpp\<close>.  A \<open>double\<close> is its binary64 bit pattern, which is what
  \<open>memcpy\<close> moves; \<open>std::isnan\<close>, \<open>std::isfinite\<close> and \<open>std::trunc\<close> are written on the
  pattern.  Conversions that round (to \<open>double\<close> or \<open>float\<close>) are not modelled.
\<close>

datatype ParamValue =
    PV_Bool bool
  | PV_S64 "64 word"
  | PV_Dp u64
  | PV_Str string
  | PV_Bytes bytes

datatype ValueType = VT_Bool | VT_S64 | VT_Dp | VT_Str | VT_Bytes

definition value_type_tag :: "ValueType \<Rightarrow> byte" where
  "value_type_tag t = (case t of VT_Bool \<Rightarrow> 0 | VT_S64 \<Rightarrow> 1 | VT_Dp \<Rightarrow> 2 | VT_Str \<Rightarrow> 3 | VT_Bytes \<Rightarrow> 4)"

definition pv_type :: "ParamValue \<Rightarrow> ValueType" where
  "pv_type v = (case v of PV_Bool _ \<Rightarrow> VT_Bool | PV_S64 _ \<Rightarrow> VT_S64 | PV_Dp _ \<Rightarrow> VT_Dp
     | PV_Str _ \<Rightarrow> VT_Str | PV_Bytes _ \<Rightarrow> VT_Bytes)"

section \<open>Binary64 patterns\<close>

definition dp_exponent :: "u64 \<Rightarrow> nat" where
  "dp_exponent d = unat (take_bit 11 (drop_bit 52 d))"

definition dp_mantissa :: "u64 \<Rightarrow> nat" where
  "dp_mantissa d = unat (take_bit 52 d)"

definition dp_negative :: "u64 \<Rightarrow> bool" where
  "dp_negative d = bit d 63"

definition isnan :: "u64 \<Rightarrow> bool" where
  "isnan d \<longleftrightarrow> dp_exponent d = 2047 \<and> dp_mantissa d \<noteq> 0"

definition isfinite :: "u64 \<Rightarrow> bool" where
  "isfinite d \<longleftrightarrow> dp_exponent d \<noteq> 2047"

definition dp_is_zero :: "u64 \<Rightarrow> bool" where
  "dp_is_zero d \<longleftrightarrow> dp_exponent d = 0 \<and> dp_mantissa d = 0"

text \<open>The integer \<open>std::trunc\<close> yields for a finite pattern.\<close>

definition dp_trunc :: "u64 \<Rightarrow> int" where
  "dp_trunc d =
    (let e = dp_exponent d;
         m = (if e = 0 then dp_mantissa d else dp_mantissa d + 2 ^ 52);
         e' = (if e = 0 then 1 else e);
         mag = (if e' \<ge> 1075 then m * 2 ^ (e' - 1075) else m div 2 ^ (1075 - e'))
     in if dp_negative d then - int mag else int mag)"

section \<open>Payload v1\<close>

definition AppendLeU64 :: "u64 \<Rightarrow> bytes \<Rightarrow> bytes" where
  "AppendLeU64 u out = out @ le_put 8 u"

definition kCanonicalNanBody :: bytes where
  "kCanonicalNanBody = [0, 0, 0, 0, 0, 0, 0xf8, 0x7f]"

definition EncodeBody :: "ParamValue \<Rightarrow> bytes" where
  "EncodeBody v = (case v of
     PV_Bool b \<Rightarrow> [if b then 1 else 0]
   | PV_S64 s \<Rightarrow> AppendLeU64 s []
   | PV_Dp d \<Rightarrow> if isnan d then kCanonicalNanBody else AppendLeU64 d []
   | PV_Str s \<Rightarrow> bytes_of_string s
   | PV_Bytes b \<Rightarrow> b)"

definition Encode :: "ParamValue \<Rightarrow> bytes" where
  "Encode v = value_type_tag (pv_type v) # EncodeBody v"

definition DecodeTagged :: "byte \<Rightarrow> bytes \<Rightarrow> ParamValue option" where
  "DecodeTagged tag body =
    (if tag = 0 then
       (if length body \<noteq> 1 then None else Some (PV_Bool (body ! 0 \<noteq> 0)))
     else if tag = 1 then
       (if length body \<noteq> 8 then None else Some (PV_S64 (le_get body)))
     else if tag = 2 then
       (if length body \<noteq> 8 then None else Some (PV_Dp (le_get body)))
     else if tag = 3 then Some (PV_Str (string_of_bytes body))
     else if tag = 4 then Some (PV_Bytes body)
     else None)"

definition Decode :: "bytes \<Rightarrow> ParamValue option" where
  "Decode payload = (case payload of [] \<Rightarrow> None | tag # body \<Rightarrow> DecodeTagged tag body)"

section \<open>Typed extraction\<close>

text \<open>An integral target type: its signedness and \<open>std::numeric_limits<T>::digits\<close>.\<close>

record IntegralType =
  it_signed :: bool
  it_digits :: nat

definition it_min :: "IntegralType \<Rightarrow> int" where
  "it_min T = (if it_signed T then - (2 ^ it_digits T) else 0)"

definition it_max :: "IntegralType \<Rightarrow> int" where
  "it_max T = 2 ^ it_digits T - 1"

definition IsOutsideIntegralRangeS64 :: "IntegralType \<Rightarrow> 64 word \<Rightarrow> bool" where
  "IsOutsideIntegralRangeS64 T v \<longleftrightarrow> \<not> (it_min T \<le> sint v \<and> sint v \<le> it_max T)"

definition IsOutsideIntegralRangeDp :: "IntegralType \<Rightarrow> u64 \<Rightarrow> bool" where
  "IsOutsideIntegralRangeDp T v =
    (if \<not> isfinite v then True
     else let truncated = dp_trunc v; upper_bound = 2 ^ it_digits T in
       if it_signed T \<and> truncated < - upper_bound then True
       else if \<not> it_signed T \<and> truncated < 0 then True
       else truncated \<ge> upper_bound)"

definition As_bool :: "ParamValue \<Rightarrow> bool option" where
  "As_bool v = (case v of
     PV_Bool b \<Rightarrow> Some b | PV_S64 s \<Rightarrow> Some (s \<noteq> 0) | PV_Dp d \<Rightarrow> Some (\<not> dp_is_zero d)
   | _ \<Rightarrow> None)"

definition As_integral :: "IntegralType \<Rightarrow> ParamValue \<Rightarrow> int option" where
  "As_integral T v = (case v of
     PV_Bool b \<Rightarrow> Some (if b then 1 else 0)
   | PV_S64 s \<Rightarrow> if IsOutsideIntegralRangeS64 T s then None else Some (sint s)
   | PV_Dp d \<Rightarrow> if IsOutsideIntegralRangeDp T d then None else Some (dp_trunc d)
   | _ \<Rightarrow> None)"

definition As_string :: "ParamValue \<Rightarrow> string option" where
  "As_string v = (case v of PV_Str s \<Rightarrow> Some s | _ \<Rightarrow> None)"

definition As_bytes :: "ParamValue \<Rightarrow> bytes option" where
  "As_bytes v = (case v of PV_Bytes b \<Rightarrow> Some b | _ \<Rightarrow> None)"

section \<open>Lemmas\<close>

text \<open>The value a codec trip returns: every NaN becomes the canonical quiet NaN.\<close>

definition kCanonicalNan :: u64 where
  "kCanonicalNan = 0x7ff8000000000000"

definition normalize :: "ParamValue \<Rightarrow> ParamValue" where
  "normalize v = (case v of PV_Dp d \<Rightarrow> if isnan d then PV_Dp kCanonicalNan else v | _ \<Rightarrow> v)"

lemma le_get_canonical_nan [simp]: "le_get kCanonicalNanBody = kCanonicalNan"
proof -
  have "le_put 8 kCanonicalNan = kCanonicalNanBody"
    by (simp add: le_put_def upt_rec kCanonicalNan_def kCanonicalNanBody_def)
  then show ?thesis by (metis le_get_put_u64)
qed

lemma length_canonical_nan [simp, wire_simps]: "length kCanonicalNanBody = 8"
  by (simp add: kCanonicalNanBody_def)

lemma isnan_canonical [simp]: "isnan kCanonicalNan"
  by (simp add: isnan_def dp_exponent_def dp_mantissa_def kCanonicalNan_def)

lemma normalize_idem [simp]: "normalize (normalize v) = normalize v"
  by (cases v) (simp_all add: normalize_def)

lemma pv_type_normalize [simp]: "pv_type (normalize v) = pv_type v"
  by (cases v) (simp_all add: normalize_def pv_type_def)

lemma EncodeBody_normalize [simp]: "EncodeBody (normalize v) = EncodeBody v"
  by (cases v) (simp_all add: normalize_def EncodeBody_def)

lemma DecodeTagged_EncodeBody [simp]:
  "DecodeTagged (value_type_tag (pv_type v)) (EncodeBody v) = Some (normalize v)"
  by (cases v) (simp_all add: DecodeTagged_def EncodeBody_def normalize_def pv_type_def
      value_type_tag_def AppendLeU64_def)

lemma DecodeTagged_tag:
  "DecodeTagged tag body = Some v \<Longrightarrow> value_type_tag (pv_type v) = tag"
  by (auto simp: DecodeTagged_def pv_type_def value_type_tag_def split: if_splits)

lemma DecodeTagged_reencode:
  assumes "DecodeTagged tag body = Some v"
    and "tag = 0 \<longrightarrow> body ! 0 \<in> {0, 1}"
    and "tag = 2 \<longrightarrow> \<not> isnan (le_get body) \<or> body = kCanonicalNanBody"
  shows "EncodeBody v = body"
proof -
  have one: "body = [body ! 0]" if "length body = 1"
    using that by (cases body) auto
  show ?thesis
    using assms one
    by (auto simp: DecodeTagged_def EncodeBody_def AppendLeU64_def le_put_get_u64
        split: if_splits)
qed

lemma in_integral_range_Dp:
  "IsOutsideIntegralRangeDp T d \<longleftrightarrow>
     \<not> (isfinite d \<and> it_min T \<le> dp_trunc d \<and> dp_trunc d \<le> it_max T)"
  by (auto simp: IsOutsideIntegralRangeDp_def it_min_def it_max_def Let_def)

interpretation value_codec: codec Encode Decode "\<lambda>v. normalize v = v"
  by unfold_locales (simp add: Encode_def Decode_def)

section \<open>Properties\<close>

text \<open>C36: decoding an encoded parameter value returns that value with NaN payloads replaced
  by the canonical quiet NaN, and equal encodings come only from values equal up to that
  replacement.\<close>

theorem param_value_roundtrip:
  "Decode (Encode v) = Some (normalize v) \<and>
   (Encode v = Encode w \<longleftrightarrow> normalize v = normalize w)"
proof -
  have dec: "Decode (Encode u) = Some (normalize u)" for u by (simp add: Encode_def Decode_def)
  moreover have "Encode (normalize u) = Encode u" for u by (simp add: Encode_def)
  ultimately show ?thesis by (metis option.inject)
qed

text \<open>Every payload the decoder accepts re-encodes to itself, except that a Bool body
  other than 0 or 1 and a non-canonical NaN body are rewritten to their canonical spelling.\<close>

theorem param_value_reencode:
  assumes "Decode (tag # body) = Some v"
    and "tag = 0 \<longrightarrow> body ! 0 \<in> {0, 1}"
    and "tag = 2 \<longrightarrow> \<not> isnan (le_get body) \<or> body = kCanonicalNanBody"
  shows "Encode v = tag # body"
  using assms DecodeTagged_reencode[of tag body v] DecodeTagged_tag[of tag body v]
  by (simp add: Decode_def Encode_def)

theorem param_value_reencode_witness:
  "Encode (PV_S64 0x0807060504030201) = [1, 1, 2, 3, 4, 5, 6, 7, 8]"
proof -
  have "Decode [1, 1, 2, 3, 4, 5, 6, 7, 8] = Some (PV_S64 0x0807060504030201)"
    by (simp add: Decode_def DecodeTagged_def le_get_def)
  from param_value_reencode[OF this] show ?thesis by simp
qed

text \<open>C37: integral extraction is exact: it succeeds on a number exactly when the value
  truncated towards zero lies in the range of the target type, and then returns that
  integer; an integer is never wrapped.\<close>

theorem As_integral_exact:
  assumes "0 < it_digits T"
  shows "As_integral T v = Some n \<longleftrightarrow> it_min T \<le> n \<and> n \<le> it_max T \<and>
    (case v of PV_Bool b \<Rightarrow> n = (if b then 1 else 0)
     | PV_S64 s \<Rightarrow> n = sint s
     | PV_Dp d \<Rightarrow> isfinite d \<and> n = dp_trunc d
     | _ \<Rightarrow> False)"
proof -
  have "(2::int) \<le> 2 ^ it_digits T"
    using assms power_increasing[of 1 "it_digits T" "2::int"] by simp
  then have "it_min T \<le> 0" "1 \<le> it_max T" by (simp_all add: it_min_def it_max_def)
  then show ?thesis
    by (cases v) (auto simp: As_integral_def IsOutsideIntegralRangeS64_def in_integral_range_Dp)
qed

theorem As_integral_exact_witness:
  "As_integral \<lparr>it_signed = True, it_digits = 7\<rparr> (PV_S64 (- 128)) = Some (- 128)"
proof -
  have "sint (- 128 :: 64 word) = - 128" by simp
  then show ?thesis
    using As_integral_exact[of "\<lparr>it_signed = True, it_digits = 7\<rparr>" "PV_S64 (- 128)" "- 128"]
    by (simp add: it_min_def it_max_def)
qed

end
