(* ===== verification/Batch.thy ===== *)
theory Batch
  imports ParamValue
begin

text \<open>
  The batch codec \<open>src/batch.cpp\<close> (encoding \<open>sitos.v1.batch\<close>): a count, then for each
  entry the length-prefixed key, the type tag and the length-prefixed value body.  The
  decoder keeps the code's running offset.  The lemmas characterise it against the layout:
  it accepts exactly the well-formed payloads and consumes every byte.
\<close>

record BatchEntry =
  be_key :: string
  be_value :: ParamValue

definition AppendLeU32 :: "u32 \<Rightarrow> bytes \<Rightarrow> bytes" where
  "AppendLeU32 v out = out @ le_put 4 v"

definition ReadLeU32 :: "bytes \<Rightarrow> nat \<Rightarrow> (u32 \<times> nat) option" where
  "ReadLeU32 p off =
    (if off + 4 > length p then None else Some (le_get (take 4 (drop off p)), off + 4))"

definition EncodeBatchEntry :: "BatchEntry \<Rightarrow> bytes \<Rightarrow> bytes" where
  "EncodeBatchEntry entry out =
    (let out = AppendLeU32 (of_nat (length (be_key entry))) out;
         out = out @ bytes_of_string (be_key entry);
         out = out @ [value_type_tag (pv_type (be_value entry))];
         body = EncodeBody (be_value entry);
         out = AppendLeU32 (of_nat (length body)) out
     in out @ body)"

definition EncodeBatch :: "BatchEntry list \<Rightarrow> bytes" where
  "EncodeBatch entries = fold EncodeBatchEntry entries (AppendLeU32 (of_nat (length entries)) [])"

definition DecodeBatchEntry :: "bytes \<Rightarrow> nat \<Rightarrow> (BatchEntry \<times> nat) option" where
  "DecodeBatchEntry payload off =
    (case ReadLeU32 payload off of
       None \<Rightarrow> None
     | Some (k_len, off) \<Rightarrow>
         if unat k_len > length payload - off then None else
         let key = string_of_bytes (take (unat k_len) (drop off payload));
             off = off + unat k_len in
         if off \<ge> length payload then None else
         let tag = payload ! off; off = off + 1 in
         (case ReadLeU32 payload off of
            None \<Rightarrow> None
          | Some (v_len, off) \<Rightarrow>
              if unat v_len > length payload - off then None else
              (case DecodeTagged tag (take (unat v_len) (drop off payload)) of
                 None \<Rightarrow> None
               | Some value \<Rightarrow> Some (\<lparr>be_key = key, be_value = value\<rparr>, off + unat v_len))))"

text \<open>The \<open>for\<close> loop, counting the entries left to read.\<close>

fun DecodeBatchLoop :: "bytes \<Rightarrow> nat \<Rightarrow> nat \<Rightarrow> BatchEntry list \<Rightarrow> (BatchEntry list \<times> nat) option" where
  "DecodeBatchLoop payload 0 off result = Some (result, off)"
| "DecodeBatchLoop payload (Suc n) off result =
    (case DecodeBatchEntry payload off of
       None \<Rightarrow> None
     | Some (entry, off) \<Rightarrow> DecodeBatchLoop payload n off (result @ [entry]))"

definition DecodeBatch :: "bytes \<Rightarrow> BatchEntry list option" where
  "DecodeBatch payload =
    (case ReadLeU32 payload 0 of
       None \<Rightarrow> None
     | Some (count, off) \<Rightarrow>
         if unat count > length payload div 9 + 1 then None else
         (case DecodeBatchLoop payload (unat count) off [] of
            None \<Rightarrow> None
          | Some (result, off) \<Rightarrow> if off \<noteq> length payload then None else Some result))"

section \<open>The layout\<close>

text \<open>A raw entry is a key, a tag and a body; \<open>frame\<close> is its place in the payload.\<close>

type_synonym raw_entry = "string \<times> byte \<times> bytes"

definition raw_wf :: "raw_entry \<Rightarrow> bool" where
  "raw_wf r = (case r of (key, tag, body) \<Rightarrow> length key < 2 ^ 32 \<and> length body < 2 ^ 32)"

definition frame :: "raw_entry \<Rightarrow> bytes" where
  "frame r = (case r of (key, tag, body) \<Rightarrow>
     le_put 4 (of_nat (length key) :: u32) @ bytes_of_string key @ [tag] @
     le_put 4 (of_nat (length body) :: u32) @ body)"

definition raw_decodes :: "raw_entry \<Rightarrow> BatchEntry \<Rightarrow> bool" where
  "raw_decodes r e = (case r of (key, tag, body) \<Rightarrow>
     be_key e = key \<and> DecodeTagged tag body = Some (be_value e))"

definition raw_of :: "BatchEntry \<Rightarrow> raw_entry" where
  "raw_of e = (be_key e, value_type_tag (pv_type (be_value e)), EncodeBody (be_value e))"

definition batch_layout :: "raw_entry list \<Rightarrow> bytes" where
  "batch_layout rs = le_put 4 (of_nat (length rs) :: u32) @ concat (map frame rs)"

lemma unat_u32_of_nat [simp]: "n < 2 ^ 32 \<Longrightarrow> unat (of_nat n :: u32) = n"
  by (simp add: unat_of_nat)

lemma u32_of_nat_unat [simp]: "of_nat (unat w) = (w :: u32)"
  by simp

lemma length_frame_ge: "9 \<le> length (frame r)"
  by (cases r) (simp add: frame_def)

lemma ReadLeU32_here [simp]:
  "ReadLeU32 (pre @ le_put 4 v @ suf) (length pre) = Some (v, length pre + 4)"
  by (simp add: ReadLeU32_def)

lemma ReadLeU32_SomeD:
  assumes "ReadLeU32 p off = Some (v, off')"
  shows "off' = off + 4" "off' \<le> length p" "drop off p = le_put 4 v @ drop off' p"
proof -
  from assms show a: "off' = off + 4" "off' \<le> length p"
    by (auto simp: ReadLeU32_def split: if_splits)
  from assms have "v = le_get (take 4 (drop off p))"
    by (auto simp: ReadLeU32_def split: if_splits)
  with a have "le_put 4 v = take 4 (drop off p)" by (simp add: le_put_get_u32)
  with a show "drop off p = le_put 4 v @ drop off' p"
    by (metis add.commute append_take_drop_id drop_drop)
qed

lemma EncodeBatchEntry_frame: "EncodeBatchEntry e out = out @ frame (raw_of e)"
  by (simp add: EncodeBatchEntry_def AppendLeU32_def frame_def raw_of_def Let_def)

lemma EncodeBatch_layout: "EncodeBatch es = batch_layout (map raw_of es)"
proof -
  have "fold EncodeBatchEntry es out = out @ concat (map (frame \<circ> raw_of) es)" for out
    by (induction es arbitrary: out) (simp_all add: EncodeBatchEntry_frame)
  then show ?thesis by (simp add: EncodeBatch_def batch_layout_def AppendLeU32_def)
qed

section \<open>The decoder accepts the layout\<close>

lemma DecodeBatchEntry_frame:
  assumes "raw_wf r" "raw_decodes r e"
  shows "DecodeBatchEntry (pre @ frame r @ suf) (length pre) = Some (e, length pre + length (frame r))"
proof -
  obtain key tag body where r: "r = (key, tag, body)" by (cases r)
  let ?k = "le_put 4 (of_nat (length key) :: u32)" and ?v = "le_put 4 (of_nat (length body) :: u32)"
  define p where "p = pre @ ?k @ bytes_of_string key @ [tag] @ ?v @ body @ suf"
  have p: "pre @ frame r @ suf = p" by (simp add: r frame_def p_def)
  have "ReadLeU32 ((pre @ ?k @ bytes_of_string key @ [tag]) @ ?v @ (body @ suf))
      (length (pre @ ?k @ bytes_of_string key @ [tag])) =
      Some (of_nat (length body), length (pre @ ?k @ bytes_of_string key @ [tag]) + 4)"
    by (rule ReadLeU32_here)
  then have second: "ReadLeU32 p (length pre + 4 + length key + 1) =
      Some (of_nat (length body), length pre + 4 + length key + 1 + 4)"
    by (simp add: ac_simps p_def)
  have first: "ReadLeU32 p (length pre) = Some (of_nat (length key), length pre + 4)"
    unfolding p_def by (rule ReadLeU32_here)
  have key: "take (length key) (drop (length pre + 4) p) = bytes_of_string key"
    by (simp add: p_def)
  have tag: "p ! (length pre + 4 + length key) = tag" by (simp add: p_def nth_append)
  have body: "take (length body) (drop (length pre + 4 + length key + 1 + 4) p) = body"
    by (simp add: p_def)
  have len: "length p = length pre + 4 + length key + 1 + 4 + length body + length suf"
    by (simp add: p_def)
  show ?thesis
    using assms first second key tag body len unfolding p DecodeBatchEntry_def
    by (simp add: r raw_wf_def raw_decodes_def frame_def Let_def)
qed

lemma DecodeBatchLoop_frames:
  assumes "list_all2 (\<lambda>r e. raw_wf r \<and> raw_decodes r e) rs es"
  shows "DecodeBatchLoop (pre @ concat (map frame rs) @ suf) (length rs) (length pre) acc =
    Some (acc @ es, length pre + length (concat (map frame rs)))"
  using assms
proof (induction rs es arbitrary: pre acc rule: list_all2_induct)
  case Nil
  then show ?case by simp
next
  case (Cons r rs e es)
  have "DecodeBatchEntry (pre @ frame r @ (concat (map frame rs) @ suf)) (length pre) =
      Some (e, length (pre @ frame r))"
    using Cons.hyps by (simp add: DecodeBatchEntry_frame)
  with Cons.IH[of "pre @ frame r" "acc @ [e]"] show ?case by simp
qed

lemma length_frames_ge: "9 * length rs \<le> length (concat (map frame rs))"
proof (induction rs)
  case (Cons r rs)
  with length_frame_ge[of r] show ?case by simp
qed simp

lemma DecodeBatch_layout:
  assumes "list_all2 (\<lambda>r e. raw_wf r \<and> raw_decodes r e) rs es" and "length rs < 2 ^ 32"
  shows "DecodeBatch (batch_layout rs) = Some es"
proof -
  let ?c = "le_put 4 (of_nat (length rs) :: u32)"
  let ?p = "batch_layout rs"
  have "ReadLeU32 ([] @ ?c @ concat (map frame rs)) (length ([] :: bytes)) =
      Some (of_nat (length rs), length ([] :: bytes) + 4)"
    by (rule ReadLeU32_here)
  then have read: "ReadLeU32 ?p 0 = Some (of_nat (length rs), 4)"
    by (simp add: batch_layout_def)
  have "length rs \<le> length (concat (map frame rs)) div 9"
    using length_frames_ge[of rs] by (simp add: less_eq_div_iff_mult_less_eq mult.commute)
  also have "\<dots> \<le> length ?p div 9" by (simp add: batch_layout_def div_le_mono)
  finally have count: "\<not> length rs > length ?p div 9 + 1" by simp
  have "DecodeBatchLoop ?p (length rs) 4 [] = Some (es, length ?p)"
    using DecodeBatchLoop_frames[OF assms(1), of ?c "[]" "[]"]
    by (simp add: batch_layout_def)
  with read count assms(2) show ?thesis by (simp add: DecodeBatch_def)
qed

section \<open>The decoder accepts nothing else\<close>

lemma DecodeBatchEntry_SomeD:
  assumes "DecodeBatchEntry p off = Some (e, off')"
  shows "off' \<le> length p \<and>
    (\<exists>r. raw_wf r \<and> raw_decodes r e \<and> drop off p = frame r @ drop off' p)"
proof -
  from assms obtain k_len o1 where r1: "ReadLeU32 p off = Some (k_len, o1)"
    by (auto simp: DecodeBatchEntry_def split: option.splits)
  define o2 where "o2 = o1 + unat k_len"
  define key where "key = string_of_bytes (take (unat k_len) (drop o1 p))"
  from assms r1 obtain v_len o3 where k: "unat k_len \<le> length p - o1" "o2 < length p"
    and r2: "ReadLeU32 p (o2 + 1) = Some (v_len, o3)"
    by (auto simp: DecodeBatchEntry_def Let_def o2_def split: option.splits if_splits)
  define body where "body = take (unat v_len) (drop o3 p)"
  from assms r1 r2 k have v: "unat v_len \<le> length p - o3" "off' = o3 + unat v_len"
    and e: "be_key e = key" "DecodeTagged (p ! o2) body = Some (be_value e)"
    by (auto simp: DecodeBatchEntry_def Let_def o2_def key_def body_def
        split: option.splits if_splits)
  note R1 = ReadLeU32_SomeD[OF r1] and R2 = ReadLeU32_SomeD[OF r2]
  have len: "length key = unat k_len" "length body = unat v_len"
    using k v R1 R2 by (simp_all add: key_def body_def)
  have "drop o1 p = bytes_of_string key @ drop o2 p"
    using append_take_drop_id[of "unat k_len" "drop o1 p"]
    by (simp add: key_def o2_def add.commute del: append_take_drop_id)
  moreover have "drop o2 p = p ! o2 # drop (o2 + 1) p" using k by (simp add: Cons_nth_drop_Suc)
  moreover have "drop o3 p = body @ drop off' p"
    using append_take_drop_id[of "unat v_len" "drop o3 p"]
    by (simp add: body_def v(2) add.commute del: append_take_drop_id)
  ultimately have "drop off p = frame (key, p ! o2, body) @ drop off' p"
    using R1(3) R2(3) len by (simp add: frame_def)
  moreover have "unat k_len < 2 ^ 32" "unat v_len < 2 ^ 32"
    using unsigned_less[of k_len, where ?'a = nat] unsigned_less[of v_len, where ?'a = nat]
    by simp_all
  moreover have "off' \<le> length p" using v R2 by simp
  ultimately show ?thesis
    using e len by (intro conjI exI[of _ "(key, p ! o2, body)"])
      (simp_all add: raw_wf_def raw_decodes_def)
qed

lemma DecodeBatchLoop_SomeD:
  assumes "DecodeBatchLoop p n off acc = Some (result, off')" and "off \<le> length p"
  shows "off' \<le> length p \<and> (\<exists>rs es. length rs = n \<and> result = acc @ es \<and>
    list_all2 (\<lambda>r e. raw_wf r \<and> raw_decodes r e) rs es \<and>
    drop off p = concat (map frame rs) @ drop off' p)"
  using assms
proof (induction n arbitrary: off acc)
  case 0
  then show ?case by auto
next
  case (Suc n)
  from Suc.prems obtain e o1 where entry: "DecodeBatchEntry p off = Some (e, o1)"
    and rest: "DecodeBatchLoop p n o1 (acc @ [e]) = Some (result, off')"
    by (auto split: option.splits)
  from DecodeBatchEntry_SomeD[OF entry] obtain r where r: "o1 \<le> length p" "raw_wf r"
    "raw_decodes r e" "drop off p = frame r @ drop o1 p" by blast
  from Suc.IH[OF rest r(1)] obtain rs es where "off' \<le> length p" "length rs = n"
    "result = acc @ [e] @ es" "list_all2 (\<lambda>r e. raw_wf r \<and> raw_decodes r e) rs es"
    "drop o1 p = concat (map frame rs) @ drop off' p" by auto
  with r show ?case by (intro conjI exI[of _ "r # rs"] exI[of _ "e # es"]) simp_all
qed

lemma DecodeBatch_SomeD:
  assumes "DecodeBatch p = Some es"
  shows "\<exists>rs. length rs < 2 ^ 32 \<and> list_all2 (\<lambda>r e. raw_wf r \<and> raw_decodes r e) rs es \<and>
    p = batch_layout rs"
proof -
  from assms obtain count off where read: "ReadLeU32 p 0 = Some (count, off)"
    by (auto simp: DecodeBatch_def split: option.splits)
  with assms have loop: "DecodeBatchLoop p (unat count) off [] = Some (es, length p)"
    by (auto simp: DecodeBatch_def split: option.splits if_splits)
  note R = ReadLeU32_SomeD[OF read]
  from DecodeBatchLoop_SomeD[OF loop] R(2) obtain rs where "length rs = unat count"
    "list_all2 (\<lambda>r e. raw_wf r \<and> raw_decodes r e) rs es" "drop off p = concat (map frame rs)"
    by auto
  moreover have "unat count < 2 ^ 32" using unsigned_less[of count, where ?'a = nat] by simp
  ultimately show ?thesis using R(3) by (intro exI[of _ rs]) (simp add: batch_layout_def)
qed

text \<open>The entries a sender can frame: every length fits the 32-bit prefixes.\<close>

definition batch_fits :: "BatchEntry list \<Rightarrow> bool" where
  "batch_fits es \<longleftrightarrow> length es < 2 ^ 32 \<and>
     list_all (\<lambda>e. length (be_key e) < 2 ^ 32 \<and> length (EncodeBody (be_value e)) < 2 ^ 32) es"

definition normalize_entry :: "BatchEntry \<Rightarrow> BatchEntry" where
  "normalize_entry e = e\<lparr>be_value := normalize (be_value e)\<rparr>"

lemma EncodeBatch_decodes:
  assumes "batch_fits es"
  shows "DecodeBatch (EncodeBatch es) = Some (map normalize_entry es)"
proof -
  from assms have "list_all2 (\<lambda>r e. raw_wf r \<and> raw_decodes r e) (map raw_of es)
      (map normalize_entry es)"
    by (auto simp: batch_fits_def list_all2_conv_all_nth list_all_length raw_of_def raw_wf_def
        raw_decodes_def normalize_entry_def)
  with assms show ?thesis
    by (simp add: EncodeBatch_layout DecodeBatch_layout batch_fits_def)
qed

interpretation batch_codec: codec EncodeBatch DecodeBatch
    "\<lambda>es. batch_fits es \<and> map normalize_entry es = es"
  by unfold_locales (metis EncodeBatch_decodes)

section \<open>Properties\<close>

text \<open>The batch decoder accepts exactly the payloads of the documented layout: a count,
  then that many frames whose bodies decode under their tags, and not one byte more; it
  returns the entries in payload order.\<close>

theorem DecodeBatch_iff_layout:
  "DecodeBatch payload = Some es \<longleftrightarrow>
    (\<exists>rs. length rs < 2 ^ 32 \<and> payload = batch_layout rs \<and>
       list_all2 (\<lambda>r e. raw_wf r \<and> raw_decodes r e) rs es)"
  using DecodeBatch_SomeD[of payload es] DecodeBatch_layout by blast

text \<open>A batch whose counts and lengths fit their 32-bit prefixes decodes to the entries
  that were encoded, keys unchanged and values equal up to NaN normalisation.\<close>

theorem batch_roundtrip:
  assumes "batch_fits es"
  shows "DecodeBatch (EncodeBatch es) = Some (map normalize_entry es)"
  by (rule EncodeBatch_decodes[OF assms])

theorem batch_roundtrip_witness:
  "DecodeBatch (EncodeBatch [\<lparr>be_key = ''a'', be_value = PV_Bool True\<rparr>,
      \<lparr>be_key = ''b/c'', be_value = PV_Str ''xy''\<rparr>]) =
    Some [\<lparr>be_key = ''a'', be_value = PV_Bool True\<rparr>, \<lparr>be_key = ''b/c'', be_value = PV_Str ''xy''\<rparr>]"
  using batch_roundtrip[of "[\<lparr>be_key = ''a'', be_value = PV_Bool True\<rparr>,
      \<lparr>be_key = ''b/c'', be_value = PV_Str ''xy''\<rparr>]"]
  by (simp add: batch_fits_def EncodeBody_def normalize_entry_def normalize_def)

end
