(* ===== verification/Ack.thy ===== *)
theory Ack
  imports Status
begin

text \<open>
  Acknowledgement tokens, attachments and results, \<open>src/ack.cpp\<close> and
  \<open>include/sitos/ack.hpp\<close>.  An \<open>AckToken\<close> is the list of its sixteen bytes.  The
  enumerators of an \<open>AckResultV1\<close> are datatypes; the decoder's \<open>static_cast\<close> from a raw
  byte is partial, and a byte outside the enumeration is rejected at the point where
  \<open>ValidateAckResult\<close> would reject it.  \<open>std::random_device\<close> is a parameter of
  \<open>GenerateAckToken\<close>.
\<close>

section \<open>Tokens\<close>

type_synonym AckToken = bytes

definition kHexDigits :: string where
  "kHexDigits = ''0123456789abcdef''"

definition HexValue :: "char \<Rightarrow> nat option" where
  "HexValue c = (let n = of_char c :: nat in
     if 48 \<le> n \<and> n \<le> 57 then Some (n - 48)
     else if 97 \<le> n \<and> n \<le> 102 then Some (n - 97 + 10)
     else None)"

definition IsValidAckToken :: "AckToken \<Rightarrow> bool" where
  "IsValidAckToken token \<longleftrightarrow> (token ! 6) AND 0xF0 = 0x40 \<and> (token ! 8) AND 0xC0 = 0x80"

text \<open>\<open>words\<close> are the four values the random device returns.\<close>

definition GenerateAckToken :: "u32 list \<Rightarrow> AckToken" where
  "GenerateAckToken words =
    (let token = concat (map (le_put 4) (take 4 words));
         token = token[6 := (token ! 6 AND 0x0F) OR 0x40]
     in token[8 := (token ! 8 AND 0x3F) OR 0x80])"

fun FormatAckTokenLoop :: "nat \<Rightarrow> bytes \<Rightarrow> string \<Rightarrow> string" where
  "FormatAckTokenLoop i [] text = text"
| "FormatAckTokenLoop i (b # bs) text =
    (let text = (if i \<in> {4, 6, 8, 10} then text @ ''-'' else text)
     in FormatAckTokenLoop (Suc i) bs
          (text @ [kHexDigits ! unat (drop_bit 4 b), kHexDigits ! unat (b AND 0x0F)]))"

definition FormatAckToken :: "AckToken \<Rightarrow> string" where
  "FormatAckToken token = FormatAckTokenLoop 0 token ''''"

text \<open>
  The scan of \<open>ParseAckToken\<close> from position \<open>i\<close>; a lone last character cannot occur in a
  text of 36 characters.
\<close>

fun ParseAckTokenLoop :: "nat \<Rightarrow> string \<Rightarrow> bytes \<Rightarrow> bytes option" where
  "ParseAckTokenLoop i [] token = Some token"
| "ParseAckTokenLoop i (c # rest) token =
    (if i \<in> {8, 13, 18, 23} then
       (if c \<noteq> CHR ''-'' then None else ParseAckTokenLoop (i + 1) rest token)
     else case rest of
       [] \<Rightarrow> None
     | d # rest' \<Rightarrow>
         (case (HexValue c, HexValue d) of
            (Some hi, Some lo) \<Rightarrow>
              ParseAckTokenLoop (i + 2) rest' (token @ [of_nat (16 * hi + lo)])
          | _ \<Rightarrow> None))"

definition ParseAckToken :: "string \<Rightarrow> AckToken option" where
  "ParseAckToken text =
    (if length text \<noteq> 36 then None else
     case ParseAckTokenLoop 0 text [] of
       None \<Rightarrow> None
     | Some token \<Rightarrow> if \<not> IsValidAckToken token then None else Some token)"

section \<open>Attachments\<close>

datatype AckAttachmentObservation = AckAttachmentAbsent | AckAttachmentMalformed | AckObserved AckToken

definition kAckAttachmentV1Size :: nat where
  "kAckAttachmentV1Size = 17"

definition EncodeAckAttachment :: "AckToken \<Rightarrow> bytes" where
  "EncodeAckAttachment token = 1 # token"

definition ObserveAckAttachment :: "bytes option \<Rightarrow> AckAttachmentObservation" where
  "ObserveAckAttachment attachment = (case attachment of
     None \<Rightarrow> AckAttachmentAbsent
   | Some bs \<Rightarrow>
       if length bs \<noteq> kAckAttachmentV1Size then AckAttachmentMalformed
       else if bs ! 0 \<noteq> 1 then AckAttachmentMalformed
       else let token = take 16 (drop 1 bs) in
         if \<not> IsValidAckToken token then AckAttachmentMalformed else AckObserved token)"

section \<open>Strict UTF-8\<close>

text \<open>
  The loop of \<open>IsValidUtf8\<close> on the bytes from position \<open>i\<close> on.  Masks by \<open>2^k - 1\<close> are
  written \<open>mod 2^k\<close>, and \<open>(code_point << 6) | x\<close> with \<open>x < 64\<close> as \<open>code_point * 64 + x\<close>.
\<close>

definition utf8_lead :: "nat \<Rightarrow> (nat \<times> nat) option" where
  "utf8_lead c0 =
    (if 0xC2 \<le> c0 \<and> c0 \<le> 0xDF then Some (2, c0 mod 32)
     else if 0xE0 \<le> c0 \<and> c0 \<le> 0xEF then Some (3, c0 mod 16)
     else if 0xF0 \<le> c0 \<and> c0 \<le> 0xF4 then Some (4, c0 mod 8)
     else None)"

fun utf8_continue :: "nat list \<Rightarrow> nat \<Rightarrow> nat option" where
  "utf8_continue [] code_point = Some code_point"
| "utf8_continue (ck # cs) code_point =
    (if \<not> (0x80 \<le> ck \<and> ck < 0xC0) then None
     else utf8_continue cs (code_point * 64 + ck mod 64))"

function utf8_loop :: "nat list \<Rightarrow> bool" where
  "utf8_loop [] = True"
| "utf8_loop (c0 # rest) =
    (if c0 < 0x80 then utf8_loop rest else
     case utf8_lead c0 of
       None \<Rightarrow> False
     | Some (len, cp0) \<Rightarrow>
         if len > Suc (length rest) then False else
         (case utf8_continue (take (len - 1) rest) cp0 of
            None \<Rightarrow> False
          | Some code_point \<Rightarrow>
              if len = 3 \<and> code_point < 0x800 then False
              else if len = 4 \<and> code_point < 0x10000 then False
              else if 0xD800 \<le> code_point \<and> code_point \<le> 0xDFFF then False
              else if code_point > 0x10FFFF then False
              else utf8_loop (drop (len - 1) rest)))"
  by pat_completeness auto
termination by (relation "measure length") auto

definition IsValidUtf8 :: "string \<Rightarrow> bool" where
  "IsValidUtf8 text = utf8_loop (map of_char text)"

section \<open>Results\<close>

datatype AckOperationKind = OpPut | OpBatch | OpFence

datatype AckDurability = Applied | Synced

definition kind_byte :: "AckOperationKind \<Rightarrow> byte" where
  "kind_byte k = (case k of OpPut \<Rightarrow> 1 | OpBatch \<Rightarrow> 2 | OpFence \<Rightarrow> 3)"

definition kind_of_byte :: "byte \<Rightarrow> AckOperationKind option" where
  "kind_of_byte b = (if b = 1 then Some OpPut else if b = 2 then Some OpBatch
     else if b = 3 then Some OpFence else None)"

definition durability_byte :: "AckDurability \<Rightarrow> byte" where
  "durability_byte d = (case d of Applied \<Rightarrow> 1 | Synced \<Rightarrow> 2)"

definition durability_of_byte :: "byte \<Rightarrow> AckDurability option" where
  "durability_of_byte b = (if b = 1 then Some Applied else if b = 2 then Some Synced else None)"

definition kAckNoFailedIndex :: u32 where
  "kAckNoFailedIndex = 0xFFFFFFFF"

definition kAckNoFailedSequence :: u64 where
  "kAckNoFailedSequence = 0xFFFFFFFFFFFFFFFF"

definition kAckResultV1HeaderSize :: nat where
  "kAckResultV1HeaderSize = 32"

definition kAckResultMaxMessageLength :: nat where
  "kAckResultMaxMessageLength = 1024"

record AckResultV1 =
  ar_operation_kind :: AckOperationKind
  ar_status :: Status
  ar_durability :: AckDurability
  ar_applied_count :: u32
  ar_failed_index :: u32
  ar_through_sequence :: u64
  ar_failed_sequence :: u64
  ar_message :: string

text \<open>The default member initialisers.\<close>

definition ack_result_default :: AckResultV1 where
  "ack_result_default = \<lparr>ar_operation_kind = OpPut, ar_status = Ok, ar_durability = Applied,
     ar_applied_count = 0, ar_failed_index = kAckNoFailedIndex, ar_through_sequence = 0,
     ar_failed_sequence = kAckNoFailedSequence, ar_message = ''''\<rparr>"

definition IsWireStatus :: "Status \<Rightarrow> bool" where
  "IsWireStatus s = (case s of Timeout \<Rightarrow> False | _ \<Rightarrow> True)"

abbreviation Invalid :: "string \<Rightarrow> 'a Result" where
  "Invalid message \<equiv> Err InvalidArgument message"

text \<open>The checks that precede the \<open>switch\<close> on the operation kind.\<close>

definition ValidateAckCommon :: "Status \<Rightarrow> string \<Rightarrow> unit Result" where
  "ValidateAckCommon status message =
    (if \<not> IsWireStatus status then Invalid ''ack result status is not a v1 wire status''
     else if length message > kAckResultMaxMessageLength then
       Invalid ''ack result message exceeds 1024 bytes''
     else if \<not> IsValidUtf8 message then Invalid ''ack result message is not valid UTF-8''
     else Result_Ok ())"

definition ValidateAckPut :: "AckResultV1 \<Rightarrow> unit Result" where
  "ValidateAckPut r =
    (if ar_durability r \<noteq> Applied then Invalid ''put durability must be applied''
     else if \<not> (ar_through_sequence r = 0 \<and> ar_failed_sequence r = kAckNoFailedSequence) then
       Invalid ''put sequence fields are not applicable''
     else if ar_status r = Ok then
       (if ar_applied_count r \<noteq> 1 then Invalid ''put success applied_count must be 1''
        else if ar_failed_index r \<noteq> kAckNoFailedIndex then
          Invalid ''put success has no failed_index''
        else Result_Ok ())
     else
       (if ar_applied_count r \<noteq> 0 then Invalid ''put failure applied_count must be 0''
        else if ar_failed_index r \<noteq> 0 then Invalid ''put failure failed_index must be 0''
        else Result_Ok ()))"

definition ValidateAckBatch :: "AckResultV1 \<Rightarrow> unit Result" where
  "ValidateAckBatch r =
    (if ar_durability r \<noteq> Applied then Invalid ''batch durability must be applied''
     else if \<not> (ar_through_sequence r = 0 \<and> ar_failed_sequence r = kAckNoFailedSequence) then
       Invalid ''batch sequence fields are not applicable''
     else if ar_status r = Ok then
       (if ar_failed_index r \<noteq> kAckNoFailedIndex then
          Invalid ''batch success has no failed_index'' else Result_Ok ())
     else if ar_failed_index r = kAckNoFailedIndex then
       (if ar_applied_count r \<noteq> 0 then
          Invalid ''batch envelope failure applied_count must be 0'' else Result_Ok ())
     else if ar_status r = OutcomeUnknown \<and> ar_applied_count r \<noteq> ar_failed_index r then
       Invalid ''batch OutcomeUnknown applied_count must equal failed_index''
     else if ar_applied_count r \<noteq> 0 \<and> ar_applied_count r \<noteq> ar_failed_index r then
       Invalid ''batch applied_count must be 0 or equal failed_index''
     else Result_Ok ())"

definition ValidateAckFence :: "AckResultV1 \<Rightarrow> unit Result" where
  "ValidateAckFence r =
    (if ar_applied_count r \<noteq> 0 then Invalid ''fence applied_count must be 0''
     else if ar_failed_index r \<noteq> kAckNoFailedIndex then Invalid ''fence has no failed_index''
     else if ar_failed_sequence r \<noteq> kAckNoFailedSequence then
       (if ar_failed_sequence r = 0 then Invalid ''fence failed_sequence must be nonzero''
        else if ar_failed_sequence r > ar_through_sequence r then
          Invalid ''fence failed_sequence exceeds through_sequence''
        else Result_Ok ())
     else Result_Ok ())"

definition ValidateAckResult :: "AckResultV1 \<Rightarrow> unit Result" where
  "ValidateAckResult r =
    (case ValidateAckCommon (ar_status r) (ar_message r) of
       Inl e \<Rightarrow> Inl e
     | Inr _ \<Rightarrow> (case ar_operation_kind r of
         OpPut \<Rightarrow> ValidateAckPut r
       | OpBatch \<Rightarrow> ValidateAckBatch r
       | OpFence \<Rightarrow> ValidateAckFence r))"

definition PutLe :: "u64 \<Rightarrow> nat \<Rightarrow> bytes" where
  "PutLe value n = le_put n value"

definition ReadLe :: "bytes \<Rightarrow> nat \<Rightarrow> nat \<Rightarrow> u64" where
  "ReadLe bs off n = le_get (take n (drop off bs))"

definition AckResultBytes :: "AckResultV1 \<Rightarrow> bytes" where
  "AckResultBytes r =
    [1, kind_byte (ar_operation_kind r), of_nat (status_value (ar_status r)),
     durability_byte (ar_durability r)] @
    PutLe (ucast (ar_applied_count r)) 4 @ PutLe (ucast (ar_failed_index r)) 4 @
    PutLe (ar_through_sequence r) 8 @ PutLe (ar_failed_sequence r) 8 @
    PutLe (of_nat (length (ar_message r))) 4 @ bytes_of_string (ar_message r)"

definition EncodeAckResult :: "AckResultV1 \<Rightarrow> bytes Result" where
  "EncodeAckResult r = (case ValidateAckResult r of
     Inl e \<Rightarrow> ErrFrom (Inl e :: unit Result)
   | Inr _ \<Rightarrow> Result_Ok (AckResultBytes r))"

definition DecodeAckFields :: "bytes \<Rightarrow> string \<Rightarrow> AckResultV1 Result" where
  "DecodeAckFields payload message =
    (case status_of_value (unat (payload ! 2)) of
       None \<Rightarrow> Invalid ''ack result status is not a v1 wire status''
     | Some status \<Rightarrow>
         if \<not> IsWireStatus status then Invalid ''ack result status is not a v1 wire status'' else
         (case durability_of_byte (payload ! 3) of
            None \<Rightarrow> Invalid ''ack result durability is unknown''
          | Some durability \<Rightarrow>
              (case kind_of_byte (payload ! 1) of
                 None \<Rightarrow> (case ValidateAckCommon status message of
                           Inl e \<Rightarrow> Inl e
                         | Inr _ \<Rightarrow> Invalid ''ack result operation_kind is unknown'')
               | Some kind \<Rightarrow>
                   (let r = \<lparr>ar_operation_kind = kind, ar_status = status,
                          ar_durability = durability,
                          ar_applied_count = ucast (ReadLe payload 4 4),
                          ar_failed_index = ucast (ReadLe payload 8 4),
                          ar_through_sequence = ReadLe payload 12 8,
                          ar_failed_sequence = ReadLe payload 20 8,
                          ar_message = message\<rparr>
                    in case ValidateAckResult r of Inl e \<Rightarrow> Inl e | Inr _ \<Rightarrow> Result_Ok r))))"

definition DecodeAckResult :: "bytes \<Rightarrow> AckResultV1 Result" where
  "DecodeAckResult payload =
    (if length payload < kAckResultV1HeaderSize then
       Invalid ''ack result is shorter than the 32-byte header''
     else if payload ! 0 \<noteq> 1 then Invalid ''ack result schema_version is unknown''
     else let message_length = unat (ucast (ReadLe payload 28 4) :: u32) in
       if message_length > kAckResultMaxMessageLength then
         Invalid ''ack result message exceeds 1024 bytes''
       else if length payload \<noteq> kAckResultV1HeaderSize + message_length then
         Invalid ''ack result length does not match message_length''
       else DecodeAckFields payload
         (string_of_bytes (take message_length (drop kAckResultV1HeaderSize payload))))"

section \<open>Token text\<close>

lemma HexValue_digit [simp]: "n < 16 \<Longrightarrow> HexValue (kHexDigits ! n) = Some n"
  by (auto simp: less_Suc_eq numeral_eq_Suc kHexDigits_def HexValue_def)

lemma hex_digit_char:
  "n < 10 \<Longrightarrow> kHexDigits ! n = char_of (48 + n)"
  "n < 6 \<Longrightarrow> kHexDigits ! (n + 10) = char_of (97 + n)"
proof -
  assume "n < 10"
  then have "n = 0 \<or> n = 1 \<or> n = 2 \<or> n = 3 \<or> n = 4 \<or> n = 5 \<or> n = 6 \<or> n = 7 \<or> n = 8 \<or> n = 9" by arith
  then show "kHexDigits ! n = char_of (48 + n)"
    by (elim disjE) (simp_all add: kHexDigits_def char_of_def bit_0)
next
  assume "n < 6"
  then have "n = 0 \<or> n = 1 \<or> n = 2 \<or> n = 3 \<or> n = 4 \<or> n = 5" by arith
  then show "kHexDigits ! (n + 10) = char_of (97 + n)"
    by (elim disjE) (simp_all add: kHexDigits_def char_of_def bit_0)
qed

lemma HexValue_SomeD: "HexValue c = Some n \<Longrightarrow> n < 16 \<and> kHexDigits ! n = c"
proof -
  assume a: "HexValue c = Some n"
  define m where "m = (of_char c :: nat)"
  have c: "c = char_of m" by (simp add: m_def)
  from a consider "48 \<le> m" "m \<le> 57" "n = m - 48" | "97 \<le> m" "m \<le> 102" "n = m - 97 + 10"
    by (auto simp: HexValue_def m_def Let_def split: if_splits)
  then show ?thesis
  proof cases
    case 1
    with hex_digit_char(1)[of n] show ?thesis by (simp add: c)
  next
    case 2
    with hex_digit_char(2)[of "m - 97"] show ?thesis by (simp add: c)
  qed
qed

lemma unat_nibbles:
  fixes b :: byte
  shows "unat (drop_bit 4 b) = unat b div 16" "unat (b AND 0x0F) = unat b mod 16"
    "unat (drop_bit 4 b) < 16" "unat (b AND 0x0F) < 16"
proof -
  have lt: "unat b < 256" using unsigned_less[of b, where ?'a = nat] by simp
  have "unat (drop_bit 4 b) = drop_bit 4 (unat b)"
    by (simp only: unsigned_drop_bit_eq) (simp add: take_bit_nat_eq_self lt)
  then show d: "unat (drop_bit 4 b) = unat b div 16" by (simp only: drop_bit_eq_div) simp
  have "b AND 0x0F = take_bit 4 b" by (simp add: take_bit_eq_mask mask_eq_exp_minus_1)
  then have "unat (b AND 0x0F) = take_bit 4 (unat b)" by (simp only: unsigned_take_bit_eq)
  then show m: "unat (b AND 0x0F) = unat b mod 16" by (simp only: take_bit_eq_mod) simp
  show "unat (drop_bit 4 b) < 16" using d lt by simp
  show "unat (b AND 0x0F) < 16" using m by simp
qed

lemma byte_of_nibbles [simp]: "of_nat (16 * unat (drop_bit 4 b) + unat (b AND 0x0F)) = (b :: byte)"
  by (simp add: unat_nibbles del: of_nat_add of_nat_mult)

lemma nibbles_of_byte:
  assumes "hi < 16" "lo < 16"
  shows "unat (drop_bit 4 (of_nat (16 * hi + lo) :: byte)) = hi"
    "unat ((of_nat (16 * hi + lo) :: byte) AND 0x0F) = lo"
proof -
  have "unat (of_nat (16 * hi + lo) :: byte) = 16 * hi + lo"
    using assms by (simp add: unat_of_nat del: of_nat_add of_nat_mult)
  then show "unat (drop_bit 4 (of_nat (16 * hi + lo) :: byte)) = hi"
    "unat ((of_nat (16 * hi + lo) :: byte) AND 0x0F) = lo"
    using assms by (simp_all add: unat_nibbles del: of_nat_add of_nat_mult)
qed

lemma list16E:
  assumes "length xs = 16"
  obtains x0 x1 x2 x3 x4 x5 x6 x7 x8 x9 x10 x11 x12 x13 x14 x15
  where "xs = [x0, x1, x2, x3, x4, x5, x6, x7, x8, x9, x10, x11, x12, x13, x14, x15]"
  using assms by (auto simp: numeral_eq_Suc length_Suc_conv)

lemma ParseLoop_Format:
  assumes "length token = 16"
  shows "ParseAckTokenLoop 0 (FormatAckToken token) [] = Some token"
  using assms
  by (elim list16E) (simp add: FormatAckToken_def unat_nibbles(3,4) del: of_nat_add of_nat_mult)

lemma length_FormatAckToken:
  assumes "length token = 16"
  shows "length (FormatAckToken token) = 36"
  using assms by (elim list16E) (simp add: FormatAckToken_def)

lemma ParseAckToken_Format:
  assumes "length token = 16" "IsValidAckToken token"
  shows "ParseAckToken (FormatAckToken token) = Some token"
  using assms by (simp add: ParseAckToken_def length_FormatAckToken ParseLoop_Format)

lemma ParseLoop_pairD:
  assumes "ParseAckTokenLoop i (c # d # rest) token = Some t" "i \<notin> {8, 13, 18, 23}"
  shows "\<exists>b. c = kHexDigits ! unat (drop_bit 4 b) \<and> d = kHexDigits ! unat (b AND 0x0F) \<and>
    ParseAckTokenLoop (i + 2) rest (token @ [b]) = Some t"
proof -
  from assms obtain hi lo where h: "HexValue c = Some hi" "HexValue d = Some lo"
    "ParseAckTokenLoop (i + 2) rest (token @ [of_nat (16 * hi + lo)]) = Some t"
    by (auto split: option.splits)
  with HexValue_SomeD[of c hi] HexValue_SomeD[of d lo] show ?thesis
    by (intro exI[of _ "of_nat (16 * hi + lo)"]) (simp add: nibbles_of_byte del: of_nat_add of_nat_mult)
qed

lemma ParseLoop_dashD:
  assumes "ParseAckTokenLoop i (c # rest) token = Some t" "i \<in> {8, 13, 18, 23}"
  shows "c = CHR ''-'' \<and> ParseAckTokenLoop (i + 1) rest token = Some t"
  using assms by (auto split: if_splits)

text \<open>\<open>n\<close> pairs of hexadecimal digits in a row, as the scan reads a group.\<close>

lemma ParseLoop_groupD:
  assumes "ParseAckTokenLoop i cs token = Some t" "2 * n \<le> length cs"
    "\<forall>k<n. i + 2 * k \<notin> {8, 13, 18, 23}"
  shows "\<exists>bs rest. length bs = n \<and> length rest = length cs - 2 * n \<and>
    cs = concat (map (\<lambda>b. [kHexDigits ! unat (drop_bit 4 b), kHexDigits ! unat (b AND 0x0F)]) bs) @ rest \<and>
    ParseAckTokenLoop (i + 2 * n) rest (token @ bs) = Some t"
  using assms
proof (induction n arbitrary: i cs token)
  case 0
  then show ?case by simp
next
  case (Suc n)
  obtain c d cs' where cs: "cs = c # d # cs'"
    using Suc.prems(2) by (cases cs; cases "tl cs") auto
  have "i \<notin> {8, 13, 18, 23}" using Suc.prems(3) by (metis add.right_neutral mult_0_right zero_less_Suc)
  from ParseLoop_pairD[OF Suc.prems(1)[unfolded cs] this] obtain b where
    b: "c = kHexDigits ! unat (drop_bit 4 b)" "d = kHexDigits ! unat (b AND 0x0F)"
    "ParseAckTokenLoop (i + 2) cs' (token @ [b]) = Some t" by blast
  have "\<forall>k<n. i + 2 + 2 * k \<notin> {8, 13, 18, 23}"
  proof (intro allI impI)
    fix k assume "k < n"
    then show "i + 2 + 2 * k \<notin> {8, 13, 18, 23}" using Suc.prems(3)[rule_format, of "Suc k"] by simp
  qed
  moreover have "2 * n \<le> length cs'" using Suc.prems(2) by (simp add: cs)
  ultimately obtain bs rest where "length bs = n"
    "length rest = length cs' - 2 * n"
    "cs' = concat (map (\<lambda>b. [kHexDigits ! unat (drop_bit 4 b), kHexDigits ! unat (b AND 0x0F)]) bs) @ rest"
    "ParseAckTokenLoop (i + 2 + 2 * n) rest ((token @ [b]) @ bs) = Some t"
    using Suc.IH[OF b(3)] by blast
  with b show ?case by (intro exI[of _ "b # bs"] exI[of _ rest]) (simp add: cs)
qed

lemma ParseAckToken_SomeD:
  assumes "ParseAckToken cs = Some t"
  shows "length t = 16 \<and> IsValidAckToken t \<and> FormatAckToken t = cs"
proof -
  let ?hex = "\<lambda>bs. concat (map (\<lambda>b. [kHexDigits ! unat (drop_bit 4 b), kHexDigits ! unat (b AND 0x0F)]) bs)"
  from assms have len: "length cs = 36" and valid: "IsValidAckToken t"
    and "ParseAckTokenLoop 0 cs [] = Some t"
    by (auto simp: ParseAckToken_def split: option.splits if_splits)
  from ParseLoop_groupD[OF this(3), of 4] len obtain g1 r1 where g1: "length g1 = 4"
    "length r1 = 28" "cs = ?hex g1 @ r1" "ParseAckTokenLoop 8 r1 g1 = Some t" by force
  from g1(2) obtain c1 r1' where r1: "r1 = c1 # r1'" "length r1' = 27" by (cases r1) auto
  from ParseLoop_dashD[OF g1(4)[unfolded r1]] have "c1 = CHR ''-''" "ParseAckTokenLoop 9 r1' g1 = Some t"
    by simp_all
  from this(1) ParseLoop_groupD[OF this(2), of 2] r1 obtain g2 r2 where g2: "length g2 = 2"
    "length r2 = 23" "r1 = CHR ''-'' # ?hex g2 @ r2" "ParseAckTokenLoop 13 r2 (g1 @ g2) = Some t"
    by force
  from g2(2) obtain c2 r2' where r2: "r2 = c2 # r2'" "length r2' = 22" by (cases r2) auto
  from ParseLoop_dashD[OF g2(4)[unfolded r2]] have "c2 = CHR ''-''"
    "ParseAckTokenLoop 14 r2' (g1 @ g2) = Some t" by simp_all
  from this(1) ParseLoop_groupD[OF this(2), of 2] r2 obtain g3 r3 where g3: "length g3 = 2"
    "length r3 = 18" "r2 = CHR ''-'' # ?hex g3 @ r3" "ParseAckTokenLoop 18 r3 (g1 @ g2 @ g3) = Some t"
    by force
  from g3(2) obtain c3 r3' where r3: "r3 = c3 # r3'" "length r3' = 17" by (cases r3) auto
  from ParseLoop_dashD[OF g3(4)[unfolded r3]] have "c3 = CHR ''-''"
    "ParseAckTokenLoop 19 r3' (g1 @ g2 @ g3) = Some t" by simp_all
  from this(1) ParseLoop_groupD[OF this(2), of 2] r3 obtain g4 r4 where g4: "length g4 = 2"
    "length r4 = 13" "r3 = CHR ''-'' # ?hex g4 @ r4"
    "ParseAckTokenLoop 23 r4 (g1 @ g2 @ g3 @ g4) = Some t" by force
  from g4(2) obtain c4 r4' where r4: "r4 = c4 # r4'" "length r4' = 12" by (cases r4) auto
  from ParseLoop_dashD[OF g4(4)[unfolded r4]] have "c4 = CHR ''-''"
    "ParseAckTokenLoop 24 r4' (g1 @ g2 @ g3 @ g4) = Some t" by simp_all
  from this(1) ParseLoop_groupD[OF this(2), of 6] r4 obtain g5 where g5: "length g5 = 6"
    "r4 = CHR ''-'' # ?hex g5" "t = g1 @ g2 @ g3 @ g4 @ g5" by force
  have "FormatAckToken t = cs"
    using g1(1) g2(1) g3(1) g4(1) g5(1) unfolding g1(3) g2(3) g3(3) g4(3) g5(2,3)
    by (auto simp: FormatAckToken_def numeral_eq_Suc length_Suc_conv)
  with valid g1(1) g2(1) g3(1) g4(1) g5(1,3) show ?thesis by simp
qed

interpretation token_codec: exact_codec FormatAckToken ParseAckToken
    "\<lambda>t. length t = 16 \<and> IsValidAckToken t"
  using ParseAckToken_Format ParseAckToken_SomeD by unfold_locales auto

lemma GenerateAckToken_valid:
  assumes "length words = 4"
  shows "length (GenerateAckToken words) = 16 \<and> IsValidAckToken (GenerateAckToken words)"
proof -
  have "((x AND 0x0F) OR 0x40) AND 0xF0 = (0x40 :: byte)" for x :: byte
    by (simp add: bit_eq_iff bit_simps) (auto simp: less_Suc_eq numeral_eq_Suc)
  moreover have "((x AND 0x3F) OR 0x80) AND 0xC0 = (0x80 :: byte)" for x :: byte
    by (simp add: bit_eq_iff bit_simps) (auto simp: less_Suc_eq numeral_eq_Suc)
  moreover have "length (concat (map (le_put 4) (take 4 words))) = 16"
    using assms by (simp add: length_concat comp_def sum_list_triv)
  ultimately show ?thesis by (simp add: GenerateAckToken_def IsValidAckToken_def Let_def)
qed

section \<open>Attachments\<close>

definition DecodeAckAttachment :: "bytes \<Rightarrow> AckToken option" where
  "DecodeAckAttachment bs = (case ObserveAckAttachment (Some bs) of AckObserved t \<Rightarrow> Some t | _ \<Rightarrow> None)"

lemma ObserveAckAttachment_token:
  "ObserveAckAttachment (Some bs) = AckObserved t \<longleftrightarrow>
     length t = 16 \<and> IsValidAckToken t \<and> bs = EncodeAckAttachment t"
proof (cases bs)
  case (Cons b rest)
  then show ?thesis
    by (auto simp: ObserveAckAttachment_def EncodeAckAttachment_def kAckAttachmentV1Size_def Let_def)
qed (simp add: ObserveAckAttachment_def EncodeAckAttachment_def kAckAttachmentV1Size_def)

interpretation attachment_codec: exact_codec EncodeAckAttachment DecodeAckAttachment
    "\<lambda>t. length t = 16 \<and> IsValidAckToken t"
proof
  show "DecodeAckAttachment (EncodeAckAttachment t) = Some t" if "length t = 16 \<and> IsValidAckToken t" for t
    using ObserveAckAttachment_token[of "EncodeAckAttachment t" t] that
    by (simp add: DecodeAckAttachment_def)
  show "(length t = 16 \<and> IsValidAckToken t) \<and> EncodeAckAttachment t = bs"
    if "DecodeAckAttachment bs = Some t" for bs t
    using that ObserveAckAttachment_token[of bs t]
    by (auto simp: DecodeAckAttachment_def split: AckAttachmentObservation.splits)
qed

section \<open>UTF-8 against the encoder of RFC 3629\<close>

definition scalar_value :: "nat \<Rightarrow> bool" where
  "scalar_value cp \<longleftrightarrow> cp < 0xD800 \<or> (0xDFFF < cp \<and> cp \<le> 0x10FFFF)"

definition utf8_encode :: "nat \<Rightarrow> nat list" where
  "utf8_encode cp =
    (if cp < 0x80 then [cp]
     else if cp < 0x800 then [0xC0 + cp div 64, 0x80 + cp mod 64]
     else if cp < 0x10000 then [0xE0 + cp div 4096, 0x80 + cp div 64 mod 64, 0x80 + cp mod 64]
     else [0xF0 + cp div 262144, 0x80 + cp div 4096 mod 64, 0x80 + cp div 64 mod 64,
           0x80 + cp mod 64])"

lemma utf8_lead_bytes:
  "2 \<le> a \<Longrightarrow> a < 32 \<Longrightarrow> utf8_lead (192 + a) = Some (2, a)"
  "a < 16 \<Longrightarrow> utf8_lead (224 + a) = Some (3, a)"
  "a < 5 \<Longrightarrow> utf8_lead (240 + a) = Some (4, a)"
proof -
  have "(192 + a) mod 32 = a mod 32" "(224 + a) mod 16 = a mod 16" "(240 + a) mod 8 = a mod 8"
    using mod_add_left_eq[of 192 32 a] mod_add_left_eq[of 224 16 a] mod_add_left_eq[of 240 8 a]
    by simp_all
  then show "2 \<le> a \<Longrightarrow> a < 32 \<Longrightarrow> utf8_lead (192 + a) = Some (2, a)"
    "a < 16 \<Longrightarrow> utf8_lead (224 + a) = Some (3, a)"
    "a < 5 \<Longrightarrow> utf8_lead (240 + a) = Some (4, a)"
    by (simp_all add: utf8_lead_def)
qed

lemma utf8_continue_byte [simp]:
  "b < 64 \<Longrightarrow> utf8_continue ((128 + b) # cs) cp = utf8_continue cs (cp * 64 + b)"
proof -
  assume "b < 64"
  moreover have "(128 + b) mod 64 = b mod 64" using mod_add_left_eq[of 128 64 b] by simp
  ultimately show ?thesis by simp
qed

declare utf8_continue.simps(2) [simp del]

text \<open>The four shapes of a sequence, by the base-64 digits of the code point.\<close>

lemma utf8_loop_shapes:
  "a < 128 \<Longrightarrow> utf8_loop (a # s) = utf8_loop s"
  "2 \<le> a \<Longrightarrow> a < 32 \<Longrightarrow> b < 64 \<Longrightarrow> utf8_loop ((192 + a) # (128 + b) # s) = utf8_loop s"
  "a < 16 \<Longrightarrow> b < 64 \<Longrightarrow> c < 64 \<Longrightarrow> 2048 \<le> (a * 64 + b) * 64 + c \<Longrightarrow>
     scalar_value ((a * 64 + b) * 64 + c) \<Longrightarrow>
     utf8_loop ((224 + a) # (128 + b) # (128 + c) # s) = utf8_loop s"
  "a < 5 \<Longrightarrow> b < 64 \<Longrightarrow> c < 64 \<Longrightarrow> d < 64 \<Longrightarrow> 65536 \<le> ((a * 64 + b) * 64 + c) * 64 + d \<Longrightarrow>
     scalar_value (((a * 64 + b) * 64 + c) * 64 + d) \<Longrightarrow>
     utf8_loop ((240 + a) # (128 + b) # (128 + c) # (128 + d) # s) = utf8_loop s"
  by (auto simp: utf8_lead_bytes scalar_value_def simp del: distrib_right_numeral)

lemma base64_digits:
  "(a::nat) < 64 \<Longrightarrow> b < 64 \<Longrightarrow> (a * 64 + b) div 64 = a \<and> (a * 64 + b) mod 64 = b"
  by simp

lemma utf8_encode_shapes:
  "b < 64 \<Longrightarrow> 2 \<le> a \<Longrightarrow> a < 32 \<Longrightarrow> utf8_encode (a * 64 + b) = [192 + a, 128 + b]"
  "a < 16 \<Longrightarrow> b < 64 \<Longrightarrow> c < 64 \<Longrightarrow> 2048 \<le> (a * 64 + b) * 64 + c \<Longrightarrow>
     utf8_encode ((a * 64 + b) * 64 + c) = [224 + a, 128 + b, 128 + c]"
  "a < 5 \<Longrightarrow> b < 64 \<Longrightarrow> c < 64 \<Longrightarrow> d < 64 \<Longrightarrow> 65536 \<le> ((a * 64 + b) * 64 + c) * 64 + d \<Longrightarrow>
     utf8_encode (((a * 64 + b) * 64 + c) * 64 + d) = [240 + a, 128 + b, 128 + c, 128 + d]"
proof -
  have e: "n div 4096 = n div 64 div 64" "n div 262144 = n div 64 div 64 div 64" for n :: nat
    by (simp_all flip: div_mult2_eq)
  show "b < 64 \<Longrightarrow> 2 \<le> a \<Longrightarrow> a < 32 \<Longrightarrow> utf8_encode (a * 64 + b) = [192 + a, 128 + b]"
    by (simp add: utf8_encode_def)
  show "a < 16 \<Longrightarrow> b < 64 \<Longrightarrow> c < 64 \<Longrightarrow> 2048 \<le> (a * 64 + b) * 64 + c \<Longrightarrow>
     utf8_encode ((a * 64 + b) * 64 + c) = [224 + a, 128 + b, 128 + c]"
  proof -
    assume a: "a < 16" "b < 64" "c < 64" "2048 \<le> (a * 64 + b) * 64 + c"
    then have "(a * 64 + b) * 64 + c < 65536" by simp
    with a show ?thesis by (simp add: utf8_encode_def e del: distrib_right_numeral)
  qed
  show "a < 5 \<Longrightarrow> b < 64 \<Longrightarrow> c < 64 \<Longrightarrow> d < 64 \<Longrightarrow> 65536 \<le> ((a * 64 + b) * 64 + c) * 64 + d \<Longrightarrow>
     utf8_encode (((a * 64 + b) * 64 + c) * 64 + d) = [240 + a, 128 + b, 128 + c, 128 + d]"
    by (simp add: utf8_encode_def e del: distrib_right_numeral)
qed

lemma base64_split:
  obtains a b c d :: nat where "cp = ((a * 64 + b) * 64 + c) * 64 + d" "b < 64" "c < 64" "d < 64"
proof (rule that)
  show "cp = ((cp div 64 div 64 div 64 * 64 + cp div 64 div 64 mod 64) * 64 + cp div 64 mod 64) * 64
      + cp mod 64" by (simp only: div_mult_mod_eq)
qed simp_all

lemma scalar_shapes:
  assumes "scalar_value cp"
  obtains (one) "cp < 128" "utf8_encode cp = [cp]"
  | (two) a b where "2 \<le> a" "a < 32" "b < 64" "utf8_encode cp = [192 + a, 128 + b]"
  | (three) a b c where "a < 16" "b < 64" "c < 64" "2048 \<le> (a * 64 + b) * 64 + c"
      "cp = (a * 64 + b) * 64 + c" "utf8_encode cp = [224 + a, 128 + b, 128 + c]"
  | (four) a b c d where "a < 5" "b < 64" "c < 64" "d < 64"
      "65536 \<le> ((a * 64 + b) * 64 + c) * 64 + d" "cp = ((a * 64 + b) * 64 + c) * 64 + d"
      "utf8_encode cp = [240 + a, 128 + b, 128 + c, 128 + d]"
proof -
  obtain a b c d where d: "cp = ((a * 64 + b) * 64 + c) * 64 + d" "b < 64" "c < 64" "d < 64"
    by (rule base64_split)
  consider "cp < 0x80" | "0x80 \<le> cp" "cp < 0x800" | "0x800 \<le> cp" "cp < 0x10000"
    | "0x10000 \<le> cp" "cp \<le> 0x10FFFF"
    using assms unfolding scalar_value_def by linarith
  then show thesis
  proof cases
    case 1
    then show ?thesis by (intro one) (simp_all add: utf8_encode_def)
  next
    case 2
    then have "a = 0" "b = 0" "c < 32" using d by simp_all
    moreover from this 2 d have "2 \<le> c" by simp
    moreover from calculation d have "utf8_encode cp = [192 + c, 128 + d]"
      using utf8_encode_shapes(1)[of d c] by simp
    ultimately show ?thesis using d(4) by (intro two[of c d]) simp_all
  next
    case 3
    then have "a = 0" "b < 16" using d by simp_all
    then have cp: "cp = (b * 64 + c) * 64 + d" using d(1) by simp
    with 3 d \<open>b < 16\<close> have "utf8_encode cp = [224 + b, 128 + c, 128 + d]"
      using utf8_encode_shapes(2)[of b c d] by (simp only:)
    with cp 3 d \<open>b < 16\<close> show ?thesis by (intro three[of b c d]) (simp_all only:)
  next
    case 4
    then have "a < 5" using d by simp
    with 4 d have "utf8_encode cp = [240 + a, 128 + b, 128 + c, 128 + d]"
      using utf8_encode_shapes(3)[of a b c d] by (simp only:)
    with 4 d \<open>a < 5\<close> show ?thesis by (intro four[of a b c d]) (simp_all only:)
  qed
qed

lemma utf8_loop_encode:
  assumes "scalar_value cp"
  shows "utf8_loop (utf8_encode cp @ s) = utf8_loop s"
  using assms
proof (cases rule: scalar_shapes)
  case (three a b c)
  with assms utf8_loop_shapes(3)[of a b c s] show ?thesis by (simp only: append.simps)
next
  case (four a b c d)
  with assms utf8_loop_shapes(4)[of a b c d s] show ?thesis by (simp only: append.simps)
qed (simp_all only: append.simps utf8_loop_shapes)

lemma utf8_loop_complete: "list_all scalar_value cps \<Longrightarrow> utf8_loop (concat (map utf8_encode cps))"
  by (induction cps) (simp_all add: utf8_loop_encode)

lemma utf8_lead_SomeD:
  assumes "utf8_lead c0 = Some (len, cp)"
  shows "(len = 2 \<and> 2 \<le> cp \<and> cp < 32 \<and> c0 = 192 + cp) \<or>
    (len = 3 \<and> cp < 16 \<and> c0 = 224 + cp) \<or> (len = 4 \<and> cp < 5 \<and> c0 = 240 + cp)"
proof -
  consider "194 \<le> c0" "c0 \<le> 223" | "224 \<le> c0" "c0 \<le> 239" | "240 \<le> c0" "c0 \<le> 244"
    using assms by (auto simp: utf8_lead_def split: if_splits)
  then show ?thesis
  proof cases
    case 1
    then have "2 \<le> c0 - 192" "c0 - 192 < 32" "c0 = 192 + (c0 - 192)" by simp_all
    with assms utf8_lead_bytes(1)[of "c0 - 192"] show ?thesis by simp
  next
    case 2
    with assms utf8_lead_bytes(2)[of "c0 - 224"] show ?thesis by simp
  next
    case 3
    with assms utf8_lead_bytes(3)[of "c0 - 240"] show ?thesis by simp
  qed
qed

lemma utf8_continue_SomeD:
  assumes "utf8_continue (ck # cs) cp = Some r"
  shows "\<exists>b<64. ck = 128 + b \<and> utf8_continue cs (cp * 64 + b) = Some r"
proof -
  from assms have "128 \<le> ck" "ck < 192" by (auto simp: utf8_continue.simps split: if_splits)
  then have "ck - 128 < 64" "ck = 128 + (ck - 128)" by simp_all
  with assms show ?thesis by (metis utf8_continue_byte)
qed

lemma utf8_continue_oneD:
  "utf8_continue [b] cp = Some r \<Longrightarrow> \<exists>x<64. b = 128 + x \<and> r = cp * 64 + x"
  using utf8_continue_SomeD[of b "[]" cp r] by auto

lemma utf8_continue_twoD:
  "utf8_continue [b, c] cp = Some r \<Longrightarrow>
     \<exists>x y. x < 64 \<and> b = 128 + x \<and> y < 64 \<and> c = 128 + y \<and> r = (cp * 64 + x) * 64 + y"
  using utf8_continue_SomeD[of b "[c]" cp r] utf8_continue_oneD by metis

lemma utf8_continue_threeD:
  "utf8_continue [b, c, d] cp = Some r \<Longrightarrow>
     \<exists>x y z. x < 64 \<and> b = 128 + x \<and> y < 64 \<and> c = 128 + y \<and> z < 64 \<and> d = 128 + z \<and>
       r = ((cp * 64 + x) * 64 + y) * 64 + z"
  using utf8_continue_SomeD[of b "[c, d]" cp r] utf8_continue_twoD by metis

lemma utf8_first:
  assumes "utf8_loop (c0 # rest)"
  shows "\<exists>cp s. scalar_value cp \<and> c0 # rest = utf8_encode cp @ s \<and> utf8_loop s \<and>
    length s < length (c0 # rest)"
proof (cases "c0 < 128")
  case True
  with assms show ?thesis
    by (intro exI[of _ c0] exI[of _ rest]) (simp add: utf8_encode_def scalar_value_def)
next
  case False
  with assms obtain len cp0 where lead: "utf8_lead c0 = Some (len, cp0)"
    by (cases "utf8_lead c0") auto
  with assms False obtain cp where cont: "utf8_continue (take (len - 1) rest) cp0 = Some cp"
    by (cases "utf8_continue (take (len - 1) rest) cp0") (simp_all split: if_splits)
  have l: "utf8_lead c0 = Some (len, cp0)" "len \<le> Suc (length rest)"
    "utf8_continue (take (len - 1) rest) cp0 = Some cp" "utf8_loop (drop (len - 1) rest)"
    and ok: "len = 3 \<longrightarrow> 2048 \<le> cp" "len = 4 \<longrightarrow> 65536 \<le> cp" "scalar_value cp"
    using assms False lead cont
    by (auto simp: scalar_value_def not_less not_le split: if_splits)
  from utf8_lead_SomeD[OF l(1)] consider "len = 2" "2 \<le> cp0" "cp0 < 32" "c0 = 192 + cp0"
    | "len = 3" "cp0 < 16" "c0 = 224 + cp0" | "len = 4" "cp0 < 5" "c0 = 240 + cp0" by blast
  then show ?thesis
  proof cases
    case 1
    with l(2) obtain b s where rest: "rest = b # s" by (cases rest) auto
    with l(3) 1 have "utf8_continue [b] cp0 = Some cp" by simp
    then obtain x where x: "x < 64" "b = 128 + x" "cp = cp0 * 64 + x"
      using utf8_continue_oneD by blast
    with 1 rest l(4) ok(3) utf8_encode_shapes(1)[of x cp0] show ?thesis
      by (intro exI[of _ cp] exI[of _ s]) simp
  next
    case 2
    with l(2) obtain b c s where rest: "rest = b # c # s" by (cases rest; cases "tl rest") auto
    with l(3) 2 have "utf8_continue [b, c] cp0 = Some cp" by simp
    then obtain x y where x: "x < 64" "b = 128 + x" "y < 64" "c = 128 + y"
      "cp = (cp0 * 64 + x) * 64 + y" using utf8_continue_twoD by blast
    with 2 ok utf8_encode_shapes(2)[of cp0 x y] have "utf8_encode cp = [224 + cp0, b, c]"
      by (simp only: simp_thms)
    with 2 rest l(4) ok(3) show ?thesis by (intro exI[of _ cp] exI[of _ s]) simp
  next
    case 3
    with l(2) obtain b c d s where rest: "rest = b # c # d # s"
      by (cases rest; cases "tl rest"; cases "tl (tl rest)") auto
    with l(3) 3 have "utf8_continue [b, c, d] cp0 = Some cp" by simp
    then obtain x y z where x: "x < 64" "b = 128 + x" "y < 64" "c = 128 + y" "z < 64"
      "d = 128 + z" "cp = ((cp0 * 64 + x) * 64 + y) * 64 + z" using utf8_continue_threeD by blast
    with 3 ok utf8_encode_shapes(3)[of cp0 x y z] have "utf8_encode cp = [240 + cp0, b, c, d]"
      by (simp only: simp_thms)
    with 3 rest l(4) ok(3) show ?thesis by (intro exI[of _ cp] exI[of _ s]) simp
  qed
qed

lemma utf8_loop_sound: "utf8_loop s \<Longrightarrow> \<exists>cps. list_all scalar_value cps \<and> s = concat (map utf8_encode cps)"
proof (induction "length s" arbitrary: s rule: less_induct)
  case less
  show ?case
  proof (cases s)
    case Nil
    then show ?thesis by (intro exI[of _ "[]"]) simp
  next
    case (Cons c0 rest)
    with utf8_first less.prems obtain cp t where t: "scalar_value cp" "s = utf8_encode cp @ t"
      "utf8_loop t" "length t < length s" by metis
    with less.hyps[of t] obtain cps where "list_all scalar_value cps" "t = concat (map utf8_encode cps)"
      by blast
    with t show ?thesis by (intro exI[of _ "cp # cps"]) simp
  qed
qed

section \<open>The result codec\<close>

definition ack_result_valid :: "AckResultV1 \<Rightarrow> bool" where
  "ack_result_valid r = IsOk (ValidateAckResult r)"

definition result_option :: "'a Result \<Rightarrow> 'a option" where
  "result_option r = (case r of Inl _ \<Rightarrow> None | Inr v \<Rightarrow> Some v)"

lemma result_option_simps [simp]:
  "result_option (Result_Ok v) = Some v" "result_option (Result_Err s m c) = None"
  "result_option (Inl e) = None"
  by (simp_all add: result_option_def Result_Ok_def Result_Err_def)

lemma le_put_4_ucast [simp]: "le_put 4 (ucast (w :: u32) :: u64) = le_put 4 w"
proof -
  have "(ucast (drop_bit k (ucast w :: u64)) :: byte) = ucast (drop_bit k w)" for k
    by (rule bit_word_eqI) (auto simp: bit_simps dest: bit_imp_le_length)
  then show ?thesis by (simp add: le_put_def)
qed

lemma ucast_le_get_u32 [simp]: "(ucast (le_get bs :: u64) :: u32) = le_get bs"
  by (auto simp: bit_eq_iff bit_simps bit_le_get)

lemma kind_of_kind_byte [simp]: "kind_of_byte (kind_byte k) = Some k"
  by (cases k) (simp_all add: kind_of_byte_def kind_byte_def)

lemma kind_byte_of_byte: "kind_of_byte b = Some k \<Longrightarrow> kind_byte k = b"
  by (auto simp: kind_of_byte_def kind_byte_def split: if_splits)

lemma durability_of_durability_byte [simp]: "durability_of_byte (durability_byte d) = Some d"
  by (cases d) (simp_all add: durability_of_byte_def durability_byte_def)

lemma durability_byte_of_byte: "durability_of_byte b = Some d \<Longrightarrow> durability_byte d = b"
  by (auto simp: durability_of_byte_def durability_byte_def split: if_splits)

lemma unat_status_byte [simp]: "unat (of_nat (status_value s) :: byte) = status_value s"
  using status_value_less[of s] by (simp add: unat_of_nat)

lemma ack_result_validD:
  assumes "ack_result_valid r"
  shows "IsWireStatus (ar_status r)" "length (ar_message r) \<le> 1024" "IsValidUtf8 (ar_message r)"
    "ValidateAckResult r = Result_Ok ()"
proof -
  from assms obtain v where v: "ValidateAckResult r = Inr v"
    by (auto simp: ack_result_valid_def IsOk_def split: sum.splits)
  then show "ValidateAckResult r = Result_Ok ()" by (simp add: Result_Ok_def)
  from v obtain w where "ValidateAckCommon (ar_status r) (ar_message r) = Inr w"
    by (auto simp: ValidateAckResult_def split: sum.splits)
  then show "IsWireStatus (ar_status r)" "length (ar_message r) \<le> 1024" "IsValidUtf8 (ar_message r)"
    by (auto simp: ValidateAckCommon_def Result_Err_def kAckResultMaxMessageLength_def split: if_splits)
qed

lemma AckResultBytes_parts:
  "length (AckResultBytes r) = 32 + length (ar_message r)"
  "AckResultBytes r ! 0 = 1" "AckResultBytes r ! 1 = kind_byte (ar_operation_kind r)"
  "AckResultBytes r ! 2 = of_nat (status_value (ar_status r))"
  "AckResultBytes r ! 3 = durability_byte (ar_durability r)"
  "take 4 (drop 4 (AckResultBytes r)) = le_put 4 (ar_applied_count r)"
  "take 4 (drop 8 (AckResultBytes r)) = le_put 4 (ar_failed_index r)"
  "take 8 (drop 12 (AckResultBytes r)) = le_put 8 (ar_through_sequence r)"
  "take 8 (drop 20 (AckResultBytes r)) = le_put 8 (ar_failed_sequence r)"
  "take 4 (drop 28 (AckResultBytes r)) = le_put 4 (of_nat (length (ar_message r)) :: u64)"
  "drop 32 (AckResultBytes r) = bytes_of_string (ar_message r)"
  by (simp_all add: AckResultBytes_def PutLe_def)

lemma take4_nth: "4 \<le> length bs \<Longrightarrow> take 4 bs = [bs ! 0, bs ! 1, bs ! 2, bs ! 3]"
  by (auto simp: numeral_eq_Suc Suc_le_length_iff)

lemma u64_of_nat_u32: "n < 2 ^ 32 \<Longrightarrow> (of_nat n :: u64) = ucast (of_nat n :: u32)"
proof -
  assume "n < 2 ^ 32"
  moreover have "of_nat (unat (of_nat n :: u32)) = (ucast (of_nat n :: u32) :: u64)"
    by (rule of_nat_unat)
  ultimately show ?thesis by (simp add: unat_of_nat)
qed

lemma payload_slices:
  assumes "32 \<le> length bs"
  shows "bs = [bs ! 0, bs ! 1, bs ! 2, bs ! 3] @ take 4 (drop 4 bs) @ take 4 (drop 8 bs) @
    take 8 (drop 12 bs) @ take 8 (drop 20 bs) @ take 4 (drop 28 bs) @ drop 32 bs"
proof -
  have cut: "drop m bs = take n (drop m bs) @ drop (n + m) bs" for m n
    by (metis append_take_drop_id drop_drop)
  have "bs = take 4 bs @ drop 4 bs" by simp
  then show ?thesis
    using cut[of 4 4] cut[of 8 4] cut[of 12 8] cut[of 20 8] cut[of 28 4] take4_nth[of bs] assms
    by simp
qed

lemma DecodeAckResult_bytes:
  assumes "ack_result_valid r"
  shows "DecodeAckResult (AckResultBytes r) = Result_Ok r"
proof -
  note v = ack_result_validD[OF assms]
  have len: "unat (ucast (ReadLe (AckResultBytes r) 28 4) :: u32) = length (ar_message r)"
  proof -
    have "(of_nat (length (ar_message r)) :: u64) = ucast (of_nat (length (ar_message r)) :: u32)"
      using v(2) by (intro u64_of_nat_u32) simp
    then show ?thesis using v(2) by (simp add: ReadLe_def AckResultBytes_parts unat_of_nat)
  qed
  have "DecodeAckFields (AckResultBytes r) (ar_message r) = Result_Ok r"
    using v by (cases r) (simp add: DecodeAckFields_def AckResultBytes_parts ReadLe_def Let_def
        Result_Ok_def del: One_nat_def)
  then show ?thesis
    using v by (simp add: DecodeAckResult_def len AckResultBytes_parts kAckResultV1HeaderSize_def
        kAckResultMaxMessageLength_def)
qed

lemma DecodeAckResult_OkD:
  assumes "DecodeAckResult bs = Inr r"
  shows "ack_result_valid r \<and> AckResultBytes r = bs"
proof -
  define n where "n = unat (ucast (ReadLe bs 28 4) :: u32)"
  define message where "message = string_of_bytes (take n (drop 32 bs))"
  from assms have len: "length bs = 32 + n" "bs ! 0 = 1" "n \<le> 1024"
    and fields: "DecodeAckFields bs message = Inr r"
    by (auto simp: DecodeAckResult_def n_def message_def kAckResultV1HeaderSize_def
        kAckResultMaxMessageLength_def Result_Err_def Let_def split: if_splits)
  from fields obtain status durability kind where
    e: "status_of_value (unat (bs ! 2)) = Some status" "durability_of_byte (bs ! 3) = Some durability"
      "kind_of_byte (bs ! 1) = Some kind"
    by (auto simp: DecodeAckFields_def Result_Err_def split: option.splits sum.splits if_splits)
  with fields have r: "r = \<lparr>ar_operation_kind = kind, ar_status = status, ar_durability = durability,
      ar_applied_count = le_get (take 4 (drop 4 bs)), ar_failed_index = le_get (take 4 (drop 8 bs)),
      ar_through_sequence = ReadLe bs 12 8, ar_failed_sequence = ReadLe bs 20 8,
      ar_message = message\<rparr>" and valid: "ack_result_valid r"
    by (auto simp: DecodeAckFields_def Result_Err_def Result_Ok_def ack_result_valid_def IsOk_def
        ReadLe_def Let_def split: sum.splits if_splits)
  have msg: "message = string_of_bytes (drop 32 bs)" "length message = n"
    using len by (simp_all add: message_def)
  have "le_put 4 (of_nat n :: u64) = take 4 (drop 28 bs)"
  proof -
    have l4: "length (take 4 (drop 28 bs)) = 4" using len by simp
    have "(of_nat n :: u64) = ucast (le_get (take 4 (drop 28 bs)) :: u32)"
      unfolding n_def ReadLe_def ucast_le_get_u32 by (rule of_nat_unat)
    then show ?thesis by (simp only: le_put_4_ucast le_put_get_u32[OF l4])
  qed
  then have "AckResultBytes r = [1, bs ! 1, bs ! 2, bs ! 3] @ take 4 (drop 4 bs) @ take 4 (drop 8 bs) @
    take 8 (drop 12 bs) @ take 8 (drop 20 bs) @ take 4 (drop 28 bs) @ drop 32 bs"
    using len msg status_value_of_value[OF e(1)] durability_byte_of_byte[OF e(2)] kind_byte_of_byte[OF e(3)]
    by (simp add: AckResultBytes_def PutLe_def r ReadLe_def le_put_get_u32 le_put_get_u64)
  also have "\<dots> = bs" using payload_slices[of bs] len by simp
  finally show ?thesis using valid by simp
qed

interpretation result_codec: exact_codec AckResultBytes "\<lambda>bs. result_option (DecodeAckResult bs)"
    ack_result_valid
  by unfold_locales (auto simp: DecodeAckResult_bytes result_option_def Result_Ok_def
      dest: DecodeAckResult_OkD split: sum.splits)

lemma EncodeAckResult_valid:
  "EncodeAckResult r = (if ack_result_valid r then Result_Ok (AckResultBytes r)
     else ErrFrom (ValidateAckResult r))"
  by (auto simp: EncodeAckResult_def ack_result_valid_def IsOk_def split: sum.splits)

section \<open>Properties\<close>

text \<open>The canonical text of a token is exact: the parser returns a token precisely for the
  text the formatter makes from it, the token is a version 4 UUID of sixteen bytes, and
  every generated token is one.\<close>

theorem ack_token_text_exact:
  "(ParseAckToken cs = Some t \<longleftrightarrow> length t = 16 \<and> IsValidAckToken t \<and> FormatAckToken t = cs) \<and>
   IsValidAckToken (GenerateAckToken [w0, w1, w2, w3])"
  using token_codec.dec_iff[of cs t] GenerateAckToken_valid[of "[w0, w1, w2, w3]"] by simp

text \<open>An attachment is observed as a token exactly when it is that token's encoding; an
  absent attachment is Absent, and every other byte string is Malformed.\<close>

theorem ack_attachment_exact:
  "(ObserveAckAttachment a = AckObserved t \<longleftrightarrow>
      length t = 16 \<and> IsValidAckToken t \<and> a = Some (EncodeAckAttachment t)) \<and>
   (ObserveAckAttachment a = AckAttachmentAbsent \<longleftrightarrow> a = None)"
proof (cases a)
  case (Some bs)
  have "ObserveAckAttachment (Some bs) \<noteq> AckAttachmentAbsent"
    by (auto simp: ObserveAckAttachment_def Let_def)
  with Some ObserveAckAttachment_token[of bs t] show ?thesis by auto
qed (simp add: ObserveAckAttachment_def)

text \<open>C38: the UTF-8 check accepts a message exactly when its bytes are the RFC 3629 encoding
  of some sequence of Unicode scalar values: overlong forms, surrogates, code points above
  U+10FFFF, truncated sequences and stray continuation bytes are all rejected.\<close>

theorem utf8_exact:
  "IsValidUtf8 s \<longleftrightarrow>
    (\<exists>cps. list_all scalar_value cps \<and> map of_char s = concat (map utf8_encode cps))"
  unfolding IsValidUtf8_def using utf8_loop_sound utf8_loop_complete by metis

text \<open>C39: acknowledgement results round-trip exactly.  The encoder succeeds precisely on
  results that satisfy the v1 invariants; the decoder accepts a payload precisely when it
  is the encoding of such a result, byte for byte, and returns that result.\<close>

theorem ack_result_roundtrip:
  "DecodeAckResult payload = Result_Ok r \<longleftrightarrow> EncodeAckResult r = Result_Ok payload"
proof
  assume "DecodeAckResult payload = Result_Ok r"
  then have "ack_result_valid r \<and> AckResultBytes r = payload"
    using DecodeAckResult_OkD by (simp add: Result_Ok_def)
  then show "EncodeAckResult r = Result_Ok payload" by (simp add: EncodeAckResult_valid)
next
  assume a: "EncodeAckResult r = Result_Ok payload"
  then have "ack_result_valid r"
    by (auto simp: EncodeAckResult_valid ack_result_valid_def IsOk_def ErrFrom_def Result_Ok_def
        Result_Err_def split: if_splits sum.splits)
  moreover from this a have "AckResultBytes r = payload"
    by (simp add: EncodeAckResult_valid Result_Ok_def)
  ultimately show "DecodeAckResult payload = Result_Ok r" using DecodeAckResult_bytes by blast
qed

text \<open>A decoded result obeys the per-operation contract a client relies on: it never
  carries the client-only Timeout, its message is valid UTF-8 of at most 1024 bytes, a
  successful put applied exactly one entry and a failed one none, a batch whose outcome is
  unknown failed right after its applied prefix, and a fence failure names a sequence in
  1 .. through.\<close>

theorem decoded_ack_result_contract:
  assumes "DecodeAckResult payload = Result_Ok r"
  shows "ar_status r \<noteq> Timeout \<and> length (ar_message r) \<le> 1024 \<and> IsValidUtf8 (ar_message r) \<and>
    (case ar_operation_kind r of
       OpPut \<Rightarrow> ar_applied_count r = (if ar_status r = Ok then 1 else 0)
     | OpBatch \<Rightarrow> ar_status r = OutcomeUnknown \<and> ar_failed_index r \<noteq> kAckNoFailedIndex \<longrightarrow>
         ar_applied_count r = ar_failed_index r
     | OpFence \<Rightarrow> ar_applied_count r = 0 \<and> (ar_failed_sequence r = kAckNoFailedSequence \<or>
         (ar_failed_sequence r \<noteq> 0 \<and> ar_failed_sequence r \<le> ar_through_sequence r)))"
proof -
  from assms have "ack_result_valid r" using DecodeAckResult_OkD by (simp add: Result_Ok_def)
  from ack_result_validD[OF this] show ?thesis
    by (auto simp: ValidateAckResult_def ValidateAckPut_def ValidateAckBatch_def
        ValidateAckFence_def IsWireStatus_def Result_Ok_def Result_Err_def
        split: sum.splits AckOperationKind.splits if_splits)
qed

theorem decoded_ack_result_contract_witness:
  "ar_status (ack_result_default\<lparr>ar_applied_count := 1\<rparr>) \<noteq> Timeout"
proof -
  let ?r = "ack_result_default\<lparr>ar_applied_count := 1\<rparr>"
  have "ack_result_valid ?r"
    by (simp add: ack_result_valid_def ValidateAckResult_def ValidateAckCommon_def ValidateAckPut_def
        ack_result_default_def IsWireStatus_def IsValidUtf8_def kAckResultMaxMessageLength_def
        Result_Ok_def IsOk_def)
  from decoded_ack_result_contract[OF DecodeAckResult_bytes[OF this]] show ?thesis by blast
qed

end
