(* ===== verification/ListPrefix.thy ===== *)
theory ListPrefix
  imports Key Status
begin

text \<open>
  Validation shared by the clients: list prefixes (\<open>src/list_prefix_validation.hpp\<close>) and the
  client configuration (\<open>src/client_config.cpp\<close>).
\<close>

definition isspace :: "char \<Rightarrow> bool" where
  "isspace c = (let n = of_char c :: nat in n = 32 \<or> (9 \<le> n \<and> n \<le> 13))"

definition ContainsWhitespaceOrWildcard :: "string \<Rightarrow> bool" where
  "ContainsWhitespaceOrWildcard s \<longleftrightarrow> list_ex (\<lambda>c. isspace c \<or> c = CHR ''*'' \<or> c = CHR ''?'') s"

function ContainsBatchSegment :: "string \<Rightarrow> bool" where
  "ContainsBatchSegment s =
    (if takeWhile (\<lambda>c. c \<noteq> CHR ''/'') s = '':batch'' then True
     else (case dropWhile (\<lambda>c. c \<noteq> CHR ''/'') s of [] \<Rightarrow> False | _ # rest \<Rightarrow> ContainsBatchSegment rest))"
  by pat_completeness auto
termination
proof (relation "measure length")
  fix s :: string and d rest
  assume "dropWhile (\<lambda>c. c \<noteq> CHR ''/'') s = d # rest"
  then have "length (d # rest) \<le> length s" by (metis length_dropWhile_le)
  then show "(rest, s) \<in> measure length" by simp
qed simp

declare ContainsBatchSegment.simps [simp del]

fun ContainsDoubleSlash :: "string \<Rightarrow> bool" where
  "ContainsDoubleSlash (c # d # s) = ((c = CHR ''/'' \<and> d = CHR ''/'') \<or> ContainsDoubleSlash (d # s))"
| "ContainsDoubleSlash _ = False"

definition ValidateListPrefix :: "string \<Rightarrow> unit Result" where
  "ValidateListPrefix p =
    (if p = [] then Result_Ok ()
     else if hd p = CHR ''/'' \<or> ContainsDoubleSlash p \<or> ContainsWhitespaceOrWildcard p \<or>
        ContainsBatchSegment p then Err InvalidKey ''invalid list prefix''
     else if last p = CHR ''/'' then
       (if length p = 1 \<or> \<not> IsValidPrefix (butlast p) then Err InvalidKey ''invalid list prefix''
        else Result_Ok ())
     else if \<not> IsValidKey p then Err InvalidKey ''invalid list prefix''
     else Result_Ok ())"

record ClientConfig =
  cc_prefix :: string
  cc_query_timeout :: int
  cc_zenoh_config_json :: "string option"

definition ValidateClientConfig :: "ClientConfig \<Rightarrow> unit Result" where
  "ValidateClientConfig config =
    (if \<not> IsValidPrefix (cc_prefix config) then Err InvalidKey ''invalid client prefix''
     else if cc_query_timeout config \<le> 0 then Err InvalidArgument ''query timeout must be positive''
     else if cc_zenoh_config_json config = Some '''' then
       Err InvalidArgument ''zenoh configuration must not be empty''
     else Result_Ok ())"

section \<open>The early rejections are implied by the key grammar\<close>

lemma chunk_char_plain: "IsValidChunkChar c \<Longrightarrow> \<not> isspace c \<and> c \<noteq> CHR ''*'' \<and> c \<noteq> CHR ''?''"
  by (auto simp: IsValidChunkChar_def isalnum_def isspace_def Let_def)

lemma valid_no_whitespace: "chunk_loop s \<Longrightarrow> \<not> ContainsWhitespaceOrWildcard s"
  using chunk_loop_chars[of s] chunk_char_plain
  by (fastforce simp: ContainsWhitespaceOrWildcard_def list_ex_iff isspace_def)

lemma ContainsWhitespace_snoc [simp]:
  "ContainsWhitespaceOrWildcard (s @ ''/'') = ContainsWhitespaceOrWildcard s"
  by (simp add: ContainsWhitespaceOrWildcard_def isspace_def)

lemma ContainsBatchSegment_sep:
  "CHR ''/'' \<notin> set h \<Longrightarrow> ContainsBatchSegment (h @ CHR ''/'' # t) \<longleftrightarrow> h = '':batch'' \<or> ContainsBatchSegment t"
  by (subst ContainsBatchSegment.simps) simp

lemma ContainsBatchSegment_chunk:
  "CHR ''/'' \<notin> set h \<Longrightarrow> ContainsBatchSegment h \<longleftrightarrow> h = '':batch''"
  by (subst ContainsBatchSegment.simps) simp

lemma batch_not_chunk: "\<not> IsValidChunk '':batch''"
  by (simp add: IsValidChunk_def)

lemma ContainsDoubleSlash_sep:
  "CHR ''/'' \<notin> set h \<Longrightarrow> h \<noteq> [] \<Longrightarrow> t \<noteq> [] \<Longrightarrow>
     ContainsDoubleSlash (h @ CHR ''/'' # t) \<longleftrightarrow> hd t = CHR ''/'' \<or> ContainsDoubleSlash t"
  by (induction h rule: ContainsDoubleSlash.induct; cases t) auto

lemma ContainsDoubleSlash_chunk: "CHR ''/'' \<notin> set h \<Longrightarrow> \<not> ContainsDoubleSlash h"
  by (induction h rule: ContainsDoubleSlash.induct) auto

lemma ContainsDoubleSlash_snoc: "CHR ''/'' \<notin> set h \<Longrightarrow> h \<noteq> [] \<Longrightarrow> \<not> ContainsDoubleSlash (h @ ''/'')"
  by (induction h rule: ContainsDoubleSlash.induct) auto

text \<open>A valid sequence, with or without a trailing slash, passes every early check.\<close>

lemma valid_passes_checks:
  assumes "chunk_loop s"
  shows "\<not> ContainsBatchSegment s \<and> \<not> ContainsDoubleSlash s \<and> \<not> ContainsBatchSegment (s @ ''/'') \<and>
    \<not> ContainsDoubleSlash (s @ ''/'') \<and> hd s \<noteq> CHR ''/'' \<and> s \<noteq> []"
  using assms
proof (induction "length s" arbitrary: s rule: less_induct)
  case less
  have empty: "\<not> ContainsBatchSegment []" by (subst ContainsBatchSegment.simps) simp
  show ?case
  proof (cases "CHR ''/'' \<in> set s")
    case False
    with less.prems have c: "IsValidChunk s" by (simp add: chunk_loop_chunk)
    then have "s \<noteq> []" "s \<noteq> '':batch''" using batch_not_chunk by (auto simp: IsValidChunk_def)
    with False empty show ?thesis
      by (simp add: ContainsBatchSegment_chunk ContainsBatchSegment_sep ContainsDoubleSlash_chunk
          ContainsDoubleSlash_snoc hd_in_set) (metis hd_in_set)
  next
    case True
    then obtain h t where s: "s = h @ CHR ''/'' # t" "CHR ''/'' \<notin> set h" by (metis split_list_first)
    with less.prems have h: "IsValidChunk h" "chunk_loop t" by (simp_all add: chunk_loop_sep)
    then have ne: "h \<noteq> []" "h \<noteq> '':batch''" using batch_not_chunk by (auto simp: IsValidChunk_def)
    have "hd h \<noteq> CHR ''/''" using s(2) ne(1) by (metis hd_in_set)
    with less.hyps[of t] s h ne show ?thesis
      by (simp add: ContainsBatchSegment_sep ContainsDoubleSlash_sep)
  qed
qed

section \<open>Properties\<close>

text \<open>A list prefix is accepted exactly when it is empty, a valid key, or a valid key
  sequence followed by one slash; every rejection is InvalidKey.\<close>

theorem ValidateListPrefix_exact:
  "(IsOk (ValidateListPrefix p) \<longleftrightarrow>
      p = '''' \<or> IsValidKey p \<or> (\<exists>q. p = q @ ''/'' \<and> IsValidPrefix q)) \<and>
   StatusCode (ValidateListPrefix p) \<in> {Ok, InvalidKey}"
proof (cases "p = ''''")
  case False
  define early where "early \<longleftrightarrow> hd p = CHR ''/'' \<or> ContainsDoubleSlash p \<or>
      ContainsWhitespaceOrWildcard p \<or> ContainsBatchSegment p"
  have key: "\<not> early" if "IsValidKey p"
    using that valid_passes_checks[of p] valid_no_whitespace[of p]
    by (simp add: early_def IsValidKey_loop)
  have slash: "\<not> early \<and> last p = CHR ''/'' \<and> butlast p = q \<and> length p \<noteq> 1 \<and> \<not> IsValidKey p"
    if "p = q @ ''/''" "IsValidPrefix q" for q
  proof -
    have "chunk_loop q" using that by (simp add: IsValidPrefix_loop)
    moreover have "\<not> chunk_loop (q @ ''/'')" using chunk_loop_join[of q "[]"] by simp
    ultimately show ?thesis
      using that(1) valid_passes_checks[of q] valid_no_whitespace[of q]
      by (simp add: early_def IsValidKey_loop)
  qed
  have last: "p = butlast p @ ''/''" if "last p = CHR ''/''"
    using False that by (metis append_butlast_last_id)
  have nokey: "\<not> IsValidKey p" if "last p = CHR ''/''"
    using that False by (simp add: IsValidKey_def IsValidChunkSequence_def)
  have "ValidateListPrefix p = (if early then Err InvalidKey ''invalid list prefix''
      else if last p = CHR ''/'' then
       (if length p = 1 \<or> \<not> IsValidPrefix (butlast p) then Err InvalidKey ''invalid list prefix''
        else Result_Ok ())
      else if \<not> IsValidKey p then Err InvalidKey ''invalid list prefix'' else Result_Ok ())"
    using False by (simp add: ValidateListPrefix_def early_def)
  moreover have "IsOk (Result_Ok ())" by (simp add: IsOk_def Result_Ok_def)
  ultimately show ?thesis
    using False key slash last nokey by (cases early; cases "last p = CHR ''/''") auto
qed (simp add: ValidateListPrefix_def IsOk_def Result_Ok_def StatusCode_def)

end
