(* ===== verification/Sha256.thy ===== *)
theory Sha256
  imports Prelude
begin

text \<open>
  The SHA-256 implementation \<open>src/sha256.cpp\<close> that fingerprints acknowledged writes.  The
  lemmas show that its streaming structure (whole blocks first, then a 128-byte tail buffer
  of which one or two blocks are used) computes the block chaining of FIPS 180-4 on the
  padded message.
\<close>

definition kRoundConstants :: "u32 list" where
  "kRoundConstants =
   concat [
     [0x428a2f98, 0x71374491, 0xb5c0fbcf, 0xe9b5dba5, 0x3956c25b, 0x59f111f1, 0x923f82a4, 0xab1c5ed5],
     [0xd807aa98, 0x12835b01, 0x243185be, 0x550c7dc3, 0x72be5d74, 0x80deb1fe, 0x9bdc06a7, 0xc19bf174],
     [0xe49b69c1, 0xefbe4786, 0x0fc19dc6, 0x240ca1cc, 0x2de92c6f, 0x4a7484aa, 0x5cb0a9dc, 0x76f988da],
     [0x983e5152, 0xa831c66d, 0xb00327c8, 0xbf597fc7, 0xc6e00bf3, 0xd5a79147, 0x06ca6351, 0x14292967],
     [0x27b70a85, 0x2e1b2138, 0x4d2c6dfc, 0x53380d13, 0x650a7354, 0x766a0abb, 0x81c2c92e, 0x92722c85],
     [0xa2bfe8a1, 0xa81a664b, 0xc24b8b70, 0xc76c51a3, 0xd192e819, 0xd6990624, 0xf40e3585, 0x106aa070],
     [0x19a4c116, 0x1e376c08, 0x2748774c, 0x34b0bcb5, 0x391c0cb3, 0x4ed8aa4a, 0x5b9cca4f, 0x682e6ff3],
     [0x748f82ee, 0x78a5636f, 0x84c87814, 0x8cc70208, 0x90befffa, 0xa4506ceb, 0xbef9a3f7, 0xc67178f2]]"

definition RotateRight :: "u32 \<Rightarrow> nat \<Rightarrow> u32" where
  "RotateRight value n = drop_bit n value OR push_bit (32 - n) value"

text \<open>The eight chaining words, as \<open>Sha256State::h\<close>.\<close>

datatype Sha256State = Sha256State (h0: u32) (h1: u32) (h2: u32) (h3: u32) (h4: u32) (h5: u32) (h6: u32) (h7: u32)

definition Sha256Init :: Sha256State where
  "Sha256Init = Sha256State 0x6a09e667 0xbb67ae85 0x3c6ef372 0xa54ff53a
     0x510e527f 0x9b05688c 0x1f83d9ab 0x5be0cd19"

definition BlockWord :: "bytes \<Rightarrow> nat \<Rightarrow> u32" where
  "BlockWord block i =
     push_bit 24 (ucast (block ! (4 * i))) OR push_bit 16 (ucast (block ! (4 * i + 1))) OR
     push_bit 8 (ucast (block ! (4 * i + 2))) OR ucast (block ! (4 * i + 3))"

definition ScheduleStep :: "nat \<Rightarrow> u32 list \<Rightarrow> u32 list" where
  "ScheduleStep i w =
    (let s0 = RotateRight (w ! (i - 15)) 7 XOR RotateRight (w ! (i - 15)) 18 XOR drop_bit 3 (w ! (i - 15));
         s1 = RotateRight (w ! (i - 2)) 17 XOR RotateRight (w ! (i - 2)) 19 XOR drop_bit 10 (w ! (i - 2))
     in w @ [w ! (i - 16) + s0 + w ! (i - 7) + s1])"

definition Schedule :: "bytes \<Rightarrow> u32 list" where
  "Schedule block = fold ScheduleStep [16..<64] (map (BlockWord block) [0..<16])"

definition Round :: "u32 list \<Rightarrow> nat \<Rightarrow> Sha256State \<Rightarrow> Sha256State" where
  "Round w i st = (case st of Sha256State a b c d e f g hh \<Rightarrow>
     let s1 = RotateRight e 6 XOR RotateRight e 11 XOR RotateRight e 25;
         ch = (e AND f) XOR (NOT e AND g);
         t1 = hh + s1 + ch + kRoundConstants ! i + w ! i;
         s0 = RotateRight a 2 XOR RotateRight a 13 XOR RotateRight a 22;
         maj = (a AND b) XOR (a AND c) XOR (b AND c);
         t2 = s0 + maj
     in Sha256State (t1 + t2) a b c (d + t1) e f g)"

definition ProcessBlock :: "bytes \<Rightarrow> Sha256State \<Rightarrow> Sha256State" where
  "ProcessBlock block st =
    (let r = fold (Round (Schedule block)) [0..<64] st
     in Sha256State (h0 st + h0 r) (h1 st + h1 r) (h2 st + h2 r) (h3 st + h3 r)
          (h4 st + h4 r) (h5 st + h5 r) (h6 st + h6 r) (h7 st + h7 r))"

text \<open>The loop over whole blocks: the state and the bytes from the final offset on.\<close>

function ProcessWholeBlocks :: "bytes \<Rightarrow> Sha256State \<Rightarrow> Sha256State \<times> bytes" where
  "ProcessWholeBlocks data st =
    (if 64 \<le> length data then ProcessWholeBlocks (drop 64 data) (ProcessBlock (take 64 data) st)
     else (st, data))"
  by pat_completeness auto
termination by (relation "measure (\<lambda>(data, _). length data)") auto

declare ProcessWholeBlocks.simps [simp del]

definition Sha256Tail :: "bytes \<Rightarrow> u64 \<Rightarrow> bytes" where
  "Sha256Tail rest bit_length =
    (let tail = rest @ replicate (128 - length rest) 0;
         tail = tail[length rest := 0x80];
         tail_blocks = (if length rest < 56 then 1 else 2)
     in fold (\<lambda>i tail. tail[tail_blocks * 64 - 1 - i := ucast (drop_bit (8 * i) bit_length)])
          [0..<8] tail)"

definition StateBytes :: "u32 \<Rightarrow> bytes" where
  "StateBytes x = [ucast (drop_bit 24 x), ucast (drop_bit 16 x), ucast (drop_bit 8 x), ucast x]"

definition Digest :: "Sha256State \<Rightarrow> bytes" where
  "Digest st = concat (map StateBytes [h0 st, h1 st, h2 st, h3 st, h4 st, h5 st, h6 st, h7 st])"

definition Sha256 :: "bytes \<Rightarrow> bytes" where
  "Sha256 data =
    (let (st, rest) = ProcessWholeBlocks data Sha256Init;
         tail = Sha256Tail rest (of_nat (length data) * 8);
         st = ProcessBlock (take 64 tail) st;
         st = (if length rest < 56 then st else ProcessBlock (take 64 (drop 64 tail)) st)
     in Digest st)"

section \<open>FIPS 180-4 padding and chaining\<close>

definition pad :: "bytes \<Rightarrow> bytes" where
  "pad data = data @ [0x80] @ replicate ((119 - length data mod 64) mod 64) 0 @
     rev (le_put 8 (of_nat (length data) * 8 :: u64))"

function chunks :: "bytes \<Rightarrow> bytes list" where
  "chunks data = (if 64 \<le> length data then take 64 data # chunks (drop 64 data) else [])"
  by pat_completeness auto
termination by (relation "measure length") auto

declare chunks.simps [simp del]

definition sha256_spec :: "bytes \<Rightarrow> bytes" where
  "sha256_spec data = Digest (fold ProcessBlock (chunks (pad data)) Sha256Init)"

lemma RotateRight_rotr:
  assumes "0 < n" "n < 32"
  shows "RotateRight v n = word_rotr n v"
proof (rule bit_word_eqI)
  fix k assume k: "k < LENGTH(32)"
  have "(k + n) mod 32 = (if k + n < 32 then k + n else k + n - 32)"
    using k assms by (simp add: mod_if)
  with k assms show "bit (RotateRight v n) k = bit (word_rotr n v) k"
    using bit_imp_le_length[of v "n + k"]
    by (auto simp: RotateRight_def bit_simps bit_word_rotr_iff add.commute)
qed

lemma length_Digest [simp]: "length (Digest st) = 32"
  by (simp add: Digest_def StateBytes_def)

lemma chunks_append:
  assumes "64 dvd length xs"
  shows "chunks (xs @ ys) = chunks xs @ chunks ys"
  using assms
proof (induction xs rule: chunks.induct)
  case (1 xs)
  show ?case
  proof (cases "64 \<le> length xs")
    case True
    have "64 dvd length (drop 64 xs)" using 1(2) by (simp add: dvd_diff_nat)
    from 1(1)[OF True this] True have "chunks (drop 64 xs @ ys) = chunks (drop 64 xs) @ chunks ys"
      by simp
    moreover have "chunks (xs @ ys) = take 64 xs # chunks (drop 64 xs @ ys)"
      using True by (subst chunks.simps) simp
    moreover have "chunks xs = take 64 xs # chunks (drop 64 xs)"
      using True by (subst chunks.simps) simp
    ultimately show ?thesis by simp
  next
    case False
    with 1(2) have "xs = []" using dvd_imp_le[of 64 "length xs"] by auto
    then show ?thesis by (simp add: chunks.simps[of "[]"])
  qed
qed

lemma chunks_block [simp]: "length xs = 64 \<Longrightarrow> chunks xs = [xs]"
  by (subst chunks.simps) (simp add: chunks.simps[of "[]"])

lemma ProcessWholeBlocks_chunks:
  "ProcessWholeBlocks data st =
    (fold ProcessBlock (chunks data) st, drop (length data - length data mod 64) data)"
proof (induction data st rule: ProcessWholeBlocks.induct)
  case (1 data st)
  show ?case
  proof (cases "64 \<le> length data")
    case True
    then have "length data mod 64 = (length data - 64) mod 64" by (simp add: le_mod_geq)
    moreover have "length data - 64 - (length data - 64) mod 64 + 64 = length data - (length data - 64) mod 64"
      using True mod_less_eq_dividend[of "length data - 64" 64] by linarith
    ultimately show ?thesis
      using True 1 by (subst ProcessWholeBlocks.simps, subst chunks.simps) simp
  next
    case False
    then show ?thesis by (subst ProcessWholeBlocks.simps, subst chunks.simps) simp
  qed
qed

lemma fold_update_backwards:
  assumes "k \<le> n" "n \<le> length t"
  shows "fold (\<lambda>i t. t[n - 1 - i := f i]) [0..<k] t = take (n - k) t @ rev (map f [0..<k]) @ drop n t"
  using assms(1)
proof (induction k)
  case 0
  then show ?case using assms by simp
next
  case (Suc k)
  have "take (n - k) t = take (n - Suc k) t @ [t ! (n - Suc k)]"
    using Suc.prems assms(2) take_Suc_conv_app_nth[of "n - Suc k" t]
    by (simp add: Suc_diff_Suc)
  then have "fold (\<lambda>i t. t[n - 1 - i := f i]) [0..<k] t =
      take (n - Suc k) t @ t ! (n - Suc k) # rev (map f [0..<k]) @ drop n t"
    using Suc by simp
  moreover have "length (take (n - Suc k) t) = n - Suc k" using assms(2) by simp
  ultimately show ?case by (simp add: list_update_append)
qed

lemma Sha256Tail_layout:
  assumes "length rest < 64"
  defines "n \<equiv> if length rest < 56 then 64 else 128"
  shows "Sha256Tail rest bl = rest @ [0x80] @ replicate (n - 9 - length rest) 0 @
    rev (le_put 8 bl) @ replicate (128 - n) 0"
proof -
  let ?t = "rest @ 0x80 # replicate (127 - length rest) 0"
  have "(rest @ replicate (128 - length rest) 0)[length rest := 0x80] = ?t"
    using assms(1) by (cases "128 - length rest") (simp_all add: list_update_append)
  moreover have "(if length rest < 56 then 1 else 2) * 64 = n" by (simp add: n_def)
  ultimately have "Sha256Tail rest bl = fold (\<lambda>i t. t[n - 1 - i := ucast (drop_bit (8 * i) bl)]) [0..<8] ?t"
    unfolding Sha256Tail_def Let_def by simp
  also have "\<dots> = take (n - 8) ?t @ rev (map (\<lambda>i. ucast (drop_bit (8 * i) bl)) [0..<8]) @ drop n ?t"
    using assms(1) by (intro fold_update_backwards) (simp_all add: n_def)
  also have "take (n - 8) ?t = rest @ [0x80] @ replicate (n - 9 - length rest) 0"
    using assms(1) by (auto simp: n_def take_Cons' min_def)
  also have "drop n ?t = replicate (128 - n) 0"
    using assms(1) by (auto simp: n_def drop_Cons')
  finally show ?thesis by (simp add: le_put_def)
qed

lemma Sha256_eq_spec: "Sha256 data = sha256_spec data"
proof -
  define r where "r = length data mod 64"
  define whole where "whole = take (length data - r) data"
  define rest where "rest = drop (length data - r) data"
  define bl :: u64 where "bl = of_nat (length data) * 8"
  have data: "data = whole @ rest" by (simp add: whole_def rest_def)
  have r: "length rest = r" "r < 64" "r \<le> length data" by (simp_all add: rest_def r_def)
  have dvd: "64 dvd length whole" by (simp add: whole_def r_def minus_mod_eq_div_mult)
  have whole_st: "ProcessWholeBlocks data Sha256Init = (fold ProcessBlock (chunks whole) Sha256Init, rest)"
  proof -
    have "chunks rest = []" using r by (subst chunks.simps) simp
    then have "chunks data = chunks whole" using chunks_append[OF dvd, of rest] data by simp
    then show ?thesis by (simp add: ProcessWholeBlocks_chunks rest_def r_def)
  qed
  define n where "n = (if r < 56 then 64 else 128::nat)"
  define padded where "padded = rest @ [0x80] @ replicate (n - 9 - r) 0 @ rev (le_put 8 bl)"
  have tail: "Sha256Tail rest bl = padded @ replicate (128 - n) 0"
    using Sha256Tail_layout[of rest bl] r by (simp add: padded_def n_def)
  have len: "length padded = n" using r by (simp add: padded_def n_def)
  have "pad data = whole @ padded"
  proof -
    have "(119 - r) mod 64 = n - 9 - r" using r(2) by (auto simp: n_def mod_if)
    then show ?thesis using data by (simp add: pad_def padded_def bl_def r_def)
  qed
  then have spec: "fold ProcessBlock (chunks (pad data)) Sha256Init =
      fold ProcessBlock (chunks padded) (fold ProcessBlock (chunks whole) Sha256Init)"
    by (simp add: chunks_append[OF dvd])
  have blocks: "chunks padded = (if r < 56 then [take 64 (Sha256Tail rest bl)]
      else [take 64 (Sha256Tail rest bl), take 64 (drop 64 (Sha256Tail rest bl))])"
  proof (cases "r < 56")
    case True
    with len tail show ?thesis by (simp add: n_def)
  next
    case False
    then have "length padded = 128" "Sha256Tail rest bl = padded" using len tail by (simp_all add: n_def)
    then show ?thesis using False chunks_append[of "take 64 padded" "drop 64 padded"] by simp
  qed
  show ?thesis
    unfolding Sha256_def sha256_spec_def spec blocks whole_st bl_def[symmetric] Let_def using r by simp
qed

section \<open>Properties\<close>

text \<open>C40: the streaming implementation computes FIPS 180-4 block chaining over the padded
  message, for every input length, and returns 32 bytes; its rotation is the word rotation.\<close>

theorem sha256_fips:
  "Sha256 data = sha256_spec data \<and> length (Sha256 data) = 32 \<and> 64 dvd length (pad data)"
proof -
  have "length (pad data) = length data + 9 + (119 - length data mod 64) mod 64"
    by (simp add: pad_def)
  moreover have "length data + 9 + (119 - length data mod 64) mod 64 =
      64 * (length data div 64 + (if length data mod 64 < 56 then 1 else 2))"
  proof -
    have "64 * q + r + 9 + (119 - r) mod 64 = 64 * (q + (if r < 56 then 1 else 2))"
      if "r < 64" for q r :: nat
      using that by (auto simp: mod_if)
    from this[of "length data mod 64" "length data div 64"] show ?thesis by simp
  qed
  ultimately have "64 dvd length (pad data)" by simp
  then show ?thesis by (simp add: Sha256_eq_spec) (simp add: sha256_spec_def)
qed

end
