(* ===== verification/AckRegistry.thy ===== *)
theory AckRegistry
  imports Ack Sha256
begin

text \<open>
  The node-wide registry of acknowledged operations, \<open>src/ack_registry.cpp\<close>: a token is
  claimed before any mutation, completed once with an immutable result, and retained in a
  ring of bounded capacity.  The mutex makes every operation atomic, so each is a function
  on the registry state.  The allocation-failure injection used by the tests is not
  modelled.  The hash tables are maps.
\<close>

section \<open>Fingerprints\<close>

type_synonym AckFingerprint = bytes

definition PutLengthPrefixed :: "bytes \<Rightarrow> bytes \<Rightarrow> bytes" where
  "PutLengthPrefixed out fld = out @ le_put 8 (of_nat (length fld) :: u64) @ fld"

definition FingerprintMaterial :: "AckOperationKind \<Rightarrow> string \<Rightarrow> string \<Rightarrow> bytes \<Rightarrow> bytes" where
  "FingerprintMaterial kind full_key encoding_id payload =
    (let material = [kind_byte kind];
         material = PutLengthPrefixed material (bytes_of_string full_key);
         material = PutLengthPrefixed material (bytes_of_string encoding_id)
     in PutLengthPrefixed material payload)"

definition ComputeAckFingerprint :: "AckOperationKind \<Rightarrow> string \<Rightarrow> string \<Rightarrow> bytes \<Rightarrow> AckFingerprint" where
  "ComputeAckFingerprint kind full_key encoding_id payload =
     Sha256 (FingerprintMaterial kind full_key encoding_id payload)"

section \<open>State and operations\<close>

datatype ClaimOutcome = Admitted | DuplicateProcessing | DuplicateCompleted | Collision | LaneBusy

record Entry =
  en_fingerprint :: AckFingerprint
  en_lane :: "u64 option"
  en_result :: "AckResultV1 option"

record Registry =
  rg_capacity :: nat
  rg_entries :: "AckToken \<rightharpoonup> Entry"
  rg_processing_by_lane :: "u64 \<rightharpoonup> AckToken"
  rg_completion_order :: "AckToken list"
  rg_next_completion_slot :: nat

definition kDefaultCapacity :: nat where
  "kDefaultCapacity = 4096"

definition kParameterLane :: u64 where
  "kParameterLane = 0"

definition NewRegistry :: "nat \<Rightarrow> Registry" where
  "NewRegistry capacity =
    \<lparr>rg_capacity = (if capacity = 0 then 1 else capacity), rg_entries = Map.empty,
     rg_processing_by_lane = Map.empty, rg_completion_order = [], rg_next_completion_slot = 0\<rparr>"

definition RetainCompletedLocked :: "AckToken \<Rightarrow> Registry \<Rightarrow> Registry" where
  "RetainCompletedLocked token st =
    (if length (rg_completion_order st) < rg_capacity st then
       st\<lparr>rg_completion_order := rg_completion_order st @ [token]\<rparr>
     else
       (let slot = rg_next_completion_slot st; oldest = rg_completion_order st ! slot in
        st\<lparr>rg_entries := (rg_entries st)(oldest := None),
           rg_completion_order := (rg_completion_order st)[slot := token],
           rg_next_completion_slot := (slot + 1) mod rg_capacity st\<rparr>))"

definition ClaimLocked :: "AckToken \<Rightarrow> AckFingerprint \<Rightarrow> u64 option \<Rightarrow> AckResultV1 option \<Rightarrow>
    Registry \<Rightarrow> Registry \<times> ClaimOutcome" where
  "ClaimLocked token fingerprint lane lane_busy_result st =
    (case rg_entries st token of
       Some e \<Rightarrow>
         if en_fingerprint e \<noteq> fingerprint then (st, Collision)
         else (st, if en_result e \<noteq> None then DuplicateCompleted else DuplicateProcessing)
     | None \<Rightarrow>
         if lane \<noteq> None \<and> rg_processing_by_lane st (the lane) \<noteq> None then
           ((if lane_busy_result \<noteq> None then
               RetainCompletedLocked token (st\<lparr>rg_entries := (rg_entries st)(token \<mapsto>
                 \<lparr>en_fingerprint = fingerprint, en_lane = lane, en_result = lane_busy_result\<rparr>)\<rparr>)
             else st), LaneBusy)
         else
           (st\<lparr>rg_entries := (rg_entries st)(token \<mapsto>
                 \<lparr>en_fingerprint = fingerprint, en_lane = lane, en_result = None\<rparr>),
               rg_processing_by_lane := (case lane of
                 None \<Rightarrow> rg_processing_by_lane st
               | Some l \<Rightarrow> (rg_processing_by_lane st)(l \<mapsto> token))\<rparr>, Admitted))"

definition Claim :: "AckToken \<Rightarrow> AckFingerprint \<Rightarrow> u64 \<Rightarrow> Registry \<Rightarrow> Registry \<times> ClaimOutcome" where
  "Claim token fingerprint lane st = ClaimLocked token fingerprint (Some lane) None st"

definition ClaimIndependent :: "AckToken \<Rightarrow> AckFingerprint \<Rightarrow> Registry \<Rightarrow> Registry \<times> ClaimOutcome" where
  "ClaimIndependent token fingerprint st = ClaimLocked token fingerprint None None st"

definition ClaimOrReject :: "AckToken \<Rightarrow> AckFingerprint \<Rightarrow> u64 \<Rightarrow> AckResultV1 \<Rightarrow>
    Registry \<Rightarrow> Registry \<times> ClaimOutcome" where
  "ClaimOrReject token fingerprint lane lane_busy_result st =
     ClaimLocked token fingerprint (Some lane) (Some lane_busy_result) st"

definition Complete :: "AckToken \<Rightarrow> AckResultV1 \<Rightarrow> Registry \<Rightarrow> Registry \<times> bool" where
  "Complete token result st =
    (case rg_entries st token of
       None \<Rightarrow> (st, False)
     | Some e \<Rightarrow>
         if en_result e \<noteq> None then (st, False) else
         (let lanes = (case en_lane e of
                None \<Rightarrow> rg_processing_by_lane st
              | Some l \<Rightarrow> if rg_processing_by_lane st l = Some token
                          then (rg_processing_by_lane st)(l := None)
                          else rg_processing_by_lane st);
              st = st\<lparr>rg_entries := (rg_entries st)(token \<mapsto> e\<lparr>en_result := Some result\<rparr>),
                      rg_processing_by_lane := lanes\<rparr>
          in (RetainCompletedLocked token st, True)))"

definition RecordRejected :: "AckToken \<Rightarrow> AckFingerprint \<Rightarrow> AckResultV1 \<Rightarrow> Registry \<Rightarrow> Registry \<times> bool" where
  "RecordRejected token fingerprint result st =
    (if rg_entries st token \<noteq> None then (st, False)
     else (RetainCompletedLocked token (st\<lparr>rg_entries := (rg_entries st)(token \<mapsto>
             \<lparr>en_fingerprint = fingerprint, en_lane = None, en_result = Some result\<rparr>)\<rparr>), True))"

definition Find :: "AckToken \<Rightarrow> Registry \<Rightarrow> AckResultV1 option" where
  "Find token st = (case rg_entries st token of None \<Rightarrow> None | Some e \<Rightarrow> en_result e)"

definition Clear :: "Registry \<Rightarrow> Registry" where
  "Clear st = st\<lparr>rg_entries := Map.empty, rg_processing_by_lane := Map.empty,
     rg_completion_order := [], rg_next_completion_slot := 0\<rparr>"

definition Size :: "Registry \<Rightarrow> nat" where
  "Size st = card (dom (rg_entries st))"

definition ProcessingCount :: "Registry \<Rightarrow> nat" where
  "ProcessingCount st = card {t. \<exists>e. rg_entries st t = Some e \<and> en_result e = None}"

section \<open>The invariant\<close>

definition completed_tokens :: "Registry \<Rightarrow> AckToken set" where
  "completed_tokens st = {t. \<exists>e. rg_entries st t = Some e \<and> en_result e \<noteq> None}"

definition processing_tokens :: "Registry \<Rightarrow> AckToken set" where
  "processing_tokens st = {t. \<exists>e. rg_entries st t = Some e \<and> en_result e = None}"

definition ring_inv :: "Registry \<Rightarrow> bool" where
  "ring_inv st \<longleftrightarrow>
     0 < rg_capacity st \<and> length (rg_completion_order st) \<le> rg_capacity st \<and>
     rg_next_completion_slot st < rg_capacity st \<and>
     (length (rg_completion_order st) < rg_capacity st \<longrightarrow> rg_next_completion_slot st = 0) \<and>
     distinct (rg_completion_order st)"

definition lanes_inv :: "Registry \<Rightarrow> bool" where
  "lanes_inv st \<longleftrightarrow> (\<forall>l t. rg_processing_by_lane st l = Some t \<longleftrightarrow>
     (\<exists>e. rg_entries st t = Some e \<and> en_lane e = Some l \<and> en_result e = None))"

definition registry_inv :: "Registry \<Rightarrow> bool" where
  "registry_inv st \<longleftrightarrow> ring_inv st \<and> lanes_inv st \<and> finite (dom (rg_entries st)) \<and>
     set (rg_completion_order st) = completed_tokens st"

text \<open>The ring read from the oldest retained token on.\<close>

definition completion_queue :: "Registry \<Rightarrow> AckToken list" where
  "completion_queue st = drop (rg_next_completion_slot st) (rg_completion_order st) @
     take (rg_next_completion_slot st) (rg_completion_order st)"

lemma registry_invD:
  assumes "registry_inv st"
  shows "0 < rg_capacity st" "length (rg_completion_order st) \<le> rg_capacity st"
    "rg_next_completion_slot st < rg_capacity st"
    "length (rg_completion_order st) < rg_capacity st \<Longrightarrow> rg_next_completion_slot st = 0"
    "distinct (rg_completion_order st)" "lanes_inv st" "finite (dom (rg_entries st))"
    "set (rg_completion_order st) = completed_tokens st"
  using assms by (auto simp: registry_inv_def ring_inv_def)

lemma NewRegistry_inv: "registry_inv (NewRegistry n)"
  by (auto simp: registry_inv_def ring_inv_def lanes_inv_def completed_tokens_def NewRegistry_def)

lemma Clear_inv: "registry_inv st \<Longrightarrow> registry_inv (Clear st)"
  by (auto simp: registry_inv_def ring_inv_def lanes_inv_def completed_tokens_def Clear_def)

text \<open>
  Retention is called with the token already completed but not yet in the ring; this is the
  state between the two halves of every completing operation.
\<close>

definition pending_retention :: "AckToken \<Rightarrow> Registry \<Rightarrow> bool" where
  "pending_retention t st \<longleftrightarrow> ring_inv st \<and> lanes_inv st \<and> finite (dom (rg_entries st)) \<and>
     t \<notin> set (rg_completion_order st) \<and>
     insert t (set (rg_completion_order st)) = completed_tokens st"

lemma completed_tokens_erase:
  "completed_tokens (st\<lparr>rg_entries := (rg_entries st)(x := None), rg_completion_order := q,
     rg_next_completion_slot := n\<rparr>) = completed_tokens st - {x}"
  by (auto simp: completed_tokens_def)

lemma lanes_invD:
  "lanes_inv st \<Longrightarrow> rg_entries st t = Some e \<Longrightarrow> en_lane e = Some l \<Longrightarrow> en_result e = None \<Longrightarrow>
     rg_processing_by_lane st l = Some t"
  by (auto simp: lanes_inv_def)

lemma RetainCompleted_inv:
  assumes "pending_retention t st"
  shows "registry_inv (RetainCompletedLocked t st)"
proof (cases "length (rg_completion_order st) < rg_capacity st")
  case True
  with assms show ?thesis
    by (auto simp: RetainCompletedLocked_def registry_inv_def pending_retention_def ring_inv_def
        lanes_inv_def completed_tokens_def)
next
  case False
  define slot where "slot = rg_next_completion_slot st"
  define oldest where "oldest = rg_completion_order st ! slot"
  from assms False have r: "0 < rg_capacity st" "length (rg_completion_order st) = rg_capacity st"
    "slot < rg_capacity st" "distinct (rg_completion_order st)" "lanes_inv st"
    "finite (dom (rg_entries st))" "t \<notin> set (rg_completion_order st)"
    "insert t (set (rg_completion_order st)) = completed_tokens st"
    by (auto simp: pending_retention_def ring_inv_def slot_def)
  have old: "oldest \<in> set (rg_completion_order st)" using r by (simp add: oldest_def)
  let ?st = "RetainCompletedLocked t st"
  have st: "?st = st\<lparr>rg_entries := (rg_entries st)(oldest := None),
      rg_completion_order := (rg_completion_order st)[slot := t],
      rg_next_completion_slot := (slot + 1) mod rg_capacity st\<rparr>"
    using False by (simp add: RetainCompletedLocked_def slot_def oldest_def Let_def)
  have "set ((rg_completion_order st)[slot := t]) = insert t (set (rg_completion_order st) - {oldest})"
    using r by (simp add: set_update_distinct oldest_def)
  also have "\<dots> = completed_tokens st - {oldest}" using r(7,8) old by auto
  finally have "set (rg_completion_order ?st) = completed_tokens ?st"
    by (simp add: st completed_tokens_erase)
  moreover have "ring_inv ?st"
    using r by (simp add: st ring_inv_def distinct_list_update)
  moreover have "lanes_inv ?st"
  proof -
    from old r(8) have "oldest \<in> completed_tokens st" by blast
    then obtain e where e: "rg_entries st oldest = Some e" "en_result e \<noteq> None"
      by (auto simp: completed_tokens_def)
    from r(5) e show ?thesis unfolding lanes_inv_def st by auto
  qed
  moreover have "finite (dom (rg_entries ?st))" using r(6) by (simp add: st)
  ultimately show ?thesis by (simp add: registry_inv_def)
qed

lemma pending_insert:
  assumes "registry_inv st" "rg_entries st t = None"
  shows "pending_retention t (st\<lparr>rg_entries := (rg_entries st)(t \<mapsto>
    \<lparr>en_fingerprint = f, en_lane = l, en_result = Some r\<rparr>)\<rparr>)"
proof -
  note i = registry_invD[OF assms(1)]
  have "t \<notin> completed_tokens st" using assms(2) by (simp add: completed_tokens_def)
  moreover have "\<forall>l'. rg_processing_by_lane st l' \<noteq> Some t"
    using i(6) assms(2) by (auto simp: lanes_inv_def)
  ultimately show ?thesis
    using assms(1) i(6) by (auto simp: pending_retention_def registry_inv_def ring_inv_def
        lanes_inv_def completed_tokens_def)
qed

lemma ClaimLocked_inv:
  assumes "registry_inv st"
  shows "registry_inv (fst (ClaimLocked t f lane busy st))"
proof (cases "rg_entries st t")
  case (Some e)
  with assms show ?thesis by (simp add: ClaimLocked_def)
next
  case None
  show ?thesis
  proof (cases "lane \<noteq> None \<and> rg_processing_by_lane st (the lane) \<noteq> None")
    case True
    then show ?thesis
      using assms None RetainCompleted_inv[OF pending_insert[OF assms None]]
      by (auto simp: ClaimLocked_def)
  next
    case False
    note i = registry_invD[OF assms]
    have "\<forall>l'. rg_processing_by_lane st l' \<noteq> Some t"
      using i(6) None by (auto simp: lanes_inv_def)
    moreover have "\<exists>y. en_result e = Some y"
      if "rg_entries st t' = Some e" "en_lane e = Some l" "lane = Some l" for t' e l
      using that False lanes_invD[OF i(6)] by fastforce
    ultimately have "lanes_inv (fst (ClaimLocked t f lane busy st))"
      using False None i(6)
      by (cases lane) (auto simp: ClaimLocked_def lanes_inv_def)
    moreover have "completed_tokens (fst (ClaimLocked t f lane busy st)) = completed_tokens st"
      using False None by (auto simp: ClaimLocked_def completed_tokens_def)
    ultimately show ?thesis
      using False None i by (auto simp: ClaimLocked_def registry_inv_def ring_inv_def)
  qed
qed

lemma pending_complete:
  assumes "registry_inv st" "rg_entries st t = Some e" "en_result e = None"
  shows "pending_retention t (st\<lparr>rg_entries := (rg_entries st)(t \<mapsto> e\<lparr>en_result := Some r\<rparr>),
    rg_processing_by_lane := (case en_lane e of
        None \<Rightarrow> rg_processing_by_lane st
      | Some l \<Rightarrow> if rg_processing_by_lane st l = Some t
                  then (rg_processing_by_lane st)(l := None) else rg_processing_by_lane st)\<rparr>)"
proof -
  note i = registry_invD[OF assms(1)]
  have "t \<notin> completed_tokens st" using assms(2,3) by (simp add: completed_tokens_def)
  moreover have "rg_processing_by_lane st l = Some t \<longleftrightarrow> en_lane e = Some l" for l
    using i(6) assms(2,3) unfolding lanes_inv_def by auto
  moreover have "\<exists>y. en_result e' = Some y"
    if "rg_entries st t' = Some e'" "en_lane e' = Some l" "en_lane e = Some l" "t' \<noteq> t" for t' e' l
  proof (rule ccontr)
    assume "\<nexists>y. en_result e' = Some y"
    with that assms(2,3) lanes_invD[OF i(6), of t' e' l] lanes_invD[OF i(6), of t e l] show False
      by auto
  qed
  ultimately show ?thesis
    using assms i by (cases "en_lane e") (auto simp: pending_retention_def registry_inv_def ring_inv_def
        lanes_inv_def completed_tokens_def)
qed

lemma Complete_inv:
  assumes "registry_inv st"
  shows "registry_inv (fst (Complete t r st))"
proof (cases "rg_entries st t")
  case (Some e)
  then show ?thesis
    using assms RetainCompleted_inv[OF pending_complete[OF assms Some]]
    by (simp add: Complete_def Let_def)
qed (use assms in \<open>simp add: Complete_def\<close>)

lemma RecordRejected_inv:
  assumes "registry_inv st"
  shows "registry_inv (fst (RecordRejected t f r st))"
  using assms RetainCompleted_inv[OF pending_insert[OF assms]]
  by (simp add: RecordRejected_def)

section \<open>The ring is a bounded first-in first-out queue\<close>

lemma completion_queue_set [simp]: "set (completion_queue st) = set (rg_completion_order st)"
  by (metis append_take_drop_id completion_queue_def set_append Un_commute)

lemma length_completion_queue [simp]:
  "length (completion_queue st) = length (rg_completion_order st)"
  by (simp add: completion_queue_def)

lemma completion_queue_retain:
  assumes "ring_inv st"
  shows "completion_queue (RetainCompletedLocked t st) =
    (if length (completion_queue st) < rg_capacity st then completion_queue st @ [t]
     else tl (completion_queue st) @ [t])"
proof (cases "length (rg_completion_order st) < rg_capacity st")
  case True
  with assms show ?thesis
    by (auto simp: RetainCompletedLocked_def completion_queue_def ring_inv_def)
next
  case False
  define slot where "slot = rg_next_completion_slot st"
  define ring where "ring = rg_completion_order st"
  have s: "slot < length ring" "length ring = rg_capacity st"
    using assms False by (auto simp: slot_def ring_def ring_inv_def)
  have upd: "ring[slot := t] = take slot ring @ t # drop (Suc slot) ring"
    using s by (simp add: upd_conv_take_nth_drop)
  have q: "completion_queue (RetainCompletedLocked t st) =
      (let n = (slot + 1) mod rg_capacity st in drop n (ring[slot := t]) @ take n (ring[slot := t]))"
    using False by (simp add: RetainCompletedLocked_def completion_queue_def slot_def ring_def Let_def)
  have "drop (Suc slot) ring @ take slot ring @ [t] =
      (let n = (slot + 1) mod rg_capacity st in drop n (ring[slot := t]) @ take n (ring[slot := t]))"
  proof (cases "Suc slot = rg_capacity st")
    case True
    then show ?thesis using s by (simp add: upd Let_def)
  next
    case False
    then have "(slot + 1) mod rg_capacity st = Suc slot" using s by simp
    then show ?thesis using s by (simp add: upd Let_def)
  qed
  moreover have "tl (completion_queue st) = drop (Suc slot) ring @ take slot ring"
    using s unfolding completion_queue_def slot_def[symmetric] ring_def[symmetric]
    by (simp add: drop_Suc tl_append drop_tl split: list.split)
  ultimately show ?thesis using False q by simp
qed

lemma Find_retain:
  assumes "ring_inv st"
  shows "Find x (RetainCompletedLocked t st) =
    (if length (rg_completion_order st) < rg_capacity st \<or> x \<noteq> hd (completion_queue st)
     then Find x st else None)"
proof (cases "length (rg_completion_order st) < rg_capacity st")
  case True
  then show ?thesis by (simp add: RetainCompletedLocked_def Find_def)
next
  case False
  with assms have "rg_next_completion_slot st < length (rg_completion_order st)"
    by (auto simp: ring_inv_def)
  then have "hd (completion_queue st) = rg_completion_order st ! rg_next_completion_slot st"
    by (simp add: completion_queue_def hd_append hd_drop_conv_nth)
  with False show ?thesis by (simp add: RetainCompletedLocked_def Find_def Let_def)
qed

section \<open>Sequences of operations\<close>

datatype RegistryOp =
    RClaim AckToken AckFingerprint u64
  | RClaimIndependent AckToken AckFingerprint
  | RClaimOrReject AckToken AckFingerprint u64 AckResultV1
  | RComplete AckToken AckResultV1
  | RRecordRejected AckToken AckFingerprint AckResultV1
  | RClear

definition registry_step :: "RegistryOp \<Rightarrow> Registry \<Rightarrow> Registry" where
  "registry_step op st = (case op of
     RClaim t f l \<Rightarrow> fst (Claim t f l st)
   | RClaimIndependent t f \<Rightarrow> fst (ClaimIndependent t f st)
   | RClaimOrReject t f l r \<Rightarrow> fst (ClaimOrReject t f l r st)
   | RComplete t r \<Rightarrow> fst (Complete t r st)
   | RRecordRejected t f r \<Rightarrow> fst (RecordRejected t f r st)
   | RClear \<Rightarrow> Clear st)"

lemmas claim_defs = Claim_def ClaimIndependent_def ClaimOrReject_def

lemma registry_step_inv: "registry_inv st \<Longrightarrow> registry_inv (registry_step op st)"
  by (cases op) (simp_all add: registry_step_def claim_defs ClaimLocked_inv Complete_inv RecordRejected_inv Clear_inv)

lemma registry_run_inv: "registry_inv st \<Longrightarrow> registry_inv (fold registry_step ops st)"
  by (induction ops arbitrary: st) (simp_all add: registry_step_inv)

text \<open>Every operation but \<open>Clear\<close> either retains one token or leaves the ring alone; completed
  results survive the part of it that precedes retention.\<close>

definition same_ring :: "Registry \<Rightarrow> Registry \<Rightarrow> bool" where
  "same_ring st st1 \<longleftrightarrow> rg_capacity st1 = rg_capacity st \<and>
     rg_completion_order st1 = rg_completion_order st \<and>
     rg_next_completion_slot st1 = rg_next_completion_slot st \<and>
     (\<forall>x r. Find x st = Some r \<longrightarrow> Find x st1 = Some r)"

definition ring_step :: "Registry \<Rightarrow> Registry \<Rightarrow> bool" where
  "ring_step st st' \<longleftrightarrow> (\<exists>st1. same_ring st st1 \<and> (st' = st1 \<or> (\<exists>t. st' = RetainCompletedLocked t st1)))"

lemma ring_stepI1: "same_ring st st' \<Longrightarrow> ring_step st st'"
  by (auto simp: ring_step_def)

lemma ring_stepI2: "same_ring st st1 \<Longrightarrow> ring_step st (RetainCompletedLocked t st1)"
  by (auto simp: ring_step_def)

lemma ring_step_refl [simp]: "ring_step st st"
  by (rule ring_stepI1) (simp add: same_ring_def)

lemma ring_step_ClaimLocked: "ring_step st (fst (ClaimLocked t f l b st))"
proof (cases "rg_entries st t = None \<and> l \<noteq> None \<and> rg_processing_by_lane st (the l) \<noteq> None \<and> b \<noteq> None")
  case True
  then show ?thesis by (auto simp: ClaimLocked_def same_ring_def Find_def intro!: ring_stepI2)
next
  case False
  then have "same_ring st (fst (ClaimLocked t f l b st))"
    by (auto simp: ClaimLocked_def same_ring_def Find_def split: option.splits)
  then show ?thesis by (rule ring_stepI1)
qed

lemma ring_step_Complete: "ring_step st (fst (Complete t r st))"
  by (auto simp: Complete_def Let_def same_ring_def Find_def intro!: ring_stepI2 split: option.splits)

lemma ring_step_RecordRejected: "ring_step st (fst (RecordRejected t f r st))"
  by (auto simp: RecordRejected_def same_ring_def Find_def intro!: ring_stepI2)

lemma ring_step_registry_step: "op \<noteq> RClear \<Longrightarrow> ring_step st (registry_step op st)"
  by (cases op) (simp_all add: registry_step_def claim_defs ring_step_ClaimLocked ring_step_Complete
      ring_step_RecordRejected)

text \<open>Whether an operation puts a token into the retention ring shows in what it returns.\<close>

definition retires :: "RegistryOp \<Rightarrow> Registry \<Rightarrow> bool" where
  "retires op st = (case op of
     RComplete t r \<Rightarrow> snd (Complete t r st)
   | RRecordRejected t f r \<Rightarrow> snd (RecordRejected t f r st)
   | RClaimOrReject t f l r \<Rightarrow> snd (ClaimOrReject t f l r st) = LaneBusy
   | _ \<Rightarrow> False)"

fun retirements :: "RegistryOp list \<Rightarrow> Registry \<Rightarrow> nat" where
  "retirements [] st = 0"
| "retirements (op # ops) st = (if retires op st then 1 else 0) + retirements ops (registry_step op st)"

lemma not_retires_same_ring:
  assumes "op \<noteq> RClear" "\<not> retires op st"
  shows "same_ring st (registry_step op st)"
  using assms by (cases op)
    (auto simp: registry_step_def retires_def claim_defs ClaimLocked_def Complete_def RecordRejected_def
      same_ring_def Find_def Let_def split: option.splits if_splits)

lemma retirements_le: "retirements ops st \<le> length ops"
proof (induction ops arbitrary: st)
  case (Cons op ops)
  from Cons[of "registry_step op st"] show ?case by simp
qed simp

text \<open>\<open>x\<close> is retained and at least \<open>n\<close> further retentions leave it so.\<close>

definition retained_for :: "nat \<Rightarrow> AckToken \<Rightarrow> Registry \<Rightarrow> bool" where
  "retained_for n x st \<longleftrightarrow> (\<exists>pre post. completion_queue st = pre @ x # post \<and>
     n \<le> rg_capacity st - length (completion_queue st) + length pre)"

lemma same_ring_queue: "same_ring st st1 \<Longrightarrow> completion_queue st1 = completion_queue st"
  by (simp add: same_ring_def completion_queue_def)

lemma same_ring_inv: "same_ring st st1 \<Longrightarrow> ring_inv st1 = ring_inv st"
  by (simp add: same_ring_def ring_inv_def)

lemma capacity_retain [simp]: "rg_capacity (RetainCompletedLocked t st) = rg_capacity st"
  by (simp add: RetainCompletedLocked_def Let_def)

lemma retained_for_retain:
  assumes "ring_inv st" "retained_for (Suc n) x st"
  shows "retained_for n x (RetainCompletedLocked t st)"
proof -
  from assms(2) obtain pre post where q: "completion_queue st = pre @ x # post"
    and n: "Suc n \<le> rg_capacity st - length (completion_queue st) + length pre"
    unfolding retained_for_def by blast
  show ?thesis
  proof (cases "length (completion_queue st) < rg_capacity st")
    case True
    with q n have "completion_queue (RetainCompletedLocked t st) = pre @ x # (post @ [t])"
      "n \<le> rg_capacity st - length (pre @ x # (post @ [t])) + length pre"
      by (simp_all add: completion_queue_retain[OF assms(1)])
    then show ?thesis unfolding retained_for_def capacity_retain by metis
  next
    case False
    with n obtain y pre' where pre: "pre = y # pre'" by (cases pre) auto
    with q n False have "completion_queue (RetainCompletedLocked t st) = pre' @ x # (post @ [t])"
      "n \<le> rg_capacity st - length (pre' @ x # (post @ [t])) + length pre'"
      by (simp_all add: completion_queue_retain[OF assms(1)])
    then show ?thesis unfolding retained_for_def capacity_retain by metis
  qed
qed

lemma Find_retain_retained:
  assumes "registry_inv st" "same_ring st st1" "retained_for (Suc n) x st"
  shows "Find x (RetainCompletedLocked t st1) = Find x st1"
proof -
  have inv: "ring_inv st1" using assms by (simp add: same_ring_inv registry_inv_def)
  from assms(3) obtain pre post where q: "completion_queue st = pre @ x # post"
    and n: "Suc n \<le> rg_capacity st - length (completion_queue st) + length pre"
    unfolding retained_for_def by blast
  have d: "distinct (completion_queue st)"
    using registry_invD(5)[OF assms(1)] append_take_drop_id[of "rg_next_completion_slot st" "rg_completion_order st"]
    unfolding completion_queue_def by (metis distinct_append inf_commute)
  have same: "rg_capacity st1 = rg_capacity st" "rg_completion_order st1 = rg_completion_order st"
    using assms(2) by (simp_all add: same_ring_def)
  show ?thesis
  proof (cases "length (rg_completion_order st) < rg_capacity st")
    case True
    with same show ?thesis by (simp add: Find_retain[OF inv])
  next
    case False
    with n have "pre \<noteq> []" by auto
    then obtain y pre' where "pre = y # pre'" by (cases pre) auto
    with q d have "x \<noteq> hd (completion_queue st)" by auto
    then show ?thesis by (simp add: Find_retain[OF inv] same_ring_queue[OF assms(2)])
  qed
qed

lemma retained_for_step:
  assumes "registry_inv st" "ring_step st st'" "retained_for (Suc n) x st" "Find x st = Some r"
  shows "retained_for n x st' \<and> Find x st' = Some r"
proof -
  from assms(2) obtain st1 where st1: "same_ring st st1" "st' = st1 \<or> (\<exists>t. st' = RetainCompletedLocked t st1)"
    by (auto simp: ring_step_def)
  have cap: "rg_capacity st1 = rg_capacity st" using st1(1) by (simp add: same_ring_def)
  have keep: "retained_for (Suc n) x st1" "Find x st1 = Some r" "ring_inv st1"
    using assms(1,3,4) st1(1)
    by (simp_all add: retained_for_def same_ring_queue cap same_ring_inv registry_inv_def)
      (simp add: same_ring_def)
  have weak: "retained_for n x st1"
    using keep(1) unfolding retained_for_def by (meson Suc_leD)
  from st1(2) show ?thesis
  proof
    assume "st' = st1" with keep weak show ?thesis by simp
  next
    assume "\<exists>t. st' = RetainCompletedLocked t st1"
    with retained_for_retain[OF keep(3,1)] Find_retain_retained[OF assms(1) st1(1) assms(3)] keep(2)
    show ?thesis by auto
  qed
qed

lemma retained_for_same_ring:
  "same_ring st st1 \<Longrightarrow> retained_for n x st \<Longrightarrow> Find x st = Some r \<Longrightarrow>
     retained_for n x st1 \<and> Find x st1 = Some r"
  by (simp add: retained_for_def same_ring_queue) (simp add: same_ring_def)

lemma retained_for_op:
  assumes "registry_inv st" "op \<noteq> RClear" "Find x st = Some r"
    and "retained_for ((if retires op st then 1 else 0) + n) x st"
  shows "retained_for n x (registry_step op st) \<and> Find x (registry_step op st) = Some r"
proof (cases "retires op st")
  case True
  with assms show ?thesis by (intro retained_for_step[OF _ ring_step_registry_step]) simp_all
next
  case False
  with assms show ?thesis by (intro retained_for_same_ring[OF not_retires_same_ring]) simp_all
qed

lemma retained_for_run:
  "registry_inv st \<Longrightarrow> RClear \<notin> set ops \<Longrightarrow> retained_for (retirements ops st) x st \<Longrightarrow>
     Find x st = Some r \<Longrightarrow> Find x (fold registry_step ops st) = Some r"
proof (induction ops arbitrary: st)
  case (Cons op ops)
  then have "retained_for (retirements ops (registry_step op st)) x (registry_step op st) \<and>
      Find x (registry_step op st) = Some r"
    by (intro retained_for_op) auto
  with Cons show ?case by (simp add: registry_step_inv)
qed simp

lemma Complete_success:
  assumes "registry_inv st" "Complete t r st = (st', True)"
  shows "registry_inv st' \<and> retained_for (rg_capacity st - 1) t st' \<and> Find t st' = Some r"
proof -
  from assms(2) obtain e where e: "rg_entries st t = Some e" "en_result e = None"
    by (auto simp: Complete_def Let_def split: option.splits if_splits)
  define st1 where "st1 = st\<lparr>rg_entries := (rg_entries st)(t \<mapsto> e\<lparr>en_result := Some r\<rparr>),
    rg_processing_by_lane := (case en_lane e of
        None \<Rightarrow> rg_processing_by_lane st
      | Some l \<Rightarrow> if rg_processing_by_lane st l = Some t
                  then (rg_processing_by_lane st)(l := None) else rg_processing_by_lane st)\<rparr>"
  have st': "st' = RetainCompletedLocked t st1"
    using assms(2) e by (simp add: Complete_def st1_def Let_def)
  have p: "pending_retention t st1" using pending_complete[OF assms(1) e] by (simp add: st1_def)
  then have ring: "ring_inv st1" "t \<notin> set (rg_completion_order st1)" by (simp_all add: pending_retention_def)
  have cap: "rg_capacity st1 = rg_capacity st" by (simp add: st1_def)
  let ?pre = "if length (completion_queue st1) < rg_capacity st then completion_queue st1
    else tl (completion_queue st1)"
  have pos: "0 < rg_capacity st" using registry_invD(1)[OF assms(1)] .
  have q: "completion_queue st' = ?pre @ t # []"
    by (simp add: st' completion_queue_retain[OF ring(1)] cap)
  moreover have "rg_capacity st - 1 \<le> rg_capacity st' - length (completion_queue st') + length ?pre"
    using q ring(1) pos by (auto simp: st' cap ring_inv_def)
  ultimately have "retained_for (rg_capacity st - 1) t st'" unfolding retained_for_def by blast
  moreover have "Find t st' = Some r"
  proof -
    have "t \<noteq> hd (completion_queue st1)" if "\<not> length (rg_completion_order st1) < rg_capacity st1"
    proof -
      from that pos cap have "completion_queue st1 \<noteq> []" by (metis length_completion_queue list.size(3))
      with ring(2) show ?thesis using completion_queue_set hd_in_set by metis
    qed
    then show ?thesis by (auto simp: st' Find_retain[OF ring(1)]) (simp_all add: Find_def st1_def)
  qed
  moreover have "registry_inv st'" using RetainCompleted_inv[OF p] st' by simp
  ultimately show ?thesis by simp
qed

lemma ring_step_result:
  assumes "registry_inv st" "ring_step st st'" "Find x st = Some r"
  shows "Find x st' = Some r \<or> Find x st' = None"
proof -
  from assms(2) obtain st1 where st1: "same_ring st st1" "st' = st1 \<or> (\<exists>t. st' = RetainCompletedLocked t st1)"
    by (auto simp: ring_step_def)
  have "ring_inv st1" using assms(1) st1(1) by (simp add: same_ring_inv registry_inv_def)
  moreover have "Find x st1 = Some r" using st1(1) assms(3) by (simp add: same_ring_def)
  ultimately show ?thesis using st1(2) by (auto simp: Find_retain split: if_splits)
qed

section \<open>Fingerprint material\<close>

text \<open>A length-prefixed field can be split off the front of a byte string.\<close>

definition fields_fit :: "string \<Rightarrow> string \<Rightarrow> bytes \<Rightarrow> bool" where
  "fields_fit k i p \<longleftrightarrow> length k < 2 ^ 64 \<and> length i < 2 ^ 64 \<and> length p < 2 ^ 64"

lemma length_prefix_split:
  assumes "length a < 2 ^ 64" "length b < 2 ^ 64"
    "le_put 8 (of_nat (length a) :: u64) @ a @ x = le_put 8 (of_nat (length b) :: u64) @ b @ y"
  shows "a = b \<and> x = y"
proof -
  have "le_put 8 (of_nat (length a) :: u64) = le_put 8 (of_nat (length b) :: u64)"
    using arg_cong[OF assms(3), of "take 8"] by simp
  then have "(of_nat (length a) :: u64) = of_nat (length b)"
    by (metis le_get_put_u64)
  then have "unat (of_nat (length a) :: u64) = unat (of_nat (length b) :: u64)" by simp
  then have "length a = length b"
    using assms(1,2) by (simp only: unat_of_nat) simp
  with assms(3) show ?thesis by simp
qed

lemmas string_prefix_split =
  length_prefix_split[of "bytes_of_string s" "bytes_of_string t" for s t,
    unfolded length_bytes_of_string bytes_of_string_inject]

lemma kind_byte_inject: "kind_byte k = kind_byte k' \<longleftrightarrow> k = k'"
  by (metis kind_of_kind_byte option.inject)

lemma FingerprintMaterial_inject:
  assumes "fields_fit k i p" "fields_fit k' i' p'"
  shows "FingerprintMaterial kd k i p = FingerprintMaterial kd' k' i' p' \<longleftrightarrow>
    kd = kd' \<and> k = k' \<and> i = i' \<and> p = p'"
proof
  assume eq: "FingerprintMaterial kd k i p = FingerprintMaterial kd' k' i' p'"
  then have kd: "kd = kd'"
    by (simp add: FingerprintMaterial_def PutLengthPrefixed_def kind_byte_inject)
  have "le_put 8 (of_nat (length k) :: u64) @ bytes_of_string k @
      le_put 8 (of_nat (length i) :: u64) @ bytes_of_string i @ le_put 8 (of_nat (length p) :: u64) @ p =
    le_put 8 (of_nat (length k') :: u64) @ bytes_of_string k' @
      le_put 8 (of_nat (length i') :: u64) @ bytes_of_string i' @ le_put 8 (of_nat (length p') :: u64) @ p'"
    using eq by (simp add: FingerprintMaterial_def PutLengthPrefixed_def)
  from string_prefix_split[OF _ _ this] assms
  have k: "k = k'" "le_put 8 (of_nat (length i) :: u64) @ bytes_of_string i @
      le_put 8 (of_nat (length p) :: u64) @ p =
    le_put 8 (of_nat (length i') :: u64) @ bytes_of_string i' @ le_put 8 (of_nat (length p') :: u64) @ p'"
    by (simp_all add: fields_fit_def)
  from string_prefix_split[OF _ _ this(2)] assms
  have i: "i = i'" "le_put 8 (of_nat (length p) :: u64) @ p = le_put 8 (of_nat (length p') :: u64) @ p'"
    by (simp_all add: fields_fit_def)
  from length_prefix_split[of p p' "[]" "[]"] i(2) assms have "p = p'"
    by (simp add: fields_fit_def)
  with kd k i show "kd = kd' \<and> k = k' \<and> i = i' \<and> p = p'" by simp
qed simp

section \<open>The ledger a node relies on\<close>

text \<open>
  What an acknowledged write path needs from the registry: a token is admitted at most
  while it is unknown, a known token is never admitted again, and an admitted token can
  be completed once, after which it is known with that result.
\<close>

locale ack_ledger =
  fixes inv :: "'s \<Rightarrow> bool"
    and known :: "'t \<Rightarrow> 's \<Rightarrow> bool"
    and lookup :: "'t \<Rightarrow> 's \<Rightarrow> 'r option"
    and claim :: "'t \<Rightarrow> 'f \<Rightarrow> 's \<Rightarrow> 's \<times> ClaimOutcome"
    and finish :: "'t \<Rightarrow> 'r \<Rightarrow> 's \<Rightarrow> 's \<times> bool"
  assumes claim_inv: "inv s \<Longrightarrow> inv (fst (claim t f s))"
    and finish_inv: "inv s \<Longrightarrow> inv (fst (finish t r s))"
    and claim_admitted: "inv s \<Longrightarrow> snd (claim t f s) = Admitted \<Longrightarrow>
          \<not> known t s \<and> known t (fst (claim t f s)) \<and> lookup t (fst (claim t f s)) = None"
    and claim_known: "inv s \<Longrightarrow> known t s \<Longrightarrow> fst (claim t f s) = s \<and> snd (claim t f s) \<noteq> Admitted"
    and finish_fresh: "inv s \<Longrightarrow> known t s \<Longrightarrow> lookup t s = None \<Longrightarrow>
          snd (finish t r s) \<and> known t (fst (finish t r s)) \<and> lookup t (fst (finish t r s)) = Some r"
begin

lemma admitted_then_finished:
  assumes "inv s" "snd (claim t f s) = Admitted"
  shows "inv (fst (finish t r (fst (claim t f s)))) \<and>
    snd (finish t r (fst (claim t f s))) \<and>
    lookup t (fst (finish t r (fst (claim t f s)))) = Some r \<and>
    known t (fst (finish t r (fst (claim t f s))))"
  using claim_admitted[OF assms] finish_fresh[OF claim_inv[OF assms(1)]] finish_inv[OF claim_inv[OF assms(1)]]
  by simp

end

definition Known :: "AckToken \<Rightarrow> Registry \<Rightarrow> bool" where
  "Known t st \<longleftrightarrow> rg_entries st t \<noteq> None"

lemma ClaimLocked_admitted:
  "snd (ClaimLocked t f l b st) = Admitted \<longleftrightarrow>
     rg_entries st t = None \<and> (\<forall>x. l = Some x \<longrightarrow> rg_processing_by_lane st x = None)"
  by (auto simp: ClaimLocked_def split: option.splits)

lemma ClaimLocked_admitted_state:
  "snd (ClaimLocked t f l b st) = Admitted \<Longrightarrow>
     rg_entries (fst (ClaimLocked t f l b st)) t =
       Some \<lparr>en_fingerprint = f, en_lane = l, en_result = None\<rparr>"
  by (auto simp: ClaimLocked_def split: option.splits if_splits)

lemma ClaimLocked_known: "rg_entries st t = Some e \<Longrightarrow> fst (ClaimLocked t f l b st) = st"
  by (simp add: ClaimLocked_def)

lemma Complete_fresh:
  assumes "rg_entries st t = Some e" "en_result e = None"
  shows "snd (Complete t r st)"
  using assms by (simp add: Complete_def Let_def)

lemma ledger_laws:
  assumes "registry_inv st"
  shows "snd (ClaimLocked t f l b st) = Admitted \<Longrightarrow> \<not> Known t st \<and>
      Known t (fst (ClaimLocked t f l b st)) \<and> Find t (fst (ClaimLocked t f l b st)) = None"
    and "Known t st \<Longrightarrow> fst (ClaimLocked t f l b st) = st \<and> snd (ClaimLocked t f l b st) \<noteq> Admitted"
    and "Known t st \<Longrightarrow> Find t st = None \<Longrightarrow> snd (Complete t r st) \<and>
      Known t (fst (Complete t r st)) \<and> Find t (fst (Complete t r st)) = Some r"
proof -
  show "snd (ClaimLocked t f l b st) = Admitted \<Longrightarrow> \<not> Known t st \<and>
      Known t (fst (ClaimLocked t f l b st)) \<and> Find t (fst (ClaimLocked t f l b st)) = None"
    by (simp add: Known_def Find_def ClaimLocked_admitted ClaimLocked_admitted_state)
  show "Known t st \<Longrightarrow> fst (ClaimLocked t f l b st) = st \<and> snd (ClaimLocked t f l b st) \<noteq> Admitted"
    by (auto simp: Known_def ClaimLocked_known ClaimLocked_admitted)
next
  assume "Known t st" "Find t st = None"
  then obtain e where e: "rg_entries st t = Some e" "en_result e = None"
    by (auto simp: Known_def Find_def)
  obtain st' where st': "Complete t r st = (st', True)"
    using Complete_fresh[OF e, of r] by (cases "Complete t r st") simp
  with Complete_success[OF assms st'] show "snd (Complete t r st) \<and>
      Known t (fst (Complete t r st)) \<and> Find t (fst (Complete t r st)) = Some r"
    by (auto simp: Known_def Find_def split: option.splits)
qed

interpretation parameter_ledger: ack_ledger registry_inv Known Find
    "\<lambda>t f. ClaimOrReject t f lane busy" Complete for lane busy
  by unfold_locales (auto simp: claim_defs ClaimLocked_inv Complete_inv ledger_laws)

interpretation fence_ledger: ack_ledger registry_inv Known Find ClaimIndependent Complete
  by unfold_locales (auto simp: claim_defs ClaimLocked_inv Complete_inv ledger_laws)

lemma registry_size:
  assumes "registry_inv st"
  shows "Size st = length (rg_completion_order st) + ProcessingCount st"
proof -
  have dom: "dom (rg_entries st) = completed_tokens st \<union> processing_tokens st"
    by (auto simp: completed_tokens_def processing_tokens_def)
  moreover have "completed_tokens st \<inter> processing_tokens st = {}"
    by (auto simp: completed_tokens_def processing_tokens_def)
  moreover have "finite (completed_tokens st)" "finite (processing_tokens st)"
    using registry_invD(7)[OF assms] dom by auto
  moreover have "card (completed_tokens st) = length (rg_completion_order st)"
    using registry_invD(5,8)[OF assms] distinct_card by metis
  ultimately show ?thesis
    by (simp add: Size_def ProcessingCount_def card_Un_disjoint flip: processing_tokens_def)
qed

section \<open>One token through a run\<close>

text \<open>The result a run of operations completes a token with: that of its first completion.\<close>

fun first_completion :: "AckToken \<Rightarrow> RegistryOp list \<Rightarrow> AckResultV1 option" where
  "first_completion t [] = None"
| "first_completion t (op # ops) = (case op of
     RComplete t' r \<Rightarrow> if t' = t then Some r else first_completion t ops
   | _ \<Rightarrow> first_completion t ops)"

lemma fingerprint_retain:
  "rg_entries (RetainCompletedLocked x st) t = Some e \<Longrightarrow> rg_entries st t = Some e"
  by (auto simp: RetainCompletedLocked_def Let_def split: if_splits)

lemma step_fingerprint:
  assumes "rg_entries st t = Some e" "rg_entries (registry_step op st) t = Some e'"
  shows "en_fingerprint e' = en_fingerprint e"
  using assms by (cases op)
    (auto simp: registry_step_def claim_defs ClaimLocked_def Complete_def RecordRejected_def Clear_def Let_def
      dest!: fingerprint_retain split: option.splits if_splits)

text \<open>A processing token is not in the ring, so no retention evicts it.\<close>

lemma retain_keeps_processing:
  assumes "ring_inv st" "t \<notin> set (rg_completion_order st)"
  shows "rg_entries (RetainCompletedLocked x st) t = rg_entries st t"
proof -
  have "rg_completion_order st ! rg_next_completion_slot st \<noteq> t"
    if "\<not> length (rg_completion_order st) < rg_capacity st"
    using that assms by (auto simp: ring_inv_def)
  then show ?thesis by (auto simp: RetainCompletedLocked_def Let_def)
qed

lemma processing_step:
  assumes inv: "registry_inv st" and e: "rg_entries st t = Some e" "en_result e = None"
    and op: "op \<noteq> RClear" "\<And>r. op \<noteq> RComplete t r"
  shows "rg_entries (registry_step op st) t = Some e"
proof -
  have ring: "ring_inv st" using inv by (simp add: registry_inv_def)
  have t: "t \<notin> set (rg_completion_order st)" using registry_invD(8)[OF inv] e by (simp add: completed_tokens_def)
  have keep: "rg_entries (RetainCompletedLocked x st1) t = rg_entries st1 t"
    if "rg_capacity st1 = rg_capacity st" "rg_completion_order st1 = rg_completion_order st"
      "rg_next_completion_slot st1 = rg_next_completion_slot st" for st1 x
    using that ring t by (intro retain_keeps_processing) (simp_all add: ring_inv_def)
  show ?thesis using e op
    by (cases op) (auto simp: registry_step_def claim_defs ClaimLocked_def Complete_def RecordRejected_def
      Let_def keep split: option.splits)
qed

lemma retained_entry_run:
  assumes "registry_inv st" "RClear \<notin> set ops" "retained_for (retirements ops st) t st"
    "rg_entries st t = Some e" "en_result e = Some r"
  shows "\<exists>e'. rg_entries (fold registry_step ops st) t = Some e' \<and>
    en_fingerprint e' = en_fingerprint e \<and> en_result e' = Some r"
  using assms
proof (induction ops arbitrary: st e)
  case (Cons op ops)
  then have keep: "retained_for (retirements ops (registry_step op st)) t (registry_step op st)"
      "Find t (registry_step op st) = Some r"
    using retained_for_op[of st op t r "retirements ops (registry_step op st)"] by (auto simp: Find_def)
  then obtain e1 where e1: "rg_entries (registry_step op st) t = Some e1" "en_result e1 = Some r"
    by (auto simp: Find_def split: option.splits)
  have "en_fingerprint e1 = en_fingerprint e" using Cons.prems(4) e1(1) by (rule step_fingerprint)
  with Cons.IH[OF registry_step_inv[OF Cons.prems(1)] _ keep(1) e1] Cons.prems(2) show ?case by simp
qed simp

lemma registry_step_capacity [simp]: "rg_capacity (registry_step op st) = rg_capacity st"
  by (cases op) (auto simp: registry_step_def claim_defs ClaimLocked_def Complete_def RecordRejected_def
      Clear_def Let_def split: option.splits)

lemma registry_run_capacity [simp]: "rg_capacity (fold registry_step ops st) = rg_capacity st"
  by (induction ops arbitrary: st) simp_all

lemma token_run:
  assumes "registry_inv st" "RClear \<notin> set ops" "rg_entries st t = Some e" "en_result e = None"
    "retirements ops st \<le> rg_capacity st"
  shows "\<exists>e'. rg_entries (fold registry_step ops st) t = Some e' \<and>
    en_fingerprint e' = en_fingerprint e \<and> en_result e' = first_completion t ops"
  using assms
proof (induction ops arbitrary: st)
  case (Cons op ops)
  note inv' = registry_step_inv[OF Cons.prems(1), of op]
  show ?case
  proof (cases "\<exists>r. op = RComplete t r")
    case True
    then obtain r where op: "op = RComplete t r" by blast
    have done1: "Complete t r st = (registry_step op st, True)"
      using Complete_fresh[OF Cons.prems(3,4), of r] by (cases "Complete t r st") (simp add: op registry_step_def)
    note c = Complete_success[OF Cons.prems(1) done1]
    have "retirements ops (registry_step op st) \<le> rg_capacity st - 1"
      using Cons.prems(5) done1 by (simp add: op retires_def)
    with c have "retained_for (retirements ops (registry_step op st)) t (registry_step op st)"
      by (auto simp: retained_for_def intro: order_trans)
    moreover obtain e1 where e1: "rg_entries (registry_step op st) t = Some e1" "en_result e1 = Some r"
      using c by (auto simp: Find_def split: option.splits)
    moreover have "en_fingerprint e1 = en_fingerprint e" using Cons.prems(3) e1(1) by (rule step_fingerprint)
    ultimately show ?thesis using retained_entry_run[OF inv', of ops t e1 r] Cons.prems(2) op by simp
  next
    case False
    then have "rg_entries (registry_step op st) t = Some e"
      using Cons.prems by (intro processing_step) auto
    moreover have "retirements ops (registry_step op st) \<le> rg_capacity (registry_step op st)"
      using Cons.prems(5) by (simp add: registry_step_capacity)
    moreover have "first_completion t (op # ops) = first_completion t ops"
      using False by (cases op) auto
    ultimately show ?thesis using Cons.IH[OF inv'] Cons.prems(2,4) by simp
  qed
qed simp

lemma ClaimLocked_duplicate:
  "rg_entries st t = Some e \<Longrightarrow> ClaimLocked t f l b st =
     (st, if f \<noteq> en_fingerprint e then Collision
          else if en_result e = None then DuplicateProcessing else DuplicateCompleted)"
  by (simp add: ClaimLocked_def)

lemma Clear_run: "Clear (fold registry_step ops (NewRegistry n)) = NewRegistry n"
  by (rule Registry.equality) (simp_all add: Clear_def, simp_all add: NewRegistry_def)

section \<open>Properties\<close>

text \<open>C32: from a new registry, every sequence of claims, completions, rejections and clears keeps
  the registry invariant: the retention ring holds exactly the completed tokens, without
  repetition and within its capacity, and the lane table lists exactly the processing
  tokens; so a lane never has two processing tokens, and the table holds at most capacity
  completed entries beside the processing ones.  A clear brings the registry back to the
  new one of its capacity.\<close>

theorem registry_invariant:
  "registry_inv (fold registry_step ops (NewRegistry n)) \<and>
   Size (fold registry_step ops (NewRegistry n)) =
     length (rg_completion_order (fold registry_step ops (NewRegistry n))) +
     ProcessingCount (fold registry_step ops (NewRegistry n)) \<and>
   length (rg_completion_order (fold registry_step ops (NewRegistry n))) \<le>
     rg_capacity (fold registry_step ops (NewRegistry n)) \<and>
   rg_capacity (fold registry_step ops (NewRegistry n)) = max 1 n \<and>
   Clear (fold registry_step ops (NewRegistry n)) = NewRegistry n"
proof -
  note inv = registry_run_inv[OF NewRegistry_inv, of ops n]
  have "rg_capacity (fold registry_step ops (NewRegistry n)) = max 1 n"
    by (simp add: NewRegistry_def)
  with inv registry_size[OF inv] registry_invD(2)[OF inv] Clear_run[of ops n] show ?thesis by blast
qed

text \<open>C31: a token is admitted at most once while it is retained, and duplicates learn its result.
  Once any of the three claims admitted a token under a fingerprint, then after every further
  sequence of operations without a clear, of which at most as many as the capacity put a token
  into the retention ring, each of the three claims leaves the registry as it is and is not
  admitted: under another fingerprint it is a collision, under the same one it is told that the
  operation is being processed until the first completion of the token, and that it is
  completed from then on, when a lookup returns the result of exactly that first completion,
  whatever later completions or rejections of the token were tried.\<close>

theorem registry_at_most_once:
  assumes "registry_inv st"
    and "(st1, Admitted) \<in> {Claim t f lane st, ClaimIndependent t f st, ClaimOrReject t f lane busy st}"
    and "RClear \<notin> set ops" and "retirements ops st1 \<le> rg_capacity st"
  defines "st2 \<equiv> fold registry_step ops st1"
    and "dup \<equiv> \<lambda>f'. if f' \<noteq> f then Collision
       else if first_completion t ops = None then DuplicateProcessing else DuplicateCompleted"
  shows "Claim t f' lane' st2 = (st2, dup f') \<and> ClaimIndependent t f' st2 = (st2, dup f') \<and>
    ClaimOrReject t f' lane' busy' st2 = (st2, dup f') \<and> Find t st2 = first_completion t ops"
proof -
  from assms(2) obtain l b where adm: "ClaimLocked t f l b st = (st1, Admitted)"
    by (auto simp: claim_defs)
  then have e: "rg_entries st1 t = Some \<lparr>en_fingerprint = f, en_lane = l, en_result = None\<rparr>"
    using ClaimLocked_admitted_state[of t f l b st] by simp
  have inv: "registry_inv st1" using ClaimLocked_inv[OF assms(1), of t f l b] adm by simp
  have "rg_capacity st1 = rg_capacity st" using adm by (auto simp: ClaimLocked_def split: option.splits if_splits)
  with token_run[OF inv assms(3) e] assms(4) obtain e' where "rg_entries st2 t = Some e'"
      "en_fingerprint e' = f" "en_result e' = first_completion t ops"
    unfolding st2_def by auto
  then show ?thesis by (simp add: claim_defs ClaimLocked_duplicate dup_def Find_def)
qed

theorem registry_at_most_once_witness:
  "Find [1] (fold registry_step [RClaim [2] [8] 1, RComplete [1] ack_result_default, RComplete [2] ack_result_default]
      (fst (Claim [1] [9] 0 (NewRegistry 2)))) = Some ack_result_default"
proof -
  let ?ops = "[RClaim [2] [8] 1, RComplete [1] ack_result_default, RComplete [2] ack_result_default]"
  let ?st = "fst (Claim [1] [9] 0 (NewRegistry 2))"
  have adm: "(?st, Admitted) \<in> {Claim [1] [9] 0 (NewRegistry 2), ClaimIndependent [1] [9] (NewRegistry 2),
      ClaimOrReject [1] [9] 0 ack_result_default (NewRegistry 2)}"
    by (simp add: Claim_def ClaimLocked_def NewRegistry_def)
  have ret: "retirements ?ops ?st \<le> rg_capacity (NewRegistry 2)"
    by (simp add: retires_def registry_step_def Complete_def Claim_def ClaimLocked_def NewRegistry_def
        RetainCompletedLocked_def Let_def)
  have clear: "RClear \<notin> set ?ops" by simp
  from registry_at_most_once[OF NewRegistry_inv adm clear ret, of "[9]" 0 ack_result_default]
  show ?thesis by simp
qed

text \<open>A completed result is immutable and is retained while fewer than capacity further tokens
  retire: completing a processing token succeeds once, and the result it published is what
  every lookup returns until that many others have been completed or rejected.\<close>

theorem registry_retention:
  assumes "registry_inv st" and "Complete t r st = (st', True)"
    and "RClear \<notin> set ops" and "retirements ops st' < rg_capacity st"
  shows "Find t (fold registry_step ops st') = Some r \<and> Complete t r' st' = (st', False)"
proof -
  note c = Complete_success[OF assms(1,2)]
  have "retained_for (retirements ops st') t st'"
    using c assms(4) by (auto simp: retained_for_def intro: order_trans)
  with c assms(3) have "Find t (fold registry_step ops st') = Some r" by (intro retained_for_run) simp_all
  moreover have "Complete t r' st' = (st', False)"
    using c by (auto simp: Complete_def Find_def split: option.splits)
  ultimately show ?thesis by simp
qed

theorem registry_retention_witness:
  "Find [1] (fold registry_step [RClaim [2] [9] 0]
     (fst (Complete [1] ack_result_default (fst (Claim [1] [9] 0 (NewRegistry 2)))))) =
   Some ack_result_default"
proof -
  let ?st = "fst (Claim [1] [9] 0 (NewRegistry 2))"
  have "registry_inv ?st" by (simp add: Claim_def ClaimLocked_inv NewRegistry_inv)
  moreover have "Complete [1] ack_result_default ?st = (fst (Complete [1] ack_result_default ?st), True)"
    by (simp add: Complete_def Claim_def ClaimLocked_def NewRegistry_def Let_def)
  moreover have "RClear \<notin> set [RClaim [2] [9] 0]" by simp
  moreover have "retirements [RClaim [2] [9] 0] (fst (Complete [1] ack_result_default ?st)) < rg_capacity ?st"
    by (simp add: retires_def Claim_def ClaimLocked_def NewRegistry_def)
  ultimately show ?thesis by (rule registry_retention[THEN conjunct1])
qed

text \<open>Two operations have the same fingerprint material exactly when kind, full key,
  encoding and payload all agree: bytes cannot move between fields unnoticed.\<close>

theorem fingerprint_material_injective:
  assumes "fields_fit k i p" and "fields_fit k' i' p'"
  shows "FingerprintMaterial kd k i p = FingerprintMaterial kd' k' i' p' \<longleftrightarrow>
    kd = kd' \<and> k = k' \<and> i = i' \<and> p = p'"
  by (rule FingerprintMaterial_inject[OF assms])

theorem fingerprint_material_injective_witness:
  "FingerprintMaterial OpPut ''ab'' ''c'' [1] \<noteq> FingerprintMaterial OpPut ''a'' ''bc'' [1]"
  using fingerprint_material_injective[of "''ab''" "''c''" "[1]" "''a''" "''bc''" "[1]" OpPut OpPut]
  by (simp add: fields_fit_def)

end
