(* ===== verification/OrderedMap.thy ===== *)
theory OrderedMap
  imports Prelude "HOL-Library.Char_ord" "HOL-Library.List_Lexorder"
begin

text \<open>
  \<open>std::map<std::string, V, std::less<>>\<close>, which the in-memory engine, the snapshot copy, the
  session catalog and the cache index use: an association list sorted by key in byte order.
  The lemmas show that it is a map and that the scan from the lower bound of a prefix is the
  enumeration of the keys with that prefix.
\<close>

type_synonym 'v ordered_map = "(string \<times> 'v) list"

section \<open>The ordered map\<close>

text \<open>\<open>data_[key] = value\<close>, \<open>erase\<close>, \<open>find\<close> and \<open>lower_bound\<close> with the prefix test.\<close>

fun map_insert :: "string \<Rightarrow> 'v \<Rightarrow> 'v ordered_map \<Rightarrow> 'v ordered_map" where
  "map_insert k v [] = [(k, v)]"
| "map_insert k v ((k', v') # es) =
    (if k < k' then (k, v) # (k', v') # es
     else if k = k' then (k, v) # es
     else (k', v') # map_insert k v es)"

fun map_erase :: "string \<Rightarrow> 'v ordered_map \<Rightarrow> 'v ordered_map" where
  "map_erase k [] = []"
| "map_erase k ((k', v') # es) = (if k = k' then es else (k', v') # map_erase k es)"

definition map_try_emplace :: "string \<Rightarrow> 'v \<Rightarrow> 'v ordered_map \<Rightarrow> 'v ordered_map" where
  "map_try_emplace k v es = (if map_of es k = None then map_insert k v es else es)"

definition map_prefix_range :: "string \<Rightarrow> 'v ordered_map \<Rightarrow> 'v ordered_map" where
  "map_prefix_range p es =
     takeWhile (\<lambda>(k, _). starts_with k p) (dropWhile (\<lambda>(k, _). k < p) es)"

section \<open>The ordered map is a map\<close>

definition map_wf :: "'v ordered_map \<Rightarrow> bool" where
  "map_wf es \<longleftrightarrow> sorted_wrt (<) (map fst es)"

lemma map_wf_Nil [simp]: "map_wf []"
  by (simp add: map_wf_def)

lemma map_wf_Cons: "map_wf ((k, v) # es) \<longleftrightarrow> (\<forall>k'\<in>fst ` set es. k < k') \<and> map_wf es"
  by (simp add: map_wf_def)

lemma map_wf_distinct: "map_wf es \<Longrightarrow> distinct (map fst es)"
  by (simp add: map_wf_def strict_sorted_iff)

lemma fst_set_map_insert: "fst ` set (map_insert k v es) = insert k (fst ` set es)"
  by (induction k v es rule: map_insert.induct) auto

lemma map_insert_wf: "map_wf es \<Longrightarrow> map_wf (map_insert k v es)"
proof (induction k v es rule: map_insert.induct)
  case (2 k v k' v' es)
  then show ?case by (auto simp: map_wf_Cons fst_set_map_insert)
qed (simp add: map_wf_def)

lemma map_of_map_insert [simp]: "map_of (map_insert k v es) = (map_of es)(k \<mapsto> v)"
  by (induction k v es rule: map_insert.induct) (auto simp: fun_upd_twist)

lemma fst_set_map_erase: "fst ` set (map_erase k es) \<subseteq> fst ` set es"
  by (induction k es rule: map_erase.induct) auto

lemma map_erase_wf: "map_wf es \<Longrightarrow> map_wf (map_erase k es)"
proof (induction k es rule: map_erase.induct)
  case (2 k k' v' es)
  from 2(2) have es: "map_wf es" "\<forall>x\<in>fst ` set es. k' < x" unfolding map_wf_Cons by blast+
  show ?case
  proof (cases "k = k'")
    case False
    have "\<forall>x\<in>fst ` set (map_erase k es). k' < x" using es(2) fst_set_map_erase[of k es] by blast
    moreover have "map_wf (map_erase k es)" using 2(1) False es(1) by blast
    ultimately show ?thesis using False unfolding map_erase.simps by (simp only: if_False map_wf_Cons simp_thms)
  qed (use es in simp)
qed simp

lemma map_of_map_erase: "map_wf es \<Longrightarrow> map_of (map_erase k es) = (map_of es)(k := None)"
proof (induction k es rule: map_erase.induct)
  case (2 k k' v' es)
  show ?case
  proof (cases "k = k'")
    case True
    with 2 have "k \<notin> fst ` set es" by (auto simp: map_wf_Cons)
    then have "map_of es k = None" by (simp add: map_of_eq_None_iff)
    with True show ?thesis by (auto simp: fun_upd_idem)
  next
    case False
    with 2 show ?thesis by (auto simp: map_wf_Cons fun_upd_twist)
  qed
qed (auto simp: fun_eq_iff)

text \<open>In the byte order, the keys with a given prefix are contiguous.\<close>

lemma prefix_le: "starts_with k p \<Longrightarrow> p \<le> (k :: string)"
proof (induction p arbitrary: k)
  case (Cons c p)
  then show ?case by (cases k) auto
qed simp

lemma prefix_convex:
  "p \<le> (k :: string) \<Longrightarrow> k < k' \<Longrightarrow> starts_with k' p \<Longrightarrow> starts_with k p"
proof (induction p arbitrary: k k')
  case (Cons c p)
  then obtain t' where k': "k' = c # t'" "starts_with t' p" by auto
  obtain d t where k: "k = d # t" using Cons.prems(1) by (cases k) auto
  have "d = c" using Cons.prems(1,2) k k' by (auto simp: less_list_code)
  with Cons.prems k k' Cons.IH[of t t'] show ?case by auto
qed simp

lemma takeWhile_eq_filter_convex:
  assumes "sorted_wrt R xs" "\<And>x y. x \<in> set xs \<Longrightarrow> y \<in> set xs \<Longrightarrow> R x y \<Longrightarrow> P y \<Longrightarrow> P x"
  shows "takeWhile P xs = filter P xs"
  using assms
proof (induction xs)
  case (Cons x xs)
  show ?case
  proof (cases "P x")
    case True
    have "takeWhile P xs = filter P xs" using Cons by (intro Cons.IH) auto
    with True show ?thesis by simp
  next
    case False
    have "\<not> P y" if "y \<in> set xs" for y using Cons.prems False that by auto
    with False show ?thesis by (simp add: filter_empty_conv)
  qed
qed simp

lemma map_prefix_range_filter:
  assumes "map_wf es"
  shows "map_prefix_range p es = filter (\<lambda>(k, _). starts_with k p) es"
proof -
  let ?lt = "\<lambda>e. fst e < p" and ?pre = "\<lambda>e. starts_with (fst e) p"
  have sorted: "sorted_wrt (\<lambda>x y. fst x < fst y) es"
    using assms by (simp add: map_wf_def sorted_wrt_map)
  have "dropWhile ?lt es = filter (\<lambda>e. \<not> ?lt e) es"
    using sorted by (induction es) (auto intro!: filter_True[symmetric] dest: less_trans)
  then have drop: "map_prefix_range p es = takeWhile ?pre (filter (\<lambda>e. \<not> ?lt e) es)"
    by (simp add: map_prefix_range_def case_prod_beta')
  also have "\<dots> = filter ?pre (filter (\<lambda>e. \<not> ?lt e) es)"
  proof (rule takeWhile_eq_filter_convex)
    show "sorted_wrt (\<lambda>x y. fst x < fst y) (filter (\<lambda>e. \<not> ?lt e) es)"
      using sorted by (rule sorted_wrt_filter)
    show "?pre x" if "x \<in> set (filter (\<lambda>e. \<not> ?lt e) es)" "fst x < fst y" "?pre y" for x y
      using that prefix_convex[of p "fst x" "fst y"] by auto
  qed
  also have "\<dots> = filter ?pre es"
    by (auto simp: filter_filter intro!: filter_cong dest: prefix_le)
  finally show ?thesis by (simp add: case_prod_beta')
qed

lemma map_prefix_range_wf: "map_wf es \<Longrightarrow> map_wf (map_prefix_range p es)"
  unfolding map_prefix_range_filter map_wf_def
  by (simp add: map_prefix_range_filter map_wf_def sorted_wrt_map sorted_wrt_filter)

lemma map_of_prefix_range:
  fixes es :: "'v ordered_map"
  assumes "map_wf es"
  shows "map_of (map_prefix_range p es) = (\<lambda>k. if starts_with k p then map_of es k else None)"
proof -
  have "map_of (filter (\<lambda>(k, _). starts_with k p) es) =
      (\<lambda>k. if starts_with k p then map_of es k else None)" for es :: "'v ordered_map"
    by (induction es) (auto simp: fun_eq_iff)
  then show ?thesis by (simp add: map_prefix_range_filter[OF assms])
qed

lemma map_wf_ext:
  assumes "map_wf a" "map_wf b" "map_of a = map_of b"
  shows "a = b"
proof -
  have "fst ` set a = fst ` set b" using assms(3) by (metis dom_map_of_conv_image_fst)
  moreover have "sorted_wrt (<) (map fst a)" "sorted_wrt (<) (map fst b)" using assms(1,2) by (simp_all add: map_wf_def)
  ultimately have keys: "map fst a = map fst b" by (intro strict_sorted_equal) simp_all
  show ?thesis
  proof (rule nth_equalityI)
    show len: "length a = length b" using arg_cong[OF keys, of length] by simp
    fix i assume i: "i < length a"
    have k: "fst (a ! i) = fst (b ! i)" using i len arg_cong[OF keys, of "\<lambda>l. l ! i"] by simp
    have "map_of a (fst (a ! i)) = Some (snd (a ! i))" "map_of b (fst (b ! i)) = Some (snd (b ! i))"
      using assms(1,2) i len map_wf_distinct by (auto intro!: map_of_is_SomeI)
    with k assms(3) show "a ! i = b ! i" by (simp add: prod_eq_iff)
  qed
qed

end
