(* ===== verification/StorageEngine.thy ===== *)
theory StorageEngine
  imports Status OrderedMap
begin

text \<open>
  The storage engine contract \<open>include/sitos/storage_engine.hpp\<close>, its default snapshot
  \<open>src/storage_engine.cpp\<close> and the in-memory engine \<open>src/in_memory_engine.cpp\<close>.  A
  \<open>std::map<std::string, std::vector<std::byte>>\<close> is an association list sorted by key,
  in the byte order of \<open>std::less<>\<close>.  A sink is a state transformer that also says
  whether to go on (the ordered map is the theory OrderedMap).  Every operation runs under the engine's lock, so each is atomic.
\<close>

type_synonym entries = "(string \<times> bytes) list"
type_synonym 'x sink = "string \<Rightarrow> bytes \<Rightarrow> 'x \<Rightarrow> 'x \<times> bool"

datatype SyncCapability = kUnsupported | kVolatileNoop | kPowerLossDurable

fun feed :: "'x sink \<Rightarrow> entries \<Rightarrow> 'x \<Rightarrow> 'x \<times> bool" where
  "feed sink [] x = (x, True)"
| "feed sink ((k, v) # es) x =
    (case sink k v x of (x', go) \<Rightarrow> if \<not> go then (x', False) else feed sink es x')"

section \<open>The in-memory engine and the snapshot copy\<close>

record InMemoryEngine =
  ime_data :: entries

definition InMemoryEngine_Put :: "string \<Rightarrow> bytes \<Rightarrow> InMemoryEngine \<Rightarrow> InMemoryEngine \<times> bool" where
  "InMemoryEngine_Put key v e = (e\<lparr>ime_data := map_insert key v (ime_data e)\<rparr>, True)"

definition InMemoryEngine_Delete :: "string \<Rightarrow> InMemoryEngine \<Rightarrow> InMemoryEngine \<times> bool" where
  "InMemoryEngine_Delete key e = (e\<lparr>ime_data := map_erase key (ime_data e)\<rparr>, True)"

definition InMemoryEngine_GetSyncCapability :: SyncCapability where
  "InMemoryEngine_GetSyncCapability = kVolatileNoop"

definition InMemoryEngine_Sync :: "InMemoryEngine \<Rightarrow> unit Result" where
  "InMemoryEngine_Sync e = Result_Ok ()"

definition InMemoryEngine_Get :: "string \<Rightarrow> 'x sink \<Rightarrow> InMemoryEngine \<Rightarrow> 'x \<Rightarrow> 'x \<times> bool" where
  "InMemoryEngine_Get key sink e x = (case map_of (ime_data e) key of
     None \<Rightarrow> (x, False)
   | Some v \<Rightarrow> (fst (sink key v x), True))"

definition InMemoryEngine_List :: "string \<Rightarrow> 'x sink \<Rightarrow> InMemoryEngine \<Rightarrow> 'x \<Rightarrow> 'x \<times> bool" where
  "InMemoryEngine_List p sink e x = feed sink (map_prefix_range p (ime_data e)) x"

definition SnapshotCopy_Get :: "string \<Rightarrow> 'x sink \<Rightarrow> entries \<Rightarrow> 'x \<Rightarrow> 'x \<times> bool" where
  "SnapshotCopy_Get key sink d x = (case map_of d key of
     None \<Rightarrow> (x, False)
   | Some v \<Rightarrow> (fst (sink key v x), True))"

definition SnapshotCopy_List :: "string \<Rightarrow> 'x sink \<Rightarrow> entries \<Rightarrow> 'x \<Rightarrow> 'x \<times> bool" where
  "SnapshotCopy_List p sink d x = feed sink (map_prefix_range p d) x"

text \<open>The default members of \<open>StorageEngine\<close>; a snapshot is built through \<open>List("")\<close>.\<close>

definition StorageEngine_GetSyncCapability :: SyncCapability where
  "StorageEngine_GetSyncCapability = kUnsupported"

definition StorageEngine_Sync :: "unit Result" where
  "StorageEngine_Sync = Result_Err Error ''Storage synchronization is not supported''
     \<lparr>ec_value = 95, ec_category = GenericCategory\<rparr>"

definition snapshot_sink :: "entries sink" where
  "snapshot_sink k v d = (map_try_emplace k v d, True)"

definition TakeSnapshot :: "(string \<Rightarrow> entries sink \<Rightarrow> 'e \<Rightarrow> entries \<Rightarrow> entries \<times> bool) \<Rightarrow> 'e \<Rightarrow> entries" where
  "TakeSnapshot lst e = fst (lst '''' snapshot_sink e [])"

lemma feed_collect:
  assumes "\<And>k v x. snd (sink k v x)"
  shows "feed sink es x = (fold (\<lambda>(k, v) x. fst (sink k v x)) es x, True)"
proof (induction es arbitrary: x)
  case (Cons e es)
  then show ?case using assms[of "fst e" "snd e" x] by (auto split: prod.splits)
qed simp

section \<open>The engine contract\<close>

text \<open>
  What clients of a reader and of an engine rely on.  A reader stands for a finite map;
  lookup calls the sink exactly once on a present key, and enumeration feeds the matching
  entries, each once, until the sink declines.  An engine updates that map.
\<close>

locale storage_reader =
  fixes wf :: "'e \<Rightarrow> bool"
    and content :: "'e \<Rightarrow> string \<rightharpoonup> bytes"
    and get :: "string \<Rightarrow> 'x sink \<Rightarrow> 'e \<Rightarrow> 'x \<Rightarrow> 'x \<times> bool"
    and listing :: "string \<Rightarrow> 'e \<Rightarrow> entries"
    and lst :: "string \<Rightarrow> 'x sink \<Rightarrow> 'e \<Rightarrow> 'x \<Rightarrow> 'x \<times> bool"
  assumes get_law: "wf e \<Longrightarrow> get key sink e x =
      (case content e key of None \<Rightarrow> (x, False) | Some v \<Rightarrow> (fst (sink key v x), True))"
    and list_law: "wf e \<Longrightarrow> lst p sink e x = feed sink (listing p e) x"
    and listing_exact: "wf e \<Longrightarrow> map_of (listing p e) =
      (\<lambda>k. if starts_with k p then content e k else None)"
    and listing_sorted: "wf e \<Longrightarrow> map_wf (listing p e)"
begin

lemma get_missing: "wf e \<Longrightarrow> content e key = None \<Longrightarrow> get key sink e x = (x, False)"
  by (simp add: get_law)

lemma listing_mem: "wf e \<Longrightarrow> (k, v) \<in> set (listing p e) \<longleftrightarrow> starts_with k p \<and> content e k = Some v"
  using map_wf_distinct[OF listing_sorted] listing_exact
  by (metis (no_types, lifting) map_of_eq_Some_iff option.distinct(1))

lemma list_all_entries:
  assumes "wf e" "\<And>k v x. snd (sink k v x)"
  shows "lst p sink e x = (fold (\<lambda>(k, v) x. fst (sink k v x)) (listing p e) x, True)"
  using assms feed_collect[of sink] by (simp add: list_law)

end

locale storage_engine = storage_reader +
  fixes put :: "string \<Rightarrow> bytes \<Rightarrow> 'a \<Rightarrow> 'a \<times> bool"
    and del :: "string \<Rightarrow> 'a \<Rightarrow> 'a \<times> bool"
  assumes put_wf: "wf e \<Longrightarrow> wf (fst (put k v e))"
    and put_content: "wf e \<Longrightarrow> snd (put k v e) \<Longrightarrow> content (fst (put k v e)) = (content e)(k \<mapsto> v)"
    and del_wf: "wf e \<Longrightarrow> wf (fst (del k e))"
    and del_content: "wf e \<Longrightarrow> snd (del k e) \<Longrightarrow> content (fst (del k e)) = (content e)(k := None)"
begin

lemma get_after_put:
  assumes "wf e" "snd (put k v e)"
  shows "get k' sink (fst (put k v e)) x =
    (if k' = k then (fst (sink k v x), True) else get k' sink e x)"
  using assms by (simp add: get_law put_wf put_content)

lemma get_after_delete:
  assumes "wf e" "snd (del k e)"
  shows "get k' sink (fst (del k e)) x = (if k' = k then (x, False) else get k' sink e x)"
  using assms by (simp add: get_law del_wf del_content)

end

definition ime_content :: "InMemoryEngine \<Rightarrow> string \<rightharpoonup> bytes" where
  "ime_content e = map_of (ime_data e)"

interpretation snapshot_reader: storage_reader map_wf map_of SnapshotCopy_Get
    map_prefix_range SnapshotCopy_List
  by unfold_locales (auto simp: SnapshotCopy_Get_def SnapshotCopy_List_def map_of_prefix_range
      map_prefix_range_wf)

interpretation in_memory: storage_engine "\<lambda>e. map_wf (ime_data e)" ime_content InMemoryEngine_Get
    "\<lambda>p e. map_prefix_range p (ime_data e)" InMemoryEngine_List InMemoryEngine_Put InMemoryEngine_Delete
  by unfold_locales (auto simp: InMemoryEngine_Get_def InMemoryEngine_List_def InMemoryEngine_Put_def
      InMemoryEngine_Delete_def ime_content_def map_of_prefix_range map_prefix_range_wf map_insert_wf
      map_erase_wf map_of_map_erase)

section \<open>Snapshots\<close>

lemma map_insert_last: "(\<forall>k'\<in>fst ` set es. k' < k) \<Longrightarrow> map_insert k v es = es @ [(k, v)]"
proof (induction k v es rule: map_insert.induct)
  case (2 k v k' v' es)
  then have "k' < k" by simp
  with 2 show ?case by auto
qed simp

lemma snapshot_fold:
  assumes "map_wf (acc @ es)"
  shows "fold (\<lambda>(k, v) d. fst (snapshot_sink k v d)) es acc = acc @ es"
  using assms
proof (induction es arbitrary: acc)
  case (Cons e es)
  obtain k v where e: "e = (k, v)" by (cases e)
  have lt: "\<forall>k'\<in>fst ` set acc. k' < k"
    using Cons.prems e by (auto simp: map_wf_def sorted_wrt_append)
  then have "map_of acc k = None" by (auto simp: map_of_eq_None_iff)
  with lt have "map_try_emplace k v acc = acc @ [(k, v)]"
    by (simp add: map_try_emplace_def map_insert_last)
  with Cons e show ?case by (simp add: snapshot_sink_def)
qed simp

lemma TakeSnapshot_in_memory:
  assumes "map_wf (ime_data e)"
  shows "TakeSnapshot InMemoryEngine_List e = ime_data e"
proof -
  have "map_prefix_range '''' (ime_data e) = ime_data e"
    using assms by (simp add: map_prefix_range_filter case_prod_beta')
  then have "InMemoryEngine_List '''' snapshot_sink e [] = feed snapshot_sink (ime_data e) []"
    by (simp add: InMemoryEngine_List_def)
  also have "\<dots> = (fold (\<lambda>(k, v) d. fst (snapshot_sink k v d)) (ime_data e) [], True)"
    by (rule feed_collect) (simp add: snapshot_sink_def)
  finally show ?thesis using snapshot_fold[of "[]" "ime_data e"] assms by (simp add: TakeSnapshot_def)
qed

section \<open>Sequences of writes\<close>

datatype EngineOp = EPut string bytes | EDelete string

definition engine_step :: "EngineOp \<Rightarrow> InMemoryEngine \<Rightarrow> InMemoryEngine" where
  "engine_step op e = (case op of
     EPut k v \<Rightarrow> fst (InMemoryEngine_Put k v e)
   | EDelete k \<Rightarrow> fst (InMemoryEngine_Delete k e))"

definition map_step :: "EngineOp \<Rightarrow> (string \<rightharpoonup> bytes) \<Rightarrow> string \<rightharpoonup> bytes" where
  "map_step op m = (case op of EPut k v \<Rightarrow> m(k \<mapsto> v) | EDelete k \<Rightarrow> m(k := None))"

definition empty_engine :: InMemoryEngine where
  "empty_engine = \<lparr>ime_data = []\<rparr>"

lemma engine_step_refines:
  assumes "map_wf (ime_data e)"
  shows "map_wf (ime_data (engine_step op e))" "ime_content (engine_step op e) = map_step op (ime_content e)"
proof -
  have ok: "snd (InMemoryEngine_Put k v e)" "snd (InMemoryEngine_Delete k e)" for k v
    by (simp_all add: InMemoryEngine_Put_def InMemoryEngine_Delete_def)
  show "map_wf (ime_data (engine_step op e))"
    using in_memory.put_wf[OF assms] in_memory.del_wf[OF assms]
    by (cases op) (simp_all add: engine_step_def)
  show "ime_content (engine_step op e) = map_step op (ime_content e)"
    using in_memory.put_content[OF assms ok(1)] in_memory.del_content[OF assms ok(2)]
    by (cases op) (simp_all add: engine_step_def map_step_def)
qed

lemma engine_run_refines:
  "map_wf (ime_data e) \<Longrightarrow> map_wf (ime_data (fold engine_step ops e)) \<and>
     ime_content (fold engine_step ops e) = fold map_step ops (ime_content e)"
  by (induction ops arbitrary: e) (simp_all add: engine_step_refines)

section \<open>Properties\<close>

text \<open>The in-memory engine refines a map.  After any sequence of puts and deletes a lookup
  returns what the map holds, calling the sink once on a present key and not at all on an
  absent one.\<close>

theorem in_memory_refines_map:
  "InMemoryEngine_Get key sink (fold engine_step ops empty_engine) x =
    (case fold map_step ops Map.empty key of
       None \<Rightarrow> (x, False)
     | Some v \<Rightarrow> (fst (sink key v x), True))"
proof -
  have "map_wf (ime_data empty_engine)" "ime_content empty_engine = Map.empty"
    by (simp_all add: empty_engine_def ime_content_def)
  with engine_run_refines[of empty_engine ops] show ?thesis by (simp add: in_memory.get_law)
qed

text \<open>Enumeration by prefix, which scans from the lower bound until the first key without
  the prefix, visits exactly the stored keys with that prefix, in increasing byte order and
  each once, with their current values.\<close>

theorem in_memory_list_exact:
  "InMemoryEngine_List p (\<lambda>k v acc. (acc @ [(k, v)], True)) (fold engine_step ops empty_engine) [] = (es, ok) \<longrightarrow>
    ok \<and> sorted_wrt (<) (map fst es) \<and>
    (\<forall>k v. (k, v) \<in> set es \<longleftrightarrow> starts_with k p \<and> fold map_step ops Map.empty k = Some v)"
proof -
  let ?e = "fold engine_step ops empty_engine"
  have "map_wf (ime_data empty_engine)" "ime_content empty_engine = Map.empty"
    by (simp_all add: empty_engine_def ime_content_def)
  with engine_run_refines[of empty_engine ops] have e: "map_wf (ime_data ?e)"
    "ime_content ?e = fold map_step ops Map.empty" by simp_all
  have collect: "fold (\<lambda>(k, v) acc. acc @ [(k, v)]) xs acc = acc @ xs" for xs acc :: entries
    by (induction xs arbitrary: acc) auto
  have "InMemoryEngine_List p (\<lambda>k v acc. (acc @ [(k, v)], True)) ?e [] =
      (map_prefix_range p (ime_data ?e), True)"
    using in_memory.list_all_entries[OF e(1), of "\<lambda>k v acc. (acc @ [(k, v)], True)" p "[]"]
    by (simp add: collect)
  then show ?thesis
    using in_memory.listing_mem[OF e(1), of _ _ p] in_memory.listing_sorted[OF e(1), of p] e(2)
    by (auto simp: map_wf_def)
qed

theorem in_memory_list_exact_witness:
  "(''a/y'', [3]) \<in> set (fst (InMemoryEngine_List ''a/'' (\<lambda>k v acc. (acc @ [(k, v)], True))
     (fold engine_step [EPut ''b'' [1], EPut ''a/y'' [3], EPut ''a0'' [2]] empty_engine) []))"
proof -
  obtain es ok where r: "InMemoryEngine_List ''a/'' (\<lambda>k v acc. (acc @ [(k, v)], True))
     (fold engine_step [EPut ''b'' [1], EPut ''a/y'' [3], EPut ''a0'' [2]] empty_engine) [] = (es, ok)"
    by (rule prod.exhaust)
  from in_memory_list_exact[THEN mp, OF r]
  have "(''a/y'', [3]) \<in> set es" by (simp add: map_step_def)
  then show ?thesis using r by simp
qed

text \<open>A snapshot is isolated: built by enumeration at some point of a run, it answers every
  later lookup with the value the key had at that point, whatever is written afterwards.\<close>

theorem snapshot_isolated:
  "SnapshotCopy_Get key sink (TakeSnapshot InMemoryEngine_List (fold engine_step before empty_engine)) x =
     InMemoryEngine_Get key sink (fold engine_step before empty_engine) x \<and>
   InMemoryEngine_Get key sink (fold engine_step (before @ after) empty_engine) x =
    (case fold map_step after (fold map_step before Map.empty) key of
       None \<Rightarrow> (x, False) | Some v \<Rightarrow> (fst (sink key v x), True))"
proof -
  have e0: "map_wf (ime_data empty_engine)" "ime_content empty_engine = Map.empty"
    by (simp_all add: empty_engine_def ime_content_def)
  have "map_wf (ime_data (fold engine_step before empty_engine))"
    using engine_run_refines[OF e0(1)] by simp
  moreover have "ime_content (fold engine_step (before @ after) empty_engine) =
      fold map_step after (fold map_step before Map.empty)"
    "map_wf (ime_data (fold engine_step (before @ after) empty_engine))"
    using engine_run_refines[OF e0(1), of "before @ after"] e0(2) by simp_all
  ultimately show ?thesis
    by (simp add: TakeSnapshot_in_memory SnapshotCopy_Get_def InMemoryEngine_Get_def ime_content_def)
qed

end
