(* ===== verification/FenceCodec.thy ===== *)
theory FenceCodec
  imports Key Ack
begin

text \<open>
  The wire side of fences, \<open>src/fence.cpp\<close> and \<open>src/fence_internal.hpp\<close>: publisher lane
  attachments, the marker payload, marker routes in their canonical and recovered
  spelling, the disjoint classification of attachments, and diagnostic sanitising.
\<close>

section \<open>Decimal sequences\<close>

definition digit_char :: "nat \<Rightarrow> char" where
  "digit_char d = char_of (48 + d)"

fun to_string :: "nat \<Rightarrow> string" where
  "to_string n = (if n < 10 then [digit_char n] else to_string (n div 10) @ [digit_char (n mod 10)])"

declare to_string.simps [simp del]

definition digits_value :: "string \<Rightarrow> nat" where
  "digits_value s = fold (\<lambda>c acc. 10 * acc + (of_char c - 48)) s 0"

text \<open>\<open>std::from_chars\<close> into a 64-bit unsigned, consuming the whole text.\<close>

definition from_chars_u64 :: "string \<Rightarrow> u64 option" where
  "from_chars_u64 s =
    (if s = [] \<or> \<not> list_all isdigit s \<or> 2 ^ 64 \<le> digits_value s then None
     else Some (of_nat (digits_value s)))"

definition ReadSequence :: "bytes \<Rightarrow> u64" where
  "ReadSequence bs = le_get (take 8 bs)"

definition ParseLooseSequence :: "string \<Rightarrow> u64 option" where
  "ParseLooseSequence s = (if s = [] then None else from_chars_u64 s)"

definition ParseCanonicalSequence :: "string \<Rightarrow> u64 option" where
  "ParseCanonicalSequence s =
    (if s = [] \<or> (length s > 1 \<and> hd s = CHR ''0'') then None else from_chars_u64 s)"

section \<open>Lane attachments and markers\<close>

type_synonym FenceUuid = bytes

record FenceLaneMetadata =
  flm_publisher_uuid :: FenceUuid
  flm_sequence :: u64

datatype FenceLaneObservation =
    FenceLaneAbsent
  | FenceLaneObserved FenceLaneMetadata
  | FenceLaneMalformed "FenceUuid option" "u64 option"

definition kFenceLaneAttachmentV1Size :: nat where
  "kFenceLaneAttachmentV1Size = 25"

definition IsValidFenceUuid :: "FenceUuid \<Rightarrow> bool" where
  "IsValidFenceUuid uuid = IsValidAckToken uuid"

definition GenerateFenceUuid :: "u32 list \<Rightarrow> FenceUuid" where
  "GenerateFenceUuid words = GenerateAckToken words"

definition FormatFenceUuid :: "FenceUuid \<Rightarrow> string" where
  "FormatFenceUuid uuid = FormatAckToken uuid"

definition ParseFenceUuid :: "string \<Rightarrow> FenceUuid option" where
  "ParseFenceUuid s = ParseAckToken s"

definition tolower :: "char \<Rightarrow> char" where
  "tolower c = (let n = of_char c :: nat in if 65 \<le> n \<and> n \<le> 90 then char_of (n + 32) else c)"

definition ParseLooseFenceUuid :: "string \<Rightarrow> FenceUuid option" where
  "ParseLooseFenceUuid s = ParseFenceUuid (map tolower s)"

definition EncodeFenceLaneAttachment :: "FenceLaneMetadata \<Rightarrow> bytes" where
  "EncodeFenceLaneAttachment m = [1] @ flm_publisher_uuid m @ le_put 8 (flm_sequence m)"

definition ObserveFenceLaneAttachment :: "bytes \<Rightarrow> FenceLaneObservation" where
  "ObserveFenceLaneAttachment attachment =
    (let exact_size = length attachment = kFenceLaneAttachmentV1Size;
         version_one_candidate = attachment \<noteq> [] \<and> hd attachment = 1
     in if \<not> exact_size \<and> \<not> version_one_candidate then FenceLaneAbsent else
     let publisher_uuid =
           (if length attachment \<ge> 17 \<and> IsValidFenceUuid (take 16 (drop 1 attachment))
            then Some (take 16 (drop 1 attachment)) else None);
         sequence =
           (if version_one_candidate \<and> length attachment \<ge> kFenceLaneAttachmentV1Size \<and>
               ReadSequence (drop 17 attachment) \<noteq> 0
            then Some (ReadSequence (drop 17 attachment)) else None)
     in if exact_size \<and> version_one_candidate \<and> publisher_uuid \<noteq> None \<and> sequence \<noteq> None
        then FenceLaneObserved \<lparr>flm_publisher_uuid = the publisher_uuid, flm_sequence = the sequence\<rparr>
        else FenceLaneMalformed publisher_uuid sequence)"

definition EncodeFenceMarker :: bytes where
  "EncodeFenceMarker = [1]"

definition DecodeFenceMarker :: "bytes \<Rightarrow> unit Result" where
  "DecodeFenceMarker payload =
    (if length payload \<noteq> 1 then
       Err InvalidArgument ''FenceMarkerV1 payload must be exactly one byte''
     else if hd payload \<noteq> 1 then
       Err InvalidArgument ''FenceMarkerV1 schema_version is unknown''
     else Result_Ok ())"

record AttachmentObservations =
  ao_ack :: AckAttachmentObservation
  ao_lane :: FenceLaneObservation

definition ClassifyAttachment :: "bytes option \<Rightarrow> AttachmentObservations" where
  "ClassifyAttachment attachment =
    (let observations = \<lparr>ao_ack = AckAttachmentAbsent, ao_lane = FenceLaneAbsent\<rparr> in
     case attachment of
       None \<Rightarrow> observations
     | Some bs \<Rightarrow>
         if length bs = kAckAttachmentV1Size then
           observations\<lparr>ao_ack := ObserveAckAttachment attachment\<rparr>
         else if length bs = kFenceLaneAttachmentV1Size \<or> (bs \<noteq> [] \<and> hd bs = 1) then
           observations\<lparr>ao_lane := ObserveFenceLaneAttachment bs\<rparr>
         else observations)"

section \<open>Marker routes\<close>

datatype FenceMarkerTarget = MarkerCache | MarkerBuffer

record FenceMarkerRoute =
  fmr_target :: FenceMarkerTarget
  fmr_sid :: string
  fmr_receiver_generation :: FenceUuid
  fmr_buffer_class :: "BufferClass option"
  fmr_publisher_uuid :: FenceUuid
  fmr_durability :: AckDurability
  fmr_through_sequence :: u64

definition DurabilityName :: "AckDurability \<Rightarrow> string" where
  "DurabilityName d = (case d of Applied \<Rightarrow> ''applied'' | Synced \<Rightarrow> ''synced'')"

definition BufferClassName :: "BufferClass \<Rightarrow> string" where
  "BufferClassName bc = (if bc = Durable then ''durable'' else ''ephemeral'')"

definition BuildCacheFenceMarkerKey :: "string \<Rightarrow> string \<Rightarrow> FenceUuid \<Rightarrow> FenceUuid \<Rightarrow> u64 \<Rightarrow> string option" where
  "BuildCacheFenceMarkerKey p sid receiver_generation publisher_uuid through_sequence =
    (if \<not> IsValidPrefix p \<or> \<not> IsValidSessionId sid \<or> \<not> IsValidFenceUuid receiver_generation \<or>
        \<not> IsValidFenceUuid publisher_uuid then None
     else Some (p @ ''/meta/fence/cache/'' @ sid @ ''/'' @ FormatFenceUuid receiver_generation @ ''/'' @
       FormatFenceUuid publisher_uuid @ ''/'' @ to_string (unat through_sequence)))"

definition BuildBufferFenceMarkerKey ::
  "string \<Rightarrow> string \<Rightarrow> FenceUuid \<Rightarrow> BufferClass \<Rightarrow> FenceUuid \<Rightarrow> AckDurability \<Rightarrow> u64 \<Rightarrow> string option" where
  "BuildBufferFenceMarkerKey p sid session_generation buffer_class publisher_uuid durability through_sequence =
    (if \<not> IsValidPrefix p \<or> \<not> IsValidSessionId sid \<or> \<not> IsValidFenceUuid session_generation \<or>
        \<not> IsValidFenceUuid publisher_uuid then None
     else if buffer_class = Ephemeral \<and> durability = Synced then None
     else Some (p @ ''/meta/fence/buffer/'' @ sid @ ''/'' @ FormatFenceUuid session_generation @ ''/'' @
       BufferClassName buffer_class @ ''/'' @ FormatFenceUuid publisher_uuid @ ''/'' @
       DurabilityName durability @ ''/'' @ to_string (unat through_sequence)))"

definition StripFencePrefix :: "string \<Rightarrow> string \<Rightarrow> string option" where
  "StripFencePrefix p full_key =
    (if \<not> IsValidPrefix p \<or> length full_key \<le> length p \<or> \<not> starts_with full_key p \<or>
        full_key ! length p \<noteq> CHR ''/'' then None
     else Some (drop (length p + 1) full_key))"

text \<open>The loop of \<open>SplitRoute\<close>; an empty chunk empties the result.\<close>

function SplitRouteLoop :: "string \<Rightarrow> string list \<Rightarrow> string list" where
  "SplitRouteLoop s chunks =
    (if s = [] then chunks else
     let chunk = takeWhile (\<lambda>c. c \<noteq> CHR ''/'') s in
     if chunk = [] then [] else
     (case dropWhile (\<lambda>c. c \<noteq> CHR ''/'') s of
        [] \<Rightarrow> chunks @ [chunk]
      | _ # rest \<Rightarrow> SplitRouteLoop rest (chunks @ [chunk])))"
  by pat_completeness auto
termination
proof (relation "measure (\<lambda>(s, _). length s)")
  fix s :: string and chunks :: "string list" and chunk d rest
  assume "dropWhile (\<lambda>c. c \<noteq> CHR ''/'') s = d # rest"
  then have "length (d # rest) \<le> length s" by (metis length_dropWhile_le)
  then show "((rest, chunks @ [chunk]), s, chunks) \<in> measure (\<lambda>(s, _). length s)" by simp
qed simp

declare SplitRouteLoop.simps [simp del]

definition SplitRoute :: "string \<Rightarrow> bool \<Rightarrow> string list" where
  "SplitRoute s allow_trailing_slash =
    (if s = [] \<or> hd s = CHR ''/'' \<or> (\<not> allow_trailing_slash \<and> last s = CHR ''/'') then []
     else SplitRouteLoop (if allow_trailing_slash \<and> last s = CHR ''/'' then butlast s else s) [])"

definition parse_class :: "string \<Rightarrow> BufferClass option" where
  "parse_class s = (if s = ''durable'' then Some Durable else if s = ''ephemeral'' then Some Ephemeral else None)"

definition parse_durability :: "string \<Rightarrow> AckDurability option" where
  "parse_durability s = (if s = ''applied'' then Some Applied else if s = ''synced'' then Some Synced else None)"

text \<open>
  The two parsers share their shape; they differ in how uuids and sequences are read, in
  the trailing slash, and in the rejected class/durability combination.
\<close>

definition ParseCacheRoute :: "(string \<Rightarrow> FenceUuid option) \<Rightarrow> (string \<Rightarrow> u64 option) \<Rightarrow> string list \<Rightarrow>
    FenceMarkerRoute option" where
  "ParseCacheRoute parse_uuid parse_sequence chunks =
    (if length chunks \<noteq> 7 \<or> \<not> IsValidSessionId (chunks ! 3) then None else
     case (parse_uuid (chunks ! 4), parse_uuid (chunks ! 5), parse_sequence (chunks ! 6)) of
       (Some receiver, Some publisher, Some through) \<Rightarrow>
         Some \<lparr>fmr_target = MarkerCache, fmr_sid = chunks ! 3, fmr_receiver_generation = receiver,
           fmr_buffer_class = None, fmr_publisher_uuid = publisher, fmr_durability = Applied,
           fmr_through_sequence = through\<rparr>
     | _ \<Rightarrow> None)"

definition ParseBufferRoute :: "(string \<Rightarrow> FenceUuid option) \<Rightarrow> (string \<Rightarrow> u64 option) \<Rightarrow> bool \<Rightarrow> string list \<Rightarrow>
    FenceMarkerRoute option" where
  "ParseBufferRoute parse_uuid parse_sequence strict chunks =
    (if length chunks \<noteq> 9 \<or> \<not> IsValidSessionId (chunks ! 3) then None else
     case (parse_uuid (chunks ! 4), parse_uuid (chunks ! 6), parse_sequence (chunks ! 8)) of
       (Some session, Some publisher, Some through) \<Rightarrow>
         (case (parse_class (chunks ! 5), parse_durability (chunks ! 7)) of
            (Some buffer_class, Some durability) \<Rightarrow>
              if strict \<and> buffer_class = Ephemeral \<and> durability = Synced then None
              else Some \<lparr>fmr_target = MarkerBuffer, fmr_sid = chunks ! 3, fmr_receiver_generation = session,
                fmr_buffer_class = Some buffer_class, fmr_publisher_uuid = publisher,
                fmr_durability = durability, fmr_through_sequence = through\<rparr>
          | _ \<Rightarrow> None)
     | _ \<Rightarrow> None)"

definition RecoverMalformedFenceMarkerRoute :: "string \<Rightarrow> string \<Rightarrow> FenceMarkerRoute option" where
  "RecoverMalformedFenceMarkerRoute p full_key =
    (case StripFencePrefix p full_key of
       None \<Rightarrow> None
     | Some remainder \<Rightarrow>
         (let chunks = SplitRoute remainder True in
          if length chunks < 4 \<or> chunks ! 0 \<noteq> ''meta'' \<or> chunks ! 1 \<noteq> ''fence'' then None
          else if chunks ! 2 = ''cache'' then ParseCacheRoute ParseLooseFenceUuid ParseLooseSequence chunks
          else if chunks ! 2 = ''buffer'' then
            ParseBufferRoute ParseLooseFenceUuid ParseLooseSequence False chunks
          else None))"

definition ParseFenceMarkerRoute :: "string \<Rightarrow> string \<Rightarrow> FenceMarkerRoute option" where
  "ParseFenceMarkerRoute p full_key =
    (case StripFencePrefix p full_key of
       None \<Rightarrow> None
     | Some remainder \<Rightarrow>
         (let chunks = SplitRoute remainder False in
          if length chunks < 4 \<or> chunks ! 0 \<noteq> ''meta'' \<or> chunks ! 1 \<noteq> ''fence'' then None
          else if chunks ! 2 = ''cache'' then ParseCacheRoute ParseFenceUuid ParseCanonicalSequence chunks
          else if chunks ! 2 = ''buffer'' then
            ParseBufferRoute ParseFenceUuid ParseCanonicalSequence True chunks
          else None))"

section \<open>Decimal text\<close>

lemma of_digit_char [simp]: "d < 10 \<Longrightarrow> of_char (digit_char d) = 48 + d"
  by (simp add: digit_char_def of_char_of)

lemma isdigit_digit_char [simp]: "d < 10 \<Longrightarrow> isdigit (digit_char d)"
  by (simp add: isdigit_def)

lemma digit_char_of: "isdigit c \<Longrightarrow> digit_char (of_char c - 48) = c \<and> of_char c - 48 < (10::nat)"
  by (auto simp: isdigit_def digit_char_def Let_def)

lemma digits_value_snoc [simp]: "digits_value (s @ [c]) = 10 * digits_value s + (of_char c - 48)"
  by (simp add: digits_value_def)

lemma digits_value_Nil [simp]: "digits_value [] = 0"
  by (simp add: digits_value_def)

lemma to_string_nonempty [simp]: "to_string n \<noteq> []"
  by (subst to_string.simps) simp

lemma to_string_digits: "list_all isdigit (to_string n)"
proof (induction n rule: to_string.induct)
  case (1 n)
  then show ?case by (subst to_string.simps) (simp add: list_all_append)
qed

lemma digits_value_to_string [simp]: "digits_value (to_string n) = n"
proof (induction n rule: to_string.induct)
  case (1 n)
  show ?case
  proof (cases "n < 10")
    case True
    have "digits_value ([] @ [digit_char n]) = n" using True by (simp only: digits_value_snoc) simp
    with True show ?thesis by (subst to_string.simps) simp
  next
    case False
    with 1 show ?thesis by (subst to_string.simps) simp
  qed
qed

lemma to_string_canonical: "length (to_string n) > 1 \<Longrightarrow> hd (to_string n) \<noteq> CHR ''0''"
proof (induction n rule: to_string.induct)
  case (1 n)
  show ?case
  proof (cases "n < 10")
    case True
    with 1(2) show ?thesis by (simp add: to_string.simps[of n])
  next
    case False
    have hd: "hd (to_string n) = hd (to_string (n div 10))"
      using False by (subst to_string.simps) simp
    show ?thesis
    proof (cases "n div 10 < 10")
      case True
      then have "to_string (n div 10) = [digit_char (n div 10)]" by (subst to_string.simps) simp
      moreover have "of_char (digit_char (n div 10)) \<noteq> (48::nat)" using True False by simp
      then have "digit_char (n div 10) \<noteq> CHR ''0''" by auto
      ultimately show ?thesis using hd by simp
    next
      case ge: False
      then have "1 < length (to_string (n div 10))"
        by (subst to_string.simps) (simp add: Suc_lessI)
      with 1(1)[OF False] hd show ?thesis by simp
    qed
  qed
qed

lemma digits_value_pos:
  "s \<noteq> [] \<Longrightarrow> list_all isdigit s \<Longrightarrow> hd s \<noteq> CHR ''0'' \<Longrightarrow> 0 < digits_value s"
proof (induction s rule: rev_induct)
  case (snoc c s)
  show ?case
  proof (cases "s = []")
    case True
    have "of_char c \<noteq> (48::nat)"
    proof
      assume "of_char c = (48::nat)"
      then have "c = char_of (48::nat)" by (metis char_of_char)
      then have "c = CHR ''0''" by (simp add: char_of_def bit_0)
      with snoc.prems True show False by simp
    qed
    with snoc.prems True show ?thesis by (auto simp: isdigit_def Let_def digits_value_def)
  next
    case False
    with snoc show ?thesis by (simp add: list_all_append)
  qed
qed simp

lemma to_string_digits_value:
  "s \<noteq> [] \<Longrightarrow> list_all isdigit s \<Longrightarrow> (length s > 1 \<longrightarrow> hd s \<noteq> CHR ''0'') \<Longrightarrow>
     to_string (digits_value s) = s"
proof (induction s rule: rev_induct)
  case (snoc c s)
  then have c: "digit_char (of_char c - 48) = c" "of_char c - 48 < (10::nat)"
    using digit_char_of[of c] by (simp_all add: list_all_append)
  show ?case
  proof (cases "s = []")
    case True
    then show ?thesis using c by (simp add: digits_value_def to_string.simps)
  next
    case False
    with snoc.prems have h: "hd s \<noteq> CHR ''0''" "list_all isdigit s" by (auto simp: list_all_append Suc_lessI)
    with False snoc.IH have IH: "to_string (digits_value s) = s" by simp
    have "0 < digits_value s" using False h by (intro digits_value_pos)
    then have "\<not> 10 * digits_value s + (of_char c - 48) < 10" by simp
    with c IH show ?thesis by (subst to_string.simps) simp
  qed
qed simp

lemma ParseCanonicalSequence_iff: "ParseCanonicalSequence s = Some n \<longleftrightarrow> s = to_string (unat n)"
proof
  assume a: "ParseCanonicalSequence s = Some n"
  then have "s \<noteq> []" "list_all isdigit s" "length s > 1 \<longrightarrow> hd s \<noteq> CHR ''0''" "digits_value s < 2 ^ 64"
    "n = of_nat (digits_value s)"
    by (auto simp: ParseCanonicalSequence_def from_chars_u64_def split: if_splits)
  then show "s = to_string (unat n)" using to_string_digits_value[of s] by (simp add: unat_of_nat)
next
  assume "s = to_string (unat n)"
  moreover have "unat n < 2 ^ 64" using unsigned_less[of n, where ?'a = nat] by simp
  ultimately show "ParseCanonicalSequence s = Some n"
    using to_string_canonical[of "unat n"] to_string_digits[of "unat n"]
    by (auto simp: ParseCanonicalSequence_def from_chars_u64_def)
qed

lemma slash_notin_to_string: "CHR ''/'' \<notin> set (to_string n)"
  using to_string_digits[of n] by (auto simp: list_all_iff isdigit_def)

section \<open>Lane attachments\<close>

lemma ObserveFenceLane_exact:
  "ObserveFenceLaneAttachment bs = FenceLaneObserved m \<longleftrightarrow>
     length (flm_publisher_uuid m) = 16 \<and> IsValidFenceUuid (flm_publisher_uuid m) \<and>
     flm_sequence m \<noteq> 0 \<and> bs = EncodeFenceLaneAttachment m"
proof
  assume a: "ObserveFenceLaneAttachment bs = FenceLaneObserved m"
  then have b: "length bs = 25" "bs \<noteq> []" "hd bs = 1" "IsValidFenceUuid (take 16 (drop 1 bs))"
    "ReadSequence (drop 17 bs) \<noteq> 0"
    and m: "m = \<lparr>flm_publisher_uuid = take 16 (drop 1 bs), flm_sequence = ReadSequence (drop 17 bs)\<rparr>"
    by (auto simp: ObserveFenceLaneAttachment_def kFenceLaneAttachmentV1Size_def Let_def split: if_splits)
  have "bs = [hd bs] @ take 16 (drop 1 bs) @ drop 17 bs"
    using b(1,2) append_take_drop_id[of 16 "drop 1 bs"] by (cases bs) (simp_all add: drop_Suc)
  with b m show "length (flm_publisher_uuid m) = 16 \<and> IsValidFenceUuid (flm_publisher_uuid m) \<and>
     flm_sequence m \<noteq> 0 \<and> bs = EncodeFenceLaneAttachment m"
    by (simp add: EncodeFenceLaneAttachment_def ReadSequence_def le_put_get_u64)
next
  assume "length (flm_publisher_uuid m) = 16 \<and> IsValidFenceUuid (flm_publisher_uuid m) \<and>
     flm_sequence m \<noteq> 0 \<and> bs = EncodeFenceLaneAttachment m"
  then show "ObserveFenceLaneAttachment bs = FenceLaneObserved m"
    by (cases m) (simp add: ObserveFenceLaneAttachment_def EncodeFenceLaneAttachment_def
        kFenceLaneAttachmentV1Size_def ReadSequence_def Let_def)
qed

definition DecodeFenceLaneAttachment :: "bytes \<Rightarrow> FenceLaneMetadata option" where
  "DecodeFenceLaneAttachment bs =
    (case ObserveFenceLaneAttachment bs of FenceLaneObserved m \<Rightarrow> Some m | _ \<Rightarrow> None)"

definition lane_metadata_valid :: "FenceLaneMetadata \<Rightarrow> bool" where
  "lane_metadata_valid m \<longleftrightarrow> length (flm_publisher_uuid m) = 16 \<and>
     IsValidFenceUuid (flm_publisher_uuid m) \<and> flm_sequence m \<noteq> 0"

interpretation lane_codec: exact_codec EncodeFenceLaneAttachment DecodeFenceLaneAttachment
    lane_metadata_valid
proof
  show "DecodeFenceLaneAttachment (EncodeFenceLaneAttachment m) = Some m" if "lane_metadata_valid m" for m
    using that ObserveFenceLane_exact[of "EncodeFenceLaneAttachment m" m]
    by (simp add: DecodeFenceLaneAttachment_def lane_metadata_valid_def)
  show "lane_metadata_valid m \<and> EncodeFenceLaneAttachment m = bs"
    if "DecodeFenceLaneAttachment bs = Some m" for bs m
    using that ObserveFenceLane_exact[of bs m]
    by (auto simp: DecodeFenceLaneAttachment_def lane_metadata_valid_def split: FenceLaneObservation.splits)
qed

section \<open>Route chunks\<close>

fun join :: "string list \<Rightarrow> string" where
  "join [] = []"
| "join [c] = c"
| "join (c # cs) = c @ CHR ''/'' # join cs"

definition good_chunk :: "string \<Rightarrow> bool" where
  "good_chunk c \<longleftrightarrow> c \<noteq> [] \<and> CHR ''/'' \<notin> set c"

lemma join_Cons: "cs \<noteq> [] \<Longrightarrow> join (c # cs) = c @ CHR ''/'' # join cs"
  by (cases cs) simp_all

lemma SplitRouteLoop_chunk:
  assumes "good_chunk c"
  shows "SplitRouteLoop c acc = acc @ [c]"
    "SplitRouteLoop (c @ CHR ''/'' # rest) acc = SplitRouteLoop rest (acc @ [c])"
  using assms by (subst SplitRouteLoop.simps, simp add: good_chunk_def Let_def)+

lemma SplitRouteLoop_join:
  "cs \<noteq> [] \<Longrightarrow> list_all good_chunk cs \<Longrightarrow> SplitRouteLoop (join cs) acc = acc @ cs"
proof (induction cs arbitrary: acc rule: join.induct)
  case (3 c d cs)
  then show ?case by (simp add: SplitRouteLoop_chunk)
qed (simp_all add: SplitRouteLoop_chunk)

lemma SplitRouteLoop_SomeD:
  assumes "s \<noteq> []" "last s \<noteq> CHR ''/''" "SplitRouteLoop s acc \<noteq> []"
  shows "\<exists>cs. cs \<noteq> [] \<and> list_all good_chunk cs \<and> s = join cs \<and> SplitRouteLoop s acc = acc @ cs"
  using assms
proof (induction "length s" arbitrary: s acc rule: less_induct)
  case less
  show ?case
  proof (cases "CHR ''/'' \<in> set s")
    case False
    with less.prems have "good_chunk s" by (simp add: good_chunk_def)
    then show ?thesis by (intro exI[of _ "[s]"]) (simp add: SplitRouteLoop_chunk)
  next
    case True
    then obtain h t where s: "s = h @ CHR ''/'' # t" "CHR ''/'' \<notin> set h" by (metis split_list_first)
    have "h \<noteq> []"
    proof
      assume "h = []"
      then have "SplitRouteLoop s acc = []" using s by (subst SplitRouteLoop.simps) (simp add: Let_def)
      with less.prems show False by simp
    qed
    then have h: "good_chunk h" using s by (simp add: good_chunk_def)
    have t: "t \<noteq> []" "last t \<noteq> CHR ''/''" using less.prems(2) s by (auto split: if_splits)
    have loop: "SplitRouteLoop s acc = SplitRouteLoop t (acc @ [h])"
      using h s by (simp add: SplitRouteLoop_chunk)
    from less.hyps[of t "acc @ [h]"] t s less.prems(3) loop obtain cs where "cs \<noteq> []"
      "list_all good_chunk cs" "t = join cs" "SplitRouteLoop t (acc @ [h]) = (acc @ [h]) @ cs" by auto
    with h s loop show ?thesis by (intro exI[of _ "h # cs"]) (simp add: join_Cons)
  qed
qed

lemma good_chunk_ends: "good_chunk c \<Longrightarrow> c \<noteq> [] \<and> hd c \<noteq> CHR ''/'' \<and> last c \<noteq> CHR ''/''"
  unfolding good_chunk_def by (metis hd_in_set last_in_set)

lemma join_ends:
  "cs \<noteq> [] \<Longrightarrow> list_all good_chunk cs \<Longrightarrow>
     join cs \<noteq> [] \<and> hd (join cs) \<noteq> CHR ''/'' \<and> last (join cs) \<noteq> CHR ''/''"
  by (induction cs rule: join.induct) (auto dest: good_chunk_ends)

lemma SplitRoute_iff:
  assumes "cs \<noteq> []"
  shows "SplitRoute s False = cs \<longleftrightarrow> s = join cs \<and> list_all good_chunk cs"
proof
  assume a: "SplitRoute s False = cs"
  with assms have "s \<noteq> []" "last s \<noteq> CHR ''/''" "SplitRouteLoop s [] = cs"
    by (auto simp: SplitRoute_def split: if_splits)
  with SplitRouteLoop_SomeD[of s "[]"] assms show "s = join cs \<and> list_all good_chunk cs" by auto
next
  assume "s = join cs \<and> list_all good_chunk cs"
  with assms join_ends[of cs] SplitRouteLoop_join[of cs "[]"] show "SplitRoute s False = cs"
    by (simp add: SplitRoute_def)
qed

lemma SplitRoute_loose: "SplitRoute s False \<noteq> [] \<Longrightarrow> SplitRoute s True = SplitRoute s False"
  by (auto simp: SplitRoute_def)

section \<open>Marker routes are exact\<close>

definition fence_uuid_wf :: "FenceUuid \<Rightarrow> bool" where
  "fence_uuid_wf u \<longleftrightarrow> length u = 16 \<and> IsValidFenceUuid u"

definition marker_wf :: "FenceMarkerRoute \<Rightarrow> bool" where
  "marker_wf r \<longleftrightarrow> IsValidSessionId (fmr_sid r) \<and> fence_uuid_wf (fmr_receiver_generation r) \<and>
     fence_uuid_wf (fmr_publisher_uuid r) \<and>
     (case fmr_target r of
        MarkerCache \<Rightarrow> fmr_buffer_class r = None \<and> fmr_durability r = Applied
      | MarkerBuffer \<Rightarrow> fmr_buffer_class r \<noteq> None \<and>
          \<not> (fmr_buffer_class r = Some Ephemeral \<and> fmr_durability r = Synced))"

definition RenderMarkerRoute :: "string \<Rightarrow> FenceMarkerRoute \<Rightarrow> string option" where
  "RenderMarkerRoute p r = (case fmr_target r of
     MarkerCache \<Rightarrow> BuildCacheFenceMarkerKey p (fmr_sid r) (fmr_receiver_generation r)
       (fmr_publisher_uuid r) (fmr_through_sequence r)
   | MarkerBuffer \<Rightarrow> Option.bind (fmr_buffer_class r) (\<lambda>bc.
       BuildBufferFenceMarkerKey p (fmr_sid r) (fmr_receiver_generation r) bc
         (fmr_publisher_uuid r) (fmr_durability r) (fmr_through_sequence r)))"

definition marker_chunks :: "FenceMarkerRoute \<Rightarrow> string list" where
  "marker_chunks r = (case fmr_target r of
     MarkerCache \<Rightarrow> [''meta'', ''fence'', ''cache'', fmr_sid r, FormatFenceUuid (fmr_receiver_generation r),
       FormatFenceUuid (fmr_publisher_uuid r), to_string (unat (fmr_through_sequence r))]
   | MarkerBuffer \<Rightarrow> [''meta'', ''fence'', ''buffer'', fmr_sid r, FormatFenceUuid (fmr_receiver_generation r),
       BufferClassName (the (fmr_buffer_class r)), FormatFenceUuid (fmr_publisher_uuid r),
       DurabilityName (fmr_durability r), to_string (unat (fmr_through_sequence r))])"

lemma FormatLoop_chars:
  "set (FormatAckTokenLoop i bs out) \<subseteq> set out \<union> set kHexDigits \<union> {CHR ''-''}"
proof (induction i bs out rule: FormatAckTokenLoop.induct)
  case (2 i b bs out)
  have "length kHexDigits = 16" by (simp add: kHexDigits_def)
  then have "kHexDigits ! unat (drop_bit 4 b) \<in> set kHexDigits" "kHexDigits ! unat (b AND 0x0F) \<in> set kHexDigits"
    using unat_nibbles(3,4)[of b] by (metis nth_mem)+
  with 2[OF refl] show ?case by (fastforce simp: Let_def split: if_splits)
qed auto

lemma Format_chars: "c \<in> set (FormatFenceUuid u) \<Longrightarrow> c \<in> set kHexDigits \<or> c = CHR ''-''"
  using FormatLoop_chars[of 0 u "[]"] by (auto simp: FormatFenceUuid_def FormatAckToken_def)

lemma ParseFenceUuid_iff: "ParseFenceUuid s = Some u \<longleftrightarrow> fence_uuid_wf u \<and> s = FormatFenceUuid u"
  using token_codec.dec_iff[of s u]
  by (auto simp: ParseFenceUuid_def fence_uuid_wf_def IsValidFenceUuid_def FormatFenceUuid_def)

lemma tolower_hex: "c \<in> set kHexDigits \<or> c = CHR ''-'' \<Longrightarrow> tolower c = c"
  by (auto simp: kHexDigits_def tolower_def)

lemma ParseLoose_of_canonical:
  "ParseFenceUuid s = Some u \<Longrightarrow> ParseLooseFenceUuid s = Some u"
  "ParseCanonicalSequence s = Some n \<Longrightarrow> ParseLooseSequence s = Some n"
proof -
  show "ParseLooseFenceUuid s = Some u" if a: "ParseFenceUuid s = Some u"
  proof -
    from a have "s = FormatFenceUuid u" by (simp add: ParseFenceUuid_iff)
    then have "map tolower s = s" using Format_chars tolower_hex by (metis map_idI)
    with a show ?thesis by (simp add: ParseLooseFenceUuid_def)
  qed
  show "ParseCanonicalSequence s = Some n \<Longrightarrow> ParseLooseSequence s = Some n"
    by (simp add: ParseCanonicalSequence_def ParseLooseSequence_def split: if_splits)
qed

lemma good_uuid: "fence_uuid_wf u \<Longrightarrow> good_chunk (FormatFenceUuid u)"
proof -
  assume "fence_uuid_wf u"
  then have "length (FormatFenceUuid u) = 36"
    by (simp add: fence_uuid_wf_def FormatFenceUuid_def length_FormatAckToken)
  moreover have "CHR ''/'' \<notin> set (FormatFenceUuid u)"
    using Format_chars[of "CHR ''/''" u] by (auto simp: kHexDigits_def)
  ultimately show ?thesis by (auto simp: good_chunk_def)
qed

lemma good_sid: "IsValidSessionId s \<Longrightarrow> good_chunk s"
  by (simp add: good_chunk_def)

lemma good_number: "good_chunk (to_string n)"
  by (simp add: good_chunk_def slash_notin_to_string)

lemma marker_chunks_good: "marker_wf r \<Longrightarrow> list_all good_chunk (marker_chunks r)"
  by (auto simp: marker_wf_def marker_chunks_def good_uuid good_sid good_number BufferClassName_def
      DurabilityName_def split: FenceMarkerTarget.splits AckDurability.splits)
    (simp_all add: good_chunk_def)

lemma Render_chunks:
  assumes "marker_wf r" "IsValidPrefix p"
  shows "RenderMarkerRoute p r = Some (p @ CHR ''/'' # join (marker_chunks r))"
  using assms
  by (cases "fmr_target r") (auto simp: RenderMarkerRoute_def marker_chunks_def marker_wf_def
      fence_uuid_wf_def BuildCacheFenceMarkerKey_def BuildBufferFenceMarkerKey_def)

lemma parse_class_name [simp]: "parse_class (BufferClassName bc) = Some bc"
  by (cases bc) (simp_all add: parse_class_def BufferClassName_def)

lemma parse_class_SomeD: "parse_class s = Some bc \<Longrightarrow> s = BufferClassName bc"
  by (auto simp: parse_class_def BufferClassName_def split: if_splits)

lemma parse_durability_name [simp]: "parse_durability (DurabilityName d) = Some d"
  by (cases d) (simp_all add: parse_durability_def DurabilityName_def)

lemma parse_durability_SomeD: "parse_durability s = Some d \<Longrightarrow> s = DurabilityName d"
  by (auto simp: parse_durability_def DurabilityName_def split: if_splits)

lemma list7E:
  assumes "length xs = 7" obtains a b c d e f g where "xs = [a, b, c, d, e, f, g]"
  using assms by (auto simp: numeral_eq_Suc length_Suc_conv)

lemma list9E:
  assumes "length xs = 9" obtains a b c d e f g h i where "xs = [a, b, c, d, e, f, g, h, i]"
  using assms by (auto simp: numeral_eq_Suc length_Suc_conv)

definition ParseMarkerChunks :: "string list \<Rightarrow> FenceMarkerRoute option" where
  "ParseMarkerChunks chunks =
    (if length chunks < 4 \<or> chunks ! 0 \<noteq> ''meta'' \<or> chunks ! 1 \<noteq> ''fence'' then None
     else if chunks ! 2 = ''cache'' then ParseCacheRoute ParseFenceUuid ParseCanonicalSequence chunks
     else if chunks ! 2 = ''buffer'' then
       ParseBufferRoute ParseFenceUuid ParseCanonicalSequence True chunks
     else None)"

lemma ParseFenceMarkerRoute_chunks:
  "ParseFenceMarkerRoute p key =
    Option.bind (StripFencePrefix p key) (\<lambda>rest. ParseMarkerChunks (SplitRoute rest False))"
  by (simp add: ParseFenceMarkerRoute_def ParseMarkerChunks_def Let_def split: option.splits)

lemma ParseMarkerChunks_complete:
  assumes "marker_wf r"
  shows "ParseMarkerChunks (marker_chunks r) = Some r"
proof -
  have u: "ParseFenceUuid (FormatFenceUuid u) = Some u" if "fence_uuid_wf u" for u
    using that ParseFenceUuid_iff by blast
  have n: "ParseCanonicalSequence (to_string (unat n)) = Some n" for n
    using ParseCanonicalSequence_iff by blast
  show ?thesis
  proof (cases "fmr_target r")
    case MarkerCache
    with assms show ?thesis
      by (cases r) (simp add: marker_wf_def marker_chunks_def ParseMarkerChunks_def ParseCacheRoute_def u n)
  next
    case MarkerBuffer
    then obtain bc where "fmr_buffer_class r = Some bc" "\<not> (bc = Ephemeral \<and> fmr_durability r = Synced)"
      using assms by (auto simp: marker_wf_def)
    with MarkerBuffer assms show ?thesis
      by (cases r) (simp add: marker_wf_def marker_chunks_def ParseMarkerChunks_def ParseBufferRoute_def u n)
  qed
qed

lemma ParseMarkerChunks_sound:
  assumes "ParseMarkerChunks cs = Some r"
  shows "marker_wf r \<and> cs = marker_chunks r"
proof (cases "cs ! 2 = ''cache''")
  case True
  with assms have route: "ParseCacheRoute ParseFenceUuid ParseCanonicalSequence cs = Some r"
    "cs ! 0 = ''meta''" "cs ! 1 = ''fence''" by (auto simp: ParseMarkerChunks_def split: if_splits)
  then have "length cs = 7" by (auto simp: ParseCacheRoute_def split: if_splits)
  then obtain a b c d e f g where "cs = [a, b, c, d, e, f, g]" by (rule list7E)
  with route True show ?thesis
    by (auto simp: ParseCacheRoute_def ParseFenceUuid_iff ParseCanonicalSequence_iff marker_wf_def
        marker_chunks_def split: if_splits option.splits)
next
  case False
  with assms have route: "ParseBufferRoute ParseFenceUuid ParseCanonicalSequence True cs = Some r"
    "cs ! 0 = ''meta''" "cs ! 1 = ''fence''" "cs ! 2 = ''buffer''"
    by (auto simp: ParseMarkerChunks_def split: if_splits)
  then have "length cs = 9" by (auto simp: ParseBufferRoute_def split: if_splits)
  then obtain a b c d e f g h i where "cs = [a, b, c, d, e, f, g, h, i]" by (rule list9E)
  with route show ?thesis
    by (auto simp: ParseBufferRoute_def ParseFenceUuid_iff ParseCanonicalSequence_iff marker_wf_def
        marker_chunks_def dest!: parse_class_SomeD parse_durability_SomeD split: if_splits option.splits)
qed

lemma StripFencePrefix_Some:
  "StripFencePrefix p key = Some rest \<longleftrightarrow> IsValidPrefix p \<and> key = p @ CHR ''/'' # rest"
  using StripPrefix_Some[of p key rest]
  by (auto simp: StripFencePrefix_def StripPrefix_def split: if_splits)

lemma ParseFenceMarkerRoute_iff:
  "ParseFenceMarkerRoute p key = Some r \<longleftrightarrow> marker_wf r \<and> RenderMarkerRoute p r = Some key"
proof
  assume "ParseFenceMarkerRoute p key = Some r"
  then obtain rest where rest: "IsValidPrefix p" "key = p @ CHR ''/'' # rest"
    "ParseMarkerChunks (SplitRoute rest False) = Some r"
    by (auto simp: ParseFenceMarkerRoute_chunks bind_eq_Some_conv StripFencePrefix_Some)
  note s = ParseMarkerChunks_sound[OF rest(3)]
  have "SplitRoute rest False = marker_chunks r" "marker_chunks r \<noteq> []"
    using s by (auto simp: marker_chunks_def split: FenceMarkerTarget.splits)
  then have "rest = join (marker_chunks r)" by (simp add: SplitRoute_iff)
  with s rest show "marker_wf r \<and> RenderMarkerRoute p r = Some key" by (simp add: Render_chunks)
next
  assume a: "marker_wf r \<and> RenderMarkerRoute p r = Some key"
  then have p: "IsValidPrefix p"
    by (auto simp: RenderMarkerRoute_def BuildCacheFenceMarkerKey_def BuildBufferFenceMarkerKey_def
        bind_eq_Some_conv split: FenceMarkerTarget.splits if_splits)
  have "marker_chunks r \<noteq> []" by (simp add: marker_chunks_def split: FenceMarkerTarget.splits)
  then have "SplitRoute (join (marker_chunks r)) False = marker_chunks r"
    using a marker_chunks_good by (simp add: SplitRoute_iff)
  with a p Render_chunks[of r p] ParseMarkerChunks_complete[of r] StripFencePrefix_Some[of p key "join (marker_chunks r)"]
  show "ParseFenceMarkerRoute p key = Some r"
    by (auto simp: ParseFenceMarkerRoute_chunks bind_eq_Some_conv)
qed

lemma Recover_of_Parse:
  assumes "ParseFenceMarkerRoute p key = Some r"
  shows "RecoverMalformedFenceMarkerRoute p key = Some r"
proof -
  from assms obtain rest where rest: "StripFencePrefix p key = Some rest"
    "ParseMarkerChunks (SplitRoute rest False) = Some r"
    by (auto simp: ParseFenceMarkerRoute_chunks bind_eq_Some_conv)
  define cs where "cs = SplitRoute rest False"
  have chunks: "length cs \<ge> 4" "cs ! 0 = ''meta''" "cs ! 1 = ''fence''"
    using rest(2) by (auto simp: ParseMarkerChunks_def cs_def split: if_splits)
  from chunks(1) have "cs \<noteq> []" by auto
  then have "SplitRoute rest True = cs" using SplitRoute_loose[of rest] by (simp add: cs_def)
  moreover have "ParseCacheRoute ParseLooseFenceUuid ParseLooseSequence cs = Some r"
    if "ParseCacheRoute ParseFenceUuid ParseCanonicalSequence cs = Some r"
    using that by (auto simp: ParseCacheRoute_def ParseLoose_of_canonical split: option.splits if_splits)
  moreover have "ParseBufferRoute ParseLooseFenceUuid ParseLooseSequence False cs = Some r"
    if "ParseBufferRoute ParseFenceUuid ParseCanonicalSequence True cs = Some r"
    using that by (auto simp: ParseBufferRoute_def ParseLoose_of_canonical split: option.splits if_splits)
  ultimately show ?thesis
    using rest chunks by (auto simp: RecoverMalformedFenceMarkerRoute_def ParseMarkerChunks_def
        Let_def cs_def[symmetric] split: if_splits)
qed

lemma marker_not_ParseKey:
  assumes "marker_wf r" "RenderMarkerRoute p r = Some key"
  shows "ParseKey p key = None"
proof -
  have "IsValidPrefix p"
    using assms by (auto simp: RenderMarkerRoute_def BuildCacheFenceMarkerKey_def
        BuildBufferFenceMarkerKey_def bind_eq_Some_conv split: FenceMarkerTarget.splits if_splits)
  with assms have "key = p @ CHR ''/'' # join (marker_chunks r)" by (simp add: Render_chunks)
  moreover obtain t where "join (marker_chunks r) = ''meta/fence/'' @ t"
    by (cases "fmr_target r") (simp_all add: marker_chunks_def)
  ultimately show ?thesis by (simp add: ParseMetaTail_def)
qed

section \<open>Properties\<close>

text \<open>A lane attachment is observed as valid ordering metadata exactly when it is the
  25-byte encoding of a version 4 publisher uuid and a nonzero sequence.\<close>

theorem fence_lane_attachment_exact:
  "ObserveFenceLaneAttachment bs = FenceLaneObserved m \<longleftrightarrow>
     lane_metadata_valid m \<and> bs = EncodeFenceLaneAttachment m"
  using ObserveFenceLane_exact[of bs m] by (simp add: lane_metadata_valid_def)

text \<open>The classification of an attachment is disjoint: it is never both an acknowledgement
  and a lane observation, the encoding of a token is classified as that token alone, and the
  encoding of lane metadata as that metadata alone.\<close>

theorem ClassifyAttachment_disjoint:
  "(ao_ack (ClassifyAttachment a) = AckAttachmentAbsent \<or> ao_lane (ClassifyAttachment a) = FenceLaneAbsent) \<and>
   (length t = 16 \<and> IsValidAckToken t \<longrightarrow> ClassifyAttachment (Some (EncodeAckAttachment t)) =
      \<lparr>ao_ack = AckObserved t, ao_lane = FenceLaneAbsent\<rparr>) \<and>
   (lane_metadata_valid m \<longrightarrow> ClassifyAttachment (Some (EncodeFenceLaneAttachment m)) =
      \<lparr>ao_ack = AckAttachmentAbsent, ao_lane = FenceLaneObserved m\<rparr>)"
proof (intro conjI impI)
  show "ao_ack (ClassifyAttachment a) = AckAttachmentAbsent \<or> ao_lane (ClassifyAttachment a) = FenceLaneAbsent"
    by (simp add: ClassifyAttachment_def Let_def split: option.split)
  show "ClassifyAttachment (Some (EncodeAckAttachment t)) = \<lparr>ao_ack = AckObserved t, ao_lane = FenceLaneAbsent\<rparr>"
    if "length t = 16 \<and> IsValidAckToken t"
    using that ObserveAckAttachment_token[of "EncodeAckAttachment t" t]
    by (simp add: ClassifyAttachment_def EncodeAckAttachment_def kAckAttachmentV1Size_def)
  show "ClassifyAttachment (Some (EncodeFenceLaneAttachment m)) =
      \<lparr>ao_ack = AckAttachmentAbsent, ao_lane = FenceLaneObserved m\<rparr>"
    if v: "lane_metadata_valid m"
  proof -
    have "length (EncodeFenceLaneAttachment m) = 25"
      using v by (simp add: EncodeFenceLaneAttachment_def lane_metadata_valid_def)
    then show ?thesis
      using ObserveFenceLane_exact[of "EncodeFenceLaneAttachment m" m] v
      by (simp add: ClassifyAttachment_def kAckAttachmentV1Size_def kFenceLaneAttachmentV1Size_def
          lane_metadata_valid_def)
  qed
qed

definition example_uuid :: FenceUuid where
  "example_uuid = [1, 2, 3, 4, 5, 6, 0x47, 8, 0x89, 10, 11, 12, 13, 14, 15, 16]"

lemma example_uuid_valid: "length example_uuid = 16" "IsValidAckToken example_uuid"
  by (simp_all add: example_uuid_def IsValidAckToken_def)

theorem ClassifyAttachment_disjoint_witness:
  "ao_ack (ClassifyAttachment (Some (EncodeAckAttachment example_uuid))) = AckObserved example_uuid"
  using ClassifyAttachment_disjoint[of None example_uuid] example_uuid_valid by auto

text \<open>Marker routes are exact.  The canonical parser returns a route precisely for the key
  the builder makes from it, so every marker has one spelling; the recovering parser returns
  the same route on every canonical key; and no marker key is an ordinary parameter,
  buffer or metadata key.\<close>

theorem fence_marker_route_exact:
  "(ParseFenceMarkerRoute p key = Some r \<longleftrightarrow> marker_wf r \<and> RenderMarkerRoute p r = Some key) \<and>
   (ParseFenceMarkerRoute p key = Some r \<longrightarrow>
      RecoverMalformedFenceMarkerRoute p key = Some r \<and> ParseKey p key = None)"
  using ParseFenceMarkerRoute_iff Recover_of_Parse marker_not_ParseKey by blast

definition example_route :: FenceMarkerRoute where
  "example_route = \<lparr>fmr_target = MarkerBuffer, fmr_sid = ''s1'', fmr_receiver_generation = example_uuid,
     fmr_buffer_class = Some Durable, fmr_publisher_uuid = example_uuid, fmr_durability = Synced,
     fmr_through_sequence = 42\<rparr>"

theorem fence_marker_route_exact_witness:
  "\<exists>key. RenderMarkerRoute ''app'' example_route = Some key \<and> ParseKey ''app'' key = None \<and>
     RecoverMalformedFenceMarkerRoute ''app'' key = Some example_route"
proof -
  have "IsValidPrefix ''app''" by code_simp
  moreover have "marker_wf example_route"
    using example_uuid_valid
    by (simp add: marker_wf_def example_route_def fence_uuid_wf_def IsValidFenceUuid_def
        IsValidSessionId_def IsValidId_def IsValidIdChar_def isalnum_def)
  ultimately obtain key where "RenderMarkerRoute ''app'' example_route = Some key" "marker_wf example_route"
    using Render_chunks by blast
  with fence_marker_route_exact[of "''app''" key example_route] show ?thesis by blast
qed

end
