(* ===== verification/FenceLane.thy ===== *)
theory FenceLane
  imports FenceCodec
begin

text \<open>
  The proof state a receiver keeps per publisher lane, \<open>FenceLaneState\<close> of
  \<open>src/fence.cpp\<close>: which sequences were reserved, completed and observed, and the first
  failure.  Sequences are 64-bit words and wrap as in the code.  The development shows
  that a fence succeeds exactly when every sequence up to it was applied successfully and
  nothing beyond it was seen.
\<close>

section \<open>Diagnostics\<close>

definition sanitize_width :: "nat \<Rightarrow> nat" where
  "sanitize_width first =
    (if 0xC2 \<le> first \<and> first \<le> 0xDF then 2
     else if 0xE0 \<le> first \<and> first \<le> 0xEF then 3
     else if 0xF0 \<le> first \<and> first \<le> 0xF4 then 4
     else 1)"

definition sanitize_plain :: "nat \<Rightarrow> bool" where
  "sanitize_plain first \<longleftrightarrow> (0x20 \<le> first \<and> first \<le> 0x7E) \<or> first \<in> {9, 10, 13}"

definition sanitize_valid :: "nat list \<Rightarrow> nat \<Rightarrow> bool" where
  "sanitize_valid bs width \<longleftrightarrow>
     width \<le> length bs \<and> list_all (\<lambda>c. 0x80 \<le> c \<and> c < 0xC0) (take (width - 1) (drop 1 bs)) \<and>
     (width = 3 \<longrightarrow> \<not> (bs ! 0 = 0xE0 \<and> bs ! 1 < 0xA0) \<and> \<not> (bs ! 0 = 0xED \<and> bs ! 1 \<ge> 0xA0)) \<and>
     (width = 4 \<longrightarrow> \<not> (bs ! 0 = 0xF0 \<and> bs ! 1 < 0x90) \<and> \<not> (bs ! 0 = 0xF4 \<and> bs ! 1 \<ge> 0x90))"

text \<open>The loop on the input from \<open>index\<close> on and the output so far.\<close>

function SanitizeLoop :: "string \<Rightarrow> string \<Rightarrow> string" where
  "SanitizeLoop input out =
    (if input = [] \<or> length out \<ge> kAckResultMaxMessageLength then out else
     let first = of_char (hd input) :: nat; width = sanitize_width first in
     if width = 1 then
       SanitizeLoop (tl input) (out @ [if sanitize_plain first then hd input else CHR ''?''])
     else if \<not> sanitize_valid (map of_char input) width \<or>
         length out + width > kAckResultMaxMessageLength then
       SanitizeLoop (tl input) (out @ ''?'')
     else SanitizeLoop (drop width input) (out @ take width input))"
  by pat_completeness auto
termination
proof (relation "measure (\<lambda>(input, _). length input)", goal_cases)
  case (4 input out first width)
  then show ?case by (auto simp: sanitize_width_def split: if_splits)
qed auto

declare SanitizeLoop.simps [simp del]

definition SanitizeFenceDiagnostic :: "string \<Rightarrow> string" where
  "SanitizeFenceDiagnostic input = SanitizeLoop input ''''"

lemma utf8_loop_append: "utf8_loop a \<Longrightarrow> utf8_loop b \<Longrightarrow> utf8_loop (a @ b)"
proof -
  assume "utf8_loop a" "utf8_loop b"
  then obtain ca cb where "list_all scalar_value ca" "a = concat (map utf8_encode ca)"
    "list_all scalar_value cb" "b = concat (map utf8_encode cb)" using utf8_loop_sound by meson
  then show ?thesis using utf8_loop_complete[of "ca @ cb"] by simp
qed

lemma utf8_ascii: "c < 128 \<Longrightarrow> utf8_loop [c]"
  by simp

lemma cont_byte: "128 \<le> b \<Longrightarrow> b < 192 \<Longrightarrow> \<exists>x<64. b = 128 + (x::nat)"
  by (rule exI[of _ "b - 128"]) simp

lemma utf8_three:
  assumes "0xE0 \<le> b0" "b0 \<le> 0xEF" "128 \<le> b1" "b1 < 192" "128 \<le> b2" "b2 < 192"
    "\<not> (b0 = 0xE0 \<and> b1 < 0xA0)" "\<not> (b0 = 0xED \<and> b1 \<ge> 0xA0)"
  shows "utf8_loop [b0, b1, b2]"
proof -
  define a where "a = b0 - 224"
  have a: "b0 = 224 + a" "a < 16" using assms(1,2) by (simp_all add: a_def)
  obtain x y where x: "x < 64" "b1 = 128 + x" "y < 64" "b2 = 128 + y" using cont_byte assms(3-6) by metis
  have "2048 \<le> (a * 64 + x) * 64 + y" using assms(7) a x by auto
  moreover have "scalar_value ((a * 64 + x) * 64 + y)"
  proof -
    consider "a \<le> 12" | "a = 13" "x < 32" | "14 \<le> a" using assms(8) a x by force
    then show ?thesis using a x by cases (auto simp: scalar_value_def)
  qed
  ultimately show ?thesis using utf8_loop_shapes(3)[of a x y "[]"] a x by simp
qed

lemma utf8_four:
  assumes "0xF0 \<le> b0" "b0 \<le> 0xF4" "128 \<le> b1" "b1 < 192" "128 \<le> b2" "b2 < 192" "128 \<le> b3" "b3 < 192"
    "\<not> (b0 = 0xF0 \<and> b1 < 0x90)" "\<not> (b0 = 0xF4 \<and> b1 \<ge> 0x90)"
  shows "utf8_loop [b0, b1, b2, b3]"
proof -
  define a where "a = b0 - 240"
  have a: "b0 = 240 + a" "a < 5" using assms(1,2) by (simp_all add: a_def)
  obtain x y z where x: "x < 64" "b1 = 128 + x" "y < 64" "b2 = 128 + y" "z < 64" "b3 = 128 + z"
    using cont_byte assms(3-8) by metis
  have "65536 \<le> ((a * 64 + x) * 64 + y) * 64 + z" using assms(9) a x by auto
  moreover have "scalar_value (((a * 64 + x) * 64 + y) * 64 + z)"
  proof -
    have "a \<le> 3 \<or> (a = 4 \<and> x < 16)" using assms(10) a x by auto
    then have "((a * 64 + x) * 64 + y) * 64 + z \<le> 0x10FFFF" using x by auto
    with calculation show ?thesis by (simp add: scalar_value_def)
  qed
  ultimately show ?thesis using utf8_loop_shapes(4)[of a x y z "[]"] a x by simp
qed

lemma utf8_two:
  assumes "0xC2 \<le> b0" "b0 \<le> 0xDF" "128 \<le> b1" "b1 < 192"
  shows "utf8_loop [b0, b1]"
proof -
  define a where "a = b0 - 192"
  have a: "b0 = 192 + a" "2 \<le> a" "a < 32" using assms(1,2) by (simp_all add: a_def)
  obtain x where "x < 64" "b1 = 128 + x" using cont_byte assms(3,4) by metis
  with a utf8_loop_shapes(2)[of a x "[]"] show ?thesis by simp
qed

lemma sanitize_piece:
  assumes "bs \<noteq> []" "sanitize_width (hd bs) = w" "w \<noteq> 1" "sanitize_valid bs w"
  shows "utf8_loop (take w bs) \<and> w \<le> length bs \<and> 0 < w"
proof -
  obtain b0 rest where bs: "bs = b0 # rest" using assms(1) by (cases bs) auto
  consider "w = 2" "0xC2 \<le> b0" "b0 \<le> 0xDF" | "w = 3" "0xE0 \<le> b0" "b0 \<le> 0xEF"
    | "w = 4" "0xF0 \<le> b0" "b0 \<le> 0xF4"
    using assms(2,3) bs by (auto simp: sanitize_width_def split: if_splits)
  then show ?thesis
  proof cases
    case 1
    with assms(4) bs obtain b1 r where "rest = b1 # r" by (cases rest) (auto simp: sanitize_valid_def)
    with 1 assms(4) bs utf8_two[of b0 b1] show ?thesis by (simp add: sanitize_valid_def)
  next
    case 2
    with assms(4) bs obtain b1 b2 r where "rest = b1 # b2 # r"
      by (cases rest; cases "tl rest") (auto simp: sanitize_valid_def)
    with 2 assms(4) bs utf8_three[of b0 b1 b2] show ?thesis
      by (auto simp: sanitize_valid_def numeral_eq_Suc)
  next
    case 3
    with assms(4) bs obtain b1 b2 b3 r where "rest = b1 # b2 # b3 # r"
      by (cases rest; cases "tl rest"; cases "tl (tl rest)") (auto simp: sanitize_valid_def)
    with 3 assms(4) bs utf8_four[of b0 b1 b2 b3] show ?thesis
      by (auto simp: sanitize_valid_def numeral_eq_Suc)
  qed
qed

lemma SanitizeLoop_ok:
  "IsValidUtf8 out \<Longrightarrow> length out \<le> 1024 \<Longrightarrow>
     IsValidUtf8 (SanitizeLoop input out) \<and> length (SanitizeLoop input out) \<le> 1024"
proof (induction input out rule: SanitizeLoop.induct)
  case (1 input out)
  define first where "first = (of_char (hd input) :: nat)"
  define width where "width = sanitize_width first"
  have app: "IsValidUtf8 (out @ s)" if "utf8_loop (map of_char s)" for s
    using 1(4) that utf8_loop_append by (simp add: IsValidUtf8_def)
  show ?case
  proof (cases "input = [] \<or> length out \<ge> kAckResultMaxMessageLength")
    case True
    then have "SanitizeLoop input out = out" by (subst SanitizeLoop.simps) auto
    with 1(4,5) show ?thesis by simp
  next
    case go: False
    then have lt: "length out < 1024" by (simp add: kAckResultMaxMessageLength_def)
    note step = SanitizeLoop.simps[of input out]
    consider "width = 1" | "width \<noteq> 1" "\<not> sanitize_valid (map of_char input) width \<or>
        length out + width > kAckResultMaxMessageLength"
      | "width \<noteq> 1" "sanitize_valid (map of_char input) width"
        "length out + width \<le> kAckResultMaxMessageLength" by linarith
    then show ?thesis
    proof cases
      case a: 1
      let ?c = "if sanitize_plain first then hd input else CHR ''?''"
      have "utf8_loop (map of_char [?c])"
        by (auto simp: sanitize_plain_def first_def)
      then have "IsValidUtf8 (out @ [?c])" by (rule app)
      with 1(1)[OF go first_def width_def a] lt have "IsValidUtf8 (SanitizeLoop (tl input) (out @ [?c])) \<and>
          length (SanitizeLoop (tl input) (out @ [?c])) \<le> 1024" by simp
      with go a show ?thesis unfolding step by (simp add: Let_def first_def[symmetric] width_def[symmetric])
    next
      case b: 2
      have "IsValidUtf8 (out @ ''?'')" by (rule app) simp
      with 1(2)[OF go first_def width_def b] lt have "IsValidUtf8 (SanitizeLoop (tl input) (out @ ''?'')) \<and>
          length (SanitizeLoop (tl input) (out @ ''?'')) \<le> 1024" by simp
      with go b show ?thesis unfolding step by (simp add: Let_def first_def[symmetric] width_def[symmetric])
    next
      case c: 3
      have piece: "utf8_loop (take width (map of_char input)) \<and> width \<le> length input \<and> 0 < width"
        using sanitize_piece[of "map of_char input" width] go c
        by (simp add: width_def first_def hd_map)
      then have "IsValidUtf8 (out @ take width input)" by (intro app) (simp add: take_map)
      moreover have "length (out @ take width input) \<le> 1024"
        using c(3) by (simp add: kAckResultMaxMessageLength_def)
      moreover have "\<not> (\<not> sanitize_valid (map of_char input) width \<or>
          kAckResultMaxMessageLength < length out + width)" using c by simp
      ultimately have "IsValidUtf8 (SanitizeLoop (drop width input) (out @ take width input)) \<and>
          length (SanitizeLoop (drop width input) (out @ take width input)) \<le> 1024"
        using 1(3)[OF go first_def width_def c(1)] by blast
      with go c show ?thesis unfolding step by (simp add: Let_def first_def[symmetric] width_def[symmetric])
    qed
  qed
qed

lemma Sanitize_ok: "IsValidUtf8 (SanitizeFenceDiagnostic s)" "length (SanitizeFenceDiagnostic s) \<le> 1024"
  using SanitizeLoop_ok[of "''''" s] by (simp_all add: SanitizeFenceDiagnostic_def IsValidUtf8_def)

section \<open>Lane state\<close>

record FenceFirstFailure =
  fff_status :: Status
  fff_sequence :: u64
  fff_message :: string

record FenceLaneState =
  fl_completed_through :: u64
  fl_highest_observed :: u64
  fl_reserved_through :: u64
  fl_reservation_exhausted :: bool
  fl_first_failure :: "FenceFirstFailure option"
  fl_later_failure_count :: "8 word"

definition FenceLaneInit :: FenceLaneState where
  "FenceLaneInit = \<lparr>fl_completed_through = 0, fl_highest_observed = 0, fl_reserved_through = 0,
     fl_reservation_exhausted = False, fl_first_failure = None, fl_later_failure_count = 0\<rparr>"

definition Lane_Latch :: "Status \<Rightarrow> u64 \<Rightarrow> string \<Rightarrow> FenceLaneState \<Rightarrow> FenceLaneState" where
  "Lane_Latch status sequence diagnostic st =
    (case fl_first_failure st of
       None \<Rightarrow> st\<lparr>fl_first_failure := Some \<lparr>fff_status = status, fff_sequence = sequence,
                fff_message = SanitizeFenceDiagnostic diagnostic\<rparr>\<rparr>
     | Some _ \<Rightarrow>
         if fl_later_failure_count st < 255
         then st\<lparr>fl_later_failure_count := fl_later_failure_count st + 1\<rparr> else st)"

definition observe :: "u64 \<Rightarrow> FenceLaneState \<Rightarrow> FenceLaneState" where
  "observe sequence st =
    (if sequence > fl_highest_observed st then st\<lparr>fl_highest_observed := sequence\<rparr> else st)"

definition Lane_Admit :: "u64 \<Rightarrow> FenceLaneState \<Rightarrow> FenceLaneState \<times> bool" where
  "Lane_Admit sequence st =
    (if sequence = 0 then (Lane_Latch Error kAckNoFailedSequence ''buffer sequence is zero'' st, False) else
     let st = observe sequence st in
     if fl_reservation_exhausted st \<or> sequence \<le> fl_reserved_through st then
       (Lane_Latch Error sequence ''duplicate or stale buffer sequence'' st, False)
     else let expected = fl_reserved_through st + 1 in
     if sequence > expected then
       (Lane_Latch OutcomeUnknown expected ''buffer sequence gap'' st, False)
     else (st\<lparr>fl_reserved_through := sequence,
              fl_reservation_exhausted := (sequence = - 1 \<or> fl_reservation_exhausted st)\<rparr>, True))"

definition Lane_Complete :: "u64 \<Rightarrow> Status option \<Rightarrow> FenceLaneState \<Rightarrow> FenceLaneState" where
  "Lane_Complete sequence failure st =
    (let expected = fl_completed_through st + 1 in
     if sequence \<noteq> expected \<or> sequence > fl_reserved_through st then
       Lane_Latch Error (if sequence = 0 then kAckNoFailedSequence else sequence)
         ''buffer completion sequence mismatch'' st
     else
       let st = st\<lparr>fl_completed_through := sequence\<rparr> in
       if failure \<noteq> None \<and> failure \<noteq> Some Ok
       then Lane_Latch (the failure) sequence ''covered buffer application failed'' st else st)"

definition Lane_RecordCompleted :: "u64 \<Rightarrow> Status option \<Rightarrow> FenceLaneState \<Rightarrow> FenceLaneState" where
  "Lane_RecordCompleted sequence failure st =
    (case Lane_Admit sequence st of
       (st', True) \<Rightarrow> Lane_Complete sequence failure st'
     | (st', False) \<Rightarrow> st')"

definition Lane_RecordRejected :: "u64 \<Rightarrow> Status \<Rightarrow> u64 \<Rightarrow> string \<Rightarrow> FenceLaneState \<Rightarrow> FenceLaneState" where
  "Lane_RecordRejected observed_sequence status failed_sequence diagnostic st =
     Lane_Latch status failed_sequence diagnostic (observe observed_sequence st)"

definition Lane_RecordOverflow :: "u64 \<Rightarrow> FenceLaneState \<Rightarrow> FenceLaneState" where
  "Lane_RecordOverflow observed_sequence st =
    (let st = observe observed_sequence st in
     if fl_reservation_exhausted st \<or> observed_sequence \<le> fl_reserved_through st then
       Lane_Latch Error observed_sequence ''buffer dispatch overflow on an observed sequence'' st
     else Lane_Latch OutcomeUnknown (fl_reserved_through st + 1) ''buffer dispatch capacity exceeded'' st)"

definition Lane_RecordMalformed :: "u64 option \<Rightarrow> FenceLaneState \<Rightarrow> FenceLaneState" where
  "Lane_RecordMalformed sequence st = (case sequence of
     Some s \<Rightarrow> Lane_Latch Error s ''malformed buffer lane sequence'' (observe s st)
   | None \<Rightarrow> Lane_Latch Error kAckNoFailedSequence ''malformed buffer lane metadata'' st)"

definition FenceOkResult :: "u64 \<Rightarrow> AckDurability \<Rightarrow> AckResultV1" where
  "FenceOkResult through_sequence durability =
    \<lparr>ar_operation_kind = OpFence, ar_status = Ok, ar_durability = durability, ar_applied_count = 0,
     ar_failed_index = kAckNoFailedIndex, ar_through_sequence = through_sequence,
     ar_failed_sequence = kAckNoFailedSequence, ar_message = ''''\<rparr>"

definition Lane_Evaluate :: "u64 \<Rightarrow> AckDurability \<Rightarrow> FenceLaneState \<Rightarrow> AckResultV1" where
  "Lane_Evaluate through_sequence durability st =
    (let result = FenceOkResult through_sequence durability; first = fl_first_failure st in
     if first \<noteq> None \<and> fff_sequence (the first) = kAckNoFailedSequence then
       result\<lparr>ar_status := fff_status (the first), ar_message := fff_message (the first)\<rparr>
     else if first \<noteq> None \<and> fff_sequence (the first) \<le> through_sequence then
       result\<lparr>ar_status := fff_status (the first), ar_failed_sequence := fff_sequence (the first),
         ar_message := fff_message (the first)\<rparr>
     else if fl_completed_through st > through_sequence \<or> fl_highest_observed st > through_sequence then
       result\<lparr>ar_status := OutcomeUnknown\<rparr>
     else if fl_completed_through st < through_sequence then
       result\<lparr>ar_status := OutcomeUnknown, ar_failed_sequence := fl_completed_through st + 1\<rparr>
     else result)"

definition Lane_Reset :: "FenceLaneState \<Rightarrow> FenceLaneState" where
  "Lane_Reset st = FenceLaneInit"

definition next_expected :: "FenceLaneState \<Rightarrow> u64" where
  "next_expected st = (if fl_reservation_exhausted st then - 1 else fl_reserved_through st + 1)"

section \<open>Histories\<close>

text \<open>
  The calls a receiver makes, under the discipline of its callers: only a sequence that was
  admitted is completed, with a wire status; observed sequences are nonzero (the attachment
  decoder yields no other); a rejection is recorded for a sequence that was observed.
\<close>

datatype LaneEvent =
    LAdmit u64
  | LComplete u64 "Status option"
  | LRejected u64 Status string
  | LOverflow u64
  | LMalformed "u64 option"

definition lane_event_ok :: "FenceLaneState \<Rightarrow> LaneEvent \<Rightarrow> bool" where
  "lane_event_ok st ev = (case ev of
     LAdmit s \<Rightarrow> s \<noteq> 0
   | LComplete s f \<Rightarrow> s \<noteq> 0 \<and> s \<le> fl_reserved_through st \<and> (f \<noteq> None \<longrightarrow> IsWireStatus (the f))
   | LRejected s status d \<Rightarrow> s \<noteq> 0 \<and> status \<noteq> Ok \<and> IsWireStatus status
   | LOverflow s \<Rightarrow> s \<noteq> 0
   | LMalformed m \<Rightarrow> m \<noteq> Some 0)"

definition lane_step :: "LaneEvent \<Rightarrow> FenceLaneState \<Rightarrow> FenceLaneState" where
  "lane_step ev st = (case ev of
     LAdmit s \<Rightarrow> fst (Lane_Admit s st)
   | LComplete s f \<Rightarrow> Lane_Complete s f st
   | LRejected s status d \<Rightarrow> Lane_RecordRejected s status s d st
   | LOverflow s \<Rightarrow> Lane_RecordOverflow s st
   | LMalformed m \<Rightarrow> Lane_RecordMalformed m st)"

text \<open>The ghost log: the completions the lane accepted, with their success.\<close>

definition lane_log :: "LaneEvent \<Rightarrow> FenceLaneState \<Rightarrow> (u64 \<times> bool) list" where
  "lane_log ev st = (case ev of
     LComplete s f \<Rightarrow>
       if s = fl_completed_through st + 1 \<and> s \<le> fl_reserved_through st
       then [(s, f = None \<or> f = Some Ok)] else []
   | _ \<Rightarrow> [])"

inductive lane_reach :: "FenceLaneState \<Rightarrow> (u64 \<times> bool) list \<Rightarrow> bool" where
  lane_init: "lane_reach FenceLaneInit []"
| lane_step: "lane_reach st log \<Longrightarrow> lane_event_ok st ev \<Longrightarrow>
    lane_reach (lane_step ev st) (log @ lane_log ev st)"

section \<open>The lane invariant\<close>

definition failure_ok :: "u64 \<Rightarrow> FenceFirstFailure \<Rightarrow> bool" where
  "failure_ok highest f \<longleftrightarrow> fff_status f \<noteq> Ok \<and> IsWireStatus (fff_status f) \<and>
     IsValidUtf8 (fff_message f) \<and> length (fff_message f) \<le> 1024 \<and> fff_sequence f \<noteq> 0 \<and>
     (fff_sequence f = kAckNoFailedSequence \<or> fff_sequence f \<le> highest)"

definition counters_inv :: "FenceLaneState \<Rightarrow> bool" where
  "counters_inv st \<longleftrightarrow> fl_completed_through st \<le> fl_reserved_through st \<and>
     fl_reserved_through st \<le> fl_highest_observed st \<and>
     (fl_reservation_exhausted st \<longleftrightarrow> fl_reserved_through st = - 1)"

definition failures_inv :: "FenceLaneState \<Rightarrow> (u64 \<times> bool) list \<Rightarrow> bool" where
  "failures_inv st log \<longleftrightarrow> (case fl_first_failure st of
     None \<Rightarrow> list_all snd log \<and> fl_highest_observed st = fl_reserved_through st \<and> fl_later_failure_count st = 0
   | Some f \<Rightarrow> failure_ok (fl_highest_observed st) f)"

text \<open>The sequences \<open>1 .. n\<close>.\<close>

definition numbered :: "nat \<Rightarrow> u64 list" where
  "numbered n = map of_nat [1..<Suc n]"

lemma numbered_0 [simp]: "numbered 0 = []"
  by (simp add: numbered_def)

lemma numbered_Suc: "numbered (Suc n) = numbered n @ [of_nat (Suc n)]"
  by (simp add: numbered_def)

definition lane_inv :: "FenceLaneState \<Rightarrow> (u64 \<times> bool) list \<Rightarrow> bool" where
  "lane_inv st log \<longleftrightarrow> counters_inv st \<and> failures_inv st log \<and>
     map fst log = numbered (unat (fl_completed_through st))"

lemma Latch_fields [simp]:
  "fl_completed_through (Lane_Latch s q d st) = fl_completed_through st"
  "fl_highest_observed (Lane_Latch s q d st) = fl_highest_observed st"
  "fl_reserved_through (Lane_Latch s q d st) = fl_reserved_through st"
  "fl_reservation_exhausted (Lane_Latch s q d st) = fl_reservation_exhausted st"
  by (simp_all add: Lane_Latch_def split: option.split)

lemma Latch_first [simp]:
  "fl_first_failure (Lane_Latch s q d st) = (case fl_first_failure st of
     None \<Rightarrow> Some \<lparr>fff_status = s, fff_sequence = q, fff_message = SanitizeFenceDiagnostic d\<rparr>
   | Some f \<Rightarrow> Some f)"
  by (simp add: Lane_Latch_def split: option.split)

lemma observe_fields [simp]:
  "fl_completed_through (observe q st) = fl_completed_through st"
  "fl_reserved_through (observe q st) = fl_reserved_through st"
  "fl_reservation_exhausted (observe q st) = fl_reservation_exhausted st"
  "fl_first_failure (observe q st) = fl_first_failure st"
  "fl_later_failure_count (observe q st) = fl_later_failure_count st"
  "fl_highest_observed (observe q st) = max (fl_highest_observed st) q"
  by (auto simp: observe_def max_def)

lemma counters_observe: "counters_inv st \<Longrightarrow> counters_inv (observe q st)"
  by (simp add: counters_inv_def le_max_iff_disj)

lemma counters_Latch: "counters_inv st \<Longrightarrow> counters_inv (Lane_Latch s q d st)"
  by (simp add: counters_inv_def)

lemma failure_ok_mono: "failure_ok h f \<Longrightarrow> h \<le> h' \<Longrightarrow> failure_ok h' f"
  by (auto simp: failure_ok_def)

text \<open>Latching a failure at a sequence that has been observed, after raising the high-water mark.\<close>

lemma failures_Latch:
  assumes "failures_inv st log" "s \<noteq> Ok" "IsWireStatus s" "q \<noteq> 0"
    "q = kAckNoFailedSequence \<or> q \<le> fl_highest_observed st'"
    "fl_first_failure st' = fl_first_failure st" "fl_highest_observed st \<le> fl_highest_observed st'"
  shows "failures_inv (Lane_Latch s q d st') log'"
  using assms Sanitize_ok[of d] failure_ok_mono
  by (auto simp: failures_inv_def failure_ok_def split: option.splits)

lemma word_succ_bounds:
  fixes x :: u64
  assumes "x \<noteq> - 1"
  shows "unat (x + 1) = Suc (unat x)" "x < x + 1" "x + 1 \<noteq> 0" "x < y \<Longrightarrow> x + 1 \<le> y" "y < x + 1 \<Longrightarrow> y \<le> x"
proof -
  have "x + 1 \<noteq> 0" using assms by (metis add.commute add_eq_0_iff)
  then show n0: "x + 1 \<noteq> 0" .
  show u: "unat (x + 1) = Suc (unat x)" using n0 unatSuc[of x] by (simp add: add.commute)
  show "x < x + 1" "x < y \<Longrightarrow> x + 1 \<le> y" "y < x + 1 \<Longrightarrow> y \<le> x"
    by (simp_all add: word_less_nat_alt word_le_nat_alt u)
qed

lemma word_no_wrap: "x < (y :: u64) \<Longrightarrow> x \<noteq> - 1"
  using word_order.not_eq_extremum by fastforce

lemma lane_inv_init: "lane_inv FenceLaneInit []"
  by (simp add: lane_inv_def counters_inv_def failures_inv_def FenceLaneInit_def)

lemma wire_errors [simp]: "IsWireStatus Error" "IsWireStatus OutcomeUnknown"
  by (simp_all add: IsWireStatus_def)

lemma kAckNoFailedSequence_nonzero [simp]: "kAckNoFailedSequence \<noteq> 0"
  by (simp add: kAckNoFailedSequence_def)

lemma Admit_inv:
  assumes "lane_inv st log" "s \<noteq> 0"
  shows "lane_inv (fst (Lane_Admit s st)) log"
proof -
  let ?st = "observe s st"
  have c: "counters_inv ?st" using assms by (simp add: lane_inv_def counters_observe)
  have f: "failures_inv st log" using assms by (simp add: lane_inv_def)
  have log: "map fst log = numbered (unat (fl_completed_through st))"
    using assms by (simp add: lane_inv_def)
  consider (stale) "fl_reservation_exhausted st \<or> s \<le> fl_reserved_through st"
    | (gap) "\<not> fl_reservation_exhausted st" "fl_reserved_through st < s" "s > fl_reserved_through st + 1"
    | (ok) "\<not> fl_reservation_exhausted st" "fl_reserved_through st < s" "s \<le> fl_reserved_through st + 1"
    by fastforce
  then show ?thesis
  proof cases
    case stale
    have "failures_inv (Lane_Latch Error s ''duplicate or stale buffer sequence'' ?st) log"
      by (rule failures_Latch[OF f]) (use assms in \<open>simp_all add: le_max_iff_disj\<close>)
    with stale c log assms(2) show ?thesis
      by (simp add: Lane_Admit_def lane_inv_def counters_Latch Let_def)
  next
    case gap
    note b = word_succ_bounds[OF word_no_wrap[OF gap(2)]]
    have "failures_inv (Lane_Latch OutcomeUnknown (fl_reserved_through st + 1) ''buffer sequence gap'' ?st) log"
      by (rule failures_Latch[OF f]) (use gap b(3) in \<open>simp_all add: le_max_iff_disj less_imp_le\<close>)
    moreover have "\<not> s \<le> fl_reserved_through st" using gap by (simp add: not_le)
    ultimately show ?thesis
      using gap c log assms(2) by (simp add: Lane_Admit_def lane_inv_def counters_Latch Let_def)
  next
    case ok
    note b = word_succ_bounds[OF word_no_wrap[OF ok(2)]]
    have s: "s = fl_reserved_through st + 1" using ok b(4) by fastforce
    have "counters_inv (?st\<lparr>fl_reserved_through := s,
        fl_reservation_exhausted := (s = - 1 \<or> fl_reservation_exhausted ?st)\<rparr>)"
      using c ok by (auto simp: counters_inv_def le_max_iff_disj)
    moreover have "failures_inv (?st\<lparr>fl_reserved_through := s,
        fl_reservation_exhausted := (s = - 1 \<or> fl_reservation_exhausted ?st)\<rparr>) log"
      using f ok failure_ok_mono
      by (auto simp: failures_inv_def max_def split: option.splits)
    moreover have "\<not> s \<le> fl_reserved_through st" "\<not> s > fl_reserved_through st + 1"
      using ok by (simp_all add: not_le)
    ultimately show ?thesis
      using ok log assms(2) by (simp add: Lane_Admit_def lane_inv_def Let_def)
  qed
qed

lemma Complete_inv_lane:
  assumes "lane_inv st log" "lane_event_ok st (LComplete s f)"
  shows "lane_inv (Lane_Complete s f st) (log @ lane_log (LComplete s f) st)"
proof -
  have c: "counters_inv st" and fi: "failures_inv st log"
    and log: "map fst log = numbered (unat (fl_completed_through st))"
    using assms by (simp_all add: lane_inv_def)
  have s: "s \<noteq> 0" "s \<le> fl_reserved_through st" "f \<noteq> None \<longrightarrow> IsWireStatus (the f)"
    using assms(2) by (simp_all add: lane_event_ok_def)
  have hi: "s \<le> fl_highest_observed st"
    using order_trans[OF s(2)] c unfolding counters_inv_def by blast
  show ?thesis
  proof (cases "s = fl_completed_through st + 1")
    case False
    have "failures_inv (Lane_Latch Error s ''buffer completion sequence mismatch'' st) log"
      by (rule failures_Latch[OF fi]) (use s hi in simp_all)
    with False s c log show ?thesis
      by (simp add: Lane_Complete_def lane_inv_def lane_log_def counters_Latch Let_def)
  next
    case True
    define st1 where "st1 = st\<lparr>fl_completed_through := s\<rparr>"
    define ok where "ok \<longleftrightarrow> f = None \<or> f = Some Ok"
    have "fl_completed_through st \<noteq> - 1" using True s(1) by auto
    then have u: "unat s = Suc (unat (fl_completed_through st))"
      using True word_succ_bounds(1) by simp
    have "of_nat (Suc (unat (fl_completed_through st))) = s" using True by simp
    then have log': "map fst (log @ [(s, ok)]) = numbered (unat s)"
      using log u by (simp only: numbered_Suc map_append list.map fst_conv)
    have c1: "counters_inv st1" using c s by (simp add: st1_def counters_inv_def)
    have step: "Lane_Complete s f st = (if ok then st1
        else Lane_Latch (the f) s ''covered buffer application failed'' st1)"
      using True s(2) by (auto simp: Lane_Complete_def st1_def ok_def Let_def not_less)
    have "lane_log (LComplete s f) st = [(s, ok)]" using True s(2) by (simp add: lane_log_def ok_def)
    moreover have "lane_inv (Lane_Complete s f st) (log @ [(s, ok)])"
    proof (cases ok)
      case True
      then have "failures_inv st1 (log @ [(s, ok)])"
        using fi by (auto simp: failures_inv_def st1_def split: option.splits)
      with True c1 log' show ?thesis by (simp add: step lane_inv_def st1_def)
    next
      case False
      then have f: "the f \<noteq> Ok" "IsWireStatus (the f)" using s(3) by (auto simp: ok_def)
      have "failures_inv (Lane_Latch (the f) s ''covered buffer application failed'' st1) (log @ [(s, ok)])"
        by (rule failures_Latch[OF fi]) (use f s hi in \<open>simp_all add: st1_def\<close>)
      with False c1 log' show ?thesis by (simp add: step lane_inv_def counters_Latch) (simp add: st1_def)
    qed
    ultimately show ?thesis by simp
  qed
qed

lemma lane_step_inv:
  assumes "lane_inv st log" "lane_event_ok st ev"
  shows "lane_inv (lane_step ev st) (log @ lane_log ev st)"
proof (cases ev)
  case (LAdmit s)
  with assms Admit_inv show ?thesis by (simp add: lane_step_def lane_log_def lane_event_ok_def)
next
  case (LComplete s f)
  with assms Complete_inv_lane show ?thesis by (simp add: lane_step_def)
next
  case (LRejected s status d)
  have "failures_inv (Lane_Latch status s d (observe s st)) log"
    by (rule failures_Latch[of st log])
      (use assms LRejected in \<open>simp_all add: lane_inv_def lane_event_ok_def le_max_iff_disj\<close>)
  with assms LRejected show ?thesis
    by (simp add: lane_step_def lane_log_def Lane_RecordRejected_def lane_inv_def counters_Latch counters_observe)
next
  case (LOverflow s)
  define st1 where "st1 = observe s st"
  have i: "failures_inv st log" "s \<noteq> 0" using assms LOverflow by (simp_all add: lane_inv_def lane_event_ok_def)
  have "failures_inv (Lane_RecordOverflow s st) log"
  proof (cases "fl_reservation_exhausted st \<or> s \<le> fl_reserved_through st")
    case True
    have "failures_inv (Lane_Latch Error s ''buffer dispatch overflow on an observed sequence'' st1) log"
      by (rule failures_Latch[OF i(1)]) (use i in \<open>simp_all add: st1_def le_max_iff_disj\<close>)
    with True show ?thesis by (simp add: Lane_RecordOverflow_def st1_def)
  next
    case False
    then have lt: "fl_reserved_through st < s" by auto
    note b = word_succ_bounds[OF word_no_wrap[OF lt]]
    have "failures_inv (Lane_Latch OutcomeUnknown (fl_reserved_through st + 1) ''buffer dispatch capacity exceeded'' st1) log"
      by (rule failures_Latch[OF i(1)]) (use b lt in \<open>simp_all add: st1_def le_max_iff_disj\<close>)
    with False show ?thesis by (simp add: Lane_RecordOverflow_def st1_def Let_def)
  qed
  moreover have "counters_inv (Lane_RecordOverflow s st)"
    using assms by (simp add: Lane_RecordOverflow_def lane_inv_def counters_Latch counters_observe Let_def)
  ultimately show ?thesis
    using assms LOverflow by (simp add: lane_step_def lane_log_def lane_inv_def) (simp add: Lane_RecordOverflow_def Let_def)
next
  case (LMalformed m)
  have i: "failures_inv st log" "m \<noteq> Some 0" using assms LMalformed by (simp_all add: lane_inv_def lane_event_ok_def)
  have "failures_inv (Lane_RecordMalformed m st) log"
    unfolding Lane_RecordMalformed_def
    by (cases m) (use i in \<open>auto intro!: failures_Latch[OF i(1)] simp: le_max_iff_disj\<close>)
  moreover have "counters_inv (Lane_RecordMalformed m st)"
    using assms by (cases m) (simp_all add: Lane_RecordMalformed_def lane_inv_def counters_Latch counters_observe)
  ultimately show ?thesis
    using assms LMalformed by (cases m) (simp_all add: lane_step_def lane_log_def lane_inv_def Lane_RecordMalformed_def)
qed

lemma lane_reach_inv: "lane_reach st log \<Longrightarrow> lane_inv st log"
  by (induction rule: lane_reach.induct) (simp_all add: lane_inv_init lane_step_inv)

section \<open>Verdicts\<close>

lemma Evaluate_ok_iff:
  assumes "lane_inv st log"
  shows "ar_status (Lane_Evaluate n d st) = Ok \<longleftrightarrow>
    fl_first_failure st = None \<and> fl_completed_through st = n \<and> fl_highest_observed st = n"
proof (cases "fl_first_failure st")
  case None
  have "fl_completed_through st \<le> fl_highest_observed st"
    using assms order_trans unfolding lane_inv_def counters_inv_def by blast
  then show ?thesis
    using None by (auto simp: Lane_Evaluate_def FenceOkResult_def Let_def not_less)
next
  case (Some f)
  then have f: "failure_ok (fl_highest_observed st) f"
    using assms by (simp add: lane_inv_def failures_inv_def)
  show ?thesis
  proof (cases "fff_sequence f = kAckNoFailedSequence \<or> fff_sequence f \<le> n")
    case True
    with Some f show ?thesis by (auto simp: Lane_Evaluate_def failure_ok_def Let_def)
  next
    case False
    with f have "n < fl_highest_observed st" by (auto simp: failure_ok_def not_le)
    with Some False show ?thesis by (simp add: Lane_Evaluate_def Let_def)
  qed
qed

lemma lane_log_complete:
  assumes "lane_inv st log" "fl_first_failure st = None"
  shows "log = map (\<lambda>s. (s, True)) (numbered (unat (fl_completed_through st)))"
proof -
  have s: "list_all snd log" using assms by (simp add: lane_inv_def failures_inv_def)
  have "log = map (\<lambda>s. (s, True)) (map fst log)"
    using s by (induction log) auto
  with assms(1) show ?thesis by (simp add: lane_inv_def)
qed

lemma length_numbered [simp]: "length (numbered n) = n"
  by (simp add: numbered_def)

lemma wire_message_ok [simp]: "IsValidUtf8 ''''"
  by (simp add: IsValidUtf8_def)

lemma fence_result_valid:
  assumes "ar_operation_kind r = OpFence" "ar_applied_count r = 0" "ar_failed_index r = kAckNoFailedIndex"
    "IsWireStatus (ar_status r)" "IsValidUtf8 (ar_message r)" "length (ar_message r) \<le> 1024"
    "ar_failed_sequence r = kAckNoFailedSequence \<or>
       (ar_failed_sequence r \<noteq> 0 \<and> ar_failed_sequence r \<le> ar_through_sequence r)"
  shows "ack_result_valid r"
proof -
  have "ValidateAckCommon (ar_status r) (ar_message r) = Inr ()"
    using assms by (simp add: ValidateAckCommon_def kAckResultMaxMessageLength_def Result_Ok_def)
  moreover have "ValidateAckFence r = Inr ()"
    using assms by (auto simp: ValidateAckFence_def Result_Ok_def not_le)
  ultimately show ?thesis using assms(1) by (simp add: ack_result_valid_def ValidateAckResult_def IsOk_def)
qed

lemma wire_Ok [simp]: "IsWireStatus Ok"
  by (simp add: IsWireStatus_def)

lemma Evaluate_valid:
  assumes "lane_inv st log"
  shows "ack_result_valid (Lane_Evaluate n d st)"
proof -
  have f: "failure_ok (fl_highest_observed st) f" if "fl_first_failure st = Some f" for f
    using assms that by (simp add: lane_inv_def failures_inv_def)
  have c: "fl_completed_through st + 1 \<noteq> 0" "fl_completed_through st + 1 \<le> n"
    if "fl_completed_through st < n"
    using word_succ_bounds(3,4)[OF word_no_wrap[OF that]] that by simp_all
  show ?thesis
    using f c by (intro fence_result_valid) (auto simp: Lane_Evaluate_def FenceOkResult_def
        failure_ok_def Let_def)
qed

section \<open>Properties\<close>

text \<open>C28: a fence through \<open>n\<close> succeeds exactly when the lane accepted the completions of
  1, 2, ..., n in this order, each successful, recorded no failure, and observed no sequence
  beyond \<open>n\<close>; so a successful fence proves the whole prefix and nothing is claimed over a
  gap, a duplicate, a rejection or an overflow.\<close>

theorem fence_ok_iff_prefix_applied:
  assumes "lane_reach st log"
  shows "ar_status (Lane_Evaluate n d st) = Ok \<longleftrightarrow>
    fl_first_failure st = None \<and> fl_highest_observed st = n \<and>
    log = map (\<lambda>s. (s, True)) (numbered (unat n))"
proof -
  note inv = lane_reach_inv[OF assms]
  show ?thesis
  proof
    assume "ar_status (Lane_Evaluate n d st) = Ok"
    then have "fl_first_failure st = None" "fl_completed_through st = n" "fl_highest_observed st = n"
      using Evaluate_ok_iff[OF inv] by simp_all
    with lane_log_complete[OF inv] show "fl_first_failure st = None \<and> fl_highest_observed st = n \<and>
        log = map (\<lambda>s. (s, True)) (numbered (unat n))" by simp
  next
    assume a: "fl_first_failure st = None \<and> fl_highest_observed st = n \<and>
        log = map (\<lambda>s. (s, True)) (numbered (unat n))"
    then have "length log = unat n" by (metis length_map length_numbered)
    moreover have "length log = unat (fl_completed_through st)"
      using a lane_log_complete[OF inv] by (metis length_map length_numbered)
    ultimately have "fl_completed_through st = n" by (metis word_unat_eq_iff)
    with a show "ar_status (Lane_Evaluate n d st) = Ok" using Evaluate_ok_iff[OF inv] by simp
  qed
qed

lemma example_lane: "lane_reach (lane_step (LComplete 1 None) (lane_step (LAdmit 1) FenceLaneInit)) [(1, True)]"
proof -
  have a: "lane_reach (lane_step (LAdmit 1) FenceLaneInit) ([] @ lane_log (LAdmit 1) FenceLaneInit)"
    by (rule lane_reach.lane_step[OF lane_init]) (simp add: lane_event_ok_def)
  have b: "lane_event_ok (lane_step (LAdmit 1) FenceLaneInit) (LComplete 1 None)"
    by (simp add: lane_event_ok_def lane_step_def Lane_Admit_def observe_def FenceLaneInit_def Let_def)
  from lane_reach.lane_step[OF a b] show ?thesis
    by (simp add: lane_log_def lane_step_def Lane_Admit_def observe_def FenceLaneInit_def Let_def)
qed

theorem fence_ok_iff_prefix_applied_witness:
  "ar_status (Lane_Evaluate 1 Applied (lane_step (LComplete 1 None) (lane_step (LAdmit 1) FenceLaneInit))) = Ok"
  using fence_ok_iff_prefix_applied[OF example_lane, of 1 Applied]
  by (simp add: numbered_def lane_step_def Lane_Complete_def Lane_Admit_def observe_def FenceLaneInit_def Let_def)

text \<open>Every verdict is a result the acknowledgement codec accepts: a wire status, a sanitised
  UTF-8 message of at most 1024 bytes, and a failed sequence within 1 .. through.\<close>

theorem fence_verdict_valid:
  assumes "lane_reach st log"
  shows "ack_result_valid (Lane_Evaluate n d st)"
  using Evaluate_valid[OF lane_reach_inv[OF assms]] .

theorem fence_verdict_valid_witness:
  "ack_result_valid (Lane_Evaluate 7 Synced (lane_step (LComplete 1 None) (lane_step (LAdmit 1) FenceLaneInit)))"
  by (rule fence_verdict_valid[OF example_lane])

text \<open>The first failure is sticky.  Once a lane has latched a failure, every later call keeps
  it, and no fence on the lane succeeds again before a reset.\<close>

theorem lane_failure_sticky:
  assumes "lane_reach st log" and "lane_event_ok st ev" and "fl_first_failure st = Some f"
  shows "fl_first_failure (lane_step ev st) = Some f \<and> ar_status (Lane_Evaluate n d (lane_step ev st)) \<noteq> Ok"
proof -
  have "fl_first_failure (lane_step ev st) = Some f"
    using assms(3) by (cases ev) (auto simp: lane_step_def Lane_Admit_def Lane_Complete_def
        Lane_RecordRejected_def Lane_RecordOverflow_def Lane_RecordMalformed_def Let_def split: option.split)
  moreover have "lane_inv (lane_step ev st) (log @ lane_log ev st)"
    using lane_step_inv[OF lane_reach_inv[OF assms(1)] assms(2)] .
  ultimately show ?thesis using Evaluate_ok_iff by simp
qed

theorem lane_failure_sticky_witness:
  "\<exists>st f. fl_first_failure st = Some f \<and> fl_first_failure (lane_step (LAdmit 1) st) = Some f"
proof -
  let ?st = "lane_step (LMalformed None) FenceLaneInit"
  have r: "lane_reach ?st ([] @ lane_log (LMalformed None) FenceLaneInit)"
    by (rule lane_reach.lane_step[OF lane_init]) (simp add: lane_event_ok_def)
  obtain f where f: "fl_first_failure ?st = Some f"
    by (simp add: lane_step_def Lane_RecordMalformed_def FenceLaneInit_def)
  have "lane_event_ok ?st (LAdmit 1)" by (simp add: lane_event_ok_def)
  from lane_failure_sticky[OF r this f] f show ?thesis by blast
qed

end
