(* ===== verification/FenceDispatch.thy ===== *)
theory FenceDispatch
  imports Prelude
begin

text \<open>
  The ticket lane that serialises buffer dispatch and the coordinator in front of it,
  \<open>FenceDispatchLane\<close> and \<open>FenceDispatchCoordinator\<close> of \<open>src/fence.cpp\<close>.  A lease is its
  ticket.  \<open>WaitTurn\<close> is the condition it waits for; blocking calls are split into the
  part before the wait and the condition of the wait.  The step relation interleaves
  entering, serving and closing in any order.
\<close>

section \<open>The ticket lane\<close>

record DispatchLane =
  dl_capacity :: nat
  dl_next_ticket :: u64
  dl_serving_ticket :: u64
  dl_admitted :: nat
  dl_accepting :: bool

definition kDefaultLaneCapacity :: nat where
  "kDefaultLaneCapacity = 256"

definition NewDispatchLane :: "nat \<Rightarrow> DispatchLane" where
  "NewDispatchLane capacity = \<lparr>dl_capacity = capacity, dl_next_ticket = 0, dl_serving_ticket = 0,
     dl_admitted = 0, dl_accepting = True\<rparr>"

definition TryEnter :: "DispatchLane \<Rightarrow> DispatchLane \<times> u64 option" where
  "TryEnter l =
    (if \<not> dl_accepting l \<or> dl_admitted l = dl_capacity l then (l, None)
     else (l\<lparr>dl_next_ticket := dl_next_ticket l + 1, dl_admitted := dl_admitted l + 1\<rparr>,
           Some (dl_next_ticket l)))"

definition LeaseHasTurn :: "u64 \<Rightarrow> DispatchLane \<Rightarrow> bool" where
  "LeaseHasTurn ticket l \<longleftrightarrow> ticket = dl_serving_ticket l"

definition LeaseRelease :: "DispatchLane \<Rightarrow> DispatchLane" where
  "LeaseRelease l = l\<lparr>dl_serving_ticket := dl_serving_ticket l + 1, dl_admitted := dl_admitted l - 1\<rparr>"

definition LaneClose :: "DispatchLane \<Rightarrow> DispatchLane" where
  "LaneClose l = l\<lparr>dl_accepting := False\<rparr>"

definition LaneDrained :: "DispatchLane \<Rightarrow> bool" where
  "LaneDrained l \<longleftrightarrow> dl_admitted l = 0"

definition HasCapacity :: "DispatchLane \<Rightarrow> bool" where
  "HasCapacity l \<longleftrightarrow> dl_accepting l \<and> dl_admitted l < dl_capacity l"

section \<open>The coordinator\<close>

record RegistrationState =
  rs_accepting :: bool
  rs_admitted :: nat

record Coordinator =
  co_lane :: DispatchLane
  co_registrations :: "nat \<rightharpoonup> RegistrationState"

datatype Outcome = OAdmitted | ORejected | OOverflow | OClosed

definition Register :: "nat \<Rightarrow> Coordinator \<Rightarrow> Coordinator" where
  "Register r c = c\<lparr>co_registrations := (co_registrations c)(r \<mapsto> \<lparr>rs_accepting = True, rs_admitted = 0\<rparr>)\<rparr>"

text \<open>
  \<open>Dispatch\<close> runs under the admission mutex.  The callbacks act on a state of their own;
  the result carries the entry (its ticket) when one was admitted.
\<close>

definition Dispatch :: "nat \<Rightarrow> ('s \<Rightarrow> 's \<times> bool) \<Rightarrow> ('s \<Rightarrow> 's) \<Rightarrow> Coordinator \<Rightarrow> 's \<Rightarrow>
    Coordinator \<times> 's \<times> Outcome \<times> u64 option" where
  "Dispatch r prepare overflow c s =
    (case co_registrations c r of
       None \<Rightarrow> (c, s, OClosed, None)
     | Some reg \<Rightarrow>
         if \<not> rs_accepting reg then (c, s, OClosed, None)
         else if \<not> HasCapacity (co_lane c) then (c, overflow s, OOverflow, None)
         else (case prepare s of
           (s', False) \<Rightarrow> (c, s', ORejected, None)
         | (s', True) \<Rightarrow>
             (case TryEnter (co_lane c) of
                (l, None) \<Rightarrow> (c\<lparr>co_lane := l\<rparr>, s', OOverflow, None)
              | (l, Some ticket) \<Rightarrow>
                  (c\<lparr>co_lane := l, co_registrations := (co_registrations c)(r \<mapsto>
                       reg\<lparr>rs_admitted := rs_admitted reg + 1\<rparr>)\<rparr>, s', OAdmitted, Some ticket))))"

definition EntryRelease :: "nat \<Rightarrow> Coordinator \<Rightarrow> Coordinator" where
  "EntryRelease r c = c\<lparr>co_lane := LeaseRelease (co_lane c),
     co_registrations := (case co_registrations c r of
       None \<Rightarrow> co_registrations c
     | Some reg \<Rightarrow> (co_registrations c)(r \<mapsto> reg\<lparr>rs_admitted := rs_admitted reg - 1\<rparr>))\<rparr>"

definition CloseRegistration :: "nat \<Rightarrow> Coordinator \<Rightarrow> Coordinator" where
  "CloseRegistration r c = (case co_registrations c r of
     None \<Rightarrow> c
   | Some reg \<Rightarrow> c\<lparr>co_registrations := (co_registrations c)(r \<mapsto> reg\<lparr>rs_accepting := False\<rparr>)\<rparr>)"

definition RegistrationDrained :: "nat \<Rightarrow> Coordinator \<Rightarrow> bool" where
  "RegistrationDrained r c = (case co_registrations c r of None \<Rightarrow> True | Some reg \<Rightarrow> rs_admitted reg = 0)"

section \<open>Interleavings of the lane\<close>

text \<open>The state of the system: the lane and the outstanding leases in the order of issue.\<close>

inductive dispatch_step :: "DispatchLane \<times> u64 list \<Rightarrow> DispatchLane \<times> u64 list \<Rightarrow> bool" where
  enter: "TryEnter l = (l', Some t) \<Longrightarrow> dispatch_step (l, q) (l', q @ [t])"
| refuse: "TryEnter l = (l', None) \<Longrightarrow> dispatch_step (l, q) (l', q)"
| serve: "t \<in> set q \<Longrightarrow> LeaseHasTurn t l \<Longrightarrow> dispatch_step (l, q) (LeaseRelease l, remove1 t q)"
| close: "dispatch_step (l, q) (LaneClose l, q)"

inductive_cases dispatch_stepE: "dispatch_step (l, q) s'"

inductive dispatch_reach :: "nat \<Rightarrow> DispatchLane \<times> u64 list \<Rightarrow> bool" for capacity where
  start: "dispatch_reach capacity (NewDispatchLane capacity, [])"
| step: "dispatch_reach capacity s \<Longrightarrow> dispatch_step s s' \<Longrightarrow> dispatch_reach capacity s'"

definition tickets :: "u64 \<Rightarrow> nat \<Rightarrow> u64 list" where
  "tickets first n = map (\<lambda>i. first + of_nat i) [0..<n]"

definition dispatch_inv :: "nat \<Rightarrow> DispatchLane \<times> u64 list \<Rightarrow> bool" where
  "dispatch_inv capacity s = (case s of (l, q) \<Rightarrow>
     dl_capacity l = capacity \<and> dl_admitted l \<le> capacity \<and>
     dl_next_ticket l = dl_serving_ticket l + of_nat (dl_admitted l) \<and>
     q = tickets (dl_serving_ticket l) (dl_admitted l))"

lemma length_tickets [simp]: "length (tickets f n) = n"
  by (simp add: tickets_def)

lemma tickets_Suc: "tickets f (Suc n) = tickets f n @ [f + of_nat n]"
  by (simp add: tickets_def)

lemma tickets_Cons: "tickets f (Suc n) = f # tickets (f + 1) n"
  by (simp add: tickets_def upt_conv_Cons map_Suc_upt[symmetric] comp_def add.assoc del: upt_Suc)

lemma tickets_distinct:
  assumes "n \<le> 2 ^ 64"
  shows "distinct (tickets f n)"
proof -
  have "inj_on (\<lambda>i. f + of_nat i :: u64) {0..<n}"
  proof (rule inj_onI)
    fix i j assume ij: "i \<in> {0..<n}" "j \<in> {0..<n}" "f + of_nat i = f + (of_nat j :: u64)"
    then have u: "unat (of_nat i :: u64) = unat (of_nat j :: u64)" by simp
    have "i < 2 ^ 64" "j < 2 ^ 64" using ij assms by auto
    with u show "i = j" by (simp only: unat_of_nat) simp
  qed
  then show ?thesis by (simp add: tickets_def distinct_map)
qed

lemma dispatch_step_inv:
  assumes "dispatch_step s s'" "dispatch_inv capacity s"
  shows "dispatch_inv capacity s'"
  using assms
proof (induction rule: dispatch_step.induct)
  case (enter l l' t q)
  then show ?case by (auto simp: TryEnter_def dispatch_inv_def tickets_Suc add.assoc split: if_splits)
next
  case (serve t q l)
  then obtain n where n: "dl_admitted l = Suc n"
    by (cases "dl_admitted l") (auto simp: dispatch_inv_def tickets_def)
  with serve show ?case
    by (auto simp: dispatch_inv_def LeaseRelease_def LeaseHasTurn_def tickets_Cons add.assoc)
qed (auto simp: TryEnter_def dispatch_inv_def LaneClose_def split: if_splits)

lemma dispatch_reach_inv: "dispatch_reach capacity s \<Longrightarrow> dispatch_inv capacity s"
proof (induction rule: dispatch_reach.induct)
  case start
  then show ?case by (simp add: dispatch_inv_def NewDispatchLane_def tickets_def)
qed (rule dispatch_step_inv)

lemma closed_stays:
  "dispatch_step (l, q) (l', q') \<Longrightarrow> \<not> dl_accepting l \<Longrightarrow>
     \<not> dl_accepting l' \<and> length q' \<le> length q"
  by (erule dispatch_stepE) (auto simp: TryEnter_def LeaseRelease_def LaneClose_def length_remove1)

section \<open>Properties\<close>

text \<open>In every interleaving the lane admits at most its capacity of leases, and serves them
  first in, first out: as long as leases are outstanding exactly one of them, the oldest,
  has its turn, so the lane never deadlocks and never reorders.\<close>

theorem dispatch_fifo:
  assumes "dispatch_reach capacity (l, q)" and "capacity \<le> 2 ^ 64"
  shows "length q = dl_admitted l \<and> length q \<le> capacity \<and> distinct q \<and>
    (q \<noteq> [] \<longrightarrow> (\<forall>t\<in>set q. LeaseHasTurn t l \<longleftrightarrow> t = hd q) \<and> LeaseHasTurn (hd q) l)"
proof -
  from dispatch_reach_inv[OF assms(1)] have i: "q = tickets (dl_serving_ticket l) (dl_admitted l)"
    "dl_admitted l \<le> capacity" by (simp_all add: dispatch_inv_def)
  have "hd q = dl_serving_ticket l" if "q \<noteq> []"
    using that i(1) by (cases "dl_admitted l") (simp_all add: tickets_Cons, simp add: tickets_def)
  then show ?thesis
    using i assms(2) by (auto simp: LeaseHasTurn_def tickets_distinct)
qed

theorem dispatch_fifo_witness:
  "\<exists>l q. dispatch_reach 2 (l, q) \<and> length q = 2 \<and> LeaseHasTurn (hd q) l"
proof -
  let ?l1 = "fst (TryEnter (NewDispatchLane 2))" and ?l2 = "fst (TryEnter (fst (TryEnter (NewDispatchLane 2))))"
  have "dispatch_step (NewDispatchLane 2, []) (?l1, [] @ [0])"
    by (rule enter) (simp add: TryEnter_def NewDispatchLane_def)
  with start have r1: "dispatch_reach 2 (?l1, [] @ [0])" by (rule step)
  have "dispatch_step (?l1, [] @ [0]) (?l2, ([] @ [0]) @ [1])"
    by (rule enter) (simp add: TryEnter_def NewDispatchLane_def)
  with r1 have r2: "dispatch_reach 2 (?l2, ([] @ [0]) @ [1])" by (rule step)
  from dispatch_fifo[OF r2] r2 show ?thesis by fastforce
qed

text \<open>Dispatch is all or nothing.  When the preparation callback has run and accepted, the
  entry is always admitted, never lost to an overflow; the overflow callback runs exactly
  when there was no capacity, and then the preparation does not; a closed registration runs
  neither.\<close>

theorem dispatch_all_or_nothing:
  "Dispatch r prepare overflow c s = (c', s', out, entry) \<longrightarrow>
    (out = OAdmitted \<longleftrightarrow> entry \<noteq> None) \<and>
    (case out of
       OAdmitted \<Rightarrow> prepare s = (s', True) \<and> dl_admitted (co_lane c') = dl_admitted (co_lane c) + 1
     | ORejected \<Rightarrow> prepare s = (s', False) \<and> c' = c
     | OOverflow \<Rightarrow> \<not> HasCapacity (co_lane c) \<and> s' = overflow s \<and> c' = c
     | OClosed \<Rightarrow> s' = s \<and> c' = c)"
  by (auto simp: Dispatch_def TryEnter_def HasCapacity_def split: option.splits prod.splits bool.splits if_splits)

theorem dispatch_all_or_nothing_witness:
  "fst (snd (snd (Dispatch 0 (\<lambda>n. (Suc n, True)) (\<lambda>n. n)
     (Register 0 \<lparr>co_lane = NewDispatchLane 1, co_registrations = Map.empty\<rparr>) (5::nat)))) = OAdmitted \<and>
   fst (snd (Dispatch 0 (\<lambda>n. (Suc n, True)) (\<lambda>n. n)
     (Register 0 \<lparr>co_lane = NewDispatchLane 1, co_registrations = Map.empty\<rparr>) (5::nat))) = 6"
proof -
  let ?c = "Register 0 \<lparr>co_lane = NewDispatchLane 1, co_registrations = Map.empty\<rparr>"
  obtain c' s' out entry where r: "Dispatch 0 (\<lambda>n. (Suc n, True)) (\<lambda>n. n) ?c (5::nat) = (c', s', out, entry)"
    by (cases "Dispatch 0 (\<lambda>n. (Suc n, True)) (\<lambda>n. n) ?c (5::nat)") auto
  then have "out = OAdmitted"
    by (simp add: Dispatch_def Register_def NewDispatchLane_def HasCapacity_def TryEnter_def)
  with dispatch_all_or_nothing[THEN mp, OF r] r show ?thesis by simp
qed

end
