(* ===== verification/FenceReceiver.thy ===== *)
theory FenceReceiver
  imports FenceLane "HOL-Library.AList"
begin

text \<open>
  The node's receiver registry, \<open>FenceReceiverRegistry\<close> of \<open>src/fence.cpp\<close>: one
  \<open>FenceLaneState\<close> per session, session generation, buffer class and publisher, bounded in
  number; a scope that could not get a lane is poisoned.  The hash tables are association
  lists keyed by the code's composed strings.
\<close>

record FenceReceiverRegistry =
  fr_capacity :: nat
  fr_lanes :: "(string \<times> FenceLaneState) list"
  fr_poisoned_scopes :: "(string \<times> bool) list"

definition NewReceiver :: "nat \<Rightarrow> FenceReceiverRegistry" where
  "NewReceiver capacity = \<lparr>fr_capacity = capacity, fr_lanes = [], fr_poisoned_scopes = []\<rparr>"

definition LaneKey :: "string \<Rightarrow> FenceUuid \<Rightarrow> BufferClass \<Rightarrow> FenceUuid \<Rightarrow> string" where
  "LaneKey sid session_generation buffer_class publisher_uuid =
     sid @ ''|'' @ FormatFenceUuid session_generation @ ''|'' @ BufferClassName buffer_class @ ''|'' @
     FormatFenceUuid publisher_uuid"

definition ScopeKey :: "string \<Rightarrow> FenceUuid \<Rightarrow> BufferClass \<Rightarrow> string" where
  "ScopeKey sid session_generation buffer_class =
     sid @ ''|'' @ FormatFenceUuid session_generation @ ''|'' @ BufferClassName buffer_class"

text \<open>The lookup three operations share: find the lane, or create it while there is room, or
  poison the scope.\<close>

definition FindOrCreateLane :: "string \<Rightarrow> string \<Rightarrow> FenceReceiverRegistry \<Rightarrow>
    FenceReceiverRegistry \<times> FenceLaneState option" where
  "FindOrCreateLane key scope rg = (case map_of (fr_lanes rg) key of
     Some lane \<Rightarrow> (rg, Some lane)
   | None \<Rightarrow>
       if length (fr_lanes rg) = fr_capacity rg
       then (rg\<lparr>fr_poisoned_scopes := AList.update scope True (fr_poisoned_scopes rg)\<rparr>, None)
       else (rg\<lparr>fr_lanes := AList.update key FenceLaneInit (fr_lanes rg)\<rparr>, Some FenceLaneInit))"

definition set_lane :: "string \<Rightarrow> FenceLaneState \<Rightarrow> FenceReceiverRegistry \<Rightarrow> FenceReceiverRegistry" where
  "set_lane key lane rg = rg\<lparr>fr_lanes := AList.update key lane (fr_lanes rg)\<rparr>"

definition AdmitBufferObservation :: "string \<Rightarrow> FenceUuid \<Rightarrow> BufferClass \<Rightarrow> FenceUuid \<Rightarrow> u64 \<Rightarrow>
    FenceReceiverRegistry \<Rightarrow> FenceReceiverRegistry \<times> bool" where
  "AdmitBufferObservation sid gen bc pub sequence rg =
    (let key = LaneKey sid gen bc pub in
     case FindOrCreateLane key (ScopeKey sid gen bc) rg of
       (rg, None) \<Rightarrow> (rg, False)
     | (rg, Some lane) \<Rightarrow>
         (case Lane_Admit sequence lane of (lane', ok) \<Rightarrow> (set_lane key lane' rg, ok)))"

definition CompleteBufferObservation :: "string \<Rightarrow> FenceUuid \<Rightarrow> BufferClass \<Rightarrow> FenceUuid \<Rightarrow> u64 \<Rightarrow>
    Status option \<Rightarrow> FenceReceiverRegistry \<Rightarrow> FenceReceiverRegistry" where
  "CompleteBufferObservation sid gen bc pub sequence failure rg =
    (let key = LaneKey sid gen bc pub in
     case map_of (fr_lanes rg) key of
       None \<Rightarrow> rg
     | Some lane \<Rightarrow> set_lane key (Lane_Complete sequence failure lane) rg)"

definition RecordBufferObservation :: "string \<Rightarrow> FenceUuid \<Rightarrow> BufferClass \<Rightarrow> FenceUuid \<Rightarrow> u64 \<Rightarrow>
    Status option \<Rightarrow> FenceReceiverRegistry \<Rightarrow> FenceReceiverRegistry \<times> bool" where
  "RecordBufferObservation sid gen bc pub sequence failure rg =
    (case AdmitBufferObservation sid gen bc pub sequence rg of
       (rg, False) \<Rightarrow> (rg, False)
     | (rg, True) \<Rightarrow> (CompleteBufferObservation sid gen bc pub sequence failure rg, True))"

definition RecordMalformedBuffer :: "string \<Rightarrow> FenceUuid \<Rightarrow> BufferClass \<Rightarrow> FenceUuid option \<Rightarrow>
    u64 option \<Rightarrow> FenceReceiverRegistry \<Rightarrow> FenceReceiverRegistry \<times> bool" where
  "RecordMalformedBuffer sid gen bc publisher sequence rg = (case publisher of
     None \<Rightarrow> (rg, False)
   | Some pub \<Rightarrow>
       (let key = LaneKey sid gen bc pub in
        case FindOrCreateLane key (ScopeKey sid gen bc) rg of
          (rg, None) \<Rightarrow> (rg, False)
        | (rg, Some lane) \<Rightarrow> (set_lane key (Lane_RecordMalformed sequence lane) rg, True)))"

definition RecordBufferOverflow :: "string \<Rightarrow> FenceUuid \<Rightarrow> BufferClass \<Rightarrow> FenceUuid \<Rightarrow> u64 \<Rightarrow>
    FenceReceiverRegistry \<Rightarrow> FenceReceiverRegistry \<times> bool" where
  "RecordBufferOverflow sid gen bc pub sequence rg =
    (let key = LaneKey sid gen bc pub in
     case FindOrCreateLane key (ScopeKey sid gen bc) rg of
       (rg, None) \<Rightarrow> (rg, False)
     | (rg, Some lane) \<Rightarrow> (set_lane key (Lane_RecordOverflow sequence lane) rg, True))"

definition EvaluateBuffer :: "string \<Rightarrow> FenceUuid \<Rightarrow> BufferClass \<Rightarrow> FenceUuid \<Rightarrow> AckDurability \<Rightarrow> u64 \<Rightarrow>
    FenceReceiverRegistry \<Rightarrow> AckResultV1" where
  "EvaluateBuffer sid gen bc pub durability through_sequence rg =
    (case map_of (fr_lanes rg) (LaneKey sid gen bc pub) of
       Some lane \<Rightarrow> Lane_Evaluate through_sequence durability lane
     | None \<Rightarrow>
         (let result = FenceOkResult through_sequence durability;
              poisoned = map_of (fr_poisoned_scopes rg) (ScopeKey sid gen bc) = Some True in
          if through_sequence > 0 then
            result\<lparr>ar_status := OutcomeUnknown, ar_failed_sequence := 1,
              ar_message := SanitizeFenceDiagnostic (if poisoned
                then ''buffer receiver lane capacity exceeded''
                else ''covered buffer sequence was not observed'')\<rparr>
          else if poisoned then
            result\<lparr>ar_status := OutcomeUnknown,
              ar_message := SanitizeFenceDiagnostic ''buffer receiver lane capacity exceeded''\<rparr>
          else result))"

definition belongs_to_session :: "string \<Rightarrow> string \<Rightarrow> bool" where
  "belongs_to_session sid key \<longleftrightarrow>
     length key > length sid \<and> take (length sid) key = sid \<and> key ! length sid = CHR ''|''"

definition EraseSession :: "string \<Rightarrow> FenceReceiverRegistry \<Rightarrow> FenceReceiverRegistry" where
  "EraseSession sid rg = rg\<lparr>
     fr_lanes := filter (\<lambda>(key, _). \<not> belongs_to_session sid key) (fr_lanes rg),
     fr_poisoned_scopes := filter (\<lambda>(key, _). \<not> belongs_to_session sid key) (fr_poisoned_scopes rg)\<rparr>"

definition ClearReceiver :: "FenceReceiverRegistry \<Rightarrow> FenceReceiverRegistry" where
  "ClearReceiver rg = rg\<lparr>fr_lanes := [], fr_poisoned_scopes := []\<rparr>"

definition ReceiverSize :: "FenceReceiverRegistry \<Rightarrow> nat" where
  "ReceiverSize rg = length (fr_lanes rg)"

section \<open>Lane keys identify lanes\<close>

lemma bar_notin_sid: "IsValidSessionId sid \<Longrightarrow> CHR ''|'' \<notin> set sid"
  by (auto simp: IsValidSessionId_def IsValidId_def list_all_iff IsValidIdChar_def isalnum_def)

lemma bar_notin_uuid: "CHR ''|'' \<notin> set (FormatFenceUuid u)"
  using Format_chars[of "CHR ''|''" u] by (auto simp: kHexDigits_def)

lemma bar_notin_class: "CHR ''|'' \<notin> set (BufferClassName bc)"
  by (simp add: BufferClassName_def)

lemma FormatFenceUuid_inject:
  "fence_uuid_wf u \<Longrightarrow> fence_uuid_wf v \<Longrightarrow> FormatFenceUuid u = FormatFenceUuid v \<longleftrightarrow> u = v"
  using token_codec.enc_inject[of u v]
  by (simp add: fence_uuid_wf_def IsValidFenceUuid_def FormatFenceUuid_def)

lemma BufferClassName_inject: "BufferClassName a = BufferClassName b \<longleftrightarrow> a = b"
  by (metis option.inject parse_class_name)

lemma LaneKey_inject:
  assumes "IsValidSessionId s" "IsValidSessionId s'" "fence_uuid_wf g" "fence_uuid_wf g'"
    "fence_uuid_wf p" "fence_uuid_wf p'"
  shows "LaneKey s g b p = LaneKey s' g' b' p' \<longleftrightarrow> s = s' \<and> g = g' \<and> b = b' \<and> p = p'"
  using assms by (auto simp: LaneKey_def sep_unique bar_notin_sid bar_notin_uuid bar_notin_class
      FormatFenceUuid_inject BufferClassName_inject)

lemma belongs_to_session_iff:
  assumes "IsValidSessionId sid" "IsValidSessionId sid'"
  shows "belongs_to_session sid (sid' @ CHR ''|'' # rest) \<longleftrightarrow> sid = sid'"
proof
  assume b: "belongs_to_session sid (sid' @ CHR ''|'' # rest)"
  let ?key = "sid' @ CHR ''|'' # rest"
  from b have "?key = sid @ CHR ''|'' # drop (Suc (length sid)) ?key"
    unfolding belongs_to_session_def using id_take_nth_drop by metis
  then show "sid = sid'"
    using sep_unique[OF bar_notin_sid[OF assms(2)] bar_notin_sid[OF assms(1)]] by metis
next
  assume "sid = sid'"
  then show "belongs_to_session sid (sid' @ CHR ''|'' # rest)"
    by (simp add: belongs_to_session_def)
qed

lemma belongs_LaneKey:
  assumes "IsValidSessionId sid" "IsValidSessionId sid'"
  shows "belongs_to_session sid (LaneKey sid' g b p) \<longleftrightarrow> sid = sid'"
  unfolding LaneKey_def using belongs_to_session_iff[OF assms] by simp

section \<open>The registry invariant\<close>

definition lane_good :: "FenceLaneState \<Rightarrow> bool" where
  "lane_good lane \<longleftrightarrow> (\<exists>log. lane_inv lane log)"

definition receiver_inv :: "FenceReceiverRegistry \<Rightarrow> bool" where
  "receiver_inv rg \<longleftrightarrow> length (fr_lanes rg) \<le> fr_capacity rg \<and>
     (\<forall>key lane. map_of (fr_lanes rg) key = Some lane \<longrightarrow> lane_good lane)"

lemma length_update_present: "map_of al k = Some v \<Longrightarrow> length (AList.update k w al) = length al"
  by (induction al) (auto split: if_splits)

lemma length_update_absent: "map_of al k = None \<Longrightarrow> length (AList.update k w al) = Suc (length al)"
  by (induction al) (auto split: if_splits)

lemma lanes_set_lane [simp]:
  "map_of (fr_lanes (set_lane key lane rg)) = (map_of (fr_lanes rg))(key \<mapsto> lane)"
  "fr_capacity (set_lane key lane rg) = fr_capacity rg"
  "fr_poisoned_scopes (set_lane key lane rg) = fr_poisoned_scopes rg"
  by (simp_all add: set_lane_def update_conv')

lemma set_lane_inv:
  assumes "receiver_inv rg" "map_of (fr_lanes rg) key = Some old" "lane_good lane"
  shows "receiver_inv (set_lane key lane rg)"
proof -
  have "length (fr_lanes (set_lane key lane rg)) = length (fr_lanes rg)"
    using assms(2) by (simp add: set_lane_def length_update_present)
  with assms(1,3) show ?thesis by (simp add: receiver_inv_def)
qed

lemma lane_good_init: "lane_good FenceLaneInit"
  using lane_inv_init lane_good_def by blast

lemma FindOrCreate_cases:
  assumes "FindOrCreateLane key scope rg = (rg', found)"
  obtains (hit) lane where "map_of (fr_lanes rg) key = Some lane" "rg' = rg" "found = Some lane"
  | (full) "map_of (fr_lanes rg) key = None" "length (fr_lanes rg) = fr_capacity rg" "found = None"
      "rg' = rg\<lparr>fr_poisoned_scopes := AList.update scope True (fr_poisoned_scopes rg)\<rparr>"
  | (fresh) "map_of (fr_lanes rg) key = None" "length (fr_lanes rg) \<noteq> fr_capacity rg"
      "found = Some FenceLaneInit" "rg' = set_lane key FenceLaneInit rg"
  using assms unfolding FindOrCreateLane_def set_lane_def
  by (cases "map_of (fr_lanes rg) key"; cases "length (fr_lanes rg) = fr_capacity rg") auto

lemma FindOrCreate_lanes:
  assumes "FindOrCreateLane key scope rg = (rg', found)"
  shows "map_of (fr_lanes rg') = (case found of None \<Rightarrow> map_of (fr_lanes rg)
    | Some lane \<Rightarrow> (map_of (fr_lanes rg))(key \<mapsto> lane))"
  using assms by (cases rule: FindOrCreate_cases) (auto simp: fun_eq_iff)

lemma FindOrCreate_inv:
  assumes "receiver_inv rg" "FindOrCreateLane key scope rg = (rg', found)"
  shows "receiver_inv rg' \<and> fr_capacity rg' = fr_capacity rg \<and>
    (\<forall>lane. found = Some lane \<longrightarrow> map_of (fr_lanes rg') key = Some lane \<and> lane_good lane)"
  using assms(2)
proof (cases rule: FindOrCreate_cases)
  case fresh
  then have "length (fr_lanes rg') = Suc (length (fr_lanes rg))"
    by (simp add: set_lane_def length_update_absent)
  with fresh assms(1) show ?thesis by (simp add: receiver_inv_def lane_good_init)
qed (use assms(1) in \<open>auto simp: receiver_inv_def\<close>)

section \<open>Histories of the registry\<close>

datatype ReceiverEvent =
    RAdmit string FenceUuid BufferClass FenceUuid u64
  | RComplete string FenceUuid BufferClass FenceUuid u64 "Status option"
  | RMalformed string FenceUuid BufferClass "FenceUuid option" "u64 option"
  | ROverflow string FenceUuid BufferClass FenceUuid u64
  | RErase string
  | RClear

definition receiver_step :: "ReceiverEvent \<Rightarrow> FenceReceiverRegistry \<Rightarrow> FenceReceiverRegistry" where
  "receiver_step ev rg = (case ev of
     RAdmit s g b p q \<Rightarrow> fst (AdmitBufferObservation s g b p q rg)
   | RComplete s g b p q f \<Rightarrow> CompleteBufferObservation s g b p q f rg
   | RMalformed s g b p q \<Rightarrow> fst (RecordMalformedBuffer s g b p q rg)
   | ROverflow s g b p q \<Rightarrow> fst (RecordBufferOverflow s g b p q rg)
   | RErase s \<Rightarrow> EraseSession s rg
   | RClear \<Rightarrow> ClearReceiver rg)"

text \<open>The callers' discipline, per lane as in \<open>lane_event_ok\<close>.\<close>

definition receiver_event_ok :: "FenceReceiverRegistry \<Rightarrow> ReceiverEvent \<Rightarrow> bool" where
  "receiver_event_ok rg ev = (case ev of
     RAdmit s g b p q \<Rightarrow> q \<noteq> 0
   | RComplete s g b p q f \<Rightarrow> (case map_of (fr_lanes rg) (LaneKey s g b p) of
       None \<Rightarrow> True | Some lane \<Rightarrow> lane_event_ok lane (LComplete q f))
   | RMalformed s g b p q \<Rightarrow> q \<noteq> Some 0
   | ROverflow s g b p q \<Rightarrow> q \<noteq> 0
   | RErase s \<Rightarrow> True
   | RClear \<Rightarrow> True)"

inductive receiver_reach :: "nat \<Rightarrow> FenceReceiverRegistry \<Rightarrow> bool" where
  receiver_new: "receiver_reach capacity (NewReceiver capacity)"
| receiver_event: "receiver_reach capacity rg \<Longrightarrow> receiver_event_ok rg ev \<Longrightarrow>
    receiver_reach capacity (receiver_step ev rg)"

lemma map_of_filter_key: "map_of (filter (\<lambda>(k, _). P k) al) k = (if P k then map_of al k else None)"
  by (induction al) auto

lemma lane_event_good: "lane_good lane \<Longrightarrow> lane_event_ok lane ev \<Longrightarrow> lane_good (lane_step ev lane)"
  unfolding lane_good_def using lane_step_inv by blast

lemma on_lane_inv:
  assumes "receiver_inv rg" "FindOrCreateLane key scope rg = (rg', Some lane)"
    "lane_event_ok lane ev"
  shows "receiver_inv (set_lane key (lane_step ev lane) rg')"
  using set_lane_inv FindOrCreate_inv[OF assms(1,2)] lane_event_good[OF _ assms(3)] by blast

lemma capacity_FindOrCreate: "FindOrCreateLane key scope rg = (rg', found) \<Longrightarrow> fr_capacity rg' = fr_capacity rg"
  by (erule FindOrCreate_cases) auto

lemma receiver_step_inv:
  assumes "receiver_inv rg" "receiver_event_ok rg ev"
  shows "receiver_inv (receiver_step ev rg) \<and> fr_capacity (receiver_step ev rg) = fr_capacity rg"
proof (cases ev)
  case (RAdmit s g b p q)
  obtain rg' found where f: "FindOrCreateLane (LaneKey s g b p) (ScopeKey s g b) rg = (rg', found)" by fastforce
  show ?thesis
  proof (cases found)
    case None
    with RAdmit f FindOrCreate_inv[OF assms(1) f] show ?thesis
      by (simp add: receiver_step_def AdmitBufferObservation_def)
  next
    case (Some lane)
    have "lane_event_ok lane (LAdmit q)" using assms(2) RAdmit by (simp add: receiver_event_ok_def lane_event_ok_def)
    from on_lane_inv[OF assms(1) f[unfolded Some] this] RAdmit f Some capacity_FindOrCreate[OF f] show ?thesis
      by (simp add: receiver_step_def AdmitBufferObservation_def lane_step_def Let_def case_prod_beta)
  qed
next
  case (RComplete s g b p q f)
  show ?thesis
  proof (cases "map_of (fr_lanes rg) (LaneKey s g b p)")
    case None
    with assms(1) RComplete show ?thesis by (simp add: receiver_step_def CompleteBufferObservation_def)
  next
    case (Some lane)
    have "lane_event_ok lane (LComplete q f)" using assms(2) RComplete Some by (simp add: receiver_event_ok_def)
    moreover have "lane_good lane" using assms(1) Some unfolding receiver_inv_def by blast
    ultimately have "lane_good (lane_step (LComplete q f) lane)" by (rule lane_event_good[rotated])
    from set_lane_inv[OF assms(1) Some this] RComplete Some show ?thesis
      by (simp add: receiver_step_def CompleteBufferObservation_def lane_step_def Let_def)
  qed
next
  case (RMalformed s g b p q)
  show ?thesis
  proof (cases p)
    case None
    with assms(1) RMalformed show ?thesis by (simp add: receiver_step_def RecordMalformedBuffer_def)
  next
    case (Some pub)
    obtain rg' found where f: "FindOrCreateLane (LaneKey s g b pub) (ScopeKey s g b) rg = (rg', found)" by fastforce
    show ?thesis
    proof (cases found)
      case None
      with RMalformed f Some FindOrCreate_inv[OF assms(1) f] show ?thesis
        by (simp add: receiver_step_def RecordMalformedBuffer_def)
    next
      case (Some lane)
      have "lane_event_ok lane (LMalformed q)"
        using assms(2) RMalformed by (simp add: receiver_event_ok_def lane_event_ok_def)
      from on_lane_inv[OF assms(1) f[unfolded Some] this] RMalformed f Some \<open>p = Some pub\<close>
        capacity_FindOrCreate[OF f] show ?thesis
        by (simp add: receiver_step_def RecordMalformedBuffer_def lane_step_def Let_def)
    qed
  qed
next
  case (ROverflow s g b p q)
  obtain rg' found where f: "FindOrCreateLane (LaneKey s g b p) (ScopeKey s g b) rg = (rg', found)" by fastforce
  show ?thesis
  proof (cases found)
    case None
    with ROverflow f FindOrCreate_inv[OF assms(1) f] show ?thesis
      by (simp add: receiver_step_def RecordBufferOverflow_def)
  next
    case (Some lane)
    have "lane_event_ok lane (LOverflow q)" using assms(2) ROverflow by (simp add: receiver_event_ok_def lane_event_ok_def)
    from on_lane_inv[OF assms(1) f[unfolded Some] this] ROverflow f Some capacity_FindOrCreate[OF f] show ?thesis
      by (simp add: receiver_step_def RecordBufferOverflow_def lane_step_def Let_def)
  qed
next
  case (RErase s)
  have "length (fr_lanes (EraseSession s rg)) \<le> length (fr_lanes rg)"
    by (simp add: EraseSession_def)
  with RErase assms(1) show ?thesis
    by (auto simp: receiver_step_def receiver_inv_def EraseSession_def map_of_filter_key split: if_splits
        intro: order_trans[OF length_filter_le])
next
  case RClear
  with assms(1) show ?thesis by (simp add: receiver_step_def ClearReceiver_def receiver_inv_def)
qed

lemma receiver_reach_inv: "receiver_reach capacity rg \<Longrightarrow> receiver_inv rg \<and> fr_capacity rg = capacity"
proof (induction rule: receiver_reach.induct)
  case (receiver_new capacity)
  show ?case by (simp add: NewReceiver_def receiver_inv_def)
next
  case (receiver_event capacity rg ev)
  then show ?case using receiver_step_inv by simp
qed

section \<open>What an operation leaves alone\<close>

lemma FindOrCreate_other [simp]:
  "k \<noteq> key \<Longrightarrow> map_of (fr_lanes (fst (FindOrCreateLane key scope rg))) k = map_of (fr_lanes rg) k"
  using FindOrCreate_lanes[of key scope rg "fst (FindOrCreateLane key scope rg)" "snd (FindOrCreateLane key scope rg)"]
  by (simp split: option.split_asm)

lemma Admit_other: "k \<noteq> LaneKey s g b p \<Longrightarrow>
    map_of (fr_lanes (fst (AdmitBufferObservation s g b p q rg))) k = map_of (fr_lanes rg) k"
  by (simp add: AdmitBufferObservation_def Let_def case_prod_beta split: option.split)

lemma Complete_other: "k \<noteq> LaneKey s g b p \<Longrightarrow>
    map_of (fr_lanes (CompleteBufferObservation s g b p q f rg)) k = map_of (fr_lanes rg) k"
  by (simp add: CompleteBufferObservation_def Let_def split: option.split)

lemma Overflow_other: "k \<noteq> LaneKey s g b p \<Longrightarrow>
    map_of (fr_lanes (fst (RecordBufferOverflow s g b p q rg))) k = map_of (fr_lanes rg) k"
  by (simp add: RecordBufferOverflow_def Let_def case_prod_beta split: option.split)

lemma Malformed_other: "\<forall>p. pub = Some p \<longrightarrow> k \<noteq> LaneKey s g b p \<Longrightarrow>
    map_of (fr_lanes (fst (RecordMalformedBuffer s g b pub q rg))) k = map_of (fr_lanes rg) k"
  by (auto simp: RecordMalformedBuffer_def Let_def case_prod_beta split: option.split)

text \<open>The lane an event is addressed to.\<close>

definition event_lane :: "ReceiverEvent \<Rightarrow> (string \<times> FenceUuid \<times> BufferClass \<times> FenceUuid) option" where
  "event_lane ev = (case ev of
     RAdmit s g b p q \<Rightarrow> Some (s, g, b, p)
   | RComplete s g b p q f \<Rightarrow> Some (s, g, b, p)
   | RMalformed s g b p q \<Rightarrow> map_option (\<lambda>p. (s, g, b, p)) p
   | ROverflow s g b p q \<Rightarrow> Some (s, g, b, p)
   | _ \<Rightarrow> None)"

definition lane_id_wf :: "string \<times> FenceUuid \<times> BufferClass \<times> FenceUuid \<Rightarrow> bool" where
  "lane_id_wf = (\<lambda>(s, g, b, p). IsValidSessionId s \<and> fence_uuid_wf g \<and> fence_uuid_wf p)"

lemma receiver_step_other:
  assumes "\<forall>s g b p. event_lane ev = Some (s, g, b, p) \<longrightarrow> k \<noteq> LaneKey s g b p"
    "\<forall>s. ev \<noteq> RErase s" "ev \<noteq> RClear"
  shows "map_of (fr_lanes (receiver_step ev rg)) k = map_of (fr_lanes rg) k"
  using assms
  by (cases ev) (simp_all add: receiver_step_def event_lane_def Admit_other Complete_other Overflow_other Malformed_other)

lemma EvaluateBuffer_valid:
  assumes "receiver_inv rg"
  shows "ack_result_valid (EvaluateBuffer sid gen bc pub durability n rg)"
proof (cases "map_of (fr_lanes rg) (LaneKey sid gen bc pub)")
  case None
  moreover have "1 \<le> n" if "0 < n" using inc_le[OF that] by simp
  ultimately show ?thesis
    by (intro fence_result_valid) (simp_all add: EvaluateBuffer_def FenceOkResult_def Let_def Sanitize_ok)
next
  case (Some lane)
  then obtain log where "lane_inv lane log" using assms unfolding receiver_inv_def lane_good_def by blast
  with Some Evaluate_valid show ?thesis by (simp add: EvaluateBuffer_def)
qed

text \<open>A successful verdict has the shape of a fresh success.\<close>

lemma EvaluateBuffer_Ok:
  "ar_status (EvaluateBuffer sid gen bc pub durability n rg) = Ok \<Longrightarrow> receiver_inv rg \<Longrightarrow>
     EvaluateBuffer sid gen bc pub durability n rg = FenceOkResult n durability"
proof (cases "map_of (fr_lanes rg) (LaneKey sid gen bc pub)")
  case None
  assume "ar_status (EvaluateBuffer sid gen bc pub durability n rg) = Ok"
  with None show ?thesis by (auto simp: EvaluateBuffer_def Let_def FenceOkResult_def split: if_splits)
next
  case (Some lane)
  assume ok: "ar_status (EvaluateBuffer sid gen bc pub durability n rg) = Ok" and "receiver_inv rg"
  then obtain log where "lane_inv lane log" using Some unfolding receiver_inv_def lane_good_def by blast
  then have "\<And>f. fl_first_failure lane = Some f \<Longrightarrow> fff_status f \<noteq> Ok"
    by (auto simp: lane_inv_def failures_inv_def failure_ok_def)
  with ok Some show ?thesis
    by (auto simp: EvaluateBuffer_def Lane_Evaluate_def Let_def FenceOkResult_def split: if_splits)
qed

section \<open>Properties\<close>

text \<open>Whatever observations, overflows, malformed attachments and session erasures reach the
  registry, it never holds more lanes than its capacity, and the verdict it gives for any lane
  and any fence is a result the wire encoder accepts.\<close>

theorem receiver_bounded:
  assumes "receiver_reach capacity rg"
  shows "ReceiverSize rg \<le> capacity \<and> ack_result_valid (EvaluateBuffer sid gen bc pub durability n rg)"
  using receiver_reach_inv[OF assms] EvaluateBuffer_valid by (auto simp: ReceiverSize_def receiver_inv_def)

text \<open>Lanes are isolated: an observation, completion, malformed attachment or overflow on one
  lane leaves the recorded state of every other lane unchanged, where a lane is a session, a
  session generation, a buffer class and a publisher; no two of them share a key.\<close>

theorem receiver_lane_isolation:
  assumes "event_lane ev = Some l" "lane_id_wf l" "lane_id_wf (s', g', b', p')" "l \<noteq> (s', g', b', p')"
  shows "map_of (fr_lanes (receiver_step ev rg)) (LaneKey s' g' b' p') =
    map_of (fr_lanes rg) (LaneKey s' g' b' p')"
proof (rule receiver_step_other)
  show "\<forall>s g b p. event_lane ev = Some (s, g, b, p) \<longrightarrow> LaneKey s' g' b' p' \<noteq> LaneKey s g b p"
    using assms LaneKey_inject by (auto simp: lane_id_wf_def)
  show "\<forall>s. ev \<noteq> RErase s" "ev \<noteq> RClear" using assms(1) by (auto simp: event_lane_def)
qed

text \<open>Erasing a session removes exactly its lanes and its poisoned scopes: afterwards a fence
  of that session is answered as for a fresh registry, and every fence of another session,
  even one whose id extends the erased id, is answered as before.\<close>

theorem EraseSession_exact:
  assumes "IsValidSessionId sid" "IsValidSessionId sid'"
  shows "EvaluateBuffer sid' gen bc pub durability n (EraseSession sid rg) =
    EvaluateBuffer sid' gen bc pub durability n
      (if sid' = sid then NewReceiver (fr_capacity rg) else rg)"
proof -
  have lane: "map_of (fr_lanes (EraseSession sid rg)) (LaneKey sid' gen bc pub) =
      (if sid = sid' then None else map_of (fr_lanes rg) (LaneKey sid' gen bc pub))"
    using belongs_LaneKey[OF assms] by (simp add: EraseSession_def map_of_filter_key)
  have "belongs_to_session sid (ScopeKey sid' gen bc) \<longleftrightarrow> sid = sid'"
    unfolding ScopeKey_def using belongs_to_session_iff[OF assms] by simp
  then have "map_of (fr_poisoned_scopes (EraseSession sid rg)) (ScopeKey sid' gen bc) =
      (if sid = sid' then None else map_of (fr_poisoned_scopes rg) (ScopeKey sid' gen bc))"
    by (simp add: EraseSession_def map_of_filter_key)
  with lane show ?thesis by (cases "sid = sid'") (simp_all add: EvaluateBuffer_def NewReceiver_def Let_def split: option.split)
qed

theorem receiver_bounded_witness:
  "ReceiverSize (receiver_step (RAdmit ''s1'' example_uuid Durable example_uuid 1) (NewReceiver 1)) \<le> 1"
proof -
  have "receiver_reach 1 (receiver_step (RAdmit ''s1'' example_uuid Durable example_uuid 1) (NewReceiver 1))"
    by (rule receiver_event[OF receiver_new]) (simp add: receiver_event_ok_def)
  from receiver_bounded[OF this] show ?thesis by blast
qed

lemma example_lane_id: "lane_id_wf (''s1'', example_uuid, b, example_uuid)"
  "lane_id_wf (''s10'', example_uuid, b, example_uuid)"
  using example_uuid_valid by (simp_all add: lane_id_wf_def fence_uuid_wf_def IsValidFenceUuid_def
      IsValidSessionId_def IsValidId_def IsValidIdChar_def isalnum_def)

theorem receiver_lane_isolation_witness:
  "map_of (fr_lanes (receiver_step (ROverflow ''s1'' example_uuid Durable example_uuid 7) (NewReceiver 1)))
     (LaneKey ''s10'' example_uuid Durable example_uuid) = None"
  using receiver_lane_isolation[of "ROverflow ''s1'' example_uuid Durable example_uuid 7" _
      "''s10''" example_uuid Durable example_uuid "NewReceiver 1"] example_lane_id
  by (simp add: event_lane_def NewReceiver_def)

definition example_registry :: FenceReceiverRegistry where
  "example_registry = receiver_step (RAdmit ''s10'' example_uuid Durable example_uuid 1) (NewReceiver 1)"

theorem EraseSession_exact_witness:
  "EvaluateBuffer ''s10'' example_uuid Durable example_uuid Applied 1 (EraseSession ''s1'' example_registry) =
   EvaluateBuffer ''s10'' example_uuid Durable example_uuid Applied 1 example_registry"
  using EraseSession_exact[of "''s1''" "''s10''" example_uuid Durable example_uuid Applied 1 example_registry]
    example_lane_id by (simp add: lane_id_wf_def)

end
