(* ===== verification/FlatJson.thy ===== *)
theory FlatJson
  imports FenceCodec
begin

text \<open>
  The flat canonical JSON of the durable session catalog, \<open>FlatJsonReader\<close> of
  \<open>src/session_catalog.cpp\<close>: one object of string, integer, boolean or null members without
  whitespace or escapes.  The reader is compared with a printer: it accepts exactly the texts
  the printer makes, so every object has one spelling.  The reader's position is the text that
  is left from \<open>at_\<close> on.
\<close>

section \<open>Reader\<close>

datatype JsonValue = JNull | JText string | JInt int | JBool bool

type_synonym JsonMember = "string \<times> JsonValue"

definition IsPlainText :: "string \<Rightarrow> bool" where
  "IsPlainText s = list_all (\<lambda>c. let u = of_char c :: nat in
     \<not> (u < 0x20 \<or> u \<ge> 0x7f \<or> c = CHR 0x22 \<or> c = CHR 0x5C)) s"

definition Take :: "char \<Rightarrow> string \<Rightarrow> string option" where
  "Take expected s = (if s = [] \<or> hd s \<noteq> expected then None else Some (tl s))"

definition TakeWord :: "string \<Rightarrow> string \<Rightarrow> string option" where
  "TakeWord word s = (if take (length word) s \<noteq> word then None else Some (drop (length word) s))"

definition TakeString :: "string \<Rightarrow> (string \<times> string) option" where
  "TakeString s = (case Take (CHR 0x22) s of
     None \<Rightarrow> None
   | Some s \<Rightarrow>
       if CHR 0x22 \<notin> set s then None
       else let content = takeWhile (\<lambda>c. c \<noteq> CHR 0x22) s in
         if \<not> IsPlainText content then None
         else Some (content, tl (dropWhile (\<lambda>c. c \<noteq> CHR 0x22) s)))"

definition int64_range :: "int \<Rightarrow> bool" where
  "int64_range n \<longleftrightarrow> - (2 ^ 63) \<le> n \<and> n < 2 ^ 63"

definition TakeInteger :: "string \<Rightarrow> (int \<times> string) option" where
  "TakeInteger s =
    (let minus = (s \<noteq> [] \<and> hd s = CHR ''-'');
         body = (if minus then tl s else s);
         digits = takeWhile isdigit body;
         number = (if minus then - int (digits_value digits) else int (digits_value digits)) in
     if digits = [] \<or> (length digits > 1 \<and> hd digits = CHR ''0'') \<or>
        (minus \<and> length digits = 1 \<and> hd digits = CHR ''0'') then None
     else if \<not> int64_range number then None
     else Some (number, dropWhile isdigit body))"

definition TakeValue :: "string \<Rightarrow> (JsonValue \<times> string) option" where
  "TakeValue s =
    (if s \<noteq> [] \<and> hd s = CHR 0x22 then map_option (\<lambda>(t, rest). (JText t, rest)) (TakeString s)
     else case TakeWord ''null'' s of Some rest \<Rightarrow> Some (JNull, rest)
   | None \<Rightarrow> (case TakeWord ''true'' s of Some rest \<Rightarrow> Some (JBool True, rest)
   | None \<Rightarrow> (case TakeWord ''false'' s of Some rest \<Rightarrow> Some (JBool False, rest)
   | None \<Rightarrow> map_option (\<lambda>(n, rest). (JInt n, rest)) (TakeInteger s))))"

text \<open>One iteration of the member loop up to its value.\<close>

definition TakeMember :: "string \<Rightarrow> (JsonMember \<times> string) option" where
  "TakeMember s = (case TakeString s of
     None \<Rightarrow> None
   | Some (name, s) \<Rightarrow> (case Take (CHR '':'') s of
       None \<Rightarrow> None
     | Some s \<Rightarrow> (case TakeValue s of
         None \<Rightarrow> None
       | Some (v, rest) \<Rightarrow> Some ((name, v), rest))))"

lemma Take_Some: "Take c s = Some r \<longleftrightarrow> s = c # r"
  by (cases s) (auto simp: Take_def)

lemma Take_Cons [simp]: "Take c (c # r) = Some r" "d \<noteq> c \<Longrightarrow> Take c (d # r) = None"
  by (simp_all add: Take_def)

lemma TakeWord_Some: "TakeWord w s = Some r \<longleftrightarrow> s = w @ r"
  by (auto simp: TakeWord_def) (metis append_take_drop_id)

lemma TakeString_Some: "TakeString s = Some (t, r) \<longleftrightarrow>
    s = CHR 0x22 # t @ CHR 0x22 # r \<and> IsPlainText t"
proof
  assume l: "TakeString s = Some (t, r)"
  then obtain s1 where s1: "s = CHR 0x22 # s1" "CHR 0x22 \<in> set s1"
    "t = takeWhile (\<lambda>c. c \<noteq> CHR 0x22) s1" "IsPlainText t"
    "r = tl (dropWhile (\<lambda>c. c \<noteq> CHR 0x22) s1)"
    by (auto simp: TakeString_def Take_Some Let_def split: option.splits if_splits)
  have "dropWhile (\<lambda>c. c \<noteq> CHR 0x22) s1 \<noteq> []" using s1(2) by (simp add: dropWhile_eq_Nil_conv)
  then obtain d where d: "dropWhile (\<lambda>c. c \<noteq> CHR 0x22) s1 = d # r"
    unfolding s1(5) by (metis list.collapse)
  have "s1 = t @ CHR 0x22 # r" unfolding s1(3) using dropWhile_sepD[OF d] by (rule conjunct2)
  with s1(1,4) show "s = CHR 0x22 # t @ CHR 0x22 # r \<and> IsPlainText t" by simp
next
  assume r: "s = CHR 0x22 # t @ CHR 0x22 # r \<and> IsPlainText t"
  then have "CHR 0x22 \<notin> set t" by (auto simp: IsPlainText_def list_all_iff)
  then show "TakeString s = Some (t, r)"
    using r by (simp add: TakeString_def takeWhile_sep dropWhile_sep)
qed

lemma length_TakeInteger: "TakeInteger s = Some (n, r) \<Longrightarrow> length r \<le> length s"
  by (auto simp: TakeInteger_def Let_def dest: arg_cong[of _ _ length] split: if_splits
      intro: order_trans[OF length_dropWhile_le])

lemma length_TakeValue: "TakeValue s = Some (v, r) \<Longrightarrow> length r \<le> length s"
  using length_TakeInteger[of s]
  by (auto simp: TakeValue_def TakeWord_Some TakeString_Some split: if_splits option.splits)

lemma length_TakeMember: "TakeMember s = Some (m, r) \<Longrightarrow> length r < length s"
  by (auto simp: TakeMember_def Take_Some TakeString_Some split: option.splits prod.splits dest!: length_TakeValue)

text \<open>The member loop: each round reads a member and then the closing brace or a comma.\<close>

function ReadMembers :: "JsonMember list \<Rightarrow> string \<Rightarrow> (JsonMember list \<times> string) option" where
  "ReadMembers members s = (case TakeMember s of
     None \<Rightarrow> None
   | Some (m, rest) \<Rightarrow> (case Take (CHR ''}'') rest of
       Some rest' \<Rightarrow> Some (members @ [m], rest')
     | None \<Rightarrow> (case Take (CHR '','') rest of
         None \<Rightarrow> None
       | Some rest' \<Rightarrow> ReadMembers (members @ [m]) rest')))"
  by pat_completeness auto
termination
  by (relation "measure (\<lambda>(_, s). length s)") (auto simp: Take_Some dest!: length_TakeMember)

declare ReadMembers.simps [simp del]

definition ParseFlatObject :: "string \<Rightarrow> JsonMember list option" where
  "ParseFlatObject s = (case Take (CHR ''{'') s of
     None \<Rightarrow> None
   | Some s \<Rightarrow>
       (case (case Take (CHR ''}'') s of Some rest \<Rightarrow> Some ([], rest) | None \<Rightarrow> ReadMembers [] s) of
          None \<Rightarrow> None
        | Some (members, rest) \<Rightarrow> if rest \<noteq> [] then None else Some members))"

section \<open>Printer\<close>

definition Quote :: "string \<Rightarrow> string" where
  "Quote s = CHR 0x22 # s @ [CHR 0x22]"

definition NullableText :: "string \<Rightarrow> string" where
  "NullableText s = (if s = [] then ''null'' else Quote s)"

definition int_to_string :: "int \<Rightarrow> string" where
  "int_to_string n = (if n < 0 then CHR ''-'' # to_string (nat (- n)) else to_string (nat n))"

fun render_value :: "JsonValue \<Rightarrow> string" where
  "render_value JNull = ''null''"
| "render_value (JText t) = Quote t"
| "render_value (JInt n) = int_to_string n"
| "render_value (JBool b) = (if b then ''true'' else ''false'')"

definition render_member :: "JsonMember \<Rightarrow> string" where
  "render_member m = Quote (fst m) @ '':'' @ render_value (snd m)"

fun render_members :: "JsonMember list \<Rightarrow> string" where
  "render_members [] = ''''"
| "render_members [m] = render_member m"
| "render_members (m # n # ms) = render_member m @ '','' @ render_members (n # ms)"

definition render_object :: "JsonMember list \<Rightarrow> string" where
  "render_object ms = ''{'' @ render_members ms @ ''}''"

fun json_value_wf :: "JsonValue \<Rightarrow> bool" where
  "json_value_wf (JText t) = IsPlainText t"
| "json_value_wf (JInt n) = int64_range n"
| "json_value_wf _ = True"

definition json_member_wf :: "JsonMember \<Rightarrow> bool" where
  "json_member_wf m \<longleftrightarrow> IsPlainText (fst m) \<and> json_value_wf (snd m)"

section \<open>The reader accepts exactly what the printer makes\<close>

lemma takeWhile_digits: "list_all isdigit d \<Longrightarrow> rest = [] \<or> \<not> isdigit (hd rest) \<Longrightarrow>
    takeWhile isdigit (d @ rest) = d \<and> dropWhile isdigit (d @ rest) = rest"
  by (induction d) (cases rest; auto)+

lemma minus_not_digit [simp]: "\<not> isdigit (CHR ''-'')"
  by (simp add: isdigit_def)

lemma to_string_head: "to_string n = c # cs \<Longrightarrow> isdigit c"
  using to_string_digits[of n] by simp

lemma to_string_zero: "to_string n = ''0'' \<Longrightarrow> n = 0"
  using digits_value_to_string[of n] by (simp add: digits_value_def)

lemma TakeInteger_render:
  assumes "int64_range n" "rest = [] \<or> \<not> isdigit (hd rest)"
  shows "TakeInteger (int_to_string n @ rest) = Some (n, rest)"
proof -
  let ?d = "to_string (nat \<bar>n\<bar>)"
  have d: "?d \<noteq> []" "list_all isdigit ?d" "length ?d > 1 \<longrightarrow> hd ?d \<noteq> CHR ''0''"
    using to_string_digits to_string_canonical by (auto simp: to_string_nonempty)
  then have h: "hd ?d \<noteq> CHR ''-''" by (metis hd_in_set list_all_iff minus_not_digit)
  have z: "n = 0" if "length ?d = 1" "hd ?d = CHR ''0''"
  proof -
    from that have "?d = ''0''" by (cases ?d) auto
    from to_string_zero[OF this] show ?thesis by simp
  qed
  note t = takeWhile_digits[OF d(2) assms(2)]
  show ?thesis
  proof (cases "n < 0")
    case True
    then have e: "int_to_string n = CHR ''-'' # ?d" by (simp add: int_to_string_def)
    from True z have "\<not> (length ?d = 1 \<and> hd ?d = CHR ''0'')" by auto
    with True assms(1) d(1,3) t show ?thesis by (simp add: TakeInteger_def e Let_def)
  next
    case False
    then have e: "int_to_string n = ?d" by (simp add: int_to_string_def)
    have "hd (?d @ rest) \<noteq> CHR ''-''" using h d(1) by simp
    with False assms(1) d(1,3) t show ?thesis by (simp add: TakeInteger_def e Let_def)
  qed
qed

lemma TakeInteger_sound:
  assumes "TakeInteger s = Some (n, r)"
  shows "int64_range n \<and> s = int_to_string n @ r"
proof -
  define minus where "minus \<longleftrightarrow> s \<noteq> [] \<and> hd s = CHR ''-''"
  define body where "body = (if minus then tl s else s)"
  define d where "d = takeWhile isdigit body"
  from assms have d: "d \<noteq> []" "length d > 1 \<longrightarrow> hd d \<noteq> CHR ''0''" "\<not> (minus \<and> length d = 1 \<and> hd d = CHR ''0'')"
    and n: "n = (if minus then - int (digits_value d) else int (digits_value d))" "int64_range n"
    and r: "r = dropWhile isdigit body"
    unfolding TakeInteger_def Let_def minus_def[symmetric] body_def[symmetric] d_def[symmetric]
    by (auto split: if_splits)
  have dig: "list_all isdigit d" by (simp add: d_def list_all_iff) (metis set_takeWhileD)
  have ts: "to_string (digits_value d) = d" using to_string_digits_value[OF d(1) dig d(2)] .
  have body: "body = d @ r" by (simp add: d_def r)
  have s: "s = (if minus then CHR ''-'' # body else body)" by (cases s) (auto simp: body_def minus_def)
  have pos: "0 < digits_value d" if minus
  proof (rule digits_value_pos[OF d(1) dig])
    show "hd d \<noteq> CHR ''0''"
    proof (cases "length d = 1")
      case True with d(3) that show ?thesis by blast
    next
      case False
      then have "length d > 1" using d(1) by (cases d) auto
      with d(2) show ?thesis by blast
    qed
  qed
  show ?thesis using n s body ts pos by (auto simp: int_to_string_def)
qed

lemma render_value_head: "json_value_wf v \<Longrightarrow> render_value v \<noteq> []"
  by (cases v) (auto simp: Quote_def int_to_string_def to_string_nonempty)

lemma int_to_string_head:
  "hd (int_to_string n @ r) \<noteq> CHR 0x22" "take 4 (int_to_string n @ r) \<noteq> ''null''"
  "take 4 (int_to_string n @ r) \<noteq> ''true''" "take 5 (int_to_string n @ r) \<noteq> ''false''"
proof -
  obtain c cs where c: "int_to_string n = c # cs" "isdigit c \<or> c = CHR ''-''"
    by (metis int_to_string_def neq_Nil_conv to_string_head to_string_nonempty)
  then have "c \<noteq> CHR 0x22" "c \<noteq> CHR ''n''" "c \<noteq> CHR ''t''" "c \<noteq> CHR ''f''"
    by (auto simp: isdigit_def)
  then show "hd (int_to_string n @ r) \<noteq> CHR 0x22" "take 4 (int_to_string n @ r) \<noteq> ''null''"
    "take 4 (int_to_string n @ r) \<noteq> ''true''" "take 5 (int_to_string n @ r) \<noteq> ''false''"
    using c(1) by (simp_all add: numeral_eq_Suc)
qed

lemma TakeValue_render:
  assumes "json_value_wf v" "rest = [] \<or> \<not> isdigit (hd rest)"
  shows "TakeValue (render_value v @ rest) = Some (v, rest)"
proof (cases v)
  case (JText t)
  with assms have "TakeString (Quote t @ rest) = Some (t, rest)" by (simp add: TakeString_Some Quote_def)
  with JText show ?thesis by (simp add: TakeValue_def Quote_def)
next
  case (JInt n)
  have "TakeWord ''null'' (int_to_string n @ rest) = None" "TakeWord ''true'' (int_to_string n @ rest) = None"
    "TakeWord ''false'' (int_to_string n @ rest) = None"
    using int_to_string_head(2-4)[of n rest] by (simp_all add: TakeWord_def numeral_eq_Suc)
  with JInt assms TakeInteger_render int_to_string_head(1)[of n rest] show ?thesis
    by (simp add: TakeValue_def)
qed (auto simp: TakeValue_def TakeWord_def)

lemma TakeValue_sound: "TakeValue s = Some (v, r) \<Longrightarrow> json_value_wf v \<and> s = render_value v @ r"
  using TakeInteger_sound[of s]
  by (auto simp: TakeValue_def TakeWord_Some TakeString_Some Quote_def split: if_splits option.splits)

lemma TakeMember_render:
  assumes "json_member_wf m" "rest = [] \<or> \<not> isdigit (hd rest)"
  shows "TakeMember (render_member m @ rest) = Some (m, rest)"
proof -
  have "TakeString (render_member m @ rest) = Some (fst m, CHR '':'' # render_value (snd m) @ rest)"
    using assms by (simp add: TakeString_Some render_member_def Quote_def json_member_wf_def)
  then show ?thesis
    using assms TakeValue_render[of "snd m" rest] by (simp add: TakeMember_def json_member_wf_def)
qed

lemma TakeMember_sound: "TakeMember s = Some (m, r) \<Longrightarrow> json_member_wf m \<and> s = render_member m @ r"
  by (auto simp: TakeMember_def TakeString_Some Take_Some render_member_def Quote_def json_member_wf_def
      split: option.splits dest!: TakeValue_sound)

lemma separators_not_digits [simp]: "\<not> isdigit (CHR ''}'')" "\<not> isdigit (CHR '','')"
  by (simp_all add: isdigit_def)

lemma ReadMembers_render:
  "ms \<noteq> [] \<Longrightarrow> list_all json_member_wf ms \<Longrightarrow>
     ReadMembers acc (render_members ms @ CHR ''}'' # r) = Some (acc @ ms, r)"
proof (induction ms arbitrary: acc rule: render_members.induct)
  case (2 m)
  then have "TakeMember (render_member m @ CHR ''}'' # r) = Some (m, CHR ''}'' # r)"
    by (intro TakeMember_render) simp_all
  then show ?case by (subst ReadMembers.simps) simp
next
  case (3 m n ms)
  then have "TakeMember (render_member m @ CHR '','' # render_members (n # ms) @ CHR ''}'' # r) =
      Some (m, CHR '','' # render_members (n # ms) @ CHR ''}'' # r)"
    by (intro TakeMember_render) simp_all
  with 3 show ?case by (subst ReadMembers.simps) simp
qed simp

lemma ReadMembers_sound:
  "ReadMembers acc s = Some (ms, r) \<Longrightarrow>
     \<exists>ms'. ms = acc @ ms' \<and> ms' \<noteq> [] \<and> list_all json_member_wf ms' \<and> s = render_members ms' @ CHR ''}'' # r"
proof (induction acc s rule: ReadMembers.induct)
  case (1 acc s)
  from 1(2) obtain m rest where m: "TakeMember s = Some (m, rest)"
    by (subst (asm) ReadMembers.simps) (auto split: option.splits)
  note ms = TakeMember_sound[OF m]
  show ?case
  proof (cases "Take (CHR ''}'') rest")
    case (Some rest')
    with 1(2) m have "ms = acc @ [m]" "r = rest'"
      by (subst (asm) ReadMembers.simps; simp)+
    with ms Some show ?thesis by (intro exI[of _ "[m]"]) (simp add: Take_Some)
  next
    case None
    with 1(2) m obtain rest' where r': "Take (CHR '','') rest = Some rest'"
      "ReadMembers (acc @ [m]) rest' = Some (ms, r)"
      by (subst (asm) ReadMembers.simps) (auto split: option.splits)
    from 1(1)[OF m refl None r'] obtain ms' where "ms = acc @ m # ms'" "ms' \<noteq> []"
      "list_all json_member_wf ms'" "rest' = render_members ms' @ CHR ''}'' # r" by auto
    with ms r'(1) show ?thesis
      by (intro exI[of _ "m # ms'"]) (cases ms'; simp add: Take_Some)
  qed
qed

lemma ParseFlatObject_iff:
  "ParseFlatObject s = Some ms \<longleftrightarrow> list_all json_member_wf ms \<and> s = render_object ms"
proof
  assume l: "ParseFlatObject s = Some ms"
  then obtain s1 where s1: "s = CHR ''{'' # s1" by (auto simp: ParseFlatObject_def Take_Some split: option.splits)
  show "list_all json_member_wf ms \<and> s = render_object ms"
  proof (cases "Take (CHR ''}'') s1")
    case None
    with l s1 have "ReadMembers [] s1 = Some (ms, [])"
      by (auto simp: ParseFlatObject_def split: option.splits if_splits)
    from ReadMembers_sound[OF this] s1 show ?thesis by (auto simp: render_object_def)
  next
    case (Some rest)
    with l s1 show ?thesis by (auto simp: ParseFlatObject_def Take_Some render_object_def split: if_splits)
  qed
next
  assume r: "list_all json_member_wf ms \<and> s = render_object ms"
  show "ParseFlatObject s = Some ms"
  proof (cases ms)
    case Nil
    with r show ?thesis by (simp add: ParseFlatObject_def render_object_def)
  next
    case (Cons m rest)
    then obtain c cs where c: "render_members ms = c # cs" "c \<noteq> CHR ''}''"
      by (cases rest) (auto simp: render_member_def Quote_def)
    have "ReadMembers [] (render_members ms @ CHR ''}'' # []) = Some ([] @ ms, [])"
      by (rule ReadMembers_render) (use r Cons in auto)
    with r c show ?thesis by (simp add: ParseFlatObject_def render_object_def)
  qed
qed

section \<open>Properties\<close>

text \<open>C34: the flat JSON reader terminates on every text and accepts exactly the texts the
  canonical printer makes: the members it returns print back to the very text it read, and
  every object of plain strings and 64-bit integers is read back.\<close>

theorem flat_json_exact:
  "ParseFlatObject s = Some ms \<longleftrightarrow> list_all json_member_wf ms \<and> s = render_object ms"
  by (rule ParseFlatObject_iff)

end
