(* ===== verification/SessionCatalog.thy ===== *)
theory SessionCatalog
  imports FlatJson Status "HOL-Library.Monad_Syntax"
begin

text \<open>
  The schema-1 record text of the durable session catalog, \<open>src/session_catalog.cpp\<close>: field
  validation, the encoder and the decoder, with the proof that the two are inverse.
\<close>

section \<open>Record text\<close>

datatype SessionLifecycleState =
  kActive | kRetained | kOrphaned | kDeleting | kDeleteFailed | kDeleted

record SessionCatalogFailure =
  cf_operation :: string
  cf_category :: string
  cf_code :: int

record SessionCatalogRecord =
  cr_sid :: string
  cr_generation_uuid :: string
  cr_state :: SessionLifecycleState
  cr_owner_instance_id :: string
  cr_durable :: bool
  cr_ephemeral :: bool
  cr_created_at :: string
  cr_retained_at :: string
  cr_orphaned_at :: string
  cr_deleting_at :: string
  cr_deleted_at :: string
  cr_failure :: "SessionCatalogFailure option"

definition IsCanonicalUuid :: "string \<Rightarrow> bool" where
  "IsCanonicalUuid s = (case ParseFenceUuid s of
     None \<Rightarrow> False
   | Some uuid \<Rightarrow> FormatFenceUuid uuid = s)"

definition DigitsInRange :: "string \<Rightarrow> nat \<Rightarrow> nat \<Rightarrow> nat \<Rightarrow> nat \<Rightarrow> bool" where
  "DigitsInRange s at width low high \<longleftrightarrow> at + width \<le> length s \<and>
     (let digits = take width (drop at s) in
      list_all isdigit digits \<and> low \<le> digits_value digits \<and> digits_value digits \<le> high)"

text \<open>\<open>std::chrono::year_month_day::ok\<close> for a four-digit year.\<close>

definition leap_year :: "nat \<Rightarrow> bool" where
  "leap_year y \<longleftrightarrow> y mod 4 = 0 \<and> (y mod 100 \<noteq> 0 \<or> y mod 400 = 0)"

definition last_day :: "nat \<Rightarrow> nat \<Rightarrow> nat" where
  "last_day y m = (if m = 2 then (if leap_year y then 29 else 28)
     else if m \<in> {4, 6, 9, 11} then 30 else 31)"

definition date_ok :: "nat \<Rightarrow> nat \<Rightarrow> nat \<Rightarrow> bool" where
  "date_ok y m d \<longleftrightarrow> 1 \<le> m \<and> m \<le> 12 \<and> 1 \<le> d \<and> d \<le> last_day y m"

definition number_at :: "string \<Rightarrow> nat \<Rightarrow> nat \<Rightarrow> nat" where
  "number_at s at width = digits_value (take width (drop at s))"

definition IsTimestamp :: "string \<Rightarrow> bool" where
  "IsTimestamp s \<longleftrightarrow> \<not> (length s < 20 \<or> last s \<noteq> CHR ''Z'') \<and>
     (DigitsInRange s 0 4 0 9999 \<and> s ! 4 = CHR ''-'' \<and> DigitsInRange s 5 2 1 12 \<and>
      s ! 7 = CHR ''-'' \<and> DigitsInRange s 8 2 1 31 \<and> s ! 10 = CHR ''T'' \<and>
      DigitsInRange s 11 2 0 23 \<and> s ! 13 = CHR '':'' \<and> DigitsInRange s 14 2 0 59 \<and>
      s ! 16 = CHR '':'' \<and> DigitsInRange s 17 2 0 60) \<and>
     date_ok (number_at s 0 4) (number_at s 5 2) (number_at s 8 2) \<and>
     (let fraction = take (length s - 19 - 1) (drop 19 s) in
      fraction = [] \<or>
      (2 \<le> length fraction \<and> length fraction \<le> 10 \<and> hd fraction = CHR ''.'' \<and> list_all isdigit (tl fraction)))"

definition IsDiagnosticWord :: "string \<Rightarrow> bool" where
  "IsDiagnosticWord s \<longleftrightarrow> s \<noteq> [] \<and> length s \<le> 32 \<and>
     list_all (\<lambda>c. (97 \<le> (of_char c :: nat) \<and> (of_char c :: nat) \<le> 122) \<or> c = CHR ''_'') s"

fun LifecycleName :: "SessionLifecycleState \<Rightarrow> string" where
  "LifecycleName kActive = ''active''"
| "LifecycleName kRetained = ''retained''"
| "LifecycleName kOrphaned = ''orphaned''"
| "LifecycleName kDeleting = ''deleting''"
| "LifecycleName kDeleteFailed = ''delete_failed''"
| "LifecycleName kDeleted = ''deleted''"

definition ParseLifecycle :: "string \<Rightarrow> SessionLifecycleState option" where
  "ParseLifecycle s =
     find (\<lambda>state. LifecycleName state = s) [kActive, kRetained, kOrphaned, kDeleting, kDeleteFailed, kDeleted]"

definition kRecordMembers :: "string list" where
  "kRecordMembers = [''schema_version'', ''sid'', ''generation_uuid'', ''state'', ''owner_instance_id'',
     ''durable'', ''ephemeral'', ''created_at'', ''retained_at'', ''orphaned_at'', ''deleting_at'',
     ''deleted_at'', ''failure_operation'', ''failure_category'', ''failure_code'']"

fun TextOrNull :: "JsonValue \<Rightarrow> string option" where
  "TextOrNull JNull = Some ''''"
| "TextOrNull (JText s) = (if s \<noteq> [] then Some s else None)"
| "TextOrNull _ = None"

definition HasLifecycleMetadata :: "SessionCatalogRecord \<Rightarrow> bool" where
  "HasLifecycleMetadata r =
    (let retained = cr_retained_at r \<noteq> []; orphaned = cr_orphaned_at r \<noteq> [];
         deleting = cr_deleting_at r \<noteq> []; deleted = cr_deleted_at r \<noteq> [];
         failure = cr_failure r \<noteq> None in
     case cr_state r of
       kActive \<Rightarrow> \<not> retained \<and> \<not> orphaned \<and> \<not> deleting \<and> \<not> deleted \<and> \<not> failure
     | kRetained \<Rightarrow> retained \<and> \<not> deleting \<and> \<not> deleted \<and> \<not> failure
     | kOrphaned \<Rightarrow> orphaned \<and> \<not> deleting \<and> \<not> deleted \<and> \<not> failure
     | kDeleting \<Rightarrow> deleting \<and> \<not> deleted
     | kDeleteFailed \<Rightarrow> deleting \<and> \<not> deleted \<and> failure
     | kDeleted \<Rightarrow> deleting \<and> deleted \<and> \<not> failure)"

definition json_field :: "string \<Rightarrow> string \<Rightarrow> string" where
  "json_field name v = Quote name @ '':'' @ v"

definition EncodeSessionRecord :: "SessionCatalogRecord \<Rightarrow> string" where
  "EncodeSessionRecord r =
     ''{'' @ json_field ''schema_version'' ''1'' @ '','' @ json_field ''sid'' (Quote (cr_sid r)) @
     '','' @ json_field ''generation_uuid'' (Quote (cr_generation_uuid r)) @
     '','' @ json_field ''state'' (Quote (LifecycleName (cr_state r))) @
     '','' @ json_field ''owner_instance_id'' (Quote (cr_owner_instance_id r)) @
     '','' @ json_field ''durable'' (if cr_durable r then ''true'' else ''false'') @
     '','' @ json_field ''ephemeral'' (if cr_ephemeral r then ''true'' else ''false'') @
     '','' @ json_field ''created_at'' (Quote (cr_created_at r)) @
     '','' @ json_field ''retained_at'' (NullableText (cr_retained_at r)) @
     '','' @ json_field ''orphaned_at'' (NullableText (cr_orphaned_at r)) @
     '','' @ json_field ''deleting_at'' (NullableText (cr_deleting_at r)) @
     '','' @ json_field ''deleted_at'' (NullableText (cr_deleted_at r)) @
     '','' @ json_field ''failure_operation''
       (case cr_failure r of Some f \<Rightarrow> Quote (cf_operation f) | None \<Rightarrow> ''null'') @
     '','' @ json_field ''failure_category''
       (case cr_failure r of Some f \<Rightarrow> Quote (cf_category f) | None \<Rightarrow> ''null'') @
     '','' @ json_field ''failure_code''
       (case cr_failure r of Some f \<Rightarrow> int_to_string (cf_code f) | None \<Rightarrow> ''null'') @ ''}''"

text \<open>\<open>std::get_if\<close> on the alternatives of a value.\<close>

fun get_text :: "JsonValue \<Rightarrow> string option" where
  "get_text (JText s) = Some s"
| "get_text _ = None"

fun get_int :: "JsonValue \<Rightarrow> int option" where
  "get_int (JInt n) = Some n"
| "get_int _ = None"

fun get_bool :: "JsonValue \<Rightarrow> bool option" where
  "get_bool (JBool b) = Some b"
| "get_bool _ = None"

definition TimestampField :: "JsonValue \<Rightarrow> string option" where
  "TimestampField v = do {
     s \<leftarrow> TextOrNull v;
     if s \<noteq> [] \<and> \<not> IsTimestamp s then None else Some s
   }"

definition FailureField :: "JsonValue \<Rightarrow> JsonValue \<Rightarrow> JsonValue \<Rightarrow> SessionCatalogFailure option option" where
  "FailureField operation category code =
    (if operation = JNull \<and> category = JNull \<and> code = JNull then Some None
     else do {
       operation \<leftarrow> get_text operation;
       category \<leftarrow> get_text category;
       code \<leftarrow> get_int code;
       if \<not> IsDiagnosticWord operation \<or> \<not> IsDiagnosticWord category \<or>
          code < - (2 ^ 31) \<or> code > 2 ^ 31 - 1
       then None
       else Some (Some \<lparr>cf_operation = operation, cf_category = category, cf_code = code\<rparr>)
     })"

definition DecodeRecordFields :: "string \<Rightarrow> JsonValue list \<Rightarrow> SessionCatalogRecord option" where
  "DecodeRecordFields sid m = do {
     schema \<leftarrow> get_int (m ! 0);
     record_sid \<leftarrow> get_text (m ! 1);
     generation \<leftarrow> get_text (m ! 2);
     state_text \<leftarrow> get_text (m ! 3);
     owner \<leftarrow> get_text (m ! 4);
     durable \<leftarrow> get_bool (m ! 5);
     ephemeral \<leftarrow> get_bool (m ! 6);
     created \<leftarrow> get_text (m ! 7);
     if schema \<noteq> 1 \<or> record_sid \<noteq> sid \<or> \<not> IsValidSessionId record_sid \<or> \<not> IsCanonicalUuid generation \<or>
        \<not> IsCanonicalUuid owner \<or> \<not> durable \<or> \<not> IsTimestamp created
     then None
     else do {
       state \<leftarrow> ParseLifecycle state_text;
       retained \<leftarrow> TimestampField (m ! 8);
       orphaned \<leftarrow> TimestampField (m ! 9);
       deleting \<leftarrow> TimestampField (m ! 10);
       deleted \<leftarrow> TimestampField (m ! 11);
       failure \<leftarrow> FailureField (m ! 12) (m ! 13) (m ! 14);
       (let r = \<lparr>cr_sid = record_sid, cr_generation_uuid = generation, cr_state = state,
          cr_owner_instance_id = owner, cr_durable = durable, cr_ephemeral = ephemeral,
          cr_created_at = created, cr_retained_at = retained, cr_orphaned_at = orphaned,
          cr_deleting_at = deleting, cr_deleted_at = deleted, cr_failure = failure\<rparr> in
        if \<not> HasLifecycleMetadata r then None else Some r)
     }
   }"

definition DecodeSessionRecord :: "string \<Rightarrow> string \<Rightarrow> SessionCatalogRecord option" where
  "DecodeSessionRecord sid s = (case ParseFlatObject s of
     None \<Rightarrow> None
   | Some members \<Rightarrow>
       if length members \<noteq> length kRecordMembers \<or> map fst members \<noteq> kRecordMembers then None
       else DecodeRecordFields sid (map snd members))"

section \<open>Canonical fields are plain text\<close>

lemma plain_one: "32 \<le> (of_char c :: nat) \<Longrightarrow> (of_char c :: nat) < 127 \<Longrightarrow> (of_char c :: nat) \<noteq> 34 \<Longrightarrow>
    (of_char c :: nat) \<noteq> 92 \<Longrightarrow> IsPlainText [c]"
  by (auto simp: IsPlainText_def Let_def)

lemma digit_plain: "isdigit c \<Longrightarrow> IsPlainText [c]"
  by (rule plain_one) (auto simp: isdigit_def Let_def)

lemma plain_Cons: "IsPlainText (c # cs) \<longleftrightarrow> IsPlainText [c] \<and> IsPlainText cs"
  by (simp add: IsPlainText_def)

lemma plain_all: "(\<And>c. c \<in> set s \<Longrightarrow> IsPlainText [c]) \<Longrightarrow> IsPlainText s"
  by (simp add: IsPlainText_def list_all_iff)

lemma id_char_plain: "IsValidIdChar c \<Longrightarrow> IsPlainText [c]"
  by (rule plain_one) (auto simp: IsValidIdChar_def isalnum_def Let_def)

lemma sid_plain: "IsValidSessionId sid \<Longrightarrow> IsPlainText sid"
  by (rule plain_all) (auto simp: IsValidSessionId_def IsValidId_def list_all_iff intro: id_char_plain)

lemma hex_plain: "c \<in> set kHexDigits \<Longrightarrow> IsPlainText [c]"
  by (auto simp: kHexDigits_def IsPlainText_def)

lemma uuid_plain:
  assumes "IsCanonicalUuid s"
  shows "IsPlainText s"
proof (rule plain_all)
  fix c assume c: "c \<in> set s"
  obtain u where "s = FormatFenceUuid u" using assms by (auto simp: IsCanonicalUuid_def split: option.splits)
  with c Format_chars[of c u] have "c \<in> set kHexDigits \<or> c = CHR ''-''" by simp
  then show "IsPlainText [c]" using hex_plain by (auto intro: plain_one)
qed

lemma word_plain: "IsDiagnosticWord s \<Longrightarrow> IsPlainText s"
  by (rule plain_all) (auto simp: IsDiagnosticWord_def list_all_iff intro!: plain_one)

lemma lifecycle_plain: "IsPlainText (LifecycleName st)"
  by (cases st) (simp_all add: IsPlainText_def)

lemma DigitsInRange_nth: "DigitsInRange s at w lo hi \<Longrightarrow> at \<le> i \<Longrightarrow> i < at + w \<Longrightarrow> isdigit (s ! i)"
  by (auto simp: DigitsInRange_def Let_def list_all_length dest!: spec[of _ "i - at"])

lemma timestamp_plain:
  assumes "IsTimestamp s"
  shows "IsPlainText s" "s \<noteq> []"
proof -
  note d = assms[unfolded IsTimestamp_def Let_def]
  have len: "20 \<le> length s" "last s = CHR ''Z''" using d by auto
  show "s \<noteq> []" using len by auto
  have "IsPlainText [s ! i]" if i: "i < length s" for i
  proof -
    consider "i \<in> {4, 7, 10, 13, 16}" | "i < 19" "i \<notin> {4, 7, 10, 13, 16}" | "i = length s - 1" | "19 \<le> i" "i < length s - 1"
      using i by fastforce
    then show ?thesis
    proof cases
      case 1 with d show ?thesis by (auto simp: IsPlainText_def)
    next
      case 2
      then consider "i < 4" | "5 \<le> i" "i < 7" | "8 \<le> i" "i < 10" | "11 \<le> i" "i < 13" | "14 \<le> i" "i < 16" | "17 \<le> i" "i < 19"
        by fastforce
      then show ?thesis
        by cases (use d DigitsInRange_nth in \<open>fastforce intro!: digit_plain\<close>)+
    next
      case 3
      then have "s ! i = CHR ''Z''" using len(2) \<open>s \<noteq> []\<close> by (simp add: last_conv_nth)
      then show ?thesis by (simp add: IsPlainText_def)
    next
      case 4
      define f where "f = take (length s - 19 - 1) (drop 19 s)"
      have n: "f ! (i - 19) = s ! i" "i - 19 < length f" using 4 by (simp_all add: f_def)
      then have f: "hd f = CHR ''.''" "list_all isdigit (tl f)" using d by (auto simp: f_def)
      show ?thesis
      proof (cases "i = 19")
        case True with n f(1) show ?thesis by (simp add: hd_conv_nth IsPlainText_def)
      next
        case False
        then have "Suc (i - 20) = i - 19" using 4 by simp
        with n have "tl f ! (i - 20) = s ! i" "i - 20 < length (tl f)" by (simp_all add: nth_tl)
        with f(2) have "isdigit (s ! i)" by (metis list_all_length)
        then show ?thesis by (rule digit_plain)
      qed
    qed
  qed
  then show "IsPlainText s" by (simp add: IsPlainText_def list_all_length)
qed

section \<open>The record codec is exact\<close>

fun nullable :: "string \<Rightarrow> JsonValue" where
  "nullable s = (if s = [] then JNull else JText s)"

definition record_values :: "SessionCatalogRecord \<Rightarrow> JsonValue list" where
  "record_values r = [JInt 1, JText (cr_sid r), JText (cr_generation_uuid r), JText (LifecycleName (cr_state r)),
     JText (cr_owner_instance_id r), JBool (cr_durable r), JBool (cr_ephemeral r), JText (cr_created_at r),
     nullable (cr_retained_at r), nullable (cr_orphaned_at r), nullable (cr_deleting_at r), nullable (cr_deleted_at r),
     (case cr_failure r of Some f \<Rightarrow> JText (cf_operation f) | None \<Rightarrow> JNull),
     (case cr_failure r of Some f \<Rightarrow> JText (cf_category f) | None \<Rightarrow> JNull),
     (case cr_failure r of Some f \<Rightarrow> JInt (cf_code f) | None \<Rightarrow> JNull)]"

definition failure_valid :: "SessionCatalogFailure option \<Rightarrow> bool" where
  "failure_valid f = (case f of None \<Rightarrow> True
   | Some f \<Rightarrow> IsDiagnosticWord (cf_operation f) \<and> IsDiagnosticWord (cf_category f) \<and>
       - (2 ^ 31) \<le> cf_code f \<and> cf_code f \<le> 2 ^ 31 - 1)"

definition timestamp_or_empty :: "string \<Rightarrow> bool" where
  "timestamp_or_empty s \<longleftrightarrow> s = [] \<or> IsTimestamp s"

definition record_valid :: "SessionCatalogRecord \<Rightarrow> bool" where
  "record_valid r \<longleftrightarrow> IsValidSessionId (cr_sid r) \<and> IsCanonicalUuid (cr_generation_uuid r) \<and>
     IsCanonicalUuid (cr_owner_instance_id r) \<and> cr_durable r \<and> IsTimestamp (cr_created_at r) \<and>
     timestamp_or_empty (cr_retained_at r) \<and> timestamp_or_empty (cr_orphaned_at r) \<and>
     timestamp_or_empty (cr_deleting_at r) \<and> timestamp_or_empty (cr_deleted_at r) \<and>
     failure_valid (cr_failure r) \<and> HasLifecycleMetadata r"

lemma get_Some [simp]:
  "get_text v = Some s \<longleftrightarrow> v = JText s" "get_int v = Some n \<longleftrightarrow> v = JInt n" "get_bool v = Some b \<longleftrightarrow> v = JBool b"
  by (cases v; auto)+

lemma ParseLifecycle_Some [simp]: "ParseLifecycle s = Some st \<longleftrightarrow> s = LifecycleName st"
  by (cases st) (auto simp: ParseLifecycle_def)

lemma TimestampField_Some: "TimestampField v = Some s \<longleftrightarrow> v = nullable s \<and> timestamp_or_empty s"
  by (cases v) (auto simp: TimestampField_def timestamp_or_empty_def bind_eq_Some_conv)

lemma FailureField_Some: "FailureField a b c = Some f \<longleftrightarrow> failure_valid f \<and>
    a = (case f of Some f \<Rightarrow> JText (cf_operation f) | None \<Rightarrow> JNull) \<and>
    b = (case f of Some f \<Rightarrow> JText (cf_category f) | None \<Rightarrow> JNull) \<and>
    c = (case f of Some f \<Rightarrow> JInt (cf_code f) | None \<Rightarrow> JNull)"
proof (cases "a = JNull \<and> b = JNull \<and> c = JNull")
  case True
  then show ?thesis by (auto simp: FailureField_def failure_valid_def split: option.splits)
next
  case False
  show ?thesis
  proof (cases f)
    case None
    with False show ?thesis by (auto simp: FailureField_def bind_eq_Some_conv split: if_splits)
  next
    case (Some g)
    show ?thesis
    proof
      assume "FailureField a b c = Some f"
      with Some False show "failure_valid f \<and> a = (case f of Some f \<Rightarrow> JText (cf_operation f) | None \<Rightarrow> JNull) \<and>
          b = (case f of Some f \<Rightarrow> JText (cf_category f) | None \<Rightarrow> JNull) \<and>
          c = (case f of Some f \<Rightarrow> JInt (cf_code f) | None \<Rightarrow> JNull)"
        by (auto simp: FailureField_def bind_eq_Some_conv failure_valid_def split: if_splits)
    next
      assume "failure_valid f \<and> a = (case f of Some f \<Rightarrow> JText (cf_operation f) | None \<Rightarrow> JNull) \<and>
          b = (case f of Some f \<Rightarrow> JText (cf_category f) | None \<Rightarrow> JNull) \<and>
          c = (case f of Some f \<Rightarrow> JInt (cf_code f) | None \<Rightarrow> JNull)"
      with Some show "FailureField a b c = Some f"
        by (cases g) (simp add: FailureField_def failure_valid_def)
    qed
  qed
qed

lemma list15E:
  assumes "length xs = 15"
  obtains a b c d e f g h i j k l m n p where "xs = [a, b, c, d, e, f, g, h, i, j, k, l, m, n, p]"
  using assms by (auto simp: numeral_eq_Suc length_Suc_conv)

lemma DecodeRecordFields_iff:
  assumes "length m = 15"
  shows "DecodeRecordFields sid m = Some r \<longleftrightarrow> record_valid r \<and> cr_sid r = sid \<and> m = record_values r"
proof -
  obtain v0 v1 v2 v3 v4 v5 v6 v7 v8 v9 v10 v11 v12 v13 v14
    where m: "m = [v0, v1, v2, v3, v4, v5, v6, v7, v8, v9, v10, v11, v12, v13, v14]"
    using assms by (rule list15E)
  show ?thesis
  proof
    assume "DecodeRecordFields sid m = Some r"
    then show "record_valid r \<and> cr_sid r = sid \<and> m = record_values r"
      unfolding m record_values_def record_valid_def
      by (auto simp: DecodeRecordFields_def bind_eq_Some_conv TimestampField_Some FailureField_Some
          Let_def simp del: nullable.simps split: if_splits)
  next
    assume r: "record_valid r \<and> cr_sid r = sid \<and> m = record_values r"
    have t: "TimestampField (nullable s) = Some s" if "timestamp_or_empty s" for s
      using that TimestampField_Some by blast
    have "FailureField (m ! 12) (m ! 13) (m ! 14) = Some (cr_failure r)"
      using r by (simp add: FailureField_Some record_values_def record_valid_def)
    moreover have "ParseLifecycle (LifecycleName (cr_state r)) = Some (cr_state r)" by simp
    ultimately show "DecodeRecordFields sid m = Some r"
      using r t by (cases r) (auto simp: DecodeRecordFields_def record_values_def record_valid_def Let_def
          simp del: nullable.simps ParseLifecycle_Some)
  qed
qed

lemma json_field_render: "json_field n (render_value v) = render_member (n, v)"
  by (simp add: json_field_def render_member_def)

lemma Encode_render: "EncodeSessionRecord r = render_object (zip kRecordMembers (record_values r))"
proof -
  have int1: "int_to_string 1 = ''1''" by code_simp
  show ?thesis
    by (simp add: EncodeSessionRecord_def render_object_def kRecordMembers_def record_values_def
        render_member_def json_field_def NullableText_def int1 split: option.split)
qed

lemma members_wf:
  assumes "record_valid r"
  shows "list_all json_member_wf (zip kRecordMembers (record_values r))"
proof -
  have ts: "json_value_wf (nullable s)" if "timestamp_or_empty s" for s
    using that timestamp_plain by (auto simp: timestamp_or_empty_def)
  have names: "\<forall>n\<in>set kRecordMembers. IsPlainText n" by (simp add: kRecordMembers_def IsPlainText_def)
  have "list_all json_value_wf (record_values r)"
    using assms ts timestamp_plain sid_plain uuid_plain word_plain lifecycle_plain
    by (auto simp: record_values_def record_valid_def failure_valid_def int64_range_def
        simp del: nullable.simps split: option.splits)
  with names show ?thesis
    unfolding list_all_iff json_member_wf_def by (auto dest: set_zip_leftD set_zip_rightD)
qed

lemma DecodeSessionRecord_iff:
  "DecodeSessionRecord sid s = Some r \<longleftrightarrow> record_valid r \<and> cr_sid r = sid \<and> s = EncodeSessionRecord r"
proof
  assume "DecodeSessionRecord sid s = Some r"
  then obtain ms where ms: "ParseFlatObject s = Some ms" "map fst ms = kRecordMembers"
    "DecodeRecordFields sid (map snd ms) = Some r"
    by (auto simp: DecodeSessionRecord_def split: option.splits if_splits)
  have "length (map snd ms) = 15" using arg_cong[OF ms(2), of length] by (simp add: kRecordMembers_def)
  with ms(3) have r: "record_valid r" "cr_sid r = sid" "map snd ms = record_values r"
    using DecodeRecordFields_iff by blast+
  have "ms = zip (map fst ms) (map snd ms)" by (simp add: zip_map_fst_snd)
  with r ms show "record_valid r \<and> cr_sid r = sid \<and> s = EncodeSessionRecord r"
    unfolding Encode_render ParseFlatObject_iff by metis
next
  let ?ms = "zip kRecordMembers (record_values r)"
  assume r: "record_valid r \<and> cr_sid r = sid \<and> s = EncodeSessionRecord r"
  then have "ParseFlatObject s = Some ?ms"
    unfolding ParseFlatObject_iff by (simp add: members_wf Encode_render)
  moreover have "map fst ?ms = kRecordMembers" "map snd ?ms = record_values r" "length (record_values r) = 15"
    "length kRecordMembers = 15"
    by (simp_all add: kRecordMembers_def record_values_def)
  ultimately show "DecodeSessionRecord sid s = Some r"
    using r DecodeRecordFields_iff[of "record_values r" sid r] by (simp add: DecodeSessionRecord_def)
qed

section \<open>Properties\<close>

text \<open>C33: the catalog record codec is exact.  A stored text decodes under a session id precisely
  when it is the encoding of a valid record of that session: valid ids and canonical uuids, real
  calendar timestamps, and for each lifecycle state exactly the metadata that state carries.  So a
  record has one spelling, any other text is refused, and every valid record survives a restart.\<close>

theorem catalog_record_exact:
  "DecodeSessionRecord sid s = Some r \<longleftrightarrow> record_valid r \<and> cr_sid r = sid \<and> s = EncodeSessionRecord r"
  by (rule DecodeSessionRecord_iff)

end
