(* ===== verification/CatalogStore.thy ===== *)
theory CatalogStore
  imports SessionCatalog OrderedMap
begin

text \<open>
  The durable session catalog's store, \<open>SessionCatalog\<close> of \<open>src/session_catalog.cpp\<close>: opening,
  validating, loading and writing.  The key-value database and the file system below it are not
  part of the repository: they are the fields of \<open>CatalogEnv\<close>, and what the catalog relies on of
  them is the predicate \<open>db_laws\<close>.
\<close>

section \<open>The store\<close>

definition kSchemaKey :: string where "kSchemaKey = ''schema''"

definition kInstanceKey :: string where "kInstanceKey = ''instance''"

definition kSessionKeyPrefix :: string where "kSessionKeyPrefix = ''session/''"

definition kSchemaValue :: string where
  "kSchemaValue = ''{'' @ Quote ''schema_version'' @ '':1}''"

definition ValidInstanceValue :: "string \<Rightarrow> bool" where
  "ValidInstanceValue s = (case ParseFlatObject s of
     None \<Rightarrow> False
   | Some members \<Rightarrow>
       if length members \<noteq> 2 \<or> fst (members ! 0) \<noteq> ''instance_id'' \<or> fst (members ! 1) \<noteq> ''started_at'' then False
       else (case (get_text (snd (members ! 0)), get_text (snd (members ! 1))) of
         (Some instance_id, Some started) \<Rightarrow> IsCanonicalUuid instance_id \<and> IsTimestamp started
       | _ \<Rightarrow> False))"

definition InstanceValue :: "string \<Rightarrow> string \<Rightarrow> string" where
  "InstanceValue instance_id started_at =
     ''{'' @ json_field ''instance_id'' (Quote instance_id) @ '','' @ json_field ''started_at'' (Quote started_at) @ ''}''"

text \<open>The database of the catalog and the directory probes around it, as the code sees them:
  a probe is \<open>None\<close> when it reports an error code.\<close>

record 'd CatalogEnv =
  env_exists :: "bool option"
  env_sessions_exists :: "bool option"
  env_sessions_is_directory :: "bool option"
  env_sessions_is_empty :: "bool option"
  env_create_directories :: bool
  env_open_raw :: "bool \<Rightarrow> 'd Result"
  env_write_batch :: "(string \<times> string) list \<Rightarrow> 'd \<Rightarrow> 'd \<times> bool"
  env_put :: "string \<Rightarrow> string \<Rightarrow> 'd \<Rightarrow> 'd \<times> bool"
  env_scan :: "'d \<Rightarrow> (string \<times> string) list \<times> bool"

record 'd CatalogImpl =
  ci_db :: 'd
  ci_records :: "SessionCatalogRecord ordered_map"

definition CatalogFind :: "string \<Rightarrow> 'd CatalogImpl \<Rightarrow> SessionCatalogRecord option" where
  "CatalogFind sid c = map_of (ci_records c) sid"

definition CatalogRecords :: "'d CatalogImpl \<Rightarrow> SessionCatalogRecord list" where
  "CatalogRecords c = map snd (ci_records c)"

definition Unavailable :: "string \<Rightarrow> 'a Result" where
  "Unavailable message = Err CatalogUnavailable message"

text \<open>One round of the load loop, and the loop.\<close>

definition LoadEntry :: "string \<Rightarrow> string \<Rightarrow> bool \<times> bool \<times> SessionCatalogRecord ordered_map \<Rightarrow>
    (bool \<times> bool \<times> SessionCatalogRecord ordered_map) Result" where
  "LoadEntry key v = (\<lambda>(schema_seen, instance_seen, records).
    if key = kSchemaKey then
      if v \<noteq> kSchemaValue then Unavailable ''catalog schema is not supported''
      else Result_Ok (True, instance_seen, records)
    else if key = kInstanceKey then
      if \<not> ValidInstanceValue v then Unavailable ''catalog instance entry is invalid''
      else Result_Ok (schema_seen, True, records)
    else if starts_with key kSessionKeyPrefix then
      (let sid = drop (length kSessionKeyPrefix) key in
       case DecodeSessionRecord sid v of
         None \<Rightarrow> Unavailable ''catalog session record is invalid''
       | Some r \<Rightarrow> Result_Ok (schema_seen, instance_seen, map_try_emplace sid r records))
    else Unavailable ''catalog contains an unknown entry'')"

fun LoadLoop :: "(string \<times> string) list \<Rightarrow> bool \<times> bool \<times> SessionCatalogRecord ordered_map \<Rightarrow>
    (bool \<times> bool \<times> SessionCatalogRecord ordered_map) Result" where
  "LoadLoop [] acc = Result_Ok acc"
| "LoadLoop ((key, v) # es) acc = (case LoadEntry key v acc of
     Inl e \<Rightarrow> Inl e
   | Inr acc' \<Rightarrow> LoadLoop es acc')"

definition LoadEntries :: "(string \<times> string) list \<times> bool \<Rightarrow> SessionCatalogRecord ordered_map Result" where
  "LoadEntries scan = (case LoadLoop (fst scan) (False, False, []) of
     Inl e \<Rightarrow> Inl e
   | Inr (schema_seen, instance_seen, records) \<Rightarrow>
       if \<not> snd scan then Unavailable ''catalog read failed''
       else if \<not> schema_seen then Unavailable ''catalog schema entry is missing''
       else if \<not> instance_seen then Unavailable ''catalog instance entry is missing''
       else Result_Ok records)"

definition IsEmptyOrAbsentDirectory :: "bool option \<Rightarrow> bool option \<Rightarrow> bool option \<Rightarrow> bool" where
  "IsEmptyOrAbsentDirectory exists is_directory is_empty =
    (if exists \<noteq> Some True then exists \<noteq> None
     else if is_directory \<noteq> Some True then False
     else is_empty = Some True)"

definition CatalogOpen :: "'d CatalogEnv \<Rightarrow> string \<Rightarrow> string \<Rightarrow> 'd CatalogImpl Result" where
  "CatalogOpen env instance_id started_at =
    (if env_exists env = None then Unavailable ''catalog directory is not accessible''
     else if env_exists env = Some False then
       if \<not> IsEmptyOrAbsentDirectory (env_sessions_exists env) (env_sessions_is_directory env) (env_sessions_is_empty env)
       then Unavailable ''catalog is missing beside existing session stores''
       else if \<not> env_create_directories env then Unavailable ''durable root cannot be created''
       else (case env_open_raw env True of
         Inl e \<Rightarrow> ErrFrom (env_open_raw env True)
       | Inr db \<Rightarrow>
           (case env_write_batch env [(kSchemaKey, kSchemaValue), (kInstanceKey, InstanceValue instance_id started_at)] db of
              (db', False) \<Rightarrow> Unavailable ''catalog initialization write failed''
            | (db', True) \<Rightarrow> Result_Ok \<lparr>ci_db = db', ci_records = []\<rparr>))
     else (case env_open_raw env False of
       Inl e \<Rightarrow> ErrFrom (env_open_raw env False)
     | Inr db \<Rightarrow>
         (case LoadEntries (env_scan env db) of
            Inl e \<Rightarrow> ErrFrom (LoadEntries (env_scan env db))
          | Inr records \<Rightarrow>
              (case env_put env kInstanceKey (InstanceValue instance_id started_at) db of
                 (db', False) \<Rightarrow> Unavailable ''catalog instance write failed''
               | (db', True) \<Rightarrow> Result_Ok \<lparr>ci_db = db', ci_records = records\<rparr>))))"

definition CatalogPut :: "'d CatalogEnv \<Rightarrow> SessionCatalogRecord \<Rightarrow> 'd CatalogImpl \<Rightarrow> 'd CatalogImpl \<times> unit Result" where
  "CatalogPut env r c =
    (case env_put env (kSessionKeyPrefix @ cr_sid r) (EncodeSessionRecord r) (ci_db c) of
       (db', False) \<Rightarrow> (c\<lparr>ci_db := db'\<rparr>, Err CatalogUnavailable ''catalog write failed'')
     | (db', True) \<Rightarrow> (c\<lparr>ci_db := db', ci_records := map_insert (cr_sid r) r (ci_records c)\<rparr>, Result_Ok ()))"

section \<open>What loading accepts\<close>

definition entry_valid :: "string \<Rightarrow> string \<Rightarrow> bool" where
  "entry_valid key v \<longleftrightarrow>
     (if key = kSchemaKey then v = kSchemaValue
      else if key = kInstanceKey then ValidInstanceValue v
      else \<exists>sid r. key = kSessionKeyPrefix @ sid \<and> DecodeSessionRecord sid v = Some r)"

definition session_record :: "string \<Rightarrow> string \<Rightarrow> SessionCatalogRecord option" where
  "session_record key v =
     (if starts_with key kSessionKeyPrefix then DecodeSessionRecord (drop (length kSessionKeyPrefix) key) v else None)"

definition load_records :: "(string \<times> string) list \<Rightarrow> SessionCatalogRecord ordered_map \<Rightarrow> SessionCatalogRecord ordered_map" where
  "load_records es records = fold (\<lambda>(key, v) records. case session_record key v of
     None \<Rightarrow> records
   | Some r \<Rightarrow> map_try_emplace (drop (length kSessionKeyPrefix) key) r records) es records"

lemma not_session_keys [simp]: "\<not> starts_with kSchemaKey kSessionKeyPrefix" "\<not> starts_with kInstanceKey kSessionKeyPrefix"
  "kSchemaKey \<noteq> kInstanceKey" "kInstanceKey \<noteq> kSchemaKey"
  by (simp_all add: kSchemaKey_def kInstanceKey_def kSessionKeyPrefix_def)

lemma LoadLoop_iff:
  "LoadLoop es (sc, ins, records) = Inr out \<longleftrightarrow> (\<forall>(k, v)\<in>set es. entry_valid k v) \<and>
     out = (sc \<or> kSchemaKey \<in> fst ` set es, ins \<or> kInstanceKey \<in> fst ` set es, load_records es records)"
proof (induction es arbitrary: sc ins records)
  case Nil
  then show ?case by (auto simp: Result_Ok_def load_records_def)
next
  case (Cons e es)
  obtain k v where e: "e = (k, v)" by (cases e)
  consider (schema) "k = kSchemaKey" | (inst) "k = kInstanceKey"
    | (session) sid where "k = kSessionKeyPrefix @ sid" "k \<noteq> kSchemaKey" "k \<noteq> kInstanceKey"
    | (other) "k \<noteq> kSchemaKey" "k \<noteq> kInstanceKey" "\<not> starts_with k kSessionKeyPrefix"
    by (metis starts_withD)
  then show ?case
  proof cases
    case schema
    with e Cons show ?thesis
      by (auto simp: LoadEntry_def Result_Ok_def Result_Err_def Unavailable_def entry_valid_def load_records_def session_record_def)
  next
    case inst
    with e Cons show ?thesis
      by (auto simp: LoadEntry_def Result_Ok_def Result_Err_def Unavailable_def entry_valid_def load_records_def session_record_def)
  next
    case session
    with e Cons show ?thesis
      by (auto simp: LoadEntry_def Result_Ok_def Result_Err_def Unavailable_def entry_valid_def load_records_def session_record_def
          Let_def split: option.splits)
  next
    case other
    with e Cons show ?thesis
      by (auto simp: LoadEntry_def Result_Ok_def Result_Err_def Unavailable_def entry_valid_def)
  qed
qed

lemma session_key_iff: "starts_with k kSessionKeyPrefix \<longleftrightarrow> (\<exists>sid. k = kSessionKeyPrefix @ sid)"
  by (metis starts_withD starts_with_append)

lemma load_records_wf: "map_wf records \<Longrightarrow> map_wf (load_records es records)"
proof (induction es arbitrary: records)
  case (Cons e es)
  then show ?case
    by (auto simp: load_records_def map_try_emplace_def map_insert_wf split: prod.splits option.splits)
qed (simp add: load_records_def)

lemma load_records_Cons: "load_records ((k, v) # es) records =
    load_records es (case session_record k v of None \<Rightarrow> records
      | Some r \<Rightarrow> map_try_emplace (drop (length kSessionKeyPrefix) k) r records)"
  by (simp add: load_records_def)

lemma session_record_other: "session_record (kSessionKeyPrefix @ sid) v = DecodeSessionRecord sid v"
  by (simp add: session_record_def)

lemma map_of_load_records:
  assumes "distinct (map fst es)" "\<forall>sid. map_of records sid \<noteq> None \<longrightarrow> map_of es (kSessionKeyPrefix @ sid) = None"
  shows "map_of (load_records es records) sid = (case map_of records sid of
     Some r \<Rightarrow> Some r
   | None \<Rightarrow> Option.bind (map_of es (kSessionKeyPrefix @ sid)) (DecodeSessionRecord sid))"
  using assms
proof (induction es arbitrary: records)
  case Nil
  then show ?case by (simp add: load_records_def split: option.split)
next
  case (Cons e es)
  obtain k v where e: "e = (k, v)" by (cases e)
  define records' where "records' = (case session_record k v of None \<Rightarrow> records
      | Some r \<Rightarrow> map_try_emplace (drop (length kSessionKeyPrefix) k) r records)"
  have k: "map_of es k = None" "distinct (map fst es)" using Cons.prems(1) e by (auto simp: map_of_eq_None_iff)
  have m: "map_of records' s = (if k = kSessionKeyPrefix @ s then DecodeSessionRecord s v else map_of records s)" for s
  proof (cases "starts_with k kSessionKeyPrefix")
    case True
    then obtain t where t: "k = kSessionKeyPrefix @ t" unfolding session_key_iff by blast
    have "map_of records t = None"
      using Cons.prems(2) t e by (metis map_of_Cons_code(2) option.distinct(1))
    with t show ?thesis
      by (auto simp: records'_def session_record_other map_try_emplace_def split: option.splits)
  next
    case False
    then have "k \<noteq> kSessionKeyPrefix @ s" by auto
    with False show ?thesis by (simp add: records'_def session_record_def)
  qed
  have "\<forall>s. map_of records' s \<noteq> None \<longrightarrow> map_of es (kSessionKeyPrefix @ s) = None"
    using m k(1) Cons.prems(2) e by (metis (no_types, lifting) map_of_Cons_code(2))
  from Cons.IH[OF k(2) this] show ?case
    using m[of sid] k(1) Cons.prems(2) unfolding e load_records_Cons records'_def[symmetric]
    by (auto split: option.splits if_splits)
qed

text \<open>Loading accepts a sorted content exactly when every entry is valid and the schema and the
  instance are present, and then returns one record per session entry.\<close>

lemma LoadEntries_iff:
  assumes "map_wf es"
  shows "LoadEntries (es, True) = Inr records \<longleftrightarrow>
    (\<forall>k v. map_of es k = Some v \<longrightarrow> entry_valid k v) \<and>
    map_of es kSchemaKey \<noteq> None \<and> map_of es kInstanceKey \<noteq> None \<and> map_wf records \<and>
    (\<forall>sid. map_of records sid = Option.bind (map_of es (kSessionKeyPrefix @ sid)) (DecodeSessionRecord sid))"
  (is "?L \<longleftrightarrow> ?R")
proof -
  have d: "distinct (map fst es)" using assms by (rule map_wf_distinct)
  have valid: "(\<forall>(k, v)\<in>set es. entry_valid k v) \<longleftrightarrow> (\<forall>k v. map_of es k = Some v \<longrightarrow> entry_valid k v)"
    using d by (auto dest: map_of_SomeD)
  have "?L \<longleftrightarrow> (\<forall>(k, v)\<in>set es. entry_valid k v) \<and> kSchemaKey \<in> fst ` set es \<and>
      kInstanceKey \<in> fst ` set es \<and> records = load_records es []"
  proof (cases "LoadLoop es (False, False, [])")
    case (Inl e)
    then have "\<not> (\<forall>(k, v)\<in>set es. entry_valid k v)"
      using LoadLoop_iff[of es False False "[]"] by (metis Inl_Inr_False)
    with Inl show ?thesis by (simp add: LoadEntries_def)
  next
    case (Inr out)
    with LoadLoop_iff[of es False False "[]" out] show ?thesis
      by (auto simp: LoadEntries_def Unavailable_def Result_Err_def Result_Ok_def)
  qed
  also have "\<dots> \<longleftrightarrow> ?R"
    unfolding valid using load_records_wf[of "[]" es] map_of_load_records[OF d, of "[]"]
    by (auto simp: map_of_eq_None_iff intro!: map_wf_ext ext)
  finally show ?thesis .
qed

section \<open>The in-memory view and the durable content agree\<close>

text \<open>What the catalog relies on of its database: a created database is empty, an enumeration is
  sorted by key, a successful synchronized write adds exactly its entries, a failed one adds none.\<close>

definition db_laws :: "'d CatalogEnv \<Rightarrow> bool" where
  "db_laws env \<longleftrightarrow>
     (\<forall>db. env_open_raw env True = Inr db \<longrightarrow> env_scan env db = ([], True)) \<and>
     (\<forall>db. env_open_raw env False = Inr db \<longrightarrow> map_wf (fst (env_scan env db))) \<and>
     (\<forall>k v db. env_scan env (fst (env_put env k v db)) =
        (if snd (env_put env k v db) then (map_insert k v (fst (env_scan env db)), snd (env_scan env db))
         else env_scan env db)) \<and>
     (\<forall>kvs db. env_scan env (fst (env_write_batch env kvs db)) =
        (if snd (env_write_batch env kvs db)
         then (fold (\<lambda>(k, v). map_insert k v) kvs (fst (env_scan env db)), snd (env_scan env db))
         else env_scan env db))"

definition catalog_inv :: "'d CatalogEnv \<Rightarrow> 'd CatalogImpl \<Rightarrow> bool" where
  "catalog_inv env c \<longleftrightarrow> map_wf (fst (env_scan env (ci_db c))) \<and>
     LoadEntries (env_scan env (ci_db c)) = Inr (ci_records c)"

lemma LoadEntries_status: "LoadEntries scan = Inr records \<Longrightarrow> scan = (fst scan, True)"
  by (cases scan) (auto simp: LoadEntries_def Unavailable_def Result_Err_def split: sum.splits if_splits)

lemma session_key_distinct [simp]: "kSessionKeyPrefix @ sid \<noteq> kSchemaKey" "kSessionKeyPrefix @ sid \<noteq> kInstanceKey"
  using not_session_keys(1,2) starts_with_append by metis+

lemma CatalogPut_inv:
  assumes "db_laws env" "catalog_inv env c" "record_valid r"
  shows "catalog_inv env (fst (CatalogPut env r c))"
proof -
  let ?k = "kSessionKeyPrefix @ cr_sid r" and ?v = "EncodeSessionRecord r" and ?es = "fst (env_scan env (ci_db c))"
  obtain db' ok where p: "env_put env ?k ?v (ci_db c) = (db', ok)" by fastforce
  with assms(1) have scan: "env_scan env db' =
      (if ok then (map_insert ?k ?v ?es, snd (env_scan env (ci_db c))) else env_scan env (ci_db c))"
    unfolding db_laws_def by (metis fst_conv snd_conv)
  have wf: "map_wf ?es" and load: "LoadEntries (env_scan env (ci_db c)) = Inr (ci_records c)"
    using assms(2) by (simp_all add: catalog_inv_def)
  show ?thesis
  proof (cases ok)
    case False
    with p scan wf load show ?thesis by (simp add: CatalogPut_def catalog_inv_def)
  next
    case True
    note st = LoadEntries_status[OF load]
    have dec: "DecodeSessionRecord (cr_sid r) ?v = Some r" using assms(3) by (simp add: DecodeSessionRecord_iff)
    then have ev: "entry_valid ?k ?v" by (auto simp: entry_valid_def)
    have "LoadEntries (?es, True) = Inr (ci_records c)" using load st by metis
    then have old: "\<forall>k v. map_of ?es k = Some v \<longrightarrow> entry_valid k v" "map_of ?es kSchemaKey \<noteq> None"
      "map_of ?es kInstanceKey \<noteq> None" "map_wf (ci_records c)"
      "\<forall>sid. map_of (ci_records c) sid = Option.bind (map_of ?es (kSessionKeyPrefix @ sid)) (DecodeSessionRecord sid)"
      unfolding LoadEntries_iff[OF wf] by blast+
    have "LoadEntries (map_insert ?k ?v ?es, True) = Inr (map_insert (cr_sid r) r (ci_records c))"
      unfolding LoadEntries_iff[OF map_insert_wf[OF wf]]
      using old ev dec by (auto simp: map_insert_wf)
    with True p scan st wf show ?thesis
      by (simp add: CatalogPut_def catalog_inv_def map_insert_wf) (metis snd_conv)
  qed
qed

lemma InstanceValue_valid:
  assumes "IsCanonicalUuid i" "IsTimestamp t"
  shows "ValidInstanceValue (InstanceValue i t)"
proof -
  let ?ms = "[(''instance_id'', JText i), (''started_at'', JText t)]"
  have "ParseFlatObject (InstanceValue i t) = Some ?ms"
    unfolding ParseFlatObject_iff using uuid_plain[OF assms(1)] timestamp_plain(1)[OF assms(2)]
    by (simp add: json_member_wf_def InstanceValue_def render_object_def render_member_def json_field_def IsPlainText_def)
  with assms show ?thesis by (simp add: ValidInstanceValue_def)
qed

lemma CatalogOpen_inv:
  assumes "db_laws env" "IsCanonicalUuid i" "IsTimestamp t" "CatalogOpen env i t = Inr c"
  shows "catalog_inv env c"
proof (cases "env_exists env = Some False")
  case True
  with assms(4) obtain db db' where db: "env_open_raw env True = Inr db"
    "env_write_batch env [(kSchemaKey, kSchemaValue), (kInstanceKey, InstanceValue i t)] db = (db', True)"
    "c = \<lparr>ci_db = db', ci_records = []\<rparr>"
    by (auto simp: CatalogOpen_def Unavailable_def Result_Err_def Result_Ok_def ErrFrom_def
        split: if_splits sum.splits prod.splits bool.splits)
  let ?es = "map_insert kInstanceKey (InstanceValue i t) [(kSchemaKey, kSchemaValue)]"
  have "env_scan env db = ([], True)" using assms(1) db(1) unfolding db_laws_def by blast
  then have scan: "env_scan env db' = (?es, True)"
    using assms(1) db(2) unfolding db_laws_def by (auto dest!: spec[of _ "[(kSchemaKey, kSchemaValue), (kInstanceKey, InstanceValue i t)]"] spec[of _ db])
  have wf: "map_wf ?es" by (intro map_insert_wf) (simp add: map_wf_def)
  have "LoadEntries (?es, True) = Inr []"
    unfolding LoadEntries_iff[OF wf] using InstanceValue_valid[OF assms(2,3)] by (simp add: entry_valid_def)
  with scan wf db(3) show ?thesis by (simp add: catalog_inv_def)
next
  case False
  with assms(4) obtain db db' where db: "env_open_raw env False = Inr db"
    "LoadEntries (env_scan env db) = Inr (ci_records c)"
    "env_put env kInstanceKey (InstanceValue i t) db = (db', True)" "ci_db c = db'"
    by (auto simp: CatalogOpen_def Unavailable_def Result_Err_def Result_Ok_def ErrFrom_def
        split: if_splits sum.splits prod.splits bool.splits)
  note st = LoadEntries_status[OF db(2)]
  let ?es = "fst (env_scan env db)"
  have wf: "map_wf ?es" using assms(1) db(1) unfolding db_laws_def by blast
  have scan: "env_scan env db' = (map_insert kInstanceKey (InstanceValue i t) ?es, True)"
    using assms(1) db(3) st unfolding db_laws_def by (metis fst_conv snd_conv)
  have inst: "entry_valid kInstanceKey (InstanceValue i t)"
    using InstanceValue_valid[OF assms(2,3)] by (simp add: entry_valid_def)
  have "LoadEntries (?es, True) = Inr (ci_records c)" using db(2) st by metis
  then have "LoadEntries (map_insert kInstanceKey (InstanceValue i t) ?es, True) = Inr (ci_records c)"
    unfolding LoadEntries_iff[OF wf] LoadEntries_iff[OF map_insert_wf[OF wf]]
    using inst by (auto split: if_splits)
  with scan wf db(4) show ?thesis by (simp add: catalog_inv_def map_insert_wf)
qed

lemma CatalogPut_run_inv:
  "db_laws env \<Longrightarrow> catalog_inv env c \<Longrightarrow> list_all record_valid rs \<Longrightarrow>
     catalog_inv env (fold (\<lambda>r c. fst (CatalogPut env r c)) rs c)"
  by (induction rs arbitrary: c) (simp_all add: CatalogPut_inv)

section \<open>Properties\<close>

text \<open>C25: the catalog's in-memory view is what a restart would recover.  However the catalog was
  opened, created or reloaded, and whatever valid records are then written, with some of the
  synchronized writes failing, loading the durable content succeeds and yields exactly the
  records the running node sees.\<close>

theorem catalog_view_durable:
  assumes "db_laws env" "IsCanonicalUuid instance_id" "IsTimestamp started_at"
    "CatalogOpen env instance_id started_at = Result_Ok c" "list_all record_valid rs"
  shows "LoadEntries (env_scan env (ci_db (fold (\<lambda>r c. fst (CatalogPut env r c)) rs c))) =
    Result_Ok (ci_records (fold (\<lambda>r c. fst (CatalogPut env r c)) rs c))"
  using CatalogPut_run_inv[OF assms(1) CatalogOpen_inv[OF assms(1-3)] assms(5)] assms(4)
  by (simp add: catalog_inv_def Result_Ok_def)

definition example_env :: "string ordered_map CatalogEnv" where
  "example_env = \<lparr>env_exists = Some False, env_sessions_exists = Some False, env_sessions_is_directory = None,
     env_sessions_is_empty = None, env_create_directories = True, env_open_raw = (\<lambda>create. Inr []),
     env_write_batch = (\<lambda>kvs db. (fold (\<lambda>(k, v). map_insert k v) kvs db, True)),
     env_put = (\<lambda>k v db. if k = ''session/full'' then (db, False) else (map_insert k v db, True)),
     env_scan = (\<lambda>db. (db, True))\<rparr>"

definition example_record :: "string \<Rightarrow> SessionCatalogRecord" where
  "example_record sid = \<lparr>cr_sid = sid, cr_generation_uuid = ''01020304-0506-4708-890a-0b0c0d0e0f10'', cr_state = kActive,
     cr_owner_instance_id = ''01020304-0506-4708-890a-0b0c0d0e0f10'', cr_durable = True, cr_ephemeral = False,
     cr_created_at = ''2024-02-29T01:23:45.5Z'', cr_retained_at = '''', cr_orphaned_at = '''', cr_deleting_at = '''',
     cr_deleted_at = '''', cr_failure = None\<rparr>"

lemma example_uuid_text: "IsCanonicalUuid ''01020304-0506-4708-890a-0b0c0d0e0f10''"
  by code_simp

lemma example_timestamp: "IsTimestamp ''2024-02-29T01:23:45.5Z''"
  by code_simp

lemma example_record_valid: "IsValidSessionId sid \<Longrightarrow> record_valid (example_record sid)"
  using example_uuid_text example_timestamp
  by (simp add: example_record_def record_valid_def timestamp_or_empty_def failure_valid_def HasLifecycleMetadata_def)

theorem catalog_view_durable_witness:
  "\<exists>c. CatalogOpen example_env ''01020304-0506-4708-890a-0b0c0d0e0f10'' ''2024-02-29T01:23:45.5Z'' = Result_Ok c \<and>
    LoadEntries (env_scan example_env (ci_db (fold (\<lambda>r c. fst (CatalogPut example_env r c))
      [example_record ''s1'', example_record ''full''] c))) = Result_Ok [(''s1'', example_record ''s1'')]"
proof -
  have laws: "db_laws example_env" by (simp add: db_laws_def example_env_def)
  obtain c where c: "CatalogOpen example_env ''01020304-0506-4708-890a-0b0c0d0e0f10'' ''2024-02-29T01:23:45.5Z'' = Result_Ok c"
    "ci_records c = []"
    by (simp add: CatalogOpen_def example_env_def IsEmptyOrAbsentDirectory_def Result_Ok_def)
  have "IsValidSessionId ''s1''" "IsValidSessionId ''full''" by code_simp+
  then have valid: "list_all record_valid [example_record ''s1'', example_record ''full'']"
    by (simp add: example_record_valid)
  have "ci_records (fold (\<lambda>r c. fst (CatalogPut example_env r c)) [example_record ''s1'', example_record ''full''] c) =
      [(''s1'', example_record ''s1'')]"
    using c(2) by (simp add: CatalogPut_def example_env_def kSessionKeyPrefix_def example_record_def)
  with catalog_view_durable[OF laws example_uuid_text example_timestamp c(1) valid] c(1) show ?thesis by auto
qed

end
