(* ===== verification/NodeApply.thy ===== *)
theory NodeApply
  imports AckRegistry Batch StorageEngine FenceReceiver
begin

text \<open>
  How the storage node applies one write to one engine, the helpers of \<open>src/storage_node.cpp\<close>
  before the node itself: single puts and deletes, stop-first batches, write-once durable
  buffer puts, and the completion guards that turn an exception into a result.  An engine is
  any implementation of the storage engine interface: a record of operations, each of which
  may return true, return false or throw.
\<close>

section \<open>Engines\<close>

datatype EngineReply = ETrue | EFalse | EThrow

text \<open>A \<open>Get\<close> yields \<open>None\<close> when it throws, otherwise what it passed to the sink, if anything;
  a snapshot likewise, with \<open>Some None\<close> for a null pointer.\<close>

record 'e EngineOps =
  eng_put :: "string \<Rightarrow> bytes \<Rightarrow> 'e \<Rightarrow> 'e \<times> EngineReply"
  eng_delete :: "string \<Rightarrow> 'e \<Rightarrow> 'e \<times> EngineReply"
  eng_get :: "string \<Rightarrow> 'e \<Rightarrow> bytes option option"
  eng_list :: "string \<Rightarrow> 'e \<Rightarrow> entries \<times> EngineReply"
  eng_capability :: "'e \<Rightarrow> SyncCapability"
  eng_sync :: "'e \<Rightarrow> 'e \<times> unit Result option"
  eng_snapshot :: "'e \<Rightarrow> entries option option"

definition reply_of :: "bool \<Rightarrow> EngineReply" where
  "reply_of ok = (if ok then ETrue else EFalse)"

definition collect_sink :: "entries sink" where
  "collect_sink k v es = (es @ [(k, v)], True)"

definition last_sink :: "bytes option sink" where
  "last_sink k v x = (Some v, True)"

text \<open>The in-memory engine behind this interface.\<close>

definition InMemoryOps :: "InMemoryEngine EngineOps" where
  "InMemoryOps = \<lparr>
     eng_put = (\<lambda>k v e. case InMemoryEngine_Put k v e of (e', ok) \<Rightarrow> (e', reply_of ok)),
     eng_delete = (\<lambda>k e. case InMemoryEngine_Delete k e of (e', ok) \<Rightarrow> (e', reply_of ok)),
     eng_get = (\<lambda>k e. Some (fst (InMemoryEngine_Get k last_sink e None))),
     eng_list = (\<lambda>p e. case InMemoryEngine_List p collect_sink e [] of (es, ok) \<Rightarrow> (es, reply_of ok)),
     eng_capability = (\<lambda>e. InMemoryEngine_GetSyncCapability),
     eng_sync = (\<lambda>e. (e, Some (InMemoryEngine_Sync e))),
     eng_snapshot = (\<lambda>e. Some (Some (TakeSnapshot InMemoryEngine_List e)))\<rparr>"

section \<open>Samples, diagnostics and progress\<close>

datatype SampleKind = SamplePut | SampleDelete

record TransportSample =
  ts_key :: string
  ts_payload :: bytes
  ts_encoding :: string
  ts_ack :: AckAttachmentObservation
  ts_kind :: SampleKind
  ts_fence_lane :: FenceLaneObservation

definition kSitosV1 :: string where "kSitosV1 = ''sitos.v1''"
definition kSitosV1Batch :: string where "kSitosV1Batch = ''sitos.v1.batch''"
definition kSitosV1Ack :: string where "kSitosV1Ack = ''sitos.v1.ack''"
definition kSitosV1Fence :: string where "kSitosV1Fence = ''sitos.v1.fence''"

datatype LogLevel = kDebug | kInfo | kWarning | kError

type_synonym SubscriberDiagnostics = "(LogLevel \<times> string) list"

record AckApplyProgress =
  ap_kind :: AckOperationKind
  ap_engine_invoked :: bool
  ap_applied_count :: u32
  ap_current_index :: u32

definition MakeAckResult :: "AckOperationKind \<Rightarrow> Status \<Rightarrow> u32 \<Rightarrow> u32 \<Rightarrow> AckResultV1" where
  "MakeAckResult kind status applied_count failed_index =
    \<lparr>ar_operation_kind = kind, ar_status = status, ar_durability = Applied, ar_applied_count = applied_count,
     ar_failed_index = failed_index, ar_through_sequence = 0, ar_failed_sequence = kAckNoFailedSequence,
     ar_message = ''''\<rparr>"

definition PutFailure :: "Status \<Rightarrow> AckResultV1" where
  "PutFailure status = MakeAckResult OpPut status 0 0"

definition LaneBusyResult :: "AckOperationKind \<Rightarrow> AckResultV1" where
  "LaneBusyResult kind = MakeAckResult kind Error 0 (if kind = OpBatch then kAckNoFailedIndex else 0)"

text \<open>What the application of a sample does: it returns a result or an exception leaves it.\<close>

datatype ApplyOutcome = Returned AckResultV1 | Threw

text \<open>\<open>AckCompletionGuard\<close>: the result the token is completed with.\<close>

definition GuardFallback :: "AckApplyProgress \<Rightarrow> AckResultV1" where
  "GuardFallback p =
    (if \<not> ap_engine_invoked p then
       MakeAckResult (ap_kind p) Error 0 (if ap_kind p = OpBatch then kAckNoFailedIndex else 0)
     else
       MakeAckResult (ap_kind p) OutcomeUnknown (ap_applied_count p)
         (if ap_kind p = OpBatch then ap_current_index p else 0))"

definition GuardResult :: "AckApplyProgress \<Rightarrow> ApplyOutcome \<Rightarrow> AckResultV1" where
  "GuardResult p out = (case out of Returned r \<Rightarrow> r | Threw \<Rightarrow> GuardFallback p)"

definition IsBatchPut :: "TransportSample \<Rightarrow> bool" where
  "IsBatchPut sample \<longleftrightarrow> ts_kind sample = SamplePut \<and> ts_encoding sample = kSitosV1Batch"

definition IsBufferBytes :: "TransportSample \<Rightarrow> bool" where
  "IsBufferBytes sample \<longleftrightarrow> ts_kind sample = SamplePut \<and> ts_encoding sample = ''zenoh/bytes''"

section \<open>Applying one write\<close>

datatype BufferWriteOutcome = Stored | Conflict | ReadFailed | WriteFailed

definition ApplyDurableBufferWrite :: "'e EngineOps \<Rightarrow> string \<Rightarrow> bytes \<Rightarrow> 'e \<Rightarrow> 'e \<times> BufferWriteOutcome" where
  "ApplyDurableBufferWrite ops key payload e =
    (case eng_get ops key e of
       None \<Rightarrow> (e, ReadFailed)
     | Some (Some v) \<Rightarrow> (e, if v = payload then Stored else Conflict)
     | Some None \<Rightarrow>
         (case eng_put ops key payload e of
            (e', ETrue) \<Rightarrow> (e', Stored)
          | (e', _) \<Rightarrow> (e', WriteFailed)))"

text \<open>The engine, the progress an acknowledged application reports, and the diagnostics.\<close>

record 'e ApplyState =
  as_engine :: 'e
  as_progress :: "AckApplyProgress option"
  as_diagnostics :: SubscriberDiagnostics

definition diagnose :: "LogLevel \<Rightarrow> string \<Rightarrow> 'e ApplyState \<Rightarrow> 'e ApplyState" where
  "diagnose level message st = st\<lparr>as_diagnostics := as_diagnostics st @ [(level, message)]\<rparr>"

definition set_invoked :: "'e ApplyState \<Rightarrow> 'e ApplyState" where
  "set_invoked st = st\<lparr>as_progress := map_option (\<lambda>p. p\<lparr>ap_engine_invoked := True\<rparr>) (as_progress st)\<rparr>"

definition ApplyWrite :: "'e EngineOps \<Rightarrow> string \<Rightarrow> TransportSample \<Rightarrow> 'e ApplyState \<Rightarrow> 'e ApplyState \<times> ApplyOutcome" where
  "ApplyWrite ops relative_key sample st =
    (if ts_kind sample = SampleDelete then
       let st = set_invoked st in
       case eng_delete ops relative_key (as_engine st) of
         (e', EThrow) \<Rightarrow> (st\<lparr>as_engine := e'\<rparr>, Threw)
       | (e', EFalse) \<Rightarrow> (diagnose kError ''subscriber DELETE failed'' (st\<lparr>as_engine := e'\<rparr>),
           Returned (PutFailure OutcomeUnknown))
       | (e', ETrue) \<Rightarrow> (st\<lparr>as_engine := e'\<rparr>, Returned (MakeAckResult OpPut Ok 1 kAckNoFailedIndex))
     else
       let unknown = (ts_encoding sample \<noteq> kSitosV1);
           st = (if unknown then diagnose kWarning ''unknown subscriber encoding; wrapped as bytes'' st else st);
           v = (if unknown then Encode (PV_Bytes (ts_payload sample)) else ts_payload sample) in
       if \<not> unknown \<and> as_progress st \<noteq> None \<and> Decode (ts_payload sample) = None then
         (diagnose kWarning ''invalid sitos.v1 payload; sample rejected'' st, Returned (PutFailure InvalidArgument))
       else
         let st = set_invoked st in
         case eng_put ops relative_key v (as_engine st) of
           (e', EThrow) \<Rightarrow> (st\<lparr>as_engine := e'\<rparr>, Threw)
         | (e', EFalse) \<Rightarrow> (diagnose kError ''subscriber PUT failed'' (st\<lparr>as_engine := e'\<rparr>),
             Returned (PutFailure OutcomeUnknown))
         | (e', ETrue) \<Rightarrow> (st\<lparr>as_engine := e'\<rparr>, Returned (MakeAckResult OpPut Ok 1 kAckNoFailedIndex)))"

text \<open>The validation loop of a batch: the index of the first entry with an invalid key.\<close>

fun FirstInvalidEntry :: "nat \<Rightarrow> BatchEntry list \<Rightarrow> nat option" where
  "FirstInvalidEntry i [] = None"
| "FirstInvalidEntry i (entry # rest) =
    (if \<not> IsValidKey (be_key entry) then Some i else FirstInvalidEntry (Suc i) rest)"

text \<open>The application loop, from entry \<open>i\<close> on.\<close>

fun ApplyEntries :: "'e EngineOps \<Rightarrow> nat \<Rightarrow> (string \<times> bytes) list \<Rightarrow> 'e ApplyState \<Rightarrow> 'e ApplyState \<times> ApplyOutcome" where
  "ApplyEntries ops i [] st = (st, Returned (MakeAckResult OpBatch Ok (of_nat i) kAckNoFailedIndex))"
| "ApplyEntries ops i ((k, v) # rest) st =
    (let st = st\<lparr>as_progress := map_option (\<lambda>p. p\<lparr>ap_current_index := of_nat i, ap_engine_invoked := True\<rparr>)
                   (as_progress st)\<rparr> in
     case eng_put ops k v (as_engine st) of
       (e', EThrow) \<Rightarrow> (st\<lparr>as_engine := e'\<rparr>, Threw)
     | (e', EFalse) \<Rightarrow> (diagnose kError ''subscriber PUT failed'' (st\<lparr>as_engine := e'\<rparr>),
         Returned (MakeAckResult OpBatch OutcomeUnknown (of_nat i) (of_nat i)))
     | (e', ETrue) \<Rightarrow> ApplyEntries ops (Suc i) rest
         (st\<lparr>as_engine := e',
             as_progress := map_option (\<lambda>p. p\<lparr>ap_applied_count := of_nat (Suc i)\<rparr>) (as_progress st)\<rparr>))"

definition EncodedBatchEntries :: "BatchEntry list \<Rightarrow> (string \<times> bytes) list" where
  "EncodedBatchEntries decoded = map (\<lambda>entry. (be_key entry, Encode (be_value entry))) decoded"

definition ApplyBatch :: "'e EngineOps \<Rightarrow> bytes \<Rightarrow> 'e ApplyState \<Rightarrow> 'e ApplyState \<times> ApplyOutcome" where
  "ApplyBatch ops payload st =
    (case DecodeBatch payload of
       None \<Rightarrow> (diagnose kWarning ''malformed batch payload'' st,
         Returned (MakeAckResult OpBatch InvalidArgument 0 kAckNoFailedIndex))
     | Some decoded \<Rightarrow>
         (case FirstInvalidEntry 0 decoded of
            Some i \<Rightarrow> (diagnose kWarning ''invalid batch entry key'' st,
              Returned (MakeAckResult OpBatch InvalidArgument 0 (of_nat i)))
          | None \<Rightarrow> ApplyEntries ops 0 (EncodedBatchEntries decoded) st))"

section \<open>Results a client can decode\<close>

lemma put_result_valid:
  "ack_result_valid (PutFailure s)" if "s \<noteq> Ok" "IsWireStatus s"
  using that by (simp add: ack_result_valid_def ValidateAckResult_def ValidateAckCommon_def PutFailure_def MakeAckResult_def
      ValidateAckPut_def IsOk_def Result_Ok_def kAckResultMaxMessageLength_def)

lemma put_ok_valid: "ack_result_valid (MakeAckResult OpPut Ok 1 kAckNoFailedIndex)"
  by (simp add: ack_result_valid_def ValidateAckResult_def ValidateAckCommon_def MakeAckResult_def
      ValidateAckPut_def IsOk_def Result_Ok_def kAckResultMaxMessageLength_def)

lemma batch_ok_valid: "ack_result_valid (MakeAckResult OpBatch Ok n kAckNoFailedIndex)"
  by (simp add: ack_result_valid_def ValidateAckResult_def ValidateAckCommon_def MakeAckResult_def
      ValidateAckBatch_def IsOk_def Result_Ok_def kAckResultMaxMessageLength_def)

lemma batch_rejection_valid: "s \<noteq> Ok \<Longrightarrow> s \<noteq> OutcomeUnknown \<Longrightarrow> IsWireStatus s \<Longrightarrow>
    ack_result_valid (MakeAckResult OpBatch s 0 i)"
  by (simp add: ack_result_valid_def ValidateAckResult_def ValidateAckCommon_def MakeAckResult_def
      ValidateAckBatch_def IsOk_def Result_Ok_def kAckResultMaxMessageLength_def)

lemma batch_unknown_valid: "i \<noteq> kAckNoFailedIndex \<Longrightarrow> ack_result_valid (MakeAckResult OpBatch OutcomeUnknown i i)"
  by (simp add: ack_result_valid_def ValidateAckResult_def ValidateAckCommon_def MakeAckResult_def
      ValidateAckBatch_def IsOk_def Result_Ok_def kAckResultMaxMessageLength_def)

lemma wire_statuses [simp]: "IsWireStatus InvalidArgument" "IsWireStatus NotFound" "IsWireStatus StateLost"
  "IsWireStatus InvalidKey" "IsWireStatus ReadOnly" "IsWireStatus CatalogUnavailable"
  by (simp_all add: IsWireStatus_def)

section \<open>Stop-first batches\<close>

definition puts :: "'e EngineOps \<Rightarrow> (string \<times> bytes) list \<Rightarrow> 'e \<Rightarrow> 'e" where
  "puts ops es e = fold (\<lambda>(k, v) e. fst (eng_put ops k v e)) es e"

definition reply_at :: "'e EngineOps \<Rightarrow> (string \<times> bytes) list \<Rightarrow> 'e \<Rightarrow> nat \<Rightarrow> EngineReply" where
  "reply_at ops es e j = snd (eng_put ops (fst (es ! j)) (snd (es ! j)) (puts ops (take j es) e))"

lemma puts_Cons: "puts ops ((k, v) # es) e = puts ops es (fst (eng_put ops k v e))"
  by (simp add: puts_def)

lemma puts_Nil [simp]: "puts ops [] e = e"
  by (simp add: puts_def)

lemma reply_at_Cons: "reply_at ops ((k, v) # es) e (Suc j) = reply_at ops es (fst (eng_put ops k v e)) j"
  by (simp add: reply_at_def puts_Cons)

lemma reply_at_0: "reply_at ops ((k, v) # es) e 0 = snd (eng_put ops k v e)"
  by (simp add: reply_at_def)

text \<open>What the loop leaves behind: \<open>n\<close> entries were stored, and either that is all of them or
  entry \<open>n\<close> was the last one tried.\<close>

definition loop_end :: "'e EngineOps \<Rightarrow> (string \<times> bytes) list \<Rightarrow> 'e \<Rightarrow> nat \<Rightarrow> nat \<Rightarrow> 'e \<Rightarrow> ApplyOutcome \<Rightarrow> bool" where
  "loop_end ops es e i n e' out \<longleftrightarrow> n \<le> length es \<and> (\<forall>j<n. reply_at ops es e j = ETrue) \<and>
     (if n = length es then
        e' = puts ops es e \<and> out = Returned (MakeAckResult OpBatch Ok (of_nat (i + n)) kAckNoFailedIndex)
      else e' = puts ops (take (Suc n) es) e \<and> reply_at ops es e n \<noteq> ETrue \<and>
        out = (if reply_at ops es e n = EThrow then Threw
               else Returned (MakeAckResult OpBatch OutcomeUnknown (of_nat (i + n)) (of_nat (i + n)))))"

definition loop_progress :: "nat \<Rightarrow> nat \<Rightarrow> AckApplyProgress \<Rightarrow> AckApplyProgress \<Rightarrow> bool" where
  "loop_progress i n p p' \<longleftrightarrow> ap_kind p' = ap_kind p \<and> ap_engine_invoked p' \<and>
     ap_current_index p' = of_nat (i + n) \<and> ap_applied_count p' = (if n = 0 then ap_applied_count p else of_nat (i + n))"

lemma loop_end_Cons:
  assumes "eng_put ops k v e = (e1, ETrue)" "loop_end ops es e1 (Suc i) n e' out"
  shows "loop_end ops ((k, v) # es) e i (Suc n) e' out"
  using assms by (auto simp: loop_end_def puts_Cons reply_at_Cons reply_at_0 less_Suc_eq_0_disj)

lemma ApplyEntries_spec:
  "ApplyEntries ops i es st = (st', out) \<Longrightarrow>
     \<exists>n. loop_end ops es (as_engine st) i n (as_engine st') out \<and>
       (\<forall>p. as_progress st = Some p \<and> n < length es \<longrightarrow> (\<exists>p'. as_progress st' = Some p' \<and> loop_progress i n p p'))"
proof (induction es arbitrary: i st)
  case Nil
  then show ?case by (intro exI[of _ 0]) (auto simp: loop_end_def)
next
  case (Cons kv es)
  obtain k v where kv: "kv = (k, v)" by (cases kv)
  define p1 where "p1 = map_option (\<lambda>p. p\<lparr>ap_current_index := of_nat i, ap_engine_invoked := True\<rparr>) (as_progress st)"
  obtain e1 reply where r: "eng_put ops k v (as_engine st) = (e1, reply)" by fastforce
  show ?case
  proof (cases reply)
    case ETrue
    define st1 where "st1 = st\<lparr>as_engine := e1, as_progress := map_option (\<lambda>p. p\<lparr>ap_applied_count := of_nat (Suc i)\<rparr>) p1\<rparr>"
    have "ApplyEntries ops (Suc i) es st1 = (st', out)"
      using Cons.prems r ETrue by (simp add: kv Let_def st1_def p1_def)
    from Cons.IH[OF this] obtain n where n: "loop_end ops es e1 (Suc i) n (as_engine st') out"
      "\<And>p. as_progress st1 = Some p \<Longrightarrow> n < length es \<Longrightarrow> \<exists>p'. as_progress st' = Some p' \<and> loop_progress (Suc i) n p p'"
      by (auto simp: st1_def)
    have "loop_end ops (kv # es) (as_engine st) i (Suc n) (as_engine st') out"
      unfolding kv by (rule loop_end_Cons[OF r[unfolded ETrue] n(1)])
    moreover have "\<exists>p'. as_progress st' = Some p' \<and> loop_progress i (Suc n) p p'"
      if "as_progress st = Some p" "Suc n < length (kv # es)" for p
    proof -
      have "as_progress st1 = Some (p\<lparr>ap_current_index := of_nat i, ap_engine_invoked := True, ap_applied_count := of_nat (Suc i)\<rparr>)"
        using that(1) by (simp add: st1_def p1_def)
      from n(2)[OF this] that(2) obtain p' where "as_progress st' = Some p'"
        "loop_progress (Suc i) n (p\<lparr>ap_current_index := of_nat i, ap_engine_invoked := True, ap_applied_count := of_nat (Suc i)\<rparr>) p'"
        by auto
      then show ?thesis by (auto simp: loop_progress_def)
    qed
    ultimately show ?thesis by (intro exI[of _ "Suc n"]) blast
  next
    case EFalse
    then show ?thesis
      using Cons.prems r by (intro exI[of _ 0])
        (auto simp: kv Let_def loop_end_def reply_at_0 puts_Cons diagnose_def loop_progress_def)
  next
    case EThrow
    then show ?thesis
      using Cons.prems r by (intro exI[of _ 0])
        (auto simp: kv Let_def loop_end_def reply_at_0 puts_Cons loop_progress_def)
  qed
qed

lemma FirstInvalid_None: "FirstInvalidEntry i es = None \<longleftrightarrow> (\<forall>e\<in>set es. IsValidKey (be_key e))"
  by (induction es arbitrary: i) auto

lemma FirstInvalid_Some: "FirstInvalidEntry i es = Some n \<Longrightarrow> i \<le> n \<and> n < i + length es \<and>
    \<not> IsValidKey (be_key (es ! (n - i))) \<and> (\<forall>j<n - i. IsValidKey (be_key (es ! j)))"
proof (induction es arbitrary: i)
  case (Cons e es)
  show ?case
  proof (cases "IsValidKey (be_key e)")
    case True
    with Cons.prems Cons.IH[of "Suc i"] have h: "Suc i \<le> n" "n < Suc i + length es"
      "\<not> IsValidKey (be_key (es ! (n - Suc i)))" "\<forall>j<n - Suc i. IsValidKey (be_key (es ! j))" by auto
    then have "n - i = Suc (n - Suc i)" by simp
    with h True show ?thesis by (auto simp: less_Suc_eq_0_disj)
  qed (use Cons.prems in auto)
qed simp

lemma DecodeBatch_count: "DecodeBatch payload = Some es \<Longrightarrow> length es < 2 ^ 32"
  using DecodeBatch_SomeD[of payload es] by (auto dest: list_all2_lengthD)

lemma index_below_sentinel: "n < length es \<Longrightarrow> length es < 2 ^ 32 \<Longrightarrow> (of_nat n :: u32) \<noteq> kAckNoFailedIndex"
proof
  assume n: "n < length es" "length es < 2 ^ 32" and eq: "(of_nat n :: u32) = kAckNoFailedIndex"
  have "n = unat (of_nat n :: u32)" using n by (simp add: unat_of_nat)
  also have "\<dots> = 2 ^ 32 - 1" by (simp add: eq kAckNoFailedIndex_def)
  finally show False using n by simp
qed

section \<open>Every result is valid\<close>

lemma ApplyWrite_valid: "ApplyWrite ops k sample st = (st', Returned r) \<Longrightarrow> ack_result_valid r"
  by (auto simp: ApplyWrite_def Let_def put_result_valid put_ok_valid
      split: if_splits prod.splits EngineReply.splits)

lemma ApplyBatch_valid:
  assumes "ApplyBatch ops payload st = (st', Returned r)"
  shows "ack_result_valid r"
proof (cases "DecodeBatch payload")
  case None
  with assms show ?thesis by (auto simp: ApplyBatch_def batch_rejection_valid)
next
  case (Some es)
  show ?thesis
  proof (cases "FirstInvalidEntry 0 es")
    case None
    with assms Some have "ApplyEntries ops 0 (EncodedBatchEntries es) st = (st', Returned r)" by (simp add: ApplyBatch_def)
    from ApplyEntries_spec[OF this] obtain n where n: "loop_end ops (EncodedBatchEntries es) (as_engine st) 0 n (as_engine st') (Returned r)"
      by blast
    have len: "length (EncodedBatchEntries es) = length es" by (simp add: EncodedBatchEntries_def)
    show ?thesis
    proof (cases "n = length es")
      case True
      with n len show ?thesis by (auto simp: loop_end_def batch_ok_valid)
    next
      case False
      with n len have "n < length es" by (auto simp: loop_end_def)
      with n len False index_below_sentinel[OF _ DecodeBatch_count[OF Some], of n] show ?thesis
        by (auto simp: loop_end_def batch_unknown_valid split: if_splits)
    qed
  next
    case (Some i)
    with assms \<open>DecodeBatch payload = Some es\<close> show ?thesis by (auto simp: ApplyBatch_def batch_rejection_valid)
  qed
qed

section \<open>What the node relies on of an engine\<close>

text \<open>
  The documented contract of a storage engine as the node uses it, seen as a map: a lookup that
  does not throw returns what is stored; a confirmed put or delete is visible; a call on one key,
  whatever it reports, leaves every other key alone.
\<close>

locale node_engine =
  fixes ops :: "'e EngineOps"
    and wf :: "'e \<Rightarrow> bool"
    and content :: "'e \<Rightarrow> string \<rightharpoonup> bytes"
  assumes get_content: "wf e \<Longrightarrow> eng_get ops k e = Some found \<Longrightarrow> found = content e k"
    and put_wf: "wf e \<Longrightarrow> wf (fst (eng_put ops k v e))"
    and put_content: "wf e \<Longrightarrow> eng_put ops k v e = (e', ETrue) \<Longrightarrow> content e' = (content e)(k \<mapsto> v)"
    and put_frame: "wf e \<Longrightarrow> k' \<noteq> k \<Longrightarrow> content (fst (eng_put ops k v e)) k' = content e k'"
    and delete_wf: "wf e \<Longrightarrow> wf (fst (eng_delete ops k e))"
    and delete_content: "wf e \<Longrightarrow> eng_delete ops k e = (e', ETrue) \<Longrightarrow> content e' = (content e)(k := None)"
    and delete_frame: "wf e \<Longrightarrow> k' \<noteq> k \<Longrightarrow> content (fst (eng_delete ops k e)) k' = content e k'"
begin

lemma puts_wf: "wf e \<Longrightarrow> wf (puts ops es e)"
  by (induction es arbitrary: e) (auto simp: puts_Cons put_wf)

lemma puts_content:
  "wf e \<Longrightarrow> \<forall>j<length es. reply_at ops es e j = ETrue \<Longrightarrow> content (puts ops es e) = content e ++ map_of (rev es)"
proof (induction es arbitrary: e)
  case (Cons kv es)
  obtain k v where kv: "kv = (k, v)" by (cases kv)
  have r: "eng_put ops k v e = (fst (eng_put ops k v e), ETrue)"
    using Cons.prems(2)[THEN spec[of _ 0]] kv by (simp add: reply_at_0 prod_eq_iff)
  have rest: "\<forall>j<length es. reply_at ops es (fst (eng_put ops k v e)) j = ETrue"
    using Cons.prems(2) unfolding kv by (metis Suc_less_eq length_Cons reply_at_Cons)
  show ?case
    using Cons.IH[OF put_wf[OF Cons.prems(1)] rest] put_content[OF Cons.prems(1) r]
    by (simp add: kv puts_Cons fun_eq_iff map_add_def split: option.splits)
qed simp

lemma buffer_write_wf: "wf e \<Longrightarrow> wf (fst (ApplyDurableBufferWrite ops k p e))"
  using put_wf[of e k p] by (auto simp: ApplyDurableBufferWrite_def split: option.splits prod.splits EngineReply.splits)

lemma buffer_write_stored:
  "wf e \<Longrightarrow> snd (ApplyDurableBufferWrite ops k p e) = Stored \<Longrightarrow> content (fst (ApplyDurableBufferWrite ops k p e)) k = Some p"
  using get_content[of e k] put_content[of e k p]
  by (auto simp: ApplyDurableBufferWrite_def split: option.splits prod.splits EngineReply.splits if_splits)

lemma buffer_write_once:
  "wf e \<Longrightarrow> content e k = Some v \<Longrightarrow> content (fst (ApplyDurableBufferWrite ops k' p e)) k = Some v"
proof (cases "k' = k")
  case True
  assume "wf e" "content e k = Some v"
  then show ?thesis using get_content[of e k] True
    by (auto simp: ApplyDurableBufferWrite_def split: option.splits)
next
  case False
  assume "wf e" "content e k = Some v"
  then show ?thesis using put_frame[of e k k' p] False
    by (auto simp: ApplyDurableBufferWrite_def split: option.splits prod.splits EngineReply.splits)
qed

lemma buffer_writes_once:
  "wf e \<Longrightarrow> content e k = Some v \<Longrightarrow>
     content (fold (\<lambda>(k, p) e. fst (ApplyDurableBufferWrite ops k p e)) ws e) k = Some v"
  by (induction ws arbitrary: e) (auto simp: buffer_write_once buffer_write_wf)

end

lemma in_memory_get [simp]: "eng_get InMemoryOps k e = Some (map_of (ime_data e) k)"
  by (simp add: InMemoryOps_def InMemoryEngine_Get_def last_sink_def split: option.split)

lemma in_memory_put [simp]: "eng_put InMemoryOps k v e = (e\<lparr>ime_data := map_insert k v (ime_data e)\<rparr>, ETrue)"
  by (simp add: InMemoryOps_def InMemoryEngine_Put_def reply_of_def)

lemma in_memory_delete [simp]: "eng_delete InMemoryOps k e = (e\<lparr>ime_data := map_erase k (ime_data e)\<rparr>, ETrue)"
  by (simp add: InMemoryOps_def InMemoryEngine_Delete_def reply_of_def)

interpretation in_memory_node: node_engine InMemoryOps "\<lambda>e. map_wf (ime_data e)" ime_content
  by unfold_locales (auto simp: ime_content_def map_insert_wf map_erase_wf map_of_map_erase)

section \<open>Properties\<close>

text \<open>C22: a batch is validated completely before the first engine call and then applied in the
  caller's order, stopping at the first failure.  A rejected batch leaves the engine untouched;
  success means every entry was stored; an unknown outcome names, in both its count and its
  index, exactly how many entries were stored before the one that failed; and nothing after
  that entry was tried.\<close>

theorem batch_stop_first:
  assumes "ApplyBatch ops payload st = (st', Returned r)"
  shows "(ar_status r = InvalidArgument \<and> as_engine st' = as_engine st) \<or>
    (\<exists>es n. DecodeBatch payload = Some es \<and> (\<forall>e\<in>set es. IsValidKey (be_key e)) \<and>
       n = unat (ar_applied_count r) \<and> n \<le> length es \<and>
       (\<forall>j<n. reply_at ops (EncodedBatchEntries es) (as_engine st) j = ETrue) \<and>
       as_engine st' = puts ops (take (Suc n) (EncodedBatchEntries es)) (as_engine st) \<and>
       (ar_status r = Ok \<longleftrightarrow> n = length es) \<and>
       (n < length es \<longrightarrow> ar_status r = OutcomeUnknown \<and> unat (ar_failed_index r) = n \<and>
          reply_at ops (EncodedBatchEntries es) (as_engine st) n = EFalse))"
proof (cases "DecodeBatch payload")
  case None
  with assms show ?thesis by (auto simp: ApplyBatch_def MakeAckResult_def diagnose_def)
next
  case (Some es)
  show ?thesis
  proof (cases "FirstInvalidEntry 0 es")
    case None
    let ?es = "EncodedBatchEntries es"
    have len: "length ?es = length es" by (simp add: EncodedBatchEntries_def)
    from None assms Some have "ApplyEntries ops 0 ?es st = (st', Returned r)" by (simp add: ApplyBatch_def)
    from ApplyEntries_spec[OF this] obtain n where n: "loop_end ops ?es (as_engine st) 0 n (as_engine st') (Returned r)"
      by blast
    then have "n \<le> length es" using len by (simp add: loop_end_def)
    then have "unat (of_nat n :: u32) = n" using DecodeBatch_count[OF Some] by (simp add: unat_of_nat)
    moreover have "reply_at ops ?es (as_engine st) n = EFalse" if "n \<noteq> length es"
      using n that len by (cases "reply_at ops ?es (as_engine st) n") (auto simp: loop_end_def)
    ultimately have "n = unat (ar_applied_count r) \<and> n \<le> length es \<and>
       (\<forall>j<n. reply_at ops ?es (as_engine st) j = ETrue) \<and>
       as_engine st' = puts ops (take (Suc n) ?es) (as_engine st) \<and> (ar_status r = Ok \<longleftrightarrow> n = length es) \<and>
       (n < length es \<longrightarrow> ar_status r = OutcomeUnknown \<and> unat (ar_failed_index r) = n \<and>
          reply_at ops ?es (as_engine st) n = EFalse)"
      using n len by (auto simp: loop_end_def MakeAckResult_def split: if_splits)
    with Some None show ?thesis by (auto simp: FirstInvalid_None)
  next
    case (Some i)
    with assms \<open>DecodeBatch payload = Some es\<close> show ?thesis
      by (auto simp: ApplyBatch_def MakeAckResult_def diagnose_def)
  qed
qed

definition example_batch :: "BatchEntry list" where
  "example_batch = [\<lparr>be_key = ''a/x'', be_value = PV_Bool True\<rparr>, \<lparr>be_key = ''a/y'', be_value = PV_Bool False\<rparr>]"

text \<open>An engine that refuses every key but one.\<close>

definition ExampleOps :: "InMemoryEngine EngineOps" where
  "ExampleOps = InMemoryOps\<lparr>eng_put := (\<lambda>k v e.
     if k = ''a/x'' then (e\<lparr>ime_data := map_insert k v (ime_data e)\<rparr>, ETrue) else (e, EFalse))\<rparr>"

lemma example_batch_decodes: "DecodeBatch (EncodeBatch example_batch) = Some example_batch"
  by code_simp

lemma example_batch_result:
  "ApplyBatch ExampleOps (EncodeBatch example_batch) \<lparr>as_engine = empty_engine, as_progress = None, as_diagnostics = []\<rparr> =
    (\<lparr>as_engine = \<lparr>ime_data = [(''a/x'', [0, 1])]\<rparr>, as_progress = None, as_diagnostics = [(kError, ''subscriber PUT failed'')]\<rparr>,
     Returned (MakeAckResult OpBatch OutcomeUnknown 1 1))"
  by code_simp

theorem batch_stop_first_witness:
  "\<exists>es. DecodeBatch (EncodeBatch example_batch) = Some es \<and> reply_at ExampleOps (EncodedBatchEntries es) empty_engine 0 = ETrue"
  using batch_stop_first[OF example_batch_result] by (auto simp: MakeAckResult_def)

text \<open>C24: durable buffer entries are written once.  Over any engine that keeps its contract, a put
  that reports success has stored its payload, and whatever sequence of buffer writes follows, a
  stored entry keeps its value: a second put of the same bytes succeeds without writing, a put of
  other bytes is a conflict.\<close>

theorem buffer_entries_write_once:
  assumes "node_engine ops good content" "good e" "ApplyDurableBufferWrite ops key payload e = (e', Stored)"
  shows "content (fold (\<lambda>(k, p) e. fst (ApplyDurableBufferWrite ops k p e)) ws e') key = Some payload"
  using node_engine.buffer_writes_once[OF assms(1)] node_engine.buffer_write_wf[OF assms(1,2), of key payload]
    node_engine.buffer_write_stored[OF assms(1,2), of key payload] assms(3) by simp

theorem buffer_entries_write_once_witness:
  "ime_content (fold (\<lambda>(k, p) e. fst (ApplyDurableBufferWrite InMemoryOps k p e)) [(''b'', [9])] \<lparr>ime_data = [(''b'', [1])]\<rparr>) ''b'' = Some [1]"
proof -
  have "ApplyDurableBufferWrite InMemoryOps ''b'' [1] empty_engine = (\<lparr>ime_data = [(''b'', [1])]\<rparr>, Stored)"
    by (simp add: ApplyDurableBufferWrite_def empty_engine_def)
  moreover have "map_wf (ime_data empty_engine)" by (simp add: empty_engine_def)
  ultimately show ?thesis using buffer_entries_write_once[OF in_memory_node.node_engine_axioms] by blast
qed

end
