(* ===== verification/NodeState.thy ===== *)
theory NodeState
  imports NodeApply CatalogStore FenceDispatch
begin

text \<open>
  The state of a running storage node, \<open>State\<close> and \<open>SessionRecord\<close> of
  \<open>include/sitos/storage_node.hpp\<close>, with the admission gates both have.  The base engine and
  the durable buffer engines are of the type \<open>'e\<close>, the catalog database of the type \<open>'d\<close>; a
  session's overlay is the in-memory engine and its snapshot the content that was copied.
\<close>

record SessionOptions =
  so_durable_buffers :: bool
  so_ephemeral_buffers :: bool

record SessionMeta =
  sm_created_at :: string
  sm_generation_uuid :: string

datatype Phase = Creating | Active | Closing

record 'e SessionRecord =
  sr_phase :: Phase
  sr_accepting :: bool
  sr_admitted :: nat
  sr_lifecycle :: SessionLifecycleState
  sr_catalogued :: bool
  sr_reconciled :: bool
  sr_snapshot :: "entries option"
  sr_overlay :: "InMemoryEngine option"
  sr_durable_buffers :: "'e option"
  sr_options :: SessionOptions
  sr_metadata :: SessionMeta
  sr_generation_uuid :: FenceUuid
  sr_fence_dispatch :: "(nat \<times> nat) option"
  sr_liveliness_token :: "string option"

definition NewSessionRecord :: "'e SessionRecord" where
  "NewSessionRecord = \<lparr>sr_phase = Creating, sr_accepting = False, sr_admitted = 0, sr_lifecycle = kActive,
     sr_catalogued = False, sr_reconciled = False, sr_snapshot = None, sr_overlay = None,
     sr_durable_buffers = None, sr_options = \<lparr>so_durable_buffers = False, so_ephemeral_buffers = False\<rparr>,
     sr_metadata = \<lparr>sm_created_at = '''', sm_generation_uuid = ''''\<rparr>, sr_generation_uuid = replicate 16 0,
     sr_fence_dispatch = None, sr_liveliness_token = None\<rparr>"

definition TryAcquire :: "'e SessionRecord \<Rightarrow> 'e SessionRecord option" where
  "TryAcquire r =
    (if sr_phase r \<noteq> Active \<or> \<not> sr_accepting r then None
     else Some (r\<lparr>sr_admitted := sr_admitted r + 1\<rparr>))"

definition SessionActivate :: "'e SessionRecord \<Rightarrow> 'e SessionRecord \<times> bool" where
  "SessionActivate r =
    (if sr_phase r \<noteq> Creating then (r, False)
     else (r\<lparr>sr_phase := Active, sr_accepting := True\<rparr>, True))"

definition IsActive :: "'e SessionRecord \<Rightarrow> bool" where
  "IsActive r \<longleftrightarrow> sr_phase r = Active"

definition BeginClose :: "'e SessionRecord \<Rightarrow> 'e SessionRecord \<times> bool" where
  "BeginClose r =
    (if sr_phase r \<noteq> Active then (r, False)
     else (r\<lparr>sr_phase := Closing, sr_accepting := False\<rparr>, True))"

definition AdmissionDrained :: "'e SessionRecord \<Rightarrow> bool" where
  "AdmissionDrained r \<longleftrightarrow> sr_admitted r = 0"

definition LeaveAdmission :: "'e SessionRecord \<Rightarrow> 'e SessionRecord" where
  "LeaveAdmission r = (if sr_admitted r = 0 then r else r\<lparr>sr_admitted := sr_admitted r - 1\<rparr>)"

record ('e, 'd) NodeState =
  ns_engine :: 'e
  ns_prefix :: string
  ns_ack_registry :: Registry
  ns_catalog_mode :: bool
  ns_instance_id :: string
  ns_catalog :: "'d CatalogImpl option"
  ns_catalog_unavailable :: bool
  ns_fence_dispatcher :: "Coordinator option"
  ns_fence_receiver :: FenceReceiverRegistry
  ns_in_flight :: nat
  ns_accepting :: bool
  ns_sessions :: "string \<rightharpoonup> 'e SessionRecord"
  ns_log :: SubscriberDiagnostics

definition Enter :: "('e, 'd) NodeState \<Rightarrow> ('e, 'd) NodeState option" where
  "Enter st = (if \<not> ns_accepting st then None else Some (st\<lparr>ns_in_flight := ns_in_flight st + 1\<rparr>))"

definition NodeActivate :: "('e, 'd) NodeState \<Rightarrow> ('e, 'd) NodeState" where
  "NodeActivate st = st\<lparr>ns_accepting := True\<rparr>"

definition Deactivate :: "('e, 'd) NodeState \<Rightarrow> ('e, 'd) NodeState" where
  "Deactivate st = st\<lparr>ns_accepting := False\<rparr>"

definition Leave :: "('e, 'd) NodeState \<Rightarrow> ('e, 'd) NodeState" where
  "Leave st = (if ns_in_flight st = 0 then st else st\<lparr>ns_in_flight := ns_in_flight st - 1\<rparr>)"

definition EmitDiagnostics :: "SubscriberDiagnostics \<Rightarrow> ('e, 'd) NodeState \<Rightarrow> ('e, 'd) NodeState" where
  "EmitDiagnostics ds st = st\<lparr>ns_log := ns_log st @ ds\<rparr>"

definition set_session :: "string \<Rightarrow> 'e SessionRecord \<Rightarrow> ('e, 'd) NodeState \<Rightarrow> ('e, 'd) NodeState" where
  "set_session sid r st = st\<lparr>ns_sessions := (ns_sessions st)(sid \<mapsto> r)\<rparr>"

text \<open>\<open>AcquireSession\<close>: the record that could be admitted.  The lease is returned when the caller
  is done, and the call that took it runs to its end, so the pair is left out here; the
  interleaving of admissions with a close is the step relation of the session life cycle.\<close>

definition AcquireSession :: "string \<Rightarrow> ('e, 'd) NodeState \<Rightarrow> 'e SessionRecord option" where
  "AcquireSession sid st = (case ns_sessions st sid of
     None \<Rightarrow> None
   | Some r \<Rightarrow> if TryAcquire r = None then None else Some r)"

end
