(* ===== verification/NodeSample.thy ===== *)
theory NodeSample
  imports NodeState
begin

text \<open>
  The subscriber side of the storage node, \<open>OnSample\<close>, \<open>ApplyParameterSample\<close>,
  \<open>ApplyAcknowledgedSample\<close>, \<open>RejectReentrantAcknowledgedSample\<close>, \<open>ApplyBufferFenceMarker\<close> and
  \<open>DispatchSample\<close> of \<open>src/storage_node.cpp\<close>.  A sample is applied under the application lane,
  so its application is one function on the node state; a reentrant sample, from inside an
  engine call of the same thread, is the parameter \<open>reentrant\<close>.  Test hooks are left out.
\<close>

text \<open>What one application reports: the acknowledgement progress (none for an
  acknowledgement-free sample), the fence progress, and diagnostics.\<close>

record ApplyContext =
  cx_progress :: "AckApplyProgress option"
  cx_application_started :: bool
  cx_completion_retained :: bool
  cx_diagnostics :: SubscriberDiagnostics

definition cx_diagnose :: "LogLevel \<Rightarrow> string \<Rightarrow> ApplyContext \<Rightarrow> ApplyContext" where
  "cx_diagnose level message cx = cx\<lparr>cx_diagnostics := cx_diagnostics cx @ [(level, message)]\<rparr>"

section \<open>Parameter and buffer samples\<close>

text \<open>Running an engine application on the base engine or on a session's overlay.\<close>

definition on_base :: "('e ApplyState \<Rightarrow> 'e ApplyState \<times> ApplyOutcome) \<Rightarrow>
    ('e, 'd) NodeState \<times> ApplyContext \<Rightarrow> (('e, 'd) NodeState \<times> ApplyContext) \<times> ApplyOutcome" where
  "on_base f = (\<lambda>(st, cx).
     case f \<lparr>as_engine = ns_engine st, as_progress = cx_progress cx, as_diagnostics = cx_diagnostics cx\<rparr> of
       (a, out) \<Rightarrow> ((st\<lparr>ns_engine := as_engine a\<rparr>,
                    cx\<lparr>cx_progress := as_progress a, cx_diagnostics := as_diagnostics a\<rparr>), out))"

definition on_overlay :: "string \<Rightarrow> 'e SessionRecord \<Rightarrow> InMemoryEngine \<Rightarrow>
    (InMemoryEngine ApplyState \<Rightarrow> InMemoryEngine ApplyState \<times> ApplyOutcome) \<Rightarrow>
    ('e, 'd) NodeState \<times> ApplyContext \<Rightarrow> (('e, 'd) NodeState \<times> ApplyContext) \<times> ApplyOutcome" where
  "on_overlay sid r overlay f = (\<lambda>(st, cx).
     case f \<lparr>as_engine = overlay, as_progress = cx_progress cx, as_diagnostics = cx_diagnostics cx\<rparr> of
       (a, out) \<Rightarrow> ((set_session sid (r\<lparr>sr_overlay := Some (as_engine a)\<rparr>) st,
                    cx\<lparr>cx_progress := as_progress a, cx_diagnostics := as_diagnostics a\<rparr>), out))"

text \<open>The session branches of parameter writes: look the session up, refuse an unknown one and
  one whose parameter state was released, otherwise write to its overlay.\<close>

definition on_session :: "string \<Rightarrow> (Status \<Rightarrow> AckResultV1) \<Rightarrow>
    (InMemoryEngine ApplyState \<Rightarrow> InMemoryEngine ApplyState \<times> ApplyOutcome) \<Rightarrow>
    ('e, 'd) NodeState \<times> ApplyContext \<Rightarrow> (('e, 'd) NodeState \<times> ApplyContext) \<times> ApplyOutcome" where
  "on_session sid failure f = (\<lambda>(st, cx).
     case AcquireSession sid st of
       None \<Rightarrow> ((st, cx_diagnose kWarning ''unknown session'' cx), Returned (failure NotFound))
     | Some r \<Rightarrow>
         (case sr_overlay r of
            Some overlay \<Rightarrow>
              if sr_lifecycle r \<noteq> kActive
              then ((st, cx_diagnose kWarning ''session parameter state was released; write rejected'' cx),
                    Returned (failure StateLost))
              else on_overlay sid r overlay f (st, cx)
          | None \<Rightarrow> ((st, cx_diagnose kWarning ''session parameter state was released; write rejected'' cx),
                    Returned (failure StateLost))))"

text \<open>The effect of a buffer sample on its session: the durable engine after it, the failure the
  fence proof records, whether application started, and the diagnostic.\<close>

definition BufferEffect :: "'e EngineOps \<Rightarrow> bool \<Rightarrow> BufferClass \<Rightarrow> string \<Rightarrow> TransportSample \<Rightarrow> 'e SessionRecord \<Rightarrow>
    'e SessionRecord \<times> Status option \<times> bool \<times> SubscriberDiagnostics" where
  "BufferEffect ops catalog_unavailable bc relative_key sample r =
    (if ts_kind sample = SampleDelete then
       (r, Some InvalidArgument, False, [(kWarning, ''unsupported buffer operation'')])
     else if \<not> IsBufferBytes sample then
       (r, Some InvalidArgument, False, [(kWarning, ''buffer encoding rejected'')])
     else if bc = Ephemeral then
       (if \<not> so_ephemeral_buffers (sr_options r) then
          (r, Some InvalidArgument, False, [(kWarning, ''buffer capability disabled'')])
        else (r, None, True, []))
     else case sr_durable_buffers r of
       None \<Rightarrow> (r, Some InvalidArgument, False, [(kWarning, ''buffer capability disabled'')])
     | Some e \<Rightarrow>
         if \<not> so_durable_buffers (sr_options r) then
           (r, Some InvalidArgument, False, [(kWarning, ''buffer capability disabled'')])
         else if sr_catalogued r \<and> catalog_unavailable then
           (r, Some CatalogUnavailable, False, [(kWarning,
              ''durable session catalog unavailable; readiness latched false until offline repair and restart'')])
         else if sr_reconciled r then
           (r, Some InvalidArgument, False,
              [(kWarning, ''reconciled durable store serves reads only; buffer write rejected'')])
         else (case ApplyDurableBufferWrite ops relative_key (ts_payload sample) e of
             (e', Conflict) \<Rightarrow> (r\<lparr>sr_durable_buffers := Some e'\<rparr>, Some InvalidArgument, False,
                [(kWarning, ''durable buffer PUT conflicts with existing value'')])
           | (e', ReadFailed) \<Rightarrow> (r\<lparr>sr_durable_buffers := Some e'\<rparr>, Some Error, False,
                [(kError, ''durable buffer read before PUT failed'')])
           | (e', WriteFailed) \<Rightarrow> (r\<lparr>sr_durable_buffers := Some e'\<rparr>, Some OutcomeUnknown, True,
                [(kError, ''durable buffer PUT failed'')])
           | (e', Stored) \<Rightarrow> (r\<lparr>sr_durable_buffers := Some e'\<rparr>, None, True, [])))"

definition ApplyBufferSample :: "'e EngineOps \<Rightarrow> bool \<Rightarrow> ParsedKey \<Rightarrow> TransportSample \<Rightarrow>
    ('e, 'd) NodeState \<times> ApplyContext \<Rightarrow> (('e, 'd) NodeState \<times> ApplyContext) \<times> ApplyOutcome" where
  "ApplyBufferSample ops preadmitted k sample = (\<lambda>(st, cx).
    if cx_progress cx \<noteq> None then
      ((st, cx_diagnose kWarning ''acknowledgement not supported for this operation; sample rejected'' cx),
       Returned (PutFailure InvalidArgument))
    else case AcquireSession (pk_sid k) st of
      None \<Rightarrow>
        (let cx = cx_diagnose kWarning ''unknown session'' cx;
             st = (case (ns_sessions st (pk_sid k), pk_buffer_class k, ts_fence_lane sample) of
               (Some r, Some bc, FenceLaneObserved lane) \<Rightarrow>
                 if preadmitted then st\<lparr>ns_fence_receiver := CompleteBufferObservation (pk_sid k) (sr_generation_uuid r) bc
                     (flm_publisher_uuid lane) (flm_sequence lane) (Some InvalidArgument) (ns_fence_receiver st)\<rparr>
                 else st
             | _ \<Rightarrow> st)
         in ((st, cx), Returned (PutFailure InvalidArgument)))
    | Some r \<Rightarrow>
        (case pk_buffer_class k of
           None \<Rightarrow> ((st, cx_diagnose kWarning ''unsupported buffer operation'' cx), Returned (PutFailure InvalidArgument))
         | Some bc \<Rightarrow>
             (case ts_fence_lane sample of
                FenceLaneMalformed pub q \<Rightarrow>
                  ((st\<lparr>ns_fence_receiver := fst (RecordMalformedBuffer (pk_sid k) (sr_generation_uuid r) bc pub q
                      (ns_fence_receiver st))\<rparr>, cx), Returned (PutFailure InvalidArgument))
              | FenceLaneAbsent \<Rightarrow>
                  (case BufferEffect ops (ns_catalog_unavailable st) bc (pk_relative_key k) sample r of
                     (r', failure, started, ds) \<Rightarrow>
                       ((set_session (pk_sid k) r' st,
                         cx\<lparr>cx_application_started := cx_application_started cx \<or> started,
                            cx_diagnostics := cx_diagnostics cx @ ds\<rparr>), Returned (PutFailure InvalidArgument)))
              | FenceLaneObserved lane \<Rightarrow>
                  (case (if preadmitted then (ns_fence_receiver st, True)
                         else AdmitBufferObservation (pk_sid k) (sr_generation_uuid r) bc (flm_publisher_uuid lane)
                           (flm_sequence lane) (ns_fence_receiver st)) of
                     (rg, False) \<Rightarrow> ((st\<lparr>ns_fence_receiver := rg\<rparr>, cx), Returned (PutFailure InvalidArgument))
                   | (rg, True) \<Rightarrow>
                       (case BufferEffect ops (ns_catalog_unavailable st) bc (pk_relative_key k) sample r of
                          (r', failure, started, ds) \<Rightarrow>
                            ((set_session (pk_sid k) r' st\<lparr>ns_fence_receiver := CompleteBufferObservation (pk_sid k)
                                (sr_generation_uuid r) bc (flm_publisher_uuid lane) (flm_sequence lane) failure rg\<rparr>,
                              cx\<lparr>cx_application_started := cx_application_started cx \<or> started,
                                 cx_completion_retained := True, cx_diagnostics := cx_diagnostics cx @ ds\<rparr>),
                             Returned (PutFailure InvalidArgument)))))))"

definition set_kind :: "AckOperationKind \<Rightarrow> ApplyContext \<Rightarrow> ApplyContext" where
  "set_kind kind cx = cx\<lparr>cx_progress := map_option (\<lambda>p. p\<lparr>ap_kind := kind\<rparr>) (cx_progress cx)\<rparr>"

definition ApplyParameterSample :: "'e EngineOps \<Rightarrow> bool \<Rightarrow> TransportSample \<Rightarrow>
    ('e, 'd) NodeState \<times> ApplyContext \<Rightarrow> (('e, 'd) NodeState \<times> ApplyContext) \<times> ApplyOutcome" where
  "ApplyParameterSample ops preadmitted sample = (\<lambda>(st, cx).
    case ParseKey (ns_prefix st) (ts_key sample) of
      None \<Rightarrow> ((st, cx_diagnose kWarning ''unsupported subscriber key'' cx), Returned (PutFailure InvalidKey))
    | Some k \<Rightarrow>
        if pk_is_batch k then
          (let cx = set_kind OpBatch cx; failure = (\<lambda>s. MakeAckResult OpBatch s 0 kAckNoFailedIndex) in
           if \<not> IsBatchPut sample then
             ((st, cx_diagnose kWarning ''invalid batch operation or encoding'' cx), Returned (failure InvalidArgument))
           else if pk_kind k = KeyBase then on_base (ApplyBatch ops (ts_payload sample)) (st, cx)
           else on_session (pk_sid k) failure (ApplyBatch InMemoryOps (ts_payload sample)) (st, cx))
        else if cx_progress cx \<noteq> None \<and> ts_kind sample = SampleDelete then
          ((st, cx_diagnose kWarning ''acknowledgement not supported for this operation; sample rejected'' cx),
           Returned (PutFailure InvalidArgument))
        else (case pk_kind k of
          KeyBuffer \<Rightarrow> ApplyBufferSample ops preadmitted k sample (st, cx)
        | KeyBase \<Rightarrow> on_base (ApplyWrite ops (pk_relative_key k) sample) (st, cx)
        | KeySession \<Rightarrow> on_session (pk_sid k) PutFailure (ApplyWrite InMemoryOps (pk_relative_key k) sample) (st, cx)
        | KeySnapshot \<Rightarrow> ((st, cx_diagnose kWarning ''read-only snapshot key'' cx), Returned (PutFailure ReadOnly))
        | _ \<Rightarrow> ((st, cx_diagnose kWarning ''unsupported subscriber key'' cx), Returned (PutFailure InvalidKey))))"

section \<open>Acknowledged samples\<close>

definition SampleOperationKind :: "string \<Rightarrow> TransportSample \<Rightarrow> AckOperationKind" where
  "SampleOperationKind pfx sample = (case ParseKey pfx (ts_key sample) of
     Some k \<Rightarrow> if pk_is_batch k then OpBatch else OpPut
   | None \<Rightarrow> OpPut)"

definition SampleFingerprint :: "string \<Rightarrow> TransportSample \<Rightarrow> AckFingerprint" where
  "SampleFingerprint pfx sample =
     ComputeAckFingerprint (SampleOperationKind pfx sample) (ts_key sample) (ts_encoding sample) (ts_payload sample)"

definition NewProgress :: "AckOperationKind \<Rightarrow> AckApplyProgress" where
  "NewProgress kind = \<lparr>ap_kind = kind, ap_engine_invoked = False, ap_applied_count = 0, ap_current_index = 0\<rparr>"

text \<open>Claim, apply, complete.  The second component tells whether an exception goes on to the
  caller, which happens after the guard completed the token.\<close>

definition ApplyAcknowledgedSample :: "'e EngineOps \<Rightarrow> AckToken \<Rightarrow> TransportSample \<Rightarrow>
    ('e, 'd) NodeState \<times> ApplyContext \<Rightarrow> (('e, 'd) NodeState \<times> ApplyContext) \<times> bool" where
  "ApplyAcknowledgedSample ops token sample = (\<lambda>(st, cx).
    let kind = SampleOperationKind (ns_prefix st) sample in
    case ClaimOrReject token (SampleFingerprint (ns_prefix st) sample) kParameterLane (LaneBusyResult kind)
        (ns_ack_registry st) of
      (rg, DuplicateProcessing) \<Rightarrow> ((st\<lparr>ns_ack_registry := rg\<rparr>, cx), False)
    | (rg, DuplicateCompleted) \<Rightarrow> ((st\<lparr>ns_ack_registry := rg\<rparr>, cx), False)
    | (rg, Collision) \<Rightarrow>
        ((st\<lparr>ns_ack_registry := rg\<rparr>, cx_diagnose kWarning ''ack token collision; sample rejected'' cx), False)
    | (rg, LaneBusy) \<Rightarrow>
        ((st\<lparr>ns_ack_registry := rg\<rparr>, cx_diagnose kError ''ack lane reentry; sample rejected'' cx), False)
    | (rg, Admitted) \<Rightarrow>
        (case ApplyParameterSample ops False sample
            (st\<lparr>ns_ack_registry := rg\<rparr>, cx\<lparr>cx_progress := Some (NewProgress kind)\<rparr>) of
           ((st', cx'), out) \<Rightarrow>
             ((st'\<lparr>ns_ack_registry := fst (Complete token (GuardResult (the (cx_progress cx')) out) (ns_ack_registry st'))\<rparr>,
               cx'), out = Threw)))"

definition RejectReentrantAcknowledgedSample :: "AckToken \<Rightarrow> TransportSample \<Rightarrow>
    ('e, 'd) NodeState \<times> ApplyContext \<Rightarrow> ('e, 'd) NodeState \<times> ApplyContext" where
  "RejectReentrantAcknowledgedSample token sample = (\<lambda>(st, cx).
    (st\<lparr>ns_ack_registry := fst (RecordRejected token (SampleFingerprint (ns_prefix st) sample)
        (LaneBusyResult (SampleOperationKind (ns_prefix st) sample)) (ns_ack_registry st))\<rparr>,
     cx_diagnose kError ''ack lane reentry; sample rejected'' cx))"

section \<open>Fence markers\<close>

text \<open>The result a marker is evaluated to once its token is claimed: the \<open>if\<close> cascade after the
  claim, with the session and its admission (if there is one) and the engine after a sync.\<close>

definition MarkerFailure :: "FenceMarkerRoute \<Rightarrow> Status \<Rightarrow> AckResultV1" where
  "MarkerFailure route status =
    \<lparr>ar_operation_kind = OpFence, ar_status = status, ar_durability = fmr_durability route, ar_applied_count = 0,
     ar_failed_index = kAckNoFailedIndex, ar_through_sequence = fmr_through_sequence route,
     ar_failed_sequence = kAckNoFailedSequence, ar_message = ''''\<rparr>"

text \<open>The durability barrier of a synced fence whose evaluation succeeded.\<close>

definition SyncBarrier :: "'e EngineOps \<Rightarrow> FenceMarkerRoute \<Rightarrow> 'e option \<Rightarrow> AckResultV1 \<Rightarrow> 'e option \<times> AckResultV1" where
  "SyncBarrier ops route durable result = (case durable of
     None \<Rightarrow> (durable, result\<lparr>ar_status := InvalidArgument\<rparr>)
   | Some e \<Rightarrow>
       if eng_capability ops e \<noteq> kPowerLossDurable then (durable, result\<lparr>ar_status := InvalidArgument\<rparr>)
       else if fmr_through_sequence route > 0 then
         (case eng_sync ops e of
            (e', None) \<Rightarrow> (Some e', result\<lparr>ar_status := OutcomeUnknown\<rparr>)
          | (e', Some synchronized) \<Rightarrow>
              (Some e',
               if IsOk synchronized then result
               else
                 let result = result\<lparr>ar_status := StatusCode synchronized,
                       ar_message := take kAckResultMaxMessageLength (Message synchronized)\<rparr> in
                 if ack_result_valid result then result
                 else
                   let result = result\<lparr>ar_message := ''durability synchronization failed''\<rparr> in
                   if ack_result_valid result then result else result\<lparr>ar_status := Error\<rparr>))
       else (durable, result))"

definition EvaluateMarker :: "'e EngineOps \<Rightarrow> FenceMarkerRoute \<Rightarrow> 'e SessionRecord \<Rightarrow> ('e, 'd) NodeState \<Rightarrow>
    'e SessionRecord \<times> AckResultV1" where
  "EvaluateMarker ops route r st = (case fmr_buffer_class route of
     None \<Rightarrow> (r, MarkerFailure route InvalidArgument)
   | Some bc \<Rightarrow>
       if sr_reconciled r then (r, MarkerFailure route InvalidArgument)
       else
         let buffer_enabled = (if bc = Durable then so_durable_buffers (sr_options r) else so_ephemeral_buffers (sr_options r));
             result = EvaluateBuffer (fmr_sid route) (fmr_receiver_generation route) bc (fmr_publisher_uuid route)
               (fmr_durability route) (fmr_through_sequence route) (ns_fence_receiver st);
             result = (if ar_status result = Ok \<and> \<not> buffer_enabled then result\<lparr>ar_status := InvalidArgument\<rparr> else result) in
         if ar_status result = Ok \<and> fmr_durability route = Synced then
           (case SyncBarrier ops route (sr_durable_buffers r) result of
              (durable, result) \<Rightarrow> (r\<lparr>sr_durable_buffers := durable\<rparr>, result))
         else (r, result))"

definition MarkerValid :: "bool \<Rightarrow> TransportSample \<Rightarrow> bool" where
  "MarkerValid route_valid sample \<longleftrightarrow> route_valid \<and> ts_kind sample = SamplePut \<and>
     ts_encoding sample = kSitosV1Fence \<and> IsOk (DecodeFenceMarker (ts_payload sample))"

text \<open>The session a valid marker selects, or the status that refuses it; a stale generation drops
  the sample before its token is claimed.\<close>

datatype 'e MarkerTarget = TargetStale | TargetStatus Status | TargetRecord "'e SessionRecord"

definition SelectMarkerTarget :: "FenceMarkerRoute \<Rightarrow> bool \<Rightarrow> Status option \<Rightarrow> ('e, 'd) NodeState \<Rightarrow> 'e MarkerTarget" where
  "SelectMarkerTarget route marker_valid forced st =
    (if \<not> marker_valid then TargetStatus Error
     else case forced of
       Some status \<Rightarrow> TargetStatus status
     | None \<Rightarrow>
         (case ns_sessions st (fmr_sid route) of
            None \<Rightarrow> TargetStatus NotFound
          | Some r \<Rightarrow>
              if TryAcquire r = None then TargetStatus InvalidArgument
              else if sr_generation_uuid r \<noteq> fmr_receiver_generation route then TargetStale
              else TargetRecord r))"

definition ApplyBufferFenceMarker :: "'e EngineOps \<Rightarrow> FenceMarkerRoute \<Rightarrow> TransportSample \<Rightarrow> bool \<Rightarrow> Status option \<Rightarrow>
    ('e, 'd) NodeState \<times> SubscriberDiagnostics \<Rightarrow> ('e, 'd) NodeState \<times> SubscriberDiagnostics" where
  "ApplyBufferFenceMarker ops route sample route_valid forced = (\<lambda>(st, ds).
    case ts_ack sample of
      AckObserved token \<Rightarrow>
        (let marker_valid = MarkerValid route_valid sample;
             fingerprint = ComputeAckFingerprint OpFence (ts_key sample) (ts_encoding sample) (ts_payload sample) in
         case SelectMarkerTarget route marker_valid forced st of
           TargetStale \<Rightarrow> (st, ds)
         | target \<Rightarrow>
             (case ClaimIndependent token fingerprint (ns_ack_registry st) of
                (rg, DuplicateProcessing) \<Rightarrow> (st\<lparr>ns_ack_registry := rg\<rparr>, ds)
              | (rg, DuplicateCompleted) \<Rightarrow> (st\<lparr>ns_ack_registry := rg\<rparr>, ds)
              | (rg, Collision) \<Rightarrow>
                  (st\<lparr>ns_ack_registry := rg\<rparr>, ds @ [(kWarning, ''ack token collision; sample rejected'')])
              | (rg, LaneBusy) \<Rightarrow>
                  (st\<lparr>ns_ack_registry := rg\<rparr>, ds @ [(kError, ''ack lane reentry; sample rejected'')])
              | (rg, Admitted) \<Rightarrow>
                  (case (if \<not> ns_accepting st then (st, MarkerFailure route Error)
                         else case target of
                           TargetRecord r \<Rightarrow>
                             if sr_catalogued r \<and> ns_catalog_unavailable st
                             then (st, MarkerFailure route CatalogUnavailable)
                             else (case EvaluateMarker ops route r st of
                               (r', result) \<Rightarrow> (set_session (fmr_sid route) r' st, result))
                         | TargetStatus status \<Rightarrow> (st, MarkerFailure route status)
                         | TargetStale \<Rightarrow> (st, MarkerFailure route Error)) of
                     (st', result) \<Rightarrow> (st'\<lparr>ns_ack_registry := fst (Complete token result rg)\<rparr>, ds))))
    | _ \<Rightarrow> (st, ds))"

section \<open>The subscriber callback\<close>

definition MarkerRoute :: "string \<Rightarrow> string \<Rightarrow> (FenceMarkerRoute \<times> bool) option" where
  "MarkerRoute pfx key = (case ParseFenceMarkerRoute pfx key of
     Some route \<Rightarrow> Some (route, True)
   | None \<Rightarrow> map_option (\<lambda>route. (route, False)) (RecoverMalformedFenceMarkerRoute pfx key))"

definition NewContext :: ApplyContext where
  "NewContext = \<lparr>cx_progress = None, cx_application_started = False, cx_completion_retained = False, cx_diagnostics = []\<rparr>"

text \<open>After an exception: an admitted buffer observation that was not completed is completed as
  failed, and the failure is logged.\<close>

definition OnSampleException :: "bool \<Rightarrow> TransportSample \<Rightarrow> ('e, 'd) NodeState \<times> ApplyContext \<Rightarrow> ('e, 'd) NodeState" where
  "OnSampleException preadmitted sample = (\<lambda>(st, cx).
    let st = (if preadmitted \<and> \<not> cx_completion_retained cx then
        (case ParseKey (ns_prefix st) (ts_key sample) of
           Some k \<Rightarrow>
             (case (pk_kind k, pk_buffer_class k, ns_sessions st (pk_sid k), ts_fence_lane sample) of
                (KeyBuffer, Some bc, Some r, FenceLaneObserved lane) \<Rightarrow>
                  st\<lparr>ns_fence_receiver := CompleteBufferObservation (pk_sid k) (sr_generation_uuid r) bc
                    (flm_publisher_uuid lane) (flm_sequence lane)
                    (Some (if cx_application_started cx then OutcomeUnknown else Error)) (ns_fence_receiver st)\<rparr>
              | _ \<Rightarrow> st)
         | None \<Rightarrow> st) else st)
    in EmitDiagnostics [(kError, ''subscriber callback exception'')] st)"

definition OnSampleAdmitted :: "'e EngineOps \<Rightarrow> bool \<Rightarrow> bool \<Rightarrow> TransportSample \<Rightarrow> ('e, 'd) NodeState \<Rightarrow> ('e, 'd) NodeState" where
  "OnSampleAdmitted ops reentrant preadmitted sample st =
    (case MarkerRoute (ns_prefix st) (ts_key sample) of
       Some (route, valid) \<Rightarrow>
         if fmr_target route = MarkerBuffer then
           if reentrant then EmitDiagnostics [(kError, ''subscriber reentry; sample rejected'')] st
           else (case ApplyBufferFenceMarker ops route sample valid None (st, []) of
             (st', ds) \<Rightarrow> EmitDiagnostics ds st')
         else st
     | None \<Rightarrow>
         if starts_with (ts_key sample) (ns_prefix st @ ''/meta/fence/buffer/'') then st
         else if starts_with (ts_key sample) (ns_prefix st @ ''/meta/fence/cache/'') then st
         else (case ts_ack sample of
             AckAttachmentMalformed \<Rightarrow>
               EmitDiagnostics [(kWarning, ''malformed ack attachment; sample rejected'')] st
           | AckObserved token \<Rightarrow>
               if reentrant then
                 (case RejectReentrantAcknowledgedSample token sample (st, NewContext) of
                    (st', cx') \<Rightarrow> EmitDiagnostics (cx_diagnostics cx') st')
               else (case ApplyAcknowledgedSample ops token sample (st, NewContext) of
                    ((st', cx'), True) \<Rightarrow> OnSampleException preadmitted sample (st', cx')
                  | ((st', cx'), False) \<Rightarrow> EmitDiagnostics (cx_diagnostics cx') st')
           | AckAttachmentAbsent \<Rightarrow>
               if reentrant then EmitDiagnostics [(kError, ''subscriber reentry; sample rejected'')] st
               else (case ApplyParameterSample ops preadmitted sample (st, NewContext) of
                    ((st', cx'), Threw) \<Rightarrow> OnSampleException preadmitted sample (st', cx')
                  | ((st', cx'), Returned _) \<Rightarrow> EmitDiagnostics (cx_diagnostics cx') st')))"

definition OnSample :: "'e EngineOps \<Rightarrow> bool \<Rightarrow> bool \<Rightarrow> TransportSample \<Rightarrow> ('e, 'd) NodeState \<Rightarrow> ('e, 'd) NodeState" where
  "OnSample ops reentrant preadmitted sample st = (case Enter st of
     None \<Rightarrow> st
   | Some st' \<Rightarrow> Leave (OnSampleAdmitted ops reentrant preadmitted sample st'))"

section \<open>Dispatch\<close>

text \<open>The callbacks \<open>Dispatch\<close> runs on the receiver registry.\<close>

definition DispatchPrepare :: "bool \<Rightarrow> string \<Rightarrow> FenceUuid \<Rightarrow> BufferClass \<Rightarrow> TransportSample \<Rightarrow>
    FenceReceiverRegistry \<Rightarrow> FenceReceiverRegistry \<times> bool" where
  "DispatchPrepare marker sid gen bc sample rg =
    (if marker then (rg, True)
     else case ts_fence_lane sample of
       FenceLaneObserved lane \<Rightarrow> AdmitBufferObservation sid gen bc (flm_publisher_uuid lane) (flm_sequence lane) rg
     | FenceLaneMalformed pub q \<Rightarrow> (fst (RecordMalformedBuffer sid gen bc pub q rg), False)
     | FenceLaneAbsent \<Rightarrow> (rg, False))"

definition DispatchOverflow :: "bool \<Rightarrow> string \<Rightarrow> FenceUuid \<Rightarrow> BufferClass \<Rightarrow> TransportSample \<Rightarrow>
    FenceReceiverRegistry \<Rightarrow> FenceReceiverRegistry" where
  "DispatchOverflow marker sid gen bc sample rg =
    (if marker then rg
     else case ts_fence_lane sample of
       FenceLaneObserved lane \<Rightarrow> fst (RecordBufferOverflow sid gen bc (flm_publisher_uuid lane) (flm_sequence lane) rg)
     | FenceLaneMalformed pub q \<Rightarrow> fst (RecordMalformedBuffer sid gen bc pub q rg)
     | FenceLaneAbsent \<Rightarrow> rg)"

text \<open>The dispatch of a selected buffer sample or marker; an admitted entry is applied when its
  turn comes and then released.\<close>

definition DispatchSelected :: "'e EngineOps \<Rightarrow> bool \<Rightarrow> (FenceMarkerRoute \<times> bool) option \<Rightarrow> string \<Rightarrow> BufferClass option \<Rightarrow>
    TransportSample \<Rightarrow> ('e, 'd) NodeState \<Rightarrow> ('e, 'd) NodeState" where
  "DispatchSelected ops reentrant marker sid buffer_class sample st =
    (case (ns_sessions st sid, buffer_class) of
       (Some r, Some bc) \<Rightarrow>
         (case (ns_fence_dispatcher st, sr_fence_dispatch r) of
            (Some co, Some (durable, ephemeral)) \<Rightarrow>
              (let reg = (if bc = Durable then durable else ephemeral) in
               case Dispatch reg (DispatchPrepare (marker \<noteq> None) sid (sr_generation_uuid r) bc sample)
                   (DispatchOverflow (marker \<noteq> None) sid (sr_generation_uuid r) bc sample) co (ns_fence_receiver st) of
                 (co', rg', outcome, _) \<Rightarrow>
                   (let st = st\<lparr>ns_fence_dispatcher := Some co', ns_fence_receiver := rg'\<rparr> in
                    if outcome = OAdmitted then
                      (let st = OnSample ops reentrant (marker = None) sample st in
                       st\<lparr>ns_fence_dispatcher := map_option (EntryRelease reg) (ns_fence_dispatcher st)\<rparr>)
                    else case marker of
                      Some (route, valid) \<Rightarrow>
                        if outcome = OClosed then
                          (case Enter st of
                             None \<Rightarrow> st
                           | Some st' \<Rightarrow>
                               (case ApplyBufferFenceMarker ops route sample valid (Some InvalidArgument) (st', []) of
                                  (st'', ds) \<Rightarrow> Leave (EmitDiagnostics ds st'')))
                        else st
                    | None \<Rightarrow> st))
          | _ \<Rightarrow> OnSample ops reentrant False sample st)
     | _ \<Rightarrow> if marker \<noteq> None then OnSample ops reentrant False sample st else st)"

definition DispatchData :: "'e EngineOps \<Rightarrow> bool \<Rightarrow> TransportSample \<Rightarrow> ('e, 'd) NodeState \<Rightarrow> ('e, 'd) NodeState" where
  "DispatchData ops reentrant sample st = (case ParseKey (ns_prefix st) (ts_key sample) of
     Some k \<Rightarrow>
       if pk_kind k = KeyBuffer \<and> ts_fence_lane sample \<noteq> FenceLaneAbsent
       then DispatchSelected ops reentrant None (pk_sid k) (pk_buffer_class k) sample st
       else OnSample ops reentrant False sample st
   | None \<Rightarrow> OnSample ops reentrant False sample st)"

definition DispatchSample :: "'e EngineOps \<Rightarrow> bool \<Rightarrow> TransportSample \<Rightarrow> ('e, 'd) NodeState \<Rightarrow> ('e, 'd) NodeState" where
  "DispatchSample ops reentrant sample st = (case MarkerRoute (ns_prefix st) (ts_key sample) of
     Some (route, valid) \<Rightarrow>
       if fmr_target route = MarkerBuffer
       then DispatchSelected ops reentrant (Some (route, valid)) (fmr_sid route) (fmr_buffer_class route) sample st
       else DispatchData ops reentrant sample st
   | None \<Rightarrow> DispatchData ops reentrant sample st)"

end
