(* ===== verification/NodeSampleProps.thy ===== *)
theory NodeSampleProps
  imports NodeSample
begin

text \<open>
  What the subscriber side of the storage node guarantees: every acknowledged sample ends in
  exactly one result a client can decode, whatever the engine does; a repeated token is never
  applied again; parameter writes go to the scope their key names and nowhere else; and a
  published fence success rests on the receiver's proof and, when asked for, on a completed
  synchronisation.
\<close>

section \<open>Applications end in a valid result\<close>

definition guarded :: "AckOperationKind \<Rightarrow> ('e ApplyState \<Rightarrow> 'e ApplyState \<times> ApplyOutcome) \<Rightarrow> bool" where
  "guarded kind f \<longleftrightarrow> (\<forall>a a' out. as_progress a = Some (NewProgress kind) \<longrightarrow> f a = (a', out) \<longrightarrow>
     (\<exists>p. as_progress a' = Some p \<and> ack_result_valid (GuardResult p out)))"

lemma GuardFallback_put: "ap_kind p = OpPut \<Longrightarrow> ap_applied_count p = 0 \<Longrightarrow> ack_result_valid (GuardFallback p)"
  using put_result_valid[of Error] put_result_valid[of OutcomeUnknown]
  by (simp add: GuardFallback_def PutFailure_def)

lemma GuardFallback_batch:
  "ap_kind p = OpBatch \<Longrightarrow> ap_engine_invoked p \<Longrightarrow> ap_applied_count p = ap_current_index p \<Longrightarrow>
     ap_current_index p \<noteq> kAckNoFailedIndex \<Longrightarrow> ack_result_valid (GuardFallback p)"
  by (simp add: GuardFallback_def batch_unknown_valid)

lemma ApplyWrite_progress:
  "ApplyWrite ops k sample a = (a', out) \<Longrightarrow> as_progress a = Some p \<Longrightarrow>
     \<exists>b. as_progress a' = Some (p\<lparr>ap_engine_invoked := b\<rparr>)"
  by (auto simp: ApplyWrite_def Let_def set_invoked_def diagnose_def split: if_splits prod.splits EngineReply.splits
      intro: exI[of _ "ap_engine_invoked p"])

lemma ApplyWrite_guarded: "guarded OpPut (ApplyWrite ops k sample)"
proof (unfold guarded_def, intro allI impI)
  fix a :: "'a ApplyState" and a' out
  assume p: "as_progress a = Some (NewProgress OpPut)" and r: "ApplyWrite ops k sample a = (a', out)"
  obtain b where b: "as_progress a' = Some ((NewProgress OpPut)\<lparr>ap_engine_invoked := b\<rparr>)"
    using ApplyWrite_progress[OF r p] by blast
  have "ack_result_valid (GuardResult ((NewProgress OpPut)\<lparr>ap_engine_invoked := b\<rparr>) out)"
    using ApplyWrite_valid r by (cases out) (auto simp: GuardResult_def NewProgress_def intro!: GuardFallback_put)
  with b show "\<exists>p. as_progress a' = Some p \<and> ack_result_valid (GuardResult p out)" by blast
qed

lemma ApplyEntries_progress_Some:
  "ApplyEntries ops i es a = (a', out) \<Longrightarrow> as_progress a \<noteq> None \<Longrightarrow> as_progress a' \<noteq> None"
proof (induction es arbitrary: i a)
  case (Cons kv es)
  obtain k v where "kv = (k, v)" by (cases kv)
  with Cons show ?case
    by (auto simp: Let_def diagnose_def split: prod.splits EngineReply.splits)
qed simp

lemma ApplyBatch_guarded: "guarded OpBatch (ApplyBatch ops payload)"
proof (unfold guarded_def, intro allI impI)
  fix a :: "'a ApplyState" and a' out
  assume p: "as_progress a = Some (NewProgress OpBatch)" and r: "ApplyBatch ops payload a = (a', out)"
  show "\<exists>p. as_progress a' = Some p \<and> ack_result_valid (GuardResult p out)"
  proof (cases out)
    case (Returned res)
    have "as_progress a' \<noteq> None"
      using r p by (auto simp: ApplyBatch_def diagnose_def split: option.splits dest: ApplyEntries_progress_Some)
    with Returned ApplyBatch_valid r show ?thesis by (auto simp: GuardResult_def)
  next
    case Threw
    with r obtain es where es: "DecodeBatch payload = Some es"
      "ApplyEntries ops 0 (EncodedBatchEntries es) a = (a', Threw)"
      by (auto simp: ApplyBatch_def split: option.splits)
    from ApplyEntries_spec[OF es(2)] obtain n where n: "loop_end ops (EncodedBatchEntries es) (as_engine a) 0 n (as_engine a') Threw"
      "\<And>q. as_progress a = Some q \<Longrightarrow> n < length (EncodedBatchEntries es) \<Longrightarrow>
        \<exists>p'. as_progress a' = Some p' \<and> loop_progress 0 n q p'" by blast
    have len: "n < length (EncodedBatchEntries es)" using n(1) by (auto simp: loop_end_def split: if_splits)
    from n(2)[OF p this] obtain p' where p': "as_progress a' = Some p'" "loop_progress 0 n (NewProgress OpBatch) p'" by blast
    have "(of_nat n :: u32) \<noteq> kAckNoFailedIndex"
      using index_below_sentinel[OF _ DecodeBatch_count[OF es(1)]] len by (simp add: EncodedBatchEntries_def)
    with p' Threw show ?thesis
      by (auto simp: GuardResult_def loop_progress_def NewProgress_def split: if_splits intro!: GuardFallback_batch)
  qed
qed

text \<open>The same for the whole sample: it keeps the registry and ends in a valid result.\<close>

definition sample_guarded :: "AckOperationKind \<Rightarrow>
    (('e, 'd) NodeState \<times> ApplyContext \<Rightarrow> (('e, 'd) NodeState \<times> ApplyContext) \<times> ApplyOutcome) \<Rightarrow> bool" where
  "sample_guarded kind f \<longleftrightarrow> (\<forall>st cx st' cx' out. cx_progress cx = Some (NewProgress kind) \<longrightarrow>
     f (st, cx) = ((st', cx'), out) \<longrightarrow> ns_ack_registry st' = ns_ack_registry st \<and>
       (\<exists>p. cx_progress cx' = Some p \<and> ack_result_valid (GuardResult p out)))"

lemma sample_guardedI:
  "(\<And>st cx st' cx' out. cx_progress cx = Some (NewProgress kind) \<Longrightarrow> f (st, cx) = ((st', cx'), out) \<Longrightarrow>
      ns_ack_registry st' = ns_ack_registry st \<and> (\<exists>p. cx_progress cx' = Some p \<and> ack_result_valid (GuardResult p out)))
    \<Longrightarrow> sample_guarded kind f"
  unfolding sample_guarded_def by blast

lemma sample_guardedD:
  "sample_guarded kind f \<Longrightarrow> cx_progress cx = Some (NewProgress kind) \<Longrightarrow> f (st, cx) = ((st', cx'), out) \<Longrightarrow>
     ns_ack_registry st' = ns_ack_registry st \<and> (\<exists>p. cx_progress cx' = Some p \<and> ack_result_valid (GuardResult p out))"
  unfolding sample_guarded_def by blast

lemma on_base_guarded: "guarded kind f \<Longrightarrow> sample_guarded kind (on_base f)"
  unfolding sample_guarded_def guarded_def on_base_def by (auto split: prod.splits) force

lemma on_overlay_guarded: "guarded kind f \<Longrightarrow> sample_guarded kind (on_overlay sid r ov f)"
  unfolding sample_guarded_def guarded_def on_overlay_def by (auto simp: set_session_def split: prod.splits) force

lemma on_session_guarded:
  assumes "guarded kind f" "ack_result_valid (failure NotFound)" "ack_result_valid (failure StateLost)"
  shows "sample_guarded kind (on_session sid failure f)"
proof (rule sample_guardedI)
  fix st :: "('a, 'b) NodeState" and cx st' cx' out
  assume p: "cx_progress cx = Some (NewProgress kind)" and r: "on_session sid failure f (st, cx) = ((st', cx'), out)"
  show "ns_ack_registry st' = ns_ack_registry st \<and> (\<exists>p. cx_progress cx' = Some p \<and> ack_result_valid (GuardResult p out))"
  proof (cases "\<exists>s ov. AcquireSession sid st = Some s \<and> sr_overlay s = Some ov \<and> sr_lifecycle s = kActive")
    case True
    then obtain s ov where "on_overlay sid s ov f (st, cx) = ((st', cx'), out)"
      using r by (auto simp: on_session_def)
    with p show ?thesis by (rule sample_guardedD[OF on_overlay_guarded[OF assms(1)]])
  next
    case False
    with p r assms(2,3) show ?thesis
      by (auto simp: on_session_def cx_diagnose_def GuardResult_def split: option.splits if_splits)
  qed
qed

lemma rejection_guarded:
  "ack_result_valid res \<Longrightarrow> cx_progress cx = Some p \<Longrightarrow>
     \<exists>q. cx_progress (cx_diagnose l m cx) = Some q \<and> ack_result_valid (GuardResult q (Returned res))"
  by (simp add: cx_diagnose_def GuardResult_def)

lemma ApplyParameterSample_guarded:
  assumes "cx_progress cx = Some (NewProgress (SampleOperationKind (ns_prefix st) sample))"
    "ApplyParameterSample ops pre sample (st, cx) = ((st', cx'), out)"
  shows "ns_ack_registry st' = ns_ack_registry st \<and> (\<exists>p. cx_progress cx' = Some p \<and> ack_result_valid (GuardResult p out))"
proof (cases "ParseKey (ns_prefix st) (ts_key sample)")
  case None
  with assms show ?thesis using rejection_guarded[of "PutFailure InvalidKey"]
    by (auto simp: ApplyParameterSample_def put_result_valid)
next
  case (Some k)
  note key = Some
  show ?thesis
  proof (cases "pk_is_batch k")
    case True
    let ?cx = "set_kind OpBatch cx" and ?failure = "\<lambda>s. MakeAckResult OpBatch s 0 kAckNoFailedIndex"
    have cx: "cx_progress ?cx = Some (NewProgress OpBatch)"
      using assms(1) key True by (simp add: set_kind_def SampleOperationKind_def NewProgress_def)
    have v: "ack_result_valid (?failure InvalidArgument)" "ack_result_valid (?failure NotFound)"
      "ack_result_valid (?failure StateLost)" by (simp_all add: batch_rejection_valid)
    show ?thesis
    proof (cases "IsBatchPut sample")
      case False
      with assms(2) key True rejection_guarded[OF v(1) cx] show ?thesis
        by (auto simp: ApplyParameterSample_def)
    next
      case batch: True
      show ?thesis
      proof (cases "pk_kind k = KeyBase")
        case True
        with assms(2) key \<open>pk_is_batch k\<close> batch
        have "on_base (ApplyBatch ops (ts_payload sample)) (st, ?cx) = ((st', cx'), out)"
          by (simp add: ApplyParameterSample_def Let_def)
        with cx show ?thesis by (rule sample_guardedD[OF on_base_guarded[OF ApplyBatch_guarded]])
      next
        case False
        with assms(2) key \<open>pk_is_batch k\<close> batch
        have "on_session (pk_sid k) ?failure (ApplyBatch InMemoryOps (ts_payload sample)) (st, ?cx) = ((st', cx'), out)"
          by (simp add: ApplyParameterSample_def Let_def)
        with cx show ?thesis by (rule sample_guardedD[OF on_session_guarded[OF ApplyBatch_guarded v(2,3)]])
      qed
    qed
  next
    case False
    have cx: "cx_progress cx = Some (NewProgress OpPut)"
      using assms(1) key False by (simp add: SampleOperationKind_def)
    have v: "ack_result_valid (PutFailure s)" if "s \<in> {InvalidArgument, NotFound, StateLost, ReadOnly, InvalidKey}" for s
      using that by (auto simp: put_result_valid)
    show ?thesis
    proof (cases "ts_kind sample = SampleDelete")
      case True
      with assms(2) key False cx rejection_guarded[OF v cx, of InvalidArgument] show ?thesis
        by (auto simp: ApplyParameterSample_def)
    next
      case put: False
      note step = assms(2)[unfolded ApplyParameterSample_def prod.case, simplified key option.case]
      show ?thesis
      proof (cases "pk_kind k")
        case KeyBase
        with step False put have "on_base (ApplyWrite ops (pk_relative_key k) sample) (st, cx) = ((st', cx'), out)" by simp
        with cx show ?thesis by (rule sample_guardedD[OF on_base_guarded[OF ApplyWrite_guarded]])
      next
        case KeySession
        with step False put
        have "on_session (pk_sid k) PutFailure (ApplyWrite InMemoryOps (pk_relative_key k) sample) (st, cx) = ((st', cx'), out)"
          by simp
        with cx show ?thesis
          by (rule sample_guardedD[OF on_session_guarded[OF ApplyWrite_guarded, of PutFailure], rotated 2]) (simp_all add: v)
      next
        case KeyBuffer
        with step False put cx rejection_guarded[OF v cx, of InvalidArgument] show ?thesis
          by (auto simp: ApplyBufferSample_def)
      qed (use step False put cx v in \<open>auto simp: cx_diagnose_def GuardResult_def\<close>)
    qed
  qed
qed

section \<open>Acknowledged samples\<close>

lemma ApplyAcknowledged_known:
  assumes "registry_inv (ns_ack_registry st)" "Known token (ns_ack_registry st)"
  shows "fst (fst (ApplyAcknowledgedSample ops token sample (st, cx))) = st"
proof -
  let ?c = "ClaimOrReject token (SampleFingerprint (ns_prefix st) sample) kParameterLane
     (LaneBusyResult (SampleOperationKind (ns_prefix st) sample)) (ns_ack_registry st)"
  have "fst ?c = ns_ack_registry st" "snd ?c \<noteq> Admitted"
    using parameter_ledger.claim_known[OF assms] by auto
  then show ?thesis
    by (cases ?c; cases "snd ?c") (simp_all add: ApplyAcknowledgedSample_def Let_def)
qed

lemma ApplyAcknowledged_admitted:
  assumes "registry_inv (ns_ack_registry st)"
    and "snd (ClaimOrReject token (SampleFingerprint (ns_prefix st) sample) kParameterLane
      (LaneBusyResult (SampleOperationKind (ns_prefix st) sample)) (ns_ack_registry st)) = Admitted"
    and "ApplyAcknowledgedSample ops token sample (st, cx) = ((st', cx'), thrown)"
  shows "registry_inv (ns_ack_registry st') \<and>
    (\<exists>r. Find token (ns_ack_registry st') = Some r \<and> ack_result_valid r)"
proof -
  let ?kind = "SampleOperationKind (ns_prefix st) sample"
  let ?c = "ClaimOrReject token (SampleFingerprint (ns_prefix st) sample) kParameterLane (LaneBusyResult ?kind) (ns_ack_registry st)"
  define rg where "rg = fst ?c"
  have c: "?c = (rg, Admitted)" using assms(2) by (simp add: rg_def prod_eq_iff)
  obtain st1 cx1 out where a: "ApplyParameterSample ops False sample
      (st\<lparr>ns_ack_registry := rg\<rparr>, cx\<lparr>cx_progress := Some (NewProgress ?kind)\<rparr>) = ((st1, cx1), out)" by (metis surj_pair)
  from ApplyParameterSample_guarded[OF _ a] obtain p where p: "ns_ack_registry st1 = rg" "cx_progress cx1 = Some p"
    "ack_result_valid (GuardResult p out)" by auto
  have st': "st' = st1\<lparr>ns_ack_registry := fst (Complete token (GuardResult p out) rg)\<rparr>"
    using assms(3) c a p(1,2) by (simp add: ApplyAcknowledgedSample_def Let_def)
  note adm = parameter_ledger.claim_admitted[OF assms(1,2)]
  have inv: "registry_inv rg" unfolding rg_def by (rule parameter_ledger.claim_inv[OF assms(1)])
  have "Find token (fst (Complete token (GuardResult p out) rg)) = Some (GuardResult p out)"
    using parameter_ledger.finish_fresh[OF inv] adm by (simp add: rg_def)
  with st' p(3) inv show ?thesis by (simp add: parameter_ledger.finish_inv)
qed

section \<open>What an application leaves alone\<close>

definition same_gate :: "('e, 'd) NodeState \<Rightarrow> ('e, 'd) NodeState \<Rightarrow> bool" where
  "same_gate st st' \<longleftrightarrow> ns_prefix st' = ns_prefix st \<and> ns_accepting st' = ns_accepting st \<and>
     ns_in_flight st' = ns_in_flight st \<and> ns_catalog st' = ns_catalog st \<and>
     ns_catalog_unavailable st' = ns_catalog_unavailable st"

lemma on_base_gate: "on_base f (st, cx) = ((st', cx'), out) \<Longrightarrow> same_gate st st'"
  by (auto simp: on_base_def same_gate_def split: prod.splits)

lemma on_session_gate: "on_session sid failure f (st, cx) = ((st', cx'), out) \<Longrightarrow> same_gate st st'"
  by (auto simp: on_session_def on_overlay_def same_gate_def set_session_def split: prod.splits option.splits if_splits)

lemma ApplyBufferSample_gate: "ApplyBufferSample ops pre k sample (st, cx) = ((st', cx'), out) \<Longrightarrow> same_gate st st'"
  by (auto simp: ApplyBufferSample_def same_gate_def set_session_def Let_def
      split: prod.splits option.splits if_splits FenceLaneObservation.splits bool.splits)

lemma ApplyParameterSample_gate:
  assumes "ApplyParameterSample ops pre sample (st, cx) = ((st', cx'), out)"
  shows "same_gate st st'"
proof (cases "ParseKey (ns_prefix st) (ts_key sample)")
  case None
  with assms show ?thesis by (auto simp: ApplyParameterSample_def same_gate_def)
next
  case (Some k)
  have refl: "same_gate st st" by (simp add: same_gate_def)
  from Some assms on_base_gate on_session_gate ApplyBufferSample_gate refl show ?thesis
    by (auto simp: ApplyParameterSample_def Let_def split: if_splits KeyKind.splits)
qed

lemma ApplyAcknowledged_gate:
  assumes "ApplyAcknowledgedSample ops token sample (st, cx) = ((st', cx'), exc)"
  shows "same_gate st st'"
proof -
  let ?kind = "SampleOperationKind (ns_prefix st) sample"
  obtain rg oc where c: "ClaimOrReject token (SampleFingerprint (ns_prefix st) sample) kParameterLane (LaneBusyResult ?kind)
      (ns_ack_registry st) = (rg, oc)" by fastforce
  show ?thesis
  proof (cases "oc = Admitted")
    case True
    obtain st1 cx1 out where a: "ApplyParameterSample ops False sample
      (st\<lparr>ns_ack_registry := rg\<rparr>, cx\<lparr>cx_progress := Some (NewProgress ?kind)\<rparr>) = ((st1, cx1), out)" by (metis surj_pair)
    from True assms c a ApplyParameterSample_gate[OF a] show ?thesis
      by (auto simp: ApplyAcknowledgedSample_def Let_def same_gate_def)
  next
    case False
    with assms c show ?thesis
      by (cases oc) (auto simp: ApplyAcknowledgedSample_def Let_def same_gate_def)
  qed
qed

section \<open>Fence markers\<close>

lemma MarkerFailure_valid: "status \<noteq> Timeout \<Longrightarrow> ack_result_valid (MarkerFailure route status)"
  by (rule fence_result_valid) (simp_all add: MarkerFailure_def IsWireStatus_def split: Status.split)

lemma MarkerFailure_status [simp]: "ar_status (MarkerFailure route status) = status"
  by (simp add: MarkerFailure_def)

lemma FenceOkResult_status_valid:
  "status \<noteq> Timeout \<Longrightarrow> ack_result_valid (FenceOkResult n d\<lparr>ar_status := status\<rparr>)"
  by (rule fence_result_valid) (simp_all add: FenceOkResult_def IsWireStatus_def split: Status.split)

lemma sync_message_valid: "ack_result_valid
    (FenceOkResult n d\<lparr>ar_status := Error, ar_message := ''durability synchronization failed''\<rparr>)"
proof (rule fence_result_valid)
  show "IsValidUtf8 (ar_message (FenceOkResult n d\<lparr>ar_status := Error,
      ar_message := ''durability synchronization failed''\<rparr>))"
    by code_simp
qed (simp_all add: FenceOkResult_def IsWireStatus_def)

lemma SyncBarrier_valid:
  "ack_result_valid (snd (SyncBarrier ops route durable (FenceOkResult n d)))"
  using FenceOkResult_status_valid[of InvalidArgument] FenceOkResult_status_valid[of OutcomeUnknown]
    FenceOkResult_status_valid[of Ok] sync_message_valid
  by (auto simp: SyncBarrier_def Let_def FenceOkResult_def split: option.splits prod.splits)

text \<open>A result that reports an error never claims the status \<open>Ok\<close>.\<close>

definition sync_honest :: "'e EngineOps \<Rightarrow> bool" where
  "sync_honest ops \<longleftrightarrow> (\<forall>e u. snd (eng_sync ops e) = Some u \<longrightarrow> result_wf u)"

lemma SyncBarrier_Ok:
  assumes "sync_honest ops" "ar_status (snd (SyncBarrier ops route durable (FenceOkResult n d))) = Ok"
  shows "\<exists>e. durable = Some e \<and> eng_capability ops e = kPowerLossDurable \<and>
    (0 < fmr_through_sequence route \<longrightarrow> snd (eng_sync ops e) = Some (Result_Ok ()))"
proof -
  have wf: "result_wf u" if "eng_sync ops e = (e', Some u)" for e e' u
    using assms(1) that by (metis sync_honest_def snd_conv)
  from assms(2) show ?thesis
    by (auto simp: SyncBarrier_def Let_def IsOk_def StatusCode_def Result_Ok_def result_wf_def dest!: wf
        split: option.splits prod.splits if_splits sum.splits)
qed

lemma EvaluateMarker_cases:
  fixes route st
  defines "E \<equiv> \<lambda>bc. EvaluateBuffer (fmr_sid route) (fmr_receiver_generation route) bc (fmr_publisher_uuid route)
      (fmr_durability route) (fmr_through_sequence route) (ns_fence_receiver st)"
    and "F \<equiv> FenceOkResult (fmr_through_sequence route) (fmr_durability route)"
  assumes "receiver_inv (ns_fence_receiver st)"
  obtains (refused) "EvaluateMarker ops route r st = (r, MarkerFailure route InvalidArgument)"
  | (failed) bc where "fmr_buffer_class route = Some bc" "EvaluateMarker ops route r st = (r, E bc)" "ar_status (E bc) \<noteq> Ok"
  | (disabled) "EvaluateMarker ops route r st = (r, F\<lparr>ar_status := InvalidArgument\<rparr>)"
  | (synced) bc durable result where "fmr_buffer_class route = Some bc" "E bc = F" "\<not> sr_reconciled r"
      "if bc = Durable then so_durable_buffers (sr_options r) else so_ephemeral_buffers (sr_options r)"
      "SyncBarrier ops route (sr_durable_buffers r) F = (durable, result)"
      "EvaluateMarker ops route r st = (r\<lparr>sr_durable_buffers := durable\<rparr>, result)"
  | (applied) bc where "fmr_buffer_class route = Some bc" "E bc = F" "\<not> sr_reconciled r"
      "if bc = Durable then so_durable_buffers (sr_options r) else so_ephemeral_buffers (sr_options r)"
      "fmr_durability route \<noteq> Synced" "EvaluateMarker ops route r st = (r, F)"
proof (cases "fmr_buffer_class route")
  case None
  then show ?thesis by (intro refused) (simp add: EvaluateMarker_def)
next
  case (Some bc)
  have ok: "E bc = F" if "ar_status (E bc) = Ok"
    using EvaluateBuffer_Ok[OF _ assms(3)] that by (simp add: E_def F_def)
  have FOk: "ar_status F = Ok" by (simp add: F_def FenceOkResult_def)
  have unfold: "EvaluateMarker ops route r st = (if sr_reconciled r then (r, MarkerFailure route InvalidArgument)
      else let result = (if ar_status (E bc) = Ok \<and> \<not> (if bc = Durable then so_durable_buffers (sr_options r)
             else so_ephemeral_buffers (sr_options r)) then E bc\<lparr>ar_status := InvalidArgument\<rparr> else E bc) in
           if ar_status result = Ok \<and> fmr_durability route = Synced then
             (case SyncBarrier ops route (sr_durable_buffers r) result of
                (durable, result) \<Rightarrow> (r\<lparr>sr_durable_buffers := durable\<rparr>, result))
           else (r, result))"
    by (simp add: EvaluateMarker_def Some E_def Let_def cong: if_cong)
  show ?thesis
  proof (cases "sr_reconciled r")
    case True
    with unfold show ?thesis by (intro refused) simp
  next
    case False
    show ?thesis
    proof (cases "ar_status (E bc) = Ok")
      case False
      with unfold \<open>\<not> sr_reconciled r\<close> Some show ?thesis by (intro failed) simp_all
    next
      case True
      note F = ok[OF True]
      show ?thesis
      proof (cases "if bc = Durable then so_durable_buffers (sr_options r) else so_ephemeral_buffers (sr_options r)")
        case False
        with unfold \<open>\<not> sr_reconciled r\<close> F FOk show ?thesis by (intro disabled) (simp split: if_splits)
      next
        case en: True
        obtain durable result where b: "SyncBarrier ops route (sr_durable_buffers r) F = (durable, result)" by fastforce
        from en unfold \<open>\<not> sr_reconciled r\<close> F FOk b show ?thesis
          by (cases "fmr_durability route = Synced") (auto simp del: if_split intro: synced[OF Some] applied[OF Some])
      qed
    qed
  qed
qed

lemma EvaluateMarker_valid:
  assumes "receiver_inv (ns_fence_receiver st)"
  shows "ack_result_valid (snd (EvaluateMarker ops route r st))"
proof (cases rule: EvaluateMarker_cases[OF assms, where route = route and ops = ops and r = r,
    case_names refused failed disabled synced applied])
  case refused
  then show ?thesis by (simp add: MarkerFailure_valid)
next
  case failed
  then show ?thesis by (simp add: EvaluateBuffer_valid[OF assms])
next
  case disabled
  then show ?thesis by (simp add: FenceOkResult_status_valid)
next
  case synced
  then show ?thesis using SyncBarrier_valid by (metis snd_conv)
next
  case applied
  then show ?thesis by (metis EvaluateBuffer_valid[OF assms] snd_conv)
qed

text \<open>What a fence success asserts about the session record it was evaluated on.\<close>

definition fence_proved :: "'e EngineOps \<Rightarrow> FenceMarkerRoute \<Rightarrow> 'e SessionRecord \<Rightarrow> FenceReceiverRegistry \<Rightarrow> bool" where
  "fence_proved ops route r rg \<longleftrightarrow> (\<exists>bc. fmr_buffer_class route = Some bc \<and> \<not> sr_reconciled r \<and>
     (if bc = Durable then so_durable_buffers (sr_options r) else so_ephemeral_buffers (sr_options r)) \<and>
     ar_status (EvaluateBuffer (fmr_sid route) (fmr_receiver_generation route) bc (fmr_publisher_uuid route)
       (fmr_durability route) (fmr_through_sequence route) rg) = Ok \<and>
     (fmr_durability route = Synced \<longrightarrow> (\<exists>e. sr_durable_buffers r = Some e \<and> eng_capability ops e = kPowerLossDurable \<and>
        (0 < fmr_through_sequence route \<longrightarrow> snd (eng_sync ops e) = Some (Result_Ok ())))))"

lemma EvaluateMarker_Ok:
  assumes "receiver_inv (ns_fence_receiver st)" "sync_honest ops" "ar_status (snd (EvaluateMarker ops route r st)) = Ok"
  shows "fence_proved ops route r (ns_fence_receiver st)"
proof (cases rule: EvaluateMarker_cases[OF assms(1), where route = route and ops = ops and r = r,
    case_names refused failed disabled synced applied])
  case refused
  with assms(3) show ?thesis by (simp add: MarkerFailure_def)
next
  case failed
  with assms(3) show ?thesis by simp
next
  case disabled
  with assms(3) show ?thesis by (simp add: FenceOkResult_def)
next
  case synced
  with assms(3) have "ar_status (snd (SyncBarrier ops route (sr_durable_buffers r)
      (FenceOkResult (fmr_through_sequence route) (fmr_durability route)))) = Ok" by simp
  from SyncBarrier_Ok[OF assms(2) this] synced show ?thesis by (auto simp: fence_proved_def FenceOkResult_def)
next
  case applied
  then show ?thesis by (auto simp: fence_proved_def FenceOkResult_def)
qed

lemma ApplyBufferFenceMarker_admitted:
  fixes sample
  defines "fp \<equiv> ComputeAckFingerprint OpFence (ts_key sample) (ts_encoding sample) (ts_payload sample)"
  assumes "receiver_inv (ns_fence_receiver st)" "sync_honest ops" "registry_inv (ns_ack_registry st)"
    "forced \<noteq> Some Timeout" "forced \<noteq> Some Ok"
    "ts_ack sample = AckObserved token" "snd (ClaimIndependent token fp (ns_ack_registry st)) = Admitted"
    "SelectMarkerTarget route (MarkerValid route_valid sample) forced st \<noteq> TargetStale"
    "ApplyBufferFenceMarker ops route sample route_valid forced (st, ds) = (st', ds')"
  shows "\<exists>result. Find token (ns_ack_registry st') = Some result \<and> ack_result_valid result \<and>
    (ar_status result = Ok \<longrightarrow> MarkerValid route_valid sample \<and> ns_accepting st \<and>
      (\<exists>r. ns_sessions st (fmr_sid route) = Some r \<and> sr_phase r = Active \<and>
         sr_generation_uuid r = fmr_receiver_generation route \<and> \<not> (sr_catalogued r \<and> ns_catalog_unavailable st) \<and>
         fence_proved ops route r (ns_fence_receiver st)))"
proof -
  let ?target = "SelectMarkerTarget route (MarkerValid route_valid sample) forced st"
  let ?eval = "if \<not> ns_accepting st then (st, MarkerFailure route Error)
     else case ?target of
       TargetRecord r \<Rightarrow> if sr_catalogued r \<and> ns_catalog_unavailable st then (st, MarkerFailure route CatalogUnavailable)
         else (case EvaluateMarker ops route r st of (r', result) \<Rightarrow> (set_session (fmr_sid route) r' st, result))
     | TargetStatus status \<Rightarrow> (st, MarkerFailure route status)
     | TargetStale \<Rightarrow> (st, MarkerFailure route Error)"
  obtain rg where claim: "ClaimIndependent token fp (ns_ack_registry st) = (rg, Admitted)"
    using assms(8) by (cases "ClaimIndependent token fp (ns_ack_registry st)") auto
  obtain st1 result where eval: "?eval = (st1, result)" by fastforce
  have st': "st' = st1\<lparr>ns_ack_registry := fst (Complete token result rg)\<rparr>"
    using assms(7,9,10) claim eval
    by (cases ?target) (simp_all add: ApplyBufferFenceMarker_def Let_def fp_def split: prod.splits if_splits)
  note adm = fence_ledger.claim_admitted[OF assms(4,8)] and inv = fence_ledger.claim_inv[OF assms(4), of token fp]
  have find: "Find token (ns_ack_registry st') = Some result"
    using fence_ledger.finish_fresh[OF inv] adm claim st' by simp
  have status: "s \<noteq> Timeout \<and> s \<noteq> Ok" if "?target = TargetStatus s" for s
    using that assms(5,6) by (auto simp: SelectMarkerTarget_def split: if_splits option.splits)
  have target: "MarkerValid route_valid sample \<and> ns_sessions st (fmr_sid route) = Some r \<and> sr_phase r = Active \<and>
      sr_generation_uuid r = fmr_receiver_generation route" if "?target = TargetRecord r" for r
    using that by (auto simp: SelectMarkerTarget_def TryAcquire_def split: if_splits option.splits)
  have "ack_result_valid result \<and> (ar_status result = Ok \<longrightarrow> ns_accepting st \<and> (\<exists>r. ?target = TargetRecord r \<and>
      \<not> (sr_catalogued r \<and> ns_catalog_unavailable st) \<and> fence_proved ops route r (ns_fence_receiver st)))"
  proof (cases ?target)
    case TargetStale
    with assms(9) show ?thesis by simp
  next
    case (TargetStatus s)
    with status[OF this] eval show ?thesis
      by (auto simp: MarkerFailure_valid split: if_splits)
  next
    case (TargetRecord r)
    with eval EvaluateMarker_valid[OF assms(2), of ops route r] EvaluateMarker_Ok[OF assms(2,3), of route r] show ?thesis
      by (auto simp: MarkerFailure_valid split: if_splits prod.splits)
  qed
  with find target show ?thesis by blast
qed

section \<open>Properties\<close>

text \<open>C1: an acknowledged write is applied at most once and always answered.  When its token is
  admitted, then whatever the engine does, return, fail or throw in the middle of a batch, the
  registry afterwards holds a result for the token that the wire encoder accepts, and a further
  delivery of the token, with any key, payload or encoding, changes nothing in the node.\<close>

theorem acknowledged_write_once_and_answered:
  assumes "registry_inv (ns_ack_registry st)"
    and "snd (ClaimOrReject token (SampleFingerprint (ns_prefix st) sample) kParameterLane
      (LaneBusyResult (SampleOperationKind (ns_prefix st) sample)) (ns_ack_registry st)) = Admitted"
    and "ApplyAcknowledgedSample ops token sample (st, cx) = ((st', cx'), thrown)"
  shows "(\<exists>r bytes. Find token (ns_ack_registry st') = Some r \<and> EncodeAckResult r = Result_Ok bytes) \<and>
    fst (fst (ApplyAcknowledgedSample ops token sample2 (st', cx2))) = st'"
proof -
  from ApplyAcknowledged_admitted[OF assms] obtain r where r: "registry_inv (ns_ack_registry st')"
    "Find token (ns_ack_registry st') = Some r" "ack_result_valid r" by blast
  then have "Known token (ns_ack_registry st')" by (auto simp: Known_def Find_def split: option.splits)
  with r ApplyAcknowledged_known[OF r(1)] show ?thesis by (auto simp: EncodeAckResult_valid)
qed

definition example_sample :: TransportSample where
  "example_sample = \<lparr>ts_key = ''app/base/:batch'', ts_payload = EncodeBatch example_batch, ts_encoding = kSitosV1Batch,
     ts_ack = AckObserved [1], ts_kind = SamplePut, ts_fence_lane = FenceLaneAbsent\<rparr>"

definition example_node :: "(InMemoryEngine, unit) NodeState" where
  "example_node = \<lparr>ns_engine = empty_engine, ns_prefix = ''app'', ns_ack_registry = NewRegistry 4, ns_catalog_mode = False,
     ns_instance_id = '''', ns_catalog = None, ns_catalog_unavailable = False, ns_fence_dispatcher = None,
     ns_fence_receiver = NewReceiver 4, ns_in_flight = 0, ns_accepting = True, ns_sessions = Map.empty, ns_log = []\<rparr>"

theorem acknowledged_write_once_and_answered_witness:
  "\<exists>r bytes. Find [1] (ns_ack_registry (fst (fst (ApplyAcknowledgedSample ExampleOps [1] example_sample
     (example_node, NewContext))))) = Some r \<and> EncodeAckResult r = Result_Ok bytes"
proof -
  obtain st' cx' thrown where r: "ApplyAcknowledgedSample ExampleOps [1] example_sample (example_node, NewContext) = ((st', cx'), thrown)"
    by (metis surj_pair)
  have inv: "registry_inv (ns_ack_registry example_node)" by (simp add: example_node_def NewRegistry_inv)
  have "snd (ClaimOrReject [1] (SampleFingerprint (ns_prefix example_node) example_sample) kParameterLane
      (LaneBusyResult (SampleOperationKind (ns_prefix example_node) example_sample)) (ns_ack_registry example_node)) = Admitted"
    by (simp add: ClaimOrReject_def ClaimLocked_def NewRegistry_def example_node_def)
  from acknowledged_write_once_and_answered[OF inv this r] r show ?thesis by simp
qed


text \<open>C2: what a published fence result means.  A marker whose token is admitted is answered with
  a result the wire encoder accepts.  If that result is a success, the marker was well formed, the
  node and the session were accepting, the session's generation is the one the marker names, the
  buffer class is enabled and not a reconciled read-only store, the receiver proved the whole
  prefix, and for a synced fence the durable engine is power-loss durable and its \<open>Sync\<close> returned
  success whenever anything was to be covered.\<close>

theorem published_fence_sound:
  assumes "receiver_inv (ns_fence_receiver st)" "sync_honest ops" "registry_inv (ns_ack_registry st)"
    and "forced \<in> {None, Some InvalidArgument}" and "ts_ack sample = AckObserved token"
    and "snd (ClaimIndependent token (ComputeAckFingerprint OpFence (ts_key sample) (ts_encoding sample) (ts_payload sample))
      (ns_ack_registry st)) = Admitted"
    and "SelectMarkerTarget route (MarkerValid route_valid sample) forced st \<noteq> TargetStale"
    and "ApplyBufferFenceMarker ops route sample route_valid forced (st, ds) = (st', ds')"
  shows "\<exists>result bytes. Find token (ns_ack_registry st') = Some result \<and> EncodeAckResult result = Result_Ok bytes \<and>
    (ar_status result = Ok \<longrightarrow> MarkerValid route_valid sample \<and> ns_accepting st \<and>
      (\<exists>r. ns_sessions st (fmr_sid route) = Some r \<and> sr_phase r = Active \<and>
         sr_generation_uuid r = fmr_receiver_generation route \<and> \<not> (sr_catalogued r \<and> ns_catalog_unavailable st) \<and>
         fence_proved ops route r (ns_fence_receiver st)))"
proof -
  have "forced \<noteq> Some Timeout" "forced \<noteq> Some Ok" using assms(4) by auto
  from ApplyBufferFenceMarker_admitted[OF assms(1-3) this assms(5-8)] show ?thesis
    by (auto simp: EncodeAckResult_valid)
qed

definition example_marker_route :: FenceMarkerRoute where
  "example_marker_route = \<lparr>fmr_target = MarkerBuffer, fmr_sid = ''s1'', fmr_receiver_generation = example_uuid,
     fmr_buffer_class = Some Ephemeral, fmr_publisher_uuid = example_uuid, fmr_durability = Applied, fmr_through_sequence = 0\<rparr>"

definition example_marker :: TransportSample where
  "example_marker = \<lparr>ts_key = ''app/meta/fence/x'', ts_payload = EncodeFenceMarker, ts_encoding = kSitosV1Fence,
     ts_ack = AckObserved [1], ts_kind = SamplePut, ts_fence_lane = FenceLaneAbsent\<rparr>"

definition example_session :: "InMemoryEngine SessionRecord" where
  "example_session = NewSessionRecord\<lparr>sr_phase := Active, sr_accepting := True, sr_generation_uuid := example_uuid,
     sr_options := \<lparr>so_durable_buffers = False, so_ephemeral_buffers = True\<rparr>\<rparr>"

theorem published_fence_sound_witness:
  "\<exists>result bytes. Find [1] (ns_ack_registry (fst (ApplyBufferFenceMarker InMemoryOps example_marker_route example_marker True None
     (set_session ''s1'' example_session example_node, [])))) = Some result \<and> EncodeAckResult result = Result_Ok bytes"
proof -
  let ?st = "set_session ''s1'' example_session example_node"
  obtain st' ds' where run: "ApplyBufferFenceMarker InMemoryOps example_marker_route example_marker True None (?st, []) = (st', ds')"
    by (metis surj_pair)
  have node: "ns_fence_receiver ?st = NewReceiver 4" "ns_ack_registry ?st = NewRegistry 4"
    by (simp_all add: set_session_def example_node_def)
  have honest: "sync_honest InMemoryOps" by (simp add: sync_honest_def InMemoryOps_def InMemoryEngine_Sync_def)
  have admitted: "snd (ClaimIndependent [1] fp (ns_ack_registry ?st)) = Admitted" for fp
    unfolding node by (simp add: ClaimIndependent_def ClaimLocked_def NewRegistry_def)
  have selected: "SelectMarkerTarget example_marker_route (MarkerValid True example_marker) None ?st \<noteq> TargetStale"
    by (simp add: SelectMarkerTarget_def set_session_def example_session_def TryAcquire_def example_marker_route_def)
  have "ts_ack example_marker = AckObserved [1]" by (simp add: example_marker_def)
  from published_fence_sound[OF _ honest _ _ this admitted selected run] run show ?thesis
    by (auto simp: node NewRegistry_inv receiver_inv_def NewReceiver_def)
qed

end
