(* ===== verification/NodeQuery.thy ===== *)
theory NodeQuery
  imports NodeState
begin

text \<open>
  The queryable side of the storage node: selectors, \<open>OnQuery\<close>, \<open>ReplyScopedQuery\<close>,
  \<open>ReplyBufferQuery\<close> and \<open>ReplyMetaQuery\<close> of \<open>src/storage_node.cpp\<close>.  A query is a state with
  two calls, a reply and a typed error reply, each of which may succeed, fail or throw; an
  exception that leaves a handler is caught and logged by \<open>OnQuery\<close>.
\<close>

section \<open>Selectors\<close>

definition ends_with :: "string \<Rightarrow> string \<Rightarrow> bool" where
  "ends_with s suf \<longleftrightarrow> length suf \<le> length s \<and> drop (length s - length suf) s = suf"

record StorageQuery =
  sq_is_list :: bool
  sq_relative_key :: string

definition MakeReplyKey :: "string \<Rightarrow> string \<Rightarrow> string \<Rightarrow> string" where
  "MakeReplyKey pfx scope_path relative_key = pfx @ ''/'' @ scope_path @ ''/'' @ relative_key"

definition ParseRelativeSelector :: "string \<Rightarrow> StorageQuery option" where
  "ParseRelativeSelector relative =
    (if relative = '''' then None
     else if relative = ''**'' then Some \<lparr>sq_is_list = True, sq_relative_key = ''''\<rparr>
     else if ends_with relative ''/**'' then
       (let selector = take (length relative - 3) relative in
        if \<not> IsValidPrefix selector then None
        else Some \<lparr>sq_is_list = True, sq_relative_key = selector @ ''/''\<rparr>)
     else if CHR ''*'' \<in> set relative \<or> \<not> IsValidKey relative then None
     else Some \<lparr>sq_is_list = False, sq_relative_key = relative\<rparr>)"

definition ParseStorageQuery :: "string \<Rightarrow> string \<Rightarrow> StorageQuery option" where
  "ParseStorageQuery pfx keyexpr =
    (if \<not> IsValidPrefix pfx then None
     else case StripPrefix pfx keyexpr of
       None \<Rightarrow> None
     | Some rest \<Rightarrow>
         if \<not> starts_with rest ''base/'' then None else ParseRelativeSelector (drop 5 rest))"

section \<open>Readers and replies\<close>

record StorageReader =
  rd_get :: "string \<Rightarrow> bytes option option"
  rd_list :: "string \<Rightarrow> entries \<times> EngineReply"

definition engine_reader :: "'e EngineOps \<Rightarrow> 'e \<Rightarrow> StorageReader" where
  "engine_reader ops e = \<lparr>rd_get = (\<lambda>k. eng_get ops k e), rd_list = (\<lambda>p. eng_list ops p e)\<rparr>"

definition snapshot_copy_reader :: "entries \<Rightarrow> StorageReader" where
  "snapshot_copy_reader d = \<lparr>rd_get = (\<lambda>k. Some (fst (SnapshotCopy_Get k last_sink d None))),
     rd_list = (\<lambda>p. case SnapshotCopy_List p collect_sink d [] of (es, ok) \<Rightarrow> (es, reply_of ok))\<rparr>"

record 'q TransportQuery =
  tq_reply :: "string \<Rightarrow> bytes \<Rightarrow> string \<Rightarrow> 'q \<Rightarrow> 'q \<times> EngineReply"
  tq_reply_error :: "Status \<Rightarrow> 'q \<Rightarrow> 'q \<times> EngineReply"

text \<open>Handlers return the query and whether an exception left them.\<close>

definition thrown :: "'q \<times> EngineReply \<Rightarrow> 'q \<times> bool" where
  "thrown = (\<lambda>(q, r). (q, r = EThrow))"

fun ReplyEntries :: "'q TransportQuery \<Rightarrow> (string \<Rightarrow> string) \<Rightarrow> string \<Rightarrow> entries \<Rightarrow> 'q \<Rightarrow> 'q \<times> EngineReply" where
  "ReplyEntries tq full_key encoding [] q = (q, ETrue)"
| "ReplyEntries tq full_key encoding ((k, v) # es) q =
    (case tq_reply tq (full_key k) v encoding q of
       (q', ETrue) \<Rightarrow> ReplyEntries tq full_key encoding es q'
     | (q', r) \<Rightarrow> (q', r))"

definition ReplyFromReader :: "StorageReader \<Rightarrow> StorageQuery \<Rightarrow> string \<Rightarrow> string \<Rightarrow> 'q TransportQuery \<Rightarrow> 'q \<Rightarrow> 'q \<times> bool" where
  "ReplyFromReader reader selector pfx scope_path tq q =
    (let full_key = MakeReplyKey pfx scope_path in
     if \<not> sq_is_list selector then
       (case rd_get reader (sq_relative_key selector) of
          None \<Rightarrow> (q, True)
        | Some None \<Rightarrow> (q, False)
        | Some (Some v) \<Rightarrow> thrown (tq_reply tq (full_key (sq_relative_key selector)) v kSitosV1 q))
     else
       (case rd_list reader (sq_relative_key selector) of
          (es, finished) \<Rightarrow>
            (case ReplyEntries tq full_key kSitosV1 es q of
               (q', ETrue) \<Rightarrow> (q', finished = EThrow)
             | (q', r) \<Rightarrow> thrown (q', r))))"

section \<open>The handlers\<close>

definition ReplyScopedQuery :: "('e, 'd) NodeState \<Rightarrow> string \<Rightarrow> string \<Rightarrow> 'q TransportQuery \<Rightarrow> 'q \<Rightarrow> 'q \<times> bool" where
  "ReplyScopedQuery st scope tail tq q =
    (case SplitFirst tail of
       None \<Rightarrow> (q, False)
     | Some (sid, relative) \<Rightarrow>
         if \<not> IsValidSessionId sid then (q, False)
         else (case ParseRelativeSelector relative of
           None \<Rightarrow> (q, False)
         | Some selector \<Rightarrow>
             (case AcquireSession sid st of
                None \<Rightarrow> (q, False)
              | Some r \<Rightarrow>
                  if sr_lifecycle r \<noteq> kActive then thrown (tq_reply_error tq StateLost q)
                  else (case (if scope = ''snap'' then map_option snapshot_copy_reader (sr_snapshot r)
                              else map_option (engine_reader InMemoryOps) (sr_overlay r)) of
                    None \<Rightarrow> (q, False)
                  | Some reader \<Rightarrow> ReplyFromReader reader selector (ns_prefix st) (scope @ ''/'' @ sid) tq q))))"

text \<open>The selector of a buffer query; unlike the parameter selector it accepts no wildcard test,
  as \<open>IsValidKey\<close> refuses a star anyway.\<close>

definition ParseBufferSelector :: "string \<Rightarrow> (bool \<times> string) option" where
  "ParseBufferSelector selector_text =
    (if selector_text = '''' then None
     else if selector_text = ''**'' then Some (True, '''')
     else if ends_with selector_text ''/**'' then
       (let p = take (length selector_text - 3) selector_text in
        if \<not> IsValidPrefix p then None else Some (True, p @ ''/''))
     else if \<not> IsValidKey selector_text then None
     else Some (False, selector_text))"

text \<open>The collected entries, \<open>None\<close> when the engine threw, and whether the call returned true.\<close>

definition CollectBuffers :: "'e EngineOps \<Rightarrow> bool \<Rightarrow> string \<Rightarrow> 'e \<Rightarrow> (entries \<times> bool) option" where
  "CollectBuffers ops list_query relative e =
    (if list_query then
       (case eng_list ops relative e of (es, r) \<Rightarrow> if r = EThrow then None else Some (es, r = ETrue))
     else map_option (\<lambda>v. case v of None \<Rightarrow> ([], False) | Some b \<Rightarrow> ([(relative, b)], True)) (eng_get ops relative e))"

definition BufferQueryFailed :: "('e, 'd) NodeState \<Rightarrow> ('e, 'd) NodeState" where
  "BufferQueryFailed st = EmitDiagnostics [(kError, ''durable buffer query failed'')] st"

definition ReplyBufferQuery :: "'e EngineOps \<Rightarrow> ('e, 'd) NodeState \<Rightarrow> string \<Rightarrow> 'q TransportQuery \<Rightarrow> 'q \<Rightarrow>
    (('e, 'd) NodeState \<times> 'q) \<times> bool" where
  "ReplyBufferQuery ops st keyexpr tq q =
    (let none = ((st, q), False) in
     case StripPrefix (ns_prefix st) keyexpr of
       None \<Rightarrow> none
     | Some rest \<Rightarrow>
         if \<not> starts_with rest ''buffers/'' then none
         else (case SplitFirst (drop 8 rest) of
           None \<Rightarrow> none
         | Some (sid, class_and_selector) \<Rightarrow>
             (case SplitFirst class_and_selector of
                None \<Rightarrow> none
              | Some (class_name, selector_text) \<Rightarrow>
                  if \<not> IsValidSessionId sid \<or> class_name \<noteq> ''durable'' then none
                  else (case ParseBufferSelector selector_text of
                    None \<Rightarrow> none
                  | Some (list_query, relative) \<Rightarrow>
                      if ns_catalog_mode st \<and> ns_catalog_unavailable st then
                        (case thrown (tq_reply_error tq CatalogUnavailable q) of (q', t) \<Rightarrow> ((st, q'), t))
                      else (case AcquireSession sid st of
                        None \<Rightarrow> none
                      | Some r \<Rightarrow>
                          (case sr_durable_buffers r of
                             None \<Rightarrow> none
                           | Some e \<Rightarrow>
                               if \<not> so_durable_buffers (sr_options r) then none
                               else (case CollectBuffers ops list_query relative e of
                                 None \<Rightarrow> ((BufferQueryFailed st, q), False)
                               | Some (es, ok) \<Rightarrow>
                                   if \<not> ok \<and> list_query then ((BufferQueryFailed st, q), False)
                                   else (case ReplyEntries tq
                                       (MakeReplyKey (ns_prefix st) (''buffers/'' @ sid @ ''/durable'')) ''zenoh/bytes'' es q of
                                     (q', ETrue) \<Rightarrow> ((st, q'), False)
                                   | (q', _) \<Rightarrow> ((BufferQueryFailed st, q'), False)))))))))"

definition SessionJson :: "SessionLifecycleState \<Rightarrow> string \<Rightarrow> string \<Rightarrow> string" where
  "SessionJson state created_at generation_uuid =
     ''{'' @ json_field ''state'' (Quote (LifecycleName state)) @ '','' @ json_field ''created_at'' (Quote created_at) @
     '','' @ json_field ''generation_uuid'' (Quote generation_uuid) @ ''}''"

text \<open>The metadata reported for a session identifier; \<open>None\<close> is zero replies.\<close>

definition SessionMetadata :: "string \<Rightarrow> ('e, 'd) NodeState \<Rightarrow> string option" where
  "SessionMetadata sid st =
    (let catalogued = (case ns_catalog st of
         None \<Rightarrow> None
       | Some c \<Rightarrow>
           (case CatalogFind sid c of
              Some cr \<Rightarrow> if cr_state cr = kDeleting \<or> cr_state cr = kDeleteFailed
                then Some (SessionJson (cr_state cr) (cr_created_at cr) (cr_generation_uuid cr)) else None
            | None \<Rightarrow> None)) in
     case ns_sessions st sid of
       Some r \<Rightarrow>
         if IsActive r then
           (if TryAcquire r = None then None
            else Some (SessionJson (sr_lifecycle r) (sm_created_at (sr_metadata r)) (sm_generation_uuid (sr_metadata r))))
         else catalogued
     | None \<Rightarrow> catalogued)"

definition ReplyMetaQuery :: "('e, 'd) NodeState \<Rightarrow> string \<Rightarrow> 'q TransportQuery \<Rightarrow> 'q \<Rightarrow> 'q \<times> bool" where
  "ReplyMetaQuery st keyexpr tq q =
    (case ParseKey (ns_prefix st) keyexpr of
       None \<Rightarrow> (q, False)
     | Some k \<Rightarrow>
         if pk_kind k = KeyMetaAck then
           (case ParseAckToken (pk_uuid k) of
              None \<Rightarrow> (q, False)
            | Some token \<Rightarrow>
                (case Find token (ns_ack_registry st) of
                   None \<Rightarrow> (q, False)
                 | Some result \<Rightarrow>
                     (case EncodeAckResult result of
                        Inl _ \<Rightarrow> (q, False)
                      | Inr encoded \<Rightarrow> thrown (tq_reply tq keyexpr encoded kSitosV1Ack q))))
         else if pk_kind k \<noteq> KeyMetaSession then (q, False)
         else (case SessionMetadata (pk_sid k) st of
           None \<Rightarrow> (q, False)
         | Some json \<Rightarrow> thrown (tq_reply tq keyexpr (Encode (PV_Str json)) kSitosV1 q)))"

definition OnQueryAdmitted :: "'e EngineOps \<Rightarrow> ('e, 'd) NodeState \<Rightarrow> string \<Rightarrow> 'q TransportQuery \<Rightarrow> 'q \<Rightarrow>
    (('e, 'd) NodeState \<times> 'q) \<times> bool" where
  "OnQueryAdmitted ops st keyexpr tq q =
    (case StripPrefix (ns_prefix st) keyexpr of
       None \<Rightarrow> ((st, q), False)
     | Some rest \<Rightarrow>
         (case SplitFirst rest of
            None \<Rightarrow> ((st, q), False)
          | Some (head, tail) \<Rightarrow>
              if head = ''base'' then
                (case ParseRelativeSelector tail of
                   None \<Rightarrow> ((st, q), False)
                 | Some selector \<Rightarrow> map_prod (Pair st) (\<lambda>x. x)
                     (ReplyFromReader (engine_reader ops (ns_engine st)) selector (ns_prefix st) ''base'' tq q))
              else if head = ''snap'' \<or> head = ''session'' then
                map_prod (Pair st) (\<lambda>x. x) (ReplyScopedQuery st head tail tq q)
              else if head = ''meta'' then map_prod (Pair st) (\<lambda>x. x) (ReplyMetaQuery st keyexpr tq q)
              else if head = ''buffers'' then ReplyBufferQuery ops st keyexpr tq q
              else ((st, q), False)))"

definition OnQuery :: "'e EngineOps \<Rightarrow> string \<Rightarrow> 'q TransportQuery \<Rightarrow> ('e, 'd) NodeState \<times> 'q \<Rightarrow> ('e, 'd) NodeState \<times> 'q" where
  "OnQuery ops keyexpr tq = (\<lambda>(st, q). case Enter st of
     None \<Rightarrow> (st, q)
   | Some st' \<Rightarrow>
       (case OnQueryAdmitted ops st' keyexpr tq q of
          ((st'', q'), False) \<Rightarrow> (Leave st'', q')
        | ((st'', q'), True) \<Rightarrow> (Leave (EmitDiagnostics [(kError, ''query callback exception'')] st''), q')))"

end
