(* ===== verification/NodeQueryProps.thy ===== *)
theory NodeQueryProps
  imports NodeQuery NodeSampleProps
begin

text \<open>
  What a client observes of the storage node through queries: parameter reads return exactly the
  selected entries of the scope they name, a session whose volatile state is gone refuses with a
  typed error instead of staying silent, an applied write is what the next read returns, and the
  result of an acknowledged write can be fetched and decoded.
\<close>

section \<open>A query that records its replies\<close>

type_synonym Replies = "(string \<times> bytes \<times> string) list \<times> Status list"

definition RecordingQuery :: "Replies TransportQuery" where
  "RecordingQuery = \<lparr>tq_reply = (\<lambda>k v encoding (vs, es). ((vs @ [(k, v, encoding)], es), ETrue)),
     tq_reply_error = (\<lambda>s (vs, es). ((vs, es @ [s]), ETrue))\<rparr>"

definition replies :: "'e EngineOps \<Rightarrow> ('e, 'd) NodeState \<Rightarrow> string \<Rightarrow> Replies" where
  "replies ops st keyexpr = snd (OnQuery ops keyexpr RecordingQuery (st, ([], [])))"

lemma recording [simp]:
  "tq_reply RecordingQuery k v encoding (vs, es) = ((vs @ [(k, v, encoding)], es), ETrue)"
  "tq_reply_error RecordingQuery s (vs, es) = ((vs, es @ [s]), ETrue)"
  by (simp_all add: RecordingQuery_def)

lemma thrown_simps [simp]: "thrown (q, r) = (q, r = EThrow)"
  by (simp add: thrown_def)

lemma ReplyEntries_recording [simp]:
  "ReplyEntries RecordingQuery full_key encoding es (vs, errs) =
    ((vs @ map (\<lambda>(k, v). (full_key k, v, encoding)) es, errs), ETrue)"
  by (induction es arbitrary: vs) auto

lemma replies_admitted:
  "ns_accepting st \<Longrightarrow> replies ops st keyexpr =
     snd (fst (OnQueryAdmitted ops (st\<lparr>ns_in_flight := ns_in_flight st + 1\<rparr>) keyexpr RecordingQuery ([], [])))"
  by (auto simp: replies_def OnQuery_def Enter_def split: prod.splits bool.splits)

lemma replies_stopped: "\<not> ns_accepting st \<Longrightarrow> replies ops st keyexpr = ([], [])"
  by (simp add: replies_def OnQuery_def Enter_def)

section \<open>Reading a reader\<close>

definition selected :: "StorageQuery \<Rightarrow> entries \<Rightarrow> entries" where
  "selected selector es = filter (\<lambda>(k, _). if sq_is_list selector then starts_with k (sq_relative_key selector)
     else k = sq_relative_key selector) es"

definition reads :: "StorageReader \<Rightarrow> entries \<Rightarrow> bool" where
  "reads reader es \<longleftrightarrow> (\<forall>k. rd_get reader k = Some (map_of es k)) \<and>
     (\<forall>p. rd_list reader p = (filter (\<lambda>(k, _). starts_with k p) es, ETrue))"

lemma feed_collect_sink: "feed collect_sink es acc = (acc @ es, True)"
  by (induction es arbitrary: acc) (auto simp: collect_sink_def)

lemma snapshot_reads: "map_wf d \<Longrightarrow> reads (snapshot_copy_reader d) d"
  by (auto simp: reads_def snapshot_copy_reader_def SnapshotCopy_Get_def SnapshotCopy_List_def last_sink_def
      feed_collect_sink map_prefix_range_filter reply_of_def split: option.split)

lemma in_memory_reads: "map_wf (ime_data e) \<Longrightarrow> reads (engine_reader InMemoryOps e) (ime_data e)"
  by (auto simp: reads_def engine_reader_def InMemoryOps_def InMemoryEngine_Get_def InMemoryEngine_List_def last_sink_def
      feed_collect_sink map_prefix_range_filter reply_of_def split: option.split)

lemma filter_key:
  assumes "distinct (map fst es)"
  shows "filter (\<lambda>(k, _). k = key) es = (case map_of es key of None \<Rightarrow> [] | Some v \<Rightarrow> [(key, v)])"
  using assms
proof (induction es)
  case (Cons e es)
  obtain k v where e: "e = (k, v)" by (cases e)
  have "map_of es key = None" if "k = key" using Cons.prems e that by (auto simp: map_of_eq_None_iff)
  with Cons e show ?case by auto
qed simp

lemma ReplyFromReader_recording:
  assumes "reads reader es" "map_wf es"
  shows "ReplyFromReader reader selector pfx scope_path RecordingQuery (vs, errs) =
    ((vs @ map (\<lambda>(k, v). (MakeReplyKey pfx scope_path k, v, kSitosV1)) (selected selector es), errs), False)"
  using assms filter_key[OF map_wf_distinct[OF assms(2)]]
  by (auto simp: ReplyFromReader_def reads_def selected_def Let_def split: option.splits)

section \<open>Scoped reads\<close>

lemma OnQueryAdmitted_scoped:
  assumes "scope \<in> {''snap'', ''session''}"
  shows "OnQueryAdmitted ops st (ns_prefix st @ CHR ''/'' # scope @ CHR ''/'' # tail) tq q =
    map_prod (Pair st) (\<lambda>x. x) (ReplyScopedQuery st scope tail tq q)"
  using assms by (auto simp: OnQueryAdmitted_def)

lemma AcquireSession_frame [simp]:
  "AcquireSession sid (st\<lparr>ns_in_flight := n\<rparr>) = AcquireSession sid st"
  by (simp add: AcquireSession_def)

text \<open>An active session has its snapshot and its overlay, both ordered maps; a released one need have neither.\<close>

definition session_readable :: "'e SessionRecord \<Rightarrow> bool" where
  "session_readable r \<longleftrightarrow> (sr_lifecycle r = kActive \<longrightarrow>
     sr_snapshot r \<noteq> None \<and> sr_overlay r \<noteq> None \<and> map_wf (the (sr_snapshot r)) \<and> map_wf (ime_data (the (sr_overlay r))))"

definition scope_entries :: "string \<Rightarrow> 'e SessionRecord \<Rightarrow> entries" where
  "scope_entries scope r = (if scope = ''snap'' then the (sr_snapshot r) else ime_data (the (sr_overlay r)))"

lemma ReplyScopedQuery_recording:
  assumes "scope \<in> {''snap'', ''session''}" "IsValidSessionId sid" "ParseRelativeSelector relative = Some selector"
    "\<forall>r. AcquireSession sid st = Some r \<longrightarrow> session_readable r"
  shows "ReplyScopedQuery st scope (sid @ CHR ''/'' # relative) RecordingQuery ([], []) =
    ((case AcquireSession sid st of
        None \<Rightarrow> ([], [])
      | Some r \<Rightarrow>
          if sr_lifecycle r \<noteq> kActive then ([], [StateLost])
          else (map (\<lambda>(k, v). (MakeReplyKey (ns_prefix st) (scope @ ''/'' @ sid) k, v, kSitosV1))
             (selected selector (scope_entries scope r)), [])), False)"
proof (cases "AcquireSession sid st")
  case (Some r)
  with assms(4) have "session_readable r" by simp
  with assms(1-3) Some show ?thesis
    by (auto simp: ReplyScopedQuery_def session_readable_def scope_entries_def
        ReplyFromReader_recording[OF snapshot_reads] ReplyFromReader_recording[OF in_memory_reads])
qed (use assms in \<open>auto simp: ReplyScopedQuery_def\<close>)

section \<open>Base keys are not marker keys\<close>

lemma SplitRouteLoop_prefix: "SplitRouteLoop s cs \<noteq> [] \<Longrightarrow> \<exists>t. SplitRouteLoop s cs = cs @ t"
proof (induction s cs rule: SplitRouteLoop.induct)
  case (1 s cs)
  let ?chunk = "takeWhile (\<lambda>c. c \<noteq> CHR ''/'') s"
  have eq: "SplitRouteLoop s cs = (if s = [] then cs else if ?chunk = [] then [] else
      (case dropWhile (\<lambda>c. c \<noteq> CHR ''/'') s of [] \<Rightarrow> cs @ [?chunk] | _ # rest \<Rightarrow> SplitRouteLoop rest (cs @ [?chunk])))"
    by (subst SplitRouteLoop.simps) (simp add: Let_def)
  show ?case
  proof (cases "s = [] \<or> ?chunk = []")
    case True
    with eq 1(2) show ?thesis by auto
  next
    case False
    show ?thesis
    proof (cases "dropWhile (\<lambda>c. c \<noteq> CHR ''/'') s")
      case Nil
      have "SplitRouteLoop s cs = cs @ [?chunk]" unfolding eq Nil using False by simp
      then show ?thesis by blast
    next
      case (Cons c rest)
      with eq False have e: "SplitRouteLoop s cs = SplitRouteLoop rest (cs @ [?chunk])" by simp
      with 1(1)[OF _ refl _ Cons] False 1(2) show ?thesis by auto
    qed
  qed
qed

lemma SplitRoute_base: "length (SplitRoute (''base/'' @ u) b) \<ge> 4 \<Longrightarrow> SplitRoute (''base/'' @ u) b ! 0 = ''base''"
proof -
  assume len: "length (SplitRoute (''base/'' @ u) b) \<ge> 4"
  have step: "SplitRouteLoop (''base/'' @ t) [] = SplitRouteLoop t [''base'']" for t
    by (subst SplitRouteLoop.simps) simp
  have one: "SplitRouteLoop ''base'' [] = [''base'']" by (subst SplitRouteLoop.simps) simp
  have "\<exists>t. SplitRoute (''base/'' @ u) b = SplitRouteLoop t [''base''] \<or> length (SplitRoute (''base/'' @ u) b) < 4"
  proof (cases "u = []")
    case True
    with one show ?thesis by (auto simp: SplitRoute_def)
  next
    case False
    with step show ?thesis by (auto simp: SplitRoute_def butlast_append)
  qed
  with len obtain t where t: "SplitRoute (''base/'' @ u) b = SplitRouteLoop t [''base'']" by force
  moreover have "SplitRouteLoop t [''base''] \<noteq> []" using len t by (metis list.size(3) not_numeral_le_zero)
  ultimately show ?thesis using SplitRouteLoop_prefix by fastforce
qed

lemma MarkerRoute_base: "MarkerRoute p (p @ ''/base/'' @ u) = None"
proof -
  have strip: "StripFencePrefix p (p @ ''/base/'' @ u) = Some (''base/'' @ u) \<or> StripFencePrefix p (p @ ''/base/'' @ u) = None"
    by (auto simp: StripFencePrefix_def)
  with SplitRoute_base[of u True] SplitRoute_base[of u False] show ?thesis
    by (auto simp: MarkerRoute_def ParseFenceMarkerRoute_def RecoverMalformedFenceMarkerRoute_def Let_def not_less
        split: option.splits)
qed

section \<open>A base write and the reads after it\<close>

lemma base_path_conv: "p @ ''/base/'' @ u = p @ CHR ''/'' # ''base'' @ CHR ''/'' # u"
  by simp

lemma OnQueryAdmitted_base:
  "OnQueryAdmitted ops st (ns_prefix st @ ''/base/'' @ tail) tq q = (case ParseRelativeSelector tail of
     None \<Rightarrow> ((st, q), False)
   | Some selector \<Rightarrow> map_prod (Pair st) (\<lambda>x. x)
       (ReplyFromReader (engine_reader ops (ns_engine st)) selector (ns_prefix st) ''base'' tq q))"
  by (simp add: OnQueryAdmitted_def)

lemma valid_key_no_star: "IsValidKey u \<Longrightarrow> CHR ''*'' \<notin> set u"
  using chunk_loop_chars[of u "CHR ''*''"] by (auto simp: IsValidKey_loop IsValidChunkChar_def isalnum_def)

lemma selector_of_key: "IsValidKey u \<Longrightarrow> ParseRelativeSelector u = Some \<lparr>sq_is_list = False, sq_relative_key = u\<rparr>"
proof -
  assume u: "IsValidKey u"
  have "drop n u \<noteq> ''/**''" for n
    using in_set_dropD[of "CHR ''*''" n u] valid_key_no_star[OF u] by auto
  then have "\<not> ends_with u ''/**''" by (simp add: ends_with_def)
  moreover have "u \<noteq> ''**''" "u \<noteq> ''''" using valid_key_no_star[OF u] u by (auto simp: IsValidKey_loop)
  ultimately show ?thesis using u valid_key_no_star[OF u] by (simp add: ParseRelativeSelector_def)
qed

lemma replies_base:
  assumes "ns_accepting st" "ParseRelativeSelector tail = Some selector" "map_wf (ime_data (ns_engine st))"
  shows "replies InMemoryOps st (ns_prefix st @ ''/base/'' @ tail) =
    (map (\<lambda>(k, v). (ns_prefix st @ ''/base/'' @ k, v, kSitosV1)) (selected selector (ime_data (ns_engine st))), [])"
  using assms OnQueryAdmitted_base[of InMemoryOps "st\<lparr>ns_in_flight := ns_in_flight st + 1\<rparr>" tail RecordingQuery "([], [])"]
    ReplyFromReader_recording[OF in_memory_reads[OF assms(3)] assms(3)]
  by (simp add: replies_admitted MakeReplyKey_def)

definition BasePut :: "string \<Rightarrow> string \<Rightarrow> bytes \<Rightarrow> TransportSample" where
  "BasePut p u payload = \<lparr>ts_key = p @ ''/base/'' @ u, ts_payload = payload, ts_encoding = kSitosV1,
     ts_ack = AckAttachmentAbsent, ts_kind = SamplePut, ts_fence_lane = FenceLaneAbsent\<rparr>"

lemma OnSample_BasePut:
  assumes "ns_accepting st" "IsValidKey u"
  shows "OnSample InMemoryOps False False (BasePut (ns_prefix st) u payload) st =
    st\<lparr>ns_engine := \<lparr>ime_data = map_insert u payload (ime_data (ns_engine st))\<rparr>\<rparr>"
proof -
  have key: "ParseKey (ns_prefix st) (ns_prefix st @ ''/base/'' @ u) = Some (parsed KeyBase '''' '''' u False None)"
    using route_key_parses[OF base_value[OF assms(2)]] by simp
  have nf: "\<not> starts_with (ns_prefix st @ ''/base/'' @ u) (ns_prefix st @ ''/meta/fence/buffer/'')"
    "\<not> starts_with (ns_prefix st @ ''/base/'' @ u) (ns_prefix st @ ''/meta/fence/cache/'')"
    by (auto simp: starts_with_def)
  show ?thesis
    using assms(1) key nf MarkerRoute_base[of "ns_prefix st" u]
    by (cases "ns_engine st") (simp add: OnSample_def Enter_def Leave_def OnSampleAdmitted_def BasePut_def ApplyParameterSample_def NewContext_def
        on_base_def ApplyWrite_def set_invoked_def InMemoryOps_def InMemoryEngine_Put_def reply_of_def Let_def
        EmitDiagnostics_def)
qed

section \<open>Properties\<close>

text \<open>C19: a parameter read in a session or snapshot scope.  For an active session that admits the
  query, a valid selector is answered with exactly the selected entries of the overlay (scope session)
  or of the snapshot taken at creation (scope snap), in key order, each once, under the key of its
  scope; a session that is retained or orphaned, whose volatile state was released, answers with one
  typed \<open>StateLost\<close> error and no value; and where no session admits the query nothing is answered.\<close>

theorem scoped_query_exact:
  assumes "ns_accepting st" "scope \<in> {''snap'', ''session''}" "IsValidSessionId sid"
    and "ParseRelativeSelector relative = Some selector" "\<forall>r. AcquireSession sid st = Some r \<longrightarrow> session_readable r"
  shows "replies ops st (ns_prefix st @ ''/'' @ scope @ ''/'' @ sid @ ''/'' @ relative) =
    (case AcquireSession sid st of
       None \<Rightarrow> ([], [])
     | Some r \<Rightarrow>
         if sr_lifecycle r \<noteq> kActive then ([], [StateLost])
         else (map (\<lambda>(k, v). (ns_prefix st @ ''/'' @ scope @ ''/'' @ sid @ ''/'' @ k, v, kSitosV1))
            (selected selector (scope_entries scope r)), []))"
proof -
  let ?st = "st\<lparr>ns_in_flight := ns_in_flight st + 1\<rparr>"
  have acquire: "AcquireSession sid ?st = AcquireSession sid st" by (simp only: AcquireSession_frame)
  have "\<forall>r. AcquireSession sid ?st = Some r \<longrightarrow> session_readable r" using assms(5) by (simp add: acquire)
  note scoped = ReplyScopedQuery_recording[OF assms(2-4) this, unfolded acquire]
  have "OnQueryAdmitted ops ?st (ns_prefix st @ ''/'' @ scope @ ''/'' @ sid @ ''/'' @ relative) RecordingQuery ([], []) =
      map_prod (Pair ?st) (\<lambda>x. x) (ReplyScopedQuery ?st scope (sid @ CHR ''/'' # relative) RecordingQuery ([], []))"
    using OnQueryAdmitted_scoped[OF assms(2), of ops ?st "sid @ CHR ''/'' # relative" RecordingQuery "([], [])"] by simp
  then show ?thesis
    unfolding scoped replies_admitted[OF assms(1)] by (simp add: MakeReplyKey_def split: option.split)
qed

text \<open>A live session, and one that was retained: no snapshot and no overlay.\<close>

definition example_live_session :: "InMemoryEngine SessionRecord" where
  "example_live_session = example_session\<lparr>sr_snapshot := Some [(''a'', [1]), (''a/x'', [2])],
     sr_overlay := Some \<lparr>ime_data = [(''a/y'', [3])]\<rparr>\<rparr>"

definition example_retained_session :: "InMemoryEngine SessionRecord" where
  "example_retained_session = example_session\<lparr>sr_lifecycle := kRetained, sr_snapshot := None, sr_overlay := None\<rparr>"

theorem scoped_query_exact_witness:
  "replies InMemoryOps (set_session ''s1'' example_live_session example_node) ''app/snap/s1/a/**'' =
     ([(''app/snap/s1/a/x'', [2], kSitosV1)], []) \<and>
   replies InMemoryOps (set_session ''s1'' example_retained_session example_node) ''app/snap/s1/a/**'' = ([], [StateLost])"
proof -
  let ?st = "\<lambda>r. set_session ''s1'' r example_node"
  have st: "ns_accepting (?st r)" "ns_prefix (?st r) = ''app''" for r by (simp_all add: set_session_def example_node_def)
  have sid: "IsValidSessionId ''s1''"
    and sel: "ParseRelativeSelector ''a/**'' = Some \<lparr>sq_is_list = True, sq_relative_key = ''a/''\<rparr>" by code_simp+
  have live: "AcquireSession ''s1'' (?st example_live_session) = Some example_live_session"
    "sr_snapshot example_live_session = Some [(''a'', [1]), (''a/x'', [2])]" "sr_lifecycle example_live_session = kActive"
    "session_readable example_live_session"
    by (simp_all add: AcquireSession_def set_session_def example_live_session_def example_session_def TryAcquire_def NewSessionRecord_def
        session_readable_def map_wf_def)
  have lost: "AcquireSession ''s1'' (?st example_retained_session) = Some example_retained_session"
    "sr_lifecycle example_retained_session \<noteq> kActive" "session_readable example_retained_session"
    by (simp_all add: AcquireSession_def set_session_def example_retained_session_def example_session_def TryAcquire_def NewSessionRecord_def
        session_readable_def)
  note exact = scoped_query_exact[OF st(1) _ sid sel, of "''snap''", unfolded st(2)]
  show ?thesis
    using exact[of example_live_session InMemoryOps] exact[of example_retained_session InMemoryOps] live lost
    by (simp add: selected_def starts_with_def scope_entries_def)
qed

text \<open>A base write is read back, and nothing else changes.  After an ordinary put of a valid
  key is delivered to a running node, a get of that key replies the payload once, a get of any
  other key replies what it did before, and every session keeps its record: snapshots taken
  earlier do not see the write.\<close>

theorem base_write_read_back:
  assumes "ns_accepting st" "IsValidKey u" "IsValidKey u'" "map_wf (ime_data (ns_engine st))"
  shows "replies InMemoryOps (OnSample InMemoryOps False False (BasePut (ns_prefix st) u payload) st) (ns_prefix st @ ''/base/'' @ u') =
      (if u' = u then ([(ns_prefix st @ ''/base/'' @ u, payload, kSitosV1)], [])
       else replies InMemoryOps st (ns_prefix st @ ''/base/'' @ u')) \<and>
    ns_sessions (OnSample InMemoryOps False False (BasePut (ns_prefix st) u payload) st) = ns_sessions st"
proof -
  let ?st = "st\<lparr>ns_engine := \<lparr>ime_data = map_insert u payload (ime_data (ns_engine st))\<rparr>\<rparr>"
  have wf: "map_wf (ime_data (ns_engine ?st))" using assms(4) by (simp add: map_insert_wf)
  note after = replies_base[of ?st, OF _ selector_of_key[OF assms(3)] wf]
    and before = replies_base[OF assms(1) selector_of_key[OF assms(3)] assms(4)]
  show ?thesis
    using assms(1) after before map_wf_distinct[OF assms(4)] map_wf_distinct[OF wf]
    unfolding OnSample_BasePut[OF assms(1,2)]
    by (simp add: selected_def filter_key)
qed

theorem base_write_read_back_witness:
  "replies InMemoryOps (OnSample InMemoryOps False False (BasePut ''app'' ''a/x'' [0, 1]) example_node) ''app/base/a/x'' =
     ([(''app/base/a/x'', [0, 1], kSitosV1)], [])"
proof -
  have "ns_prefix example_node = ''app''" "ns_accepting example_node" "ns_engine example_node = empty_engine"
    by (simp_all add: example_node_def)
  moreover have "IsValidKey ''a/x''" by code_simp
  ultimately show ?thesis
    using base_write_read_back[of example_node "''a/x''" "''a/x''" "[0, 1]"] by (simp add: empty_engine_def)
qed

lemma replies_ack:
  assumes "ns_accepting st" "length token = 16" "IsValidAckToken token"
    and "BuildMetaAckKey (ns_prefix st) (FormatAckToken token) = Some key"
    and r: "Find token (ns_ack_registry st) = Some r" "ack_result_valid r"
  shows "replies ops st key = ([(key, AckResultBytes r, kSitosV1Ack)], [])"
proof -
  have uuid: "IsValidAckUuid (FormatAckToken token)" and key: "key = ns_prefix st @ ''/meta/ack/'' @ FormatAckToken token"
    using assms(4) by (auto simp: BuildMetaAckKey_def split: if_splits)
  have pk: "ParseKey (ns_prefix st) key = Some (parsed KeyMetaAck '''' (FormatAckToken token) '''' False None)"
    unfolding key by (rule route_key_parses[OF meta_ack[OF uuid]])
  have tok: "ParseAckToken (FormatAckToken token) = Some token" using assms(2,3) token_codec.dec_iff by simp
  have "OnQueryAdmitted ops (st\<lparr>ns_in_flight := n\<rparr>) key RecordingQuery ([], []) =
      map_prod (Pair (st\<lparr>ns_in_flight := n\<rparr>)) (\<lambda>x. x) (ReplyMetaQuery (st\<lparr>ns_in_flight := n\<rparr>) key RecordingQuery ([], []))" for n
    unfolding key by (simp add: OnQueryAdmitted_def)
  moreover have "ReplyMetaQuery (st\<lparr>ns_in_flight := n\<rparr>) key RecordingQuery ([], []) =
      (([(key, AckResultBytes r, kSitosV1Ack)], []), False)" for n
    using r pk tok by (simp add: ReplyMetaQuery_def EncodeAckResult_valid Result_Ok_def)
  ultimately show ?thesis using assms(1) by (simp add: replies_admitted)
qed

text \<open>C18: the result of an acknowledged write can be fetched.  After an admitted delivery, whatever
  the engine did, a get on the token's acknowledgement key replies exactly once, and the payload
  decodes to the retained result.\<close>

theorem acknowledged_result_fetched:
  assumes "registry_inv (ns_ack_registry st)"
    and "snd (ClaimOrReject token (SampleFingerprint (ns_prefix st) sample) kParameterLane
      (LaneBusyResult (SampleOperationKind (ns_prefix st) sample)) (ns_ack_registry st)) = Admitted"
    and "ApplyAcknowledgedSample ops token sample (st, cx) = ((st', cx'), exc)"
    and "ns_accepting st" "length token = 16" "IsValidAckToken token"
    and "BuildMetaAckKey (ns_prefix st) (FormatAckToken token) = Some key"
  shows "\<exists>r bytes. Find token (ns_ack_registry st') = Some r \<and>
    replies ops st' key = ([(key, bytes, kSitosV1Ack)], []) \<and> DecodeAckResult bytes = Result_Ok r"
proof -
  from ApplyAcknowledged_admitted[OF assms(1-3)] obtain r where r: "Find token (ns_ack_registry st') = Some r"
    "ack_result_valid r" by blast
  have gate: "ns_prefix st' = ns_prefix st" "ns_accepting st'"
    using ApplyAcknowledged_gate[OF assms(3)] assms(4) by (simp_all add: same_gate_def)
  have "replies ops st' key = ([(key, AckResultBytes r, kSitosV1Ack)], [])"
    by (rule replies_ack) (use gate assms(5-7) r in simp_all)
  with r DecodeAckResult_bytes[OF r(2)] show ?thesis by blast
qed


definition example_token :: AckToken where
  "example_token = [1, 2, 3, 4, 5, 6, 0x47, 8, 0x89, 10, 11, 12, 13, 14, 15, 16]"

theorem acknowledged_result_fetched_witness:
  "\<exists>key bytes r. BuildMetaAckKey ''app'' (FormatAckToken example_token) = Some key \<and> DecodeAckResult bytes = Result_Ok r \<and>
    replies ExampleOps (fst (fst (ApplyAcknowledgedSample ExampleOps example_token example_sample (example_node, NewContext)))) key =
      ([(key, bytes, kSitosV1Ack)], [])"
proof -
  obtain st' cx' exc where run:
    "ApplyAcknowledgedSample ExampleOps example_token example_sample (example_node, NewContext) = ((st', cx'), exc)"
    by (metis surj_pair)
  have inv: "registry_inv (ns_ack_registry example_node)" by (simp add: example_node_def NewRegistry_inv)
  have adm: "snd (ClaimOrReject example_token (SampleFingerprint (ns_prefix example_node) example_sample) kParameterLane
      (LaneBusyResult (SampleOperationKind (ns_prefix example_node) example_sample)) (ns_ack_registry example_node)) = Admitted"
    by (simp add: ClaimOrReject_def ClaimLocked_def NewRegistry_def example_node_def)
  have frame: "ns_prefix example_node = ''app''" "ns_accepting example_node" by (simp_all add: example_node_def)
  have tok: "length example_token = 16" "IsValidAckToken example_token" by (simp_all add: example_token_def IsValidAckToken_def)
  have key: "BuildMetaAckKey ''app'' (FormatAckToken example_token) = Some ''app/meta/ack/01020304-0506-4708-890a-0b0c0d0e0f10''"
    by code_simp
  then have "BuildMetaAckKey (ns_prefix example_node) (FormatAckToken example_token) =
      Some ''app/meta/ack/01020304-0506-4708-890a-0b0c0d0e0f10''" by (simp add: frame)
  from acknowledged_result_fetched[OF inv adm run frame(2) tok this] key run show ?thesis by auto
qed

end
