(* ===== verification/NodeLifecycle.thy ===== *)
theory NodeLifecycle
  imports NodeState
begin

text \<open>
  The session life cycle of the storage node: creation, retention, closing, the durable
  catalog's transitions and the reconciliation at start, \<open>DurableLifecycle\<close>, \<open>CreateSession\<close>,
  \<open>RetainSession\<close>, \<open>CloseSession\<close>, \<open>Start\<close> and \<open>Stop\<close> of \<open>src/storage_node.cpp\<close>.  Each function is
  one call running to its end; a wait for other threads is the condition it waits for.  The file
  system, the database below a durable store, the host's engine factory, the transport, the clock
  and the random source are parameters.
\<close>

section \<open>The environment of a node\<close>

text \<open>\<open>'f\<close> is the state of the file system below the durable root.  A store is named by its session
  and generation.  The factory may throw (outer \<open>None\<close>) and may return a null pointer.\<close>

record ('e, 'd, 'f) NodeEnv =
  ne_ops :: "'e EngineOps"
  ne_catalog :: "'d CatalogEnv"
  ne_create_directories :: "string \<Rightarrow> string \<Rightarrow> 'f \<Rightarrow> 'f \<times> error_code"
  ne_open_store :: "string \<Rightarrow> string \<Rightarrow> 'f \<Rightarrow> 'f \<times> 'e Result"
  ne_has_current :: "string \<Rightarrow> string \<Rightarrow> 'f \<Rightarrow> bool"
  ne_remove_all :: "string \<Rightarrow> string \<Rightarrow> 'f \<Rightarrow> 'f \<times> error_code"
  ne_sessions_listing :: "'f \<Rightarrow> (string \<times> string list option) list \<times> bool"
  ne_factory :: "(string \<Rightarrow> 'e option Result option) option"
  ne_supports_liveliness :: bool
  ne_declare_token :: "string \<Rightarrow> bool"
  ne_declare_subscriber :: "unit Result"
  ne_declare_queryable :: "unit Result"

text \<open>The clock: the text \<open>NowIso8601\<close> returns when it is read for a field of a session.\<close>

type_synonym Clock = "string \<Rightarrow> string \<Rightarrow> string"

type_synonym ('e, 'd, 'f) World = "('e, 'd) NodeState \<times> 'f"

definition InvalidArgumentCode :: error_code where
  "InvalidArgumentCode = \<lparr>ec_value = 22, ec_category = GenericCategory\<rparr>"

definition OperationInProgress :: error_code where
  "OperationInProgress = \<lparr>ec_value = 115, ec_category = GenericCategory\<rparr>"

definition SessionAlreadyExists :: error_code where
  "SessionAlreadyExists = \<lparr>ec_value = 17, ec_category = GenericCategory\<rparr>"

definition NoSuchSession :: error_code where
  "NoSuchSession = \<lparr>ec_value = 2, ec_category = GenericCategory\<rparr>"

definition CatalogDown :: "'a Result" where
  "CatalogDown = Err CatalogUnavailable ''durable session catalog is unavailable''"

section \<open>Catalog transitions\<close>

definition RemoveGeneration :: "('e, 'd, 'f) NodeEnv \<Rightarrow> string \<Rightarrow> string \<Rightarrow> 'f \<Rightarrow> 'f \<times> error_code" where
  "RemoveGeneration env sid generation f = (case ne_remove_all env sid generation f of
     (f', error) \<Rightarrow>
       (f', if ec_category error \<in> {GenericCategory, SystemCategory} \<and> ec_value error \<in> {2, 20}
            then no_error_code else error))"

definition LatchCatalogUnavailable :: "('e, 'd) NodeState \<Rightarrow> ('e, 'd) NodeState" where
  "LatchCatalogUnavailable st =
    (if ns_catalog_unavailable st then st
     else EmitDiagnostics [(kError,
        ''durable session catalog unavailable; readiness latched false until offline repair and restart'')]
        (st\<lparr>ns_catalog_unavailable := True\<rparr>))"

definition TryPutCatalogRecord :: "('e, 'd, 'f) NodeEnv \<Rightarrow> SessionCatalogRecord \<Rightarrow> ('e, 'd) NodeState \<Rightarrow>
    ('e, 'd) NodeState \<times> bool" where
  "TryPutCatalogRecord env r st = (case ns_catalog st of
     None \<Rightarrow> (st, False)
   | Some c \<Rightarrow>
       if ns_catalog_unavailable st then (st, False)
       else (case CatalogPut (ne_catalog env) r c of (c', result) \<Rightarrow> (st\<lparr>ns_catalog := Some c'\<rparr>, IsOk result)))"

definition WriteCatalogRecord :: "('e, 'd, 'f) NodeEnv \<Rightarrow> SessionCatalogRecord \<Rightarrow> ('e, 'd) NodeState \<Rightarrow>
    ('e, 'd) NodeState \<times> unit Result" where
  "WriteCatalogRecord env r st = (case TryPutCatalogRecord env r st of
     (st', True) \<Rightarrow> (st', Result_Ok ())
   | (st', False) \<Rightarrow> (LatchCatalogUnavailable st', CatalogDown))"

definition NodeFind :: "string \<Rightarrow> ('e, 'd) NodeState \<Rightarrow> SessionCatalogRecord option" where
  "NodeFind sid st = Option.bind (ns_catalog st) (CatalogFind sid)"

text \<open>Whether the deletion of this record's generation is still pending in the catalog.\<close>

definition DeletionPending :: "SessionCatalogRecord \<Rightarrow> ('e, 'd) NodeState \<Rightarrow> bool" where
  "DeletionPending r st = (case NodeFind (cr_sid r) st of
     None \<Rightarrow> False
   | Some current \<Rightarrow> cr_generation_uuid current = cr_generation_uuid r \<and>
       (cr_state current = kDeleting \<or> cr_state current = kDeleteFailed))"

definition FinishCatalogDeletion :: "('e, 'd, 'f) NodeEnv \<Rightarrow> Clock \<Rightarrow> SessionCatalogRecord \<Rightarrow>
    ('e, 'd, 'f) World \<Rightarrow> ('e, 'd, 'f) World \<times> unit Result" where
  "FinishCatalogDeletion env now r = (\<lambda>(st, f).
    if ns_catalog_unavailable st then ((st, f), CatalogDown)
    else (case RemoveGeneration env (cr_sid r) (cr_generation_uuid r) f of
      (f', error) \<Rightarrow>
        (let failed = ec_value error \<noteq> 0;
             st = (if failed then EmitDiagnostics [(kError, ''durable store removal failed; delete_failed recorded'')] st
                   else st) in
         if \<not> DeletionPending r st then ((st, f'), Result_Ok ())
         else if failed then
           (case WriteCatalogRecord env (r\<lparr>cr_state := kDeleteFailed, cr_failure := Some
                \<lparr>cf_operation = ''remove_directory'', cf_category = ''filesystem'', cf_code = ec_value error\<rparr>\<rparr>) st of
              (st', Inl e) \<Rightarrow> ((st', f'), Inl e)
            | (st', Inr _) \<Rightarrow> ((st', f'), Result_Err Error ''durable store removal failed'' error))
         else
           (case WriteCatalogRecord env (r\<lparr>cr_state := kDeleted, cr_deleted_at := now (cr_sid r) ''deleted_at'',
                cr_failure := None\<rparr>) st of
              (st', result) \<Rightarrow> ((st', f'), result)))))"

section \<open>Reconciliation at start\<close>

definition KnownGeneration :: "SessionCatalogRecord list \<Rightarrow> string \<Rightarrow> string \<Rightarrow> bool" where
  "KnownGeneration records sid generation \<longleftrightarrow>
     list_ex (\<lambda>r. cr_sid r = sid \<and> cr_generation_uuid r = generation \<and> cr_state r \<noteq> kDeleted) records"

text \<open>The number of reports: one per entry that is not a directory, per generation directory the
  catalog does not name, and one when the iteration throws.\<close>

definition UnknownSessionReports :: "SessionCatalogRecord list \<Rightarrow> (string \<times> string list option) list \<times> bool \<Rightarrow> nat" where
  "UnknownSessionReports records listing =
    sum_list (map (\<lambda>(sid, generations). case generations of
        None \<Rightarrow> 1
      | Some gs \<Rightarrow> length (filter (\<lambda>g. \<not> KnownGeneration records sid g) gs)) (fst listing))
    + (if snd listing then 1 else 0)"

definition ReportUnknownSessionEntries :: "('e, 'd, 'f) NodeEnv \<Rightarrow> SessionCatalogRecord list \<Rightarrow>
    ('e, 'd, 'f) World \<Rightarrow> ('e, 'd, 'f) World" where
  "ReportUnknownSessionEntries env records = (\<lambda>(st, f).
     (EmitDiagnostics (replicate (UnknownSessionReports records (ne_sessions_listing env f))
        (kWarning, ''unknown entry under the durable sessions directory left untouched'')) st, f))"

definition OpenReconciledStore :: "('e, 'd, 'f) NodeEnv \<Rightarrow> SessionCatalogRecord \<Rightarrow> bool \<Rightarrow>
    ('e, 'd, 'f) World \<Rightarrow> ('e, 'd, 'f) World \<times> 'e option" where
  "OpenReconciledStore env r create = (\<lambda>(st, f).
    let failed = LatchCatalogUnavailable
      (EmitDiagnostics [(kError, ''retained durable store could not be reopened'')] st) in
    if \<not> create \<and> \<not> ne_has_current env (cr_sid r) (cr_generation_uuid r) f then ((failed, f), None)
    else (case ne_create_directories env (cr_sid r) (cr_generation_uuid r) f of
      (f', error) \<Rightarrow>
        if ec_value error \<noteq> 0 then ((failed, f'), None)
        else (case ne_open_store env (cr_sid r) (cr_generation_uuid r) f' of
          (f'', Inl _) \<Rightarrow> ((failed, f''), None)
        | (f'', Inr store) \<Rightarrow> ((st, f''), Some store))))"

definition InstallReconciledSession :: "SessionCatalogRecord \<Rightarrow> 'e \<Rightarrow> ('e, 'd) NodeState \<Rightarrow> ('e, 'd) NodeState" where
  "InstallReconciledSession r store st =
    (let session = NewSessionRecord\<lparr>
        sr_generation_uuid := (case ParseFenceUuid (cr_generation_uuid r) of Some u \<Rightarrow> u | None \<Rightarrow> replicate 16 0),
        sr_options := \<lparr>so_durable_buffers = True, so_ephemeral_buffers = False\<rparr>,
        sr_metadata := \<lparr>sm_created_at = cr_created_at r, sm_generation_uuid = cr_generation_uuid r\<rparr>,
        sr_lifecycle := cr_state r, sr_catalogued := True, sr_reconciled := True,
        sr_durable_buffers := Some store\<rparr>
     in set_session (cr_sid r) (fst (SessionActivate session)) st)"

text \<open>One round of the loop; the second component is false when the code returns.\<close>

definition ReconcileRecord :: "('e, 'd, 'f) NodeEnv \<Rightarrow> Clock \<Rightarrow> SessionCatalogRecord \<Rightarrow>
    ('e, 'd, 'f) World \<Rightarrow> ('e, 'd, 'f) World \<times> bool" where
  "ReconcileRecord env now r = (\<lambda>(st, f).
    if ns_catalog_unavailable st then ((st, f), False)
    else if cr_state r = kActive then
      (case OpenReconciledStore env r True (st, f) of
         (w, None) \<Rightarrow> (w, False)
       | ((st', f'), Some store) \<Rightarrow>
           (let r = r\<lparr>cr_state := kOrphaned, cr_orphaned_at := now (cr_sid r) ''orphaned_at''\<rparr> in
            case WriteCatalogRecord env r st' of
              (st'', Inl _) \<Rightarrow> ((st'', f'), False)
            | (st'', Inr _) \<Rightarrow> ((InstallReconciledSession r store st'', f'), True)))
    else if cr_state r = kRetained \<or> cr_state r = kOrphaned then
      (case OpenReconciledStore env r False (st, f) of
         (w, None) \<Rightarrow> (w, False)
       | ((st', f'), Some store) \<Rightarrow> ((InstallReconciledSession r store st', f'), True))
    else if cr_state r = kDeleting then (fst (FinishCatalogDeletion env now r (st, f)), True)
    else ((st, f), True))"

fun ReconcileLoop :: "('e, 'd, 'f) NodeEnv \<Rightarrow> Clock \<Rightarrow> SessionCatalogRecord list \<Rightarrow>
    ('e, 'd, 'f) World \<Rightarrow> ('e, 'd, 'f) World" where
  "ReconcileLoop env now [] w = w"
| "ReconcileLoop env now (r # rs) w = (case ReconcileRecord env now r w of
     (w', True) \<Rightarrow> ReconcileLoop env now rs w'
   | (w', False) \<Rightarrow> w')"

definition ReconcileCatalog :: "('e, 'd, 'f) NodeEnv \<Rightarrow> Clock \<Rightarrow> ('e, 'd, 'f) World \<Rightarrow> ('e, 'd, 'f) World" where
  "ReconcileCatalog env now = (\<lambda>(st, f).
     let records = (case ns_catalog st of None \<Rightarrow> [] | Some c \<Rightarrow> CatalogRecords c) in
     ReconcileLoop env now records (ReportUnknownSessionEntries env records (st, f)))"


section \<open>Creating a session\<close>

definition CreateFactoryStore :: "('e, 'd, 'f) NodeEnv \<Rightarrow> string \<Rightarrow> 'e SessionRecord \<Rightarrow> 'e SessionRecord \<times> unit Result" where
  "CreateFactoryStore env sid r = (case ne_factory env of
     None \<Rightarrow> (r, Result_Err InvalidArgument ''durable buffer engine factory is required'' InvalidArgumentCode)
   | Some factory \<Rightarrow>
       (case factory sid of
          None \<Rightarrow> (r, Err Error ''durable buffer engine factory threw an exception'')
        | Some (Inl e) \<Rightarrow> (r, Inl e)
        | Some (Inr None) \<Rightarrow> (r, Err Error ''durable buffer engine factory returned null'')
        | Some (Inr (Some engine)) \<Rightarrow> (r\<lparr>sr_durable_buffers := Some engine\<rparr>, Result_Ok ())))"

definition ActiveCatalogRecord :: "string \<Rightarrow> SessionOptions \<Rightarrow> 'e SessionRecord \<Rightarrow> ('e, 'd) NodeState \<Rightarrow> SessionCatalogRecord" where
  "ActiveCatalogRecord key options r st =
    \<lparr>cr_sid = key, cr_generation_uuid = sm_generation_uuid (sr_metadata r), cr_state = kActive,
     cr_owner_instance_id = ns_instance_id st, cr_durable = True, cr_ephemeral = so_ephemeral_buffers options,
     cr_created_at = sm_created_at (sr_metadata r), cr_retained_at = '''', cr_orphaned_at = '''',
     cr_deleting_at = '''', cr_deleted_at = '''', cr_failure = None\<rparr>"

definition OpenGenerationStore :: "('e, 'd, 'f) NodeEnv \<Rightarrow> string \<Rightarrow> string \<Rightarrow> 'f \<Rightarrow> 'f \<times> 'e Result" where
  "OpenGenerationStore env sid generation f = (case ne_create_directories env sid generation f of
     (f', error) \<Rightarrow>
       if ec_value error \<noteq> 0 then (f', Result_Err Error ''durable store directory cannot be created'' error)
       else ne_open_store env sid generation f')"

definition CreateCatalogStore :: "('e, 'd, 'f) NodeEnv \<Rightarrow> Clock \<Rightarrow> string \<Rightarrow> SessionOptions \<Rightarrow> 'e SessionRecord \<Rightarrow>
    ('e, 'd, 'f) World \<Rightarrow> ('e, 'd, 'f) World \<times> 'e SessionRecord \<times> unit Result" where
  "CreateCatalogStore env now key options r = (\<lambda>(st, f).
    let catalogued = ActiveCatalogRecord key options r st in
    case WriteCatalogRecord env catalogued st of
      (st, Inl e) \<Rightarrow> ((st, f), r, Inl e)
    | (st, Inr _) \<Rightarrow>
        if ns_catalog_unavailable st then ((st, f), r, CatalogDown)
        else (case OpenGenerationStore env key (cr_generation_uuid catalogued) f of
          (f, Inr store) \<Rightarrow> ((st, f), r\<lparr>sr_durable_buffers := Some store, sr_catalogued := True\<rparr>, Result_Ok ())
        | (f, Inl error) \<Rightarrow>
            (let catalogued = catalogued\<lparr>cr_state := kDeleting, cr_deleting_at := now key ''deleting_at''\<rparr> in
             case WriteCatalogRecord env catalogued st of
               (st, Inl e) \<Rightarrow> ((st, f), r, Inl e)
             | (st, Inr _) \<Rightarrow> (fst (FinishCatalogDeletion env now catalogued (st, f)), r, Inl error))))"

definition close_registrations :: "'e SessionRecord \<Rightarrow> ('e, 'd) NodeState \<Rightarrow> ('e, 'd) NodeState" where
  "close_registrations r st = (case (ns_fence_dispatcher st, sr_fence_dispatch r) of
     (Some co, Some (durable, ephemeral)) \<Rightarrow>
       st\<lparr>ns_fence_dispatcher := Some (CloseRegistration ephemeral (CloseRegistration durable co))\<rparr>
   | _ \<Rightarrow> st)"

definition registrations_drained :: "'e SessionRecord \<Rightarrow> ('e, 'd) NodeState \<Rightarrow> bool" where
  "registrations_drained r st = (case (ns_fence_dispatcher st, sr_fence_dispatch r) of
     (Some co, Some (durable, ephemeral)) \<Rightarrow> RegistrationDrained durable co \<and> RegistrationDrained ephemeral co
   | _ \<Rightarrow> True)"

definition erase_session :: "string \<Rightarrow> ('e, 'd) NodeState \<Rightarrow> ('e, 'd) NodeState" where
  "erase_session sid st = st\<lparr>ns_sessions := (ns_sessions st)(sid := None)\<rparr>"

text \<open>The record published in the phase Creating, with the two dispatch registrations.\<close>

definition PublishedRecord :: "FenceUuid \<Rightarrow> SessionOptions \<Rightarrow> nat \<times> nat \<Rightarrow> 'e SessionRecord" where
  "PublishedRecord generation options regs = NewSessionRecord\<lparr>sr_options := options,
     sr_generation_uuid := generation, sr_fence_dispatch := Some regs\<rparr>"

definition RegisterSession :: "nat \<times> nat \<Rightarrow> ('e, 'd) NodeState \<Rightarrow> ('e, 'd) NodeState" where
  "RegisterSession regs st =
     st\<lparr>ns_fence_dispatcher := map_option (\<lambda>co. Register (snd regs) (Register (fst regs) co)) (ns_fence_dispatcher st)\<rparr>"

text \<open>The check under the session lock: a session of the name, or a catalog record of it that is
  not deleted.\<close>

definition SidTaken :: "string \<Rightarrow> ('e, 'd) NodeState \<Rightarrow> error_code option" where
  "SidTaken key st = (case ns_sessions st key of
     Some r \<Rightarrow> Some (if \<not> IsActive r then OperationInProgress else SessionAlreadyExists)
   | None \<Rightarrow>
       (case NodeFind key st of
          Some existing \<Rightarrow> if cr_state existing \<noteq> kDeleted then Some SessionAlreadyExists else None
        | None \<Rightarrow> None))"

definition SessionRollback :: "string \<Rightarrow> 'e SessionRecord \<Rightarrow> ('e, 'd) NodeState \<Rightarrow> ('e, 'd) NodeState" where
  "SessionRollback key r st =
    (let st = close_registrations r st in
     erase_session key (st\<lparr>ns_fence_receiver := EraseSession key (ns_fence_receiver st)\<rparr>))"

definition AnnounceSession :: "('e, 'd, 'f) NodeEnv \<Rightarrow> string \<Rightarrow> string \<Rightarrow> ('e, 'd) NodeState \<Rightarrow> ('e, 'd) NodeState" where
  "AnnounceSession env sid liveliness_key st = (case ns_sessions st sid of
     None \<Rightarrow> st
   | Some r \<Rightarrow>
       if \<not> IsActive r \<or> sr_lifecycle r \<noteq> kActive then st
       else if \<not> ne_declare_token env liveliness_key then
         EmitDiagnostics [(kWarning, ''session liveliness token declaration failed; caches of the session report stale'')] st
       else set_session sid (r\<lparr>sr_liveliness_token := Some liveliness_key\<rparr>) st)"

text \<open>From the published record to the active session; an error leaves the record to the rollback.\<close>

definition InitSession :: "('e, 'd, 'f) NodeEnv \<Rightarrow> Clock \<Rightarrow> string \<Rightarrow> SessionOptions \<Rightarrow> 'e SessionRecord \<Rightarrow>
    ('e, 'd, 'f) World \<Rightarrow> ('e, 'd, 'f) World \<times> 'e SessionRecord \<times> unit Result" where
  "InitSession env now key options r = (\<lambda>(st, f).
    case eng_snapshot (ne_ops env) (ns_engine st) of
      None \<Rightarrow> ((st, f), r, Err Error ''base snapshot creation threw an exception'')
    | Some None \<Rightarrow> ((st, f), r, Err Error ''base snapshot creation returned null'')
    | Some (Some snapshot) \<Rightarrow>
        (let r = r\<lparr>sr_snapshot := Some snapshot, sr_overlay := Some \<lparr>ime_data = []\<rparr>,
               sr_metadata := \<lparr>sm_created_at = now key ''created_at'', sm_generation_uuid = FormatFenceUuid (sr_generation_uuid r)\<rparr>\<rparr> in
         if \<not> so_durable_buffers options then ((st, f), r, Result_Ok ())
         else if ns_catalog_mode st then CreateCatalogStore env now key options r (st, f)
         else (case CreateFactoryStore env key r of (r, result) \<Rightarrow> ((st, f), r, result))))"

definition CreateSessionAdmitted :: "('e, 'd, 'f) NodeEnv \<Rightarrow> Clock \<Rightarrow> FenceUuid \<Rightarrow> nat \<times> nat \<Rightarrow> string \<Rightarrow> SessionOptions \<Rightarrow>
    ('e, 'd, 'f) World \<Rightarrow> ('e, 'd, 'f) World \<times> unit Result" where
  "CreateSessionAdmitted env now generation regs key options = (\<lambda>(st, f).
    let record = PublishedRecord generation options regs; st = RegisterSession regs st in
    case SidTaken key st of
      Some code \<Rightarrow> ((st, f), Result_ErrCode code)
    | None \<Rightarrow>
        (case InitSession env now key options record (set_session key record st, f) of
           ((st, f), record, Inl e) \<Rightarrow> ((SessionRollback key record st, f), Inl e)
         | ((st, f), record, Inr _) \<Rightarrow>
             (let st = set_session key (fst (SessionActivate record)) st in
              case (if ne_supports_liveliness env
                    then BuildSessionLivelinessKey (ns_prefix st) key (sm_generation_uuid (sr_metadata record)) else None) of
                None \<Rightarrow> ((st, f), Result_Ok ())
              | Some liveliness_key \<Rightarrow> ((AnnounceSession env key liveliness_key st, f), Result_Ok ()))))"

definition leased :: "('e, 'd, 'f) World \<Rightarrow> 'r \<Rightarrow> (('e, 'd, 'f) World \<Rightarrow> ('e, 'd, 'f) World \<times> 'r) \<Rightarrow>
    ('e, 'd, 'f) World \<times> 'r" where
  "leased w refused body = (case Enter (fst w) of
     None \<Rightarrow> (w, refused)
   | Some st \<Rightarrow> (case body (st, snd w) of ((st', f'), r) \<Rightarrow> ((Leave st', f'), r)))"

definition CreateSession :: "('e, 'd, 'f) NodeEnv \<Rightarrow> Clock \<Rightarrow> FenceUuid \<Rightarrow> nat \<times> nat \<Rightarrow> string \<Rightarrow> SessionOptions \<Rightarrow>
    ('e, 'd, 'f) World \<Rightarrow> ('e, 'd, 'f) World \<times> unit Result" where
  "CreateSession env now generation regs sid options w =
    (if \<not> IsValidSessionId sid then (w, Result_ErrCode InvalidArgumentCode)
     else leased w (Result_ErrCode InvalidArgumentCode) (\<lambda>(st, f).
       if ns_catalog_mode st \<and> ns_catalog_unavailable st then ((st, f), CatalogDown)
       else CreateSessionAdmitted env now generation regs sid options (st, f)))"

section \<open>Retaining a session\<close>

text \<open>The transition under the catalog lock, on the record that admitted the call.  The result is
  \<open>None\<close> when the call does not return: the engine's \<open>Sync\<close> throws, or there is no store to
  synchronise.\<close>

definition RetainAdmitted :: "('e, 'd, 'f) NodeEnv \<Rightarrow> Clock \<Rightarrow> string \<Rightarrow> 'e SessionRecord \<Rightarrow> ('e, 'd) NodeState \<Rightarrow>
    ('e, 'd) NodeState \<times> SessionLifecycleState Result option" where
  "RetainAdmitted env now sid r st =
    (if sr_lifecycle r = kRetained then (st, Some (Result_Ok kRetained))
     else if sr_lifecycle r \<noteq> kActive \<or> sr_reconciled r
     then (st, Some (Err InvalidArgument ''session cannot be retained in its current state''))
     else (case NodeFind sid st of
       None \<Rightarrow> (st, Some (Err Error ''catalog record is missing''))
     | Some catalogued \<Rightarrow>
         if cr_state catalogued \<noteq> kActive \<or> \<not> IsActive r then (st, Some (Err InvalidArgument ''session is closing''))
         else if ns_catalog_unavailable st then (st, Some CatalogDown)
         else (case sr_durable_buffers r of
           None \<Rightarrow> (st, None)
         | Some e \<Rightarrow>
             (case eng_sync (ne_ops env) e of
                (e', None) \<Rightarrow> (set_session sid (r\<lparr>sr_durable_buffers := Some e'\<rparr>) st, None)
              | (e', Some (Inl error)) \<Rightarrow> (set_session sid (r\<lparr>sr_durable_buffers := Some e'\<rparr>) st, Some (Inl error))
              | (e', Some (Inr _)) \<Rightarrow>
                  (case TryPutCatalogRecord env (catalogued\<lparr>cr_state := kRetained, cr_retained_at := now sid ''retained_at''\<rparr>) st of
                     (st', True) \<Rightarrow>
                       (set_session sid (r\<lparr>sr_durable_buffers := Some e', sr_lifecycle := kRetained, sr_snapshot := None,
                          sr_overlay := None, sr_liveliness_token := None\<rparr>) st', Some (Result_Ok kRetained))
                   | (st', False) \<Rightarrow>
                       (LatchCatalogUnavailable (set_session sid (r\<lparr>sr_durable_buffers := Some e'\<rparr>) st'), Some CatalogDown))))))"

definition RetainSession :: "('e, 'd, 'f) NodeEnv \<Rightarrow> Clock \<Rightarrow> string \<Rightarrow> ('e, 'd, 'f) World \<Rightarrow>
    ('e, 'd, 'f) World \<times> SessionLifecycleState Result option" where
  "RetainSession env now sid w =
    (if \<not> IsValidSessionId sid then (w, Some (Result_ErrCode InvalidArgumentCode))
     else leased w (Some (Result_ErrCode InvalidArgumentCode)) (\<lambda>(st, f).
       if \<not> ns_catalog_mode st
       then ((st, f), Some (Err InvalidArgument ''RetainSession requires a durable_root catalog''))
       else if ns_catalog_unavailable st then ((st, f), Some CatalogDown)
       else (case ns_sessions st sid of
         None \<Rightarrow>
           (case NodeFind sid st of
              None \<Rightarrow> ((st, f), Some (Err NotFound ''session not found''))
            | Some catalogued \<Rightarrow>
                if cr_state catalogued = kDeleted then ((st, f), Some (Err NotFound ''session not found''))
                else ((st, f), Some (Err InvalidArgument ''session cannot be retained in its current state'')))
       | Some r \<Rightarrow>
           if TryAcquire r = None then ((st, f), Some (Err InvalidArgument ''session is closing''))
           else if \<not> sr_catalogued r
           then ((st, f), Some (Err InvalidArgument ''only a durable-route session can be retained''))
           else (case RetainAdmitted env now sid r st of (st', result) \<Rightarrow> ((st', f), result)))))"

section \<open>Closing a session\<close>

text \<open>The selection and the \<open>deleting\<close> record, under the catalog and the session lock.  The result
  carries the record whose deletion has to be finished.\<close>

definition BeginCatalogDeletion :: "('e, 'd, 'f) NodeEnv \<Rightarrow> Clock \<Rightarrow> string \<Rightarrow> 'e SessionRecord option \<Rightarrow> string \<Rightarrow>
    ('e, 'd) NodeState \<Rightarrow> ('e, 'd) NodeState \<times> SessionCatalogRecord option Result" where
  "BeginCatalogDeletion env now key record generation st =
    (let changed = Result_Err Error ''session changed during close'' OperationInProgress in
     if ns_catalog st = None \<or> (case record of Some r \<Rightarrow> \<not> sr_catalogued r | None \<Rightarrow> False) then (st, Result_Ok None)
     else if (case record of Some r \<Rightarrow> \<not> IsActive r | None \<Rightarrow> False) then (st, changed)
     else (case NodeFind key st of
       None \<Rightarrow> (st, Result_Ok None)
     | Some catalogued \<Rightarrow>
         if cr_state catalogued = kDeleted then (st, Result_Ok None)
         else if (record \<noteq> None \<and> cr_generation_uuid catalogued \<noteq> generation) \<or>
             (record = None \<and> cr_state catalogued = kActive) then (st, changed)
         else
           (let catalogued' = (if cr_state catalogued = kDeleting then catalogued
                  else catalogued\<lparr>cr_state := kDeleting, cr_deleting_at := now key ''deleting_at''\<rparr>) in
            case (if cr_state catalogued = kDeleting then (st, True) else TryPutCatalogRecord env catalogued' st) of
              (st', False) \<Rightarrow> (LatchCatalogUnavailable st', CatalogDown)
            | (st', True) \<Rightarrow>
                ((case record of
                    None \<Rightarrow> st'
                  | Some r \<Rightarrow> set_session key (fst (BeginClose r)) st'), Result_Ok (Some catalogued')))))"

text \<open>After the waits: the record releases its state, its lanes and its place in the table.\<close>

definition ReleaseSession :: "string \<Rightarrow> ('e, 'd) NodeState \<Rightarrow> ('e, 'd) NodeState" where
  "ReleaseSession sid st =
     erase_session sid (st\<lparr>ns_fence_receiver := EraseSession sid (ns_fence_receiver st)\<rparr>)"

text \<open>\<open>None\<close>: the call is still waiting, because a lease of the session or of its dispatch lanes is
  outstanding; the record stays in the table, in the phase Closing.\<close>

definition CloseDrain :: "('e, 'd, 'f) NodeEnv \<Rightarrow> Clock \<Rightarrow> string \<Rightarrow> 'e SessionRecord \<Rightarrow> SessionCatalogRecord option \<Rightarrow>
    ('e, 'd, 'f) World \<Rightarrow> ('e, 'd, 'f) World \<times> unit Result option" where
  "CloseDrain env now sid r catalogued = (\<lambda>(st, f).
    let st = close_registrations r (set_session sid ((fst (BeginClose r))\<lparr>sr_liveliness_token := None\<rparr>) st) in
    if \<not> registrations_drained r st \<or> \<not> AdmissionDrained r then ((st, f), None)
    else (case catalogued of
      None \<Rightarrow> ((ReleaseSession sid st, f), Some (Result_Ok ()))
    | Some cr \<Rightarrow> map_prod (\<lambda>w. w) Some (FinishCatalogDeletion env now cr (ReleaseSession sid st, f))))"

definition CloseSession :: "('e, 'd, 'f) NodeEnv \<Rightarrow> Clock \<Rightarrow> string \<Rightarrow> ('e, 'd, 'f) World \<Rightarrow>
    ('e, 'd, 'f) World \<times> unit Result option" where
  "CloseSession env now sid w = leased w (Some (Result_ErrCode InvalidArgumentCode)) (\<lambda>(st, f).
    if ns_catalog_mode st \<and> ns_catalog_unavailable st then ((st, f), Some CatalogDown)
    else (case ns_sessions st sid of
      None \<Rightarrow>
        (case BeginCatalogDeletion env now sid None '''' st of
           (st', Inl e) \<Rightarrow> ((st', f), Some (Inl e))
         | (st', Inr None) \<Rightarrow> ((st', f), Some (Result_ErrCode NoSuchSession))
         | (st', Inr (Some cr)) \<Rightarrow> map_prod (\<lambda>w. w) Some (FinishCatalogDeletion env now cr (st', f)))
    | Some r \<Rightarrow>
        if TryAcquire r = None then ((st, f), Some (Result_ErrCode OperationInProgress))
        else (case BeginCatalogDeletion env now sid (Some r) (sm_generation_uuid (sr_metadata r)) st of
          (st', Inl e) \<Rightarrow> ((st', f), Some (Inl e))
        | (st', Inr catalogued) \<Rightarrow> CloseDrain env now sid r catalogued (st', f))))"

section \<open>The node's own life cycle\<close>

text \<open>The table is a map here; an iteration over it visits \<open>sids\<close>, its names in their order.\<close>

definition ActiveSessions :: "string list \<Rightarrow> ('e, 'd) NodeState option \<Rightarrow> string list" where
  "ActiveSessions sids node = (case node of
     None \<Rightarrow> []
   | Some st \<Rightarrow>
       if Enter st = None then []
       else filter (\<lambda>sid. case ns_sessions st sid of
         None \<Rightarrow> False | Some r \<Rightarrow> IsActive r \<and> sr_lifecycle r = kActive) sids)"

datatype ReadinessReason = kReady | kStopped | kCatalogUnavailable

definition Readiness :: "('e, 'd) NodeState option \<Rightarrow> bool \<times> ReadinessReason" where
  "Readiness node = (case node of
     None \<Rightarrow> (False, kStopped)
   | Some st \<Rightarrow> if ns_catalog_mode st \<and> ns_catalog_unavailable st then (False, kCatalogUnavailable) else (True, kReady))"

definition kReceiverCapacity :: nat where "kReceiverCapacity = 4096"

definition NewNodeState :: "'e \<Rightarrow> string \<Rightarrow> Coordinator option \<Rightarrow> ('e, 'd) NodeState" where
  "NewNodeState engine pfx dispatcher = \<lparr>ns_engine = engine, ns_prefix = pfx, ns_ack_registry = NewRegistry kDefaultCapacity,
     ns_catalog_mode = False, ns_instance_id = '''', ns_catalog = None, ns_catalog_unavailable = False,
     ns_fence_dispatcher = dispatcher, ns_fence_receiver = NewReceiver kReceiverCapacity, ns_in_flight = 0,
     ns_accepting = False, ns_sessions = Map.empty, ns_log = []\<rparr>"

text \<open>Quiescing: \<open>DeactivateAndWait\<close>, then one session after another is taken from the table and its
  dispatch registrations are closed; each wait is over when the code goes on.\<close>

definition QuiesceSession :: "string \<Rightarrow> ('e, 'd) NodeState \<Rightarrow> ('e, 'd) NodeState" where
  "QuiesceSession sid st = (case ns_sessions st sid of
     None \<Rightarrow> st
   | Some r \<Rightarrow> close_registrations r (erase_session sid st))"

definition Quiesce :: "string list \<Rightarrow> ('e, 'd) NodeState \<Rightarrow> ('e, 'd) NodeState" where
  "Quiesce sids st =
    (let st = fold QuiesceSession sids (Deactivate st) in
     st\<lparr>ns_catalog := None, ns_ack_registry := Clear (ns_ack_registry st),
        ns_fence_receiver := ClearReceiver (ns_fence_receiver st)\<rparr>)"

text \<open>The configuration: the base engine (none for a null pointer), the prefix and the durable root.\<close>

record 'e StartConfig =
  sc_engine :: "'e option"
  sc_prefix :: string
  sc_durable_root :: "string option"

definition OpenCatalog :: "('e, 'd, 'f) NodeEnv \<Rightarrow> Clock \<Rightarrow> string \<Rightarrow> string option \<Rightarrow> ('e, 'd, 'f) World \<Rightarrow>
    ('e, 'd, 'f) World \<times> unit Result" where
  "OpenCatalog env now instance_id durable_root = (\<lambda>(st, f). case durable_root of
     None \<Rightarrow> ((st, f), Result_Ok ())
   | Some root \<Rightarrow>
       (let st = st\<lparr>ns_catalog_mode := True, ns_instance_id := instance_id\<rparr> in
        case CatalogOpen (ne_catalog env) instance_id (now '''' ''started_at'') of
          Inr c \<Rightarrow> (ReconcileCatalog env now (st\<lparr>ns_catalog := Some c\<rparr>, f), Result_Ok ())
        | Inl e \<Rightarrow>
            if ei_status e = InvalidArgument then ((st, f), Inl e)
            else ((LatchCatalogUnavailable st, f), Result_Ok ())))"

definition Start :: "('e, 'd, 'f) NodeEnv \<Rightarrow> Clock \<Rightarrow> FenceUuid \<Rightarrow> Coordinator option \<Rightarrow> 'e StartConfig \<Rightarrow>
    ('e, 'd) NodeState option \<times> 'f \<Rightarrow> (('e, 'd) NodeState option \<times> 'f) \<times> unit Result" where
  "Start env now instance_uuid dispatcher config = (\<lambda>(node, f).
    if node \<noteq> None then ((node, f), Result_ErrCode OperationInProgress)
    else (case sc_engine config of
      None \<Rightarrow> ((None, f), Result_ErrCode InvalidArgumentCode)
    | Some engine \<Rightarrow>
        if \<not> IsValidPrefix (sc_prefix config) then ((None, f), Result_ErrCode InvalidArgumentCode)
        else if sc_durable_root config = Some '''' \<or> (sc_durable_root config \<noteq> None \<and> ne_factory env \<noteq> None)
        then ((None, f), Result_Err InvalidArgument ''durable_root requires a non-empty path and no engine factory''
                InvalidArgumentCode)
        else (case OpenCatalog env now (FormatFenceUuid instance_uuid) (sc_durable_root config)
               (NewNodeState engine (sc_prefix config) dispatcher, f) of
          ((st, f'), Inl e) \<Rightarrow> ((None, f'), Inl e)
        | ((st, f'), Inr _) \<Rightarrow>
            (case ne_declare_subscriber env of
               Inl e \<Rightarrow> ((None, f'), Inl e)
             | Inr _ \<Rightarrow>
                 (case ne_declare_queryable env of
                    Inl e \<Rightarrow> ((None, f'), Inl e)
                  | Inr _ \<Rightarrow> ((Some (NodeActivate st), f'), Result_Ok ()))))))"

text \<open>\<open>Stop\<close>: the node without a state, and the retired state after quiescence.\<close>

definition Stop :: "string list \<Rightarrow> ('e, 'd) NodeState option \<Rightarrow> ('e, 'd) NodeState option \<times> ('e, 'd) NodeState option" where
  "Stop sids node = (None, map_option (Quiesce sids) node)"

end
