(* ===== verification/NodeLifecycleProps.thy ===== *)
theory NodeLifecycleProps
  imports NodeLifecycle
begin

text \<open>
  The session life cycle is safe: the abstract life cycle of a catalog record is a small transition
  relation, every catalog write of the node is one of its steps, and the live session table and
  the durable catalog agree after every operation, whatever writes, stores or removals fail.
\<close>

section \<open>The abstract life cycle\<close>

text \<open>The legal successors of a catalog record; a generation is never changed.\<close>

inductive lifecycle_next :: "SessionCatalogRecord \<Rightarrow> SessionCatalogRecord \<Rightarrow> bool" where
  retain: "cr_state r = kActive \<Longrightarrow> IsTimestamp t \<Longrightarrow>
    lifecycle_next r (r\<lparr>cr_state := kRetained, cr_retained_at := t\<rparr>)"
| orphan: "cr_state r = kActive \<Longrightarrow> IsTimestamp t \<Longrightarrow>
    lifecycle_next r (r\<lparr>cr_state := kOrphaned, cr_orphaned_at := t\<rparr>)"
| delete: "cr_state r \<notin> {kDeleting, kDeleted} \<Longrightarrow> IsTimestamp t \<Longrightarrow>
    lifecycle_next r (r\<lparr>cr_state := kDeleting, cr_deleting_at := t\<rparr>)"
| fail: "cr_state r = kDeleting \<Longrightarrow> failure_valid (Some x) \<Longrightarrow>
    lifecycle_next r (r\<lparr>cr_state := kDeleteFailed, cr_failure := Some x\<rparr>)"
| deleted: "cr_state r = kDeleting \<Longrightarrow> IsTimestamp t \<Longrightarrow>
    lifecycle_next r (r\<lparr>cr_state := kDeleted, cr_deleted_at := t, cr_failure := None\<rparr>)"

text \<open>A step of the whole catalog: a new generation under a name that is free or deleted, or a life
  cycle step of one record.\<close>

inductive catalog_step :: "(string \<rightharpoonup> SessionCatalogRecord) \<Rightarrow> (string \<rightharpoonup> SessionCatalogRecord) \<Rightarrow> bool" where
  create: "(\<forall>old. m (cr_sid r) = Some old \<longrightarrow> cr_state old = kDeleted) \<Longrightarrow> cr_state r = kActive \<Longrightarrow>
    record_valid r \<Longrightarrow> catalog_step m (m(cr_sid r \<mapsto> r))"
| advance: "m (cr_sid r) = Some r \<Longrightarrow> lifecycle_next r r' \<Longrightarrow> catalog_step m (m(cr_sid r \<mapsto> r'))"

lemma timestamp_nonempty: "IsTimestamp t \<Longrightarrow> t \<noteq> []"
  using timestamp_plain(2) by blast

lemma lifecycle_next_sid: "lifecycle_next r r' \<Longrightarrow> cr_sid r' = cr_sid r \<and> cr_generation_uuid r' = cr_generation_uuid r"
  by (induction rule: lifecycle_next.induct) simp_all

lemma lifecycle_next_valid: "lifecycle_next r r' \<Longrightarrow> record_valid r \<Longrightarrow> record_valid r'"
proof (induction rule: lifecycle_next.induct)
  case (delete r t)
  then show ?case
    by (cases "cr_state r") (auto simp: record_valid_def HasLifecycleMetadata_def timestamp_or_empty_def dest: timestamp_nonempty)
qed (auto simp: record_valid_def HasLifecycleMetadata_def timestamp_or_empty_def failure_valid_def dest: timestamp_nonempty)

section \<open>What the node relies on\<close>

definition clock_ok :: "Clock \<Rightarrow> bool" where
  "clock_ok now \<longleftrightarrow> (\<forall>sid field. IsTimestamp (now sid field))"

text \<open>The catalog's database keeps its contract and removal errors are values of the type int.\<close>

definition env_laws :: "('e, 'd, 'f) NodeEnv \<Rightarrow> bool" where
  "env_laws env \<longleftrightarrow> db_laws (ne_catalog env) \<and>
     (\<forall>sid gen f. - (2 ^ 31) \<le> ec_value (snd (ne_remove_all env sid gen f)) \<and>
        ec_value (snd (ne_remove_all env sid gen f)) \<le> 2 ^ 31 - 1)"

definition catalog_ok :: "('e, 'd, 'f) NodeEnv \<Rightarrow> ('e, 'd) NodeState \<Rightarrow> bool" where
  "catalog_ok env st = (case ns_catalog st of None \<Rightarrow> True | Some c \<Rightarrow> catalog_inv (ne_catalog env) c)"

definition view :: "('e, 'd) NodeState \<Rightarrow> string \<rightharpoonup> SessionCatalogRecord" where
  "view st = (\<lambda>sid. NodeFind sid st)"

lemma catalog_inv_records:
  assumes "catalog_inv env c" "CatalogFind sid c = Some r"
  shows "record_valid r \<and> cr_sid r = sid"
proof -
  have load: "LoadEntries (env_scan env (ci_db c)) = Inr (ci_records c)" and wf: "map_wf (fst (env_scan env (ci_db c)))"
    using assms(1) by (auto simp: catalog_inv_def)
  have "LoadEntries (fst (env_scan env (ci_db c)), True) = Inr (ci_records c)"
    using load LoadEntries_status[OF load] by metis
  then have "map_of (ci_records c) sid =
      Option.bind (map_of (fst (env_scan env (ci_db c))) (kSessionKeyPrefix @ sid)) (DecodeSessionRecord sid)"
    unfolding LoadEntries_iff[OF wf] by blast
  then obtain s where "DecodeSessionRecord sid s = Some r"
    using assms(2) by (auto simp: CatalogFind_def bind_eq_Some_conv)
  then show ?thesis by (simp add: DecodeSessionRecord_iff)
qed

lemma view_records: "catalog_ok env st \<Longrightarrow> view st sid = Some r \<Longrightarrow> record_valid r \<and> cr_sid r = sid"
  by (auto simp: view_def NodeFind_def catalog_ok_def bind_eq_Some_conv split: option.splits dest: catalog_inv_records)

section \<open>Catalog writes\<close>

lemma TryPut_effect:
  assumes "TryPutCatalogRecord env r st = (st', ok)"
  shows "view st' = (if ok then (view st)(cr_sid r \<mapsto> r) else view st)"
    and "\<exists>c. st' = st\<lparr>ns_catalog := c\<rparr>" "(ns_catalog st' = None) = (ns_catalog st = None)"
    and "ok \<Longrightarrow> \<not> ns_catalog_unavailable st"
    and "db_laws (ne_catalog env) \<Longrightarrow> catalog_ok env st \<Longrightarrow> record_valid r \<Longrightarrow> catalog_ok env st'"
proof -
  consider (refused) "st' = st" "\<not> ok"
    | (put) c c' result where "ns_catalog st = Some c" "\<not> ns_catalog_unavailable st"
        "CatalogPut (ne_catalog env) r c = (c', result)" "st' = st\<lparr>ns_catalog := Some c'\<rparr>" "ok = IsOk result"
    using assms by (auto simp: TryPutCatalogRecord_def split: option.splits if_splits prod.splits)
  note cases = this
  show "view st' = (if ok then (view st)(cr_sid r \<mapsto> r) else view st)"
    using cases
  proof cases
    case put
    then show ?thesis
      by (auto simp: view_def NodeFind_def CatalogFind_def CatalogPut_def IsOk_def Result_Ok_def Result_Err_def fun_eq_iff
          split: prod.splits bool.splits)
  qed simp
  show "\<exists>c. st' = st\<lparr>ns_catalog := c\<rparr>"
  proof (cases rule: cases)
    case refused
    then have "st' = st\<lparr>ns_catalog := ns_catalog st\<rparr>" by simp
    then show ?thesis by blast
  qed blast
  show "(ns_catalog st' = None) = (ns_catalog st = None)" "ok \<Longrightarrow> \<not> ns_catalog_unavailable st"
    by (cases rule: cases; simp)+
  show "catalog_ok env st'" if "db_laws (ne_catalog env)" "catalog_ok env st" "record_valid r"
    using cases
  proof cases
    case put
    with CatalogPut_inv[OF that(1) _ that(3), of c] that(2) show ?thesis by (simp add: catalog_ok_def)
  qed (use that in simp)
qed

lemma EmitDiagnostics_sel [simp]:
  "view (EmitDiagnostics ds st) = view st" "ns_sessions (EmitDiagnostics ds st) = ns_sessions st"
  "ns_catalog (EmitDiagnostics ds st) = ns_catalog st" "ns_catalog_unavailable (EmitDiagnostics ds st) = ns_catalog_unavailable st"
  "ns_catalog_mode (EmitDiagnostics ds st) = ns_catalog_mode st" "ns_instance_id (EmitDiagnostics ds st) = ns_instance_id st"
  by (simp_all add: EmitDiagnostics_def view_def NodeFind_def)

lemma Latch_sel [simp]:
  "view (LatchCatalogUnavailable st) = view st" "ns_sessions (LatchCatalogUnavailable st) = ns_sessions st"
  "ns_catalog (LatchCatalogUnavailable st) = ns_catalog st" "ns_catalog_unavailable (LatchCatalogUnavailable st)"
  "ns_catalog_mode (LatchCatalogUnavailable st) = ns_catalog_mode st" "ns_instance_id (LatchCatalogUnavailable st) = ns_instance_id st"
  by (simp_all add: LatchCatalogUnavailable_def view_def NodeFind_def EmitDiagnostics_def)

lemma set_session_sel [simp]:
  "view (set_session sid r st) = view st" "ns_sessions (set_session sid r st) = (ns_sessions st)(sid \<mapsto> r)"
  "ns_catalog (set_session sid r st) = ns_catalog st" "ns_catalog_unavailable (set_session sid r st) = ns_catalog_unavailable st"
  "ns_catalog_mode (set_session sid r st) = ns_catalog_mode st" "ns_instance_id (set_session sid r st) = ns_instance_id st"
  by (simp_all add: set_session_def view_def NodeFind_def)

lemma catalog_ok_cong: "ns_catalog st' = ns_catalog st \<Longrightarrow> catalog_ok env st' = catalog_ok env st"
  by (simp add: catalog_ok_def)

section \<open>Effects on the catalog\<close>

text \<open>What a catalog transition of one session may do: legal steps of its own record only, with the
  catalog's durable content in agreement, the table untouched and the latch never reset.\<close>

definition cat_effect :: "('e, 'd, 'f) NodeEnv \<Rightarrow> string \<Rightarrow> ('e, 'd) NodeState \<Rightarrow> ('e, 'd) NodeState \<Rightarrow> bool" where
  "cat_effect env key st st' \<longleftrightarrow> catalog_ok env st' \<and> catalog_step\<^sup>*\<^sup>* (view st) (view st') \<and>
     (\<forall>s. s \<noteq> key \<longrightarrow> view st' s = view st s) \<and> ns_sessions st' = ns_sessions st \<and>
     (ns_catalog st' = None) = (ns_catalog st = None) \<and> ns_catalog_mode st' = ns_catalog_mode st \<and>
     ns_instance_id st' = ns_instance_id st \<and> (ns_catalog_unavailable st \<longrightarrow> ns_catalog_unavailable st')"

lemma cat_effect_refl: "catalog_ok env st \<Longrightarrow> cat_effect env key st st"
  by (simp add: cat_effect_def)

lemma cat_effect_trans: "cat_effect env key st st' \<Longrightarrow> cat_effect env key st' st'' \<Longrightarrow> cat_effect env key st st''"
  by (auto simp: cat_effect_def)

lemma cat_effect_latch: "cat_effect env key st st' \<Longrightarrow> cat_effect env key st (LatchCatalogUnavailable st')"
  by (simp add: cat_effect_def catalog_ok_cong[of "LatchCatalogUnavailable st'" st'])

lemma cat_effect_emit: "cat_effect env key st st' \<Longrightarrow> cat_effect env key st (EmitDiagnostics ds st')"
  by (simp add: cat_effect_def catalog_ok_cong[of "EmitDiagnostics ds st'" st'])

lemma TryPut_cat_effect:
  assumes "TryPutCatalogRecord env r st = (st', ok)" "db_laws (ne_catalog env)" "catalog_ok env st"
    "record_valid r" "catalog_step (view st) ((view st)(cr_sid r \<mapsto> r))"
  shows "cat_effect env (cr_sid r) st st' \<and> ns_catalog_unavailable st' = ns_catalog_unavailable st \<and>
    view st' = (if ok then (view st)(cr_sid r \<mapsto> r) else view st)"
proof -
  note e = TryPut_effect[OF assms(1)]
  from e(2) obtain c where "st' = st\<lparr>ns_catalog := c\<rparr>" by blast
  with e(1,3) e(5)[OF assms(2-4)] assms(5) show ?thesis by (auto simp: cat_effect_def)
qed

lemma Write_cat_effect:
  assumes "WriteCatalogRecord env r st = (st', res)" "db_laws (ne_catalog env)" "catalog_ok env st"
    "record_valid r" "catalog_step (view st) ((view st)(cr_sid r \<mapsto> r))"
  shows "cat_effect env (cr_sid r) st st' \<and>
    (if IsOk res then view st' = (view st)(cr_sid r \<mapsto> r) \<and> ns_catalog_unavailable st' = ns_catalog_unavailable st
     else view st' = view st \<and> ns_catalog_unavailable st')"
proof -
  obtain st1 ok where p: "TryPutCatalogRecord env r st = (st1, ok)" by fastforce
  from TryPut_cat_effect[OF p assms(2-5)] assms(1) p show ?thesis
    by (auto simp: WriteCatalogRecord_def CatalogDown_def IsOk_def Result_Ok_def Result_Err_def
        split: bool.splits intro: cat_effect_latch)
qed

lemma lifecycle_step_view:
  "catalog_ok env st \<Longrightarrow> view st sid = Some r \<Longrightarrow> lifecycle_next r r' \<Longrightarrow>
     record_valid r' \<and> cr_sid r' = sid \<and> catalog_step (view st) ((view st)(cr_sid r' \<mapsto> r'))"
  using view_records[of env st sid r] lifecycle_next_valid[of r r'] lifecycle_next_sid[of r r'] catalog_step.advance[of "view st" r r']
  by auto

definition live_state :: "SessionLifecycleState \<Rightarrow> bool" where
  "live_state s \<longleftrightarrow> s \<in> {kActive, kRetained, kOrphaned}"

text \<open>Finishing a pending deletion: the record ends deleted or failed, or the latch is set and the
  deletion stays pending for the next start.\<close>

lemma removal_failure_valid:
  assumes "env_laws env" "RemoveGeneration env sid gen f = (f', error)"
  shows "failure_valid (Some \<lparr>cf_operation = ''remove_directory'', cf_category = ''filesystem'', cf_code = ec_value error\<rparr>)"
proof -
  have words: "IsDiagnosticWord ''remove_directory''" "IsDiagnosticWord ''filesystem''" by code_simp+
  have "- (2 ^ 31) \<le> ec_value (snd (ne_remove_all env sid gen f)) \<and> ec_value (snd (ne_remove_all env sid gen f)) \<le> 2 ^ 31 - 1"
    using assms(1) unfolding env_laws_def by blast
  moreover have "ec_value error = ec_value (snd (ne_remove_all env sid gen f)) \<or> ec_value error = 0"
    using assms(2) by (auto simp: RemoveGeneration_def no_error_code_def split: prod.splits if_splits)
  ultimately show ?thesis using words by (auto simp: failure_valid_def)
qed

lemma Finish_effect:
  assumes "FinishCatalogDeletion env now r (st, f) = ((st', f'), res)" "env_laws env" "clock_ok now" "catalog_ok env st"
    "view st (cr_sid r) = Some r" "cr_state r = kDeleting"
  shows "cat_effect env (cr_sid r) st st' \<and> (\<exists>cr. view st' (cr_sid r) = Some cr \<and>
    cr_generation_uuid cr = cr_generation_uuid r \<and>
    (if IsOk res then cr_state cr = kDeleted \<and> ns_catalog_unavailable st' = ns_catalog_unavailable st \<and>
        (\<exists>error. RemoveGeneration env (cr_sid r) (cr_generation_uuid r) f = (f', error) \<and> ec_value error = 0)
     else cr_state cr = kDeleteFailed \<or> cr = r \<and> ns_catalog_unavailable st'))"
proof (cases "ns_catalog_unavailable st")
  case True
  with assms(1,4,5) show ?thesis
    by (auto simp: FinishCatalogDeletion_def CatalogDown_def cat_effect_refl)
next
  case False
  obtain f1 error where rm: "RemoveGeneration env (cr_sid r) (cr_generation_uuid r) f = (f1, error)" by fastforce
  define st0 where "st0 = (if ec_value error \<noteq> 0
    then EmitDiagnostics [(kError, ''durable store removal failed; delete_failed recorded'')] st else st)"
  have st0: "view st0 = view st" "catalog_ok env st0" "cat_effect env (cr_sid r) st st0"
    "ns_catalog_unavailable st0 = ns_catalog_unavailable st"
    using assms(4) cat_effect_emit[OF cat_effect_refl[OF assms(4)]] cat_effect_refl[OF assms(4)]
    by (simp_all add: st0_def catalog_ok_def)
  have pending: "DeletionPending r st0"
    using assms(5,6) st0(1) by (auto simp: DeletionPending_def view_def fun_eq_iff)
  define r' where "r' = (if ec_value error \<noteq> 0 then r\<lparr>cr_state := kDeleteFailed, cr_failure := Some
      \<lparr>cf_operation = ''remove_directory'', cf_category = ''filesystem'', cf_code = ec_value error\<rparr>\<rparr>
    else r\<lparr>cr_state := kDeleted, cr_deleted_at := now (cr_sid r) ''deleted_at'', cr_failure := None\<rparr>)"
  have nxt: "lifecycle_next r r'"
    using assms(3,6) removal_failure_valid[OF assms(2) rm]
    by (auto simp: r'_def clock_ok_def intro: lifecycle_next.fail lifecycle_next.deleted)
  note step = lifecycle_step_view[OF st0(2) _ nxt, of "cr_sid r"]
  obtain st1 w where wr: "WriteCatalogRecord env r' st0 = (st1, w)" by fastforce
  have eff: "cat_effect env (cr_sid r) st0 st1 \<and> (if IsOk w then view st1 = (view st0)(cr_sid r \<mapsto> r') \<and>
      ns_catalog_unavailable st1 = ns_catalog_unavailable st0 else view st1 = view st0 \<and> ns_catalog_unavailable st1)"
    using Write_cat_effect[OF wr _ st0(2)] step assms(2,5) st0(1) by (auto simp: env_laws_def)
  have run: "st' = st1" "f' = f1" "IsOk res = (IsOk w \<and> ec_value error = 0)"
    using assms(1) False rm pending wr unfolding st0_def r'_def
    by (cases "ec_value error = 0"; auto simp: FinishCatalogDeletion_def Let_def IsOk_def Result_Err_def split: sum.splits)+
  have "cat_effect env (cr_sid r) st st'" using cat_effect_trans[OF st0(3)] eff run(1) by blast
  moreover have "cr_generation_uuid r' = cr_generation_uuid r" "cr_state r' = (if ec_value error \<noteq> 0 then kDeleteFailed else kDeleted)"
    by (simp_all add: r'_def)
  ultimately show ?thesis using eff run rm st0(1,4) assms(5) by (auto split: if_splits)
qed


section \<open>The table and the catalog agree\<close>

text \<open>A session of the table against the catalog: a catalogued session owns its store and the
  catalog's record of its generation, in the state it reports, or \<open>deleting\<close> once it is closing;
  an uncatalogued session has no undeleted record under its name.  Volatile state is present
  exactly while the session is in the life cycle state active.\<close>

definition session_ok :: "(string \<rightharpoonup> SessionCatalogRecord) \<Rightarrow> string \<Rightarrow> 'e SessionRecord \<Rightarrow> bool" where
  "session_ok m sid r \<longleftrightarrow> sr_phase r \<noteq> Creating \<and> sr_accepting r = (sr_phase r = Active) \<and>
     (if sr_catalogued r then sr_durable_buffers r \<noteq> None \<and> (\<exists>cr. m sid = Some cr \<and>
        cr_generation_uuid cr = sm_generation_uuid (sr_metadata r) \<and>
        (if sr_phase r = Active then cr_state cr = sr_lifecycle r \<and> live_state (cr_state cr) else cr_state cr = kDeleting))
      else sr_lifecycle r = kActive \<and> (\<forall>cr. m sid = Some cr \<longrightarrow> cr_state cr = kDeleted)) \<and>
     (if sr_lifecycle r = kActive then \<not> sr_reconciled r \<and> sr_snapshot r \<noteq> None \<and> sr_overlay r \<noteq> None
      else sr_snapshot r = None \<and> sr_overlay r = None)"

text \<open>The invariant; unless the latch is set, every live catalog record has its session.\<close>

definition lifecycle_inv :: "('e, 'd, 'f) NodeEnv \<Rightarrow> ('e, 'd) NodeState \<Rightarrow> bool" where
  "lifecycle_inv env st \<longleftrightarrow> catalog_ok env st \<and>
     (\<forall>sid r. ns_sessions st sid = Some r \<longrightarrow> session_ok (view st) sid r) \<and>
     (ns_catalog st \<noteq> None \<longrightarrow> ns_catalog_mode st \<and> IsCanonicalUuid (ns_instance_id st)) \<and>
     (\<not> ns_catalog_unavailable st \<longrightarrow> (\<forall>sid cr. view st sid = Some cr \<longrightarrow> live_state (cr_state cr) \<longrightarrow>
        (\<exists>r. ns_sessions st sid = Some r \<and> sr_catalogued r \<and> sr_phase r = Active)))"

lemma lifecycle_invD:
  assumes "lifecycle_inv env st"
  shows "catalog_ok env st" "ns_sessions st sid = Some r \<Longrightarrow> session_ok (view st) sid r"
    "ns_catalog st \<noteq> None \<Longrightarrow> ns_catalog_mode st \<and> IsCanonicalUuid (ns_instance_id st)"
    "\<not> ns_catalog_unavailable st \<Longrightarrow> view st sid = Some cr \<Longrightarrow> live_state (cr_state cr) \<Longrightarrow>
       \<exists>r. ns_sessions st sid = Some r \<and> sr_catalogued r \<and> sr_phase r = Active"
  using assms by (auto simp: lifecycle_inv_def)

lemma view_cong: "ns_catalog st' = ns_catalog st \<Longrightarrow> view st' = view st"
  by (simp add: view_def NodeFind_def)

lemma session_ok_cong: "m' sid = m sid \<Longrightarrow> session_ok m' sid r = session_ok m sid r"
  by (simp add: session_ok_def)

lemma inv_update:
  assumes inv: "lifecycle_inv env st" and eff: "cat_effect env key st st1"
    and frame: "ns_catalog st2 = ns_catalog st1" "ns_catalog_mode st2 = ns_catalog_mode st1" "ns_instance_id st2 = ns_instance_id st1"
    and latch: "ns_catalog_unavailable st1 \<Longrightarrow> ns_catalog_unavailable st2"
    and table: "ns_sessions st2 = (ns_sessions st)(key := x)"
    and session: "\<And>r. x = Some r \<Longrightarrow> session_ok (view st1) key r"
    and cover: "\<And>cr. \<not> ns_catalog_unavailable st2 \<Longrightarrow> view st1 key = Some cr \<Longrightarrow> live_state (cr_state cr) \<Longrightarrow>
      \<exists>r. x = Some r \<and> sr_catalogued r \<and> sr_phase r = Active"
  shows "lifecycle_inv env st2"
proof -
  note e = eff[unfolded cat_effect_def]
  have v: "view st2 = view st1" using frame(1) by (rule view_cong)
  have other: "view st1 s = view st s" if "s \<noteq> key" for s using e that by blast
  have "session_ok (view st2) s r" if "ns_sessions st2 s = Some r" for s r
    using that session lifecycle_invD(2)[OF inv, of s r] other[of s]
    by (cases "s = key") (auto simp: v table session_ok_cong[of "view st1" s "view st"])
  moreover have "catalog_ok env st2" using e frame(1) by (simp add: catalog_ok_def)
  moreover have "ns_catalog st2 \<noteq> None \<Longrightarrow> ns_catalog_mode st2 \<and> IsCanonicalUuid (ns_instance_id st2)"
    using e frame lifecycle_invD(3)[OF inv] by simp
  moreover have "\<exists>r. ns_sessions st2 s = Some r \<and> sr_catalogued r \<and> sr_phase r = Active"
    if "\<not> ns_catalog_unavailable st2" "view st2 s = Some cr" "live_state (cr_state cr)" for s cr
  proof (cases "s = key")
    case True
    with cover that show ?thesis by (simp add: v table)
  next
    case False
    have "\<not> ns_catalog_unavailable st" using that(1) latch e by blast
    with lifecycle_invD(4)[OF inv, of s cr] that other[OF False] False show ?thesis by (simp add: v table)
  qed
  ultimately show ?thesis by (auto simp: lifecycle_inv_def)
qed

lemma inv_frame:
  assumes "lifecycle_inv env st" "ns_catalog st' = ns_catalog st" "ns_catalog_mode st' = ns_catalog_mode st"
    "ns_instance_id st' = ns_instance_id st" "ns_catalog_unavailable st \<Longrightarrow> ns_catalog_unavailable st'" "ns_sessions st' = ns_sessions st"
  shows "lifecycle_inv env st'"
  using assms view_cong[OF assms(2)] by (auto simp: lifecycle_inv_def catalog_ok_def)

lemma registration_frames [simp]:
  "ns_catalog (RegisterSession regs st) = ns_catalog st" "ns_sessions (RegisterSession regs st) = ns_sessions st"
  "ns_catalog_mode (RegisterSession regs st) = ns_catalog_mode st" "ns_instance_id (RegisterSession regs st) = ns_instance_id st"
  "ns_catalog_unavailable (RegisterSession regs st) = ns_catalog_unavailable st"
  "ns_catalog (close_registrations r st) = ns_catalog st" "ns_sessions (close_registrations r st) = ns_sessions st"
  "ns_catalog_mode (close_registrations r st) = ns_catalog_mode st" "ns_instance_id (close_registrations r st) = ns_instance_id st"
  "ns_catalog_unavailable (close_registrations r st) = ns_catalog_unavailable st"
  by (simp_all add: RegisterSession_def close_registrations_def split: option.split prod.split)

lemma release_frames [simp]:
  "ns_catalog (ReleaseSession sid st) = ns_catalog st" "ns_sessions (ReleaseSession sid st) = (ns_sessions st)(sid := None)"
  "ns_catalog_mode (ReleaseSession sid st) = ns_catalog_mode st" "ns_instance_id (ReleaseSession sid st) = ns_instance_id st"
  "ns_catalog_unavailable (ReleaseSession sid st) = ns_catalog_unavailable st"
  "ns_catalog (SessionRollback sid r st) = ns_catalog st" "ns_sessions (SessionRollback sid r st) = (ns_sessions st)(sid := None)"
  "ns_catalog_mode (SessionRollback sid r st) = ns_catalog_mode st" "ns_instance_id (SessionRollback sid r st) = ns_instance_id st"
  "ns_catalog_unavailable (SessionRollback sid r st) = ns_catalog_unavailable st"
  by (simp_all add: ReleaseSession_def SessionRollback_def erase_session_def Let_def)

lemma gate_frames [simp]:
  "ns_catalog (Leave st) = ns_catalog st" "ns_sessions (Leave st) = ns_sessions st" "ns_catalog_mode (Leave st) = ns_catalog_mode st"
  "ns_instance_id (Leave st) = ns_instance_id st" "ns_catalog_unavailable (Leave st) = ns_catalog_unavailable st"
  by (simp_all add: Leave_def)

lemma Enter_frames:
  assumes "Enter st = Some st'"
  shows "ns_catalog st' = ns_catalog st" "ns_sessions st' = ns_sessions st" "ns_catalog_mode st' = ns_catalog_mode st"
    "ns_instance_id st' = ns_instance_id st" "ns_catalog_unavailable st' = ns_catalog_unavailable st" "view st' = view st"
  using assms by (auto simp: Enter_def view_def NodeFind_def split: if_splits)

text \<open>Legal steps of the record of one name only.\<close>

definition moves :: "string \<Rightarrow> (string \<rightharpoonup> SessionCatalogRecord) \<Rightarrow> (string \<rightharpoonup> SessionCatalogRecord) \<Rightarrow> bool" where
  "moves key m m' \<longleftrightarrow> catalog_step\<^sup>*\<^sup>* m m' \<and> (\<forall>s. s \<noteq> key \<longrightarrow> m' s = m s)"

lemma moves_refl [simp]: "moves key m m"
  by (simp add: moves_def)

lemma moves_trans: "moves key m m' \<Longrightarrow> moves key m' m'' \<Longrightarrow> moves key m m''"
  by (auto simp: moves_def)

text \<open>An operation under a callback lease keeps whatever its body keeps.\<close>

lemma leased_inv:
  assumes "leased (st, f) refused body = ((st', f'), r)" "lifecycle_inv env st"
    and "\<And>s s1 f1 r1. Enter st = Some s \<Longrightarrow> lifecycle_inv env s \<Longrightarrow> body (s, f) = ((s1, f1), r1) \<Longrightarrow>
      lifecycle_inv env s1 \<and> moves sid (view s) (view s1)"
  shows "lifecycle_inv env st' \<and> moves sid (view st) (view st')"
proof (cases "Enter st")
  case None
  with assms(1,2) show ?thesis by (simp add: leased_def)
next
  case (Some s)
  note fr = Enter_frames[OF Some]
  have inv: "lifecycle_inv env s" using fr by (intro inv_frame[OF assms(2)]) simp_all
  obtain s1 f1 r1 where b: "body (s, f) = ((s1, f1), r1)" by (metis surj_pair)
  from assms(3)[OF Some inv b] have s1: "lifecycle_inv env s1" "moves sid (view s) (view s1)" by auto
  have "st' = Leave s1" using assms(1) Some b by (simp add: leased_def)
  moreover have "lifecycle_inv env (Leave s1)" by (rule inv_frame[OF s1(1)]) simp_all
  ultimately show ?thesis using s1(2) fr(6) by (simp add: view_cong[of "Leave s1" s1])
qed


section \<open>Creation\<close>

lemma uuid_text_canonical: "fence_uuid_wf u \<Longrightarrow> IsCanonicalUuid (FormatFenceUuid u)"
  using ParseFenceUuid_iff[of "FormatFenceUuid u" u] by (simp add: IsCanonicalUuid_def)

lemma ActiveCatalogRecord_valid:
  assumes "IsValidSessionId key" "IsCanonicalUuid (sm_generation_uuid (sr_metadata r))"
    "IsTimestamp (sm_created_at (sr_metadata r))" "IsCanonicalUuid (ns_instance_id st)"
  shows "record_valid (ActiveCatalogRecord key options r st)"
  using assms by (simp add: ActiveCatalogRecord_def record_valid_def timestamp_or_empty_def failure_valid_def HasLifecycleMetadata_def)

definition sid_free :: "string \<Rightarrow> ('e, 'd) NodeState \<Rightarrow> bool" where
  "sid_free key st \<longleftrightarrow> (\<forall>cr. view st key = Some cr \<longrightarrow> cr_state cr = kDeleted)"

lemma SidTaken_None: "SidTaken key st = None \<longleftrightarrow> ns_sessions st key = None \<and> sid_free key st"
  by (auto simp: SidTaken_def sid_free_def view_def split: option.splits)

lemma CreateCatalogStore_effect:
  assumes "CreateCatalogStore env now key options r (st, f) = ((st', f'), r', res)"
    and laws: "env_laws env" "clock_ok now" and ok: "catalog_ok env st" and free: "sid_free key st"
    and valid: "record_valid (ActiveCatalogRecord key options r st)"
  shows "cat_effect env key st st' \<and>
    (if IsOk res then (\<exists>store. r' = r\<lparr>sr_durable_buffers := Some store, sr_catalogued := True\<rparr>) \<and>
        view st' key = Some (ActiveCatalogRecord key options r st)
     else r' = r \<and> (ns_catalog_unavailable st' \<or> (\<forall>cr. view st' key = Some cr \<longrightarrow> \<not> live_state (cr_state cr))))"
proof -
  let ?cr = "ActiveCatalogRecord key options r st"
  have key: "cr_sid ?cr = key" "cr_state ?cr = kActive" by (simp_all add: ActiveCatalogRecord_def)
  have db: "db_laws (ne_catalog env)" using laws(1) by (simp add: env_laws_def)
  have create: "catalog_step (view st) ((view st)(cr_sid ?cr \<mapsto> ?cr))"
    using free valid key by (intro catalog_step.create) (auto simp: sid_free_def)
  obtain st1 w1 where w1: "WriteCatalogRecord env ?cr st = (st1, w1)" by fastforce
  note e1 = Write_cat_effect[OF w1 db ok valid create, unfolded key]
  have nl: "\<not> live_state kDeleted" "\<not> live_state kDeleting" "\<not> live_state kDeleteFailed" by (simp_all add: live_state_def)
  show ?thesis
  proof (cases "IsOk w1 \<and> \<not> ns_catalog_unavailable st1")
    case False
    with assms(1) w1 e1 show ?thesis
      by (auto simp: CreateCatalogStore_def Let_def IsOk_def CatalogDown_def Result_Err_def split: sum.splits if_splits)
  next
    case True
    then have v1: "view st1 key = Some ?cr" "catalog_ok env st1" using e1 by (auto simp: cat_effect_def)
    obtain f2 op where op: "OpenGenerationStore env key (cr_generation_uuid ?cr) f = (f2, op)" by fastforce
    show ?thesis
    proof (cases op)
      case (Inr store)
      with assms(1) w1 True op e1 v1 show ?thesis
        by (auto simp: CreateCatalogStore_def Let_def IsOk_def Result_Ok_def split: sum.splits)
    next
      case (Inl err)
      let ?del = "?cr\<lparr>cr_state := kDeleting, cr_deleting_at := now key ''deleting_at''\<rparr>"
      have "lifecycle_next ?cr ?del" using laws(2) key by (intro lifecycle_next.delete) (auto simp: clock_ok_def)
      note step = lifecycle_step_view[OF v1(2,1) this]
      obtain st2 w2 where w2: "WriteCatalogRecord env ?del st1 = (st2, w2)" by fastforce
      have e2: "cat_effect env key st1 st2 \<and> (if IsOk w2 then view st2 = (view st1)(key \<mapsto> ?del) \<and>
          ns_catalog_unavailable st2 = ns_catalog_unavailable st1 else view st2 = view st1 \<and> ns_catalog_unavailable st2)"
        using Write_cat_effect[OF w2 db v1(2)] step by (simp add: key)
      obtain st3 f3 w3 where fin: "FinishCatalogDeletion env now ?del (st2, f2) = ((st3, f3), w3)" by (metis surj_pair)
      show ?thesis
      proof (cases "IsOk w2")
        case False
        with assms(1) w1 True op Inl w2 e1 e2 show ?thesis
          by (auto simp: CreateCatalogStore_def Let_def IsOk_def split: sum.splits intro: cat_effect_trans)
      next
        case w2ok: True
        then have v2: "view st2 (cr_sid ?del) = Some ?del" "catalog_ok env st2" using e2 key by (auto simp: cat_effect_def)
        from Finish_effect[OF fin laws v2(2,1)] key have e3: "cat_effect env key st2 st3"
          "\<exists>cr. view st3 key = Some cr \<and> \<not> live_state (cr_state cr)" by (auto simp: nl split: if_splits)
        have "st' = st3" "r' = r" "\<not> IsOk res"
          using assms(1) w1 True op Inl w2 w2ok fin
          by (auto simp: CreateCatalogStore_def Let_def IsOk_def split: sum.splits)
        with e1 e2 e3 show ?thesis by (auto intro: cat_effect_trans)
      qed
    qed
  qed
qed

lemma RegisterSession_view [simp]: "view (RegisterSession regs st) = view st"
  by (rule view_cong) simp

text \<open>The record after initialisation, ready to be activated.\<close>

definition session_ready :: "(string \<rightharpoonup> SessionCatalogRecord) \<Rightarrow> string \<Rightarrow> 'e SessionRecord \<Rightarrow> bool" where
  "session_ready m key r \<longleftrightarrow> sr_phase r = Creating \<and> session_ok m key (fst (SessionActivate r))"

lemma InitSession_effect:
  fixes st :: "('e, 'd) NodeState"
  assumes init: "InitSession env now key options (PublishedRecord generation options regs) (st, f) = ((st', f'), r', res)"
    and laws: "env_laws env" "clock_ok now" and inv: "catalog_ok env st" "sid_free key st"
      "ns_catalog st \<noteq> None \<Longrightarrow> IsCanonicalUuid (ns_instance_id st)"
    and args: "IsValidSessionId key" "fence_uuid_wf generation"
  shows "cat_effect env key st st' \<and>
    (if IsOk res then session_ready (view st') key r' \<and> (\<forall>cr. view st' key = Some cr \<longrightarrow> live_state (cr_state cr) \<longrightarrow> sr_catalogued r')
     else ns_catalog_unavailable st' \<or> (\<forall>cr. view st' key = Some cr \<longrightarrow> \<not> live_state (cr_state cr)))"
proof -
  have nl: "\<forall>cr. view st key = Some cr \<longrightarrow> \<not> live_state (cr_state cr)" using inv(2) by (auto simp: sid_free_def live_state_def)
  show ?thesis
  proof (cases "eng_snapshot (ne_ops env) (ns_engine st)")
    case None
    with init nl inv(1) show ?thesis by (auto simp: InitSession_def IsOk_def Result_Err_def cat_effect_refl)
  next
    case (Some o_snap)
    show ?thesis
    proof (cases o_snap)
      case None
      with Some init nl inv(1) show ?thesis by (auto simp: InitSession_def IsOk_def Result_Err_def cat_effect_refl)
    next
      case snap: (Some snapshot)
      define r :: "'e SessionRecord" where "r = (PublishedRecord generation options regs)\<lparr>sr_snapshot := Some snapshot, sr_overlay := Some \<lparr>ime_data = []\<rparr>,
        sr_metadata := \<lparr>sm_created_at = now key ''created_at'', sm_generation_uuid = FormatFenceUuid generation\<rparr>\<rparr>"
      have r: "sr_phase r = Creating" "sr_lifecycle r = kActive" "\<not> sr_catalogued r" "\<not> sr_reconciled r" "sr_snapshot r \<noteq> None"
        "sr_overlay r \<noteq> None" "sr_metadata r = \<lparr>sm_created_at = now key ''created_at'', sm_generation_uuid = FormatFenceUuid generation\<rparr>"
        by (simp_all add: r_def PublishedRecord_def NewSessionRecord_def)
      have run: "InitSession env now key options (PublishedRecord generation options regs) (st, f) =
          (if \<not> so_durable_buffers options then ((st, f), r, Result_Ok ())
           else if ns_catalog_mode st then CreateCatalogStore env now key options r (st, f)
           else (case CreateFactoryStore env key r of (r, result) \<Rightarrow> ((st, f), r, result)))"
        by (simp add: InitSession_def Some snap r_def PublishedRecord_def Let_def)
      have plain: "session_ready (view st) key (r\<lparr>sr_durable_buffers := d\<rparr>)" for d
        using r inv(2) by (auto simp: session_ready_def session_ok_def SessionActivate_def sid_free_def)
      have rd: "r = r\<lparr>sr_durable_buffers := sr_durable_buffers r\<rparr>" by simp
      consider (none) "\<not> so_durable_buffers options" | (factory) "so_durable_buffers options" "\<not> ns_catalog_mode st"
        | (cat) "so_durable_buffers options" "ns_catalog_mode st" by blast
      then show ?thesis
      proof cases
        case none
        with init run plain[of "sr_durable_buffers r"] nl inv(1) show ?thesis
          by (auto simp: IsOk_def Result_Ok_def cat_effect_refl)
      next
        case factory
        with init run plain nl inv(1) show ?thesis
          by (auto simp: CreateFactoryStore_def IsOk_def Result_Ok_def Result_Err_def cat_effect_refl split: option.splits sum.splits)
      next
        case cat
        have cs: "CreateCatalogStore env now key options r (st, f) = ((st', f'), r', res)" using init run cat by simp
        show ?thesis
        proof (cases "ns_catalog st")
          case None
          with cs nl inv(1) show ?thesis
            by (auto simp: CreateCatalogStore_def WriteCatalogRecord_def TryPutCatalogRecord_def CatalogDown_def Result_Err_def
                IsOk_def Let_def intro!: cat_effect_latch cat_effect_refl)
        next
          case (Some c)
          have valid: "record_valid (ActiveCatalogRecord key options r st)"
            using args laws(2) inv(3) Some uuid_text_canonical[OF args(2)] r(7)
            by (intro ActiveCatalogRecord_valid) (simp_all add: clock_ok_def)
          note eff = CreateCatalogStore_effect[OF cs laws inv(1,2) valid]
          moreover have "session_ready (view st') key (r\<lparr>sr_durable_buffers := Some store, sr_catalogued := True\<rparr>)"
            if "view st' key = Some (ActiveCatalogRecord key options r st)" for store
            using that r by (auto simp: session_ready_def session_ok_def SessionActivate_def ActiveCatalogRecord_def live_state_def)
          ultimately show ?thesis by (auto split: if_splits)
        qed
      qed
    qed
  qed
qed


lemma SessionActivate_ready:
  "session_ready m key r \<Longrightarrow> session_ok m key (fst (SessionActivate r)) \<and> sr_phase (fst (SessionActivate r)) = Active \<and>
     sr_catalogued (fst (SessionActivate r)) = sr_catalogued r"
  by (auto simp: session_ready_def SessionActivate_def)

lemma session_ok_token [simp]: "session_ok m key (r\<lparr>sr_liveliness_token := t\<rparr>) = session_ok m key r"
  by (simp add: session_ok_def)

lemma AnnounceSession_inv:
  assumes "lifecycle_inv env st"
  shows "lifecycle_inv env (AnnounceSession e sid k st) \<and> view (AnnounceSession e sid k st) = view st"
proof (cases "ns_sessions st sid")
  case None
  with assms show ?thesis by (simp add: AnnounceSession_def)
next
  case (Some r)
  have emit: "lifecycle_inv env (EmitDiagnostics ds st)" for ds by (rule inv_frame[OF assms]) simp_all
  have "lifecycle_inv env (set_session sid (r\<lparr>sr_liveliness_token := Some k\<rparr>) st)"
  proof (rule inv_update[OF assms cat_effect_refl[OF lifecycle_invD(1)[OF assms]]])
    show "\<exists>r'. Some (r\<lparr>sr_liveliness_token := Some k\<rparr>) = Some r' \<and> sr_catalogued r' \<and> sr_phase r' = Active"
      if "\<not> ns_catalog_unavailable (set_session sid (r\<lparr>sr_liveliness_token := Some k\<rparr>) st)" "view st sid = Some cr"
        "live_state (cr_state cr)" for cr
      using lifecycle_invD(4)[OF assms _ that(2,3)] that(1) Some by auto
  qed (use lifecycle_invD(2)[OF assms Some] in auto)
  with Some assms emit show ?thesis by (simp add: AnnounceSession_def)
qed

lemma CreateSessionAdmitted_inv:
  assumes run: "CreateSessionAdmitted env now generation regs key options (st, f) = ((st', f'), res)"
    and laws: "env_laws env" "clock_ok now" and inv: "lifecycle_inv env st"
    and args: "IsValidSessionId key" "fence_uuid_wf generation"
  shows "lifecycle_inv env st' \<and> moves key (view st) (view st')"
proof -
  let ?s = "RegisterSession regs st" and ?r = "PublishedRecord generation options regs"
  have s: "lifecycle_inv env ?s" by (rule inv_frame[OF inv]) simp_all
  show ?thesis
  proof (cases "SidTaken key ?s")
    case (Some code)
    with run s show ?thesis by (auto simp: CreateSessionAdmitted_def Let_def)
  next
    case None
    then have free: "ns_sessions ?s key = None" "sid_free key ?s" by (simp_all add: SidTaken_None)
    let ?p = "set_session key ?r ?s"
    obtain s1 f1 r1 res1 where init: "InitSession env now key options ?r (?p, f) = ((s1, f1), r1, res1)" by (metis surj_pair)
    have pre: "catalog_ok env ?p" "sid_free key ?p" "ns_catalog ?p \<noteq> None \<Longrightarrow> IsCanonicalUuid (ns_instance_id ?p)"
      using lifecycle_invD(1,3)[OF s] free(2) by (simp_all add: catalog_ok_def sid_free_def)
    note eff = InitSession_effect[OF init laws pre args]
    have e: "cat_effect env key ?s (s1\<lparr>ns_sessions := ns_sessions ?s\<rparr>)" "view (s1\<lparr>ns_sessions := ns_sessions ?s\<rparr>) = view s1"
      using eff view_cong[of "s1\<lparr>ns_sessions := ns_sessions ?s\<rparr>" s1]
      by (auto simp: cat_effect_def catalog_ok_def)
    have sess: "ns_sessions s1 = (ns_sessions ?s)(key \<mapsto> ?r)" using eff by (simp add: cat_effect_def)
    have steps: "moves key (view st) (view s1)" using eff by (simp add: cat_effect_def moves_def)
    show ?thesis
    proof (cases "IsOk res1")
      case False
      then have st': "st' = SessionRollback key r1 s1"
        using run None init by (auto simp: CreateSessionAdmitted_def Let_def IsOk_def split: sum.splits)
      have "lifecycle_inv env (SessionRollback key r1 s1)"
        by (rule inv_update[OF s e(1), where x = None]) (use False eff e sess in auto)
      with steps st' show ?thesis by (simp add: view_cong[of "SessionRollback key r1 s1" s1])
    next
      case True
      let ?a = "set_session key (fst (SessionActivate r1)) s1"
      have ready: "session_ready (view s1) key r1"
        "\<forall>cr. view s1 key = Some cr \<longrightarrow> live_state (cr_state cr) \<longrightarrow> sr_catalogued r1" using eff True by auto
      have a: "lifecycle_inv env ?a"
        by (rule inv_update[OF s e(1), where x = "Some (fst (SessionActivate r1))"])
          (use ready SessionActivate_ready[OF ready(1)] e sess in auto)
      have "st' = ?a \<or> (\<exists>k. st' = AnnounceSession env key k ?a)"
        using run None init True
        by (auto simp: CreateSessionAdmitted_def Let_def IsOk_def split: sum.splits option.splits)
      with a AnnounceSession_inv[OF a] steps show ?thesis by auto
    qed
  qed
qed

lemma CreateSession_inv:
  assumes "CreateSession env now generation regs sid options (st, f) = ((st', f'), res)"
    "env_laws env" "clock_ok now" "lifecycle_inv env st" "fence_uuid_wf generation"
  shows "lifecycle_inv env st' \<and> moves sid (view st) (view st')"
proof (cases "IsValidSessionId sid")
  case False
  with assms(1,4) show ?thesis by (simp add: CreateSession_def)
next
  case True
  show ?thesis
  proof (rule leased_inv[of st f "Result_ErrCode InvalidArgumentCode" _ st' f' res])
    show "leased (st, f) (Result_ErrCode InvalidArgumentCode) (\<lambda>(st, f).
        if ns_catalog_mode st \<and> ns_catalog_unavailable st then ((st, f), CatalogDown)
        else CreateSessionAdmitted env now generation regs sid options (st, f)) = ((st', f'), res)"
      using assms(1) True by (simp add: CreateSession_def)
    fix s s1 f1 r1
    assume "lifecycle_inv env s" and body: "(\<lambda>(st, f). if ns_catalog_mode st \<and> ns_catalog_unavailable st then ((st, f), CatalogDown)
        else CreateSessionAdmitted env now generation regs sid options (st, f)) (s, f) = ((s1, f1), r1)"
    then show "lifecycle_inv env s1 \<and> moves sid (view s) (view s1)"
      using CreateSessionAdmitted_inv[of env now generation regs sid options s f s1 f1 r1] assms(2,3,5) True
      by (cases "ns_catalog_mode s \<and> ns_catalog_unavailable s") auto
  qed (rule assms(4))
qed

section \<open>Retention\<close>

lemma RetainAdmitted_inv:
  assumes run: "RetainAdmitted env now sid r st = (st', res)" and laws: "env_laws env" "clock_ok now"
    and inv: "lifecycle_inv env st" and rec: "ns_sessions st sid = Some r" "sr_catalogued r" "sr_phase r = Active"
  shows "lifecycle_inv env st' \<and> moves sid (view st) (view st')"
proof -
  have ok: "session_ok (view st) sid r" by (rule lifecycle_invD(2)[OF inv rec(1)])
  then obtain cr where cr: "view st sid = Some cr" "cr_state cr = sr_lifecycle r"
    "cr_generation_uuid cr = sm_generation_uuid (sr_metadata r)" using rec by (auto simp: session_ok_def)
  have keep: "lifecycle_inv env (set_session sid (r\<lparr>sr_durable_buffers := Some e\<rparr>) st)" for e
    by (rule inv_update[OF inv cat_effect_refl[OF lifecycle_invD(1)[OF inv]], where x = "Some (r\<lparr>sr_durable_buffers := Some e\<rparr>)"])
      (use ok rec in \<open>auto simp: session_ok_def\<close>)
  show ?thesis
  proof (cases "sr_lifecycle r = kActive \<and> \<not> sr_reconciled r \<and> \<not> ns_catalog_unavailable st \<and>
      (\<exists>e e' u. sr_durable_buffers r = Some e \<and> eng_sync (ne_ops env) e = (e', Some (Inr u)))")
    case False
    with run inv keep cr show ?thesis
      by (auto simp: RetainAdmitted_def split: if_splits option.splits sum.splits prod.splits)
  next
    case True
    then obtain e e' u where sync: "sr_durable_buffers r = Some e" "eng_sync (ne_ops env) e = (e', Some (Inr u))" by blast
    define cr' where "cr' = cr\<lparr>cr_state := kRetained, cr_retained_at := now sid ''retained_at''\<rparr>"
    have "lifecycle_next cr cr'" unfolding cr'_def using laws(2) cr(2) True by (intro lifecycle_next.retain) (auto simp: clock_ok_def)
    note step = lifecycle_step_view[OF lifecycle_invD(1)[OF inv] cr(1) this]
    obtain s1 ok1 where put: "TryPutCatalogRecord env cr' st = (s1, ok1)" by fastforce
    have eff: "cat_effect env sid st s1" "view s1 = (if ok1 then (view st)(sid \<mapsto> cr') else view st)"
      using TryPut_cat_effect[OF put _ lifecycle_invD(1)[OF inv]] step laws(1) by (auto simp: env_laws_def)
    have steps: "moves sid (view st) (view s1)" using eff(1) by (simp add: cat_effect_def moves_def)
    have find: "NodeFind sid st = Some cr" using cr(1) by (simp add: view_def)
    let ?ret = "r\<lparr>sr_durable_buffers := Some e', sr_lifecycle := kRetained, sr_snapshot := None, sr_overlay := None, sr_liveliness_token := None\<rparr>"
    have acc: "sr_accepting r" using ok rec by (simp add: session_ok_def)
    let ?bad = "LatchCatalogUnavailable (set_session sid (r\<lparr>sr_durable_buffers := Some e'\<rparr>) s1)"
    have tbl: "ns_sessions s1 = ns_sessions st" using eff(1) by (simp add: cat_effect_def)
    show ?thesis
    proof (cases ok1)
      case ok1: True
      have "st' = set_session sid ?ret s1"
        using run True sync find put ok1 cr(2) rec(3) by (auto simp: RetainAdmitted_def IsActive_def cr'_def)
      moreover have "lifecycle_inv env (set_session sid ?ret s1)"
        by (rule inv_update[OF inv eff(1), where x = "Some ?ret"])
          (use rec cr eff(2) ok1 tbl acc in \<open>auto simp: session_ok_def live_state_def cr'_def\<close>)
      ultimately show ?thesis using steps by simp
    next
      case False
      have "st' = ?bad"
        using run True sync find put False cr(2) rec(3) by (auto simp: RetainAdmitted_def IsActive_def cr'_def)
      moreover have "lifecycle_inv env ?bad"
        by (rule inv_update[OF inv eff(1), where x = "Some (r\<lparr>sr_durable_buffers := Some e'\<rparr>)"])
          (use rec ok eff(2) False tbl in \<open>auto simp: session_ok_def\<close>)
      ultimately show ?thesis using steps by simp
    qed
  qed
qed

lemma RetainSession_inv:
  assumes "RetainSession env now sid (st, f) = ((st', f'), res)"
    "env_laws env" "clock_ok now" "lifecycle_inv env st"
  shows "lifecycle_inv env st' \<and> moves sid (view st) (view st')"
proof (cases "IsValidSessionId sid")
  case False
  with assms(1,4) show ?thesis by (simp add: RetainSession_def)
next
  case True
  note run = assms(1)[unfolded RetainSession_def] 
  show ?thesis
    by (rule leased_inv[OF run[simplified True not_True_eq_False if_False] assms(4)])
      (auto simp: TryAcquire_def split: if_splits option.splits prod.splits dest!: RetainAdmitted_inv[OF _ assms(2,3)])
qed


section \<open>Closing\<close>

lemma not_live [simp]: "\<not> live_state kDeleting" "\<not> live_state kDeleted" "\<not> live_state kDeleteFailed"
  by (simp_all add: live_state_def)

text \<open>What \<open>BeginCatalogDeletion\<close> commits for a session that is in the table, and for a catalog record
  without one.\<close>

lemma BeginDeletion_effect:
  assumes run: "BeginCatalogDeletion env now key record generation st = (st', res)"
    and laws: "env_laws env" "clock_ok now" and ok: "catalog_ok env st"
    and act: "\<And>r. record = Some r \<Longrightarrow> sr_phase r = Active"
  obtains s1 where "cat_effect env key st s1"
    "case res of
       Inl e \<Rightarrow> st' = s1 \<and> view s1 = view st
     | Inr None \<Rightarrow> st' = st \<and> s1 = st \<and> (\<forall>r. record = Some r \<longrightarrow> ns_catalog st = None \<or> \<not> sr_catalogued r \<or>
         (\<forall>cr. view st key = Some cr \<longrightarrow> cr_state cr = kDeleted))
     | Inr (Some cr) \<Rightarrow> view s1 key = Some cr \<and> cr_sid cr = key \<and> cr_state cr = kDeleting \<and>
         (\<exists>old. view st key = Some old \<and> cr_generation_uuid cr = cr_generation_uuid old) \<and>
         st' = (case record of None \<Rightarrow> s1 | Some r \<Rightarrow> set_session key (fst (BeginClose r)) s1)"
proof (cases "ns_catalog st = None \<or> (case record of Some r \<Rightarrow> \<not> sr_catalogued r | None \<Rightarrow> False) \<or> view st key = None \<or>
    (\<exists>cr. view st key = Some cr \<and> cr_state cr = kDeleted)")
  case True
  then have "st' = st \<and> res = Result_Ok None"
    using run act by (auto simp: BeginCatalogDeletion_def Let_def view_def IsActive_def split: option.splits if_splits)
  with True show thesis by (intro that[OF cat_effect_refl[OF ok]]) (auto simp: Result_Ok_def split: option.splits)
next
  case False
  then obtain cr where cr: "view st key = Some cr" "cr_state cr \<noteq> kDeleted" by auto
  note sid = view_records[OF ok cr(1)]
  define cr' where "cr' = (if cr_state cr = kDeleting then cr else cr\<lparr>cr_state := kDeleting, cr_deleting_at := now key ''deleting_at''\<rparr>)"
  have cr': "cr_sid cr' = key" "cr_state cr' = kDeleting" "cr_generation_uuid cr' = cr_generation_uuid cr"
    using sid by (simp_all add: cr'_def)
  let ?stale = "(record \<noteq> None \<and> cr_generation_uuid cr \<noteq> generation) \<or> (record = None \<and> cr_state cr = kActive)"
  obtain s1 okp where put: "(if cr_state cr = kDeleting then (st, True) else TryPutCatalogRecord env cr' st) = (s1, okp)" by fastforce
  have run': "BeginCatalogDeletion env now key record generation st =
      (if ?stale then (st, Result_Err Error ''session changed during close'' OperationInProgress)
       else if okp then ((case record of None \<Rightarrow> s1 | Some r \<Rightarrow> set_session key (fst (BeginClose r)) s1), Result_Ok (Some cr'))
       else (LatchCatalogUnavailable s1, CatalogDown))"
  proof -
    have find: "NodeFind key st = Some cr" using cr(1) by (simp add: view_def)
    have pre: "\<not> (ns_catalog st = None \<or> (case record of Some r \<Rightarrow> \<not> sr_catalogued r | None \<Rightarrow> False))" using False by blast
    have live: "\<not> (case record of Some r \<Rightarrow> \<not> IsActive r | None \<Rightarrow> False)" using act by (auto simp: IsActive_def split: option.splits)
    show ?thesis
      unfolding BeginCatalogDeletion_def Let_def find if_not_P[OF pre] if_not_P[OF live] option.case if_not_P[OF cr(2)]
        cr'_def[symmetric] put by (auto split: bool.split)
  qed
  have eff: "cat_effect env key st s1" "view s1 = (if okp then (view st)(key \<mapsto> cr') else view st)"
  proof -
    have *: "cat_effect env key st s1 \<and> view s1 = (if okp then (view st)(key \<mapsto> cr') else view st)"
    proof (cases "cr_state cr = kDeleting")
      case True
      with put cr(1) ok show ?thesis by (auto simp: cr'_def fun_upd_idem cat_effect_refl)
    next
      case False
      then have "lifecycle_next cr cr'" using laws(2) cr(2) by (auto simp: cr'_def clock_ok_def intro!: lifecycle_next.delete)
      note step = lifecycle_step_view[OF ok cr(1) this]
      have p: "TryPutCatalogRecord env cr' st = (s1, okp)" using put False by simp
      from TryPut_cat_effect[OF p _ ok] step laws(1) show ?thesis by (auto simp: env_laws_def)
    qed
    then show "cat_effect env key st s1" "view s1 = (if okp then (view st)(key \<mapsto> cr') else view st)" by auto
  qed
  show thesis
  proof (cases "?stale \<or> \<not> okp")
    case True
    show thesis
    proof (cases ?stale)
      case True
      with run run' show thesis by (intro that[OF cat_effect_refl[OF ok]]) (auto simp: Result_Err_def)
    next
      case False
      with True run run' eff show thesis
        by (intro that[OF cat_effect_latch[OF eff(1)]]) (auto simp: CatalogDown_def Result_Err_def)
    qed
  next
    case False
    with run run' eff cr cr' show thesis by (intro that[OF eff(1)]) (auto simp: Result_Ok_def)
  qed
qed


lemma BeginClose_frames:
  "sr_phase r = Active \<Longrightarrow> fst (BeginClose r) = r\<lparr>sr_phase := Closing, sr_accepting := False\<rparr>"
  by (simp add: BeginClose_def)

lemma session_ok_closing:
  assumes "session_ok m sid r" "sr_phase r = Active"
    and "sr_catalogued r \<Longrightarrow> \<exists>cr old. m' sid = Some cr \<and> cr_state cr = kDeleting \<and> m sid = Some old \<and>
      cr_generation_uuid cr = cr_generation_uuid old"
    and "\<not> sr_catalogued r \<Longrightarrow> m' sid = m sid"
  shows "session_ok m' sid ((fst (BeginClose r))\<lparr>sr_liveliness_token := t\<rparr>)"
  using assms by (auto simp: BeginClose_frames session_ok_def)

lemma CloseDrain_inv:
  assumes run: "CloseDrain env now sid r catalogued (st, f) = ((st', f'), res)"
    and laws: "env_laws env" "clock_ok now" and inv: "lifecycle_inv env st0"
    and rec: "ns_sessions st0 sid = Some r" "sr_phase r = Active"
    and eff: "cat_effect env sid st0 s1"
    and st: "ns_catalog st = ns_catalog s1" "ns_catalog_mode st = ns_catalog_mode s1" "ns_instance_id st = ns_instance_id s1"
      "ns_catalog_unavailable st = ns_catalog_unavailable s1" "(ns_sessions st)(sid := None) = (ns_sessions st0)(sid := None)"
    and cat: "case catalogued of
      None \<Rightarrow> \<not> sr_catalogued r \<and> view s1 sid = view st0 sid
    | Some cr \<Rightarrow> sr_catalogued r \<and> view s1 sid = Some cr \<and> cr_sid cr = sid \<and> cr_state cr = kDeleting \<and>
        (\<exists>old. view st0 sid = Some old \<and> cr_generation_uuid cr = cr_generation_uuid old)"
  shows "lifecycle_inv env st' \<and> moves sid (view st0) (view st')"
proof -
  let ?c = "(fst (BeginClose r))\<lparr>sr_liveliness_token := None\<rparr>"
  let ?s2 = "close_registrations r (set_session sid ?c st)"
  have ok: "session_ok (view st0) sid r" by (rule lifecycle_invD(2)[OF inv rec(1)])
  have nl: "\<not> live_state (cr_state cr)" if "view s1 sid = Some cr" for cr
    using that cat ok by (auto simp: session_ok_def split: option.splits)
  have closing: "session_ok (view s1) sid ?c"
    by (rule session_ok_closing[OF ok rec(2)]) (use cat in \<open>auto split: option.splits\<close>)
  have tbl: "(ns_sessions st)(sid \<mapsto> ?c) = (ns_sessions st0)(sid \<mapsto> ?c)"
    using st(5) by (metis fun_upd_upd)
  have s2: "lifecycle_inv env ?s2"
    by (rule inv_update[OF inv eff, where x = "Some ?c"]) (use st tbl closing nl in auto)
  have v2: "view ?s2 = view s1" using st(1) by (intro view_cong) simp
  have released: "lifecycle_inv env (ReleaseSession sid ?s2)"
    by (rule inv_update[OF inv eff, where x = None]) (use st nl in auto)
  have vr: "view (ReleaseSession sid ?s2) = view s1" using st(1) by (intro view_cong) simp
  have steps: "moves sid (view st0) (view s1)" using eff by (simp add: cat_effect_def moves_def)
  show ?thesis
  proof (cases "\<not> registrations_drained r ?s2 \<or> \<not> AdmissionDrained r")
    case True
    then have "st' = ?s2" using run by (auto simp: CloseDrain_def Let_def)
    with s2 v2 steps show ?thesis by simp
  next
    case drained: False
    show ?thesis
    proof (cases catalogued)
      case None
      then have "st' = ReleaseSession sid ?s2" using run drained by (auto simp: CloseDrain_def Let_def)
      with released vr steps show ?thesis by simp
    next
      case (Some cr)
      with cat have cr: "view s1 sid = Some cr" "cr_sid cr = sid" "cr_state cr = kDeleting" by auto
      obtain s3 f3 r3 where fin: "FinishCatalogDeletion env now cr (ReleaseSession sid ?s2, f) = ((s3, f3), r3)"
        by (metis surj_pair)
      have st': "st' = s3" using run drained Some fin by (auto simp: CloseDrain_def Let_def)
      have ok2: "catalog_ok env (ReleaseSession sid ?s2)" by (rule lifecycle_invD(1)[OF released])
      from Finish_effect[OF fin laws ok2] cr vr have e3: "cat_effect env sid (ReleaseSession sid ?s2) s3"
        "\<exists>cr. view s3 sid = Some cr \<and> \<not> live_state (cr_state cr)" by (auto split: if_splits)
      have "lifecycle_inv env s3"
        by (rule inv_update[OF released e3(1), where x = None]) (use e3 in \<open>auto simp: cat_effect_def\<close>)
      moreover have "moves sid (view s1) (view s3)" using e3(1) vr by (simp add: cat_effect_def moves_def)
      ultimately show ?thesis using steps st' by (auto intro: moves_trans)
    qed
  qed
qed

lemma CloseSession_body_inv:
  assumes run: "(case ns_sessions st sid of
      None \<Rightarrow>
        (case BeginCatalogDeletion env now sid None '''' st of
           (st', Inl e) \<Rightarrow> ((st', f), Some (Inl e))
         | (st', Inr None) \<Rightarrow> ((st', f), Some (Result_ErrCode NoSuchSession))
         | (st', Inr (Some cr)) \<Rightarrow> map_prod (\<lambda>w. w) Some (FinishCatalogDeletion env now cr (st', f)))
    | Some r \<Rightarrow>
        if TryAcquire r = None then ((st, f), Some (Result_ErrCode OperationInProgress))
        else (case BeginCatalogDeletion env now sid (Some r) (sm_generation_uuid (sr_metadata r)) st of
          (st', Inl e) \<Rightarrow> ((st', f), Some (Inl e))
        | (st', Inr catalogued) \<Rightarrow> CloseDrain env now sid r catalogued (st', f))) = ((st', f'), res)"
    and laws: "env_laws env" "clock_ok now" and inv: "lifecycle_inv env st"
  shows "lifecycle_inv env st' \<and> moves sid (view st) (view st')"
proof (cases "ns_sessions st sid")
  case None
  note ok = lifecycle_invD(1)[OF inv]
  obtain sb rb where b: "BeginCatalogDeletion env now sid None '''' st = (sb, rb)" by fastforce
  obtain s1 where e: "cat_effect env sid st s1" and c: "case rb of Inl e \<Rightarrow> sb = s1 \<and> view s1 = view st
     | Inr None \<Rightarrow> sb = st \<and> s1 = st
     | Inr (Some cr) \<Rightarrow> view s1 sid = Some cr \<and> cr_sid cr = sid \<and> cr_state cr = kDeleting \<and> sb = s1"
    by (rule BeginDeletion_effect[OF b laws ok]) (simp, erule that, auto split: sum.splits option.splits)
  have cover: "\<not> live_state (cr_state cr)" if "\<not> ns_catalog_unavailable st" "view st sid = Some cr" for cr
    using lifecycle_invD(4)[OF inv that] None by auto
  have unl: "ns_catalog_unavailable st \<Longrightarrow> ns_catalog_unavailable s1" using e by (simp add: cat_effect_def)
  have steps: "moves sid (view st) (view s1)" "ns_sessions s1 = ns_sessions st" using e by (simp_all add: cat_effect_def moves_def)
  show ?thesis
  proof (cases "\<exists>cr. rb = Inr (Some cr)")
    case False
    then have "st' = s1" "view s1 = view st" using run None b c by (auto split: sum.splits option.splits)
    moreover have "lifecycle_inv env s1"
      by (rule inv_update[OF inv e, where x = None]) (use None steps cover unl calculation in auto)
    ultimately show ?thesis by simp
  next
    case True
    then obtain cr where rb: "rb = Inr (Some cr)" by blast
    with c have cr: "view s1 (cr_sid cr) = Some cr" "cr_sid cr = sid" "cr_state cr = kDeleting" "sb = s1" by auto
    obtain s3 f3 r3 where fin: "FinishCatalogDeletion env now cr (s1, f) = ((s3, f3), r3)" by (metis surj_pair)
    have st': "st' = s3" using run None b rb cr(4) fin by auto
    have "catalog_ok env s1" using e by (simp add: cat_effect_def)
    from Finish_effect[OF fin laws this cr(1,3)] cr(2,3) have e3: "cat_effect env sid s1 s3"
      "\<exists>cr. view s3 sid = Some cr \<and> \<not> live_state (cr_state cr)" by (auto split: if_splits)
    have "lifecycle_inv env s3"
      by (rule inv_update[OF inv cat_effect_trans[OF e e3(1)], where x = None])
        (use e3 None steps in \<open>auto simp: cat_effect_def\<close>)
    moreover have "moves sid (view s1) (view s3)" using e3(1) by (simp add: cat_effect_def moves_def)
    ultimately show ?thesis using steps st' by (auto intro: moves_trans)
  qed
next
  case (Some r)
  show ?thesis
  proof (cases "TryAcquire r = None")
    case True
    with run Some inv show ?thesis by simp
  next
    case False
    then have act: "sr_phase r = Active" by (simp add: TryAcquire_def split: if_splits)
    note ok = lifecycle_invD(1)[OF inv] and sok = lifecycle_invD(2)[OF inv Some]
    obtain sb rb where b: "BeginCatalogDeletion env now sid (Some r) (sm_generation_uuid (sr_metadata r)) st = (sb, rb)" by fastforce
    obtain s1 where e: "cat_effect env sid st s1" and c: "case rb of Inl e \<Rightarrow> sb = s1 \<and> view s1 = view st
       | Inr None \<Rightarrow> sb = st \<and> s1 = st \<and> (\<forall>r'. Some r = Some r' \<longrightarrow> ns_catalog st = None \<or> \<not> sr_catalogued r' \<or>
           (\<forall>cr. view st sid = Some cr \<longrightarrow> cr_state cr = kDeleted))
       | Inr (Some cr) \<Rightarrow> view s1 sid = Some cr \<and> cr_sid cr = sid \<and> cr_state cr = kDeleting \<and>
           (\<exists>old. view st sid = Some old \<and> cr_generation_uuid cr = cr_generation_uuid old) \<and>
           sb = (case Some r of None \<Rightarrow> s1 | Some r \<Rightarrow> set_session sid (fst (BeginClose r)) s1)"
      by (rule BeginDeletion_effect[OF b laws ok]) (use act in simp, erule (1) that)
    have live: "sr_catalogued r \<Longrightarrow> \<exists>cr. view st sid = Some cr \<and> live_state (cr_state cr)" using sok act by (auto simp: session_ok_def)
    have tbl: "ns_sessions s1 = ns_sessions st" using e by (simp add: cat_effect_def)
    show ?thesis
    proof (cases rb)
      case (Inl err)
      with c have s: "sb = s1" "view s1 = view st" by auto
      have "lifecycle_inv env s1"
      proof (rule inv_update[OF inv e, where x = "Some r"])
        show "\<exists>r'. Some r = Some r' \<and> sr_catalogued r' \<and> sr_phase r' = Active"
          if "\<not> ns_catalog_unavailable s1" "view s1 sid = Some cr" "live_state (cr_state cr)" for cr
          using that sok act s(2) by (auto simp: session_ok_def split: if_splits)
      qed (use Some tbl s sok in auto)
      with run Some False b Inl s show ?thesis by auto
    next
      case (Inr catalogued)
      have un: "catalogued = None \<Longrightarrow> \<not> sr_catalogued r" using c Inr live ok by (auto simp: view_def NodeFind_def)
      have ca: "sr_catalogued r" if "catalogued = Some cr" for cr
      proof (rule ccontr)
        assume "\<not> sr_catalogued r"
        then have "rb = Result_Ok None" using b by (simp add: BeginCatalogDeletion_def Let_def)
        with Inr that show False by (simp add: Result_Ok_def)
      qed
      have d: "CloseDrain env now sid r catalogued (sb, f) = ((st', f'), res)" using run Some False b Inr by simp
      show ?thesis
        by (rule CloseDrain_inv[OF d laws inv Some act e])
          (use c Inr tbl un ca in \<open>auto split: option.splits\<close>)
    qed
  qed
qed

lemma CloseSession_inv:
  assumes "CloseSession env now sid (st, f) = ((st', f'), res)" "env_laws env" "clock_ok now" "lifecycle_inv env st"
  shows "lifecycle_inv env st' \<and> moves sid (view st) (view st')"
proof (rule leased_inv[OF assms(1)[unfolded CloseSession_def] assms(4)])
  fix s s1 f1 r1
  assume "lifecycle_inv env s" and body: "(\<lambda>(st, f). if ns_catalog_mode st \<and> ns_catalog_unavailable st then ((st, f), Some CatalogDown)
    else (case ns_sessions st sid of
      None \<Rightarrow>
        (case BeginCatalogDeletion env now sid None '''' st of
           (st', Inl e) \<Rightarrow> ((st', f), Some (Inl e))
         | (st', Inr None) \<Rightarrow> ((st', f), Some (Result_ErrCode NoSuchSession))
         | (st', Inr (Some cr)) \<Rightarrow> map_prod (\<lambda>w. w) Some (FinishCatalogDeletion env now cr (st', f)))
    | Some r \<Rightarrow>
        if TryAcquire r = None then ((st, f), Some (Result_ErrCode OperationInProgress))
        else (case BeginCatalogDeletion env now sid (Some r) (sm_generation_uuid (sr_metadata r)) st of
          (st', Inl e) \<Rightarrow> ((st', f), Some (Inl e))
        | (st', Inr catalogued) \<Rightarrow> CloseDrain env now sid r catalogued (st', f)))) (s, f) = ((s1, f1), r1)"
  then show "lifecycle_inv env s1 \<and> moves sid (view s) (view s1)"
    using CloseSession_body_inv[OF _ assms(2,3)] by (cases "ns_catalog_mode s \<and> ns_catalog_unavailable s") (simp_all only: prod.case if_True if_False, auto)
qed

end
