(* ===== verification/NodeReconcile.thy ===== *)
theory NodeReconcile
  imports NodeLifecycleProps
begin

text \<open>
  The reconciliation of the durable catalog at start, \<open>ReconcileCatalog\<close> of
  \<open>src/storage_node.cpp\<close>: what \<open>Start\<close> establishes, and that every sequence of session life
  cycle calls after it keeps the table and the catalog in agreement.
\<close>

section \<open>The invariant of the loop\<close>

text \<open>\<open>todo\<close> are the names the loop has not reached yet.  A record it has passed is neither active
  nor deleting, and has its session when it is live.\<close>

definition reconcile_inv :: "('e, 'd, 'f) NodeEnv \<Rightarrow> string set \<Rightarrow> ('e, 'd) NodeState \<Rightarrow> bool" where
  "reconcile_inv env todo st \<longleftrightarrow> catalog_ok env st \<and>
     (\<forall>sid r. ns_sessions st sid = Some r \<longrightarrow> session_ok (view st) sid r \<and> sid \<notin> todo) \<and>
     (ns_catalog st \<noteq> None \<longrightarrow> ns_catalog_mode st \<and> IsCanonicalUuid (ns_instance_id st)) \<and>
     (\<not> ns_catalog_unavailable st \<longrightarrow> (\<forall>sid cr. view st sid = Some cr \<longrightarrow> sid \<notin> todo \<longrightarrow>
        cr_state cr \<notin> {kActive, kDeleting} \<and>
        (live_state (cr_state cr) \<longrightarrow> (\<exists>r. ns_sessions st sid = Some r \<and> sr_catalogued r \<and> sr_phase r = Active))))"

lemma reconcile_inv_done: "reconcile_inv env {} st \<Longrightarrow> lifecycle_inv env st"
  by (auto simp: reconcile_inv_def lifecycle_inv_def)

lemma reconcile_inv_latched: "reconcile_inv env todo st \<Longrightarrow> ns_catalog_unavailable st \<Longrightarrow> reconcile_inv env {} st"
  by (auto simp: reconcile_inv_def)

lemma reconcile_update:
  assumes inv: "reconcile_inv env (insert key todo) st" and new: "key \<notin> todo" and eff: "cat_effect env key st st1"
    and st2: "st2 = st1 \<and> x = None \<or> (\<exists>r. x = Some r \<and> st2 = set_session key r st1)"
    and session: "\<And>r. x = Some r \<Longrightarrow> session_ok (view st1) key r"
    and cover: "\<And>cr. \<not> ns_catalog_unavailable st1 \<Longrightarrow> view st1 key = Some cr \<Longrightarrow> cr_state cr \<notin> {kActive, kDeleting} \<and>
      (live_state (cr_state cr) \<longrightarrow> (\<exists>r. x = Some r \<and> sr_catalogued r \<and> sr_phase r = Active))"
  shows "reconcile_inv env todo st2"
proof -
  note e = eff[unfolded cat_effect_def]
  have table: "ns_sessions st2 = (ns_sessions st)(key := x)"
  proof -
    have "key \<in> insert key todo" by simp
    then have "ns_sessions st key = None" using inv unfolding reconcile_inv_def by (metis option.exhaust)
    then have "(ns_sessions st)(key := None) = ns_sessions st" by (rule fun_upd_idem)
    with st2 e show ?thesis by auto
  qed
  have v: "view st2 = view st1" and fr: "ns_catalog st2 = ns_catalog st1" "ns_catalog_mode st2 = ns_catalog_mode st1"
    "ns_instance_id st2 = ns_instance_id st1" "ns_catalog_unavailable st2 = ns_catalog_unavailable st1"
    using st2 by auto
  have other: "view st1 s = view st s" if "s \<noteq> key" for s using e that by blast
  have "session_ok (view st2) s r \<and> s \<notin> todo" if "ns_sessions st2 s = Some r" for s r
    using that session new inv other[of s] session_ok_cong[of "view st1" s "view st" r]
    by (cases "s = key") (auto simp: v table reconcile_inv_def)
  moreover have "catalog_ok env st2" using e fr(1) by (simp add: catalog_ok_def)
  moreover have "ns_catalog st2 \<noteq> None \<Longrightarrow> ns_catalog_mode st2 \<and> IsCanonicalUuid (ns_instance_id st2)"
    using e fr inv by (auto simp: reconcile_inv_def)
  moreover have "cr_state cr \<notin> {kActive, kDeleting} \<and>
      (live_state (cr_state cr) \<longrightarrow> (\<exists>r. ns_sessions st2 s = Some r \<and> sr_catalogued r \<and> sr_phase r = Active))"
    if "\<not> ns_catalog_unavailable st2" "view st2 s = Some cr" "s \<notin> todo" for s cr
  proof (cases "s = key")
    case True
    with cover that show ?thesis by (simp add: v table fr)
  next
    case False
    have un: "\<not> ns_catalog_unavailable st" using that(1) e fr(4) by blast
    have vs: "view st s = Some cr" "s \<notin> insert key todo" using that(2,3) other[OF False] False v by auto
    have "ns_sessions st2 s = ns_sessions st s" using False table by simp
    with inv un vs show ?thesis unfolding reconcile_inv_def by (metis (no_types, lifting))
  qed
  ultimately show ?thesis unfolding reconcile_inv_def by blast
qed

section \<open>One record\<close>

lemma OpenReconciled_effect:
  assumes "OpenReconciledStore env r create (st, f) = ((st', f'), store)" "catalog_ok env st"
  shows "cat_effect env key st st' \<and> view st' = view st \<and> (if store = None then ns_catalog_unavailable st' else st' = st)"
proof -
  have "st' = (if store = None then LatchCatalogUnavailable
      (EmitDiagnostics [(kError, ''retained durable store could not be reopened'')] st) else st)"
    using assms(1) by (auto simp: OpenReconciledStore_def Let_def split: if_splits prod.splits sum.splits)
  with assms(2) show ?thesis by (auto intro: cat_effect_latch cat_effect_emit cat_effect_refl)
qed

lemma installed_session:
  assumes "m (cr_sid r) = Some r" "cr_state r = kRetained \<or> cr_state r = kOrphaned"
  obtains s where "InstallReconciledSession r store st = set_session (cr_sid r) s st" "session_ok m (cr_sid r) s"
    "sr_catalogued s" "sr_phase s = Active" "sr_lifecycle s = cr_state r" "sr_durable_buffers s = Some store"
proof (rule that)
  let ?s = "fst (SessionActivate (NewSessionRecord\<lparr>
        sr_generation_uuid := (case ParseFenceUuid (cr_generation_uuid r) of Some u \<Rightarrow> u | None \<Rightarrow> replicate 16 0),
        sr_options := \<lparr>so_durable_buffers = True, so_ephemeral_buffers = False\<rparr>,
        sr_metadata := \<lparr>sm_created_at = cr_created_at r, sm_generation_uuid = cr_generation_uuid r\<rparr>,
        sr_lifecycle := cr_state r, sr_catalogued := True, sr_reconciled := True,
        sr_durable_buffers := Some store\<rparr>))"
  show "InstallReconciledSession r store st = set_session (cr_sid r) ?s st"
    by (simp add: InstallReconciledSession_def Let_def)
  show "session_ok m (cr_sid r) ?s"
    using assms by (auto simp: session_ok_def SessionActivate_def NewSessionRecord_def live_state_def)
  show "sr_catalogued ?s" "sr_phase ?s = Active" "sr_lifecycle ?s = cr_state r" "sr_durable_buffers ?s = Some store"
    by (simp_all add: SessionActivate_def NewSessionRecord_def)
qed

lemma install_step:
  assumes inv: "reconcile_inv env (insert (cr_sid r) todo) st" "cr_sid r \<notin> todo" and eff: "cat_effect env (cr_sid r) st st1"
    and r: "view st1 (cr_sid r) = Some r" "cr_state r = kRetained \<or> cr_state r = kOrphaned"
  shows "reconcile_inv env todo (InstallReconciledSession r store st1) \<and> view (InstallReconciledSession r store st1) = view st1"
proof -
  obtain s where s: "InstallReconciledSession r store st1 = set_session (cr_sid r) s st1" "session_ok (view st1) (cr_sid r) s"
    "sr_catalogued s" "sr_phase s = Active" by (rule installed_session[where m = "view st1", OF r])
  have "reconcile_inv env todo (set_session (cr_sid r) s st1)"
    by (rule reconcile_update[OF inv eff, where x = "Some s"]) (use s r in auto)
  with s(1) show ?thesis by simp
qed

lemma ReconcileRecord_step:
  assumes run: "ReconcileRecord env now r (st, f) = ((st', f'), go)" and laws: "env_laws env" "clock_ok now"
    and inv: "reconcile_inv env (insert (cr_sid r) todo) st" "cr_sid r \<notin> todo" and v: "view st (cr_sid r) = Some r"
  shows "reconcile_inv env todo st' \<and> (\<forall>s. s \<noteq> cr_sid r \<longrightarrow> view st' s = view st s) \<and>
    catalog_step\<^sup>*\<^sup>* (view st) (view st') \<and> (go \<or> ns_catalog_unavailable st')"
proof -
  have ok: "catalog_ok env st" using inv(1) by (simp add: reconcile_inv_def)
  have skip: "reconcile_inv env todo s1" if "cat_effect env (cr_sid r) st s1"
    "ns_catalog_unavailable s1 \<or> (\<forall>cr. view s1 (cr_sid r) = Some cr \<longrightarrow> \<not> live_state (cr_state cr) \<and> cr_state cr \<noteq> kDeleting)" for s1
    by (rule reconcile_update[OF inv that(1), where x = None]) (use that(2) in \<open>auto simp: live_state_def\<close>)
  have res: ?thesis if "cat_effect env (cr_sid r) st s1" "view st' = view s1" "reconcile_inv env todo st'" "go \<or> ns_catalog_unavailable st'" for s1
    using that by (auto simp: cat_effect_def)
  consider (latched) "ns_catalog_unavailable st" | (active) "\<not> ns_catalog_unavailable st" "cr_state r = kActive"
    | (kept) "\<not> ns_catalog_unavailable st" "cr_state r = kRetained \<or> cr_state r = kOrphaned"
    | (deleting) "\<not> ns_catalog_unavailable st" "cr_state r = kDeleting"
    | (gone) "\<not> ns_catalog_unavailable st" "cr_state r = kDeleted \<or> cr_state r = kDeleteFailed"
    by (cases "cr_state r") auto
  then show ?thesis
  proof cases
    case latched
    with run have "st' = st" by (simp add: ReconcileRecord_def)
    then show ?thesis using res[OF cat_effect_refl[OF ok]] skip[OF cat_effect_refl[OF ok]] latched by simp
  next
    case gone
    with run have "st' = st" "go" by (auto simp: ReconcileRecord_def)
    then show ?thesis using res[OF cat_effect_refl[OF ok]] skip[OF cat_effect_refl[OF ok]] v gone by auto
  next
    case deleting
    obtain s1 f1 res1 where fin: "FinishCatalogDeletion env now r (st, f) = ((s1, f1), res1)" by (metis surj_pair)
    note e = Finish_effect[OF fin laws ok v deleting(2)]
    have "st' = s1" "go" using run deleting fin by (auto simp: ReconcileRecord_def)
    moreover have "reconcile_inv env todo s1" using e by (intro skip) (auto split: if_splits)
    ultimately show ?thesis using res[of s1] e by simp
  next
    case kept
    obtain s1 f1 store where op: "OpenReconciledStore env r False (st, f) = ((s1, f1), store)" by (metis surj_pair)
    note e = OpenReconciled_effect[OF op ok, of "cr_sid r"]
    show ?thesis
    proof (cases store)
      case None
      with run kept op have "st' = s1" by (auto simp: ReconcileRecord_def)
      with e None skip[of s1] show ?thesis using res[of s1] by simp
    next
      case (Some x)
      with e have s1: "s1 = st" by simp
      have "st' = InstallReconciledSession r x s1" "go" using run kept op Some by (auto simp: ReconcileRecord_def)
      with install_step[OF inv, of s1 x] e v kept s1 show ?thesis using res[of s1] by simp
    qed
  next
    case active
    obtain s1 f1 store where op: "OpenReconciledStore env r True (st, f) = ((s1, f1), store)" by (metis surj_pair)
    note e = OpenReconciled_effect[OF op ok, of "cr_sid r"]
    show ?thesis
    proof (cases store)
      case None
      with run active op have "st' = s1" by (auto simp: ReconcileRecord_def)
      with e None skip[of s1] show ?thesis using res[of s1] by simp
    next
      case (Some x)
      with e have s1: "s1 = st" by simp
      let ?r = "r\<lparr>cr_state := kOrphaned, cr_orphaned_at := now (cr_sid r) ''orphaned_at''\<rparr>"
      have "lifecycle_next r ?r" using laws(2) active(2) by (intro lifecycle_next.orphan) (auto simp: clock_ok_def)
      note step = lifecycle_step_view[OF ok v this]
      obtain s2 w where wr: "WriteCatalogRecord env ?r st = (s2, w)" by fastforce
      have e2: "cat_effect env (cr_sid r) st s2 \<and> (if IsOk w then view s2 = (view st)(cr_sid r \<mapsto> ?r) \<and>
          ns_catalog_unavailable s2 = ns_catalog_unavailable st else view s2 = view st \<and> ns_catalog_unavailable s2)"
        using Write_cat_effect[OF wr _ ok] step laws(1) by (auto simp: env_laws_def)
      show ?thesis
      proof (cases "IsOk w")
        case False
        with run active op Some s1 wr have "st' = s2" by (auto simp: ReconcileRecord_def Let_def IsOk_def split: sum.splits)
        with e2 False skip[of s2] show ?thesis using res[of s2] by simp
      next
        case True
        with run active op Some s1 wr have st': "st' = InstallReconciledSession ?r x s2" "go"
          by (auto simp: ReconcileRecord_def Let_def IsOk_def split: sum.splits)
        have "reconcile_inv env todo st' \<and> view st' = view s2"
          unfolding st'(1) by (rule install_step[of _ ?r _ st]) (use inv e2 True in simp_all)
        with st' e2 show ?thesis using res[of s2] by simp
      qed
    qed
  qed
qed

section \<open>The loop\<close>

lemma ReconcileLoop_inv:
  assumes "env_laws env" "clock_ok now" "reconcile_inv env (cr_sid ` set rs) st" "distinct (map cr_sid rs)"
    "\<forall>r\<in>set rs. view st (cr_sid r) = Some r" "ReconcileLoop env now rs (st, f) = (st', f')"
  shows "reconcile_inv env {} st' \<and> catalog_step\<^sup>*\<^sup>* (view st) (view st')"
  using assms(3-6)
proof (induction rs arbitrary: st f)
  case (Cons r rs)
  obtain s1 f1 go where one: "ReconcileRecord env now r (st, f) = ((s1, f1), go)" by (metis surj_pair)
  have step: "reconcile_inv env (cr_sid ` set rs) s1 \<and> (\<forall>s. s \<noteq> cr_sid r \<longrightarrow> view s1 s = view st s) \<and>
      catalog_step\<^sup>*\<^sup>* (view st) (view s1) \<and> (go \<or> ns_catalog_unavailable s1)"
    by (rule ReconcileRecord_step[OF one assms(1,2)]) (use Cons.prems in auto)
  show ?case
  proof (cases go)
    case False
    with Cons.prems one have "st' = s1" by simp
    with step False reconcile_inv_latched show ?thesis by blast
  next
    case True
    with Cons.prems one have rest: "ReconcileLoop env now rs (s1, f1) = (st', f')" by simp
    have "\<forall>r'\<in>set rs. view s1 (cr_sid r') = Some r'" using Cons.prems step by (metis distinct.simps(2) image_eqI list.set_intros(2) list.set_map list.simps(9))
    with Cons.IH[OF _ _ _ rest] step Cons.prems(2)
    have "reconcile_inv env {} st' \<and> catalog_step\<^sup>*\<^sup>* (view s1) (view st')" by simp
    with step show ?thesis by (meson rtranclp_trans)
  qed
qed simp


section \<open>Starting a node\<close>

lemma CatalogRecords_view:
  assumes "catalog_inv env c"
  shows "distinct (map cr_sid (CatalogRecords c))"
    "\<forall>r\<in>set (CatalogRecords c). CatalogFind (cr_sid r) c = Some r"
    "CatalogFind sid c = Some cr \<Longrightarrow> sid \<in> cr_sid ` set (CatalogRecords c)"
proof -
  note st = LoadEntries_status and iff = LoadEntries_iff
  have load: "LoadEntries (env_scan env (ci_db c)) = Inr (ci_records c)" and mw: "map_wf (fst (env_scan env (ci_db c)))"
    using assms by (auto simp: catalog_inv_def)
  have "LoadEntries (fst (env_scan env (ci_db c)), True) = Inr (ci_records c)" using load st[OF load] by metis
  then have "map_wf (ci_records c)" unfolding iff[OF mw] by blast
  then have d: "distinct (map fst (ci_records c))" by (rule map_wf_distinct)
  have keys: "cr_sid r = k" if "(k, r) \<in> set (ci_records c)" for k r
    using catalog_inv_records[OF assms, of k r] that d by (simp add: CatalogFind_def)
  then have "map cr_sid (CatalogRecords c) = map fst (ci_records c)" by (auto simp: CatalogRecords_def)
  with d show "distinct (map cr_sid (CatalogRecords c))" by simp
  show "\<forall>r\<in>set (CatalogRecords c). CatalogFind (cr_sid r) c = Some r"
    using keys d by (auto simp: CatalogRecords_def CatalogFind_def)
  show "CatalogFind sid c = Some cr \<Longrightarrow> sid \<in> cr_sid ` set (CatalogRecords c)"
    using keys by (force simp: CatalogRecords_def CatalogFind_def dest: map_of_SomeD)
qed

lemma ReconcileCatalog_inv:
  assumes laws: "env_laws env" "clock_ok now" and run: "ReconcileCatalog env now (st, f) = (st', f')"
    and st: "ns_catalog st = Some c" "catalog_inv (ne_catalog env) c" "ns_sessions st = Map.empty"
      "ns_catalog_mode st" "IsCanonicalUuid (ns_instance_id st)"
  shows "reconcile_inv env {} st' \<and> catalog_step\<^sup>*\<^sup>* (\<lambda>sid. CatalogFind sid c) (view st')"
proof -
  define s0 where "s0 = fst (ReportUnknownSessionEntries env (CatalogRecords c) (st, f))"
  have s0: "ns_catalog s0 = Some c" "ns_sessions s0 = Map.empty" "ns_catalog_mode s0" "IsCanonicalUuid (ns_instance_id s0)"
    using st by (simp_all add: s0_def ReportUnknownSessionEntries_def)
  have v: "view s0 = (\<lambda>sid. CatalogFind sid c)" using s0(1) by (simp add: view_def NodeFind_def)
  have loop: "ReconcileLoop env now (CatalogRecords c) (s0, f) = (st', f')"
    using run st(1) by (simp add: ReconcileCatalog_def s0_def ReportUnknownSessionEntries_def Let_def)
  have "reconcile_inv env (cr_sid ` set (CatalogRecords c)) s0"
    using s0 st(2) CatalogRecords_view(3)[OF st(2)] by (auto simp: reconcile_inv_def catalog_ok_def v)
  from ReconcileLoop_inv[OF laws this CatalogRecords_view(1)[OF st(2)] _ loop] CatalogRecords_view(2)[OF st(2)]
  show ?thesis by (simp add: v)
qed

lemma Start_inv:
  assumes laws: "env_laws env" "clock_ok now" and uuid: "fence_uuid_wf instance_uuid"
    and run: "Start env now instance_uuid dispatcher config (None, f) = ((Some st, f'), Inr u)"
  shows "reconcile_inv env {} st \<and> ns_accepting st \<and>
    (\<forall>c. CatalogOpen (ne_catalog env) (FormatFenceUuid instance_uuid) (now '''' ''started_at'') = Inr c \<longrightarrow>
      sc_durable_root config \<noteq> None \<longrightarrow> catalog_step\<^sup>*\<^sup>* (\<lambda>sid. CatalogFind sid c) (view st))"
proof -
  from run obtain engine s0 u' where s0:
    "OpenCatalog env now (FormatFenceUuid instance_uuid) (sc_durable_root config)
       (NewNodeState engine (sc_prefix config) dispatcher, f) = ((s0, f'), Inr u')" "st = NodeActivate s0"
    by (auto simp: Start_def split: option.splits if_splits sum.splits prod.splits)
  let ?new = "NewNodeState engine (sc_prefix config) dispatcher :: ('a, 'b) NodeState"
  have new: "ns_sessions ?new = Map.empty" "ns_catalog ?new = None" by (simp_all add: NewNodeState_def)
  have frame: "view (NodeActivate s) = view s" "ns_sessions (NodeActivate s) = ns_sessions s" "ns_catalog (NodeActivate s) = ns_catalog s"
    "ns_catalog_mode (NodeActivate s) = ns_catalog_mode s" "ns_instance_id (NodeActivate s) = ns_instance_id s"
    "ns_catalog_unavailable (NodeActivate s) = ns_catalog_unavailable s" "ns_accepting (NodeActivate s)" for s :: "('a, 'b) NodeState"
    by (simp_all add: NodeActivate_def view_def NodeFind_def)
  have act: "reconcile_inv env {} s \<Longrightarrow> reconcile_inv env {} (NodeActivate s)" for s
    unfolding reconcile_inv_def frame catalog_ok_def .
  have empty: "reconcile_inv env {} s" if "ns_sessions s = Map.empty" "ns_catalog s = None" for s
    using that by (simp add: reconcile_inv_def catalog_ok_def view_def NodeFind_def)
  show ?thesis
  proof (cases "sc_durable_root config")
    case None
    with s0 new empty[of ?new] act frame show ?thesis by (simp add: OpenCatalog_def)
  next
    case (Some root)
    let ?i = "FormatFenceUuid instance_uuid" and ?t = "now '''' ''started_at''"
    show ?thesis
    proof (cases "CatalogOpen (ne_catalog env) ?i ?t")
      case (Inl e)
      with s0 Some have "s0 = LatchCatalogUnavailable (?new\<lparr>ns_catalog_mode := True, ns_instance_id := ?i\<rparr>)"
        by (auto simp: OpenCatalog_def Let_def split: if_splits)
      with s0(2) new Inl empty[of s0] act frame show ?thesis by simp
    next
      case (Inr c)
      have ci: "IsCanonicalUuid ?i" by (rule uuid_text_canonical[OF uuid])
      have cinv: "catalog_inv (ne_catalog env) c"
        by (rule CatalogOpen_inv[OF _ ci _ Inr]) (use laws in \<open>simp_all add: env_laws_def clock_ok_def\<close>)
      have rec: "ReconcileCatalog env now (?new\<lparr>ns_catalog_mode := True, ns_instance_id := ?i, ns_catalog := Some c\<rparr>, f) = (s0, f')"
        using s0(1) Some Inr by (simp add: OpenCatalog_def Let_def)
      have "reconcile_inv env {} s0 \<and> catalog_step\<^sup>*\<^sup>* (\<lambda>sid. CatalogFind sid c) (view s0)"
        by (rule ReconcileCatalog_inv[OF laws rec _ cinv]) (use new ci in simp_all)
      with s0(2) act frame Inr show ?thesis by simp
    qed
  qed
qed

section \<open>Sequences of calls\<close>

text \<open>The calls of a host, each with the clock it reads.\<close>

datatype NodeOp =
    OpCreate FenceUuid "nat \<times> nat" string SessionOptions
  | OpRetain string
  | OpClose string

definition NodeCall :: "('e, 'd, 'f) NodeEnv \<Rightarrow> Clock \<times> NodeOp \<Rightarrow> ('e, 'd, 'f) World \<Rightarrow> ('e, 'd, 'f) World" where
  "NodeCall env call w = (case snd call of
     OpCreate generation regs sid options \<Rightarrow> fst (CreateSession env (fst call) generation regs sid options w)
   | OpRetain sid \<Rightarrow> fst (RetainSession env (fst call) sid w)
   | OpClose sid \<Rightarrow> fst (CloseSession env (fst call) sid w))"

definition NodeRun :: "('e, 'd, 'f) NodeEnv \<Rightarrow> (Clock \<times> NodeOp) list \<Rightarrow> ('e, 'd, 'f) World \<Rightarrow> ('e, 'd, 'f) World" where
  "NodeRun env calls w = fold (NodeCall env) calls w"

definition call_ok :: "Clock \<times> NodeOp \<Rightarrow> bool" where
  "call_ok call \<longleftrightarrow> clock_ok (fst call) \<and>
     (case snd call of OpCreate generation _ _ _ \<Rightarrow> fence_uuid_wf generation | _ \<Rightarrow> True)"

definition op_sid :: "NodeOp \<Rightarrow> string" where
  "op_sid op = (case op of OpCreate _ _ sid _ \<Rightarrow> sid | OpRetain sid \<Rightarrow> sid | OpClose sid \<Rightarrow> sid)"

lemma NodeCall_inv:
  assumes "NodeCall env call (st, f) = (st', f')" "env_laws env" "call_ok call" "lifecycle_inv env st"
  shows "lifecycle_inv env st' \<and> moves (op_sid (snd call)) (view st) (view st')"
proof (cases "snd call")
  case (OpCreate generation regs sid options)
  then obtain r where "CreateSession env (fst call) generation regs sid options (st, f) = ((st', f'), r)"
    using assms(1) by (metis NodeCall_def NodeOp.simps(10) prod.collapse)
  from CreateSession_inv[OF this assms(2) _ assms(4)] assms(3) OpCreate show ?thesis by (simp add: call_ok_def op_sid_def)
next
  case (OpRetain sid)
  then obtain r where "RetainSession env (fst call) sid (st, f) = ((st', f'), r)"
    using assms(1) by (metis NodeCall_def NodeOp.simps(11) prod.collapse)
  from RetainSession_inv[OF this assms(2) _ assms(4)] assms(3) OpRetain show ?thesis by (simp add: call_ok_def op_sid_def)
next
  case (OpClose sid)
  then obtain r where "CloseSession env (fst call) sid (st, f) = ((st', f'), r)"
    using assms(1) by (metis NodeCall_def NodeOp.simps(12) prod.collapse)
  from CloseSession_inv[OF this assms(2) _ assms(4)] assms(3) OpClose show ?thesis by (simp add: call_ok_def op_sid_def)
qed

lemma NodeRun_Cons: "NodeRun env (call # calls) w = NodeRun env calls (NodeCall env call w)"
  by (simp add: NodeRun_def)

lemma NodeRun_inv:
  "NodeRun env calls (st, f) = (st', f') \<Longrightarrow> env_laws env \<Longrightarrow> \<forall>call\<in>set calls. call_ok call \<Longrightarrow> lifecycle_inv env st \<Longrightarrow>
     lifecycle_inv env st' \<and> catalog_step\<^sup>*\<^sup>* (view st) (view st')"
proof (induction calls arbitrary: st f)
  case (Cons call calls)
  obtain s1 f1 where one: "NodeCall env call (st, f) = (s1, f1)" by fastforce
  from NodeCall_inv[OF one Cons.prems(2) _ Cons.prems(4)] Cons.prems(3)
  have s1: "lifecycle_inv env s1" "catalog_step\<^sup>*\<^sup>* (view st) (view s1)" by (auto simp: moves_def)
  have rest: "NodeRun env calls (s1, f1) = (st', f')" using Cons.prems(1) one by (simp add: NodeRun_Cons)
  from Cons.IH[OF rest Cons.prems(2) _ s1(1)] Cons.prems(3) s1(2) show ?case by auto
qed (simp add: NodeRun_def)


section \<open>Retention and closing\<close>

lemma leased_cases:
  assumes "leased (st, f) refused body = ((st', f'), r)"
  obtains "Enter st = None" "st' = st" "r = refused"
  | s s1 where "Enter st = Some s" "body (s, f) = ((s1, f'), r)" "st' = Leave s1"
proof (cases "Enter st")
  case None
  with assms have "st' = st" "r = refused" by (simp_all add: leased_def)
  with None show thesis by (rule that(1))
next
  case (Some s)
  obtain s1 f1 r1 where b: "body (s, f) = ((s1, f1), r1)" by (metis surj_pair)
  with assms Some have "st' = Leave s1" "f1 = f'" "r1 = r" by (simp_all add: leased_def)
  with b have "body (s, f) = ((s1, f'), r)" "st' = Leave s1" by simp_all
  then show thesis by (rule that(2)[OF Some])
qed

lemma view_Leave [simp]: "view (Leave st) = view st"
  by (rule view_cong) simp

lemma Enter_inv:
  assumes "Enter st = Some s" "lifecycle_inv env st"
  shows "lifecycle_inv env s"
  by (rule inv_frame[OF assms(2)]) (simp_all add: Enter_frames[OF assms(1)])

definition retained_in :: "('e, 'd) NodeState \<Rightarrow> string \<Rightarrow> SessionCatalogRecord \<Rightarrow> bool" where
  "retained_in st sid cr \<longleftrightarrow> view st sid = Some cr \<and> cr_state cr = kRetained"

lemma RetainAdmitted_ok:
  assumes run: "RetainAdmitted env now sid r st = (st', Some (Inr x))" and inv: "lifecycle_inv env st"
    and rec: "ns_sessions st sid = Some r" "sr_catalogued r" "sr_phase r = Active"
  shows "\<exists>cr. retained_in st' sid cr \<and> (retained_in st sid cr \<or> (\<exists>e e' u r'. sr_durable_buffers r = Some e \<and>
    eng_sync (ne_ops env) e = (e', Some (Inr u)) \<and> ns_sessions st' sid = Some r' \<and> sr_durable_buffers r' = Some e'))"
proof (cases "sr_lifecycle r = kRetained")
  case True
  moreover have "\<exists>cr. view st sid = Some cr \<and> cr_state cr = sr_lifecycle r"
    using lifecycle_invD(2)[OF inv rec(1)] rec by (auto simp: session_ok_def)
  ultimately show ?thesis using run by (auto simp: RetainAdmitted_def retained_in_def)
next
  case False
  with run obtain cr e e' u s1 where put: "NodeFind sid st = Some cr" "sr_durable_buffers r = Some e"
      "eng_sync (ne_ops env) e = (e', Some (Inr u))"
      "TryPutCatalogRecord env (cr\<lparr>cr_state := kRetained, cr_retained_at := now sid ''retained_at''\<rparr>) st = (s1, True)"
      "st' = set_session sid (r\<lparr>sr_durable_buffers := Some e', sr_lifecycle := kRetained, sr_snapshot := None,
         sr_overlay := None, sr_liveliness_token := None\<rparr>) s1"
    by (auto simp: RetainAdmitted_def CatalogDown_def Result_Err_def split: if_splits option.splits sum.splits prod.splits bool.splits)
  have "cr_sid cr = sid" using view_records[OF lifecycle_invD(1)[OF inv], of sid cr] put(1) by (simp add: view_def)
  with TryPut_effect(1)[OF put(4)] put show ?thesis by (auto simp: retained_in_def)
qed

lemma RetainSession_ok:
  assumes run: "RetainSession env now sid (st, f) = ((st', f'), Some (Inr x))" and inv: "lifecycle_inv env st"
  shows "\<exists>cr. retained_in st' sid cr \<and> (retained_in st sid cr \<or> (\<exists>r e e' u r'. ns_sessions st sid = Some r \<and>
    sr_durable_buffers r = Some e \<and> eng_sync (ne_ops env) e = (e', Some (Inr u)) \<and>
    ns_sessions st' sid = Some r' \<and> sr_durable_buffers r' = Some e'))"
proof (cases "IsValidSessionId sid")
  case False
  with run show ?thesis by (simp add: RetainSession_def Result_ErrCode_def)
next
  case True
  show ?thesis
  proof (rule leased_cases[OF run[unfolded RetainSession_def if_not_P[OF iffD2[OF not_not True]]]])
    assume "Some (Inr x) = Some (Result_ErrCode InvalidArgumentCode :: SessionLifecycleState Result)"
    then show ?thesis by (simp add: Result_ErrCode_def)
  next
    fix s s1 assume enter: "Enter st = Some s" and st': "st' = Leave s1"
      and body: "(\<lambda>(st, f). if \<not> ns_catalog_mode st
       then ((st, f), Some (Err InvalidArgument ''RetainSession requires a durable_root catalog''))
       else if ns_catalog_unavailable st then ((st, f), Some CatalogDown)
       else (case ns_sessions st sid of
         None \<Rightarrow>
           (case NodeFind sid st of
              None \<Rightarrow> ((st, f), Some (Err NotFound ''session not found''))
            | Some catalogued \<Rightarrow>
                if cr_state catalogued = kDeleted then ((st, f), Some (Err NotFound ''session not found''))
                else ((st, f), Some (Err InvalidArgument ''session cannot be retained in its current state'')))
       | Some r \<Rightarrow>
           if TryAcquire r = None then ((st, f), Some (Err InvalidArgument ''session is closing''))
           else if \<not> sr_catalogued r
           then ((st, f), Some (Err InvalidArgument ''only a durable-route session can be retained''))
           else (case RetainAdmitted env now sid r st of (st', result) \<Rightarrow> ((st', f), result)))) (s, f) = ((s1, f'), Some (Inr x))"
    note fr = Enter_frames[OF enter]
    obtain r where r: "ns_sessions s sid = Some r" "sr_catalogued r" "sr_phase r = Active"
      "RetainAdmitted env now sid r s = (s1, Some (Inr x))"
      using body by (auto simp: TryAcquire_def CatalogDown_def Result_Err_def split: if_splits option.splits prod.splits)
    from RetainAdmitted_ok[OF r(4) Enter_inv[OF enter inv] r(1-3)] r(1) fr st' show ?thesis
      by (auto simp: retained_in_def)
  qed
qed

text \<open>Only a close of its name touches a retained record.\<close>

lemma Create_refused:
  assumes "view st sid = Some cr" "cr_state cr \<noteq> kDeleted" "CreateSession env now generation regs sid options (st, f) = ((st', f'), r)"
  shows "view st' = view st"
proof (cases "IsValidSessionId sid \<and> Enter st \<noteq> None")
  case False
  with assms(3) show ?thesis by (auto simp: CreateSession_def leased_def split: if_splits)
next
  case True
  then obtain s where enter: "Enter st = Some s" by blast
  note fr = Enter_frames[OF enter]
  have "SidTaken sid (RegisterSession regs s) \<noteq> None"
    using assms(1,2) fr(6) by (auto simp: SidTaken_None sid_free_def)
  then obtain code where "SidTaken sid (RegisterSession regs s) = Some code" by blast
  with True enter assms(3) fr(6) show ?thesis
    by (auto simp: CreateSession_def leased_def CreateSessionAdmitted_def Let_def split: if_splits)
qed

lemma Retain_retained:
  assumes "retained_in st sid cr" "lifecycle_inv env st" "RetainSession env now sid (st, f) = ((st', f'), r)"
  shows "view st' = view st"
proof (cases "IsValidSessionId sid \<and> Enter st \<noteq> None")
  case False
  with assms(3) show ?thesis by (auto simp: RetainSession_def leased_def split: if_splits)
next
  case True
  then obtain s where enter: "Enter st = Some s" by blast
  note fr = Enter_frames[OF enter]
  have "sr_lifecycle r = kRetained" if "ns_sessions s sid = Some r" "TryAcquire r \<noteq> None" "sr_catalogued r" for r
    using lifecycle_invD(2)[OF assms(2), of sid r] that assms(1) fr(2)
    by (auto simp: session_ok_def retained_in_def TryAcquire_def split: if_splits)
  with True enter assms(3) fr(6) show ?thesis
    by (auto simp: RetainSession_def leased_def RetainAdmitted_def split: if_splits option.splits)
qed

lemma retained_kept:
  assumes "NodeRun env calls (st, f) = (st', f')" "env_laws env" "\<forall>call\<in>set calls. call_ok call \<and> snd call \<noteq> OpClose sid"
    "lifecycle_inv env st" "retained_in st sid cr"
  shows "lifecycle_inv env st' \<and> retained_in st' sid cr"
  using assms
proof (induction calls arbitrary: st f)
  case (Cons call calls)
  obtain s1 f1 where one: "NodeCall env call (st, f) = (s1, f1)" by fastforce
  have rest: "NodeRun env calls (s1, f1) = (st', f')" using Cons.prems(1) one by (simp add: NodeRun_Cons)
  from NodeCall_inv[OF one Cons.prems(2) _ Cons.prems(4)] Cons.prems(3)
  have s1: "lifecycle_inv env s1" "moves (op_sid (snd call)) (view st) (view s1)" by auto
  have "view s1 sid = view st sid"
  proof (cases "op_sid (snd call) = sid")
    case False
    with s1(2) show ?thesis by (auto simp: moves_def)
  next
    case True
    have "view s1 = view st"
    proof (cases "snd call")
      case (OpCreate generation regs sid' options)
      with True one obtain r where "CreateSession env (fst call) generation regs sid options (st, f) = ((s1, f1), r)"
        by (metis NodeCall_def NodeOp.simps(10) op_sid_def prod.collapse)
      from Create_refused[OF _ _ this] Cons.prems(5) show ?thesis by (simp add: retained_in_def)
    next
      case (OpRetain sid')
      with True one obtain r where "RetainSession env (fst call) sid (st, f) = ((s1, f1), r)"
        by (metis NodeCall_def NodeOp.simps(11) op_sid_def prod.collapse)
      from Retain_retained[OF Cons.prems(5,4) this] show ?thesis .
    qed (use True Cons.prems(3) in \<open>auto simp: op_sid_def\<close>)
    then show ?thesis by simp
  qed
  then have "retained_in s1 sid cr" using Cons.prems(5) by (simp add: retained_in_def)
  from Cons.IH[OF rest Cons.prems(2) _ s1(1) this] Cons.prems(3) show ?case by simp
qed (simp add: NodeRun_def)


text \<open>What a successful close leaves: no session, no undeleted record, and a generation that was
  not deleted before has had its directory removed.\<close>

definition session_removed :: "('e, 'd, 'f) NodeEnv \<Rightarrow> string \<Rightarrow> ('e, 'd) NodeState \<Rightarrow> ('e, 'd) NodeState \<Rightarrow> 'f \<Rightarrow> bool" where
  "session_removed env sid st st' f' \<longleftrightarrow> ns_sessions st' sid = None \<and>
    (\<forall>cr. view st' sid = Some cr \<longrightarrow> cr_state cr = kDeleted) \<and>
    (\<forall>cr. view st sid = Some cr \<longrightarrow> cr_state cr \<noteq> kDeleted \<longrightarrow>
      (\<exists>f0 error. RemoveGeneration env sid (cr_generation_uuid cr) f0 = (f', error) \<and> ec_value error = 0))"

lemma finished_removed:
  assumes fin: "FinishCatalogDeletion env now cr (s1, f) = ((st', f'), Inr u)" and laws: "env_laws env" "clock_ok now"
    and s1: "catalog_ok env s1" "view s1 sid = Some cr" "cr_sid cr = sid" "cr_state cr = kDeleting" "ns_sessions s1 sid = None"
    and old: "view st sid = Some old" "cr_generation_uuid cr = cr_generation_uuid old"
  shows "session_removed env sid st st' f'"
proof -
  have v: "view s1 (cr_sid cr) = Some cr" using s1 by simp
  from Finish_effect[OF fin laws s1(1) v s1(4)] s1(3)
  have e: "cat_effect env sid s1 st'" and d: "\<exists>cr. view st' sid = Some cr \<and> cr_state cr = kDeleted"
    and rm: "\<exists>error. RemoveGeneration env sid (cr_generation_uuid cr) f = (f', error) \<and> ec_value error = 0"
    by (auto simp: IsOk_def)
  have "ns_sessions st' sid = None" using e s1(5) by (simp add: cat_effect_def)
  with d rm old show ?thesis unfolding session_removed_def by (metis option.inject)
qed

lemma close_absent_ok:
  assumes b: "BeginCatalogDeletion env now sid None '''' st = (sb, Inr (Some cr))" and inv: "lifecycle_inv env st"
    and laws: "env_laws env" "clock_ok now" and none: "ns_sessions st sid = None"
    and fin: "FinishCatalogDeletion env now cr (sb, f) = ((st', f'), Inr u)"
  shows "session_removed env sid st st' f'"
proof -
  obtain s1 where e: "cat_effect env sid st s1" and c: "view s1 sid = Some cr" "cr_sid cr = sid" "cr_state cr = kDeleting" "sb = s1"
    "\<exists>old. view st sid = Some old \<and> cr_generation_uuid cr = cr_generation_uuid old"
    by (rule BeginDeletion_effect[OF b laws lifecycle_invD(1)[OF inv]]) (simp, erule that, auto)
  then obtain old where old: "view st sid = Some old" "cr_generation_uuid cr = cr_generation_uuid old" by blast
  have "catalog_ok env s1" "ns_sessions s1 sid = None" using e none by (simp_all add: cat_effect_def)
  with c old show ?thesis by (intro finished_removed[OF fin[unfolded c(4)] laws, of sid st old])
qed

lemma CloseDrain_ok:
  assumes run: "CloseDrain env now sid r catalogued (sb, f) = ((st', f'), Some (Inr u))"
    and laws: "env_laws env" "clock_ok now" and inv: "lifecycle_inv env st" and rec: "ns_sessions st sid = Some r" "sr_phase r = Active"
    and b: "BeginCatalogDeletion env now sid (Some r) (sm_generation_uuid (sr_metadata r)) st = (sb, Inr catalogued)"
  shows "session_removed env sid st st' f'"
proof -
  note ok = lifecycle_invD(1)[OF inv] and sok = lifecycle_invD(2)[OF inv rec(1)]
  let ?s2 = "close_registrations r (set_session sid ((fst (BeginClose r))\<lparr>sr_liveliness_token := None\<rparr>) sb)"
  obtain s1 where e: "cat_effect env sid st s1" and c: "case catalogued of
       None \<Rightarrow> sb = st \<and> (ns_catalog st = None \<or> \<not> sr_catalogued r \<or> (\<forall>cr. view st sid = Some cr \<longrightarrow> cr_state cr = kDeleted))
     | Some cr \<Rightarrow> view s1 sid = Some cr \<and> cr_sid cr = sid \<and> cr_state cr = kDeleting \<and>
         (\<exists>old. view st sid = Some old \<and> cr_generation_uuid cr = cr_generation_uuid old) \<and>
         sb = set_session sid (fst (BeginClose r)) s1"
    by (rule BeginDeletion_effect[OF b laws ok]) (use rec in simp, erule that, auto split: option.splits)
  have v2: "view (ReleaseSession sid ?s2) = view sb" by (rule view_cong) simp
  show ?thesis
  proof (cases catalogued)
    case None
    then have st': "st' = ReleaseSession sid ?s2" using run by (auto simp: CloseDrain_def Let_def split: if_splits)
    have "\<forall>cr. view st sid = Some cr \<longrightarrow> cr_state cr = kDeleted"
      using c None sok by (auto simp: session_ok_def view_def NodeFind_def)
    with st' v2 c None show ?thesis by (simp add: session_removed_def)
  next
    case (Some cr)
    have fin: "FinishCatalogDeletion env now cr (ReleaseSession sid ?s2, f) = ((st', f'), Inr u)"
      using run Some by (auto simp: CloseDrain_def Let_def map_prod_def split: if_splits prod.splits)
    from c Some have cr: "view s1 sid = Some cr" "cr_sid cr = sid" "cr_state cr = kDeleting" "view sb = view s1" "ns_catalog sb = ns_catalog s1" by auto
    from c Some obtain old where old: "view st sid = Some old" "cr_generation_uuid cr = cr_generation_uuid old" by auto
    have "catalog_ok env (ReleaseSession sid ?s2)" using e cr(5) by (simp add: cat_effect_def catalog_ok_def)
    with cr v2 show ?thesis by (intro finished_removed[OF fin laws _ _ _ _ _ old]) simp_all
  qed
qed

lemma CloseSession_ok:
  assumes run: "CloseSession env now sid (st, f) = ((st', f'), Some (Inr u))" and laws: "env_laws env" "clock_ok now"
    and inv: "lifecycle_inv env st"
  shows "session_removed env sid st st' f'"
proof (cases "Enter st")
  case None
  with run show ?thesis by (simp add: CloseSession_def leased_def Result_ErrCode_def)
next
  case (Some s)
  note fr = Enter_frames[OF Some] and si = Enter_inv[OF Some inv]
  have lift: "session_removed env sid st (Leave s1) f'" if "session_removed env sid s s1 f'" for s1
    using that fr(6) by (simp add: session_removed_def)
  have un: "\<not> (ns_catalog_mode s \<and> ns_catalog_unavailable s)"
    using run Some by (auto simp: CloseSession_def leased_def CatalogDown_def Result_Err_def)
  show ?thesis
  proof (cases "ns_sessions s sid")
    case None
    obtain sb rb where b: "BeginCatalogDeletion env now sid None '''' s = (sb, rb)" by fastforce
    obtain cr where rb: "rb = Inr (Some cr)"
      using run Some un None b by (auto simp: CloseSession_def leased_def Result_ErrCode_def split: sum.splits option.splits)
    obtain s1 f1 r1 where fin: "FinishCatalogDeletion env now cr (sb, f) = ((s1, f1), r1)" by (metis surj_pair)
    have eq: "st' = Leave s1" "f1 = f'" "r1 = Inr u"
      using run Some un None b rb fin by (auto simp: CloseSession_def leased_def)
    from lift[OF close_absent_ok[OF b[unfolded rb] si laws None fin[unfolded eq(2,3)]]] eq(1) show ?thesis by simp
  next
    case rec: (Some r)
    have acq: "TryAcquire r \<noteq> None"
    proof
      assume "TryAcquire r = None"
      with run Some un rec show False by (auto simp: CloseSession_def leased_def Result_ErrCode_def)
    qed
    then have act: "sr_phase r = Active" by (auto simp: TryAcquire_def split: if_splits)
    obtain sb rb where b: "BeginCatalogDeletion env now sid (Some r) (sm_generation_uuid (sr_metadata r)) s = (sb, rb)" by fastforce
    obtain cat where rb: "rb = Inr cat"
      using run Some un rec acq b by (auto simp: CloseSession_def leased_def split: sum.splits)
    obtain s1 f1 r1 where d: "CloseDrain env now sid r cat (sb, f) = ((s1, f1), r1)" by (metis surj_pair)
    have eq: "st' = Leave s1" "f1 = f'" "r1 = Some (Inr u)"
      using run Some un rec acq b rb d by (auto simp: CloseSession_def leased_def)
    from lift[OF CloseDrain_ok[OF d[unfolded eq(2,3)] laws si rec act b[unfolded rb]]] eq(1) show ?thesis by simp
  qed
qed


section \<open>Properties\<close>

text \<open>C14: the session life cycle refines the abstract one.  From any successful start, however the
  catalog's writes, the stores, the removals and the engine's synchronisation fail afterwards,
  every sequence of create, retain and close calls moves the catalog by legal life cycle steps
  only; the durable content stays loadable and equal to the view; each session of the table
  matches the record of its generation; and unless the catalog was latched unavailable every
  live record has its session.\<close>

theorem node_lifecycle_refines:
  assumes "env_laws env" "clock_ok now" "fence_uuid_wf instance_uuid" "\<forall>call\<in>set calls. call_ok call"
    "Start env now instance_uuid dispatcher config (None, f) = ((Some st, f1), Result_Ok ())"
    "NodeRun env calls (st, f1) = (st', f')"
  shows "lifecycle_inv env st' \<and> catalog_step\<^sup>*\<^sup>* (view st) (view st')"
  using NodeRun_inv[OF assms(6,1,4) reconcile_inv_done]
    Start_inv[OF assms(1-3) assms(5)[unfolded Result_Ok_def]] by blast

definition example_node :: "(InMemoryEngine, string ordered_map, string list) NodeEnv" where
  "example_node = \<lparr>ne_ops = InMemoryOps, ne_catalog = example_env,
     ne_create_directories = (\<lambda>sid gen f. (sid # f, no_error_code)),
     ne_open_store = (\<lambda>sid gen f. (f, Inr \<lparr>ime_data = []\<rparr>)), ne_has_current = (\<lambda>sid gen f. sid \<in> set f),
     ne_remove_all = (\<lambda>sid gen f. if sid = ''stuck'' then (f, \<lparr>ec_value = 13, ec_category = GenericCategory\<rparr>) else (removeAll sid f, no_error_code)),
     ne_sessions_listing = (\<lambda>f. ([], False)), ne_factory = None, ne_supports_liveliness = False,
     ne_declare_token = (\<lambda>k. True), ne_declare_subscriber = Result_Ok (), ne_declare_queryable = Result_Ok ()\<rparr>"

definition example_clock :: Clock where
  "example_clock sid field = ''2024-02-29T01:23:45.5Z''"

definition example_generation :: FenceUuid where
  "example_generation = [1, 2, 3, 4, 5, 6, 0x47, 8, 0x89, 10, 11, 12, 13, 14, 15, 16]"

definition example_start :: "InMemoryEngine StartConfig" where
  "example_start = \<lparr>sc_engine = Some \<lparr>ime_data = []\<rparr>, sc_prefix = ''p'', sc_durable_root = Some ''/var/sitos''\<rparr>"

definition durable_session :: SessionOptions where
  "durable_session = \<lparr>so_durable_buffers = True, so_ephemeral_buffers = False\<rparr>"

lemma example_laws: "env_laws example_node" "clock_ok example_clock" "fence_uuid_wf example_generation"
proof -
  show "env_laws example_node"
    by (simp add: env_laws_def db_laws_def example_node_def example_env_def no_error_code_def)
  show "clock_ok example_clock" using example_timestamp by (simp add: clock_ok_def example_clock_def)
  show "fence_uuid_wf example_generation" by code_simp
qed


definition example_world :: "(InMemoryEngine, string ordered_map, string list) World" where
  "example_world = (case Start example_node example_clock example_generation None example_start (None, []) of
     ((Some st, f), _) \<Rightarrow> (st, f))"

definition example_create :: "string \<Rightarrow> Clock \<times> NodeOp" where
  "example_create sid = (example_clock, OpCreate example_generation (0, 1) sid durable_session)"

lemma example_started: "Start example_node example_clock example_generation None example_start (None, []) =
    ((Some (fst example_world), snd example_world), Result_Ok ())"
proof -
  have "case Start example_node example_clock example_generation None example_start (None, []) of
      ((Some st, f), Inr u) \<Rightarrow> True | _ \<Rightarrow> False" by code_simp
  then show ?thesis by (auto simp: example_world_def Result_Ok_def split: prod.splits option.splits sum.splits)
qed

lemma example_calls_ok [simp]: "call_ok (example_create sid)" "call_ok (example_clock, OpRetain sid)" "call_ok (example_clock, OpClose sid)"
  using example_laws by (simp_all add: call_ok_def example_create_def)

lemma example_world_inv: "lifecycle_inv example_node (fst (NodeRun example_node calls example_world))"
  if "\<forall>call\<in>set calls. call_ok call"
proof -
  have "lifecycle_inv example_node (fst example_world)"
    using Start_inv[OF example_laws example_started[unfolded Result_Ok_def]] reconcile_inv_done by blast
  moreover obtain st f where "NodeRun example_node calls example_world = (st, f)" by fastforce
  ultimately show ?thesis
    using NodeRun_inv[of example_node calls "fst example_world" "snd example_world" st f] example_laws(1) that by simp
qed

theorem node_lifecycle_refines_witness:
  "lifecycle_inv example_node (fst (NodeRun example_node
      [example_create ''s1'', (example_clock, OpRetain ''s1''), example_create ''full''] example_world)) \<and>
   map_option cr_state (NodeFind ''s1'' (fst (NodeRun example_node
      [example_create ''s1'', (example_clock, OpRetain ''s1''), example_create ''full''] example_world))) = Some kRetained"
proof -
  have "map_option cr_state (NodeFind ''s1'' (fst (NodeRun example_node
      [example_create ''s1'', (example_clock, OpRetain ''s1''), example_create ''full''] example_world))) = Some kRetained"
    by code_simp
  with node_lifecycle_refines[OF example_laws _ example_started, of
      "[example_create ''s1'', (example_clock, OpRetain ''s1''), example_create ''full'']"]
  show ?thesis by (metis (no_types, lifting) example_calls_ok list.set_cases prod.collapse set_ConsD empty_iff empty_set)
qed

text \<open>C16: what a start makes of the durable catalog.  The records it loads are moved by legal steps
  only; unless the catalog was latched unavailable, no record is left active or deleting, and
  every retained or orphaned record has its session back, admitting calls, in the record's state
  and with its store open.\<close>

theorem start_reconciles:
  assumes "env_laws env" "clock_ok now" "fence_uuid_wf instance_uuid"
    "Start env now instance_uuid dispatcher config (None, f) = ((Some st, f'), Result_Ok ())"
    "sc_durable_root config \<noteq> None"
    "CatalogOpen (ne_catalog env) (FormatFenceUuid instance_uuid) (now '''' ''started_at'') = Result_Ok c"
  shows "catalog_step\<^sup>*\<^sup>* (\<lambda>sid. CatalogFind sid c) (view st) \<and> (\<not> ns_catalog_unavailable st \<longrightarrow>
    (\<forall>sid cr. view st sid = Some cr \<longrightarrow> cr_state cr \<noteq> kActive \<and> cr_state cr \<noteq> kDeleting \<and>
      (cr_state cr \<in> {kRetained, kOrphaned} \<longrightarrow>
        (\<exists>r. AcquireSession sid st = Some r \<and> sr_lifecycle r = cr_state cr \<and> sr_durable_buffers r \<noteq> None))))"
proof -
  from Start_inv[OF assms(1-3) assms(4)[unfolded Result_Ok_def]] assms(5,6)
  have inv: "reconcile_inv env {} st" and steps: "catalog_step\<^sup>*\<^sup>* (\<lambda>sid. CatalogFind sid c) (view st)"
    by (auto simp: Result_Ok_def)
  have "\<exists>r. AcquireSession sid st = Some r \<and> sr_lifecycle r = cr_state cr \<and> sr_durable_buffers r \<noteq> None"
    if "\<not> ns_catalog_unavailable st" "view st sid = Some cr" "cr_state cr \<in> {kRetained, kOrphaned}" for sid cr
  proof -
    have "\<exists>r. ns_sessions st sid = Some r \<and> sr_catalogued r \<and> sr_phase r = Active"
      using inv that by (auto simp: reconcile_inv_def live_state_def)
    then obtain r where r: "ns_sessions st sid = Some r" "sr_catalogued r" "sr_phase r = Active" by blast
    moreover have "session_ok (view st) sid r" using inv r(1) by (simp add: reconcile_inv_def)
    ultimately show ?thesis using that(2) by (auto simp: session_ok_def AcquireSession_def TryAcquire_def)
  qed
  moreover have "cr_state cr \<noteq> kActive \<and> cr_state cr \<noteq> kDeleting" if "\<not> ns_catalog_unavailable st" "view st sid = Some cr" for sid cr
    using inv that by (auto simp: reconcile_inv_def)
  ultimately show ?thesis using steps by blast
qed

text \<open>C15: a retained session survives.  When \<open>RetainSession\<close> reports success, the record is durably
  retained, the engine's synchronisation had succeeded or the session was retained before, and
  no later sequence of calls without a close of that name changes the record; while the catalog is
  available its session stays in the table with its store and without volatile state.\<close>

theorem retained_session_survives:
  assumes "env_laws env" "clock_ok now" "lifecycle_inv env st"
    "RetainSession env now sid (st, f) = ((st1, f1), Some (Result_Ok x))"
    "\<forall>call\<in>set calls. call_ok call \<and> snd call \<noteq> OpClose sid" "NodeRun env calls (st1, f1) = (st', f')"
  shows "\<exists>cr. view st1 sid = Some cr \<and> view st' sid = Some cr \<and> cr_state cr = kRetained \<and>
    (view st sid = Some cr \<or> (\<exists>r e e' u. ns_sessions st sid = Some r \<and> sr_durable_buffers r = Some e \<and>
       eng_sync (ne_ops env) e = (e', Some (Result_Ok u)))) \<and>
    (\<not> ns_catalog_unavailable st' \<longrightarrow> (\<exists>r. ns_sessions st' sid = Some r \<and> sr_lifecycle r = kRetained \<and>
       sr_durable_buffers r \<noteq> None \<and> sr_snapshot r = None \<and> sr_overlay r = None))"
proof -
  have inv1: "lifecycle_inv env st1" using RetainSession_inv[OF assms(4,1-3)] by blast
  from RetainSession_ok[OF assms(4)[unfolded Result_Ok_def] assms(3)] obtain cr where cr: "retained_in st1 sid cr"
    "retained_in st sid cr \<or> (\<exists>r e e' u. ns_sessions st sid = Some r \<and> sr_durable_buffers r = Some e \<and>
       eng_sync (ne_ops env) e = (e', Some (Inr u)))" by blast
  from retained_kept[OF assms(6,1,5) inv1 cr(1)] have st': "lifecycle_inv env st'" "retained_in st' sid cr" by auto
  have "\<exists>r. ns_sessions st' sid = Some r \<and> sr_lifecycle r = kRetained \<and> sr_durable_buffers r \<noteq> None \<and>
      sr_snapshot r = None \<and> sr_overlay r = None" if "\<not> ns_catalog_unavailable st'"
  proof -
    from lifecycle_invD(4)[OF st'(1) that, of sid cr] st'(2)
    obtain r where r: "ns_sessions st' sid = Some r" "sr_catalogued r" "sr_phase r = Active"
      by (auto simp: retained_in_def live_state_def)
    from lifecycle_invD(2)[OF st'(1) r(1)] r st'(2) show ?thesis by (auto simp: session_ok_def retained_in_def)
  qed
  with cr st'(2) show ?thesis unfolding retained_in_def Result_Ok_def by blast
qed

text \<open>C17: a close that reports success removed the session: it is gone from the table, the catalog has
  no undeleted record of its name, and the directory of a generation that was not deleted before
  was removed without an error; other names are untouched.\<close>

theorem close_removes_session:
  assumes "env_laws env" "clock_ok now" "lifecycle_inv env st" "CloseSession env now sid (st, f) = ((st', f'), Some (Result_Ok ()))"
  shows "ns_sessions st' sid = None \<and> (\<forall>cr. view st' sid = Some cr \<longrightarrow> cr_state cr = kDeleted) \<and>
    (\<forall>cr. view st sid = Some cr \<and> cr_state cr \<noteq> kDeleted \<longrightarrow>
      (\<exists>f0 error. RemoveGeneration env sid (cr_generation_uuid cr) f0 = (f', error) \<and> ec_value error = 0)) \<and>
    (\<forall>s. s \<noteq> sid \<longrightarrow> view st' s = view st s)"
  using CloseSession_ok[OF assms(4)[unfolded Result_Ok_def] assms(1-3)] CloseSession_inv[OF assms(4,1-3)]
  by (auto simp: session_removed_def moves_def)


definition restart_env :: "string ordered_map CatalogEnv" where
  "restart_env = example_env\<lparr>env_exists := Some True, env_sessions_exists := Some True,
     env_open_raw := (\<lambda>create. if create then Inr [] else Inr
       [(kInstanceKey, InstanceValue ''01020304-0506-4708-890a-0b0c0d0e0f10'' ''2024-02-29T01:23:45.5Z''), (kSchemaKey, kSchemaValue),
        (kSessionKeyPrefix @ ''s1'', EncodeSessionRecord (example_record ''s1''))])\<rparr>"

theorem start_reconciles_witness:
  "\<exists>st f' cr. Start (example_node\<lparr>ne_catalog := restart_env\<rparr>) example_clock example_generation None example_start (None, [''s1'']) =
      ((Some st, f'), Result_Ok ()) \<and> view st ''s1'' = Some cr \<and> cr_state cr = kOrphaned \<and> AcquireSession ''s1'' st \<noteq> None"
proof -
  let ?env = "example_node\<lparr>ne_catalog := restart_env\<rparr>"
  let ?start = "Start ?env example_clock example_generation None example_start (None, [''s1''])"
  let ?open = "CatalogOpen restart_env (FormatFenceUuid example_generation) (example_clock '''' ''started_at'')"
  have laws: "env_laws ?env"
    using example_laws(1) by (auto simp: env_laws_def db_laws_def example_node_def restart_env_def example_env_def map_wf_def kInstanceKey_def kSchemaKey_def kSessionKeyPrefix_def)
  have "case ?start of ((Some st, f), Inr u) \<Rightarrow> \<not> ns_catalog_unavailable st \<and>
      map_option cr_state (NodeFind ''s1'' st) = Some kOrphaned | _ \<Rightarrow> False" by code_simp
  then obtain st f' where st: "?start = ((Some st, f'), Result_Ok ())" "\<not> ns_catalog_unavailable st"
    "map_option cr_state (NodeFind ''s1'' st) = Some kOrphaned"
    by (auto simp: Result_Ok_def split: prod.splits option.splits sum.splits)
  have "case ?open of Inr c \<Rightarrow> True | _ \<Rightarrow> False" by code_simp
  then obtain c where c: "CatalogOpen (ne_catalog ?env) (FormatFenceUuid example_generation) (example_clock '''' ''started_at'') = Result_Ok c"
    by (auto simp: Result_Ok_def split: sum.splits)
  from st(3) obtain cr where cr: "view st ''s1'' = Some cr" "cr_state cr = kOrphaned" by (auto simp: view_def)
  from start_reconciles[OF laws example_laws(2,3) st(1) _ c] st(2) cr have "AcquireSession ''s1'' st \<noteq> None"
    by (auto simp: example_start_def)
  with st(1) cr show ?thesis by blast
qed

theorem retained_session_survives_witness:
  "map_option cr_state (view (fst (NodeRun example_node [example_create ''s2'', example_create ''s1'', (example_clock, OpClose ''s2'')]
     (fst (RetainSession example_node example_clock ''s1'' (NodeRun example_node [example_create ''s1''] example_world))))) ''s1'') = Some kRetained"
proof -
  let ?w = "NodeRun example_node [example_create ''s1''] example_world"
  let ?ret = "RetainSession example_node example_clock ''s1'' ?w"
  let ?calls = "[example_create ''s2'', example_create ''s1'', (example_clock, OpClose ''s2'')]"
  have "case ?ret of (_, Some (Inr x)) \<Rightarrow> True | _ \<Rightarrow> False" by code_simp
  then obtain st1 f1 x where ret: "RetainSession example_node example_clock ''s1'' (fst ?w, snd ?w) = ((st1, f1), Some (Result_Ok x))"
    by (auto simp: Result_Ok_def split: prod.splits option.splits sum.splits)
  obtain st' f' where run: "NodeRun example_node ?calls (st1, f1) = (st', f')" by fastforce
  have inv: "lifecycle_inv example_node (fst ?w)" by (rule example_world_inv) simp
  from retained_session_survives[OF example_laws(1,2) inv ret _ run] have "map_option cr_state (view st' ''s1'') = Some kRetained"
    by (auto simp: example_create_def[of "''s2''"] example_create_def[of "''s1''"] call_ok_def example_laws)
  with ret run show ?thesis by simp
qed

lemma example_close:
  "\<exists>st st' f f'. NodeRun example_node [example_create ''s1''] example_world = (st, f) \<and> lifecycle_inv example_node st \<and>
     CloseSession example_node example_clock ''s1'' (st, f) = ((st', f'), Some (Result_Ok ()))"
proof -
  let ?w = "NodeRun example_node [example_create ''s1''] example_world"
  have "case CloseSession example_node example_clock ''s1'' ?w of (_, Some (Inr x)) \<Rightarrow> True | _ \<Rightarrow> False" by code_simp
  then obtain st' f' where "CloseSession example_node example_clock ''s1'' (fst ?w, snd ?w) = ((st', f'), Some (Result_Ok ()))"
    by (auto simp: Result_Ok_def split: prod.splits option.splits sum.splits)
  moreover have "lifecycle_inv example_node (fst ?w)" by (rule example_world_inv) simp
  moreover have "?w = (fst ?w, snd ?w)" by (rule prod.collapse[symmetric])
  ultimately show ?thesis by blast
qed

theorem close_removes_session_witness:
  "\<exists>st' f'. CloseSession example_node example_clock ''s1'' (NodeRun example_node [example_create ''s1''] example_world) =
     ((st', f'), Some (Result_Ok ())) \<and> ns_sessions st' ''s1'' = None"
proof -
  from example_close obtain st st' f f' where w: "NodeRun example_node [example_create ''s1''] example_world = (st, f)"
    "lifecycle_inv example_node st" "CloseSession example_node example_clock ''s1'' (st, f) = ((st', f'), Some (Result_Ok ()))" by blast
  from close_removes_session[OF example_laws(1,2) w(2,3)] w(3) show ?thesis unfolding w(1) by blast
qed

end
