(* ===== verification/Admission.thy ===== *)
theory Admission
  imports NodeLifecycle
begin

text \<open>
  The admission gates of the node: the callback leases of a running state, the leases of a
  session record and the tickets of the dispatch lane.  A gate counts the leases it has given;
  closing it refuses new ones, and the closer waits until the count is zero before it releases
  what the leases protect.  The contract is a locale; the interleaving of admissions, returns
  and closings of many threads is a sequence of events.
\<close>

datatype gate_event = Admit | Return | Close

text \<open>The gate and the number of leases that were given and not returned.  A lease is returned by
  its owner, so a return needs an outstanding lease.\<close>

fun gate_run :: "('s \<Rightarrow> 's option) \<Rightarrow> ('s \<Rightarrow> 's) \<Rightarrow> ('s \<Rightarrow> 's) \<Rightarrow> gate_event list \<Rightarrow> 's \<times> nat \<Rightarrow> 's \<times> nat" where
  "gate_run admit leave close [] g = g"
| "gate_run admit leave close (Admit # es) (s, n) = gate_run admit leave close es
     (case admit s of None \<Rightarrow> (s, n) | Some s' \<Rightarrow> (s', Suc n))"
| "gate_run admit leave close (Return # es) (s, n) = gate_run admit leave close es (if n = 0 then (s, n) else (leave s, n - 1))"
| "gate_run admit leave close (Close # es) (s, n) = gate_run admit leave close es (close s, n)"

locale admission_gate =
  fixes admit :: "'s \<Rightarrow> 's option" and leave :: "'s \<Rightarrow> 's" and close :: "'s \<Rightarrow> 's"
    and count :: "'s \<Rightarrow> nat" and accepting :: "'s \<Rightarrow> bool" and ok :: "'s \<Rightarrow> bool"
  assumes admits: "ok s \<Longrightarrow> admit s = Some s' \<Longrightarrow> ok s' \<and> accepting s \<and> accepting s' \<and> count s' = Suc (count s)"
    and leaves: "ok s \<Longrightarrow> ok (leave s) \<and> accepting (leave s) = accepting s \<and> count (leave s) = count s - 1"
    and closes: "ok s \<Longrightarrow> ok (close s) \<and> \<not> accepting (close s) \<and> count (close s) = count s"
begin

lemma run_counts:
  "ok s \<Longrightarrow> count s = n \<Longrightarrow> gate_run admit leave close es (s, n) = (s', n') \<Longrightarrow> ok s' \<and> count s' = n'"
proof (induction es arbitrary: s n)
  case (Cons e es)
  show ?case
  proof (cases e)
    case Admit
    with Cons.prems Cons.IH[of s n] Cons.IH[of "the (admit s)" "Suc n"] admits[of s "the (admit s)"] show ?thesis
      by (cases "admit s") auto
  next
    case Return
    with Cons.prems Cons.IH[of s n] Cons.IH[of "leave s" "n - 1"] leaves[of s] show ?thesis by (auto split: if_splits)
  next
    case Close
    with Cons.prems Cons.IH[of "close s" n] closes[of s] show ?thesis by auto
  qed
qed simp

lemma closed_refuses: "ok s \<Longrightarrow> \<not> accepting s \<Longrightarrow> admit s = None"
  using admits by (cases "admit s") auto

text \<open>A closed gate never admits again: every return that finds a lease lowers the number, nothing
  raises it.\<close>

lemma closed_run:
  "ok s \<Longrightarrow> \<not> accepting s \<Longrightarrow> gate_run admit leave close es (s, n) = (s', n') \<Longrightarrow>
     ok s' \<and> \<not> accepting s' \<and> n' = n - count_list es Return"
proof (induction es arbitrary: s n)
  case (Cons e es)
  show ?case
  proof (cases e)
    case Admit
    with Cons show ?thesis by (auto simp: closed_refuses)
  next
    case Return
    with Cons.prems Cons.IH[of s n] Cons.IH[of "leave s" "n - 1"] leaves[of s] show ?thesis by (auto split: if_splits)
  next
    case Close
    with Cons.prems Cons.IH[of "close s" n] closes[of s] show ?thesis by auto
  qed
qed simp

lemma closes_and_drains:
  assumes "ok s" "count s = n" "gate_run admit leave close es (s, n) = (s1, k)"
    "gate_run admit leave close (Close # es') (s1, k) = (s2, m)"
  shows "count s2 = m \<and> m = k - count_list es' Return \<and> admit s2 = None"
proof -
  from run_counts[OF assms(1-3)] have s1: "ok s1" "count s1 = k" by auto
  have "gate_run admit leave close es' (close s1, k) = (s2, m)" using assms(4) by simp
  with closed_run[of "close s1" es' k s2 m] closes[OF s1(1)] run_counts[of "close s1" k es' s2 m] s1 closed_refuses[of s2]
  show ?thesis by auto
qed

end

section \<open>The three gates\<close>

definition session_gate_ok :: "'e SessionRecord \<Rightarrow> bool" where
  "session_gate_ok r \<longleftrightarrow> (sr_accepting r \<longrightarrow> sr_phase r = Active)"

definition lane_admit :: "DispatchLane \<Rightarrow> DispatchLane option" where
  "lane_admit l = (case TryEnter l of (l', Some ticket) \<Rightarrow> Some l' | (l', None) \<Rightarrow> None)"

interpretation session_gate: admission_gate TryAcquire LeaveAdmission "\<lambda>r. fst (BeginClose r)" sr_admitted sr_accepting session_gate_ok
  by unfold_locales (auto simp: TryAcquire_def LeaveAdmission_def BeginClose_def session_gate_ok_def split: if_splits)

interpretation node_gate: admission_gate Enter Leave Deactivate ns_in_flight ns_accepting "\<lambda>st. True"
  by unfold_locales (auto simp: Enter_def Leave_def Deactivate_def split: if_splits)

interpretation lane_gate: admission_gate lane_admit LeaseRelease LaneClose dl_admitted dl_accepting "\<lambda>l. True"
  by unfold_locales (auto simp: lane_admit_def TryEnter_def LeaseRelease_def LaneClose_def split: if_splits option.splits prod.splits)

section \<open>Properties\<close>

text \<open>C30: when the closer of a session goes on, nobody holds a lease and nobody gets one.  Whatever
  admissions, returns and repeated closes are interleaved before and after \<open>BeginClose\<close>, the
  record counts exactly the leases that are out; after it no call is admitted, so the condition
  the closer waits for holds exactly when the leases of before were returned, which they can be
  without any further admission.\<close>

theorem session_close_drains:
  assumes "SessionActivate r0 = (r, True)" "AdmissionDrained r0"
    "gate_run TryAcquire LeaveAdmission (\<lambda>r. fst (BeginClose r)) es (r, 0) = (r1, k)"
    "gate_run TryAcquire LeaveAdmission (\<lambda>r. fst (BeginClose r)) (Close # es') (r1, k) = (r2, m)"
  shows "m = k - count_list es' Return \<and> (AdmissionDrained r2 \<longleftrightarrow> m = 0) \<and> TryAcquire r2 = None"
proof -
  have "session_gate_ok r" "sr_admitted r = 0"
    using assms(1,2) by (auto simp: SessionActivate_def session_gate_ok_def AdmissionDrained_def split: if_splits)
  from session_gate.closes_and_drains[OF this assms(3,4)] show ?thesis by (auto simp: AdmissionDrained_def)
qed

theorem session_close_drains_witness:
  "\<exists>r2. gate_run TryAcquire LeaveAdmission (\<lambda>r. fst (BeginClose r)) [Close, Admit, Return, Admit, Return]
     (gate_run TryAcquire LeaveAdmission (\<lambda>r. fst (BeginClose r)) [Admit, Admit]
       (fst (SessionActivate (NewSessionRecord :: unit SessionRecord)), 0)) = (r2, 0) \<and> AdmissionDrained r2 \<and> TryAcquire r2 = None"
proof -
  let ?run = "gate_run TryAcquire LeaveAdmission (\<lambda>r :: unit SessionRecord. fst (BeginClose r))"
  let ?r = "fst (SessionActivate (NewSessionRecord :: unit SessionRecord))"
  obtain r1 k where a: "?run [Admit, Admit] (?r, 0) = (r1, k)" by fastforce
  obtain r2 m where b: "?run (Close # [Admit, Return, Admit, Return]) (r1, k) = (r2, m)" by fastforce
  have k: "k = 2" using a by (auto simp: SessionActivate_def NewSessionRecord_def TryAcquire_def)
  have start: "SessionActivate (NewSessionRecord :: unit SessionRecord) = (?r, True)" "AdmissionDrained (NewSessionRecord :: unit SessionRecord)"
    by (simp_all add: SessionActivate_def NewSessionRecord_def AdmissionDrained_def)
  from session_close_drains[OF start a b] k have "m = 0 \<and> AdmissionDrained r2 \<and> TryAcquire r2 = None" by simp
  with a b show ?thesis by simp
qed

text \<open>Stopping is a quiescence boundary.  A running node's callback count is the number of
  callbacks in flight under every interleaving; after \<open>Deactivate\<close> no callback is admitted, and
  once the count reaches zero it stays zero.\<close>

theorem node_stop_quiesces:
  assumes "ns_in_flight st = 0"
    "gate_run Enter Leave Deactivate es (NodeActivate st, 0) = (st1, k)"
    "gate_run Enter Leave Deactivate (Close # es') (st1, k) = (st2, m)"
  shows "ns_in_flight st1 = k \<and> m = k - count_list es' Return \<and> ns_in_flight st2 = m \<and> Enter st2 = None"
  using node_gate.closes_and_drains[OF TrueI _ assms(2,3)] node_gate.run_counts[OF TrueI _ assms(2)] assms(1)
  by (auto simp: NodeActivate_def)


theorem node_stop_quiesces_witness:
  "\<exists>st2. gate_run Enter Leave Deactivate [Close, Admit, Return]
     (gate_run Enter Leave Deactivate [Admit, Admit, Return]
       (NodeActivate (NewNodeState () ''p'' None :: (unit, unit) NodeState), 0)) = (st2, 0) \<and> Enter st2 = None"
proof -
  let ?run = "gate_run Enter Leave (Deactivate :: (unit, unit) NodeState \<Rightarrow> _)"
  let ?st = "NewNodeState () ''p'' None :: (unit, unit) NodeState"
  obtain st1 k where a: "?run [Admit, Admit, Return] (NodeActivate ?st, 0) = (st1, k)" by fastforce
  obtain st2 m where b: "?run (Close # [Admit, Return]) (st1, k) = (st2, m)" by fastforce
  have k: "k = 1" using a by (auto simp: NodeActivate_def Enter_def)
  have "ns_in_flight ?st = 0" by (simp add: NewNodeState_def)
  from node_stop_quiesces[OF this a b] k a b show ?thesis by simp
qed

end
