(* ===== verification/GetCompletion.thy ===== *)
theory GetCompletion
  imports Admission
begin

text \<open>
  One \<open>Get\<close> request of the transport: \<open>src/transport/get_completion.cpp\<close> and \<open>.hpp\<close>, the
  delivery of its replies to the caller's sink, and the typed error replies of
  \<open>src/transport/query_error_reply.cpp\<close>.  A reply callback enrolls, converts and delivers under
  the per-request gate and leaves; the caller waits for the drop of the closure and for every
  callback that entered.  What zenoh's reply converts to is a parameter of each callback.
\<close>

section \<open>Typed error replies\<close>

definition kStateLostPayload :: string where
  "kStateLostPayload = ''{'' @ [CHR 0x22] @ ''v'' @ [CHR 0x22] @ '':1,'' @ [CHR 0x22] @ ''status'' @ [CHR 0x22] @ '':10}''"

definition kCatalogUnavailablePayload :: string where
  "kCatalogUnavailablePayload =
     ''{'' @ [CHR 0x22] @ ''v'' @ [CHR 0x22] @ '':1,'' @ [CHR 0x22] @ ''status'' @ [CHR 0x22] @ '':11}''"

definition IsQueryErrorStatus :: "Status \<Rightarrow> bool" where
  "IsQueryErrorStatus status \<longleftrightarrow> status = StateLost \<or> status = CatalogUnavailable"

definition EncodeQueryErrorReply :: "Status \<Rightarrow> string" where
  "EncodeQueryErrorReply status = (if status = StateLost then kStateLostPayload else kCatalogUnavailablePayload)"

definition DecodeQueryErrorReply :: "bytes \<Rightarrow> Status option" where
  "DecodeQueryErrorReply payload =
    (if payload = bytes_of_string kStateLostPayload then Some StateLost
     else if payload = bytes_of_string kCatalogUnavailablePayload then Some CatalogUnavailable
     else None)"

text \<open>\<open>TransportQuery::ReplyError\<close>; \<open>send\<close> is the backend's native send of the payload.\<close>

definition ReplyError :: "(bytes \<Rightarrow> 'q \<Rightarrow> 'q \<times> unit Result) \<Rightarrow> Status \<Rightarrow> 'q \<Rightarrow> 'q \<times> unit Result" where
  "ReplyError send status q =
    (if \<not> IsQueryErrorStatus status
     then (q, Err InvalidArgument ''only StateLost and CatalogUnavailable have typed error replies'')
     else send (bytes_of_string (EncodeQueryErrorReply status)) q)"

section \<open>Completion state\<close>

datatype DeliveryState = DeliveryActive | StoppedBySink | DeliveryFailed

datatype FailureKind = NoFailure | ReplyConversion | TypedErrorReply | CallbackException

record GetState =
  gc_dropped :: bool
  gc_in_flight :: nat
  gc_delivery_state :: DeliveryState
  gc_failure_kind :: FailureKind
  gc_failure_status :: Status
  gc_failure_cause :: error_code
  gc_delivered_keys :: "string set"

record QueryReply =
  qr_key :: string
  qr_payload :: bytes
  qr_encoding :: string

text \<open>The caller's sink over its own state; \<open>None\<close> when it throws.\<close>

type_synonym 's QueryResultSink = "string \<Rightarrow> bytes \<Rightarrow> string \<Rightarrow> 's \<Rightarrow> 's \<times> bool option"

definition NewGet :: GetState where
  "NewGet = \<lparr>gc_dropped = False, gc_in_flight = 0, gc_delivery_state = DeliveryActive, gc_failure_kind = NoFailure,
     gc_failure_status = Error, gc_failure_cause = no_error_code, gc_delivered_keys = {}\<rparr>"

text \<open>The enrolled lease; a callback that comes after the drop is not enrolled and returns.\<close>

definition AcquireCallbackLease :: "GetState \<Rightarrow> GetState option" where
  "AcquireCallbackLease gc = (if gc_dropped gc then None else Some (gc\<lparr>gc_in_flight := gc_in_flight gc + 1\<rparr>))"

definition ReleaseCallback :: "GetState \<Rightarrow> GetState" where
  "ReleaseCallback gc = (if gc_in_flight gc > 0 then gc\<lparr>gc_in_flight := gc_in_flight gc - 1\<rparr> else gc)"

definition MarkDropped :: "GetState \<Rightarrow> GetState" where
  "MarkDropped gc = gc\<lparr>gc_dropped := True\<rparr>"

definition RecordFailure :: "Status \<Rightarrow> error_code \<Rightarrow> FailureKind \<Rightarrow> GetState \<Rightarrow> GetState" where
  "RecordFailure status cause kind gc =
    (if gc_delivery_state gc = DeliveryActive
     then gc\<lparr>gc_delivery_state := DeliveryFailed, gc_failure_kind := kind, gc_failure_status := status,
             gc_failure_cause := (if ec_value cause \<noteq> 0 then cause else MakeErrorCode status)\<rparr>
     else gc)"

definition RecordUnexpectedFailure :: "GetState \<Rightarrow> GetState" where
  "RecordUnexpectedFailure gc = RecordFailure Error (MakeErrorCode Error) CallbackException gc"

text \<open>\<open>converted\<close> is what the converter returns, \<open>None\<close> when it throws.\<close>

definition ProcessReply :: "'s QueryResultSink \<Rightarrow> QueryReply Result option \<Rightarrow> GetState \<times> 's \<Rightarrow> GetState \<times> 's" where
  "ProcessReply sink converted = (\<lambda>(gc, s).
    if gc_delivery_state gc \<noteq> DeliveryActive then (gc, s)
    else (case converted of
      None \<Rightarrow> (RecordUnexpectedFailure gc, s)
    | Some (Inl e) \<Rightarrow>
        (let typed = IsQueryErrorStatus (ei_status e) in
         (RecordFailure (if typed then ei_status e else Error) (ei_cause e)
            (if typed then TypedErrorReply else ReplyConversion) gc, s))
    | Some (Inr reply) \<Rightarrow>
        if qr_key reply \<in> gc_delivered_keys gc then (gc, s)
        else
          (let gc = gc\<lparr>gc_delivered_keys := insert (qr_key reply) (gc_delivered_keys gc)\<rparr> in
           case sink (qr_key reply) (qr_payload reply) (qr_encoding reply) s of
             (s', None) \<Rightarrow> (RecordUnexpectedFailure gc, s')
           | (s', Some True) \<Rightarrow> (gc, s')
           | (s', Some False) \<Rightarrow> (gc\<lparr>gc_delivery_state := StoppedBySink\<rparr>, s'))))"

text \<open>The wait is over when the closure was dropped and no callback is in flight; \<open>None\<close> before.\<close>

definition WaitForResult :: "GetState \<Rightarrow> unit Result option" where
  "WaitForResult gc =
    (if \<not> (gc_dropped gc \<and> gc_in_flight gc = 0) then None
     else if gc_delivery_state gc = DeliveryFailed then
       Some (Result_Err (gc_failure_status gc)
         (if gc_failure_kind gc = ReplyConversion then ''failed to process zenoh get reply''
          else if gc_failure_kind gc = TypedErrorReply then ''storage node refused the query''
          else ''get reply callback failed'') (gc_failure_cause gc))
     else Some (Result_Ok ()))"

section \<open>Interleavings\<close>

text \<open>Callbacks enroll, process and leave in any order, and the closure is dropped at any time; a
  callback processes only while it is enrolled.  The third component counts the leases.\<close>

datatype get_event = GetEnroll | GetProcess "QueryReply Result option" | GetLeave | GetDrop

fun get_run :: "'s QueryResultSink \<Rightarrow> get_event list \<Rightarrow> GetState \<times> 's \<times> nat \<Rightarrow> GetState \<times> 's \<times> nat" where
  "get_run sink [] w = w"
| "get_run sink (GetEnroll # es) (gc, s, n) = get_run sink es
     (case AcquireCallbackLease gc of None \<Rightarrow> (gc, s, n) | Some gc' \<Rightarrow> (gc', s, Suc n))"
| "get_run sink (GetProcess c # es) (gc, s, n) = get_run sink es
     (if n = 0 then (gc, s, n) else (case ProcessReply sink c (gc, s) of (gc', s') \<Rightarrow> (gc', s', n)))"
| "get_run sink (GetLeave # es) (gc, s, n) = get_run sink es (if n = 0 then (gc, s, n) else (ReleaseCallback gc, s, n - 1))"
| "get_run sink (GetDrop # es) (gc, s, n) = get_run sink es (MarkDropped gc, s, n)"

text \<open>The replies the enrolled callbacks carried, in the order they took the delivery gate.\<close>

fun processed :: "get_event list \<Rightarrow> bool \<times> nat \<Rightarrow> QueryReply Result option list" where
  "processed [] g = []"
| "processed (GetEnroll # es) (dropped, n) = processed es (dropped, if dropped then n else Suc n)"
| "processed (GetProcess c # es) (dropped, n) = (if n = 0 then [] else [c]) @ processed es (dropped, n)"
| "processed (GetLeave # es) (dropped, n) = processed es (dropped, n - 1)"
| "processed (GetDrop # es) (dropped, n) = processed es (True, n)"

text \<open>The reference: deliver a list of conversions to the sink, each key once, until the sink
  declines or something fails.\<close>

definition conversion_failure :: "ErrorInfo \<Rightarrow> unit Result" where
  "conversion_failure e =
    (let typed = IsQueryErrorStatus (ei_status e); status = (if typed then ei_status e else Error) in
     Result_Err status (if typed then ''storage node refused the query'' else ''failed to process zenoh get reply'')
       (if ec_value (ei_cause e) \<noteq> 0 then ei_cause e else MakeErrorCode status))"

definition callback_failure :: "unit Result" where
  "callback_failure = Result_Err Error ''get reply callback failed'' (MakeErrorCode Error)"

fun deliver :: "'s QueryResultSink \<Rightarrow> string set \<Rightarrow> QueryReply Result option list \<Rightarrow> 's \<Rightarrow> 's \<times> unit Result" where
  "deliver sink seen [] s = (s, Result_Ok ())"
| "deliver sink seen (None # cs) s = (s, callback_failure)"
| "deliver sink seen (Some (Inl e) # cs) s = (s, conversion_failure e)"
| "deliver sink seen (Some (Inr r) # cs) s =
    (if qr_key r \<in> seen then deliver sink seen cs s
     else (case sink (qr_key r) (qr_payload r) (qr_encoding r) s of
       (s', None) \<Rightarrow> (s', callback_failure)
     | (s', Some False) \<Rightarrow> (s', Result_Ok ())
     | (s', Some True) \<Rightarrow> deliver sink (insert (qr_key r) seen) cs s'))"

section \<open>Lemmas\<close>

interpretation get_gate: admission_gate AcquireCallbackLease ReleaseCallback MarkDropped gc_in_flight "\<lambda>gc. \<not> gc_dropped gc" "\<lambda>gc. True"
  by unfold_locales (auto simp: AcquireCallbackLease_def ReleaseCallback_def MarkDropped_def split: if_splits)

text \<open>The verdict a completion state stands for, whether or not the wait is over.\<close>

definition verdict :: "GetState \<Rightarrow> unit Result" where
  "verdict gc = the (WaitForResult (gc\<lparr>gc_dropped := True, gc_in_flight := 0\<rparr>))"

lemma verdict_Wait: "WaitForResult gc = Some res \<Longrightarrow> verdict gc = res"
  by (auto simp: verdict_def WaitForResult_def split: if_splits)

text \<open>What remains to be delivered from a state: nothing once it has stopped or failed.\<close>

definition deliver_from :: "'s QueryResultSink \<Rightarrow> QueryReply Result option list \<Rightarrow> GetState \<Rightarrow> 's \<Rightarrow> 's \<times> unit Result" where
  "deliver_from sink cs gc s =
    (if gc_delivery_state gc = DeliveryActive then deliver sink (gc_delivered_keys gc) cs s else (s, verdict gc))"

lemma deliver_from_Nil: "deliver_from sink [] gc s = (s, verdict gc)"
  by (simp add: deliver_from_def verdict_def WaitForResult_def)

lemma deliver_from_frame:
  "gc_delivery_state gc' = gc_delivery_state gc \<Longrightarrow> gc_delivered_keys gc' = gc_delivered_keys gc \<Longrightarrow>
   gc_failure_kind gc' = gc_failure_kind gc \<Longrightarrow> gc_failure_status gc' = gc_failure_status gc \<Longrightarrow>
   gc_failure_cause gc' = gc_failure_cause gc \<Longrightarrow> deliver_from sink cs gc' s = deliver_from sink cs gc s"
  by (simp add: deliver_from_def verdict_def WaitForResult_def)

lemma ProcessReply_counts:
  "ProcessReply sink c (gc, s) = (gc', s') \<Longrightarrow> gc_in_flight gc' = gc_in_flight gc \<and> gc_dropped gc' = gc_dropped gc"
  by (auto simp: ProcessReply_def RecordUnexpectedFailure_def RecordFailure_def Let_def
      split: if_splits option.splits sum.splits prod.splits bool.splits)

lemma deliver_from_Cons:
  assumes "ProcessReply sink c (gc, s) = (gc', s')"
  shows "deliver_from sink (c # cs) gc s = deliver_from sink cs gc' s'"
proof (cases "gc_delivery_state gc = DeliveryActive")
  case False
  with assms show ?thesis by (auto simp: ProcessReply_def deliver_from_def)
next
  case active: True
  show ?thesis
  proof (cases c)
    case None
    with assms active show ?thesis
      by (auto simp: ProcessReply_def deliver_from_def RecordUnexpectedFailure_def RecordFailure_def verdict_def
          WaitForResult_def callback_failure_def MakeErrorCode_nonzero)
  next
    case (Some r)
    show ?thesis
    proof (cases r)
      case (Inl e)
      with assms active Some show ?thesis
        by (auto simp: ProcessReply_def deliver_from_def RecordFailure_def verdict_def WaitForResult_def
            conversion_failure_def Let_def)
    next
      case (Inr reply)
      with assms active Some show ?thesis
        by (auto simp: ProcessReply_def deliver_from_def RecordUnexpectedFailure_def RecordFailure_def verdict_def
            WaitForResult_def callback_failure_def MakeErrorCode_nonzero Let_def
            split: prod.splits option.splits bool.splits if_splits)
    qed
  qed
qed

lemma get_run_delivers:
  "get_run sink es (gc, s, n) = (gc', s', n') \<Longrightarrow> gc_in_flight gc = n \<Longrightarrow>
     deliver_from sink (processed es (gc_dropped gc, n)) gc s = (s', verdict gc') \<and> gc_in_flight gc' = n'"
proof (induction es arbitrary: gc s n)
  case Nil
  then show ?case by (simp add: deliver_from_Nil)
next
  case (Cons e es)
  show ?case
  proof (cases e)
    case GetEnroll
    with Cons.prems Cons.IH[of gc s n] Cons.IH[of "gc\<lparr>gc_in_flight := Suc n\<rparr>" s "Suc n"] show ?thesis
      by (auto simp: AcquireCallbackLease_def deliver_from_frame[of "gc\<lparr>gc_in_flight := Suc n\<rparr>" gc] split: if_splits)
  next
    case (GetProcess c)
    obtain g1 s1 where p: "ProcessReply sink c (gc, s) = (g1, s1)" by fastforce
    from ProcessReply_counts[OF p] deliver_from_Cons[OF p] GetProcess p Cons.prems Cons.IH[of gc s n] Cons.IH[of g1 s1 n]
    show ?thesis by (auto split: if_splits)
  next
    case GetLeave
    with Cons.prems Cons.IH[of gc s n] Cons.IH[of "ReleaseCallback gc" s "n - 1"] show ?thesis
      by (auto simp: ReleaseCallback_def deliver_from_frame[of "gc\<lparr>gc_in_flight := n - Suc 0\<rparr>" gc] split: if_splits)
  next
    case GetDrop
    with Cons.prems Cons.IH[of "MarkDropped gc" s n] show ?thesis
      by (auto simp: MarkDropped_def deliver_from_frame[of "gc\<lparr>gc_dropped := True\<rparr>" gc])
  qed
qed

lemma get_run_finished:
  "get_run sink es (gc, s, 0) = (gc', s', n') \<Longrightarrow> gc_dropped gc \<Longrightarrow> gc_in_flight gc = 0 \<Longrightarrow> gc' = gc \<and> s' = s"
proof (induction es)
  case (Cons e es)
  have "gc\<lparr>gc_dropped := True\<rparr> = gc" using Cons.prems(2) by (cases gc) simp
  with Cons show ?case
    by (cases e) (auto simp: AcquireCallbackLease_def MarkDropped_def)
qed simp

section \<open>Properties\<close>

text \<open>C29: a \<open>Get\<close> delivers exactly what the reference does.  However the reply callbacks of a request
  enroll, deliver, leave and race with the drop of the closure, when the wait is over the sink
  has seen the replies of the enrolled callbacks in order, each concrete key once, up to the
  first it declined or the first failure; the result is success or that failure, with its status
  kept only for the typed errors; and nothing reaches the sink afterwards.\<close>

theorem get_delivery_exact:
  assumes "get_run sink es (NewGet, s, 0) = (gc, s', n)" "WaitForResult gc = Some res"
  shows "deliver sink {} (processed es (False, 0)) s = (s', res) \<and>
    (\<forall>later gc2 s2 n2. get_run sink later (gc, s', n) = (gc2, s2, n2) \<longrightarrow> s2 = s' \<and> WaitForResult gc2 = Some res)"
proof -
  have "gc_in_flight NewGet = 0" "gc_dropped NewGet = False" by (simp_all add: NewGet_def)
  with get_run_delivers[OF assms(1)] have run: "deliver_from sink (processed es (False, 0)) NewGet s = (s', verdict gc)"
    "gc_in_flight gc = n" by auto
  then have "deliver sink {} (processed es (False, 0)) s = (s', res)"
    using verdict_Wait[OF assms(2)] by (simp add: deliver_from_def NewGet_def)
  moreover have "gc_dropped gc" "gc_in_flight gc = 0" using assms(2) by (auto simp: WaitForResult_def split: if_splits)
  ultimately show ?thesis using run(2) get_run_finished[of sink _ gc s'] assms(2) by auto
qed

definition example_reply :: "string \<Rightarrow> QueryReply Result option" where
  "example_reply k = Some (Inr \<lparr>qr_key = k, qr_payload = [], qr_encoding = kSitosV1\<rparr>)"

theorem get_delivery_exact_witness:
  "\<exists>gc n. get_run (\<lambda>k p e ks. (ks @ [k], Some (k \<noteq> ''b''))) [GetEnroll, GetProcess (example_reply ''a''), GetEnroll, GetProcess (example_reply ''a''),
      GetProcess (example_reply ''b''), GetDrop, GetProcess (example_reply ''c''), GetLeave, GetLeave, GetEnroll]
      (NewGet, [], 0) = (gc, [''a'', ''b''], n) \<and> WaitForResult gc = Some (Result_Ok ())"
proof -
  let ?sink = "\<lambda>k (p :: bytes) (e :: string) ks. (ks @ [k], Some (k \<noteq> ''b''))"
  let ?es = "[GetEnroll, GetProcess (example_reply ''a''), GetEnroll, GetProcess (example_reply ''a''),
      GetProcess (example_reply ''b''), GetDrop, GetProcess (example_reply ''c''), GetLeave, GetLeave, GetEnroll]"
  obtain gc s n where run: "get_run ?sink ?es (NewGet, [], 0) = (gc, s, n)" by (rule prod_cases3)
  have "WaitForResult (fst (get_run ?sink ?es (NewGet, [], 0))) = Some (Result_Ok ())"
    by code_simp
  with run have w: "WaitForResult gc = Some (Result_Ok ())" by simp
  from get_delivery_exact[OF run w] have "s = [''a'', ''b'']" by (simp add: example_reply_def)
  with run w show ?thesis by blast
qed

text \<open>A typed error reply carries its status through the wire, and no other payload is read as one.\<close>

theorem query_error_roundtrip:
  "DecodeQueryErrorReply payload = Some status \<longleftrightarrow>
     IsQueryErrorStatus status \<and> payload = bytes_of_string (EncodeQueryErrorReply status)"
proof -
  have "kStateLostPayload \<noteq> kCatalogUnavailablePayload" by code_simp
  then show ?thesis by (auto simp: DecodeQueryErrorReply_def IsQueryErrorStatus_def EncodeQueryErrorReply_def)
qed

end
