(* ===== verification/AckClient.thy ===== *)
theory AckClient
  imports GetCompletion
begin

text \<open>
  The acknowledgement client, \<open>src/ack_client.cpp\<close> and \<open>src/storage_node_reachability.hpp\<close>:
  one submission of an acknowledged write and the polling for its result within one total
  deadline.  The transport and the steady clock are parameters over a world \<open>'w\<close>; a \<open>Get\<close>
  yields the conversions of its reply callbacks, which \<open>deliver\<close> hands to the sink.  Time points
  are nanoseconds, durations are milliseconds.
\<close>

section \<open>The client's view of a transport\<close>

record PutOptions =
  po_ack_token :: "AckToken option"
  po_fence_lane :: "FenceLaneMetadata option"

record 'w ClientTransport =
  ct_now :: "'w \<Rightarrow> 'w \<times> int"
  ct_sleep :: "int \<Rightarrow> 'w \<Rightarrow> 'w"
  ct_put :: "string \<Rightarrow> bytes \<Rightarrow> string \<Rightarrow> PutOptions \<Rightarrow> 'w \<Rightarrow> 'w \<times> unit Result"
  ct_delete :: "string \<Rightarrow> PutOptions \<Rightarrow> 'w \<Rightarrow> 'w \<times> unit Result"
  ct_get :: "string \<Rightarrow> int \<Rightarrow> 'w \<Rightarrow> 'w \<times> QueryReply Result option list Result"
  ct_wait :: "string \<Rightarrow> int \<Rightarrow> 'w \<Rightarrow> 'w"

text \<open>A \<open>Get\<close> with the caller's sink; the sink may also act on the world.\<close>

definition TransportGet :: "'w ClientTransport \<Rightarrow> string \<Rightarrow> ('s \<times> 'w) QueryResultSink \<Rightarrow> int \<Rightarrow> 's \<Rightarrow> 'w \<Rightarrow>
    ('s \<times> 'w) \<times> unit Result" where
  "TransportGet ct keyexpr sink timeout s w = (case ct_get ct keyexpr timeout w of
     (w', Inl e) \<Rightarrow> ((s, w'), Inl e)
   | (w', Inr conversions) \<Rightarrow> deliver sink {} conversions (s, w'))"

section \<open>Time\<close>

definition time_max :: int where "time_max = 2 ^ 63 - 1"

definition ns_per_ms :: int where "ns_per_ms = 1000000"

text \<open>\<open>std::chrono::ceil<milliseconds>\<close> of a duration in nanoseconds.\<close>

definition ceil_ms :: "int \<Rightarrow> int" where
  "ceil_ms d = - ((- d) div ns_per_ms)"

definition SaturatingDeadlineAt :: "int \<Rightarrow> int \<Rightarrow> int" where
  "SaturatingDeadlineAt now requested =
    (let remaining = time_max - now; remaining_milliseconds = remaining div ns_per_ms in
     if requested > remaining_milliseconds then time_max else now + requested * ns_per_ms)"

definition WaitForStorageNode :: "'w ClientTransport \<Rightarrow> string \<Rightarrow> int \<Rightarrow> 'w \<Rightarrow> 'w" where
  "WaitForStorageNode ct pfx deadline w = ct_wait ct (pfx @ ''/meta/ack/*'') deadline w"

definition WaitForStorageNodeWithin :: "'w ClientTransport \<Rightarrow> string \<Rightarrow> int \<Rightarrow> 'w \<Rightarrow> 'w \<times> int" where
  "WaitForStorageNodeWithin ct pfx timeout w = (case ct_now ct w of
     (w, now) \<Rightarrow>
       (let room = (time_max - now) div ns_per_ms;
            deadline = (if timeout \<ge> room then time_max else now + timeout * ns_per_ms);
            w = WaitForStorageNode ct pfx deadline w in
        case ct_now ct w of
          (w, now) \<Rightarrow> (w, min (max (ceil_ms (deadline - now)) 1) timeout)))"

section \<open>Diagnostics\<close>

definition SanitizeAckDiagnostic :: "string \<Rightarrow> string" where
  "SanitizeAckDiagnostic input = map (\<lambda>c.
     if 0x20 \<le> byte_of_char c \<and> byte_of_char c \<le> 0x7E \<or> c = CHR 0x09 \<or> c = CHR 0x0A \<or> c = CHR 0x0D then c else CHR ''?'')
     (take kAckResultMaxMessageLength input)"

definition TimeoutMessage :: "string \<Rightarrow> string" where
  "TimeoutMessage latest_message = take kAckResultMaxMessageLength
    (''no acknowledgement within the total deadline'' @
     (if latest_message = '''' then '''' else ''; last transport error: '' @ latest_message))"

section \<open>Polling\<close>

definition kAckQueryWindowMax :: int where "kAckQueryWindowMax = 1000"

definition kAckQueryRetryDelay :: int where "kAckQueryRetryDelay = 100"

record PollDiagnostics =
  pd_latest_cause :: error_code
  pd_latest_message :: string
  pd_transport_error_seen :: bool

text \<open>What the reply sink has seen: a result, or the protocol error that ends the polling.\<close>

record PollReply =
  pr_observed :: "AckResultV1 option"
  pr_protocol_error :: "string option"

definition PollSink :: "string \<Rightarrow> (AckResultV1 \<Rightarrow> 'w \<Rightarrow> 'w) option \<Rightarrow> (PollReply \<times> 'w) QueryResultSink" where
  "PollSink query_key observed_callback key payload encoding = (\<lambda>(s, w).
    (if key \<noteq> query_key then
       (s\<lparr>pr_protocol_error := Some ''ack protocol error: reply key differs from query''\<rparr>, w)
     else if encoding \<noteq> kSitosV1Ack then
       (s\<lparr>pr_protocol_error := Some ''ack protocol error: reply Encoding is not sitos.v1.ack''\<rparr>, w)
     else (case DecodeAckResult payload of
         Inl _ \<Rightarrow> (s\<lparr>pr_protocol_error := Some ''ack protocol error: malformed AckResultV1''\<rparr>, w)
       | Inr r \<Rightarrow> (s\<lparr>pr_observed := Some r\<rparr>, case observed_callback of None \<Rightarrow> w | Some f \<Rightarrow> f r w)),
     Some False))"

definition CheckCancelled :: "('w \<Rightarrow> 'w \<times> AckResultV1 option) option \<Rightarrow> 'w \<Rightarrow> 'w \<times> AckResultV1 option" where
  "CheckCancelled cancelled w = (case cancelled of None \<Rightarrow> (w, None) | Some f \<Rightarrow> f w)"

definition PollTimeout :: "PollDiagnostics \<Rightarrow> AckResultV1 Result" where
  "PollTimeout d = Result_Err Timeout (TimeoutMessage (pd_latest_message d)) (pd_latest_cause d)"

text \<open>One round of the loop: the result, or the diagnostics and the delay before the next query.\<close>

definition PollRound :: "'w ClientTransport \<Rightarrow> string \<Rightarrow> int \<Rightarrow> ('w \<Rightarrow> 'w \<times> AckResultV1 option) option \<Rightarrow>
    (AckResultV1 \<Rightarrow> 'w \<Rightarrow> 'w) option \<Rightarrow> PollDiagnostics \<Rightarrow> 'w \<Rightarrow> 'w \<times> (AckResultV1 Result + PollDiagnostics \<times> int)" where
  "PollRound ct query_key deadline_at cancelled observed_callback d w =
    (case CheckCancelled cancelled w of
       (w, Some r) \<Rightarrow> (w, Inl (Result_Ok r))
     | (w, None) \<Rightarrow>
         (case ct_now ct w of (w, now) \<Rightarrow>
            (let remaining = ceil_ms (deadline_at - now) in
             if remaining \<le> 0 then (w, Inl (PollTimeout d))
             else
               (case TransportGet ct query_key (PollSink query_key observed_callback) (min kAckQueryWindowMax remaining)
                   \<lparr>pr_observed = None, pr_protocol_error = None\<rparr> w of
                  ((s, w), get) \<Rightarrow>
                    (case CheckCancelled cancelled w of
                       (w, Some r) \<Rightarrow> (w, Inl (Result_Ok r))
                     | (w, None) \<Rightarrow>
                         (case pr_protocol_error s of
                            Some m \<Rightarrow> (w, Inl (Err Error m))
                          | None \<Rightarrow>
                              (case pr_observed s of
                                 Some r \<Rightarrow> (w, Inl (Result_Ok r))
                               | None \<Rightarrow>
                                   (let d = (case get of
                                        Inl e \<Rightarrow>
                                          if pd_transport_error_seen d then d
                                          else \<lparr>pd_latest_cause = ei_cause e, pd_latest_message = SanitizeAckDiagnostic (ei_message e),
                                                pd_transport_error_seen = True\<rparr>
                                      | Inr _ \<Rightarrow> d) in
                                    case ct_now ct w of (w, now) \<Rightarrow>
                                      (let left = ceil_ms (deadline_at - now) in
                                       if left \<le> 0 then (w, Inl (PollTimeout d))
                                       else (w, Inr (d, min kAckQueryRetryDelay left)))))))))))"

text \<open>The loop returns only if the clock advances; \<open>None\<close> is a loop that does not end.\<close>

partial_function (option) PollLoop :: "'w ClientTransport \<Rightarrow> string \<Rightarrow> int \<Rightarrow> ('w \<Rightarrow> 'w \<times> AckResultV1 option) option \<Rightarrow>
    (AckResultV1 \<Rightarrow> 'w \<Rightarrow> 'w) option \<Rightarrow> PollDiagnostics \<Rightarrow> 'w \<Rightarrow> ('w \<times> AckResultV1 Result) option" where
  "PollLoop ct query_key deadline_at cancelled observed_callback d w =
    (case PollRound ct query_key deadline_at cancelled observed_callback d w of
       (w, Inl result) \<Rightarrow> Some (w, result)
     | (w, Inr (d, delay)) \<Rightarrow> PollLoop ct query_key deadline_at cancelled observed_callback d (ct_sleep ct delay w))"

definition PollAcknowledgement :: "'w ClientTransport \<Rightarrow> string \<Rightarrow> AckToken \<Rightarrow> int \<Rightarrow> ErrorInfo option \<Rightarrow>
    ('w \<Rightarrow> 'w \<times> AckResultV1 option) option \<Rightarrow> (AckResultV1 \<Rightarrow> 'w \<Rightarrow> 'w) option \<Rightarrow> 'w \<Rightarrow> ('w \<times> AckResultV1 Result) option" where
  "PollAcknowledgement ct pfx token deadline_at latest_transport_error cancelled observed_callback w =
    (case BuildMetaAckKey pfx (FormatAckToken token) of
       None \<Rightarrow> Some (w, Err InvalidArgument ''acknowledgement prefix is invalid'')
     | Some query_key \<Rightarrow> PollLoop ct query_key deadline_at cancelled observed_callback
         (case latest_transport_error of
            None \<Rightarrow> \<lparr>pd_latest_cause = no_error_code, pd_latest_message = '''', pd_transport_error_seen = False\<rparr>
          | Some e \<Rightarrow> \<lparr>pd_latest_cause = ei_cause e, pd_latest_message = ei_message e, pd_transport_error_seen = True\<rparr>) w)"

text \<open>\<open>words\<close> is what the random source yields for the token.\<close>

definition SubmitAcknowledgedWrite :: "'w ClientTransport \<Rightarrow> u32 list \<Rightarrow> string \<Rightarrow> string \<Rightarrow> bytes \<Rightarrow> string \<Rightarrow> int \<Rightarrow>
    'w \<Rightarrow> ('w \<times> AckResultV1 Result) option" where
  "SubmitAcknowledgedWrite ct words pfx full_key payload encoding total_deadline w =
    (if total_deadline \<le> 0 then Some (w, Err InvalidArgument ''acknowledgement deadline must be positive'')
     else if encoding = kSitosV1Batch \<and> DecodeBatch payload = Some [] then
       Some (w, Result_Ok \<lparr>ar_operation_kind = OpBatch, ar_status = Ok, ar_durability = Applied, ar_applied_count = 0,
         ar_failed_index = kAckNoFailedIndex, ar_through_sequence = 0, ar_failed_sequence = kAckNoFailedSequence, ar_message = ''''\<rparr>)
     else
       (let token = GenerateAckToken words in
        if BuildMetaAckKey pfx (FormatAckToken token) = None
        then Some (w, Err InvalidArgument ''acknowledgement prefix is invalid'')
        else
          (case ct_now ct w of (w, now) \<Rightarrow>
             (let deadline_at = SaturatingDeadlineAt now total_deadline;
                  w = WaitForStorageNode ct pfx deadline_at w in
              case ct_put ct full_key payload encoding \<lparr>po_ack_token = Some token, po_fence_lane = None\<rparr> w of
                (w, put) \<Rightarrow> PollAcknowledgement ct pfx token deadline_at
                   (case put of Inl e \<Rightarrow> Some e | Inr _ \<Rightarrow> None) None None w))))"


section \<open>Time lemmas\<close>

lemma ceil_ms_pos: "ceil_ms d > 0 \<longleftrightarrow> d > 0"
  by (auto simp: ceil_ms_def ns_per_ms_def)

lemma SaturatingDeadline_min: "SaturatingDeadlineAt now requested = min time_max (now + requested * ns_per_ms)"
  by (auto simp: SaturatingDeadlineAt_def Let_def ns_per_ms_def min_def)

section \<open>What one query can bring\<close>

lemma deliver_PollSink:
  assumes "deliver (PollSink key obs) {} cs (s, w) = ((s', w'), res)"
  shows "(s', w') = (s, w) \<or> (\<exists>reply. Some (Inr reply) \<in> set cs \<and>
    (s', w') = fst (PollSink key obs (qr_key reply) (qr_payload reply) (qr_encoding reply) (s, w)))"
proof (cases "(PollSink key obs, {} :: string set, cs, (s, w))" rule: deliver.cases)
  case (4 sink seen r cs' s0)
  with assms have "(s', w') = fst (PollSink key obs (qr_key r) (qr_payload r) (qr_encoding r) (s, w))"
    by (auto simp: PollSink_def split: if_splits sum.splits)
  with 4 show ?thesis by auto
qed (use assms in auto)

definition ack_reply :: "string \<Rightarrow> AckResultV1 \<Rightarrow> QueryReply Result option list \<Rightarrow> bool" where
  "ack_reply query_key r cs \<longleftrightarrow> (\<exists>reply. Some (Inr reply) \<in> set cs \<and> qr_key reply = query_key \<and>
     qr_encoding reply = kSitosV1Ack \<and> DecodeAckResult (qr_payload reply) = Inr r)"

lemma PollSink_observed:
  assumes "fst (PollSink key obs k p enc (\<lparr>pr_observed = None, pr_protocol_error = None\<rparr>, w)) = (s', w')"
  shows "pr_observed s' = Some r \<Longrightarrow> k = key \<and> enc = kSitosV1Ack \<and> DecodeAckResult p = Inr r"
    and "w' = w \<or> (\<exists>f r. obs = Some f \<and> w' = f r w)"
  using assms by (auto simp: PollSink_def split: if_splits sum.splits option.splits)

section \<open>The loop ends\<close>

text \<open>What the client relies on of a transport and a clock: no call goes back in time, a clock reading
  lies between the calls around it, a sleep lasts at least as long as asked, and only \<open>Put\<close>
  submits data.\<close>

locale client_world =
  fixes ct :: "'w ClientTransport" and elapsed :: "'w \<Rightarrow> int"
    and submitted :: "'w \<Rightarrow> (string \<times> bytes \<times> string \<times> PutOptions) list"
  assumes now_law: "ct_now ct w = (w', t) \<Longrightarrow> elapsed w \<le> t \<and> t \<le> elapsed w' \<and> submitted w' = submitted w"
    and sleep_law: "0 \<le> d \<Longrightarrow> elapsed w + d * ns_per_ms \<le> elapsed (ct_sleep ct d w) \<and> submitted (ct_sleep ct d w) = submitted w"
    and get_law: "ct_get ct key timeout w = (w', r) \<Longrightarrow> elapsed w \<le> elapsed w' \<and> submitted w' = submitted w"
    and wait_law: "elapsed w \<le> elapsed (ct_wait ct keyexpr deadline w) \<and> submitted (ct_wait ct keyexpr deadline w) = submitted w"
    and put_law: "ct_put ct key payload encoding options w = (w', put) \<Longrightarrow>
      elapsed w \<le> elapsed w' \<and> submitted w' = submitted w @ [(key, payload, encoding, options)]"
begin

text \<open>A step of the world that takes time and submits nothing.\<close>

definition quiet :: "'w \<Rightarrow> 'w \<Rightarrow> bool" where
  "quiet w w' \<longleftrightarrow> elapsed w \<le> elapsed w' \<and> submitted w' = submitted w"

lemma quiet_refl: "quiet w w"
  by (simp add: quiet_def)

lemma quiet_trans: "quiet w w' \<Longrightarrow> quiet w' w'' \<Longrightarrow> quiet w w''"
  by (auto simp: quiet_def)

definition poller_ok :: "('w \<Rightarrow> 'w \<times> AckResultV1 option) option \<Rightarrow> (AckResultV1 \<Rightarrow> 'w \<Rightarrow> 'w) option \<Rightarrow> bool" where
  "poller_ok cancelled obs \<longleftrightarrow> (\<forall>f w. cancelled = Some f \<longrightarrow> quiet w (fst (f w))) \<and>
     (\<forall>f r w. obs = Some f \<longrightarrow> quiet w (f r w))"

lemma Cancelled_quiet: "poller_ok cancelled obs \<Longrightarrow> CheckCancelled cancelled w = (w', r) \<Longrightarrow> quiet w w'"
  by (auto simp: CheckCancelled_def poller_ok_def quiet_refl split: option.splits) (metis fst_conv)

lemma now_quiet: "ct_now ct w = (w', t) \<Longrightarrow> quiet w w'"
  using now_law[of w w' t] by (auto simp: quiet_def)

lemma PollGet_quiet:
  assumes "TransportGet ct key (PollSink key obs) timeout \<lparr>pr_observed = None, pr_protocol_error = None\<rparr> w = ((s', w'), get)"
    and "poller_ok cancelled obs"
  shows "quiet w w' \<and> (\<forall>r. pr_observed s' = Some r \<longrightarrow> (\<exists>w1 cs. ct_get ct key timeout w = (w1, Inr cs) \<and> ack_reply key r cs))"
proof -
  obtain w1 g where g: "ct_get ct key timeout w = (w1, g)" by fastforce
  have q: "quiet w w1" using get_law[OF g] by (simp add: quiet_def)
  show ?thesis
  proof (cases g)
    case (Inl e)
    with assms(1) g q show ?thesis by (auto simp: TransportGet_def)
  next
    case (Inr cs)
    with assms(1) g have "deliver (PollSink key obs) {} cs (\<lparr>pr_observed = None, pr_protocol_error = None\<rparr>, w1) = ((s', w'), get)"
      by (simp add: TransportGet_def)
    from deliver_PollSink[OF this] show ?thesis
    proof
      assume "(s', w') = (\<lparr>pr_observed = None, pr_protocol_error = None\<rparr>, w1)"
      with q show ?thesis by simp
    next
      assume "\<exists>reply. Some (Inr reply) \<in> set cs \<and> (s', w') = fst (PollSink key obs (qr_key reply) (qr_payload reply)
        (qr_encoding reply) (\<lparr>pr_observed = None, pr_protocol_error = None\<rparr>, w1))"
      then obtain reply where reply: "Some (Inr reply) \<in> set cs" "fst (PollSink key obs (qr_key reply) (qr_payload reply)
        (qr_encoding reply) (\<lparr>pr_observed = None, pr_protocol_error = None\<rparr>, w1)) = (s', w')" by auto
      from PollSink_observed(2)[OF reply(2)] assms(2) have "quiet w1 w'" by (auto simp: poller_ok_def quiet_refl)
      with q PollSink_observed(1)[OF reply(2)] reply(1) g Inr show ?thesis
        by (auto simp: ack_reply_def intro: quiet_trans)
    qed
  qed
qed

text \<open>A round that goes on leaves the deadline ahead; a round that ends says why.\<close>

definition poll_result_ok :: "string \<Rightarrow> ('w \<Rightarrow> 'w \<times> AckResultV1 option) option \<Rightarrow> AckResultV1 Result \<Rightarrow> bool" where
  "poll_result_ok key cancelled result \<longleftrightarrow> (case result of
     Inr r \<Rightarrow> cancelled \<noteq> None \<or> (\<exists>timeout w w' cs. ct_get ct key timeout w = (w', Inr cs) \<and> ack_reply key r cs)
   | Inl e \<Rightarrow> ei_status e = Error \<or> ei_status e = Timeout)"

lemma PollRound_step:
  assumes run: "PollRound ct key deadline cancelled obs d w = (w', out)" and ok: "poller_ok cancelled obs"
  shows "quiet w w' \<and> (case out of
    Inl result \<Rightarrow> poll_result_ok key cancelled result
  | Inr (d', delay) \<Rightarrow> 0 < delay \<and> delay \<le> kAckQueryRetryDelay \<and> elapsed w < deadline)"
proof -
  have timeout: "poll_result_ok key cancelled (PollTimeout x)" for x
    by (simp add: poll_result_ok_def PollTimeout_def Result_Err_def)
  obtain w1 c1 where c1: "CheckCancelled cancelled w = (w1, c1)" by fastforce
  note q1 = Cancelled_quiet[OF ok c1]
  show ?thesis
  proof (cases c1)
    case (Some r)
    then have "cancelled \<noteq> None" using c1 by (auto simp: CheckCancelled_def split: option.splits)
    with run c1 Some q1 show ?thesis by (auto simp: PollRound_def poll_result_ok_def Result_Ok_def)
  next
    case None
    obtain w2 t2 where n2: "ct_now ct w1 = (w2, t2)" by fastforce
    note q2 = quiet_trans[OF q1 now_quiet[OF n2]] and l2 = now_law[OF n2]
    show ?thesis
    proof (cases "ceil_ms (deadline - t2) \<le> 0")
      case True
      with run c1 None n2 q2 timeout show ?thesis by (auto simp: PollRound_def)
    next
      case pos: False
      then have lt: "elapsed w < deadline" using ceil_ms_pos[of "deadline - t2"] l2 q1 by (simp add: quiet_def)
      obtain s3 w3 g3 where g3: "TransportGet ct key (PollSink key obs) (min kAckQueryWindowMax (ceil_ms (deadline - t2)))
        \<lparr>pr_observed = None, pr_protocol_error = None\<rparr> w2 = ((s3, w3), g3)" by (metis surj_pair)
      note p3 = PollGet_quiet[OF g3 ok]
      obtain w4 c4 where c4: "CheckCancelled cancelled w3 = (w4, c4)" by fastforce
      have q4: "quiet w w4" using q2 p3 Cancelled_quiet[OF ok c4] by (meson quiet_trans)
      define d3 where "d3 = (case g3 of Inl e \<Rightarrow> if pd_transport_error_seen d then d
          else \<lparr>pd_latest_cause = ei_cause e, pd_latest_message = SanitizeAckDiagnostic (ei_message e), pd_transport_error_seen = True\<rparr>
        | Inr _ \<Rightarrow> d)"
      obtain w5 t5 where n5: "ct_now ct w4 = (w5, t5)" by fastforce
      note q5 = quiet_trans[OF q4 now_quiet[OF n5]]
      have run': "(w', out) = (case c4 of Some r \<Rightarrow> (w4, Inl (Result_Ok r)) | None \<Rightarrow>
          (case pr_protocol_error s3 of Some m \<Rightarrow> (w4, Inl (Err Error m)) | None \<Rightarrow>
            (case pr_observed s3 of Some r \<Rightarrow> (w4, Inl (Result_Ok r)) | None \<Rightarrow>
              if ceil_ms (deadline - t5) \<le> 0 then (w5, Inl (PollTimeout d3))
              else (w5, Inr (d3, min kAckQueryRetryDelay (ceil_ms (deadline - t5)))))))"
        unfolding run[symmetric] PollRound_def Let_def c1 None
        by (cases c4; cases "pr_protocol_error s3"; cases "pr_observed s3") (simp_all add: n2 pos g3 c4 n5 d3_def)
      show ?thesis
      proof (cases c4)
        case (Some r)
        then have "cancelled \<noteq> None" using c4 by (auto simp: CheckCancelled_def split: option.splits)
        with run' Some q4 show ?thesis by (auto simp: poll_result_ok_def Result_Ok_def)
      next
        case c4None: None
        show ?thesis
        proof (cases "pr_protocol_error s3")
          case (Some m)
          with run' c4None q4 show ?thesis by (auto simp: poll_result_ok_def Result_Err_def)
        next
          case pNone: None
          show ?thesis
          proof (cases "pr_observed s3")
            case (Some r)
            with p3 have "poll_result_ok key cancelled (Result_Ok r)" by (auto simp: poll_result_ok_def Result_Ok_def)
            with run' c4None pNone Some q4 show ?thesis by auto
          next
            case None
            with run' c4None pNone q5 timeout lt show ?thesis by (auto simp: kAckQueryRetryDelay_def split: if_splits)
          qed
        qed
      qed
    qed
  qed
qed

lemma PollLoop_returns:
  assumes ok: "poller_ok cancelled obs"
  shows "\<exists>w' result. PollLoop ct key deadline cancelled obs d w = Some (w', result) \<and> quiet w w' \<and> poll_result_ok key cancelled result"
proof (induction "nat (deadline - elapsed w)" arbitrary: d w rule: less_induct)
  case less
  obtain w1 out where r: "PollRound ct key deadline cancelled obs d w = (w1, out)" by fastforce
  note step = PollRound_step[OF r ok]
  show ?case
  proof (cases out)
    case (Inl result)
    with r step show ?thesis by (subst PollLoop.simps) simp
  next
    case (Inr p)
    obtain d' delay where p: "p = (d', delay)" by fastforce
    with step Inr have s: "quiet w w1" "0 < delay" "elapsed w < deadline" by auto
    have sl: "elapsed w1 + delay * ns_per_ms \<le> elapsed (ct_sleep ct delay w1)" "submitted (ct_sleep ct delay w1) = submitted w1"
      using sleep_law[of delay w1] s(2) by auto
    have "delay * ns_per_ms > 0" using s(2) by (simp add: ns_per_ms_def)
    with sl s have q: "quiet w (ct_sleep ct delay w1)" "elapsed w < elapsed (ct_sleep ct delay w1)" by (auto simp: quiet_def)
    then have "nat (deadline - elapsed (ct_sleep ct delay w1)) < nat (deadline - elapsed w)" using s(3) by simp
    from less[OF this, of d'] q(1) have "\<exists>w' result. PollLoop ct key deadline cancelled obs d' (ct_sleep ct delay w1) = Some (w', result) \<and>
        quiet w w' \<and> poll_result_ok key cancelled result" by (meson quiet_trans)
    with r Inr p show ?thesis by (subst PollLoop.simps) simp
  qed
qed

lemma Submit_returns:
  assumes "0 < total_deadline" "\<not> (encoding = kSitosV1Batch \<and> DecodeBatch payload = Some [])"
    and key: "BuildMetaAckKey pfx (FormatAckToken (GenerateAckToken words)) = Some key"
  shows "\<exists>w' result. SubmitAcknowledgedWrite ct words pfx full_key payload encoding total_deadline w = Some (w', result) \<and>
    submitted w' = submitted w @ [(full_key, payload, encoding, \<lparr>po_ack_token = Some (GenerateAckToken words), po_fence_lane = None\<rparr>)] \<and>
    poll_result_ok key None result"
proof -
  let ?token = "GenerateAckToken words"
  obtain w1 now where n: "ct_now ct w = (w1, now)" by fastforce
  let ?d = "SaturatingDeadlineAt now total_deadline"
  let ?w2 = "WaitForStorageNode ct pfx ?d w1"
  obtain w3 put where p: "ct_put ct full_key payload encoding \<lparr>po_ack_token = Some ?token, po_fence_lane = None\<rparr> ?w2 = (w3, put)" by fastforce
  have s: "submitted w3 = submitted w @ [(full_key, payload, encoding, \<lparr>po_ack_token = Some ?token, po_fence_lane = None\<rparr>)]"
    using now_law[OF n] wait_law[of w1 "pfx @ ''/meta/ack/*''" ?d] put_law[OF p] by (simp add: WaitForStorageNode_def)
  have "poller_ok None None" by (simp add: poller_ok_def)
  then obtain w' result where loop: "PollLoop ct key ?d None None (case (case put of Inl e \<Rightarrow> Some e | Inr _ \<Rightarrow> None) of
       None \<Rightarrow> \<lparr>pd_latest_cause = no_error_code, pd_latest_message = '''', pd_transport_error_seen = False\<rparr>
     | Some e \<Rightarrow> \<lparr>pd_latest_cause = ei_cause e, pd_latest_message = ei_message e, pd_transport_error_seen = True\<rparr>) w3 = Some (w', result)"
    "quiet w3 w'" "poll_result_ok key None result" using PollLoop_returns by blast
  have "SubmitAcknowledgedWrite ct words pfx full_key payload encoding total_deadline w = Some (w', result)"
    using assms n p loop(1) by (auto simp: SubmitAcknowledgedWrite_def PollAcknowledgement_def Let_def)
  with loop s show ?thesis by (auto simp: quiet_def)
qed

end


section \<open>Properties\<close>

text \<open>C5: an acknowledged write is submitted exactly once and its polling ends.  Under any transport and
  clock that keep the contract, after validation the call returns, having put the data once with
  the token it generated and never again; a success is a result some query's reply carried under
  the token's key and encoding, and a failure is a protocol error or a timeout.\<close>

theorem acknowledged_write_submitted_once:
  assumes "client_world ct elapsed submitted" "0 < total_deadline" "encoding = kSitosV1Batch \<longrightarrow> DecodeBatch payload \<noteq> Some []"
    "BuildMetaAckKey pfx (FormatAckToken (GenerateAckToken words)) = Some key"
  shows "\<exists>w' result. SubmitAcknowledgedWrite ct words pfx full_key payload encoding total_deadline w = Some (w', result) \<and>
    submitted w' = submitted w @ [(full_key, payload, encoding, \<lparr>po_ack_token = Some (GenerateAckToken words), po_fence_lane = None\<rparr>)] \<and>
    (case result of
       Inr r \<Rightarrow> \<exists>timeout w1 w2 cs reply. ct_get ct key timeout w1 = (w2, Result_Ok cs) \<and> Some (Result_Ok reply) \<in> set cs \<and>
         qr_key reply = key \<and> qr_encoding reply = kSitosV1Ack \<and> DecodeAckResult (qr_payload reply) = Result_Ok r
     | Inl e \<Rightarrow> ei_status e = Error \<or> ei_status e = Timeout)"
proof -
  obtain w' result where "SubmitAcknowledgedWrite ct words pfx full_key payload encoding total_deadline w = Some (w', result)"
    "submitted w' = submitted w @ [(full_key, payload, encoding, \<lparr>po_ack_token = Some (GenerateAckToken words), po_fence_lane = None\<rparr>)]"
    "client_world.poll_result_ok ct key None result"
    using client_world.Submit_returns[OF assms(1,2) _ assms(4)] assms(3) by blast
  moreover from this(3) have "case result of
       Inr r \<Rightarrow> \<exists>timeout w1 w2 cs reply. ct_get ct key timeout w1 = (w2, Result_Ok cs) \<and> Some (Result_Ok reply) \<in> set cs \<and>
         qr_key reply = key \<and> qr_encoding reply = kSitosV1Ack \<and> DecodeAckResult (qr_payload reply) = Result_Ok r
     | Inl e \<Rightarrow> ei_status e = Error \<or> ei_status e = Timeout"
    unfolding client_world.poll_result_ok_def[OF assms(1)]
    by (auto simp: ack_reply_def Result_Ok_def split: sum.splits)
  ultimately show ?thesis by blast
qed


text \<open>A transport without a node: every query takes its whole window and brings no reply.\<close>

definition SilentTransport :: "(int \<times> (string \<times> bytes \<times> string \<times> PutOptions) list) ClientTransport" where
  "SilentTransport = \<lparr>ct_now = (\<lambda>w. (w, fst w)), ct_sleep = (\<lambda>d (t, ps). (t + d * ns_per_ms, ps)),
     ct_put = (\<lambda>k v enc options (t, ps). ((t, ps @ [(k, v, enc, options)]), Result_Ok ())),
     ct_delete = (\<lambda>k options w. (w, Result_Ok ())),
     ct_get = (\<lambda>k timeout (t, ps). ((t + max 0 timeout * ns_per_ms, ps), Result_Ok [])),
     ct_wait = (\<lambda>k deadline (t, ps). (max t deadline, ps))\<rparr>"

interpretation silent: client_world SilentTransport fst snd
  by unfold_locales (auto simp: SilentTransport_def ns_per_ms_def split: prod.splits)

theorem acknowledged_write_submitted_once_witness:
  "\<exists>w' result. SubmitAcknowledgedWrite SilentTransport [1, 2, 3, 4] ''app'' ''app/base/x'' [0, 1] kSitosV1 2500 (0, []) = Some (w', result) \<and>
     map fst (snd w') = [''app/base/x'']"
proof -
  have "BuildMetaAckKey ''app'' (FormatAckToken (GenerateAckToken [1, 2, 3, 4])) \<noteq> None" by code_simp
  then obtain key where key: "BuildMetaAckKey ''app'' (FormatAckToken (GenerateAckToken [1, 2, 3, 4])) = Some key" by blast
  have "kSitosV1 \<noteq> kSitosV1Batch" by code_simp
  with acknowledged_write_submitted_once[OF silent.client_world_axioms _ _ key, of 2500 kSitosV1 "[0, 1]" "''app/base/x''" "(0, [])"]
  show ?thesis by auto
qed

end
