(* ===== verification/ParamStore.thy ===== *)
theory ParamStore
  imports AckClient ListPrefix
begin

text \<open>
  The synchronous parameter client, \<open>src/param_store.cpp\<close>: validation, writes with and without
  acknowledgement, point reads and lists over any transport.  A call that would not return is
  \<open>None\<close>; only the acknowledged writes can, and only under a clock that stands still.
\<close>

section \<open>Scopes and selectors\<close>

definition ScopePath :: "Scope \<Rightarrow> string" where
  "ScopePath scope = (case scope_kind scope of
     ScopeBase \<Rightarrow> ''base''
   | ScopeSession \<Rightarrow> ''session/'' @ scope_sid scope
   | ScopeSnap \<Rightarrow> ''snap/'' @ scope_sid scope)"

definition BuildScopeQuery :: "string \<Rightarrow> string \<Rightarrow> string \<Rightarrow> string" where
  "BuildScopeQuery pfx scope_path safe_parent =
     pfx @ ''/'' @ scope_path @ ''/'' @ (if safe_parent \<noteq> '''' then safe_parent @ ''/**'' else ''**'')"

text \<open>\<open>substr(0, rfind('/'))\<close>: the part before the last slash, if there is one.\<close>

definition before_last_slash :: "string \<Rightarrow> string option" where
  "before_last_slash s = (case dropWhile (\<lambda>c. c \<noteq> CHR ''/'') (rev s) of [] \<Rightarrow> None | _ # r \<Rightarrow> Some (rev r))"

definition SafeParent :: "string \<Rightarrow> string" where
  "SafeParent requested_prefix =
    (if requested_prefix = '''' then ''''
     else if last requested_prefix = CHR ''/'' then butlast requested_prefix
     else (case before_last_slash requested_prefix of None \<Rightarrow> '''' | Some p \<Rightarrow> p))"

definition IsUnderSafeParent :: "string \<Rightarrow> string \<Rightarrow> bool" where
  "IsUnderSafeParent relative safe_parent \<longleftrightarrow> safe_parent = '''' \<or> relative = safe_parent \<or>
     length relative > length safe_parent \<and> starts_with relative safe_parent \<and> relative ! length safe_parent = CHR ''/''"

definition IsExpectedKind :: "ParsedKey \<Rightarrow> Scope \<Rightarrow> bool" where
  "IsExpectedKind k scope = (case scope_kind scope of
     ScopeBase \<Rightarrow> pk_kind k = KeyBase
   | ScopeSession \<Rightarrow> pk_kind k = KeySession \<and> pk_sid k = scope_sid scope
   | ScopeSnap \<Rightarrow> pk_kind k = KeySnapshot \<and> pk_sid k = scope_sid scope)"

section \<open>Replies\<close>

definition DecodeReply :: "string \<Rightarrow> string \<Rightarrow> bytes \<Rightarrow> string \<Rightarrow> ParamValue Result" where
  "DecodeReply expected_key actual_key payload encoding =
    (if actual_key \<noteq> expected_key then Err Error ''transport returned an unexpected key''
     else if encoding \<noteq> kSitosV1 then Err Error ''transport returned an unexpected encoding''
     else (case Decode payload of
       None \<Rightarrow> Err Error ''transport returned malformed payload''
     | Some v \<Rightarrow> Result_Ok v))"

record ListReplyContext =
  lr_config_prefix :: string
  lr_scope :: Scope
  lr_safe_parent :: string
  lr_prefix :: string

definition DecodeListReply :: "ListReplyContext \<Rightarrow> string \<Rightarrow> bytes \<Rightarrow> string \<Rightarrow> (string \<times> ParamValue) list \<Rightarrow>
    (string \<times> ParamValue) list \<times> unit Result" where
  "DecodeListReply context full_key payload encoding values =
    (case ParseKey (lr_config_prefix context) full_key of
       None \<Rightarrow> (values, Err Error ''transport returned an invalid list key'')
     | Some k \<Rightarrow>
         if \<not> IsExpectedKind k (lr_scope context) \<or> pk_is_batch k \<or>
            \<not> IsUnderSafeParent (pk_relative_key k) (lr_safe_parent context)
         then (values, Err Error ''transport returned an invalid list key'')
         else if lr_prefix context \<noteq> '''' \<and> \<not> starts_with (pk_relative_key k) (lr_prefix context)
         then (values, Result_Ok ())
         else if encoding \<noteq> kSitosV1 then (values, Err Error ''transport returned an unexpected encoding'')
         else (case Decode payload of
           None \<Rightarrow> (values, Err Error ''transport returned malformed payload'')
         | Some v \<Rightarrow> (values @ [(pk_relative_key k, v)], Result_Ok ())))"

section \<open>The store\<close>

text \<open>\<open>pst_open\<close> is false in a moved-from store.\<close>

record ParamStore =
  pst_open :: bool
  pst_config :: ClientConfig

record WriteOptions =
  wo_ack :: bool
  wo_ack_timeout :: int

definition DefaultWriteOptions :: WriteOptions where
  "DefaultWriteOptions = \<lparr>wo_ack = True, wo_ack_timeout = 3000\<rparr>"

text \<open>\<open>Open\<close> with an injected transport, which may be a null pointer.\<close>

definition ParamStore_Open :: "bool \<Rightarrow> ClientConfig \<Rightarrow> ParamStore Result" where
  "ParamStore_Open has_transport config =
    (if \<not> has_transport then Err InvalidArgument ''null transport''
     else (case ValidateClientConfig config of
       Inl e \<Rightarrow> Inl e
     | Inr _ \<Rightarrow>
         if cc_zenoh_config_json config \<noteq> None
         then Err InvalidArgument ''injected transport cannot apply zenoh configuration''
         else Result_Ok \<lparr>pst_open = True, pst_config = config\<rparr>))"

definition ParseAndValidateScope :: "string \<Rightarrow> Scope Result" where
  "ParseAndValidateScope scope = (case ParseScope scope of
     None \<Rightarrow> Err InvalidKey ''invalid scope''
   | Some s \<Rightarrow> Result_Ok s)"

definition ValidateUserKey :: "string \<Rightarrow> unit Result" where
  "ValidateUserKey key = (if \<not> IsValidKey key then Err InvalidKey ''invalid key'' else Result_Ok ())"

definition MapAcknowledgement :: "AckResultV1 Result \<Rightarrow> AckOperationKind \<Rightarrow> unit Result" where
  "MapAcknowledgement acknowledgement expected_kind = (case acknowledgement of
     Inl e \<Rightarrow> Inl e
   | Inr result \<Rightarrow>
       if ar_operation_kind result \<noteq> expected_kind then Err Error ''acknowledgement operation kind mismatch''
       else if ar_status result = Ok then Result_Ok ()
       else Err (ar_status result) (ar_message result))"

definition NoPutOptions :: PutOptions where
  "NoPutOptions = \<lparr>po_ack_token = None, po_fence_lane = None\<rparr>"

definition ParamStore_Put :: "'w ClientTransport \<Rightarrow> u32 list \<Rightarrow> ParamStore \<Rightarrow> string \<Rightarrow> string \<Rightarrow> ParamValue \<Rightarrow> WriteOptions \<Rightarrow>
    'w \<Rightarrow> ('w \<times> unit Result) option" where
  "ParamStore_Put ct words store scope key v options w =
    (if \<not> pst_open store then Some (w, Err InvalidArgument ''moved-from ParamStore'')
     else (case ParseAndValidateScope scope of
       Inl e \<Rightarrow> Some (w, Inl e)
     | Inr parsed_scope \<Rightarrow>
         (case ValidateUserKey key of
            Inl e \<Rightarrow> Some (w, Inl e)
          | Inr _ \<Rightarrow>
              if scope_kind parsed_scope = ScopeSnap then Some (w, Err ReadOnly ''snapshot scope is read-only'')
              else if wo_ack options \<and> wo_ack_timeout options \<le> 0
              then Some (w, Err InvalidArgument ''acknowledgement deadline must be positive'')
              else (case BuildKey (cc_prefix (pst_config store)) scope key of
                None \<Rightarrow> Some (w, Err InvalidKey ''invalid parameter key'')
              | Some full_key \<Rightarrow>
                  if \<not> wo_ack options then Some (ct_put ct full_key (Encode v) kSitosV1 NoPutOptions w)
                  else map_option (map_prod (\<lambda>w. w) (\<lambda>r. MapAcknowledgement r OpPut))
                    (SubmitAcknowledgedWrite ct words (cc_prefix (pst_config store)) full_key (Encode v) kSitosV1
                       (wo_ack_timeout options) w)))))"

definition ParamStore_PutBatch :: "'w ClientTransport \<Rightarrow> u32 list \<Rightarrow> ParamStore \<Rightarrow> string \<Rightarrow> BatchEntry list \<Rightarrow> WriteOptions \<Rightarrow>
    'w \<Rightarrow> ('w \<times> unit Result) option" where
  "ParamStore_PutBatch ct words store scope batch options w =
    (if \<not> pst_open store then Some (w, Err InvalidArgument ''moved-from ParamStore'')
     else (case ParseAndValidateScope scope of
       Inl e \<Rightarrow> Some (w, Inl e)
     | Inr parsed_scope \<Rightarrow>
         if scope_kind parsed_scope = ScopeSnap then Some (w, Err ReadOnly ''snapshot scope is read-only'')
         else if wo_ack options \<and> wo_ack_timeout options \<le> 0
         then Some (w, Err InvalidArgument ''acknowledgement deadline must be positive'')
         else (case BuildBatchKey (cc_prefix (pst_config store)) scope of
           None \<Rightarrow> Some (w, Err InvalidKey ''invalid batch scope'')
         | Some key \<Rightarrow>
             (case List.find (\<lambda>entry. \<not> IsOk (ValidateUserKey (be_key entry))) batch of
                Some entry \<Rightarrow> Some (w, ValidateUserKey (be_key entry))
              | None \<Rightarrow>
                  if batch = [] then Some (w, Result_Ok ())
                  else if \<not> wo_ack options then Some (ct_put ct key (EncodeBatch batch) kSitosV1Batch NoPutOptions w)
                  else map_option (map_prod (\<lambda>w. w) (\<lambda>r. MapAcknowledgement r OpBatch))
                    (SubmitAcknowledgedWrite ct words (cc_prefix (pst_config store)) key (EncodeBatch batch) kSitosV1Batch
                       (wo_ack_timeout options) w)))))"

definition ParamStore_Delete :: "'w ClientTransport \<Rightarrow> ParamStore \<Rightarrow> string \<Rightarrow> string \<Rightarrow> 'w \<Rightarrow> 'w \<times> unit Result" where
  "ParamStore_Delete ct store scope key w =
    (if \<not> pst_open store then (w, Err InvalidArgument ''moved-from ParamStore'')
     else (case ParseAndValidateScope scope of
       Inl e \<Rightarrow> (w, Inl e)
     | Inr parsed_scope \<Rightarrow>
         (case ValidateUserKey key of
            Inl e \<Rightarrow> (w, Inl e)
          | Inr _ \<Rightarrow>
              if scope_kind parsed_scope = ScopeSnap then (w, Err ReadOnly ''snapshot scope is read-only'')
              else if scope_kind parsed_scope = ScopeSession then (w, Err InvalidKey ''session delete is not supported'')
              else (case BuildKey (cc_prefix (pst_config store)) scope key of
                None \<Rightarrow> (w, Err InvalidKey ''invalid parameter key'')
              | Some full_key \<Rightarrow> ct_delete ct full_key NoPutOptions w))))"

definition GetSink :: "string \<Rightarrow> (ParamValue Result option \<times> 'w) QueryResultSink" where
  "GetSink full_key actual_key payload encoding = (\<lambda>(callback_result, w). case callback_result of
     Some _ \<Rightarrow> ((callback_result, w), Some False)
   | None \<Rightarrow>
       (let r = DecodeReply full_key actual_key payload encoding in ((Some r, w), Some (IsOk r))))"

definition ParamStore_Get :: "'w ClientTransport \<Rightarrow> ParamStore \<Rightarrow> string \<Rightarrow> string \<Rightarrow> 'w \<Rightarrow> 'w \<times> ParamValue Result" where
  "ParamStore_Get ct store scope key w =
    (if \<not> pst_open store then (w, Err InvalidArgument ''moved-from ParamStore'')
     else (case ParseAndValidateScope scope of
       Inl e \<Rightarrow> (w, Inl e)
     | Inr parsed_scope \<Rightarrow>
         (case ValidateUserKey key of
            Inl e \<Rightarrow> (w, Inl e)
          | Inr _ \<Rightarrow>
              (case BuildKey (cc_prefix (pst_config store)) scope key of
                 None \<Rightarrow> (w, Err InvalidKey ''invalid parameter key'')
               | Some full_key \<Rightarrow>
                   (case WaitForStorageNodeWithin ct (cc_prefix (pst_config store)) (cc_query_timeout (pst_config store)) w of
                      (w, query_timeout) \<Rightarrow>
                        (case TransportGet ct full_key (GetSink full_key) query_timeout None w of
                           ((_, w), Inl e) \<Rightarrow> (w, Inl e)
                         | ((Some r, w), Inr _) \<Rightarrow> (w, r)
                         | ((None, w), Inr _) \<Rightarrow> (w, Err NotFound ''parameter not found'')))))))"

definition ParamStore_Contains :: "'w ClientTransport \<Rightarrow> ParamStore \<Rightarrow> string \<Rightarrow> string \<Rightarrow> 'w \<Rightarrow> 'w \<times> bool Result" where
  "ParamStore_Contains ct store scope key w = (case ParamStore_Get ct store scope key w of
     (w, r) \<Rightarrow>
       (w, if \<not> IsOk r \<and> StatusCode r = NotFound then Result_Ok False
           else if \<not> IsOk r then ErrFrom r
           else Result_Ok True))"

definition ListReplySink :: "ListReplyContext \<Rightarrow> (((string \<times> ParamValue) list \<times> unit Result option) \<times> 'w) QueryResultSink" where
  "ListReplySink context full_key payload encoding = (\<lambda>((values, callback_error), w).
    case DecodeListReply context full_key payload encoding values of
      (values, Inl e) \<Rightarrow> (((values, Some (Inl e)), w), Some False)
    | (values, Inr _) \<Rightarrow> (((values, callback_error), w), Some True))"

text \<open>The loop over the values; the caller's sink may stop it.\<close>

fun feed_values :: "(string \<Rightarrow> ParamValue \<Rightarrow> 'x \<Rightarrow> 'x \<times> bool) \<Rightarrow> (string \<times> ParamValue) list \<Rightarrow> 'x \<Rightarrow> 'x" where
  "feed_values sink [] x = x"
| "feed_values sink ((k, v) # es) x = (case sink k v x of (x', go) \<Rightarrow> if \<not> go then x' else feed_values sink es x')"

text \<open>\<open>sink\<close> is \<open>None\<close> for an empty function object.\<close>

definition ParamStore_List :: "'w ClientTransport \<Rightarrow> ParamStore \<Rightarrow> string \<Rightarrow> string \<Rightarrow>
    (string \<Rightarrow> ParamValue \<Rightarrow> 'x \<Rightarrow> 'x \<times> bool) option \<Rightarrow> 'x \<Rightarrow> 'w \<Rightarrow> ('x \<times> 'w) \<times> unit Result" where
  "ParamStore_List ct store scope pfx sink x w =
    (if \<not> pst_open store then ((x, w), Err InvalidArgument ''moved-from ParamStore'')
     else (case sink of
       None \<Rightarrow> ((x, w), Err InvalidArgument ''null list sink'')
     | Some sink \<Rightarrow>
         (case ParseAndValidateScope scope of
            Inl e \<Rightarrow> ((x, w), Inl e)
          | Inr parsed_scope \<Rightarrow>
              (case ValidateListPrefix pfx of
                 Inl e \<Rightarrow> ((x, w), Inl e)
               | Inr _ \<Rightarrow>
                   (let config_prefix = cc_prefix (pst_config store); safe_parent = SafeParent pfx;
                        selector = BuildScopeQuery config_prefix (ScopePath parsed_scope) safe_parent;
                        context = \<lparr>lr_config_prefix = config_prefix, lr_scope = parsed_scope,
                                   lr_safe_parent = safe_parent, lr_prefix = pfx\<rparr> in
                    case WaitForStorageNodeWithin ct config_prefix (cc_query_timeout (pst_config store)) w of
                      (w, query_timeout) \<Rightarrow>
                        (case TransportGet ct selector (ListReplySink context) query_timeout ([], None) w of
                           ((_, w), Inl e) \<Rightarrow> ((x, w), Inl e)
                         | (((values, Some error), w), Inr _) \<Rightarrow> ((x, w), error)
                         | (((values, None), w), Inr _) \<Rightarrow>
                             ((feed_values sink (sort_key fst values) x, w), Result_Ok ())))))))"


section \<open>Local rejections\<close>

text \<open>A target no request can be made for: a scope or a key that does not parse, or a client prefix
  that no key can start with.\<close>

definition bad_target :: "ParamStore \<Rightarrow> string \<Rightarrow> string \<Rightarrow> bool" where
  "bad_target store scope key \<longleftrightarrow> ParseScope scope = None \<or> \<not> IsValidKey key \<or> \<not> IsValidPrefix (cc_prefix (pst_config store))"

definition has_scope_kind :: "string \<Rightarrow> ScopeKind \<Rightarrow> bool" where
  "has_scope_kind scope kind \<longleftrightarrow> (\<exists>s. ParseScope scope = Some s \<and> scope_kind s = kind)"

lemmas local_defs = bad_target_def has_scope_kind_def ParseAndValidateScope_def ValidateUserKey_def Result_Err_def Result_Ok_def
  BuildKey_def IsOk_def

lemma Put_refused:
  assumes "\<not> pst_open store \<or> bad_target store scope key \<or> has_scope_kind scope ScopeSnap \<or> wo_ack options \<and> wo_ack_timeout options \<le> 0"
  shows "\<exists>e. \<forall>ct words w. ParamStore_Put ct words store scope key v options w = Some (w, Inl e)"
  using assms by (cases "pst_open store"; cases "ParseScope scope"; cases "IsValidKey key"; cases "has_scope_kind scope ScopeSnap")
    (auto simp: ParamStore_Put_def local_defs)

lemma Delete_refused:
  assumes "\<not> pst_open store \<or> bad_target store scope key \<or> has_scope_kind scope ScopeSnap \<or> has_scope_kind scope ScopeSession"
  shows "\<exists>e. \<forall>ct w. ParamStore_Delete ct store scope key w = (w, Inl e)"
  using assms by (cases "pst_open store"; cases "ParseScope scope"; cases "IsValidKey key"; cases "has_scope_kind scope ScopeSnap")
    (auto simp: ParamStore_Delete_def local_defs)

lemma batch_find:
  "List.find (\<lambda>entry. \<not> IsOk (ValidateUserKey (be_key entry))) batch = Some entry \<Longrightarrow> \<exists>e. ValidateUserKey (be_key entry) = Inl e"
  by (cases "ValidateUserKey (be_key entry)") (auto simp: find_Some_iff IsOk_def)

lemma batch_found:
  "entry \<in> set batch \<Longrightarrow> \<not> IsValidKey (be_key entry) \<Longrightarrow>
     List.find (\<lambda>entry. \<not> IsOk (ValidateUserKey (be_key entry))) batch \<noteq> None"
  by (auto simp: find_None_iff ValidateUserKey_def)

lemma PutBatch_refused:
  assumes "\<not> pst_open store \<or> ParseScope scope = None \<or> \<not> IsValidPrefix (cc_prefix (pst_config store)) \<or> has_scope_kind scope ScopeSnap \<or>
    wo_ack options \<and> wo_ack_timeout options \<le> 0 \<or> (\<exists>entry\<in>set batch. \<not> IsValidKey (be_key entry))"
  shows "\<exists>e. \<forall>ct words w. ParamStore_PutBatch ct words store scope batch options w = Some (w, Inl e)"
proof (cases "List.find (\<lambda>entry. \<not> IsOk (ValidateUserKey (be_key entry))) batch")
  case None
  then have valid: "\<forall>entry\<in>set batch. IsValidKey (be_key entry)" using batch_found by blast
  have key: "\<not> IsValidPrefix (cc_prefix (pst_config store)) \<Longrightarrow> BuildBatchKey (cc_prefix (pst_config store)) scope = None"
    by (simp add: BuildBatchKey_def)
  show ?thesis using assms valid key
    by (cases "ParseScope scope"; cases "pst_open store"; cases "wo_ack options \<and> wo_ack_timeout options \<le> 0";
        cases "has_scope_kind scope ScopeSnap")
      (auto simp: ParamStore_PutBatch_def has_scope_kind_def ParseAndValidateScope_def Result_Err_def Result_Ok_def)
next
  case (Some entry)
  from batch_find[OF Some] obtain e where "ValidateUserKey (be_key entry) = Inl e" by blast
  with Some show ?thesis
    by (cases "ParseScope scope"; cases "BuildBatchKey (cc_prefix (pst_config store)) scope"; cases "pst_open store";
        cases "wo_ack options \<and> wo_ack_timeout options \<le> 0"; cases "has_scope_kind scope ScopeSnap")
      (auto simp: ParamStore_PutBatch_def has_scope_kind_def ParseAndValidateScope_def Result_Err_def Result_Ok_def)
qed

lemma empty_batch: "\<exists>r. \<forall>ct words w. ParamStore_PutBatch ct words store scope [] options w = Some (w, r)"
  by (cases "ParseAndValidateScope scope"; cases "BuildBatchKey (cc_prefix (pst_config store)) scope"; cases "pst_open store";
      cases "wo_ack options \<and> wo_ack_timeout options \<le> 0"; cases "scope_kind (projr (ParseAndValidateScope scope)) = ScopeSnap")
    (auto simp: ParamStore_PutBatch_def)

lemma Get_refused:
  assumes "\<not> pst_open store \<or> bad_target store scope key"
  shows "\<exists>e. ei_status e \<noteq> NotFound \<and> (\<forall>ct w. ParamStore_Get ct store scope key w = (w, Inl e))"
  using assms by (cases "pst_open store"; cases "ParseScope scope"; cases "IsValidKey key")
    (auto simp: ParamStore_Get_def local_defs MakeErrorInfo_def)

lemma Contains_refused:
  assumes "\<not> pst_open store \<or> bad_target store scope key"
  shows "\<exists>e. \<forall>(ct :: 'w ClientTransport) w. ParamStore_Contains ct store scope key w = (w, Inl e)"
proof -
  obtain e where "ei_status e \<noteq> NotFound" "\<forall>(ct :: 'w ClientTransport) w. ParamStore_Get ct store scope key w = (w, Inl e)"
    using Get_refused[OF assms] by blast
  then show ?thesis by (intro exI[of _ e]) (simp add: ParamStore_Contains_def IsOk_def StatusCode_def ErrFrom_def)
qed

lemma List_refused:
  assumes "\<not> pst_open store \<or> sink = None \<or> ParseScope scope = None \<or> \<not> IsOk (ValidateListPrefix pfx)"
  shows "\<exists>e. \<forall>ct x w. ParamStore_List ct store scope pfx sink x w = ((x, w), Inl e)"
  using assms by (cases "pst_open store"; cases sink; cases "ParseScope scope"; cases "ValidateListPrefix pfx")
    (auto simp: ParamStore_List_def ParseAndValidateScope_def Result_Err_def Result_Ok_def IsOk_def)

end
