(* ===== verification/ClientNode.thy ===== *)
theory ClientNode
  imports ParamStore NodeQueryProps "HOL-Library.Multiset"
begin

text \<open>
  Lists of a client, \<open>src/param_store.cpp\<close>, over any transport: what \<open>ParamStore::List\<close> makes of
  whatever replies arrive, in whatever order, and what it therefore enumerates when they are the
  replies a storage node gives.
\<close>

section \<open>Keys of a scope\<close>

lemma scope_sid_valid: "ParseScope scope = Some s \<Longrightarrow> scope_kind s \<noteq> ScopeBase \<Longrightarrow> IsValidSessionId (scope_sid s)"
  by (auto simp: ParseScope_def split: if_splits)

definition scope_key :: "string \<Rightarrow> Scope \<Rightarrow> string \<Rightarrow> string" where
  "scope_key p s k = p @ ''/'' @ ScopePath s @ ''/'' @ k"

text \<open>The keys a list of a scope accepts are the scope's keys.\<close>

lemma scope_key_parsed:
  assumes "ParseScope scope = Some s"
  shows "(\<exists>pk. ParseKey p key = Some pk \<and> IsExpectedKind pk s \<and> \<not> pk_is_batch pk \<and> pk_relative_key pk = k) \<longleftrightarrow>
    key = scope_key p s k \<and> IsValidKey k"
proof
  assume "\<exists>pk. ParseKey p key = Some pk \<and> IsExpectedKind pk s \<and> \<not> pk_is_batch pk \<and> pk_relative_key pk = k"
  then obtain pk where "route_key p key pk" "IsExpectedKind pk s" "\<not> pk_is_batch pk" "pk_relative_key pk = k"
    using ParseKey_route by blast
  then show "key = scope_key p s k \<and> IsValidKey k"
    by (cases rule: route_key.cases)
      (auto simp: IsExpectedKind_def parsed_def scope_key_def ScopePath_def split: ScopeKind.splits)
next
  assume a: "key = scope_key p s k \<and> IsValidKey k"
  have "route_key p (scope_key p s k) (parsed (case scope_kind s of ScopeBase \<Rightarrow> KeyBase | ScopeSession \<Rightarrow> KeySession
      | ScopeSnap \<Rightarrow> KeySnapshot) (if scope_kind s = ScopeBase then '''' else scope_sid s) '''' k False None)"
    using a scope_sid_valid[OF assms] base_value[of k p] session_value[of "scope_sid s" k p] snap_value[of "scope_sid s" k p]
    by (cases "scope_kind s") (simp_all add: scope_key_def ScopePath_def)
  from route_key_parses[OF this] a
  show "\<exists>pk. ParseKey p key = Some pk \<and> IsExpectedKind pk s \<and> \<not> pk_is_batch pk \<and> pk_relative_key pk = k"
    by (auto simp: IsExpectedKind_def parsed_def split: ScopeKind.splits)
qed

lemma scope_key_inject: "scope_key p s k = scope_key p s k' \<longleftrightarrow> k = k'"
  by (simp add: scope_key_def)

section \<open>Replies to a list\<close>

text \<open>The replies of a \<open>Get\<close> that reach its sink: the first one of each key.\<close>

fun firsts :: "string set \<Rightarrow> QueryReply list \<Rightarrow> QueryReply list" where
  "firsts seen [] = []"
| "firsts seen (r # rs) = (if qr_key r \<in> seen then firsts seen rs else r # firsts (insert (qr_key r) seen) rs)"

text \<open>A reply that a list can take: a key of the scope under the selected parent, and a decodable
  value when the key is one the caller asked for.\<close>

definition list_reply_fits :: "ListReplyContext \<Rightarrow> QueryReply \<Rightarrow> bool" where
  "list_reply_fits context r \<longleftrightarrow> (\<exists>k. qr_key r = scope_key (lr_config_prefix context) (lr_scope context) k \<and> IsValidKey k \<and>
     IsUnderSafeParent k (lr_safe_parent context) \<and>
     (starts_with k (lr_prefix context) \<longrightarrow> qr_encoding r = kSitosV1 \<and> Decode (qr_payload r) \<noteq> None))"

text \<open>The entries the fitting replies carry.\<close>

definition list_entries :: "ListReplyContext \<Rightarrow> QueryReply list \<Rightarrow> (string \<times> ParamValue) set" where
  "list_entries context rs = {(k, v). starts_with k (lr_prefix context) \<and>
     (\<exists>r\<in>set rs. qr_key r = scope_key (lr_config_prefix context) (lr_scope context) k \<and> Decode (qr_payload r) = Some v)}"



lemma DecodeListReply_cases:
  assumes "ParseScope scope = Some (lr_scope context)"
  shows "if list_reply_fits context r
     then \<exists>es. DecodeListReply context (qr_key r) (qr_payload r) (qr_encoding r) vals = (vals @ es, Result_Ok ()) \<and>
       set es = list_entries context [r] \<and> (es = [] \<or> (\<exists>k v. es = [(k, v)]))
     else \<exists>vals' e. DecodeListReply context (qr_key r) (qr_payload r) (qr_encoding r) vals = (vals', Inl e)"
proof -
  let ?p = "lr_config_prefix context" and ?s = "lr_scope context"
  note parsed = scope_key_parsed[OF assms, of ?p "qr_key r"]
  show ?thesis
  proof (cases "\<exists>k. qr_key r = scope_key ?p ?s k \<and> IsValidKey k")
    case False
    then have "\<not> list_reply_fits context r" by (auto simp: list_reply_fits_def)
    moreover have "\<exists>e. DecodeListReply context (qr_key r) (qr_payload r) (qr_encoding r) vals = (vals, Inl e)"
      using parsed False by (auto simp: DecodeListReply_def Result_Err_def split: option.split)
    ultimately show ?thesis by auto
  next
    case True
    then obtain k where k: "qr_key r = scope_key ?p ?s k" "IsValidKey k" by blast
    then obtain pk where pk: "ParseKey ?p (qr_key r) = Some pk" "IsExpectedKind pk ?s" "\<not> pk_is_batch pk" "pk_relative_key pk = k"
      using parsed[of k] by blast
    have fits: "list_reply_fits context r \<longleftrightarrow> IsUnderSafeParent k (lr_safe_parent context) \<and>
        (starts_with k (lr_prefix context) \<longrightarrow> qr_encoding r = kSitosV1 \<and> Decode (qr_payload r) \<noteq> None)"
      using k by (auto simp: list_reply_fits_def scope_key_inject)
    have entries: "list_entries context [r] = (if starts_with k (lr_prefix context) then {(k, v) |v. Decode (qr_payload r) = Some v} else {})"
      using k(1) by (auto simp: list_entries_def scope_key_inject)
    show ?thesis unfolding fits entries using pk
      by (cases "Decode (qr_payload r)"; cases "lr_prefix context = ''''") (simp_all add: DecodeListReply_def Result_Err_def Result_Ok_def)
  qed
qed

lemma list_entries_Cons: "list_entries context (r # rs) = list_entries context [r] \<union> list_entries context rs"
  by (auto simp: list_entries_def)

lemma ListReplySink_taken:
  "DecodeListReply context key payload encoding vals = (vals', Result_Ok ()) \<Longrightarrow>
     ListReplySink context key payload encoding ((vals, er), w) = (((vals', er), w), Some True)"
  by (simp add: ListReplySink_def Result_Ok_def)

text \<open>Fitting replies are collected, each key once; the first other reply ends the delivery with its error.\<close>

lemma deliver_list_fits:
  assumes scope: "ParseScope scope = Some (lr_scope context)" and fit: "\<forall>r\<in>set (firsts seen rs). list_reply_fits context r"
    and vals: "distinct (map fst vals)" "scope_key (lr_config_prefix context) (lr_scope context) ` fst ` set vals \<subseteq> seen"
  shows "\<exists>es. deliver (ListReplySink context) seen (map (\<lambda>r. Some (Inr r)) rs) ((vals, None), w) = (((vals @ es, None), w), Result_Ok ()) \<and>
    distinct (map fst (vals @ es)) \<and> set es = list_entries context (firsts seen rs)"
  using fit vals
proof (induction rs arbitrary: seen vals)
  case Nil
  then show ?case by (simp add: list_entries_def)
next
  case (Cons r rs)
  show ?case
  proof (cases "qr_key r \<in> seen")
    case True
    with Cons show ?thesis by simp
  next
    case False
    then have fits: "list_reply_fits context r" using Cons.prems(1) by simp
    with DecodeListReply_cases[OF scope, of r vals] obtain es1 where es1:
        "DecodeListReply context (qr_key r) (qr_payload r) (qr_encoding r) vals = (vals @ es1, Result_Ok ())"
        "set es1 = list_entries context [r]" "es1 = [] \<or> (\<exists>k v. es1 = [(k, v)])" by auto
    have key: "scope_key (lr_config_prefix context) (lr_scope context) k = qr_key r" if "(k, v) \<in> set es1" for k v
      using that es1(2) by (auto simp: list_entries_def)
    have d: "distinct (map fst (vals @ es1))" using es1(3)
    proof (elim disjE exE)
      fix k v assume es: "es1 = [(k, v)]"
      then have "k \<notin> fst ` set vals" using key[of k v] Cons.prems(3) False by force
      with es Cons.prems(2) show ?thesis by simp
    qed (use Cons.prems(2) in simp)
    moreover have "scope_key (lr_config_prefix context) (lr_scope context) ` fst ` set (vals @ es1) \<subseteq> insert (qr_key r) seen"
      using Cons.prems(3) key by force
    moreover have "\<forall>r\<in>set (firsts (insert (qr_key r) seen) rs). list_reply_fits context r" using Cons.prems(1) False by simp
    ultimately obtain es2 where es2: "deliver (ListReplySink context) (insert (qr_key r) seen) (map (\<lambda>r. Some (Inr r)) rs) ((vals @ es1, None), w) =
        (((vals @ es1 @ es2, None), w), Result_Ok ())" "distinct (map fst (vals @ es1 @ es2))"
        "set es2 = list_entries context (firsts (insert (qr_key r) seen) rs)"
      using Cons.IH[of "insert (qr_key r) seen" "vals @ es1"] by auto
    have "set (es1 @ es2) = list_entries context (firsts seen (r # rs))"
      using False es1(2) es2(3) by (simp add: list_entries_Cons[of _ r "firsts _ _"])
    with False es2 show ?thesis
      by (intro exI[of _ "es1 @ es2"]) (simp add: ListReplySink_taken[OF es1(1)])
  qed
qed



text \<open>Delivery that ends with neither an error nor a refused reply saw fitting replies only.\<close>

lemma deliver_list_ok:
  assumes scope: "ParseScope scope = Some (lr_scope context)"
    and run: "deliver (ListReplySink context) seen cs ((vals, None), w) = (((vals', None), w'), Inr u)"
  shows "\<exists>rs. cs = map (\<lambda>r. Some (Inr r)) rs \<and> (\<forall>r\<in>set (firsts seen rs). list_reply_fits context r)"
  using run
proof (induction cs arbitrary: seen vals)
  case (Cons c cs)
  then obtain r where c: "c = Some (Inr r)"
    by (cases c; cases "the c") (auto simp: callback_failure_def conversion_failure_def Result_Err_def Let_def)
  show ?case
  proof (cases "qr_key r \<in> seen")
    case True
    with Cons.IH[of seen vals] Cons.prems c obtain rs where "cs = map (\<lambda>r. Some (Inr r)) rs" "\<forall>r\<in>set (firsts seen rs). list_reply_fits context r" by auto
    with c True show ?thesis by (intro exI[of _ "r # rs"]) simp
  next
    case False
    with DecodeListReply_cases[OF scope, of r vals] Cons.prems c have fits: "list_reply_fits context r"
      by (auto simp: ListReplySink_def split: if_splits)
    with DecodeListReply_cases[OF scope, of r vals] obtain vals1 where taken:
      "DecodeListReply context (qr_key r) (qr_payload r) (qr_encoding r) vals = (vals1, Result_Ok ())" by auto
    from False Cons.prems c have
      "deliver (ListReplySink context) (insert (qr_key r) seen) cs ((vals1, None), w) = (((vals', None), w'), Inr u)"
      by (simp add: ListReplySink_taken[OF taken])
    from Cons.IH[OF this] obtain rs where "cs = map (\<lambda>r. Some (Inr r)) rs" "\<forall>r\<in>set (firsts (insert (qr_key r) seen) rs). list_reply_fits context r" by auto
    with c False fits show ?thesis by (intro exI[of _ "r # rs"]) simp
  qed
qed simp


text \<open>The context a list decodes its replies in, and the selector it queries.\<close>

definition list_context :: "ParamStore \<Rightarrow> Scope \<Rightarrow> string \<Rightarrow> ListReplyContext" where
  "list_context store s pfx = \<lparr>lr_config_prefix = cc_prefix (pst_config store), lr_scope = s,
     lr_safe_parent = SafeParent pfx, lr_prefix = pfx\<rparr>"

definition list_query :: "ParamStore \<Rightarrow> Scope \<Rightarrow> string \<Rightarrow> string" where
  "list_query store s pfx = BuildScopeQuery (cc_prefix (pst_config store)) (ScopePath s) (SafeParent pfx)"

text \<open>A list that validated asked for its selector within what the reachability wait left of its timeout,
  and received \<open>cs\<close>.\<close>

definition list_received :: "'w ClientTransport \<Rightarrow> ParamStore \<Rightarrow> Scope \<Rightarrow> string \<Rightarrow> 'w \<Rightarrow> 'w \<Rightarrow> QueryReply Result option list \<Rightarrow> bool" where
  "list_received ct store s pfx w w' cs \<longleftrightarrow>
    (case WaitForStorageNodeWithin ct (cc_prefix (pst_config store)) (cc_query_timeout (pst_config store)) w of
       (w1, t) \<Rightarrow> ct_get ct (list_query store s pfx) t w1 = (w', Inr cs))"

lemma ParamStore_List_received:
  assumes "pst_open store" "ParseScope scope = Some s" "IsOk (ValidateListPrefix pfx)" "list_received ct store s pfx w w' cs"
  shows "ParamStore_List ct store scope pfx (Some sink) x w =
    (case deliver (ListReplySink (list_context store s pfx)) {} cs (([], None), w') of
       ((_, w'), Inl e) \<Rightarrow> ((x, w'), Inl e)
     | (((vals, Some error), w'), Inr _) \<Rightarrow> ((x, w'), error)
     | (((vals, None), w'), Inr _) \<Rightarrow> ((feed_values sink (sort_key fst vals) x, w'), Result_Ok ()))"
proof -
  obtain w1 t where t: "WaitForStorageNodeWithin ct (cc_prefix (pst_config store)) (cc_query_timeout (pst_config store)) w = (w1, t)" by fastforce
  have "\<exists>u. ValidateListPrefix pfx = Inr u" using assms(3) by (auto simp: IsOk_def split: sum.splits)
  moreover have "ct_get ct (list_query store s pfx) t w1 = (w', Inr cs)" using assms(4) t by (simp add: list_received_def)
  ultimately show ?thesis using assms(1,2) t
    by (auto simp: ParamStore_List_def ParseAndValidateScope_def Let_def TransportGet_def list_query_def list_context_def Result_Ok_def)
qed

text \<open>The sink of a list keeps the first error and the world.\<close>

lemma deliver_list_frame:
  "deliver (ListReplySink context) seen cs ((vals, None), w) = (((vals', er), w'), res) \<Longrightarrow>
     w' = w \<and> (\<forall>e. er = Some e \<longrightarrow> \<not> IsOk e)"
proof (induction cs arbitrary: seen vals)
  case (Cons c cs)
  show ?case
  proof (cases "\<exists>r. c = Some (Inr r) \<and> qr_key r \<notin> seen")
    case True
    then obtain r where r: "c = Some (Inr r)" "qr_key r \<notin> seen" by blast
    obtain vals1 res1 where "DecodeListReply context (qr_key r) (qr_payload r) (qr_encoding r) vals = (vals1, res1)" by fastforce
    with r Cons show ?thesis by (cases res1) (auto simp: ListReplySink_def IsOk_def)
  next
    case False
    with Cons show ?thesis by (cases c; cases "the c") auto
  qed
qed simp

lemma sorted_entries:
  assumes "distinct (map fst vals)"
  shows "sorted_wrt (<) (map fst (sort_key fst vals))" "set (sort_key fst vals) = set vals"
proof -
  have "mset (map fst (sort_key fst vals)) = mset (map fst vals)" by (metis mset_map mset_sort)
  with assms have "distinct (map fst (sort_key fst vals))" by (metis mset_eq_imp_distinct_iff)
  then show "sorted_wrt (<) (map fst (sort_key fst vals))" by (simp add: strict_sorted_iff)
qed simp

lemma list_taken:
  assumes open1: "pst_open store" "ParseScope scope = Some s" "IsOk (ValidateListPrefix pfx)"
    and got: "list_received ct store s pfx w w' (map (\<lambda>r. Some (Inr r)) rs)"
    and fit: "\<forall>r\<in>set (firsts {} rs). list_reply_fits (list_context store s pfx) r"
  shows "\<exists>es. sorted_wrt (<) (map fst es) \<and> set es = list_entries (list_context store s pfx) (firsts {} rs) \<and>
    ParamStore_List ct store scope pfx (Some sink) x w = ((feed_values sink es x, w'), Result_Ok ())"
proof -
  have scope: "ParseScope scope = Some (lr_scope (list_context store s pfx))" using open1(2) by (simp add: list_context_def)
  from deliver_list_fits[OF scope fit, of "[]" w'] obtain es where es:
      "deliver (ListReplySink (list_context store s pfx)) {} (map (\<lambda>r. Some (Inr r)) rs) (([], None), w') = (((es, None), w'), Inr ())"
      "distinct (map fst es)" "set es = list_entries (list_context store s pfx) (firsts {} rs)"
    by (auto simp: Result_Ok_def)
  have "ParamStore_List ct store scope pfx (Some sink) x w = ((feed_values sink (sort_key fst es) x, w'), Result_Ok ())"
    by (simp add: ParamStore_List_received[OF open1 got] es(1))
  then show ?thesis using sorted_entries[OF es(2)] es(3) by blast
qed

lemma list_refused:
  assumes open1: "pst_open store" "ParseScope scope = Some s" "IsOk (ValidateListPrefix pfx)"
    and got: "list_received ct store s pfx w w' cs"
    and bad: "\<nexists>rs. cs = map (\<lambda>r. Some (Inr r)) rs \<and> (\<forall>r\<in>set (firsts {} rs). list_reply_fits (list_context store s pfx) r)"
  shows "\<exists>e. ParamStore_List ct store scope pfx (Some sink) x w = ((x, w'), Inl e)"
proof -
  have scope: "ParseScope scope = Some (lr_scope (list_context store s pfx))" using open1(2) by (simp add: list_context_def)
  obtain vals er w2 res where d: "deliver (ListReplySink (list_context store s pfx)) {} cs (([], None), w') = (((vals, er), w2), res)"
    by (metis surj_pair)
  note frame = deliver_list_frame[OF d]
  have "er \<noteq> None \<or> (\<exists>e. res = Inl e)" using deliver_list_ok[OF scope, of "{}" cs "[]" w'] d bad by (cases res) auto
  then show ?thesis using frame by (cases res; cases er) (auto simp: ParamStore_List_received[OF open1 got] d IsOk_def split: sum.splits)
qed

section \<open>Lists of a storage node\<close>

lemma before_last_slash_Some: "before_last_slash s = Some p \<Longrightarrow> \<exists>t. s = p @ CHR ''/'' # t"
proof -
  assume "before_last_slash s = Some p"
  then obtain c r where d: "dropWhile (\<lambda>c. c \<noteq> CHR ''/'') (rev s) = c # r" "p = rev r" by (auto simp: before_last_slash_def split: list.splits)
  then have "c = CHR ''/''" using hd_dropWhile[of "\<lambda>c. c \<noteq> CHR ''/''" "rev s"] by auto
  moreover have "rev s = takeWhile (\<lambda>c. c \<noteq> CHR ''/'') (rev s) @ c # r" using d(1) by (metis takeWhile_dropWhile_id)
  ultimately have "s = rev r @ CHR ''/'' # rev (takeWhile (\<lambda>c. c \<noteq> CHR ''/'') (rev s))" by (metis rev_append rev_rev_ident rev.simps(2) append.assoc append_Cons append_Nil)
  with d(2) show ?thesis by blast
qed

text \<open>The parent selected for a valid prefix is empty or a valid prefix of it followed by a slash.\<close>

lemma SafeParent_valid:
  assumes "IsOk (ValidateListPrefix pfx)" "SafeParent pfx \<noteq> ''''"
  shows "IsValidPrefix (SafeParent pfx) \<and> (\<exists>t. pfx = SafeParent pfx @ CHR ''/'' # t)"
proof -
  from assms(2) have ne: "pfx \<noteq> ''''" by (auto simp: SafeParent_def)
  with assms(1) consider (key) "IsValidKey pfx" | (parent) q where "pfx = q @ ''/''" "IsValidPrefix q"
    using ValidateListPrefix_exact[of pfx] by blast
  then show ?thesis
  proof cases
    case parent
    then show ?thesis by (auto simp: SafeParent_def)
  next
    case key
    then have loop: "chunk_loop pfx" by (simp add: IsValidKey_loop)
    have "last pfx \<noteq> CHR ''/''" using key ne by (simp add: IsValidKey_def IsValidChunkSequence_def split: if_splits)
    with ne assms(2) obtain p where p: "before_last_slash pfx = Some p" "SafeParent pfx = p" by (auto simp: SafeParent_def split: option.splits)
    from before_last_slash_Some[OF p(1)] obtain t where t: "pfx = p @ CHR ''/'' # t" by blast
    with loop have "chunk_loop p" by (simp add: chunk_loop_join)
    with p(2) t show ?thesis by (auto simp: IsValidPrefix_loop)
  qed
qed

definition list_root :: "string \<Rightarrow> string" where
  "list_root pfx = (if SafeParent pfx = '''' then '''' else SafeParent pfx @ ''/'')"

lemma list_selector:
  assumes "IsOk (ValidateListPrefix pfx)"
  shows "\<exists>tail. BuildScopeQuery p ''base'' (SafeParent pfx) = p @ ''/base/'' @ tail \<and>
    ParseRelativeSelector tail = Some \<lparr>sq_is_list = True, sq_relative_key = list_root pfx\<rparr>"
proof (cases "SafeParent pfx = ''''")
  case True
  then show ?thesis by (auto simp: BuildScopeQuery_def ParseRelativeSelector_def list_root_def)
next
  case False
  let ?q = "SafeParent pfx"
  have v: "IsValidPrefix ?q" using SafeParent_valid[OF assms False] by blast
  have "ends_with (?q @ ''/**'') ''/**''" "take (length (?q @ ''/**'') - 3) (?q @ ''/**'') = ?q" "?q @ ''/**'' \<noteq> ''**''"
    using False by (auto simp: ends_with_def)
  with v False have "ParseRelativeSelector (?q @ ''/**'') = Some \<lparr>sq_is_list = True, sq_relative_key = list_root pfx\<rparr>"
    unfolding ParseRelativeSelector_def list_root_def Let_def by simp
  then show ?thesis using False by (auto simp: BuildScopeQuery_def intro: exI[of _ "?q @ ''/**''"])
qed

lemma list_root_parent: "starts_with k (list_root pfx) \<Longrightarrow> IsUnderSafeParent k (SafeParent pfx)"
  by (auto simp: list_root_def IsUnderSafeParent_def starts_with_iff nth_append split: if_splits)

lemma list_root_prefix:
  assumes "IsOk (ValidateListPrefix pfx)" "starts_with k pfx"
  shows "starts_with k (list_root pfx)"
proof (cases "SafeParent pfx = ''''")
  case False
  from SafeParent_valid[OF assms(1) this] obtain t where "pfx = SafeParent pfx @ CHR ''/'' # t" by blast
  with assms(2) obtain u where "k = (SafeParent pfx @ CHR ''/'' # t) @ u" by (metis starts_with_iff)
  then show ?thesis using False by (auto simp: list_root_def starts_with_iff)
qed (simp add: list_root_def)

text \<open>The replies of a node as a transport hands them over: a value for each reply, an error for each refusal.\<close>

definition conversions :: "Replies \<Rightarrow> QueryReply Result option list" where
  "conversions = (\<lambda>(vs, errors).
     map (\<lambda>(k, v, encoding). Some (Inr \<lparr>qr_key = k, qr_payload = v, qr_encoding = encoding\<rparr>)) vs @
     map (\<lambda>s. Some (Result_Err s ''storage node refused the query'' (MakeErrorCode s))) errors)"

definition decoded :: "entries \<Rightarrow> (string \<times> ParamValue) list" where
  "decoded es = map (\<lambda>(k, v). (k, the (Decode v))) es"

definition base_reply :: "string \<Rightarrow> string \<times> bytes \<Rightarrow> QueryReply" where
  "base_reply p = (\<lambda>(k, v). \<lparr>qr_key = p @ ''/base/'' @ k, qr_payload = v, qr_encoding = kSitosV1\<rparr>)"

abbreviation base_scope :: Scope where
  "base_scope \<equiv> \<lparr>scope_kind = ScopeBase, scope_sid = ''''\<rparr>"

lemma base_scope_key: "scope_key p base_scope k = p @ ''/base/'' @ k"
  by (simp add: scope_key_def ScopePath_def)

lemma firsts_distinct: "distinct (map qr_key rs) \<Longrightarrow> qr_key ` set rs \<inter> seen = {} \<Longrightarrow> firsts seen rs = rs"
  by (induction rs arbitrary: seen) auto

text \<open>A permutation of replies is a permutation of the replies' values.\<close>

lemma permuted_replies:
  assumes "mset cs = mset (map (\<lambda>e. Some (Inr (g e))) es)"
  shows "\<exists>rs. cs = map (\<lambda>r. Some (Inr r)) rs \<and> mset rs = mset (map g es)"
proof -
  have "set cs = set (map (\<lambda>e. Some (Inr (g e))) es)" using assms mset_eq_setD by blast
  then have "\<forall>c\<in>set cs. c = Some (Inr (projr (the c)))" by auto
  then have c: "cs = map (\<lambda>r. Some (Inr r)) (map (\<lambda>c. projr (the c)) cs)"
    by (metis (no_types, lifting) map_idI map_map comp_apply)
  have "mset (map (\<lambda>c. projr (the c)) cs) = mset (map g es)"
    using arg_cong[OF assms, of "image_mset (\<lambda>c. projr (the c))"] by (simp add: image_mset.compositionality comp_def)
  with c show ?thesis by blast
qed

lemma strictly_sorted_unique:
  assumes "sorted_wrt (<) (map fst xs)" "sorted_wrt (<) (map fst ys)" "set xs = set ys"
  shows "xs = (ys :: (string \<times> 'a) list)"
proof -
  have "sorted (map fst xs)" "distinct (map fst xs)" "sorted (map fst ys)" "distinct (map fst ys)"
    using assms(1,2) by (simp_all add: strict_sorted_iff)
  moreover from this have "inj_on fst (set xs \<union> set ys)" using assms(3) by (simp add: distinct_map)
  ultimately show ?thesis using assms(3) by (intro map_sorted_distinct_set_unique) simp_all
qed

lemma node_list_replies:
  assumes "ns_accepting st" "map_wf (ime_data (ns_engine st))" "IsOk (ValidateListPrefix pfx)" "cc_prefix (pst_config store) = ns_prefix st"
  shows "conversions (replies InMemoryOps st (list_query store base_scope pfx)) =
    map (\<lambda>e. Some (Inr (base_reply (ns_prefix st) e))) (filter (\<lambda>(k, v). starts_with k (list_root pfx)) (ime_data (ns_engine st)))"
proof -
  obtain tail where tail: "BuildScopeQuery (ns_prefix st) ''base'' (SafeParent pfx) = ns_prefix st @ ''/base/'' @ tail"
    "ParseRelativeSelector tail = Some \<lparr>sq_is_list = True, sq_relative_key = list_root pfx\<rparr>" using list_selector[OF assms(3)] by blast
  have "list_query store base_scope pfx = ns_prefix st @ ''/base/'' @ tail"
    using tail(1) assms(4) by (simp add: list_query_def ScopePath_def)
  then show ?thesis using replies_base[OF assms(1) tail(2) assms(2)]
    by (auto simp: conversions_def base_reply_def selected_def)
qed

text \<open>What the replies of a node enumerate.\<close>

lemma node_list_entries:
  assumes "IsOk (ValidateListPrefix pfx)" "cc_prefix (pst_config store) = p" "\<forall>(k, v)\<in>set data. IsValidKey k \<and> Decode v \<noteq> None"
    "set rs = base_reply p ` set (filter (\<lambda>(k, v). starts_with k (list_root pfx)) data)"
  shows "\<forall>r\<in>set rs. list_reply_fits (list_context store base_scope pfx) r"
    "list_entries (list_context store base_scope pfx) rs = set (decoded (filter (\<lambda>(k, v). starts_with k pfx) data))"
proof -
  show "\<forall>r\<in>set rs. list_reply_fits (list_context store base_scope pfx) r"
    using assms by (fastforce simp: list_reply_fits_def list_context_def base_scope_key base_reply_def list_root_parent)
  show "list_entries (list_context store base_scope pfx) rs = set (decoded (filter (\<lambda>(k, v). starts_with k pfx) data))"
  proof (intro set_eqI iffI)
    fix e assume e: "e \<in> list_entries (list_context store base_scope pfx) rs"
    then obtain k v r where kv: "e = (k, v)" "starts_with k pfx" "r \<in> set rs" "qr_key r = p @ ''/base/'' @ k" "Decode (qr_payload r) = Some v"
      using assms(2) by (auto simp: list_entries_def list_context_def base_scope_key)
    then have "(k, qr_payload r) \<in> set data" using assms(4) by (auto simp: base_reply_def)
    with kv show "e \<in> set (decoded (filter (\<lambda>(k, v). starts_with k pfx) data))" by (force simp: decoded_def)
  next
    fix e assume "e \<in> set (decoded (filter (\<lambda>(k, v). starts_with k pfx) data))"
    then obtain k v where kv: "e = (k, the (Decode v))" "(k, v) \<in> set data" "starts_with k pfx" by (auto simp: decoded_def)
    then have "base_reply p (k, v) \<in> set rs" using assms(4) list_root_prefix[OF assms(1) kv(3)] by auto
    moreover have "Decode v = Some (the (Decode v))" using assms(3) kv(2) by auto
    ultimately show "e \<in> list_entries (list_context store base_scope pfx) rs"
      using kv assms(2) by (auto simp: list_entries_def list_context_def base_scope_key base_reply_def intro!: bexI[of _ "base_reply p (k, v)"])
  qed
qed

section \<open>Properties\<close>

text \<open>C4: a list enumerates exactly what the replies carry, whatever the transport.  When an open store
  lists a valid scope with a valid prefix and the replies \<open>cs\<close> arrive, in any order and with any repetition,
  then there are two cases.  Either every first reply of a key is one of the scope under the selected parent,
  with a decodable value where the key starts with the prefix: then the sink is handed the entries of those
  replies whose key starts with the prefix, each key once and in strictly ascending key order, until it
  stops, and the list succeeds.  Or some reply failed or is not such: then the list reports an
  error and the sink is not called.\<close>

theorem client_list_exact:
  assumes "pst_open store" "ParseScope scope = Some s" "IsOk (ValidateListPrefix pfx)" "list_received ct store s pfx w w' cs"
  shows "(\<forall>rs. cs = map (\<lambda>r. Some (Inr r)) rs \<and> (\<forall>r\<in>set (firsts {} rs). list_reply_fits (list_context store s pfx) r) \<longrightarrow>
      (\<exists>es. sorted_wrt (<) (map fst es) \<and> set es = list_entries (list_context store s pfx) (firsts {} rs) \<and>
        ParamStore_List ct store scope pfx (Some sink) x w = ((feed_values sink es x, w'), Result_Ok ()))) \<and>
    ((\<nexists>rs. cs = map (\<lambda>r. Some (Inr r)) rs \<and> (\<forall>r\<in>set (firsts {} rs). list_reply_fits (list_context store s pfx) r)) \<longrightarrow>
      (\<exists>e. ParamStore_List ct store scope pfx (Some sink) x w = ((x, w'), Inl e)))"
  using list_taken[OF assms(1-3), of ct w w'] list_refused[OF assms, of sink x] assms(4) by auto


lemma Decode_Encode [simp]: "Decode (Encode v) = Some (normalize v)"
  by (simp add: Encode_def Decode_def)

text \<open>A transport that answers every get with the given replies.\<close>

definition ReplayTransport :: "QueryReply Result option list \<Rightarrow> unit ClientTransport" where
  "ReplayTransport cs = \<lparr>ct_now = (\<lambda>w. (w, 0)), ct_sleep = (\<lambda>_ w. w), ct_put = (\<lambda>_ _ _ _ w. (w, Result_Ok ())),
     ct_delete = (\<lambda>_ _ w. (w, Result_Ok ())), ct_get = (\<lambda>_ _ w. (w, Result_Ok cs)), ct_wait = (\<lambda>_ _ w. w)\<rparr>"

lemma Replay_received [simp]: "list_received (ReplayTransport cs) store s pfx w w' cs"
  by (auto simp: list_received_def ReplayTransport_def Result_Ok_def split: prod.split)

definition example_store :: ParamStore where
  "example_store = \<lparr>pst_open = True, pst_config = \<lparr>cc_prefix = ''app'', cc_query_timeout = 1000, cc_zenoh_config_json = None\<rparr>\<rparr>"

definition collect :: "string \<Rightarrow> ParamValue \<Rightarrow> (string \<times> ParamValue) list \<Rightarrow> (string \<times> ParamValue) list \<times> bool" where
  "collect k v xs = (xs @ [(k, v)], True)"

text \<open>Two replies of a session arrive in the wrong order, one of them twice.\<close>

theorem client_list_exact_witness:
  "let reply = (\<lambda>k b. \<lparr>qr_key = ''app/session/s1/'' @ k, qr_payload = Encode (PV_Bool b), qr_encoding = kSitosV1\<rparr>);
       cs = [Some (Inr (reply ''b'' True)), Some (Inr (reply ''a'' False)), Some (Inr (reply ''b'' False))] in
   ParamStore_List (ReplayTransport cs) example_store ''session/s1'' '''' (Some collect) [] () =
     (([(''a'', PV_Bool False), (''b'', PV_Bool True)], ()), Result_Ok ())"
proof -
  let ?r = "\<lambda>k b. \<lparr>qr_key = ''app/session/s1/'' @ k, qr_payload = Encode (PV_Bool b), qr_encoding = kSitosV1\<rparr>"
  let ?rs = "[?r ''b'' True, ?r ''a'' False, ?r ''b'' False]" and ?s = "\<lparr>scope_kind = ScopeSession, scope_sid = ''s1''\<rparr>"
  let ?es = "[(''a'', PV_Bool False), (''b'', PV_Bool True)]"
  have f: "firsts {} ?rs = [?r ''b'' True, ?r ''a'' False]" by simp
  have scope: "ParseScope ''session/s1'' = Some ?s" and pfx: "IsOk (ValidateListPrefix '''')"
    and keys: "IsValidKey ''a''" "IsValidKey ''b''" by code_simp+
  have dec: "Decode (Encode (PV_Bool b)) = Some (PV_Bool b)" for b by (simp add: normalize_def)
  have key: "scope_key ''app'' ?s k = ''app/session/s1/'' @ k" for k by (simp add: scope_key_def ScopePath_def)
  have fit: "\<forall>r\<in>set (firsts {} ?rs). list_reply_fits (list_context example_store ?s '''') r" unfolding f
    by (auto simp: list_reply_fits_def list_context_def example_store_def key keys dec SafeParent_def IsUnderSafeParent_def)
  have en: "list_entries (list_context example_store ?s '''') (firsts {} ?rs) = set ?es" unfolding f
    by (auto simp: list_entries_def list_context_def example_store_def key starts_with_def normalize_def)
  have "pst_open example_store" by (simp add: example_store_def)
  from client_list_exact[OF this scope pfx Replay_received, of "map (\<lambda>r. Some (Inr r)) ?rs", where sink = collect and x = "[]" and w = "()"] fit en
  obtain es where es: "sorted_wrt (<) (map fst es)" "set es = set ?es"
    "ParamStore_List (ReplayTransport (map (\<lambda>r. Some (Inr r)) ?rs)) example_store ''session/s1'' '''' (Some collect) [] () =
      ((feed_values collect es [], ()), Result_Ok ())" by blast
  have "es = ?es" by (rule strictly_sorted_unique[OF es(1) _ es(2)]) simp
  with es(3) show ?thesis by (simp add: collect_def)
qed

definition example_listed :: "(InMemoryEngine, unit) NodeState" where
  "example_listed = example_node\<lparr>ns_engine := \<lparr>ime_data = [(''a'', Encode (PV_Bool True)), (''a/x'', Encode (PV_Bool False)),
     (''b'', Encode (PV_Bool True))]\<rparr>\<rparr>"


end
