(* ===== verification/SessionView.thy ===== *)
theory SessionView
  imports ClientNode NodeReconcile
begin

text \<open>
  The in-process view of a session, \<open>src/session_view.cpp\<close>: reads that resolve the overlay over
  the snapshot.  A call takes the node's state as its weak pointer locks it, \<open>None\<close> when it is
  gone, and returns it with the leases it took given back; the sink of \<open>List\<close> runs after that and
  may change the state.  A weak pointer to the overlay is compared by its owner, which \<open>owner\<close>
  gives for the overlay of a record.
\<close>

section \<open>Opening a view and taking the leases\<close>

record SessionView =
  sv_open :: bool
  sv_overlay_owner :: nat
  sv_sid :: string

record Readers =
  rds_overlay :: StorageReader
  rds_snapshot :: StorageReader

definition ViewDisconnected :: "'a Result" where
  "ViewDisconnected = Err Disconnected ''StorageNode is stopped''"

definition ViewNotFound :: "'a Result" where
  "ViewNotFound = Err NotFound ''session or parameter not found''"

definition StorageError :: "string \<Rightarrow> 'a Result" where
  "StorageError message = Err Error message"

definition SessionView_Open :: "('e SessionRecord \<Rightarrow> nat) \<Rightarrow> ('e, 'd) NodeState option \<Rightarrow> string \<Rightarrow> SessionView Result" where
  "SessionView_Open owner node sid =
    (if \<not> IsValidSessionId sid then Err InvalidKey ''invalid session id''
     else (case node of
       None \<Rightarrow> ViewDisconnected
     | Some st \<Rightarrow>
         if Enter st = None then ViewDisconnected
         else (case ns_sessions st sid of
           None \<Rightarrow> Err NotFound ''session not found''
         | Some r \<Rightarrow>
             if IsActive r \<and> sr_lifecycle r \<noteq> kActive then Err StateLost ''session parameter state was released''
             else if \<not> IsActive r \<or> sr_overlay r = None then Err NotFound ''session not found''
             else if TryAcquire r = None then Err NotFound ''session not found''
             else Result_Ok \<lparr>sv_open = True, sv_overlay_owner = owner r, sv_sid = sid\<rparr>)))"

text \<open>\<open>AcquireReaders\<close>: the state with both leases held, and the readers.  On an error the leases it
  took are released by their destructors.\<close>

definition AcquireReaders :: "('e SessionRecord \<Rightarrow> nat) \<Rightarrow> SessionView \<Rightarrow> ('e, 'd) NodeState option \<Rightarrow>
    (('e, 'd) NodeState \<times> Readers) Result" where
  "AcquireReaders owner sv node =
    (if \<not> sv_open sv then Err InvalidArgument ''moved-from SessionView''
     else (case node of
       None \<Rightarrow> ViewDisconnected
     | Some st \<Rightarrow>
         (case Enter st of
            None \<Rightarrow> ViewDisconnected
          | Some st' \<Rightarrow>
              (case ns_sessions st' (sv_sid sv) of
                 None \<Rightarrow> ViewNotFound
               | Some r \<Rightarrow>
                   if \<not> IsActive r then ViewNotFound
                   else if sr_lifecycle r \<noteq> kActive then Err StateLost ''session parameter state was released''
                   else (case (TryAcquire r, sr_snapshot r, sr_overlay r) of
                     (Some r', Some snapshot, Some overlay) \<Rightarrow>
                       if sv_overlay_owner sv \<noteq> owner r then ViewNotFound
                       else Result_Ok (set_session (sv_sid sv) r' st',
                         \<lparr>rds_overlay = engine_reader InMemoryOps overlay, rds_snapshot = snapshot_copy_reader snapshot\<rparr>)
                   | _ \<Rightarrow> ViewNotFound)))))"

definition ReleaseReaders :: "string \<Rightarrow> ('e, 'd) NodeState \<Rightarrow> ('e, 'd) NodeState" where
  "ReleaseReaders sid st = (case ns_sessions st sid of
     None \<Rightarrow> Leave st
   | Some r \<Rightarrow> Leave (set_session sid (LeaveAdmission r) st))"

section \<open>Point reads\<close>

definition ReadParam :: "Readers \<Rightarrow> string \<Rightarrow> ParamValue Result" where
  "ReadParam readers key =
    (case rd_get (rds_overlay readers) key of
       None \<Rightarrow> StorageError ''storage reader threw during Get''
     | Some (Some payload) \<Rightarrow>
         (case Decode payload of
            None \<Rightarrow> StorageError ''malformed parameter payload''
          | Some v \<Rightarrow> Result_Ok v)
     | Some None \<Rightarrow>
         (case rd_get (rds_snapshot readers) key of
            None \<Rightarrow> StorageError ''storage reader threw during Get''
          | Some None \<Rightarrow> ViewNotFound
          | Some (Some payload) \<Rightarrow>
              (case Decode payload of
                 None \<Rightarrow> StorageError ''malformed parameter payload''
               | Some v \<Rightarrow> Result_Ok v)))"

definition SessionView_Get :: "('e SessionRecord \<Rightarrow> nat) \<Rightarrow> SessionView \<Rightarrow> string \<Rightarrow> ('e, 'd) NodeState option \<Rightarrow>
    ('e, 'd) NodeState option \<times> ParamValue Result" where
  "SessionView_Get owner sv key node =
    (if \<not> sv_open sv then (node, Err InvalidArgument ''moved-from SessionView'')
     else if \<not> IsValidKey key then (node, Err InvalidKey ''invalid key'')
     else (case AcquireReaders owner sv node of
       Inl e \<Rightarrow> (node, Inl e)
     | Inr (st, readers) \<Rightarrow> (Some (ReleaseReaders (sv_sid sv) st), ReadParam readers key)))"

definition SessionView_Contains :: "('e SessionRecord \<Rightarrow> nat) \<Rightarrow> SessionView \<Rightarrow> string \<Rightarrow> ('e, 'd) NodeState option \<Rightarrow>
    ('e, 'd) NodeState option \<times> bool Result" where
  "SessionView_Contains owner sv key node =
    (if \<not> sv_open sv then (node, Err InvalidArgument ''moved-from SessionView'')
     else if \<not> IsValidKey key then (node, Err InvalidKey ''invalid key'')
     else (case AcquireReaders owner sv node of
       Inl e \<Rightarrow> (node, Inl e)
     | Inr (st, readers) \<Rightarrow> (Some (ReleaseReaders (sv_sid sv) st),
         (case ReadParam readers key of
            Inr _ \<Rightarrow> Result_Ok True
          | Inl e \<Rightarrow> if ei_status e = NotFound then Result_Ok False else Inl e))))"

section \<open>Enumeration\<close>

record ViewList =
  vl_values :: "(string \<times> ParamValue) list"
  vl_overlay_keys :: "string set"
  vl_decode_error :: "unit Result option"

definition OverlaySink :: "ViewList sink" where
  "OverlaySink key payload l = (case Decode payload of
     None \<Rightarrow> (l\<lparr>vl_decode_error := Some (StorageError ''malformed parameter payload'')\<rparr>, False)
   | Some v \<Rightarrow> (l\<lparr>vl_overlay_keys := insert key (vl_overlay_keys l), vl_values := vl_values l @ [(key, v)]\<rparr>, True))"

definition SnapshotSink :: "ViewList sink" where
  "SnapshotSink key payload l =
    (if key \<in> vl_overlay_keys l then (l, True)
     else (case Decode payload of
       None \<Rightarrow> (l\<lparr>vl_decode_error := Some (StorageError ''malformed parameter payload'')\<rparr>, False)
     | Some v \<Rightarrow> (l\<lparr>vl_values := vl_values l @ [(key, v)]\<rparr>, True)))"

text \<open>A reader's \<open>List\<close> with a sink: a sink that declines makes it return false.\<close>

definition reader_list :: "StorageReader \<Rightarrow> string \<Rightarrow> 'x sink \<Rightarrow> 'x \<Rightarrow> 'x \<times> EngineReply" where
  "reader_list reader pfx sink x = (case rd_list reader pfx of
     (es, reply) \<Rightarrow> (case feed sink es x of (x', finished) \<Rightarrow> (x', if finished then reply else EFalse)))"

definition ListOutcome :: "ViewList \<times> EngineReply \<Rightarrow> unit Result" where
  "ListOutcome = (\<lambda>(l, reply).
     if reply = EThrow then StorageError ''storage reader threw during List''
     else (case vl_decode_error l of
       Some e \<Rightarrow> e
     | None \<Rightarrow> if reply = EFalse then StorageError ''storage reader stopped List unexpectedly'' else Result_Ok ()))"

definition CollectView :: "Readers \<Rightarrow> string \<Rightarrow> (string \<times> ParamValue) list Result" where
  "CollectView readers pfx =
    (let first = reader_list (rds_overlay readers) pfx OverlaySink
           \<lparr>vl_values = [], vl_overlay_keys = {}, vl_decode_error = None\<rparr> in
     case ListOutcome first of
       Inl e \<Rightarrow> Inl e
     | Inr _ \<Rightarrow>
         (let second = reader_list (rds_snapshot readers) pfx SnapshotSink (fst first) in
          case ListOutcome second of
            Inl e \<Rightarrow> Inl e
          | Inr _ \<Rightarrow> Result_Ok (vl_values (fst second))))"

definition SessionView_List :: "('e SessionRecord \<Rightarrow> nat) \<Rightarrow> SessionView \<Rightarrow> string \<Rightarrow>
    (string \<Rightarrow> ParamValue \<Rightarrow> ('e, 'd) NodeState option \<times> 'x \<Rightarrow> (('e, 'd) NodeState option \<times> 'x) \<times> bool) option \<Rightarrow>
    ('e, 'd) NodeState option \<times> 'x \<Rightarrow> (('e, 'd) NodeState option \<times> 'x) \<times> unit Result" where
  "SessionView_List owner sv pfx sink = (\<lambda>(node, x).
    if \<not> sv_open sv then ((node, x), Err InvalidArgument ''moved-from SessionView'')
    else (case ValidateListPrefix pfx of
      Inl e \<Rightarrow> ((node, x), Inl e)
    | Inr _ \<Rightarrow>
        (case sink of
           None \<Rightarrow> ((node, x), Err InvalidArgument ''null List sink'')
         | Some sink \<Rightarrow>
             (case AcquireReaders owner sv node of
                Inl e \<Rightarrow> ((node, x), Inl e)
              | Inr (st, readers) \<Rightarrow>
                  (let released = Some (ReleaseReaders (sv_sid sv) st) in
                   case CollectView readers pfx of
                     Inl e \<Rightarrow> ((released, x), Inl e)
                   | Inr values \<Rightarrow> (feed_values sink (sort_key fst values) (released, x), Result_Ok ()))))))"


section \<open>The composite map\<close>

definition composite :: "entries \<Rightarrow> entries \<Rightarrow> string \<rightharpoonup> bytes" where
  "composite snap overlay = map_of snap ++ map_of overlay"

lemma ReleaseReaders_leased:
  assumes "ns_sessions st sid = Some r"
  shows "ReleaseReaders sid (set_session sid (r\<lparr>sr_admitted := sr_admitted r + 1\<rparr>) (st\<lparr>ns_in_flight := ns_in_flight st + 1\<rparr>)) = st"
proof -
  have "(ns_sessions st)(sid \<mapsto> r) = ns_sessions st" using assms by (rule fun_upd_idem)
  then show ?thesis by (simp add: ReleaseReaders_def set_session_def LeaveAdmission_def Leave_def)
qed

text \<open>The conditions under which the readers are granted.\<close>

definition readable :: "('e SessionRecord \<Rightarrow> nat) \<Rightarrow> SessionView \<Rightarrow> ('e, 'd) NodeState \<Rightarrow> entries \<Rightarrow> InMemoryEngine \<Rightarrow> bool" where
  "readable owner sv st snap overlay \<longleftrightarrow> sv_open sv \<and> ns_accepting st \<and> (\<exists>r. ns_sessions st (sv_sid sv) = Some r \<and>
     sr_phase r = Active \<and> sr_accepting r \<and> sr_lifecycle r = kActive \<and> sr_snapshot r = Some snap \<and> sr_overlay r = Some overlay \<and>
     owner r = sv_overlay_owner sv)"

lemma AcquireReaders_readable:
  assumes "readable owner sv st snap overlay"
  shows "\<exists>st'. AcquireReaders owner sv (Some st) = Inr (st', \<lparr>rds_overlay = engine_reader InMemoryOps overlay,
      rds_snapshot = snapshot_copy_reader snap\<rparr>) \<and> ReleaseReaders (sv_sid sv) st' = st"
proof -
  from assms obtain r where r: "sv_open sv" "ns_accepting st" "ns_sessions st (sv_sid sv) = Some r" "sr_phase r = Active"
    "sr_accepting r" "sr_lifecycle r = kActive" "sr_snapshot r = Some snap" "sr_overlay r = Some overlay" "owner r = sv_overlay_owner sv"
    by (auto simp: readable_def)
  then have "AcquireReaders owner sv (Some st) = Inr (set_session (sv_sid sv) (r\<lparr>sr_admitted := sr_admitted r + 1\<rparr>)
      (st\<lparr>ns_in_flight := ns_in_flight st + 1\<rparr>), \<lparr>rds_overlay = engine_reader InMemoryOps overlay, rds_snapshot = snapshot_copy_reader snap\<rparr>)"
    by (simp add: AcquireReaders_def Enter_def IsActive_def TryAcquire_def Result_Ok_def)
  with ReleaseReaders_leased[OF r(3)] show ?thesis by blast
qed

lemma ReadParam_reads:
  assumes "reads (rds_overlay rd) overlay" "reads (rds_snapshot rd) snap"
  shows "ReadParam rd key = (case composite snap overlay key of
     None \<Rightarrow> ViewNotFound
   | Some payload \<Rightarrow> (case Decode payload of None \<Rightarrow> StorageError ''malformed parameter payload'' | Some v \<Rightarrow> Result_Ok v))"
  using assms by (auto simp: ReadParam_def reads_def composite_def map_add_def split: option.split)

definition decodable :: "string \<times> bytes \<Rightarrow> bool" where
  "decodable e \<longleftrightarrow> Decode (snd e) \<noteq> None"

definition decode_entry :: "string \<times> bytes \<Rightarrow> string \<times> ParamValue" where
  "decode_entry = (\<lambda>(k, b). (k, the (Decode b)))"

lemma OverlaySink_simps:
  "Decode b = None \<Longrightarrow> OverlaySink k b l = (l\<lparr>vl_decode_error := Some (StorageError ''malformed parameter payload'')\<rparr>, False)"
  "Decode b = Some v \<Longrightarrow> OverlaySink k b l = (l\<lparr>vl_overlay_keys := insert k (vl_overlay_keys l), vl_values := vl_values l @ [(k, v)]\<rparr>, True)"
  by (simp_all add: OverlaySink_def)

lemma SnapshotSink_simps:
  "k \<in> vl_overlay_keys l \<Longrightarrow> SnapshotSink k b l = (l, True)"
  "k \<notin> vl_overlay_keys l \<Longrightarrow> Decode b = None \<Longrightarrow>
    SnapshotSink k b l = (l\<lparr>vl_decode_error := Some (StorageError ''malformed parameter payload'')\<rparr>, False)"
  "k \<notin> vl_overlay_keys l \<Longrightarrow> Decode b = Some v \<Longrightarrow> SnapshotSink k b l = (l\<lparr>vl_values := vl_values l @ [(k, v)]\<rparr>, True)"
  by (simp_all add: SnapshotSink_def)

lemma feed_OverlaySink:
  "feed OverlaySink es l = (l', ok) \<Longrightarrow>
    (if list_all decodable es
     then ok \<and> l' = l\<lparr>vl_values := vl_values l @ map decode_entry es, vl_overlay_keys := vl_overlay_keys l \<union> fst ` set es\<rparr>
     else \<not> ok \<and> vl_decode_error l' = Some (StorageError ''malformed parameter payload''))"
proof (induction es arbitrary: l)
  case (Cons e es)
  obtain k b where e: "e = (k, b)" by (cases e)
  show ?case
  proof (cases "Decode b")
    case None
    with Cons.prems e show ?thesis by (auto simp: OverlaySink_simps decodable_def)
  next
    case (Some v)
    with Cons.prems e have "feed OverlaySink es (l\<lparr>vl_overlay_keys := insert k (vl_overlay_keys l), vl_values := vl_values l @ [(k, v)]\<rparr>) = (l', ok)"
      by (simp add: OverlaySink_simps)
    from Cons.IH[OF this] Some e show ?thesis by (auto simp: decodable_def decode_entry_def)
  qed
qed simp

lemma feed_SnapshotSink:
  "feed SnapshotSink es l = (l', ok) \<Longrightarrow>
    (let fresh = filter (\<lambda>e. fst e \<notin> vl_overlay_keys l) es in
     if list_all decodable fresh then ok \<and> l' = l\<lparr>vl_values := vl_values l @ map decode_entry fresh\<rparr>
     else \<not> ok \<and> vl_decode_error l' = Some (StorageError ''malformed parameter payload''))"
proof (induction es arbitrary: l)
  case (Cons e es)
  obtain k b where e: "e = (k, b)" by (cases e)
  show ?case
  proof (cases "k \<in> vl_overlay_keys l")
    case True
    with Cons.prems e have "feed SnapshotSink es l = (l', ok)" by (simp add: SnapshotSink_simps)
    from Cons.IH[OF this] True e show ?thesis by (simp add: Let_def)
  next
    case fresh: False
    show ?thesis
    proof (cases "Decode b")
      case None
      with Cons.prems e fresh show ?thesis by (auto simp: SnapshotSink_simps decodable_def Let_def)
    next
      case (Some v)
      with Cons.prems e fresh have "feed SnapshotSink es (l\<lparr>vl_values := vl_values l @ [(k, v)]\<rparr>) = (l', ok)"
        by (simp add: SnapshotSink_simps)
      from Cons.IH[OF this] Some e fresh show ?thesis by (auto simp: decodable_def decode_entry_def Let_def)
    qed
  qed
qed simp

text \<open>The entries below a prefix that the view enumerates, in the order it collects them.\<close>

definition view_entries :: "entries \<Rightarrow> entries \<Rightarrow> string \<Rightarrow> entries" where
  "view_entries snap overlay pfx =
    (let ov = filter (\<lambda>(k, _). starts_with k pfx) overlay in
     ov @ filter (\<lambda>e. fst e \<notin> fst ` set ov) (filter (\<lambda>(k, _). starts_with k pfx) snap))"

lemma CollectView_reads:
  assumes "reads (rds_overlay rd) overlay" "reads (rds_snapshot rd) snap"
  shows "CollectView rd pfx =
    (if list_all decodable (view_entries snap overlay pfx) then Result_Ok (map decode_entry (view_entries snap overlay pfx))
     else StorageError ''malformed parameter payload'')"
proof -
  let ?l0 = "\<lparr>vl_values = [], vl_overlay_keys = {}, vl_decode_error = None\<rparr>"
  define ov where "ov = filter (\<lambda>(k, _). starts_with k pfx) overlay"
  define sn where "sn = filter (\<lambda>(k, _). starts_with k pfx) snap"
  have lists: "rd_list (rds_overlay rd) pfx = (ov, ETrue)" "rd_list (rds_snapshot rd) pfx = (sn, ETrue)"
    using assms by (auto simp: reads_def ov_def sn_def)
  obtain l1 ok1 where f1: "feed OverlaySink ov ?l0 = (l1, ok1)" by fastforce
  obtain l2 ok2 where f2: "feed SnapshotSink sn l1 = (l2, ok2)" by fastforce
  show ?thesis
  proof (cases "list_all decodable ov")
    case True
    with feed_OverlaySink[OF f1] have l1: "ok1" "l1 = \<lparr>vl_values = map decode_entry ov, vl_overlay_keys = fst ` set ov, vl_decode_error = None\<rparr>"
      by auto
    have first: "reader_list (rds_overlay rd) pfx OverlaySink ?l0 = (l1, ETrue)" by (simp add: reader_list_def lists f1 l1)
    have second: "reader_list (rds_snapshot rd) pfx SnapshotSink l1 = (l2, if ok2 then ETrue else EFalse)"
      by (simp add: reader_list_def lists f2)
    from feed_SnapshotSink[OF f2] True show ?thesis
      unfolding CollectView_def first second Let_def fst_conv view_entries_def ov_def[symmetric] sn_def[symmetric]
      by (auto simp: ListOutcome_def l1(2) StorageError_def Result_Ok_def Result_Err_def split: if_splits)
  next
    case False
    with feed_OverlaySink[OF f1] show ?thesis
      by (auto simp: CollectView_def reader_list_def lists f1 ListOutcome_def Let_def view_entries_def ov_def[symmetric]
          sn_def[symmetric] StorageError_def Result_Ok_def Result_Err_def)
  qed
qed

lemma view_entries_map:
  assumes "map_wf snap" "map_wf overlay"
  shows "distinct (map fst (view_entries snap overlay pfx))"
    "map_of (view_entries snap overlay pfx) = (\<lambda>k. if starts_with k pfx then composite snap overlay k else None)"
proof -
  have d: "distinct (map fst (filter P es))" if "map_wf es" for P and es :: entries
    using map_wf_distinct[OF that] by (rule distinct_map_filter)
  show "distinct (map fst (view_entries snap overlay pfx))"
    using d[OF assms(1)] d[OF assms(2)] unfolding view_entries_def Let_def map_append distinct_append
    by (auto simp: filter_filter) (metis (mono_tags, lifting) fst_conv image_eqI mem_Collect_eq split_conv)
  show "map_of (view_entries snap overlay pfx) = (\<lambda>k. if starts_with k pfx then composite snap overlay k else None)"
  proof
    fix k
    define S where "S = fst ` set (filter (\<lambda>(k, _). starts_with k pfx) overlay)"
    have mem: "k \<in> S \<longleftrightarrow> starts_with k pfx \<and> map_of overlay k \<noteq> None"
      unfolding S_def by (force simp: map_of_eq_None_iff)
    have "map_of (filter (\<lambda>e. fst e \<notin> S) es) k = (if k \<in> S then None else map_of es k)" for es :: entries
      using map_of_filter[of "\<lambda>k. k \<notin> S" es] by (simp add: restrict_map_def)
    with mem show "map_of (view_entries snap overlay pfx) k = (if starts_with k pfx then composite snap overlay k else None)"
      unfolding view_entries_def Let_def map_of_append map_add_def composite_def S_def[symmetric]
      by (auto simp: map_of_filter_key simp del: filter_filter split: option.split)
  qed
qed

lemma sort_key_map:
  assumes "distinct (map fst es)"
  shows "map_wf (sort_key fst es)" "map_of (sort_key fst es) = map_of es"
proof -
  have d: "distinct (map fst (sort_key fst es))" using assms by (simp add: distinct_map)
  then show "map_wf (sort_key fst es)" by (simp add: map_wf_def strict_sorted_iff)
  show "map_of (sort_key fst es) = map_of es" using map_of_inject_set[OF d assms] by simp
qed


section \<open>Properties\<close>

definition read_result :: "bytes option \<Rightarrow> ParamValue Result" where
  "read_result payload = (case payload of
     None \<Rightarrow> ViewNotFound
   | Some b \<Rightarrow> (case Decode b of None \<Rightarrow> StorageError ''malformed parameter payload'' | Some v \<Rightarrow> Result_Ok v))"

lemma SessionView_Get_readable:
  assumes "readable owner sv st snap overlay" "map_wf snap" "map_wf (ime_data overlay)" "IsValidKey key"
  shows "SessionView_Get owner sv key (Some st) = (Some st, read_result (composite snap (ime_data overlay) key))"
proof -
  from AcquireReaders_readable[OF assms(1)] obtain st' where
    "AcquireReaders owner sv (Some st) = Inr (st', \<lparr>rds_overlay = engine_reader InMemoryOps overlay, rds_snapshot = snapshot_copy_reader snap\<rparr>)"
    "ReleaseReaders (sv_sid sv) st' = st" by blast
  moreover have "sv_open sv" using assms(1) by (simp add: readable_def)
  ultimately show ?thesis
    using ReadParam_reads[of "\<lparr>rds_overlay = engine_reader InMemoryOps overlay, rds_snapshot = snapshot_copy_reader snap\<rparr>"
        "ime_data overlay" snap key] in_memory_reads[OF assms(3)] snapshot_reads[OF assms(2)] assms(4)
    by (simp add: SessionView_Get_def read_result_def)
qed

lemma decodable_entries:
  assumes "map_wf snap" "map_wf overlay"
  shows "list_all decodable (view_entries snap overlay pfx) \<longleftrightarrow>
    (\<forall>k b. starts_with k pfx \<and> composite snap overlay k = Some b \<longrightarrow> Decode b \<noteq> None)"
proof -
  have "(k, b) \<in> set (view_entries snap overlay pfx) \<longleftrightarrow> starts_with k pfx \<and> composite snap overlay k = Some b" for k b
    using map_of_eq_Some_iff[OF view_entries_map(1)[OF assms], of pfx k b] view_entries_map(2)[OF assms, of pfx] by (auto split: if_splits)
  then show ?thesis by (auto simp: list_all_iff decodable_def split: if_splits) fastforce
qed

lemma SessionView_List_readable:
  assumes "readable owner sv st snap overlay" "map_wf snap" "map_wf (ime_data overlay)" "IsOk (ValidateListPrefix pfx)"
  shows "if \<exists>k b. starts_with k pfx \<and> composite snap (ime_data overlay) k = Some b \<and> Decode b = None
     then SessionView_List owner sv pfx (Some sink) (Some st, x) = ((Some st, x), StorageError ''malformed parameter payload'')
     else \<exists>es. map_wf es \<and> (\<forall>k. map_of es k = (if starts_with k pfx then Option.bind (composite snap (ime_data overlay) k) Decode else None)) \<and>
       SessionView_List owner sv pfx (Some sink) (Some st, x) = (feed_values sink es (Some st, x), Result_Ok ())"
proof -
  let ?rd = "\<lparr>rds_overlay = engine_reader InMemoryOps overlay, rds_snapshot = snapshot_copy_reader snap\<rparr>"
  let ?es = "view_entries snap (ime_data overlay) pfx"
  from AcquireReaders_readable[OF assms(1)] obtain st' where
    st': "AcquireReaders owner sv (Some st) = Inr (st', ?rd)" "ReleaseReaders (sv_sid sv) st' = st" by blast
  have reads: "reads (rds_overlay ?rd) (ime_data overlay)" "reads (rds_snapshot ?rd) snap"
    using in_memory_reads[OF assms(3)] snapshot_reads[OF assms(2)] by simp_all
  from assms(4) obtain u where ok: "ValidateListPrefix pfx = Inr u" by (cases "ValidateListPrefix pfx") (auto simp: IsOk_def)
  have run: "SessionView_List owner sv pfx (Some sink) (Some st, x) =
      (if list_all decodable ?es then (feed_values sink (sort_key fst (map decode_entry ?es)) (Some st, x), Result_Ok ())
       else ((Some st, x), StorageError ''malformed parameter payload''))"
    using assms(1) by (simp add: SessionView_List_def readable_def ok st' CollectView_reads[OF reads] Result_Ok_def StorageError_def Result_Err_def Let_def)
  have d: "distinct (map fst (map decode_entry ?es))"
    using view_entries_map(1)[OF assms(2,3)] by (simp add: decode_entry_def comp_def case_prod_beta')
  have m: "map_of (map decode_entry ?es) k = (if starts_with k pfx then map_option (\<lambda>b. the (Decode b)) (composite snap (ime_data overlay) k) else None)" for k
    using view_entries_map(2)[OF assms(2,3), of pfx] by (simp add: decode_entry_def map_of_map)
  show ?thesis
  proof (cases "list_all decodable ?es")
    case True
    then have dec: "Decode b \<noteq> None" if "starts_with k pfx" "composite snap (ime_data overlay) k = Some b" for k b
      using decodable_entries[OF assms(2,3)] that by blast
    have "map_of (sort_key fst (map decode_entry ?es)) k = (if starts_with k pfx then Option.bind (composite snap (ime_data overlay) k) Decode else None)" for k
      using dec[of k] by (auto simp: sort_key_map(2)[OF d] m split: Option.bind_split)
    moreover have good: "\<not> (\<exists>k b. starts_with k pfx \<and> composite snap (ime_data overlay) k = Some b \<and> Decode b = None)" using dec by blast
    ultimately show ?thesis unfolding if_not_P[OF good] using run True sort_key_map(1)[OF d] by (intro exI[of _ "sort_key fst (map decode_entry ?es)"]) simp
  next
    case False
    then have bad: "\<exists>k b. starts_with k pfx \<and> composite snap (ime_data overlay) k = Some b \<and> Decode b = None"
      unfolding decodable_entries[OF assms(2,3)] by (simp only: not_all not_imp not_not simp_thms conj_assoc)
    show ?thesis unfolding if_P[OF bad] using run False by simp
  qed
qed

lemma QuiesceSession_accepting: "ns_accepting (fold QuiesceSession sids st) = ns_accepting st"
  by (induction sids arbitrary: st)
     (auto simp: QuiesceSession_def erase_session_def close_registrations_def split: option.split)

lemma Quiesce_stopped [simp]: "\<not> ns_accepting (Quiesce sids st)"
  by (simp add: Quiesce_def Deactivate_def Let_def QuiesceSession_accepting)

text \<open>C20: a session view reads the overlay over the snapshot.  For a session that admits the view, a get
  and a test of a key answer from the composite map and return every lease; a list fails without
  calling the sink when an entry it would show is malformed, and otherwise hands the sink the
  composite's entries below the prefix, each once, in key order, decoded, with the node in
  the state it had before the call: no lease is held while the sink runs.\<close>

theorem session_view_composite:
  assumes "readable owner sv st snap overlay" "map_wf snap" "map_wf (ime_data overlay)"
    and "IsValidKey key" "IsOk (ValidateListPrefix pfx)"
  shows "SessionView_Get owner sv key (Some st) = (Some st, read_result (composite snap (ime_data overlay) key)) \<and>
    SessionView_Contains owner sv key (Some st) = (Some st, (case composite snap (ime_data overlay) key of
       None \<Rightarrow> Result_Ok False
     | Some b \<Rightarrow> if Decode b = None then StorageError ''malformed parameter payload'' else Result_Ok True)) \<and>
    (if \<exists>k b. starts_with k pfx \<and> composite snap (ime_data overlay) k = Some b \<and> Decode b = None
     then SessionView_List owner sv pfx (Some sink) (Some st, x) = ((Some st, x), StorageError ''malformed parameter payload'')
     else \<exists>es. map_wf es \<and> (\<forall>k. map_of es k = (if starts_with k pfx then Option.bind (composite snap (ime_data overlay) k) Decode else None)) \<and>
       SessionView_List owner sv pfx (Some sink) (Some st, x) = (feed_values sink es (Some st, x), Result_Ok ()))"
proof (intro conjI)
  let ?rd = "\<lparr>rds_overlay = engine_reader InMemoryOps overlay, rds_snapshot = snapshot_copy_reader snap\<rparr>"
  from AcquireReaders_readable[OF assms(1)] obtain st' where
    st': "AcquireReaders owner sv (Some st) = Inr (st', ?rd)" "ReleaseReaders (sv_sid sv) st' = st" by blast
  have reads: "reads (rds_overlay ?rd) (ime_data overlay)" "reads (rds_snapshot ?rd) snap"
    using in_memory_reads[OF assms(3)] snapshot_reads[OF assms(2)] by simp_all
  show "SessionView_Contains owner sv key (Some st) = (Some st, (case composite snap (ime_data overlay) key of
       None \<Rightarrow> Result_Ok False
     | Some b \<Rightarrow> if Decode b = None then StorageError ''malformed parameter payload'' else Result_Ok True))"
    using ReadParam_reads[OF reads, of key] assms(1,4)
    by (auto simp: SessionView_Contains_def readable_def st' ViewNotFound_def StorageError_def Result_Err_def Result_Ok_def MakeErrorInfo_def split: option.split)
qed (rule SessionView_Get_readable[OF assms(1-4)] SessionView_List_readable[OF assms(1-3,5)])+

definition example_view_session :: "InMemoryEngine SessionRecord" where
  "example_view_session = NewSessionRecord\<lparr>sr_phase := Active, sr_accepting := True,
     sr_snapshot := Some [(''a'', Encode (PV_Bool True)), (''b'', Encode (PV_Bool True))],
     sr_overlay := Some \<lparr>ime_data = [(''b'', Encode (PV_Bool False)), (''c'', Encode (PV_Bool True))]\<rparr>\<rparr>"

definition example_view_node :: "(InMemoryEngine, unit) NodeState" where
  "example_view_node = (NewNodeState \<lparr>ime_data = []\<rparr> ''app'' None)\<lparr>ns_accepting := True, ns_sessions := [''s1'' \<mapsto> example_view_session]\<rparr>"

definition example_view :: SessionView where
  "example_view = \<lparr>sv_open = True, sv_overlay_owner = 7, sv_sid = ''s1''\<rparr>"

lemma example_readable: "readable (\<lambda>_. 7) example_view example_view_node [(''a'', Encode (PV_Bool True)), (''b'', Encode (PV_Bool True))]
    \<lparr>ime_data = [(''b'', Encode (PV_Bool False)), (''c'', Encode (PV_Bool True))]\<rparr>"
  by (simp add: readable_def example_view_def example_view_node_def example_view_session_def NewSessionRecord_def)

theorem session_view_composite_witness:
  "SessionView_Get (\<lambda>_. 7) example_view ''b'' (Some example_view_node) = (Some example_view_node, Result_Ok (normalize (PV_Bool False)))"
proof -
  have "IsValidKey ''b''" "IsOk (ValidateListPrefix '''')" by code_simp+
  moreover have "map_wf [(''a'', Encode (PV_Bool True)), (''b'', Encode (PV_Bool True))]"
    "map_wf [(''b'', Encode (PV_Bool False)), (''c'', Encode (PV_Bool True))]" by (simp_all add: map_wf_def)
  ultimately show ?thesis
    using session_view_composite[OF example_readable, of "''b''" "''''" "\<lambda>_ _ x. (x, True)" "()"]
    by (simp add: composite_def read_result_def)
qed

section \<open>What the life-cycle calls leave alone\<close>

text \<open>Catalog writes touch neither the node's gate nor the session table; a call touches the table at its
  own name only; and only a creation puts a session where there was none.\<close>

definition same_table :: "('e, 'd) NodeState \<Rightarrow> ('e, 'd) NodeState \<Rightarrow> bool" where
  "same_table st st' \<longleftrightarrow> ns_accepting st' = ns_accepting st \<and> ns_sessions st' = ns_sessions st"

definition table_at :: "string \<Rightarrow> ('e, 'd) NodeState \<Rightarrow> ('e, 'd) NodeState \<Rightarrow> bool" where
  "table_at sid st st' \<longleftrightarrow> ns_accepting st' = ns_accepting st \<and> (\<forall>s. s \<noteq> sid \<longrightarrow> ns_sessions st' s = ns_sessions st s)"

definition none_added :: "string \<Rightarrow> ('e, 'd) NodeState \<Rightarrow> ('e, 'd) NodeState \<Rightarrow> bool" where
  "none_added sid st st' \<longleftrightarrow> table_at sid st st' \<and> (ns_sessions st sid = None \<longrightarrow> ns_sessions st' sid = None)"

lemmas table_defs = same_table_def table_at_def none_added_def

lemma gate_kept:
  "ns_accepting (LatchCatalogUnavailable st) = ns_accepting st"
  "ns_accepting (Leave st) = ns_accepting st" "ns_sessions (Leave st) = ns_sessions st"
  "ns_accepting (set_session sid r st) = ns_accepting st"
  "ns_accepting (EmitDiagnostics ds st) = ns_accepting st"
  "ns_accepting (close_registrations r st) = ns_accepting st"
  "ns_accepting (ReleaseSession sid st) = ns_accepting st"
  "ns_accepting (SessionRollback sid r st) = ns_accepting st"
  "ns_accepting (RegisterSession regs st) = ns_accepting st"
  by (auto simp: LatchCatalogUnavailable_def Leave_def set_session_def EmitDiagnostics_def Let_def RegisterSession_def
      close_registrations_def ReleaseSession_def SessionRollback_def erase_session_def split: option.splits prod.splits)

lemma TryPutCatalogRecord_table: "TryPutCatalogRecord env cr st = (st', ok) \<Longrightarrow> same_table st st'"
  by (auto simp: TryPutCatalogRecord_def table_defs split: option.splits prod.splits if_splits)

lemma WriteCatalogRecord_table: "WriteCatalogRecord env cr st = (st', r) \<Longrightarrow> same_table st st'"
  by (auto simp: WriteCatalogRecord_def gate_kept table_defs dest!: TryPutCatalogRecord_table split: prod.splits bool.splits)

lemma FinishCatalogDeletion_table: "FinishCatalogDeletion env now cr (st, f) = ((st', f'), x) \<Longrightarrow> same_table st st'"
  by (auto simp: FinishCatalogDeletion_def Let_def gate_kept table_defs dest!: WriteCatalogRecord_table split: prod.splits sum.splits if_splits)

lemma BeginCatalogDeletion_table: "BeginCatalogDeletion env now sid r g st = (st', x) \<Longrightarrow>
    table_at sid st st' \<and> (r = None \<longrightarrow> same_table st st')"
  by (auto simp: BeginCatalogDeletion_def Let_def gate_kept table_defs dest!: TryPutCatalogRecord_table
      split: option.splits prod.splits bool.splits if_splits)

lemma CloseDrain_table: "CloseDrain env now sid r cr (st, f) = ((st', f'), x) \<Longrightarrow> table_at sid st st'"
  by (auto simp: CloseDrain_def Let_def gate_kept map_prod_def table_defs dest!: FinishCatalogDeletion_table split: option.splits prod.splits if_splits)

lemma RetainAdmitted_table: "RetainAdmitted env now sid r st = (st', x) \<Longrightarrow> table_at sid st st'"
  by (auto simp: RetainAdmitted_def gate_kept table_defs dest!: TryPutCatalogRecord_table split: option.splits prod.splits sum.splits if_splits bool.splits)

lemma Finish_fst_table: "fst (FinishCatalogDeletion env now cr (st, f)) = (st', f') \<Longrightarrow> same_table st st'"
  by (rule FinishCatalogDeletion_table[of env now cr st f st' f' "snd (FinishCatalogDeletion env now cr (st, f))"]) (metis prod.collapse)

lemma CreateCatalogStore_table: "CreateCatalogStore env now sid options r (st, f) = ((st', f'), x) \<Longrightarrow> same_table st st'"
  by (auto simp: CreateCatalogStore_def Let_def table_defs dest!: WriteCatalogRecord_table Finish_fst_table split: prod.splits sum.splits if_splits)

lemma InitSession_table: "InitSession env now sid options r (st, f) = ((st', f'), x) \<Longrightarrow> same_table st st'"
  by (auto simp: InitSession_def Let_def table_defs dest!: CreateCatalogStore_table split: option.splits prod.splits if_splits)

lemma AnnounceSession_table:
  "ns_accepting (AnnounceSession env sid key st) = ns_accepting st"
  "s \<noteq> sid \<Longrightarrow> ns_sessions (AnnounceSession env sid key st) s = ns_sessions st s"
  by (auto simp: AnnounceSession_def gate_kept split: option.splits)

lemma CreateSessionAdmitted_table:
  "CreateSessionAdmitted env now generation regs sid options (st, f) = ((st', f'), x) \<Longrightarrow> table_at sid st st'"
  by (auto simp: CreateSessionAdmitted_def Let_def gate_kept table_defs AnnounceSession_table dest!: InitSession_table
      split: option.splits prod.splits sum.splits)

lemma view_leased_cases:
  assumes "leased (st, f) refused body = ((st', f'), x)"
  obtains "st' = st" | s s' where "same_table st s" "body (s, f) = ((s', f'), x)" "same_table s' st'" "ns_accepting st"
proof (cases "Enter st")
  case None
  with assms that(1) show ?thesis by (simp add: leased_def)
next
  case (Some s)
  obtain s' f'' r where b: "body (s, f) = ((s', f''), r)" by (cases "body (s, f)") auto
  from Some have "same_table st s" "ns_accepting st" by (auto simp: same_table_def Enter_def split: if_splits)
  with that(2)[of s s'] assms Some b show ?thesis by (auto simp: leased_def same_table_def gate_kept)
qed

lemma CreateSession_table:
  "CreateSession env now generation regs sid options (st, f) = ((st', f'), x) \<Longrightarrow> table_at sid st st'"
  by (auto simp: CreateSession_def elim!: view_leased_cases dest!: CreateSessionAdmitted_table split: if_splits)
    (auto simp: table_defs)

lemma RetainSession_table:
  "RetainSession env now sid (st, f) = ((st', f'), x) \<Longrightarrow> none_added sid st st'"
  by (auto simp: RetainSession_def elim!: view_leased_cases dest!: RetainAdmitted_table split: if_splits option.splits prod.splits)
    (auto simp: table_defs)

lemma CloseSession_table:
  "CloseSession env now sid (st, f) = ((st', f'), x) \<Longrightarrow> none_added sid st st'"
  by (auto simp: CloseSession_def map_prod_def elim!: view_leased_cases dest!: BeginCatalogDeletion_table FinishCatalogDeletion_table CloseDrain_table
      split: if_splits option.splits prod.splits sum.splits)
    (auto simp: table_defs)

text \<open>A call that reports success entered the gate.\<close>

lemma CloseSession_gate: "CloseSession env now sid (st, f) = ((st', f'), Some (Inr u)) \<Longrightarrow> ns_accepting st'"
  using CloseSession_table[of env now sid st f st' f' "Some (Inr u)"]
  by (auto simp: CloseSession_def leased_def Result_ErrCode_def table_defs Enter_def split: option.splits if_splits)

lemma RetainSession_gate: "RetainSession env now sid (st, f) = ((st', f'), Some (Inr u)) \<Longrightarrow> ns_accepting st'"
  using RetainSession_table[of env now sid st f st' f' "Some (Inr u)"]
  by (auto simp: RetainSession_def leased_def Result_ErrCode_def table_defs Enter_def split: option.splits if_splits)

definition creates :: "string \<Rightarrow> Clock \<times> NodeOp \<Rightarrow> bool" where
  "creates sid call \<longleftrightarrow> (\<exists>generation regs options. snd call = OpCreate generation regs sid options)"

lemma NodeCall_table:
  assumes "NodeCall env call (st, f) = (st', f')"
  shows "ns_accepting st' = ns_accepting st \<and> (\<not> creates sid call \<longrightarrow> ns_sessions st sid = None \<longrightarrow> ns_sessions st' sid = None)"
proof (cases "snd call")
  case (OpCreate generation regs sid' options)
  with assms have "CreateSession env (fst call) generation regs sid' options (st, f) =
      ((st', f'), snd (CreateSession env (fst call) generation regs sid' options (st, f)))" by (simp add: NodeCall_def prod_eq_iff)
  from CreateSession_table[OF this] OpCreate show ?thesis by (auto simp: table_at_def creates_def)
next
  case (OpRetain sid')
  with assms have "RetainSession env (fst call) sid' (st, f) = ((st', f'), snd (RetainSession env (fst call) sid' (st, f)))"
    by (simp add: NodeCall_def prod_eq_iff)
  from RetainSession_table[OF this] show ?thesis by (cases "sid = sid'") (auto simp: table_defs)
next
  case (OpClose sid')
  with assms have "CloseSession env (fst call) sid' (st, f) = ((st', f'), snd (CloseSession env (fst call) sid' (st, f)))"
    by (simp add: NodeCall_def prod_eq_iff)
  from CloseSession_table[OF this] show ?thesis by (cases "sid = sid'") (auto simp: table_defs)
qed

lemma NodeRun_table:
  "NodeRun env calls (st, f) = (st', f') \<Longrightarrow> ns_accepting st' = ns_accepting st \<and>
     ((\<forall>call\<in>set calls. \<not> creates sid call) \<longrightarrow> ns_sessions st sid = None \<longrightarrow> ns_sessions st' sid = None)"
proof (induction calls arbitrary: st f)
  case (Cons call calls)
  obtain s1 f1 where one: "NodeCall env call (st, f) = (s1, f1)" by fastforce
  with Cons.prems have "NodeRun env calls (s1, f1) = (st', f')" by (simp add: NodeRun_Cons)
  from Cons.IH[OF this] NodeCall_table[OF one, of sid] show ?case by auto
qed (simp add: NodeRun_def)

section \<open>The end of a view\<close>

text \<open>Each of the three reads is refused with the error \<open>e\<close>; neither the node nor the caller's state changes.\<close>

definition view_refused :: "('e SessionRecord \<Rightarrow> nat) \<Rightarrow> SessionView \<Rightarrow> string \<Rightarrow> string \<Rightarrow>
    (string \<Rightarrow> ParamValue \<Rightarrow> ('e, 'd) NodeState option \<times> 'x \<Rightarrow> (('e, 'd) NodeState option \<times> 'x) \<times> bool) \<Rightarrow> 'x \<Rightarrow>
    unit Result \<Rightarrow> ('e, 'd) NodeState option \<Rightarrow> bool" where
  "view_refused owner sv key pfx sink x e node \<longleftrightarrow>
     SessionView_Get owner sv key node = (node, ErrFrom e) \<and> SessionView_Contains owner sv key node = (node, ErrFrom e) \<and>
     SessionView_List owner sv pfx (Some sink) (node, x) = ((node, x), e)"

lemma view_refusedI:
  assumes "sv_open sv" "IsValidKey key" "IsOk (ValidateListPrefix pfx)" "AcquireReaders owner sv node = Inl e"
  shows "view_refused owner sv key pfx sink x (Inl e) node"
proof -
  have "\<exists>u. ValidateListPrefix pfx = Inr u" using assms(3) by (auto simp: IsOk_def split: sum.splits)
  then show ?thesis using assms
    by (auto simp: view_refused_def SessionView_Get_def SessionView_Contains_def SessionView_List_def ErrFrom_def)
qed

text \<open>C21: a view does not outlive its session.  After a close that reports success, and after any later life-cycle calls that do not
  create the name again, every read of the view, a get, a presence test or an enumeration, is refused as not
  found; after a reported retention, and after any later calls that do not close the name, as state lost, while the
  catalog is available; and once the node was stopped, or is gone, as disconnected, whatever is called on it.  A later
  session of the same name is not read through it: wherever an active session with another overlay stands in its place the
  reads are refused as not found.  No refused read changes the node or calls the sink.\<close>

theorem session_view_ends:
  assumes "env_laws env" "clock_ok now" "lifecycle_inv env st" "sv_open sv" "IsValidKey key" "IsOk (ValidateListPrefix pfx)"
    "\<forall>call\<in>set calls. call_ok call"
  shows "(CloseSession env now (sv_sid sv) (st, f) = ((st1, f1), Some (Result_Ok ())) \<and>
      (\<forall>call\<in>set calls. \<not> creates (sv_sid sv) call) \<and> NodeRun env calls (st1, f1) = (st2, f2) \<longrightarrow>
      view_refused owner sv key pfx sink x ViewNotFound (Some st2)) \<and>
    (RetainSession env now (sv_sid sv) (st, f) = ((st1, f1), Some (Result_Ok l)) \<and>
      (\<forall>call\<in>set calls. snd call \<noteq> OpClose (sv_sid sv)) \<and> NodeRun env calls (st1, f1) = (st2, f2) \<and> \<not> ns_catalog_unavailable st2 \<longrightarrow>
      view_refused owner sv key pfx sink x (Err StateLost ''session parameter state was released'') (Some st2)) \<and>
    (snd (Stop sids (Some st)) = Some st1 \<and> NodeRun env calls (st1, f1) = (st2, f2) \<longrightarrow>
      view_refused owner sv key pfx sink x ViewDisconnected (Some st2)) \<and>
    view_refused owner sv key pfx sink x ViewDisconnected None \<and>
    (ns_accepting st2 \<and> ns_sessions st2 (sv_sid sv) = Some r \<and> sr_lifecycle r = kActive \<and> owner r \<noteq> sv_overlay_owner sv \<longrightarrow>
      view_refused owner sv key pfx sink x ViewNotFound (Some st2))"
proof (intro conjI impI; (elim conjE)?)
  note refused = view_refusedI[OF assms(4-6)]
  {
    assume close: "CloseSession env now (sv_sid sv) (st, f) = ((st1, f1), Some (Result_Ok ()))"
      and calls: "\<forall>call\<in>set calls. \<not> creates (sv_sid sv) call" "NodeRun env calls (st1, f1) = (st2, f2)"
    have "ns_accepting st1" "ns_sessions st1 (sv_sid sv) = None"
      using CloseSession_gate CloseSession_ok[OF _ assms(1-3)] close by (auto simp: Result_Ok_def session_removed_def)
    with NodeRun_table[OF calls(2), of "sv_sid sv"] calls(1) have "ns_accepting st2" "ns_sessions st2 (sv_sid sv) = None" by auto
    then show "view_refused owner sv key pfx sink x ViewNotFound (Some st2)"
      unfolding ViewNotFound_def Result_Err_def using assms(4)
      by (intro refused) (simp add: AcquireReaders_def Enter_def ViewNotFound_def Result_Err_def)
  next
    assume ret: "RetainSession env now (sv_sid sv) (st, f) = ((st1, f1), Some (Result_Ok l))"
      and calls: "\<forall>call\<in>set calls. snd call \<noteq> OpClose (sv_sid sv)" "NodeRun env calls (st1, f1) = (st2, f2)" "\<not> ns_catalog_unavailable st2"
    from RetainSession_ok[OF ret[unfolded Result_Ok_def] assms(3)] obtain cr where cr: "retained_in st1 (sv_sid sv) cr" by blast
    have inv: "lifecycle_inv env st1" using RetainSession_inv[OF ret assms(1-3)] by blast
    have "\<forall>call\<in>set calls. call_ok call \<and> snd call \<noteq> OpClose (sv_sid sv)" using calls(1) assms(7) by blast
    from retained_kept[OF calls(2) assms(1) this inv cr] have st2: "lifecycle_inv env st2" "retained_in st2 (sv_sid sv) cr" by auto
    from lifecycle_invD(4)[OF st2(1) calls(3)] st2(2) obtain r where r: "ns_sessions st2 (sv_sid sv) = Some r" "sr_catalogued r" "sr_phase r = Active"
      by (auto simp: retained_in_def live_state_def)
    from lifecycle_invD(2)[OF st2(1) r(1)] r st2(2) have "sr_lifecycle r = kRetained" by (auto simp: session_ok_def retained_in_def)
    moreover have "ns_accepting st2" using NodeRun_table[OF calls(2)] RetainSession_gate[OF ret[unfolded Result_Ok_def]] by blast
    ultimately show "view_refused owner sv key pfx sink x (Err StateLost ''session parameter state was released'') (Some st2)"
      unfolding Result_Err_def using assms(4) r
      by (intro refused) (simp add: AcquireReaders_def Enter_def IsActive_def Result_Err_def)
  next
    assume stop: "snd (Stop sids (Some st)) = Some st1" "NodeRun env calls (st1, f1) = (st2, f2)"
    then have "\<not> ns_accepting st2" using NodeRun_table[OF stop(2)] by (auto simp: Stop_def)
    then show "view_refused owner sv key pfx sink x ViewDisconnected (Some st2)"
      unfolding ViewDisconnected_def Result_Err_def using assms(4)
      by (intro refused) (simp add: AcquireReaders_def Enter_def ViewDisconnected_def Result_Err_def)
  next
    show "view_refused owner sv key pfx sink x ViewDisconnected None"
      unfolding ViewDisconnected_def Result_Err_def using assms(4)
      by (intro refused) (simp add: AcquireReaders_def ViewDisconnected_def Result_Err_def)
  next
    assume "ns_accepting st2" "ns_sessions st2 (sv_sid sv) = Some r" "sr_lifecycle r = kActive" "owner r \<noteq> sv_overlay_owner sv"
    then show "view_refused owner sv key pfx sink x ViewNotFound (Some st2)"
      unfolding ViewNotFound_def Result_Err_def using assms(4)
      by (intro refused) (auto simp: AcquireReaders_def Enter_def TryAcquire_def ViewNotFound_def Result_Err_def split: option.split)
  }
qed

text \<open>A session is created and closed; another one is created; the view of the first finds nothing.\<close>

theorem session_view_ends_witness:
  "\<exists>st1 f1. CloseSession NodeReconcile.example_node example_clock ''s1'' (NodeRun NodeReconcile.example_node [example_create ''s1''] example_world) =
     ((st1, f1), Some (Result_Ok ())) \<and>
     (let node = Some (fst (NodeRun NodeReconcile.example_node [example_create ''s2''] (st1, f1))) in
      SessionView_Get (\<lambda>_. 7) example_view ''a'' node = (node, ViewNotFound) \<and>
      SessionView_Contains (\<lambda>_. 7) example_view ''a'' node = (node, ViewNotFound))"
proof -
  from example_close obtain st st' f f' where w: "NodeRun NodeReconcile.example_node [example_create ''s1''] example_world = (st, f)"
    "lifecycle_inv NodeReconcile.example_node st"
    "CloseSession NodeReconcile.example_node example_clock ''s1'' (st, f) = ((st', f'), Some (Result_Ok ()))" by blast
  have sv: "sv_open example_view" "sv_sid example_view = ''s1''" by (simp_all add: example_view_def)
  have key: "IsValidKey ''a''" "IsOk (ValidateListPrefix '''')" by code_simp+
  obtain st2 f2 where run: "NodeRun NodeReconcile.example_node [example_create ''s2''] (st', f') = (st2, f2)" by fastforce
  have calls: "\<forall>call\<in>set [example_create ''s2'']. call_ok call" "\<forall>call\<in>set [example_create ''s2'']. \<not> creates ''s1'' call"
    by (simp_all add: example_create_def call_ok_def example_laws creates_def)
  have "view_refused (\<lambda>_. 7) example_view ''a'' '''' (\<lambda>_ _ y. (y, True)) () ViewNotFound (Some st2)"
    using session_view_ends[OF example_laws(1,2) w(2) sv(1) key calls(1), THEN conjunct1, unfolded sv(2), THEN mp,
      OF conjI[OF w(3) conjI[OF calls(2) run]]] .
  with run w show ?thesis by (auto simp: view_refused_def ErrFrom_def ViewNotFound_def Result_Err_def)
qed

end
