(* ===== verification/MetadataParser.thy ===== *)
theory MetadataParser
  imports NodeQuery
begin

text \<open>
  The reader of session metadata in the buffer publisher, \<open>SessionMetadataParser\<close> of
  \<open>src/buffer_publisher.cpp\<close>: a JSON reader with strings, escapes and nested values to skip.  A
  parser maps the text from the current position to what follows.  Loops over members and
  elements take the length of that text as fuel: every iteration consumes a character, and
  the lemmas show that no run is cut short.
\<close>

section \<open>Characters\<close>

definition JsonHexValue :: "char \<Rightarrow> int" where
  "JsonHexValue c = (let n = of_char c :: int in
     if 0x30 \<le> n \<and> n \<le> 0x39 then n - 0x30
     else if 0x61 \<le> n \<and> n \<le> 0x66 then n - 0x61 + 10
     else if 0x41 \<le> n \<and> n \<le> 0x46 then n - 0x41 + 10
     else -1)"

fun ReadHexLoop :: "nat \<Rightarrow> 16 word \<Rightarrow> string \<Rightarrow> (16 word \<times> string) option" where
  "ReadHexLoop 0 result s = Some (result, s)"
| "ReadHexLoop (Suc n) result [] = None"
| "ReadHexLoop (Suc n) result (c # s) =
    (if JsonHexValue c < 0 then None else ReadHexLoop n (push_bit 4 result OR word_of_int (JsonHexValue c)) s)"

definition ReadHex4 :: "string \<Rightarrow> (16 word \<times> string) option" where
  "ReadHex4 s = (if length s < 4 then None else ReadHexLoop 4 0 s)"

definition AppendCodePoint :: "u32 \<Rightarrow> string" where
  "AppendCodePoint code_point = map (\<lambda>b. char_of_byte (ucast b))
    (if code_point \<le> 0x7F then [code_point]
     else if code_point \<le> 0x7FF then [0xC0 OR drop_bit 6 code_point, 0x80 OR (code_point AND 0x3F)]
     else if code_point \<le> 0xFFFF then
       [0xE0 OR drop_bit 12 code_point, 0x80 OR (drop_bit 6 code_point AND 0x3F), 0x80 OR (code_point AND 0x3F)]
     else
       [0xF0 OR drop_bit 18 code_point, 0x80 OR (drop_bit 12 code_point AND 0x3F),
        0x80 OR (drop_bit 6 code_point AND 0x3F), 0x80 OR (code_point AND 0x3F)])"

definition ParseUnicodeEscape :: "string \<Rightarrow> (string \<times> string) option" where
  "ParseUnicodeEscape s = (case ReadHex4 s of
     None \<Rightarrow> None
   | Some (first, s) \<Rightarrow>
       if 0xDC00 \<le> first \<and> first \<le> 0xDFFF then None
       else if 0xD800 \<le> first \<and> first \<le> 0xDBFF then
         (if length s < 2 \<or> s ! 0 \<noteq> CHR 0x5C \<or> s ! 1 \<noteq> CHR ''u'' then None
          else (case ReadHex4 (drop 2 s) of
            None \<Rightarrow> None
          | Some (second, s) \<Rightarrow>
              if second < 0xDC00 \<or> second > 0xDFFF then None
              else Some (AppendCodePoint (0x10000 + push_bit 10 (ucast first - 0xD800) + (ucast second - 0xDC00)), s)))
       else Some (AppendCodePoint (ucast first), s))"

definition SkipWhitespace :: "string \<Rightarrow> string" where
  "SkipWhitespace s = dropWhile (\<lambda>c. c = CHR '' '' \<or> c = CHR 0x09 \<or> c = CHR 0x0A \<or> c = CHR 0x0D) s"

definition Consume :: "char \<Rightarrow> string \<Rightarrow> string option" where
  "Consume expected s = (if s = [] \<or> hd s \<noteq> expected then None else Some (tl s))"

section \<open>Strings\<close>

fun ContinuationLoop :: "nat \<Rightarrow> u32 \<Rightarrow> string \<Rightarrow> (u32 \<times> string) option" where
  "ContinuationLoop 0 code_point s = Some (code_point, s)"
| "ContinuationLoop (Suc n) code_point [] = None"
| "ContinuationLoop (Suc n) code_point (c # s) =
    (if byte_of_char c AND 0xC0 \<noteq> 0x80 then None
     else ContinuationLoop n (push_bit 6 code_point OR (ucast (byte_of_char c) AND 0x3F)) s)"

definition MultiByte :: "byte \<Rightarrow> string \<Rightarrow> (string \<times> string) option" where
  "MultiByte lead s =
    (let width = (if lead \<ge> 0xF0 then 4 else if lead \<ge> 0xE0 then 3 else if lead \<ge> 0xC2 then 2 else 0 :: nat) in
     if width = 0 \<or> width - 1 > length s then None
     else (case ContinuationLoop (width - 1) (ucast lead AND (push_bit (7 - width) 1 - 1)) s of
       None \<Rightarrow> None
     | Some (code_point, s) \<Rightarrow>
         (let minimum = (if width = 2 then 0x80 else if width = 3 then 0x800 else 0x10000) in
          if code_point < minimum \<or> code_point > 0x10FFFF \<or> (0xD800 \<le> code_point \<and> code_point \<le> 0xDFFF) then None
          else Some (AppendCodePoint code_point, s))))"

definition SimpleEscape :: "char \<Rightarrow> char option" where
  "SimpleEscape c =
    (if c = CHR 0x22 \<or> c = CHR 0x5C \<or> c = CHR ''/'' then Some c
     else if c = CHR ''b'' then Some (CHR 0x08)
     else if c = CHR ''f'' then Some (CHR 0x0C)
     else if c = CHR ''n'' then Some (CHR 0x0A)
     else if c = CHR ''r'' then Some (CHR 0x0D)
     else if c = CHR ''t'' then Some (CHR 0x09)
     else None)"

lemma ReadHexLoop_length: "ReadHexLoop n w s = Some (w', s') \<Longrightarrow> length s' \<le> length s"
  by (induction n w s rule: ReadHexLoop.induct) (auto split: if_splits)

lemma ReadHex4_length: "ReadHex4 s = Some (w, s') \<Longrightarrow> length s' \<le> length s"
  by (auto simp: ReadHex4_def split: if_splits dest: ReadHexLoop_length)

lemma ParseUnicodeEscape_length: "ParseUnicodeEscape s = Some (t, s') \<Longrightarrow> length s' \<le> length s"
  by (fastforce simp: ParseUnicodeEscape_def split: option.splits if_splits prod.splits dest: ReadHex4_length)

lemma ContinuationLoop_length: "ContinuationLoop n w s = Some (w', s') \<Longrightarrow> length s' \<le> length s"
  by (induction n w s rule: ContinuationLoop.induct) (auto split: if_splits)

lemma MultiByte_length: "MultiByte b s = Some (t, s') \<Longrightarrow> length s' \<le> length s"
  by (auto simp: MultiByte_def Let_def split: if_splits option.splits dest: ContinuationLoop_length)

function ParseStringLoop :: "string \<Rightarrow> string \<Rightarrow> (string \<times> string) option" where
  "ParseStringLoop output [] = None"
| "ParseStringLoop output (c # s) =
    (if c = CHR 0x22 then Some (output, s)
     else if byte_of_char c < 0x20 then None
     else if c \<noteq> CHR 0x5C then
       (if byte_of_char c < 0x80 then ParseStringLoop (output @ [c]) s
        else (case MultiByte (byte_of_char c) s of
          None \<Rightarrow> None
        | Some (t, s') \<Rightarrow> ParseStringLoop (output @ t) s'))
     else (case s of
       [] \<Rightarrow> None
     | escaped # s' \<Rightarrow>
         (case SimpleEscape escaped of
            Some e \<Rightarrow> ParseStringLoop (output @ [e]) s'
          | None \<Rightarrow>
              if escaped \<noteq> CHR ''u'' then None
              else (case ParseUnicodeEscape s' of
                None \<Rightarrow> None
              | Some (t, s'') \<Rightarrow> ParseStringLoop (output @ t) s''))))"
  by pat_completeness auto
termination
  by (relation "measure (\<lambda>(_, s). length s)") (auto dest!: MultiByte_length ParseUnicodeEscape_length)

declare ParseStringLoop.simps(2) [simp del]

definition ParseString :: "string \<Rightarrow> (string \<times> string) option" where
  "ParseString s = (case Consume (CHR 0x22) s of None \<Rightarrow> None | Some s \<Rightarrow> ParseStringLoop '''' s)"


section \<open>Skipped values\<close>

fun SkipMembers :: "(string \<Rightarrow> string option) \<Rightarrow> nat \<Rightarrow> string \<Rightarrow> string option" where
  "SkipMembers skip 0 s = None"
| "SkipMembers skip (Suc fuel) s = (case ParseString s of
     None \<Rightarrow> None
   | Some (_, s) \<Rightarrow> (case Consume (CHR '':'') (SkipWhitespace s) of
       None \<Rightarrow> None
     | Some s \<Rightarrow> (case skip (SkipWhitespace s) of
         None \<Rightarrow> None
       | Some s \<Rightarrow> (case Consume (CHR ''}'') (SkipWhitespace s) of
           Some s \<Rightarrow> Some s
         | None \<Rightarrow> (case Consume (CHR '','') (SkipWhitespace s) of
             None \<Rightarrow> None
           | Some s \<Rightarrow> SkipMembers skip fuel (SkipWhitespace s))))))"

fun SkipElements :: "(string \<Rightarrow> string option) \<Rightarrow> nat \<Rightarrow> string \<Rightarrow> string option" where
  "SkipElements skip 0 s = None"
| "SkipElements skip (Suc fuel) s = (case skip s of
     None \<Rightarrow> None
   | Some s \<Rightarrow> (case Consume (CHR '']'') (SkipWhitespace s) of
       Some s \<Rightarrow> Some s
     | None \<Rightarrow> (case Consume (CHR '','') (SkipWhitespace s) of
         None \<Rightarrow> None
       | Some s \<Rightarrow> SkipElements skip fuel (SkipWhitespace s))))"

definition SkipInteger :: "string \<Rightarrow> string option" where
  "SkipInteger s =
    (if s = [] then None
     else if hd s = CHR ''0'' then (if tl s \<noteq> [] \<and> isdigit (hd (tl s)) then None else Some (tl s))
     else if \<not> isdigit (hd s) then None
     else Some (dropWhile isdigit s))"

definition SkipFraction :: "string \<Rightarrow> string option" where
  "SkipFraction s =
    (if s = [] \<or> hd s \<noteq> CHR ''.'' then Some s
     else if takeWhile isdigit (tl s) = [] then None
     else Some (dropWhile isdigit (tl s)))"

definition SkipExponent :: "string \<Rightarrow> string option" where
  "SkipExponent s =
    (if s = [] \<or> hd s \<noteq> CHR ''e'' \<and> hd s \<noteq> CHR ''E'' then Some s
     else (let s = tl s; s = (if s \<noteq> [] \<and> (hd s = CHR ''+'' \<or> hd s = CHR ''-'') then tl s else s) in
           if takeWhile isdigit s = [] then None else Some (dropWhile isdigit s)))"

definition SkipNumber :: "string \<Rightarrow> string option" where
  "SkipNumber s =
    (if hd s \<noteq> CHR ''-'' \<and> \<not> isdigit (hd s) then None
     else Option.bind (SkipInteger (if hd s = CHR ''-'' then tl s else s)) (\<lambda>s. Option.bind (SkipFraction s) SkipExponent))"

text \<open>The argument is \<open>17 - depth\<close>: at depth 17 the value is refused.\<close>

fun SkipValue :: "nat \<Rightarrow> string \<Rightarrow> string option" where
  "SkipValue 0 s = None"
| "SkipValue (Suc d) s =
    (if s = [] then None
     else if hd s = CHR 0x22 then map_option snd (ParseString s)
     else if hd s = CHR ''{'' then
       (let s = SkipWhitespace (tl s) in
        case Consume (CHR ''}'') s of Some s \<Rightarrow> Some s | None \<Rightarrow> SkipMembers (SkipValue d) (length s) s)
     else if hd s = CHR ''['' then
       (let s = SkipWhitespace (tl s) in
        case Consume (CHR '']'') s of Some s \<Rightarrow> Some s | None \<Rightarrow> SkipElements (SkipValue d) (length s) s)
     else if starts_with s ''true'' then Some (drop 4 s)
     else if starts_with s ''false'' then Some (drop 5 s)
     else if starts_with s ''null'' then Some (drop 4 s)
     else SkipNumber s)"

section \<open>The metadata object\<close>

record MetadataFields =
  mf_state :: "string option"
  mf_created_at :: "string option"
  mf_generation :: "string option"

definition ReadField :: "string \<Rightarrow> MetadataFields \<Rightarrow> string \<Rightarrow> (MetadataFields \<times> string) option" where
  "ReadField key mf s =
    (if key = ''state'' then
       (if mf_state mf \<noteq> None then None else map_option (\<lambda>(t, s). (mf\<lparr>mf_state := Some t\<rparr>, s)) (ParseString s))
     else if key = ''created_at'' then
       (if mf_created_at mf \<noteq> None then None else map_option (\<lambda>(t, s). (mf\<lparr>mf_created_at := Some t\<rparr>, s)) (ParseString s))
     else if key = ''generation_uuid'' then
       (if mf_generation mf \<noteq> None then None else map_option (\<lambda>(t, s). (mf\<lparr>mf_generation := Some t\<rparr>, s)) (ParseString s))
     else map_option (Pair mf) (SkipValue 17 s))"

fun ParseFields :: "nat \<Rightarrow> MetadataFields \<Rightarrow> string \<Rightarrow> (MetadataFields \<times> string) option" where
  "ParseFields 0 mf s = None"
| "ParseFields (Suc fuel) mf s = (case ParseString s of
     None \<Rightarrow> None
   | Some (key, s) \<Rightarrow> (case Consume (CHR '':'') (SkipWhitespace s) of
       None \<Rightarrow> None
     | Some s \<Rightarrow> (case ReadField key mf (SkipWhitespace s) of
         None \<Rightarrow> None
       | Some (mf, s) \<Rightarrow> (case Consume (CHR ''}'') (SkipWhitespace s) of
           Some s \<Rightarrow> Some (mf, s)
         | None \<Rightarrow> (case Consume (CHR '','') (SkipWhitespace s) of
             None \<Rightarrow> None
           | Some s \<Rightarrow> ParseFields fuel mf (SkipWhitespace s))))))"

definition ParseMetadata :: "string \<Rightarrow> FenceUuid option" where
  "ParseMetadata t =
    (if length t > 16384 then None
     else (case Consume (CHR ''{'') (SkipWhitespace t) of
       None \<Rightarrow> None
     | Some s \<Rightarrow>
         (let s = SkipWhitespace s in
          if Consume (CHR ''}'') s \<noteq> None then None
          else (case ParseFields (length s) \<lparr>mf_state = None, mf_created_at = None, mf_generation = None\<rparr> s of
            None \<Rightarrow> None
          | Some (mf, s) \<Rightarrow>
              if SkipWhitespace s \<noteq> [] \<or> mf_created_at mf = None \<or> mf_state mf \<noteq> Some ''active'' then None
              else (case mf_generation mf of
                None \<Rightarrow> None
              | Some generation_text \<Rightarrow>
                  (case ParseFenceUuid generation_text of
                     None \<Rightarrow> None
                   | Some u \<Rightarrow> if FormatFenceUuid u \<noteq> generation_text then None else Some u))))))"

section \<open>No run is cut short\<close>

lemma ParseStringLoop_length: "ParseStringLoop out s = Some (t, s') \<Longrightarrow> length s' < length s"
proof (induction s arbitrary: out rule: length_induct)
  case (1 s)
  show ?case
  proof (cases s)
    case (Cons c r)
    have step: "length s' < Suc (length r)" if "ParseStringLoop o' r' = Some (t, s')" "length r' \<le> length r" for o' r'
    proof -
      have "length r' < length s" using that(2) Cons by simp
      with 1(1) that(1) have "length s' < length r'" by blast
      with that(2) show ?thesis by simp
    qed
    from 1(2) have "length s' < Suc (length r)" unfolding Cons ParseStringLoop.simps(2)
      by (auto split: if_splits option.splits list.splits prod.splits dest!: MultiByte_length ParseUnicodeEscape_length step)
    then show ?thesis by (simp add: Cons)
  qed (use 1 in simp)
qed

lemma Consume_Some: "Consume c s = Some r \<longleftrightarrow> s = c # r"
  by (cases s) (auto simp: Consume_def)

lemma SkipWhitespace_length: "length (SkipWhitespace s) \<le> length s"
  by (simp add: SkipWhitespace_def length_dropWhile_le)

lemma ParseString_length: "ParseString s = Some (t, s') \<Longrightarrow> length s' < length s"
  by (auto simp: ParseString_def Consume_Some split: option.splits dest: ParseStringLoop_length)

lemma Consume_skip_length: "Consume c (SkipWhitespace s) = Some s' \<Longrightarrow> length s' < length s"
  using SkipWhitespace_length[of s] by (simp add: Consume_Some)

lemma skip_chain: "length s \<le> n \<Longrightarrow> length (SkipWhitespace s) \<le> n"
  using SkipWhitespace_length[of s] by linarith

definition shrinks :: "(string \<Rightarrow> string option) \<Rightarrow> bool" where
  "shrinks p \<longleftrightarrow> (\<forall>s s'. p s = Some s' \<longrightarrow> length s' < length s)"

lemma SkipMembers_length:
  assumes "shrinks skip"
  shows "SkipMembers skip n s = Some s' \<Longrightarrow> length s' < length s"
proof (induction n arbitrary: s)
  case (Suc n)
  from Suc.prems obtain t s1 s2 s3 where run: "ParseString s = Some (t, s1)" "Consume (CHR '':'') (SkipWhitespace s1) = Some s2"
    "skip (SkipWhitespace s2) = Some s3"
    "Consume (CHR ''}'') (SkipWhitespace s3) = Some s' \<or>
      (\<exists>s4. Consume (CHR '','') (SkipWhitespace s3) = Some s4 \<and> SkipMembers skip n (SkipWhitespace s4) = Some s')"
    by (auto split: option.splits prod.splits)
  have "length s3 < length s"
    using ParseString_length[OF run(1)] Consume_skip_length[OF run(2)] run(3) assms SkipWhitespace_length[of s2]
    by (fastforce simp: shrinks_def)
  moreover from run(4) have "length s' < length s3"
  proof
    assume "\<exists>s4. Consume (CHR '','') (SkipWhitespace s3) = Some s4 \<and> SkipMembers skip n (SkipWhitespace s4) = Some s'"
    then obtain s4 where "Consume (CHR '','') (SkipWhitespace s3) = Some s4" "SkipMembers skip n (SkipWhitespace s4) = Some s'" by blast
    with Suc.IH[of "SkipWhitespace s4"] Consume_skip_length[of "CHR '',''" s3 s4] SkipWhitespace_length[of s4] show ?thesis by simp
  qed (rule Consume_skip_length)
  ultimately show ?case by linarith
qed simp


lemma SkipElements_length:
  assumes "shrinks skip"
  shows "SkipElements skip n s = Some s' \<Longrightarrow> length s' < length s"
proof (induction n arbitrary: s)
  case (Suc n)
  from Suc.prems obtain s3 where run: "skip s = Some s3" "Consume (CHR '']'') (SkipWhitespace s3) = Some s' \<or>
      (\<exists>s4. Consume (CHR '','') (SkipWhitespace s3) = Some s4 \<and> SkipElements skip n (SkipWhitespace s4) = Some s')"
    by (auto split: option.splits)
  have "length s3 < length s" using run(1) assms by (simp add: shrinks_def)
  moreover from run(2) have "length s' < length s3"
  proof
    assume "\<exists>s4. Consume (CHR '','') (SkipWhitespace s3) = Some s4 \<and> SkipElements skip n (SkipWhitespace s4) = Some s'"
    then obtain s4 where "Consume (CHR '','') (SkipWhitespace s3) = Some s4" "SkipElements skip n (SkipWhitespace s4) = Some s'" by blast
    with Suc.IH[of "SkipWhitespace s4"] Consume_skip_length[of "CHR '',''" s3 s4] SkipWhitespace_length[of s4] show ?thesis by simp
  qed (rule Consume_skip_length)
  ultimately show ?case by linarith
qed simp

lemma dropWhile_digits_length: "takeWhile isdigit s \<noteq> [] \<Longrightarrow> length (dropWhile isdigit s) < length s"
  by (cases s) (auto split: if_splits simp: less_Suc_eq_le length_dropWhile_le)

lemma SkipInteger_length: "SkipInteger s = Some s' \<Longrightarrow> length s' < length s"
  using dropWhile_digits_length[of s] by (cases s) (auto simp: SkipInteger_def split: if_splits)

lemma SkipFraction_length: "SkipFraction s = Some s' \<Longrightarrow> length s' \<le> length s"
  using dropWhile_digits_length[of "tl s"] by (cases s) (auto simp: SkipFraction_def split: if_splits)

lemma SkipExponent_length: "SkipExponent s = Some s' \<Longrightarrow> length s' \<le> length s"
  using dropWhile_digits_length[of "tl s"] dropWhile_digits_length[of "tl (tl s)"]
  by (cases s) (auto simp: SkipExponent_def Let_def split: if_splits)

lemma SkipNumber_length: "SkipNumber s = Some s' \<Longrightarrow> length s' < length s"
  by (fastforce simp: SkipNumber_def bind_eq_Some_conv dest!: SkipInteger_length SkipFraction_length SkipExponent_length split: if_splits)

lemma SkipValue_shrinks: "shrinks (SkipValue d)"
proof (induction d)
  case (Suc d)
  have "length s' < length s" if run: "SkipValue (Suc d) s = Some s'" for s s'
  proof -
    have ws: "length (SkipWhitespace (tl s)) < length s" if "s \<noteq> []" using SkipWhitespace_length[of "tl s"] that by (cases s) auto
    from run show ?thesis
      by (auto simp: Let_def Consume_Some split: if_splits option.splits
          dest!: ParseString_length SkipNumber_length SkipMembers_length[OF Suc] SkipElements_length[OF Suc])
        (use ws in force)+
  qed
  then show ?case by (simp add: shrinks_def del: SkipValue.simps)
qed (simp add: shrinks_def)

lemma ReadField_length:
  "ReadField key mf s = Some (mf', s') \<Longrightarrow> length s' < length s"
  using SkipValue_shrinks[of 17]
  by (auto simp: ReadField_def shrinks_def split: if_splits dest: ParseString_length simp del: SkipValue.simps)

text \<open>More fuel than the length of the text changes nothing: the loop ends by itself.\<close>

lemma ParseFields_fuel:
  "length s \<le> m \<Longrightarrow> length s \<le> n \<Longrightarrow> ParseFields m mf s = ParseFields n mf s"
proof (induction m arbitrary: n mf s)
  case 0
  then show ?case by (cases n) (simp_all add: ParseString_def Consume_def)
next
  case (Suc m)
  show ?case
  proof (cases n)
    case 0
    with Suc.prems show ?thesis by (simp add: ParseString_def Consume_def)
  next
    case (Suc n')
    have "ParseFields m mf' (SkipWhitespace s4) = ParseFields n' mf' (SkipWhitespace s4)"
      if "ParseString s = Some (t, s1)" "Consume (CHR '':'') (SkipWhitespace s1) = Some s2"
        "ReadField t mf (SkipWhitespace s2) = Some (mf', s3)" "Consume (CHR '','') (SkipWhitespace s3) = Some s4" for t s1 s2 s3 s4 mf'
    proof -
      have "length (SkipWhitespace s4) < length s"
        using ParseString_length[OF that(1)] Consume_skip_length[OF that(2)] ReadField_length[OF that(3)] Consume_skip_length[OF that(4)]
          SkipWhitespace_length[of s2] SkipWhitespace_length[of s4] by linarith
      with Suc.prems Suc show ?thesis by (intro Suc.IH) auto
    qed
    then show ?thesis unfolding Suc by (simp split: option.split prod.split)
  qed
qed


section \<open>Reading what the node writes\<close>

lemma plain_char:
  assumes "IsPlainText (c # t)"
  shows "c \<noteq> CHR 0x22" "c \<noteq> CHR 0x5C" "\<not> byte_of_char c < 0x20" "byte_of_char c < 0x80" "IsPlainText t"
proof -
  have n: "0x20 \<le> (of_char c :: nat)" "(of_char c :: nat) < 0x7f" and rest: "c \<noteq> CHR 0x22" "c \<noteq> CHR 0x5C" "IsPlainText t"
    using assms by (auto simp: IsPlainText_def Let_def)
  from rest show "c \<noteq> CHR 0x22" "c \<noteq> CHR 0x5C" "IsPlainText t" by auto
  have "unat (byte_of_char c) = of_char c" using n by (simp add: byte_of_char_def unat_of_nat)
  with n show "\<not> byte_of_char c < 0x20" "byte_of_char c < 0x80" by (simp_all add: word_less_nat_alt)
qed

lemma ParseStringLoop_plain: "IsPlainText t \<Longrightarrow> ParseStringLoop out (t @ CHR 0x22 # rest) = Some (out @ t, rest)"
proof (induction t arbitrary: out)
  case (Cons c t)
  from plain_char[OF Cons.prems] Cons.IH show ?case by (simp add: ParseStringLoop.simps(2))
qed (simp add: ParseStringLoop.simps(2))

lemma ParseString_Quote: "IsPlainText t \<Longrightarrow> ParseString (CHR 0x22 # t @ CHR 0x22 # rest) = Some (t, rest)"
  by (simp add: ParseString_def Consume_def ParseStringLoop_plain)

lemma skip_simps [simp]:
  "SkipWhitespace (CHR 0x22 # s) = CHR 0x22 # s" "SkipWhitespace (CHR '':'' # s) = CHR '':'' # s"
  "SkipWhitespace (CHR '','' # s) = CHR '','' # s" "SkipWhitespace (CHR ''}'' # s) = CHR ''}'' # s"
  "SkipWhitespace (CHR ''{'' # s) = CHR ''{'' # s" "SkipWhitespace [] = []"
  by (simp_all add: SkipWhitespace_def)

lemma Consume_simps [simp]: "Consume c (d # s) = (if d = c then Some s else None)"
  by (simp add: Consume_def)

text \<open>The metadata the node publishes for a session is read back as its generation exactly when the
  session is active.\<close>

lemma ParseMetadata_SessionJson:
  assumes "IsPlainText created" "length created \<le> 16000" "fence_uuid_wf u"
  shows "ParseMetadata (SessionJson state created (FormatFenceUuid u)) = (if state = kActive then Some u else None)"
proof -
  let ?g = "FormatFenceUuid u"
  have uuid: "ParseFenceUuid ?g = Some u" using assms(3) ParseFenceUuid_iff by blast
  have "\<forall>c\<in>set kHexDigits \<union> {CHR ''-''}. IsPlainText [c]" by (simp add: kHexDigits_def IsPlainText_def)
  then have "\<forall>c\<in>set ?g. IsPlainText [c]" using Format_chars[of _ u] by (auto simp: FormatFenceUuid_def)
  then have g: "IsPlainText ?g" by (simp add: IsPlainText_def list_all_iff)
  have g36: "length ?g = 36" using assms(3) by (simp add: FormatFenceUuid_def fence_uuid_wf_def length_FormatAckToken)
  have n: "IsPlainText (LifecycleName state)" "length (LifecycleName state) \<le> 20" "(LifecycleName state = ''active'') = (state = kActive)"
    by (cases state; simp add: IsPlainText_def)+
  have names: "IsPlainText ''state''" "IsPlainText ''created_at''" "IsPlainText ''generation_uuid''" by (simp_all add: IsPlainText_def)
  let ?s = "CHR 0x22 # ''state'' @ CHR 0x22 # CHR '':'' # CHR 0x22 # LifecycleName state @ CHR 0x22 # CHR '','' #
    CHR 0x22 # ''created_at'' @ CHR 0x22 # CHR '':'' # CHR 0x22 # created @ CHR 0x22 # CHR '','' #
    CHR 0x22 # ''generation_uuid'' @ CHR 0x22 # CHR '':'' # CHR 0x22 # ?g @ CHR 0x22 # CHR ''}'' # []"
  have json: "SessionJson state created ?g = CHR ''{'' # ?s"
    by (simp add: SessionJson_def json_field_def Quote_def)
  have "ParseFields (length ?s) \<lparr>mf_state = None, mf_created_at = None, mf_generation = None\<rparr> ?s =
      ParseFields (Suc (Suc (Suc (length ?s)))) \<lparr>mf_state = None, mf_created_at = None, mf_generation = None\<rparr> ?s"
    by (rule ParseFields_fuel) simp_all
  also have "\<dots> = Some (\<lparr>mf_state = Some (LifecycleName state), mf_created_at = Some created, mf_generation = Some ?g\<rparr>, [])"
    using ParseString_Quote[OF n(1)] ParseString_Quote[OF assms(1)] ParseString_Quote[OF g]
      ParseString_Quote[OF names(1)] ParseString_Quote[OF names(2)] ParseString_Quote[OF names(3)]
    by (simp add: ReadField_def)
  finally have fields: "ParseFields (length ?s) \<lparr>mf_state = None, mf_created_at = None, mf_generation = None\<rparr> ?s =
    Some (\<lparr>mf_state = Some (LifecycleName state), mf_created_at = Some created, mf_generation = Some ?g\<rparr>, [])" .
  have "length (CHR ''{'' # ?s) \<le> 16384" using assms(2) g36 n(2) by simp
  then show ?thesis unfolding json ParseMetadata_def using fields uuid n(3) by (simp add: Let_def)
qed

text \<open>A lead byte above F7 is taken for that of a four byte character, so a sequence that is not UTF-8
  is accepted and read as another text.\<close>

lemma metadata_string_ill_formed:
  "ParseString (CHR 0x22 # string_of_bytes [0xF8, 0x90, 0x80, 0x80] @ [CHR 0x22]) = Some (string_of_bytes [0xF0, 0x90, 0x80, 0x80], []) \<and>
   \<not> IsValidUtf8 (string_of_bytes [0xF8, 0x90, 0x80, 0x80])"
  by code_simp

end
