(* ===== verification/FencePublisher.thy ===== *)
theory FencePublisher
  imports AckClient
begin

text \<open>
  The publisher side of a fence, \<open>FencePublisher\<close> of \<open>src/fence.cpp\<close>: numbered submissions, the
  marker of a fence, the arbitration of its result between completion, cancellation and the
  deadline, and the loss of the transport generation.  The world is the publisher with what
  lies behind the transport; a transport call, a sample of the generation and a wait may
  change both, which is how other threads act on the publisher.  A waiter is shared by
  pointer, so the publisher keeps the waiters and a handle names one.
\<close>

section \<open>State\<close>

datatype FencePublisherTarget = TargetCache | TargetBuffer

record FencePublisherBinding =
  fpb_target :: FencePublisherTarget
  fpb_prefix :: string
  fpb_sid :: string
  fpb_receiver_generation :: FenceUuid
  fpb_buffer_class :: "BufferClass option"
  fpb_durability :: AckDurability

record FenceWaiterState =
  fw_terminal :: bool
  fw_on_bound :: bool
  fw_result :: "AckResultV1 option"
  fw_completed_at :: "int option"
  fw_reserved :: bool

definition NewWaiter :: FenceWaiterState where
  "NewWaiter = \<lparr>fw_terminal = False, fw_on_bound = False, fw_result = None, fw_completed_at = None, fw_reserved = False\<rparr>"

record FenceHandle =
  fh_token :: AckToken
  fh_through :: u64
  fh_deadline :: int
  fh_waiter :: nat
  fh_diagnostic :: "ErrorInfo option"

record FencePublisher =
  fp_uuid :: FenceUuid
  fp_binding :: FencePublisherBinding
  fp_generation :: u64
  fp_active :: nat
  fp_accepting :: bool
  fp_last_sequence :: u64
  fp_exhausted :: bool
  fp_may_have_submitted :: bool
  fp_first_error :: "ErrorInfo option"
  fp_mismatch :: bool
  fp_disconnected :: bool
  fp_synced_allowed :: bool
  fp_pending :: "FenceHandle option"
  fp_waiters :: "FenceWaiterState list"

definition NewPublisher :: "FenceUuid \<Rightarrow> FencePublisherBinding \<Rightarrow> u64 \<Rightarrow> FencePublisher" where
  "NewPublisher uuid binding generation = \<lparr>fp_uuid = uuid, fp_binding = binding, fp_generation = generation, fp_active = 0,
     fp_accepting = True, fp_last_sequence = 0, fp_exhausted = False, fp_may_have_submitted = False, fp_first_error = None,
     fp_mismatch = False, fp_disconnected = False, fp_synced_allowed = False, fp_pending = None, fp_waiters = []\<rparr>"

type_synonym 'w pub_world = "FencePublisher \<times> 'w"

text \<open>The transport with its fence calls; \<open>ft_wait_until\<close> is the wait on a waiter's condition.\<close>

record 'w FenceTransport =
  ft_client :: "'w pub_world ClientTransport"
  ft_generation :: "'w pub_world \<Rightarrow> 'w pub_world \<times> u64"
  ft_supports :: "'w pub_world \<Rightarrow> bool"
  ft_wait_until :: "('w pub_world \<Rightarrow> bool) \<Rightarrow> int \<Rightarrow> 'w pub_world \<Rightarrow> 'w pub_world"

definition upd :: "(FencePublisher \<Rightarrow> FencePublisher) \<Rightarrow> 'w pub_world \<Rightarrow> 'w pub_world" where
  "upd f = (\<lambda>(p, w). (f p, w))"

definition waiter :: "nat \<Rightarrow> 'w pub_world \<Rightarrow> FenceWaiterState" where
  "waiter i v = fp_waiters (fst v) ! i"

definition set_waiter :: "nat \<Rightarrow> FenceWaiterState \<Rightarrow> 'w pub_world \<Rightarrow> 'w pub_world" where
  "set_waiter i fw = upd (\<lambda>p. p\<lparr>fp_waiters := (fp_waiters p)[i := fw]\<rparr>)"

section \<open>A waiter's transitions\<close>

text \<open>Each of these is one critical section under the waiter's lock.\<close>

definition TerminalResultBefore :: "FenceWaiterState \<Rightarrow> int \<Rightarrow> AckResultV1 option" where
  "TerminalResultBefore fw deadline =
    (if \<not> fw_terminal fw \<or> fw_result fw = None then None
     else (case fw_completed_at fw of
       None \<Rightarrow> None
     | Some t \<Rightarrow> if t \<ge> deadline then None else fw_result fw))"

definition TerminalResultPublishedOnBoundGenerationBefore :: "FenceWaiterState \<Rightarrow> int \<Rightarrow> bool" where
  "TerminalResultPublishedOnBoundGenerationBefore fw deadline \<longleftrightarrow> fw_terminal fw \<and> fw_on_bound fw \<and> fw_result fw \<noteq> None \<and>
     (case fw_completed_at fw of None \<Rightarrow> False | Some t \<Rightarrow> t < deadline)"

definition ReserveWaiter :: "bool \<Rightarrow> AckResultV1 \<Rightarrow> AckResultV1 \<Rightarrow> FenceWaiterState \<Rightarrow> FenceWaiterState option" where
  "ReserveWaiter mismatch disconnected result fw =
    (if fw_terminal fw \<or> fw_reserved fw then None
     else Some (fw\<lparr>fw_reserved := True, fw_result := Some (if mismatch then disconnected else result),
       fw_on_bound := \<not> mismatch\<rparr>))"

definition FinalizeWaiter :: "bool \<Rightarrow> AckResultV1 \<Rightarrow> int \<Rightarrow> FenceWaiterState \<Rightarrow> FenceWaiterState \<times> bool" where
  "FinalizeWaiter mismatch disconnected now fw =
    (let fw = fw\<lparr>fw_reserved := False\<rparr> in
     if fw_terminal fw then (fw, False)
     else (let fw = (if mismatch then fw\<lparr>fw_result := Some disconnected, fw_on_bound := False\<rparr> else fw) in
           (fw\<lparr>fw_completed_at := Some now, fw_terminal := True\<rparr>, True)))"

definition CancelWaiter :: "AckResultV1 \<Rightarrow> int \<Rightarrow> FenceWaiterState \<Rightarrow> FenceWaiterState" where
  "CancelWaiter disconnected now fw =
    (if fw_terminal fw then fw
     else fw\<lparr>fw_result := Some disconnected, fw_on_bound := False, fw_completed_at := Some now, fw_terminal := True\<rparr>)"

definition RefuseWaiter :: "AckResultV1 \<Rightarrow> int \<Rightarrow> int \<Rightarrow> FenceWaiterState \<Rightarrow> FenceWaiterState \<times> AckResultV1 option" where
  "RefuseWaiter retained deadline now fw =
    (if fw_terminal fw then (fw, TerminalResultBefore fw deadline)
     else if now < deadline
     then (fw\<lparr>fw_terminal := True, fw_result := Some retained, fw_completed_at := Some now\<rparr>, Some retained)
     else (fw\<lparr>fw_terminal := True\<rparr>, None))"

definition RecordPolled :: "AckResultV1 \<Rightarrow> int \<Rightarrow> int \<Rightarrow> FenceWaiterState \<Rightarrow> FenceWaiterState \<times> AckResultV1 Result" where
  "RecordPolled result deadline now fw =
    (if \<not> fw_terminal fw then
       (if now < deadline
        then (fw\<lparr>fw_result := Some result, fw_completed_at := Some now, fw_terminal := True\<rparr>, Result_Ok result)
        else (fw, Err Timeout ''''))
     else (fw, case TerminalResultBefore fw deadline of Some r \<Rightarrow> Result_Ok r | None \<Rightarrow> Err Timeout ''''))"

definition ExpireWaiter :: "FenceWaiterState \<Rightarrow> FenceWaiterState" where
  "ExpireWaiter fw = fw\<lparr>fw_terminal := True\<rparr>"

section \<open>The transport generation\<close>

definition AdmitOperation :: "FencePublisher \<Rightarrow> FencePublisher option" where
  "AdmitOperation p = (if \<not> fp_accepting p then None else Some (p\<lparr>fp_active := fp_active p + 1\<rparr>))"

definition LeaveOperation :: "FencePublisher \<Rightarrow> FencePublisher" where
  "LeaveOperation p = p\<lparr>fp_active := fp_active p - 1\<rparr>"

definition DisconnectedResult :: "FencePublisher \<Rightarrow> u64 \<Rightarrow> AckResultV1" where
  "DisconnectedResult p through_sequence = (FenceOkResult through_sequence (fpb_durability (fp_binding p)))\<lparr>ar_status := Disconnected\<rparr>"

definition SampleMismatch :: "'w FenceTransport \<Rightarrow> 'w pub_world \<Rightarrow> 'w pub_world \<times> bool" where
  "SampleMismatch ft v =
    (if fp_mismatch (fst v) then (v, True)
     else (case ft_generation ft v of (v, g) \<Rightarrow> (v, g \<noteq> fp_generation (fst v))))"

definition MarkGenerationMismatch :: "FencePublisher \<Rightarrow> FencePublisher" where
  "MarkGenerationMismatch p = p\<lparr>fp_mismatch := True, fp_accepting := False\<rparr>"

definition CancelPendingWaiter :: "'w FenceTransport \<Rightarrow> 'w pub_world \<Rightarrow> 'w pub_world" where
  "CancelPendingWaiter ft v = (case fp_pending (fst v) of
     None \<Rightarrow> v
   | Some h \<Rightarrow>
       (let v = upd (\<lambda>p. p\<lparr>fp_pending := None\<rparr>) v in
        if fw_terminal (waiter (fh_waiter h) v) then v
        else (case ct_now (ft_client ft) v of (v, now) \<Rightarrow>
          set_waiter (fh_waiter h) (CancelWaiter (DisconnectedResult (fst v) (fh_through h)) now (waiter (fh_waiter h) v)) v)))"

definition Disconnect :: "'w FenceTransport \<Rightarrow> 'w pub_world \<Rightarrow> 'w pub_world" where
  "Disconnect ft v = CancelPendingWaiter ft (upd (\<lambda>p. p\<lparr>fp_disconnected := True, fp_accepting := False\<rparr>) v)"

definition CheckGeneration :: "'w FenceTransport \<Rightarrow> 'w pub_world \<Rightarrow> 'w pub_world \<times> bool" where
  "CheckGeneration ft v =
    (if fp_disconnected (fst v) then (v, False)
     else (case SampleMismatch ft v of
       (v, False) \<Rightarrow> (v, True)
     | (v, True) \<Rightarrow> (Disconnect ft v, False)))"

definition PublishWaiterResult :: "'w FenceTransport \<Rightarrow> nat \<Rightarrow> u64 \<Rightarrow> AckResultV1 \<Rightarrow> 'w pub_world \<Rightarrow> 'w pub_world \<times> bool option" where
  "PublishWaiterResult ft i through_sequence result v =
    (case SampleMismatch ft v of (v, mismatch) \<Rightarrow>
       (case ReserveWaiter mismatch (DisconnectedResult (fst v) through_sequence) result (waiter i v) of
          None \<Rightarrow> (v, None)
        | Some fw \<Rightarrow>
            (case (if mismatch then (set_waiter i fw v, True) else SampleMismatch ft (set_waiter i fw v)) of (v, mismatch) \<Rightarrow>
               (if fw_terminal (waiter i v) then (set_waiter i ((waiter i v)\<lparr>fw_reserved := False\<rparr>) v, None)
                else (case ct_now (ft_client ft) v of (v, now) \<Rightarrow>
                  (case FinalizeWaiter mismatch (DisconnectedResult (fst v) through_sequence) now (waiter i v) of
                     (fw, published) \<Rightarrow> (set_waiter i fw v, if published then Some mismatch else None)))))))"


section \<open>Submissions\<close>

text \<open>An operation that fails the generation check also waits for its peers to leave; the wait changes
  nothing.\<close>

definition RecordSubmissionError :: "ErrorInfo \<Rightarrow> FencePublisher \<Rightarrow> FencePublisher" where
  "RecordSubmissionError e p = p\<lparr>fp_may_have_submitted := True,
     fp_first_error := (case fp_first_error p of
        Some first \<Rightarrow> Some first
      | None \<Rightarrow> Some \<lparr>ei_status = ei_status e, ei_message = SanitizeFenceDiagnostic (ei_message e), ei_cause = ei_cause e\<rparr>)\<rparr>"

definition NextSequence :: "FencePublisher \<Rightarrow> FencePublisher" where
  "NextSequence p = (let n = fp_last_sequence p + 1 in
     p\<lparr>fp_last_sequence := n, fp_exhausted := fp_exhausted p \<or> n = - 1\<rparr>)"

definition SubmitAdmitted :: "'w FenceTransport \<Rightarrow> string \<Rightarrow> bytes \<Rightarrow> string \<Rightarrow> 'w pub_world \<Rightarrow> 'w pub_world \<times> unit Result" where
  "SubmitAdmitted ft key payload encoding v = (case CheckGeneration ft v of
     (v, False) \<Rightarrow> (v, Err Disconnected '''')
   | (v, True) \<Rightarrow>
       if \<not> ft_supports ft v then (v, Err InvalidArgument ''Transport does not support Fence'')
       else if fp_exhausted (fst v) then (v, Err InvalidArgument ''Fence sequence exhausted'')
       else
         (let v = upd NextSequence v in
          case ct_put (ft_client ft) key payload encoding \<lparr>po_ack_token = None,
              po_fence_lane = Some \<lparr>flm_publisher_uuid = fp_uuid (fst v), flm_sequence = fp_last_sequence (fst v)\<rparr>\<rparr> v of
            (v, result) \<Rightarrow>
              (let v = (case result of Inl e \<Rightarrow> upd (RecordSubmissionError e) v | Inr _ \<Rightarrow> v) in
               case CheckGeneration ft v of
                 (v, True) \<Rightarrow> (v, result)
               | (v, False) \<Rightarrow> (upd (\<lambda>p. p\<lparr>fp_may_have_submitted := True\<rparr>) v, Err Disconnected ''''))))"

definition SubmitData :: "'w FenceTransport \<Rightarrow> string \<Rightarrow> bytes \<Rightarrow> string \<Rightarrow> 'w pub_world \<Rightarrow> 'w pub_world \<times> unit Result" where
  "SubmitData ft key payload encoding v = (case AdmitOperation (fst v) of
     None \<Rightarrow> (v, Err Disconnected '''')
   | Some p \<Rightarrow> (case SubmitAdmitted ft key payload encoding (p, snd v) of (v, result) \<Rightarrow> (upd LeaveOperation v, result)))"

section \<open>Fences\<close>

definition FenceMarkerKey :: "FencePublisher \<Rightarrow> string option" where
  "FenceMarkerKey p = (let b = fp_binding p in
     if fpb_target b = TargetCache then
       BuildCacheFenceMarkerKey (fpb_prefix b) (fpb_sid b) (fpb_receiver_generation b) (fp_uuid p) (fp_last_sequence p)
     else (case fpb_buffer_class b of
       None \<Rightarrow> None
     | Some bc \<Rightarrow> BuildBufferFenceMarkerKey (fpb_prefix b) (fpb_sid b) (fpb_receiver_generation b) bc (fp_uuid p)
         (fpb_durability b) (fp_last_sequence p)))"

definition MarkerError :: "unit Result \<Rightarrow> ErrorInfo option \<Rightarrow> ErrorInfo option" where
  "MarkerError put recorded = (case (put, recorded) of
     (Inl e, None) \<Rightarrow> Some \<lparr>ei_status = ei_status e, ei_message = SanitizeFenceDiagnostic (ei_message e), ei_cause = ei_cause e\<rparr>
   | _ \<Rightarrow> recorded)"

definition SetDeadline :: "AckToken \<Rightarrow> int \<Rightarrow> FencePublisher \<Rightarrow> FencePublisher" where
  "SetDeadline token deadline p = (case fp_pending p of
     None \<Rightarrow> p
   | Some h \<Rightarrow> if fh_token h = token then p\<lparr>fp_pending := Some (h\<lparr>fh_deadline := deadline\<rparr>)\<rparr> else p)"

text \<open>From the published waiter to the answer: the deadline, the sole marker and the last check.\<close>

definition SubmitMarker :: "'w FenceTransport \<Rightarrow> string \<Rightarrow> int \<Rightarrow> FenceHandle \<Rightarrow> 'w pub_world \<Rightarrow> 'w pub_world \<times> FenceHandle Result" where
  "SubmitMarker ft key total_deadline handle v = (case ct_now (ft_client ft) v of (v, now) \<Rightarrow>
     (let deadline = SaturatingDeadlineAt now total_deadline;
          v = upd (SetDeadline (fh_token handle) deadline) v;
          recorded = fp_first_error (fst v);
          v = upd (\<lambda>p. p\<lparr>fp_first_error := None\<rparr>) v in
      case ct_put (ft_client ft) key EncodeFenceMarker kSitosV1Fence \<lparr>po_ack_token = Some (fh_token handle), po_fence_lane = None\<rparr> v of
        (v, put) \<Rightarrow>
          (let v = (if IsOk put then v else upd (\<lambda>p. p\<lparr>fp_may_have_submitted := True\<rparr>) v);
               handle = handle\<lparr>fh_deadline := deadline, fh_diagnostic := MarkerError put recorded\<rparr> in
           case CheckGeneration ft v of
             (v, True) \<Rightarrow> (v, Result_Ok handle)
           | (v, False) \<Rightarrow>
               (let v = upd (\<lambda>p. p\<lparr>fp_may_have_submitted := True\<rparr>) v in
                if TerminalResultPublishedOnBoundGenerationBefore (waiter (fh_waiter handle) v) deadline
                then (v, Result_Ok handle) else (v, Err Disconnected '''')))))"

definition BeginFenceAdmitted :: "'w FenceTransport \<Rightarrow> u32 list \<Rightarrow> int \<Rightarrow> 'w pub_world \<Rightarrow> 'w pub_world \<times> FenceHandle Result" where
  "BeginFenceAdmitted ft words total_deadline v = (case CheckGeneration ft v of
     (v, False) \<Rightarrow> (v, Err Disconnected '''')
   | (v, True) \<Rightarrow>
       (let p = fst v in
        if \<not> ft_supports ft v then (v, Err InvalidArgument ''Transport does not support Fence'')
        else if fpb_target (fp_binding p) = TargetBuffer \<and> fpb_durability (fp_binding p) = Synced \<and> \<not> fp_synced_allowed p
        then (v, Err InvalidArgument ''synchronized Fence requires the #105 barrier'')
        else if fp_pending p \<noteq> None then (v, Result_Err InvalidArgument ''Fence already pending'' OperationInProgress)
        else (case FenceMarkerKey p of
          None \<Rightarrow> (v, Err InvalidArgument ''invalid Fence binding'')
        | Some key \<Rightarrow>
            (let handle = \<lparr>fh_token = GenerateAckToken words, fh_through = fp_last_sequence p, fh_deadline = 0,
                   fh_waiter = length (fp_waiters p), fh_diagnostic = None\<rparr> in
             SubmitMarker ft key total_deadline handle
               (upd (\<lambda>p. p\<lparr>fp_waiters := fp_waiters p @ [NewWaiter], fp_pending := Some handle\<rparr>) v)))))"

definition BeginFence :: "'w FenceTransport \<Rightarrow> u32 list \<Rightarrow> int \<Rightarrow> 'w pub_world \<Rightarrow> 'w pub_world \<times> FenceHandle Result" where
  "BeginFence ft words total_deadline v =
    (if total_deadline \<le> 0 then
       (if \<not> fp_accepting (fst v) then (v, Err Disconnected '''')
        else (v, Err InvalidArgument ''Fence deadline must be positive''))
     else (case AdmitOperation (fst v) of
       None \<Rightarrow> (v, Err Disconnected '''')
     | Some p \<Rightarrow> (case BeginFenceAdmitted ft words total_deadline (p, snd v) of (v, result) \<Rightarrow> (upd LeaveOperation v, result))))"

section \<open>Waiting and completing\<close>

definition ClearPending :: "AckToken \<Rightarrow> FencePublisher \<Rightarrow> FencePublisher" where
  "ClearPending token p = (case fp_pending p of
     None \<Rightarrow> p
   | Some h \<Rightarrow> if fh_token h = token then p\<lparr>fp_pending := None\<rparr> else p)"

definition WaitRefused :: "'w FenceTransport \<Rightarrow> FenceHandle \<Rightarrow> 'w pub_world \<Rightarrow> 'w pub_world \<times> AckResultV1 Result" where
  "WaitRefused ft handle v =
    (let i = fh_waiter handle; retained = DisconnectedResult (fst v) (fh_through handle);
         (v, now) = (if fw_terminal (waiter i v) then (v, 0) else ct_now (ft_client ft) v);
         (fw, result) = RefuseWaiter retained (fh_deadline handle) now (waiter i v);
         v = upd (ClearPending (fh_token handle)) (set_waiter i fw v) in
     (v, case result of None \<Rightarrow> Err Timeout '''' | Some r \<Rightarrow> Result_Ok r))"

definition PollCancelled :: "FenceHandle \<Rightarrow> 'w pub_world \<Rightarrow> 'w pub_world \<times> AckResultV1 option" where
  "PollCancelled handle v = (v, TerminalResultBefore (waiter (fh_waiter handle) v) (fh_deadline handle))"

definition PollObserved :: "'w FenceTransport \<Rightarrow> FenceHandle \<Rightarrow> AckResultV1 \<Rightarrow> 'w pub_world \<Rightarrow> 'w pub_world" where
  "PollObserved ft handle r v = (case PublishWaiterResult ft (fh_waiter handle) (fh_through handle) r v of
     (v, Some True) \<Rightarrow> upd MarkGenerationMismatch v
   | (v, _) \<Rightarrow> v)"

definition SettlePolled :: "'w FenceTransport \<Rightarrow> FenceHandle \<Rightarrow> AckResultV1 Result \<Rightarrow> 'w pub_world \<Rightarrow> 'w pub_world \<times> AckResultV1 Result" where
  "SettlePolled ft handle result v = (let i = fh_waiter handle in case result of
     Inr r \<Rightarrow>
       (let (v, now) = (if fw_terminal (waiter i v) then (v, 0) else ct_now (ft_client ft) v);
            (fw, result) = RecordPolled r (fh_deadline handle) now (waiter i v) in
        (set_waiter i fw v, result))
   | Inl e \<Rightarrow> (v, case TerminalResultBefore (waiter i v) (fh_deadline handle) of Some r \<Rightarrow> Result_Ok r | None \<Rightarrow> Inl e))"

definition WaitBuffer :: "'w FenceTransport \<Rightarrow> FenceHandle \<Rightarrow> 'w pub_world \<Rightarrow> ('w pub_world \<times> AckResultV1 Result) option" where
  "WaitBuffer ft handle v =
    (case PollAcknowledgement (ft_client ft) (fpb_prefix (fp_binding (fst v))) (fh_token handle) (fh_deadline handle)
        (fh_diagnostic handle) (Some (PollCancelled handle)) (Some (PollObserved ft handle)) v of
       None \<Rightarrow> None
     | Some (v, result) \<Rightarrow> (case SettlePolled ft handle result v of
         (v, result) \<Rightarrow> Some (upd (ClearPending (fh_token handle)) v, result)))"

definition WaitCache :: "'w FenceTransport \<Rightarrow> FenceHandle \<Rightarrow> 'w pub_world \<Rightarrow> 'w pub_world \<times> AckResultV1 Result" where
  "WaitCache ft handle v =
    (let i = fh_waiter handle;
         v = ft_wait_until ft (\<lambda>v. fw_terminal (waiter i v)) (fh_deadline handle) v;
         v = (if fw_terminal (waiter i v) then v else set_waiter i (ExpireWaiter (waiter i v)) v);
         fw = waiter i v;
         result = (case fw_completed_at fw of None \<Rightarrow> None | Some t \<Rightarrow> if t < fh_deadline handle then fw_result fw else None);
         v = upd (ClearPending (fh_token handle)) v in
     (v, case result of
           Some r \<Rightarrow> Result_Ok r
         | None \<Rightarrow> (case fh_diagnostic handle of
             Some e \<Rightarrow> Result_Err Timeout (ei_message e) (ei_cause e)
           | None \<Rightarrow> Err Timeout '''')))"

definition WaitFence :: "'w FenceTransport \<Rightarrow> FenceHandle \<Rightarrow> 'w pub_world \<Rightarrow> ('w pub_world \<times> AckResultV1 Result) option" where
  "WaitFence ft handle v =
    (case TerminalResultBefore (waiter (fh_waiter handle) v) (fh_deadline handle) of
       Some early \<Rightarrow> Some (v, Result_Ok early)
     | None \<Rightarrow>
         (case AdmitOperation (fst v) of
            None \<Rightarrow> Some (WaitRefused ft handle v)
          | Some p \<Rightarrow>
              (case SampleMismatch ft (p, snd v) of (v, mismatch) \<Rightarrow>
                 (let v = (if mismatch then CancelPendingWaiter ft (upd MarkGenerationMismatch v) else v) in
                  map_option (\<lambda>(v, result). (upd LeaveOperation v, result))
                    (if fpb_target (fp_binding (fst v)) = TargetBuffer then WaitBuffer ft handle v
                     else Some (WaitCache ft handle v))))))"

definition CompleteFence :: "'w FenceTransport \<Rightarrow> AckToken \<Rightarrow> AckResultV1 \<Rightarrow> 'w pub_world \<Rightarrow> 'w pub_world \<times> bool" where
  "CompleteFence ft token result v = (case fp_pending (fst v) of
     None \<Rightarrow> (v, False)
   | Some h \<Rightarrow>
       if fh_token h \<noteq> token then (v, False)
       else (case PublishWaiterResult ft (fh_waiter h) (fh_through h) result v of
         (v, None) \<Rightarrow> (v, False)
       | (v, Some mismatch) \<Rightarrow>
           (let v = upd (\<lambda>p. case fp_pending p of
                 None \<Rightarrow> p
               | Some q \<Rightarrow> if fh_token q = token \<and> fh_waiter q = fh_waiter h then p\<lparr>fp_pending := None\<rparr> else p) v in
            (if mismatch then upd MarkGenerationMismatch v else v, True))))"

text \<open>\<open>Close\<close> then waits until no operation is active, which changes nothing.\<close>

definition ClosePublisher :: "'w FenceTransport \<Rightarrow> 'w pub_world \<Rightarrow> 'w pub_world" where
  "ClosePublisher ft v = Disconnect ft (upd (\<lambda>p. p\<lparr>fp_accepting := False\<rparr>) v)"


definition SetDurability :: "AckDurability \<Rightarrow> FencePublisher \<Rightarrow> FencePublisher" where
  "SetDurability durability p = p\<lparr>fp_binding := (fp_binding p)\<lparr>fpb_durability := durability\<rparr>\<rparr>"

definition AllowSynced :: "FencePublisher \<Rightarrow> FencePublisher" where
  "AllowSynced p = p\<lparr>fp_synced_allowed := True\<rparr>"

end
