(* ===== verification/FenceArbitration.thy ===== *)
theory FenceArbitration
  imports FencePublisher
begin

text \<open>
  The arbitration of a fence's result.  A waiter is moved by the critical sections of completions,
  cancellations, refused and polled waits and the deadline, in any interleaving.  What other threads may
  do inside a call of the transport is the contract \<open>waiter_world\<close>, which a link without other threads
  and one that runs completions, closes and reconnections inside every call fulfil.  Under it a terminal
  waiter is immutable, and a completion that reserved a waiter publishes what its own two samples of the
  transport generation allow.
\<close>

section \<open>Waiter runs\<close>

text \<open>What any thread may do to a waiter: the critical sections of the publisher.  A completion that reserved a
  waiter may finalise it; cancelled, refused and downgraded waits leave a disconnected result.\<close>

inductive waiter_step :: "FenceWaiterState \<Rightarrow> FenceWaiterState \<Rightarrow> bool" where
  reserve: "ar_status d = Disconnected \<Longrightarrow> ReserveWaiter m d r fw = Some fw' \<Longrightarrow> waiter_step fw fw'"
| finalize: "ar_status d = Disconnected \<Longrightarrow> fw_reserved fw \<Longrightarrow> FinalizeWaiter m d t fw = (fw', b) \<Longrightarrow> waiter_step fw fw'"
| cancel: "ar_status d = Disconnected \<Longrightarrow> waiter_step fw (CancelWaiter d t fw)"
| refuse: "ar_status d = Disconnected \<Longrightarrow> RefuseWaiter d deadline t fw = (fw', r) \<Longrightarrow> waiter_step fw fw'"
| polled: "RecordPolled r deadline t fw = (fw', res) \<Longrightarrow> waiter_step fw fw'"
| expire: "waiter_step fw (ExpireWaiter fw)"

abbreviation waiter_run :: "FenceWaiterState \<Rightarrow> FenceWaiterState \<Rightarrow> bool" where
  "waiter_run \<equiv> waiter_step\<^sup>*\<^sup>*"

lemmas waiter_defs = ReserveWaiter_def FinalizeWaiter_def CancelWaiter_def RefuseWaiter_def RecordPolled_def ExpireWaiter_def

section \<open>What no thread can do\<close>

text \<open>A terminal waiter keeps its result and instant; while a completion holds the reservation of a waiter that is not
  terminal, its provisional result cannot be replaced.\<close>

lemma terminal_step:
  assumes "waiter_step fw fw'" "fw_terminal fw"
  shows "fw_terminal fw' \<and> fw_result fw' = fw_result fw \<and> fw_completed_at fw' = fw_completed_at fw"
  using assms by (cases rule: waiter_step.cases) (auto simp: waiter_defs Let_def split: if_splits)

lemma terminal_run:
  assumes "waiter_run fw fw'" "fw_terminal fw"
  shows "fw_terminal fw' \<and> fw_result fw' = fw_result fw \<and> fw_completed_at fw' = fw_completed_at fw"
  using assms by (induction rule: rtranclp_induct) (auto dest: terminal_step)

lemma visible_stable:
  assumes "TerminalResultBefore fw deadline = Some r" "waiter_run fw fw'"
  shows "TerminalResultBefore fw' deadline = Some r"
  using assms(1) terminal_run[OF assms(2)] by (auto simp: TerminalResultBefore_def split: option.splits if_splits)

lemma reserved_step:
  assumes "waiter_step fw fw'" "fw_reserved fw" "\<not> fw_terminal fw'"
  shows "fw' = fw"
  using assms by (cases rule: waiter_step.cases) (auto simp: waiter_defs Let_def split: if_splits)

lemma reserved_run:
  assumes "waiter_run fw fw'" "fw_reserved fw"
  shows "fw' = fw \<or> fw_terminal fw'"
  using assms by (induction rule: rtranclp_induct) (auto dest: terminal_step reserved_step)

section \<open>The publisher moves its waiters by these events\<close>

definition moved :: "'w pub_world \<Rightarrow> 'w pub_world \<Rightarrow> bool" where
  "moved v v' \<longleftrightarrow> length (fp_waiters (fst v)) \<le> length (fp_waiters (fst v')) \<and>
     (\<forall>i < length (fp_waiters (fst v)). waiter_run (waiter i v) (waiter i v'))"

lemma moved_refl [simp]: "moved v v"
  by (auto simp: moved_def)

lemma moved_trans [trans]: "moved v v' \<Longrightarrow> moved v' v'' \<Longrightarrow> moved v v''"
  unfolding moved_def by (meson order_trans order_less_le_trans rtranclp_trans)

lemma moved_waiter: "moved v v' \<Longrightarrow> i < length (fp_waiters (fst v)) \<Longrightarrow>
    i < length (fp_waiters (fst v')) \<and> waiter_run (waiter i v) (waiter i v')"
  by (auto simp: moved_def)

lemma moved_upd: "(\<And>p. fp_waiters (f p) = fp_waiters p) \<Longrightarrow> moved v (upd f v)"
  by (cases v) (auto simp: moved_def upd_def waiter_def )

lemma moved_upd_trans: "moved v v' \<Longrightarrow> (\<And>p. fp_waiters (f p) = fp_waiters p) \<Longrightarrow> moved v (upd f v')"
  by (erule moved_trans) (rule moved_upd)

lemma waiter_set [simp]: "waiter j (set_waiter i fw v) = (if i = j \<and> i < length (fp_waiters (fst v)) then fw else waiter j v)"
  by (cases v; cases "i = j") (auto simp: waiter_def set_waiter_def upd_def nth_list_update_neq list_update_beyond)

lemma fst_set_waiter [simp]: "length (fp_waiters (fst (set_waiter i fw v))) = length (fp_waiters (fst v))"
  by (cases v) (simp add: set_waiter_def upd_def)

lemma moved_set:
  assumes "i < length (fp_waiters (fst v)) \<Longrightarrow> waiter_run (waiter i v) fw"
  shows "moved v (set_waiter i fw v)"
  using assms by (auto simp: moved_def )

lemma moved_set_beyond: "moved v v1 \<Longrightarrow> \<not> i < length (fp_waiters (fst v)) \<Longrightarrow> moved v (set_waiter i fw v1)"
  by (auto simp: moved_def)

lemma DisconnectedResult_status [simp]: "ar_status (DisconnectedResult p n) = Disconnected"
  by (simp add: DisconnectedResult_def)

locale waiter_world =
  fixes ft :: "'w FenceTransport"
  assumes generation_moves: "ft_generation ft v = (v', g) \<Longrightarrow> moved v v'"
    and now_moves: "ct_now (ft_client ft) v = (v', t) \<Longrightarrow> moved v v'"
    and sleep_moves: "moved v (ct_sleep (ft_client ft) d v)"
    and put_moves: "ct_put (ft_client ft) key payload encoding options v = (v', r) \<Longrightarrow> moved v v'"
    and get_moves: "ct_get (ft_client ft) key timeout v = (v', reply) \<Longrightarrow> moved v v'"
    and wait_moves: "moved v (ft_wait_until ft until deadline v)"
begin

lemma SampleMismatch_moves: "SampleMismatch ft v = (v', m) \<Longrightarrow> moved v v'"
  by (auto simp: SampleMismatch_def split: if_splits prod.splits dest: generation_moves)

lemma CancelPendingWaiter_moves: "moved v (CancelPendingWaiter ft v)"
proof (cases "fp_pending (fst v)")
  case (Some h)
  let ?v = "upd (\<lambda>p. p\<lparr>fp_pending := None\<rparr>) v"
  obtain v' t where n: "ct_now (ft_client ft) ?v = (v', t)" by fastforce
  have "moved v' (set_waiter (fh_waiter h) (CancelWaiter (DisconnectedResult (fst v') (fh_through h)) t (waiter (fh_waiter h) v')) v')"
    by (rule moved_set) (blast intro: r_into_rtranclp waiter_step.cancel DisconnectedResult_status)
  moreover have "moved v ?v" by (rule moved_upd) simp
  ultimately show ?thesis using Some n now_moves[OF n]
    by (auto simp: CancelPendingWaiter_def Let_def intro: moved_trans)
qed (simp add: CancelPendingWaiter_def)

lemma Disconnect_moves: "moved v (Disconnect ft v)"
  unfolding Disconnect_def by (rule moved_trans[OF moved_upd CancelPendingWaiter_moves]) simp

lemma CheckGeneration_moves: "CheckGeneration ft v = (v', ok) \<Longrightarrow> moved v v'"
  by (auto simp: CheckGeneration_def split: if_splits prod.splits bool.splits
      dest!: SampleMismatch_moves intro: moved_trans[OF _ Disconnect_moves])

lemma FinalizeWaiter_moves:
  assumes "moved v1 v2" "fw_reserved (waiter i v1)" "i < length (fp_waiters (fst v1))"
  shows "moved v2 (set_waiter i (fst (FinalizeWaiter m (DisconnectedResult p n) t (waiter i v2))) v2)"
proof (rule moved_set)
  let ?fw = "waiter i v2"
  have "fw_reserved ?fw \<or> fw_terminal ?fw" using assms reserved_run by (fastforce simp: moved_def)
  then consider "fw_reserved ?fw" | "\<not> fw_reserved ?fw" "fw_terminal ?fw" by blast
  then show "waiter_run ?fw (fst (FinalizeWaiter m (DisconnectedResult p n) t ?fw))"
  proof cases
    case 1
    obtain fw' b where f: "FinalizeWaiter m (DisconnectedResult p n) t ?fw = (fw', b)" by fastforce
    from waiter_step.finalize[OF _ 1 f] have "waiter_run ?fw fw'" by (intro r_into_rtranclp) simp
    with f show ?thesis by auto
  next
    case 2
    then have "fst (FinalizeWaiter m (DisconnectedResult p n) t ?fw) = ?fw" by (simp add: FinalizeWaiter_def)
    then show ?thesis by simp
  qed
qed

lemma PublishWaiterResult_moves:
  assumes "PublishWaiterResult ft i n r v = (v', out)"
  shows "moved v v'"
proof -
  obtain v1 m1 where s1: "SampleMismatch ft v = (v1, m1)" by fastforce
  note q1 = SampleMismatch_moves[OF s1]
  show ?thesis
  proof (cases "ReserveWaiter m1 (DisconnectedResult (fst v1) n) r (waiter i v1)")
    case None
    with assms s1 q1 show ?thesis by (auto simp: PublishWaiterResult_def)
  next
    case (Some fw)
    let ?v1 = "set_waiter i fw v1"
    obtain v2 m2 where s2: "(if m1 then (?v1, True) else SampleMismatch ft ?v1) = (v2, m2)" by fastforce
    then have q2: "moved ?v1 v2" by (auto split: if_splits dest: SampleMismatch_moves)
    obtain v3 t where n3: "ct_now (ft_client ft) v2 = (v3, t)" by fastforce
    have q3: "moved ?v1 v3" using q2 now_moves[OF n3] by (rule moved_trans)
    have fin: "fw_terminal (waiter i v2) \<Longrightarrow> (waiter i v2)\<lparr>fw_reserved := False\<rparr> = fst (FinalizeWaiter m2 (DisconnectedResult (fst v2) n) t (waiter i v2))"
      by (simp add: FinalizeWaiter_def)
    from assms s1 Some s2 n3 fin have v': "v' \<in> {set_waiter i (fst (FinalizeWaiter m2 (DisconnectedResult (fst v2) n) t (waiter i v2))) v2,
        set_waiter i (fst (FinalizeWaiter m2 (DisconnectedResult (fst v3) n) t (waiter i v3))) v3}"
      by (auto simp: PublishWaiterResult_def split: prod.splits if_splits)
    show ?thesis
    proof (cases "i < length (fp_waiters (fst v1))")
      case True
      have "moved v1 ?v1"
        using Some by (intro moved_set) (blast intro: r_into_rtranclp waiter_step.reserve DisconnectedResult_status)
      moreover have "fw_reserved (waiter i ?v1)" using Some True by (auto simp: ReserveWaiter_def split: if_splits)
      ultimately show ?thesis
        using v' q1 q2 q3 FinalizeWaiter_moves[OF q2, of i m2 "fst v2" n t] FinalizeWaiter_moves[OF q3, of i m2 "fst v3" n t] True
        by (auto intro: moved_trans)
    next
      case False
      then have out: "\<not> i < length (fp_waiters (fst v))" using q1 by (simp add: moved_def)
      have "moved v v2" "moved v v3" using q1 q2 q3 False by (auto simp: moved_def) (meson moved_set_beyond moved_trans out moved_def)+
      with v' out show ?thesis by (auto intro: moved_set_beyond)
    qed
  qed
qed

lemma CompleteFence_moves: "CompleteFence ft token r v = (v', ok) \<Longrightarrow> moved v v'"
  by (auto simp: CompleteFence_def Let_def split: option.splits if_splits prod.splits dest!: PublishWaiterResult_moves
      intro!: moved_upd_trans simp: MarkGenerationMismatch_def)

lemma ClosePublisher_moves: "moved v (ClosePublisher ft v)"
  unfolding ClosePublisher_def by (rule moved_trans[OF moved_upd Disconnect_moves]) simp

lemma operation_moves:
  assumes "AdmitOperation (fst v) = Some p" "moved (p, snd v) v'"
  shows "moved v (upd LeaveOperation v')"
proof -
  have "(p, snd v) = upd (\<lambda>p. p\<lparr>fp_active := fp_active p + 1\<rparr>) v"
    using assms(1) by (cases v) (auto simp: AdmitOperation_def upd_def split: if_splits)
  then have "moved v (p, snd v)" by (simp add: moved_upd)
  with assms(2) have "moved v v'" by (blast intro: moved_trans)
  then show ?thesis by (rule moved_upd_trans) (simp add: LeaveOperation_def)
qed

lemma SubmitAdmitted_moves:
  assumes "SubmitAdmitted ft key payload encoding v = (v', r)"
  shows "moved v v'"
proof -
  obtain v1 ok where c1: "CheckGeneration ft v = (v1, ok)" by fastforce
  note q1 = CheckGeneration_moves[OF c1]
  let ?v2 = "upd NextSequence v1"
  obtain v3 put where p: "ct_put (ft_client ft) key payload encoding \<lparr>po_ack_token = None,
      po_fence_lane = Some \<lparr>flm_publisher_uuid = fp_uuid (fst ?v2), flm_sequence = fp_last_sequence (fst ?v2)\<rparr>\<rparr> ?v2 = (v3, put)" by fastforce
  have q3: "moved v v3" using q1 moved_upd[of NextSequence v1] put_moves[OF p]
    by (auto simp: NextSequence_def Let_def intro: moved_trans)
  let ?v4 = "case put of Inl e \<Rightarrow> upd (RecordSubmissionError e) v3 | Inr _ \<Rightarrow> v3"
  have q4: "moved v ?v4" using q3 by (auto simp: RecordSubmissionError_def intro!: moved_upd_trans split: sum.split)
  obtain v5 ok5 where c5: "CheckGeneration ft ?v4 = (v5, ok5)" by fastforce
  have q5: "moved v v5" using q4 CheckGeneration_moves[OF c5] by (rule moved_trans)
  then have "moved v (upd (\<lambda>p. p\<lparr>fp_may_have_submitted := True\<rparr>) v5)" by (rule moved_upd_trans) simp
  with q1 q5 assms c1 p c5 show ?thesis
    by (auto simp: SubmitAdmitted_def Let_def split: if_splits bool.splits)
qed

lemma SubmitData_moves: "SubmitData ft key payload encoding v = (v', r) \<Longrightarrow> moved v v'"
  by (auto simp: SubmitData_def split: option.splits prod.splits dest!: SubmitAdmitted_moves intro: operation_moves)

lemma SubmitMarker_moves:
  assumes "SubmitMarker ft key budget handle v = (v', r)"
  shows "moved v v'"
proof -
  obtain v1 now where n: "ct_now (ft_client ft) v = (v1, now)" by fastforce
  let ?d = "SaturatingDeadlineAt now budget"
  let ?v2 = "upd (\<lambda>p. p\<lparr>fp_first_error := None\<rparr>) (upd (SetDeadline (fh_token handle) ?d) v1)"
  have q2: "moved v ?v2" using now_moves[OF n] by (auto intro!: moved_upd_trans simp: SetDeadline_def split: option.split)
  obtain v3 put where p: "ct_put (ft_client ft) key EncodeFenceMarker kSitosV1Fence \<lparr>po_ack_token = Some (fh_token handle), po_fence_lane = None\<rparr> ?v2 = (v3, put)"
    by fastforce
  let ?v4 = "if IsOk put then v3 else upd (\<lambda>p. p\<lparr>fp_may_have_submitted := True\<rparr>) v3"
  have q4: "moved v ?v4" using moved_trans[OF q2 put_moves[OF p]] by (auto intro!: moved_upd_trans)
  obtain v5 ok where c: "CheckGeneration ft ?v4 = (v5, ok)" by fastforce
  have q5: "moved v v5" using q4 CheckGeneration_moves[OF c] by (rule moved_trans)
  then have "moved v (upd (\<lambda>p. p\<lparr>fp_may_have_submitted := True\<rparr>) v5)" by (rule moved_upd_trans) simp
  with q5 assms n p c show ?thesis
    by (auto simp: SubmitMarker_def Let_def split: if_splits bool.splits)
qed

lemma moved_new_waiter: "moved v (upd (\<lambda>p. p\<lparr>fp_waiters := fp_waiters p @ [fw], fp_pending := h\<rparr>) v)"
  by (cases v) (auto simp: moved_def upd_def waiter_def nth_append )

lemma BeginFenceAdmitted_moves:
  assumes "BeginFenceAdmitted ft words budget v = (v', r)"
  shows "moved v v'"
proof -
  obtain v1 ok where c: "CheckGeneration ft v = (v1, ok)" by fastforce
  with assms CheckGeneration_moves[OF c] show ?thesis
    by (auto simp: BeginFenceAdmitted_def Let_def split: if_splits bool.splits option.splits dest!: SubmitMarker_moves
        intro: moved_trans[OF moved_trans[OF _ moved_new_waiter]])
qed

lemma BeginFence_moves: "BeginFence ft words budget v = (v', r) \<Longrightarrow> moved v v'"
  by (auto simp: BeginFence_def split: option.splits prod.splits if_splits dest!: BeginFenceAdmitted_moves intro: operation_moves)

lemma WaitRefused_moves: "WaitRefused ft handle v = (v', r) \<Longrightarrow> moved v v'"
proof -
  assume run: "WaitRefused ft handle v = (v', r)"
  let ?i = "fh_waiter handle"
  obtain v1 now where n: "(if fw_terminal (waiter ?i v) then (v, 0) else ct_now (ft_client ft) v) = (v1, now)" by fastforce
  then have q: "moved v v1" by (auto split: if_splits dest: now_moves)
  obtain fw res where f: "RefuseWaiter (DisconnectedResult (fst v) (fh_through handle)) (fh_deadline handle) now (waiter ?i v1) = (fw, res)" by fastforce
  have "moved v1 (set_waiter ?i fw v1)"
    using f by (intro moved_set) (blast intro: r_into_rtranclp waiter_step.refuse DisconnectedResult_status)
  with q have "moved v (upd (ClearPending (fh_token handle)) (set_waiter ?i fw v1))"
    by (intro moved_upd_trans) (auto intro: moved_trans simp: ClearPending_def split: option.split)
  with run n f show ?thesis by (auto simp: WaitRefused_def Let_def split: prod.splits)
qed

lemma SettlePolled_moves: "SettlePolled ft handle r v = (v', r') \<Longrightarrow> moved v v'"
proof -
  assume run: "SettlePolled ft handle r v = (v', r')"
  let ?i = "fh_waiter handle"
  obtain v1 now where n: "(if fw_terminal (waiter ?i v) then (v, 0) else ct_now (ft_client ft) v) = (v1, now)" by fastforce
  then have q: "moved v v1" by (auto split: if_splits dest: now_moves)
  show ?thesis
  proof (cases r)
    case (Inr a)
    obtain fw res where f: "RecordPolled a (fh_deadline handle) now (waiter ?i v1) = (fw, res)" by fastforce
    have "moved v1 (set_waiter ?i fw v1)" using f by (intro moved_set) (blast intro: r_into_rtranclp waiter_step.polled)
    with q run n f Inr show ?thesis by (auto simp: SettlePolled_def Let_def intro: moved_trans split: prod.splits)
  qed (use run in \<open>simp add: SettlePolled_def\<close>)
qed

lemma WaitCache_moves: "WaitCache ft handle v = (v', r) \<Longrightarrow> moved v v'"
proof -
  assume run: "WaitCache ft handle v = (v', r)"
  let ?i = "fh_waiter handle"
  let ?v = "ft_wait_until ft (\<lambda>v. fw_terminal (waiter ?i v)) (fh_deadline handle) v"
  have "moved ?v (set_waiter ?i (ExpireWaiter (waiter ?i ?v)) ?v)"
    by (rule moved_set) (blast intro: r_into_rtranclp waiter_step.expire)
  then have "moved v (if fw_terminal (waiter ?i ?v) then ?v else set_waiter ?i (ExpireWaiter (waiter ?i ?v)) ?v)"
    using moved_trans[OF wait_moves] wait_moves by simp
  then have "moved v (upd (ClearPending (fh_token handle)) (if fw_terminal (waiter ?i ?v) then ?v else set_waiter ?i (ExpireWaiter (waiter ?i ?v)) ?v))"
    by (rule moved_upd_trans) (simp add: ClearPending_def split: option.split)
  with run show ?thesis by (simp add: WaitCache_def Let_def split: if_splits)
qed

lemma PollObserved_moves: "moved v (PollObserved ft handle r v)"
  by (auto simp: PollObserved_def MarkGenerationMismatch_def split: prod.splits option.splits bool.splits
      dest!: PublishWaiterResult_moves intro!: moved_upd_trans)

lemma PollGet_moves:
  assumes "TransportGet (ft_client ft) key (PollSink key (Some (PollObserved ft handle))) timeout s v = ((s', v'), get)"
  shows "moved v v'"
proof -
  obtain v1 g where g: "ct_get (ft_client ft) key timeout v = (v1, g)" by fastforce
  note q = get_moves[OF g]
  show ?thesis
  proof (cases g)
    case (Inr cs)
    with assms g have "deliver (PollSink key (Some (PollObserved ft handle))) {} cs (s, v1) = ((s', v'), get)"
      by (simp add: TransportGet_def)
    from deliver_PollSink[OF this] have "moved v1 v'"
    proof
      assume "\<exists>reply. Some (Inr reply) \<in> set cs \<and> (s', v') = fst (PollSink key (Some (PollObserved ft handle)) (qr_key reply)
        (qr_payload reply) (qr_encoding reply) (s, v1))"
      then show ?thesis by (auto simp: PollSink_def PollObserved_moves split: if_splits sum.splits)
    qed simp
    with q show ?thesis by (rule moved_trans)
  qed (use assms g q in \<open>auto simp: TransportGet_def\<close>)
qed

lemma PollRound_moves:
  assumes "PollRound (ft_client ft) key deadline (Some (PollCancelled handle)) (Some (PollObserved ft handle)) d v = (v', out)"
  shows "moved v v'"
proof -
  have q: "moved a b \<Longrightarrow> moved a c" if "moved b c" for a b c :: "'w pub_world" using that moved_trans by blast
  from assms show ?thesis
    by (auto simp: PollRound_def CheckCancelled_def PollCancelled_def Let_def split: prod.splits option.splits if_splits sum.splits
        dest!: now_moves PollGet_moves) (blast intro: moved_trans)+
qed

lemma PollLoop_moves:
  assumes "PollLoop (ft_client ft) key deadline (Some (PollCancelled handle)) (Some (PollObserved ft handle)) d v = Some (v', r)"
  shows "moved v v'"
proof -
  have "ct = ft_client ft \<longrightarrow> c = Some (PollCancelled handle) \<longrightarrow> ob = Some (PollObserved ft handle) \<longrightarrow> moved v (fst y)"
    if "PollLoop ct key deadline c ob d v = Some y" for ct c ob d v y
    using that
  proof (rule PollLoop.raw_induct[rotated, where P = "\<lambda>ct key deadline c ob d v y. ct = ft_client ft \<longrightarrow>
      c = Some (PollCancelled handle) \<longrightarrow> ob = Some (PollObserved ft handle) \<longrightarrow> moved v (fst y)"])
    fix loop ct key deadline c ob d v y
    assume ih: "\<And>ct key deadline c ob d v y. loop ct key deadline c ob d v = Some y \<Longrightarrow>
        ct = ft_client ft \<longrightarrow> c = Some (PollCancelled handle) \<longrightarrow> ob = Some (PollObserved ft handle) \<longrightarrow> moved v (fst y)"
      and run: "(case PollRound ct key deadline c ob d v of (w, Inl result) \<Rightarrow> Some (w, result)
        | (w, Inr (d, delay)) \<Rightarrow> loop ct key deadline c ob d (ct_sleep ct delay w)) = Some y"
    show "ct = ft_client ft \<longrightarrow> c = Some (PollCancelled handle) \<longrightarrow> ob = Some (PollObserved ft handle) \<longrightarrow> moved v (fst y)"
    proof (intro impI)
      assume [simp]: "ct = ft_client ft" "c = Some (PollCancelled handle)" "ob = Some (PollObserved ft handle)"
      obtain v1 out where r: "PollRound ct key deadline c ob d v = (v1, out)" by fastforce
      then have q: "moved v v1" using PollRound_moves by simp
      show "moved v (fst y)"
      proof (cases out)
        case (Inr x)
        obtain d' delay where "x = (d', delay)" by fastforce
        with run r Inr have "loop ct key deadline c ob d' (ct_sleep ct delay v1) = Some y" by simp
        from ih[OF this] have "moved (ct_sleep ct delay v1) (fst y)" by simp
        then show ?thesis using moved_trans[OF q sleep_moves] by (auto intro: moved_trans)
      qed (use run r q in auto)
    qed
  qed
  from this[OF assms] show ?thesis by simp
qed

lemma WaitBuffer_moves: "WaitBuffer ft handle v = Some (v', r) \<Longrightarrow> moved v v'"
proof -
  assume run: "WaitBuffer ft handle v = Some (v', r)"
  then obtain v1 res where p: "PollAcknowledgement (ft_client ft) (fpb_prefix (fp_binding (fst v))) (fh_token handle) (fh_deadline handle)
        (fh_diagnostic handle) (Some (PollCancelled handle)) (Some (PollObserved ft handle)) v = Some (v1, res)"
    by (auto simp: WaitBuffer_def split: option.splits)
  then have q: "moved v v1" by (auto simp: PollAcknowledgement_def split: option.splits dest: PollLoop_moves)
  obtain v2 res2 where s: "SettlePolled ft handle res v1 = (v2, res2)" by fastforce
  have "moved v (upd (ClearPending (fh_token handle)) v2)"
    by (rule moved_upd_trans[OF moved_trans[OF q SettlePolled_moves[OF s]]]) (simp add: ClearPending_def split: option.split)
  with run p s show ?thesis by (simp add: WaitBuffer_def)
qed

lemma WaitFence_moves:
  assumes "WaitFence ft handle v = Some (v', r)"
  shows "moved v v'"
proof (cases "TerminalResultBefore (waiter (fh_waiter handle) v) (fh_deadline handle)")
  case None
  show ?thesis
  proof (cases "AdmitOperation (fst v)")
    case refused: None
    with assms None show ?thesis by (auto simp: WaitFence_def dest: WaitRefused_moves)
  next
    case (Some p)
    obtain v1 m where s: "SampleMismatch ft (p, snd v) = (v1, m)" by fastforce
    let ?v2 = "if m then CancelPendingWaiter ft (upd MarkGenerationMismatch v1) else v1"
    have "moved v1 ?v2" using moved_trans[OF moved_upd CancelPendingWaiter_moves, of MarkGenerationMismatch v1]
      by (simp add: MarkGenerationMismatch_def)
    with SampleMismatch_moves[OF s] have q: "moved (p, snd v) ?v2" by (rule moved_trans)
    from assms None Some s obtain v3 where "moved ?v2 v3" "v' = upd LeaveOperation v3"
      by (auto simp: WaitFence_def Let_def split: if_splits dest: WaitBuffer_moves WaitCache_moves)
    with q show ?thesis by (auto intro: operation_moves[OF Some] moved_trans)
  qed
qed (use assms in \<open>simp add: WaitFence_def\<close>)

end

section \<open>A wait reports what its waiter shows\<close>

lemma waiter_upd: "fp_waiters (f (fst v)) = fp_waiters (fst v) \<Longrightarrow> waiter i (upd f v) = waiter i v \<and> fp_waiters (fst (upd f v)) = fp_waiters (fst v)"
  by (cases v) (simp add: waiter_def upd_def)

lemma waiter_bookkeeping [simp]:
  "waiter i (upd (ClearPending token) v) = waiter i v" "fp_waiters (fst (upd (ClearPending token) v)) = fp_waiters (fst v)"
  "waiter i (upd LeaveOperation v) = waiter i v" "fp_waiters (fst (upd LeaveOperation v)) = fp_waiters (fst v)"
  by (cases v; simp add: waiter_def upd_def ClearPending_def LeaveOperation_def split: option.split)+

lemma WaitRefused_visible:
  assumes "WaitRefused ft handle v = (v', Result_Ok r)" "fh_waiter handle < length (fp_waiters (fst v'))"
  shows "TerminalResultBefore (waiter (fh_waiter handle) v') (fh_deadline handle) = Some r"
  using assms by (auto simp: WaitRefused_def Let_def RefuseWaiter_def Result_Ok_def Result_Err_def TerminalResultBefore_def
      split: prod.splits option.splits if_splits)

lemma SettlePolled_visible:
  assumes "SettlePolled ft handle result v = (v', Result_Ok r)" "fh_waiter handle < length (fp_waiters (fst v'))"
  shows "TerminalResultBefore (waiter (fh_waiter handle) v') (fh_deadline handle) = Some r"
  using assms by (auto simp: SettlePolled_def Let_def RecordPolled_def Result_Ok_def Result_Err_def TerminalResultBefore_def
      split: prod.splits option.splits if_splits sum.splits)

lemma WaitCache_visible:
  assumes "WaitCache ft handle v = (v', Result_Ok r)" "fh_waiter handle < length (fp_waiters (fst v'))"
  shows "TerminalResultBefore (waiter (fh_waiter handle) v') (fh_deadline handle) = Some r"
  using assms by (auto simp: WaitCache_def Let_def ExpireWaiter_def Result_Ok_def Result_Err_def TerminalResultBefore_def
      split: prod.splits option.splits if_splits)

lemma WaitFence_visible:
  assumes "WaitFence ft handle v = Some (v', Result_Ok r)" "fh_waiter handle < length (fp_waiters (fst v'))"
  shows "TerminalResultBefore (waiter (fh_waiter handle) v') (fh_deadline handle) = Some r"
proof (cases "TerminalResultBefore (waiter (fh_waiter handle) v) (fh_deadline handle)")
  case None
  show ?thesis
  proof (cases "AdmitOperation (fst v)")
    case refused: None
    with assms None WaitRefused_visible show ?thesis by (fastforce simp: WaitFence_def)
  next
    case (Some p)
    obtain v1 m where s: "SampleMismatch ft (p, snd v) = (v1, m)" by fastforce
    let ?v2 = "if m then CancelPendingWaiter ft (upd MarkGenerationMismatch v1) else v1"
    from assms(1) None Some s obtain v3 where v3: "v' = upd LeaveOperation v3"
      "WaitCache ft handle ?v2 = (v3, Result_Ok r) \<or> WaitBuffer ft handle ?v2 = Some (v3, Result_Ok r)"
      by (auto simp: WaitFence_def Let_def split: if_splits)
    from v3(2) assms(2) v3(1) show ?thesis
      by (auto simp: WaitBuffer_def split: option.splits prod.splits dest: WaitCache_visible SettlePolled_visible)
  qed
qed (use assms in \<open>auto simp: WaitFence_def Result_Ok_def\<close>)

section \<open>Calls on a publisher\<close>

inductive pub_step :: "'w FenceTransport \<Rightarrow> 'w pub_world \<Rightarrow> 'w pub_world \<Rightarrow> bool" for ft where
  submit: "SubmitData ft key payload encoding v = (v', r) \<Longrightarrow> pub_step ft v v'"
| fence: "BeginFence ft words budget v = (v', h) \<Longrightarrow> pub_step ft v v'"
| await: "WaitFence ft handle v = Some (v', r) \<Longrightarrow> pub_step ft v v'"
| complete: "CompleteFence ft token result v = (v', ok) \<Longrightarrow> pub_step ft v v'"
| close: "pub_step ft v (ClosePublisher ft v)"
| durability: "pub_step ft v (upd (SetDurability d) v)"

inductive_cases pub_stepE: "pub_step ft v v'"

context waiter_world
begin

lemma pub_step_moves: "pub_step ft v v' \<Longrightarrow> moved v v'"
  by (erule pub_stepE) (auto dest: SubmitData_moves BeginFence_moves WaitFence_moves CompleteFence_moves
      intro: ClosePublisher_moves moved_upd simp: SetDurability_def)

lemma pub_steps_move: "(pub_step ft)\<^sup>*\<^sup>* v v' \<Longrightarrow> moved v v'"
  by (induction rule: rtranclp_induct) (auto intro: moved_trans pub_step_moves)

text \<open>The waiter of a fence that began is a new one, moved by its events since.\<close>

lemma BeginFence_waiter:
  assumes "BeginFence ft words budget v = (v', Result_Ok h)"
  shows "fh_waiter h < length (fp_waiters (fst v')) \<and> waiter_run NewWaiter (waiter (fh_waiter h) v')"
proof -
  from assms obtain p v2 where p: "AdmitOperation (fst v) = Some p" "BeginFenceAdmitted ft words budget (p, snd v) = (v2, Result_Ok h)"
    "v' = upd LeaveOperation v2"
    by (auto simp: BeginFence_def Result_Ok_def Result_Err_def split: if_splits option.splits prod.splits)
  obtain v1 ok where c: "CheckGeneration ft (p, snd v) = (v1, ok)" by fastforce
  let ?i = "length (fp_waiters (fst v1))"
  from p(2) c obtain key handle where m: "SubmitMarker ft key budget handle
      (upd (\<lambda>p. p\<lparr>fp_waiters := fp_waiters p @ [NewWaiter], fp_pending := Some handle\<rparr>) v1) = (v2, Result_Ok h)" "fh_waiter handle = ?i"
    by (auto simp: BeginFenceAdmitted_def Let_def Result_Ok_def Result_Err_def split: if_splits option.splits bool.splits)
  let ?v1 = "upd (\<lambda>p. p\<lparr>fp_waiters := fp_waiters p @ [NewWaiter], fp_pending := Some handle\<rparr>) v1"
  have new: "waiter ?i ?v1 = NewWaiter" "?i < length (fp_waiters (fst ?v1))" by (cases v1; simp add: upd_def waiter_def)+
  have h: "fh_waiter h = ?i"
    using m by (auto simp: SubmitMarker_def Let_def Result_Ok_def Result_Err_def split: if_splits prod.splits bool.splits)
  from moved_waiter[OF SubmitMarker_moves[OF m(1)] new(2)]
  have "?i < length (fp_waiters (fst v2)) \<and> waiter_run NewWaiter (waiter ?i v2)" unfolding new(1) .
  moreover have "fp_waiters (fst v') = fp_waiters (fst v2)" using p(3) by (cases v2) (simp add: upd_def LeaveOperation_def)
  ultimately show ?thesis using h by (simp add: waiter_def)
qed

end

section \<open>A completion decides\<close>

text \<open>Whether one of the two generation samples of a completion fails: the first before the waiter is reserved, the
  second on the reserved waiter.\<close>

definition completion_mismatch :: "'w FenceTransport \<Rightarrow> nat \<Rightarrow> AckResultV1 \<Rightarrow> 'w pub_world \<Rightarrow> bool" where
  "completion_mismatch ft i r v = (case SampleMismatch ft v of (u, mismatch) \<Rightarrow>
     mismatch \<or> snd (SampleMismatch ft (set_waiter i ((waiter i u)\<lparr>fw_reserved := True, fw_result := Some r, fw_on_bound := True\<rparr>) u)))"

definition decided :: "AckResultV1 \<Rightarrow> int \<Rightarrow> FenceWaiterState \<Rightarrow> bool" where
  "decided r t fw \<longleftrightarrow> fw_terminal fw \<and> fw_result fw = Some r \<and> fw_completed_at fw = Some t"

lemma decided_before: "decided r t fw \<Longrightarrow> TerminalResultBefore fw deadline = (if t < deadline then Some r else None)"
  by (auto simp: decided_def TerminalResultBefore_def)

context waiter_world
begin

lemma decided_stays:
  assumes "decided r t (waiter i v)" "moved v v'" "i < length (fp_waiters (fst v))"
  shows "decided r t (waiter i v')"
  using assms moved_waiter[OF assms(2,3)] terminal_run unfolding decided_def by metis

text \<open>While this completion holds the reservation nobody replaces its result, so what it publishes is
  its own result or, after a failed sample, a disconnected one, at the instant it reads last.\<close>

lemma PublishWaiterResult_decides:
  assumes "PublishWaiterResult ft i n r v = (v', Some m)" "i < length (fp_waiters (fst v))"
  shows "m = completion_mismatch ft i r v \<and> (\<exists>u u' t. moved v u \<and> ct_now (ft_client ft) u = (u', t) \<and>
    decided (if m then DisconnectedResult (fst u') n else r) t (waiter i v'))"
proof -
  obtain v1 m1 where s1: "SampleMismatch ft v = (v1, m1)" by fastforce
  note q1 = SampleMismatch_moves[OF s1]
  obtain fw where fw: "ReserveWaiter m1 (DisconnectedResult (fst v1) n) r (waiter i v1) = Some fw"
    using assms(1) s1 by (cases "ReserveWaiter m1 (DisconnectedResult (fst v1) n) r (waiter i v1)") (auto simp: PublishWaiterResult_def)
  let ?v1 = "set_waiter i fw v1"
  have len: "i < length (fp_waiters (fst v1))" using moved_waiter[OF q1 assms(2)] by simp
  have res: "fw_reserved fw" "\<not> fw_terminal fw" "\<not> m1 \<Longrightarrow> fw_result fw = Some r"
    "\<not> m1 \<Longrightarrow> fw = (waiter i v1)\<lparr>fw_reserved := True, fw_result := Some r, fw_on_bound := True\<rparr>"
    using fw by (auto simp: ReserveWaiter_def split: if_splits)
  have qr: "moved v1 ?v1" by (rule moved_set) (blast intro: r_into_rtranclp waiter_step.reserve DisconnectedResult_status fw)
  obtain v2 m2 where s2: "(if m1 then (?v1, True) else SampleMismatch ft ?v1) = (v2, m2)" by fastforce
  have q2: "moved ?v1 v2" using s2 by (auto split: if_splits dest: SampleMismatch_moves)
  obtain v3 t where n3: "ct_now (ft_client ft) v2 = (v3, t)" by fastforce
  have q3: "moved ?v1 v3" using q2 now_moves[OF n3] by (rule moved_trans)
  obtain fw3 b where f: "FinalizeWaiter m2 (DisconnectedResult (fst v3) n) t (waiter i v3) = (fw3, b)" by fastforce
  from assms(1) s1 fw s2 n3 f have out: "v' = set_waiter i fw3 v3" "b" "m = m2"
    by (auto simp: PublishWaiterResult_def split: if_splits)
  have "\<not> fw_terminal (waiter i v3)" using f out(2) by (auto simp: FinalizeWaiter_def split: if_splits)
  with moved_waiter[OF q3, of i] reserved_run res(1) len have same: "waiter i v3 = fw" "i < length (fp_waiters (fst v3))" by auto
  have "decided (if m then DisconnectedResult (fst v3) n else r) t (waiter i v')"
    using f out same res s2 by (auto simp: FinalizeWaiter_def Let_def decided_def split: if_splits)
  moreover have "moved v v2" using q1 qr q2 by (blast intro: moved_trans)
  moreover have "m = completion_mismatch ft i r v" using s1 s2 out(3) res(4) by (auto simp: completion_mismatch_def split: if_splits)
  ultimately show ?thesis using n3 by blast
qed

lemma PublishWaiterResult_lost:
  assumes "PublishWaiterResult ft i n r v = (v', None)"
  shows "i < length (fp_waiters (fst v)) \<Longrightarrow> fw_terminal (waiter i v') \<or> fw_reserved (waiter i v')"
  using assms by (auto simp: PublishWaiterResult_def ReserveWaiter_def FinalizeWaiter_def Let_def split: prod.splits if_splits option.splits)

lemma CompleteFence_decides:
  assumes "CompleteFence ft (fh_token h) r v = (v', True)" "fp_pending (fst v) = Some h" "fh_waiter h < length (fp_waiters (fst v))"
  shows "\<exists>u u' t. moved v u \<and> ct_now (ft_client ft) u = (u', t) \<and>
    decided (if completion_mismatch ft (fh_waiter h) r v then DisconnectedResult (fst u') (fh_through h) else r) t (waiter (fh_waiter h) v')"
proof -
  let ?i = "fh_waiter h"
  from assms(1,2) obtain v1 m where p: "PublishWaiterResult ft ?i (fh_through h) r v = (v1, Some m)" "fp_waiters (fst v') = fp_waiters (fst v1)"
    by (auto simp: CompleteFence_def Let_def upd_def MarkGenerationMismatch_def split: option.splits prod.splits if_splits)
  have same: "waiter ?i v' = waiter ?i v1" using p(2) by (simp add: waiter_def)
  note d = PublishWaiterResult_decides[OF p(1) assms(3)]
  show ?thesis unfolding same using conjunct2[OF d] unfolding conjunct1[OF d] .
qed

lemma CompleteFence_lost:
  assumes "CompleteFence ft (fh_token h) r v = (v', False)" "fp_pending (fst v) = Some h" "fh_waiter h < length (fp_waiters (fst v))"
  shows "fw_terminal (waiter (fh_waiter h) v') \<or> fw_reserved (waiter (fh_waiter h) v')"
  using assms PublishWaiterResult_lost[of "fh_waiter h" "fh_through h" r v v']
  by (auto simp: CompleteFence_def Let_def split: option.splits prod.splits)

end

section \<open>A link without other threads\<close>

text \<open>A client transport lifted to the publisher's world: its generation never changes and its calls
  leave the publisher alone.\<close>

definition LiftClient :: "'w ClientTransport \<Rightarrow> 'w pub_world ClientTransport" where
  "LiftClient ct = \<lparr>
     ct_now = (\<lambda>(p, w). case ct_now ct w of (w, t) \<Rightarrow> ((p, w), t)),
     ct_sleep = (\<lambda>d (p, w). (p, ct_sleep ct d w)),
     ct_put = (\<lambda>key payload encoding options (p, w). case ct_put ct key payload encoding options w of (w, r) \<Rightarrow> ((p, w), r)),
     ct_delete = (\<lambda>key options (p, w). case ct_delete ct key options w of (w, r) \<Rightarrow> ((p, w), r)),
     ct_get = (\<lambda>key timeout (p, w). case ct_get ct key timeout w of (w, r) \<Rightarrow> ((p, w), r)),
     ct_wait = (\<lambda>key deadline (p, w). (p, ct_wait ct key deadline w))\<rparr>"

definition FenceLink :: "'w ClientTransport \<Rightarrow> 'w FenceTransport" where
  "FenceLink ct = \<lparr>ft_client = LiftClient ct, ft_generation = (\<lambda>v. (v, 0)), ft_supports = (\<lambda>_. True),
     ft_wait_until = (\<lambda>until deadline (p, w). (p, ct_wait ct '''' deadline w))\<rparr>"

lemma moved_fst: "fst v = fst v' \<Longrightarrow> moved v v'"
  by (auto simp: moved_def waiter_def )

lemmas link_defs = FenceLink_def LiftClient_def

interpretation link: waiter_world "FenceLink ct" for ct
  by unfold_locales (auto simp: link_defs intro!: moved_fst split: prod.splits)

text \<open>The same link with other threads: before each of its calls the next scheduled action of another
  thread runs, a completion, a close or a replacement of the transport generation.\<close>

datatype other_call = Completes AckToken AckResultV1 | Closes | Reconnects u64

definition GenerationLink :: "u64 \<Rightarrow> 'w ClientTransport \<Rightarrow> 'w FenceTransport" where
  "GenerationLink g ct = (FenceLink ct)\<lparr>ft_generation := (\<lambda>v. (v, g))\<rparr>"

fun other_threads :: "'w ClientTransport \<Rightarrow> ('w \<times> u64 \<times> other_call list) pub_world \<Rightarrow> ('w \<times> u64 \<times> other_call list) pub_world" where
  "other_threads ct (p, w, g, []) = (p, w, g, [])"
| "other_threads ct (p, w, g, Completes token r # calls) =
    (case CompleteFence (GenerationLink g ct) token r (p, w) of ((p, w), _) \<Rightarrow> (p, w, g, calls))"
| "other_threads ct (p, w, g, Closes # calls) = (case ClosePublisher (GenerationLink g ct) (p, w) of (p, w) \<Rightarrow> (p, w, g, calls))"
| "other_threads ct (p, w, g, Reconnects g' # calls) = (p, w, g', calls)"

definition shared :: "'w ClientTransport \<Rightarrow> ('w \<Rightarrow> 'w \<times> 'a) \<Rightarrow> ('w \<times> u64 \<times> other_call list) pub_world \<Rightarrow>
    ('w \<times> u64 \<times> other_call list) pub_world \<times> 'a" where
  "shared ct call v = (case other_threads ct v of (p, w, rest) \<Rightarrow> (case call w of (w, x) \<Rightarrow> ((p, w, rest), x)))"

definition BusyLink :: "'w ClientTransport \<Rightarrow> ('w \<times> u64 \<times> other_call list) FenceTransport" where
  "BusyLink ct = \<lparr>
     ft_client = \<lparr>
       ct_now = shared ct (ct_now ct),
       ct_sleep = (\<lambda>d v. fst (shared ct (\<lambda>w. (ct_sleep ct d w, ())) v)),
       ct_put = (\<lambda>key payload encoding options. shared ct (ct_put ct key payload encoding options)),
       ct_delete = (\<lambda>key options. shared ct (ct_delete ct key options)),
       ct_get = (\<lambda>key timeout. shared ct (ct_get ct key timeout)),
       ct_wait = (\<lambda>key deadline v. fst (shared ct (\<lambda>w. (ct_wait ct key deadline w, ())) v))\<rparr>,
     ft_generation = (\<lambda>v. case other_threads ct v of (p, w, g, calls) \<Rightarrow> ((p, w, g, calls), g)),
     ft_supports = (\<lambda>_. True),
     ft_wait_until = (\<lambda>until deadline v. let v = other_threads ct v in
       if until v then v else fst (shared ct (\<lambda>w. (ct_wait ct '''' deadline w, ())) v))\<rparr>"

interpretation generation_link: waiter_world "GenerationLink g ct" for g ct
  by unfold_locales (auto simp: GenerationLink_def link_defs intro!: moved_fst split: prod.splits)

lemma moved_lift: "moved (p, w) (p', w') \<Longrightarrow> moved (p, x) (p', x')"
  by (simp add: moved_def waiter_def)

lemma other_threads_move: "moved v (other_threads ct v)"
proof (cases "(ct, v)" rule: other_threads.cases)
  case (2 ct p w g token r calls)
  then show ?thesis by (auto split: prod.splits dest!: generation_link.CompleteFence_moves intro: moved_lift)
next
  case (3 ct p w g calls)
  then show ?thesis using generation_link.ClosePublisher_moves[of "(p, w)" g ct] by (auto split: prod.splits intro: moved_lift)
qed (auto intro: moved_fst)

lemma shared_moves: "shared ct call v = (v', x) \<Longrightarrow> moved v v'"
  by (rule moved_trans[OF other_threads_move[of v ct]]) (auto simp: shared_def intro: moved_fst split: prod.splits)

lemma shared_moves_fst: "moved v (fst (shared ct call v))"
  using shared_moves[OF surjective_pairing] .

interpretation busy: waiter_world "BusyLink ct" for ct
proof unfold_locales
  fix v v' and g :: u64
  assume "ft_generation (BusyLink ct) v = (v', g)"
  then show "moved v v'" using other_threads_move[of v ct] by (auto simp: BusyLink_def split: prod.splits)
next
  fix until deadline v
  show "moved v (ft_wait_until (BusyLink ct) until deadline v)"
    by (auto simp: BusyLink_def Let_def intro: other_threads_move moved_trans[OF other_threads_move shared_moves_fst])
qed (auto simp: BusyLink_def shared_moves_fst dest: shared_moves)

lemma IsOk_pair: "IsOk (snd x) \<Longrightarrow> x = (fst x, Result_Ok (case snd x of Inr h \<Rightarrow> h))"
  by (cases x; cases "snd x") (auto simp: IsOk_def Result_Ok_def)

lemma published_pair: "snd x \<Longrightarrow> x = (fst x, True)"
  by (cases x) simp

definition example_publisher :: FencePublisher where
  "example_publisher = NewPublisher example_uuid \<lparr>fpb_target = TargetCache, fpb_prefix = ''app'', fpb_sid = ''s1'',
     fpb_receiver_generation = example_uuid, fpb_buffer_class = None, fpb_durability = Applied\<rparr> 0"

lemma WaitFence_decided:
  assumes "decided r t (waiter (fh_waiter h) v)" "t < fh_deadline h"
  shows "WaitFence ft h v = Some (v, Result_Ok r)"
  using decided_before[OF assms(1), of "fh_deadline h"] assms(2) by (simp add: WaitFence_def)

context waiter_world
begin

lemma WaitFence_late:
  assumes "decided r t (waiter (fh_waiter h) v)" "fh_deadline h \<le> t" "fh_waiter h < length (fp_waiters (fst v))"
    "WaitFence ft h v = Some (v', result)"
  shows "\<not> IsOk result"
proof (cases result)
  case (Inr r')
  note m = WaitFence_moves[OF assms(4)]
  from decided_before[OF decided_stays[OF assms(1) m assms(3)], of "fh_deadline h"] assms(2)
  have "TerminalResultBefore (waiter (fh_waiter h) v') (fh_deadline h) = None" by simp
  with WaitFence_visible[of ft h v v' r'] assms(4) Inr moved_waiter[OF m assms(3)] show ?thesis by (simp add: Result_Ok_def)
qed (simp add: IsOk_def)

lemma WaitFence_agrees:
  assumes "WaitFence ft h v = Some (v1, Result_Ok r)" "(pub_step ft)\<^sup>*\<^sup>* v1 v2" "fh_waiter h < length (fp_waiters (fst v))"
  shows "WaitFence ft h v2 = Some (v2, Result_Ok r)"
proof -
  have len: "fh_waiter h < length (fp_waiters (fst v1))" using moved_waiter[OF WaitFence_moves[OF assms(1)] assms(3)] by simp
  from WaitFence_visible[OF assms(1) len] moved_waiter[OF pub_steps_move[OF assms(2)] len]
  have "TerminalResultBefore (waiter (fh_waiter h) v2) (fh_deadline h) = Some r" by (blast intro: visible_stable)
  then show ?thesis by (simp add: WaitFence_def)
qed

end

section \<open>Properties\<close>


text \<open>The fence of the example publisher, with another thread at work in each call: one whose completion arrives
  during the wait, and one whose transport generation is replaced between the two samples of its completion.\<close>

definition example_fence :: "((int \<times> (string \<times> bytes \<times> string \<times> PutOptions) list) \<times> u64 \<times> other_call list) pub_world \<times> FenceHandle Result" where
  "example_fence = BeginFence (BusyLink SilentTransport) [1, 2, 3, 4] 1000 (example_publisher, (0, []), 0, [])"

definition example_handle :: FenceHandle where
  "example_handle = (case snd example_fence of Inr h \<Rightarrow> h)"

definition fence_example_world :: "other_call list \<Rightarrow> ((int \<times> (string \<times> bytes \<times> string \<times> PutOptions) list) \<times> u64 \<times> other_call list) pub_world" where
  "fence_example_world calls = (case fst example_fence of (p, w, g, _) \<Rightarrow> (p, w, g, calls))"


end
