(* ===== verification/FenceSubmission.thy ===== *)
theory FenceSubmission
  imports FenceArbitration "HOL-Library.Sublist"
begin

text \<open>
  What a publisher submits: data under consecutive sequence numbers that never wrap, and one marker
  for a fence, which names the last number handed out.  The laws of the world say that time and
  the log of submissions belong to the transport, and that nothing but the call that holds the
  lane changes the lane.
\<close>

definition lane_of :: "FencePublisher \<Rightarrow> FenceUuid \<times> FencePublisherBinding \<times> u64 \<times> bool" where
  "lane_of p = (fp_uuid p, fp_binding p, fp_last_sequence p, fp_exhausted p)"

definition lane_options :: "FenceUuid \<Rightarrow> u64 \<Rightarrow> PutOptions" where
  "lane_options uuid n = \<lparr>po_ack_token = None, po_fence_lane = Some \<lparr>flm_publisher_uuid = uuid, flm_sequence = n\<rparr>\<rparr>"

definition marker_options :: "AckToken \<Rightarrow> PutOptions" where
  "marker_options token = \<lparr>po_ack_token = Some token, po_fence_lane = None\<rparr>"

fun SubmitAll :: "'w FenceTransport \<Rightarrow> (string \<times> bytes \<times> string) list \<Rightarrow> 'w pub_world \<Rightarrow> 'w pub_world \<times> unit Result list" where
  "SubmitAll ft [] v = (v, [])"
| "SubmitAll ft ((key, payload, encoding) # items) v = (case SubmitData ft key payload encoding v of
     (v, r) \<Rightarrow> (case SubmitAll ft items v of (v, rs) \<Rightarrow> (v, r # rs)))"

text \<open>The log of submissions whose numbers follow \<open>n\<close>, and the marker of a fence.\<close>

fun lane_numbered :: "FenceUuid \<Rightarrow> nat \<Rightarrow> (string \<times> bytes \<times> string) list \<Rightarrow> (string \<times> bytes \<times> string \<times> PutOptions) list" where
  "lane_numbered uuid n [] = []"
| "lane_numbered uuid n ((key, payload, encoding) # items) =
    (key, payload, encoding, lane_options uuid (of_nat (n + 1))) # lane_numbered uuid (n + 1) items"

definition lane_wf :: "FencePublisher \<Rightarrow> bool" where
  "lane_wf p \<longleftrightarrow> fp_exhausted p = (fp_last_sequence p = - 1)"

lemma unat_next: "(n :: u64) \<noteq> - 1 \<Longrightarrow> unat (n + 1) = unat n + 1"
proof -
  assume "n \<noteq> - 1"
  then have "1 + n \<noteq> 0" by (metis add_eq_0_iff)
  from unatSuc[OF this] show ?thesis by (simp add: add.commute)
qed

lemma FenceMarkerKey_lane: "lane_of p = lane_of q \<Longrightarrow> FenceMarkerKey p = FenceMarkerKey q"
  by (auto simp: FenceMarkerKey_def lane_of_def Let_def split: option.split)

locale fence_world = client_world "ft_client ft" "\<lambda>v. elapsed (snd v)" "\<lambda>v. submitted (snd v)"
  for ft :: "'w FenceTransport" and elapsed :: "'w \<Rightarrow> int" and submitted :: "'w \<Rightarrow> (string \<times> bytes \<times> string \<times> PutOptions) list" +
  assumes generation_law: "ft_generation ft v = (v', g) \<Longrightarrow> elapsed (snd v) \<le> elapsed (snd v') \<and> submitted (snd v') = submitted (snd v)"
    and wait_until_law: "elapsed (snd v) \<le> elapsed (snd (ft_wait_until ft until deadline v)) \<and>
      submitted (snd (ft_wait_until ft until deadline v)) = submitted (snd v)"
    and generation_lane: "ft_generation ft v = (v', g) \<Longrightarrow> lane_of (fst v') = lane_of (fst v)"
    and now_lane: "ct_now (ft_client ft) v = (v', t) \<Longrightarrow> lane_of (fst v') = lane_of (fst v)"
    and now_closed: "ct_now (ft_client ft) v = (v', t) \<Longrightarrow> \<not> fp_accepting (fst v) \<Longrightarrow> \<not> fp_accepting (fst v')"
    and put_lane: "ct_put (ft_client ft) key payload encoding options v = (v', r) \<Longrightarrow> lane_of (fst v') = lane_of (fst v)"
begin

abbreviation log :: "'w pub_world \<Rightarrow> (string \<times> bytes \<times> string \<times> PutOptions) list" where
  "log v \<equiv> submitted (snd v)"

definition idle :: "'w pub_world \<Rightarrow> 'w pub_world \<Rightarrow> bool" where
  "idle v v' \<longleftrightarrow> lane_of (fst v') = lane_of (fst v) \<and> log v' = log v"

lemma idle_refl [simp]: "idle v v"
  by (simp add: idle_def)

lemma idle_trans: "idle v v' \<Longrightarrow> idle v' v'' \<Longrightarrow> idle v v''"
  by (simp add: idle_def)

lemma idle_upd: "(\<And>p. lane_of (f p) = lane_of p) \<Longrightarrow> idle v (upd f v)"
  by (cases v) (simp add: idle_def upd_def)

lemma idle_upd_trans: "idle v v' \<Longrightarrow> (\<And>p. lane_of (f p) = lane_of p) \<Longrightarrow> idle v (upd f v')"
  by (erule idle_trans) (rule idle_upd)

lemma idle_set_waiter [simp]: "idle v (set_waiter i fw v)"
  unfolding set_waiter_def by (rule idle_upd) (simp add: lane_of_def)

lemma now_idle: "ct_now (ft_client ft) v = (v', t) \<Longrightarrow> idle v v'"
  using now_law now_lane by (auto simp: idle_def)

lemma SampleMismatch_idle: "SampleMismatch ft v = (v', m) \<Longrightarrow> idle v v'"
  using generation_law generation_lane by (auto simp: SampleMismatch_def idle_def split: if_splits prod.splits)

lemma CancelPendingWaiter_idle: "idle v (CancelPendingWaiter ft v)"
proof (cases "fp_pending (fst v)")
  case (Some h)
  let ?v = "upd (\<lambda>p. p\<lparr>fp_pending := None\<rparr>) v"
  have q: "idle v ?v" by (rule idle_upd) (simp add: lane_of_def)
  obtain v' t where n: "ct_now (ft_client ft) ?v = (v', t)" by fastforce
  show ?thesis using Some n idle_trans[OF idle_trans[OF q now_idle[OF n]] idle_set_waiter] q
    by (simp add: CancelPendingWaiter_def Let_def)
qed (simp add: CancelPendingWaiter_def)

lemma Disconnect_idle: "idle v (Disconnect ft v)"
  unfolding Disconnect_def by (rule idle_trans[OF idle_upd CancelPendingWaiter_idle]) (simp add: lane_of_def)

lemma CheckGeneration_idle: "CheckGeneration ft v = (v', ok) \<Longrightarrow> idle v v'"
  by (auto simp: CheckGeneration_def split: if_splits prod.splits bool.splits
      dest!: SampleMismatch_idle intro: idle_trans[OF _ Disconnect_idle])

text \<open>A submission either leaves lane and log alone and fails, or takes the next number.\<close>

definition took_next :: "string \<times> bytes \<times> string \<Rightarrow> 'w pub_world \<Rightarrow> 'w pub_world \<Rightarrow> bool" where
  "took_next item v v' \<longleftrightarrow> \<not> fp_exhausted (fst v) \<and> lane_of (fst v') = lane_of (NextSequence (fst v)) \<and>
     log v' = log v @ [(fst item, fst (snd item), snd (snd item), lane_options (fp_uuid (fst v)) (fp_last_sequence (fst v) + 1))]"

lemma SubmitAdmitted_log:
  assumes "SubmitAdmitted ft key payload encoding v = (v', r)"
  shows "idle v v' \<and> \<not> IsOk r \<or> took_next (key, payload, encoding) v v'"
proof -
  obtain v1 ok where c1: "CheckGeneration ft v = (v1, ok)" by fastforce
  note q1 = CheckGeneration_idle[OF c1]
  let ?v2 = "upd NextSequence v1"
  let ?opts = "\<lparr>po_ack_token = None, po_fence_lane = Some \<lparr>flm_publisher_uuid = fp_uuid (fst ?v2), flm_sequence = fp_last_sequence (fst ?v2)\<rparr>\<rparr>"
  obtain v3 put where p: "ct_put (ft_client ft) key payload encoding ?opts ?v2 = (v3, put)" by fastforce
  let ?v4 = "case put of Inl e \<Rightarrow> upd (RecordSubmissionError e) v3 | Inr _ \<Rightarrow> v3"
  have q4: "idle v3 ?v4" by (auto simp: RecordSubmissionError_def lane_of_def intro!: idle_upd split: sum.split)
  obtain v5 ok5 where c5: "CheckGeneration ft ?v4 = (v5, ok5)" by fastforce
  have q5: "idle v3 v5" "idle v3 (upd (\<lambda>p. p\<lparr>fp_may_have_submitted := True\<rparr>) v5)"
    using idle_trans[OF q4 CheckGeneration_idle[OF c5]] by (auto intro: idle_upd_trans simp: lane_of_def)
  have lane2: "lane_of (fst ?v2) = lane_of (NextSequence (fst v))" "log ?v2 = log v" "fp_uuid (fst ?v2) = fp_uuid (fst v)"
    "fp_last_sequence (fst ?v2) = fp_last_sequence (fst v) + 1" "fp_exhausted (fst v1) = fp_exhausted (fst v)"
    using q1 by (cases v1; auto simp: upd_def idle_def lane_of_def NextSequence_def Let_def)+
  have taken: "took_next (key, payload, encoding) v w" if "idle v3 w" "\<not> fp_exhausted (fst v1)" for w
    using that put_law[OF p] put_lane[OF p] lane2 by (simp add: took_next_def idle_def lane_options_def)
  show ?thesis
  proof (cases "ok \<and> ft_supports ft v1 \<and> \<not> fp_exhausted (fst v1)")
    case True
    with assms c1 p c5 have "v' = v5 \<or> v' = upd (\<lambda>p. p\<lparr>fp_may_have_submitted := True\<rparr>) v5"
      by (auto simp: SubmitAdmitted_def Let_def split: bool.splits)
    with q5 taken True show ?thesis by blast
  next
    case False
    with assms c1 have "v' = v1" "\<not> IsOk r"
      by (auto simp: SubmitAdmitted_def Let_def Result_Err_def IsOk_def split: bool.splits if_splits)
    with q1 show ?thesis by simp
  qed
qed

lemma SubmitData_log:
  assumes "SubmitData ft key payload encoding v = (v', r)"
  shows "idle v v' \<and> \<not> IsOk r \<or> took_next (key, payload, encoding) v v'"
proof (cases "AdmitOperation (fst v)")
  case None
  with assms show ?thesis by (auto simp: SubmitData_def Result_Err_def IsOk_def)
next
  case (Some p)
  obtain v1 r1 where s: "SubmitAdmitted ft key payload encoding (p, snd v) = (v1, r1)" by fastforce
  with assms Some have v': "v' = upd LeaveOperation v1" "r1 = r" by (auto simp: SubmitData_def)
  have "idle v1 v'" unfolding v'(1) by (rule idle_upd) (simp add: LeaveOperation_def lane_of_def)
  moreover have "idle v (p, snd v)" "fp_exhausted p = fp_exhausted (fst v)" "fp_uuid p = fp_uuid (fst v)"
    "fp_last_sequence p = fp_last_sequence (fst v)" "lane_of (NextSequence p) = lane_of (NextSequence (fst v))"
    using Some by (auto simp: AdmitOperation_def idle_def lane_of_def NextSequence_def Let_def split: if_splits)
  ultimately show ?thesis using SubmitAdmitted_log[OF s] v'(2) by (auto simp: idle_def took_next_def)
qed

lemma SubmitAll_log:
  assumes "SubmitAll ft items v = (v', rs)" "lane_wf (fst v)"
  shows "\<exists>sent. subseq sent items \<and> subseq (map fst (filter (\<lambda>(_, r). IsOk r) (zip items rs))) sent \<and>
    unat (fp_last_sequence (fst v')) = unat (fp_last_sequence (fst v)) + length sent \<and>
    log v' = log v @ lane_numbered (fp_uuid (fst v)) (unat (fp_last_sequence (fst v))) sent \<and>
    fp_uuid (fst v') = fp_uuid (fst v) \<and> fp_binding (fst v') = fp_binding (fst v) \<and> lane_wf (fst v')"
  using assms
proof (induction items arbitrary: v rs)
  case (Cons item items)
  obtain key payload encoding where item: "item = (key, payload, encoding)" by (rule prod_cases3)
  obtain v1 r where s: "SubmitData ft key payload encoding v = (v1, r)" by fastforce
  obtain v2 rs' where "SubmitAll ft items v1 = (v2, rs')" by fastforce
  with Cons.prems(1) item s have all: "SubmitAll ft items v1 = (v', rs')" and out: "rs = r # rs'" by auto
  from SubmitData_log[OF s] show ?case
  proof
    assume idle: "idle v v1 \<and> \<not> IsOk r"
    with Cons.prems(2) have "lane_wf (fst v1)" by (simp add: lane_wf_def idle_def lane_of_def)
    from Cons.IH[OF all this] idle obtain sent where "subseq sent items"
      "subseq (map fst (filter (\<lambda>(_, r). IsOk r) (zip items rs'))) sent"
      "unat (fp_last_sequence (fst v')) = unat (fp_last_sequence (fst v)) + length sent"
      "log v' = log v @ lane_numbered (fp_uuid (fst v)) (unat (fp_last_sequence (fst v))) sent"
      "fp_uuid (fst v') = fp_uuid (fst v)" "fp_binding (fst v') = fp_binding (fst v)" "lane_wf (fst v')"
      by (auto simp: idle_def lane_of_def)
    with idle out show ?thesis by (intro exI[of _ sent]) (auto intro: list_emb_Cons)
  next
    assume taken: "took_next (key, payload, encoding) v v1"
    then have n1: "unat (fp_last_sequence (fst v1)) = unat (fp_last_sequence (fst v)) + 1" "lane_wf (fst v1)"
      "fp_uuid (fst v1) = fp_uuid (fst v)" "fp_binding (fst v1) = fp_binding (fst v)"
      "log v1 = log v @ [(key, payload, encoding, lane_options (fp_uuid (fst v)) (fp_last_sequence (fst v) + 1))]"
      using Cons.prems(2) unat_next[of "fp_last_sequence (fst v)"]
      by (auto simp: took_next_def lane_wf_def lane_of_def NextSequence_def Let_def)
    have num: "of_nat (unat (fp_last_sequence (fst v)) + 1) = fp_last_sequence (fst v) + 1" by simp
    from Cons.IH[OF all n1(2)] n1 obtain sent where "subseq sent items"
      "subseq (map fst (filter (\<lambda>(_, r). IsOk r) (zip items rs'))) sent"
      "unat (fp_last_sequence (fst v')) = unat (fp_last_sequence (fst v)) + 1 + length sent"
      "log v' = log v @ lane_numbered (fp_uuid (fst v)) (unat (fp_last_sequence (fst v))) ((key, payload, encoding) # sent)"
      "fp_uuid (fst v') = fp_uuid (fst v)" "fp_binding (fst v') = fp_binding (fst v)" "lane_wf (fst v')"
      using num by (auto simp: add.commute)
    with out item show ?thesis by (intro exI[of _ "item # sent"]) auto
  qed
qed auto

text \<open>A fence that began submitted its marker and nothing else; a refused one may have.\<close>

definition marked :: "'w pub_world \<Rightarrow> 'w pub_world \<Rightarrow> FenceHandle \<Rightarrow> bool" where
  "marked v v' h \<longleftrightarrow> fh_through h = fp_last_sequence (fst v) \<and> (\<exists>key. FenceMarkerKey (fst v) = Some key \<and>
     log v' = log v @ [(key, EncodeFenceMarker, kSitosV1Fence, marker_options (fh_token h))])"

lemma SubmitMarker_log:
  assumes "SubmitMarker ft key budget handle v = (v', Result_Ok h)"
  shows "log v' = log v @ [(key, EncodeFenceMarker, kSitosV1Fence, marker_options (fh_token handle))] \<and>
    fh_token h = fh_token handle \<and> fh_through h = fh_through handle"
proof -
  obtain v1 now where n: "ct_now (ft_client ft) v = (v1, now)" by fastforce
  let ?d = "SaturatingDeadlineAt now budget"
  let ?v2 = "upd (\<lambda>p. p\<lparr>fp_first_error := None\<rparr>) (upd (SetDeadline (fh_token handle) ?d) v1)"
  have q2: "log ?v2 = log v" using now_idle[OF n] by (cases v1) (auto simp: idle_def upd_def)
  obtain v3 put where p: "ct_put (ft_client ft) key EncodeFenceMarker kSitosV1Fence \<lparr>po_ack_token = Some (fh_token handle), po_fence_lane = None\<rparr> ?v2 = (v3, put)"
    by fastforce
  let ?v4 = "if IsOk put then v3 else upd (\<lambda>p. p\<lparr>fp_may_have_submitted := True\<rparr>) v3"
  obtain v5 ok where c: "CheckGeneration ft ?v4 = (v5, ok)" by fastforce
  have "log v5 = log v3" using CheckGeneration_idle[OF c] by (cases v3) (auto simp: idle_def upd_def split: if_splits)
  then have "log v5 = log v @ [(key, EncodeFenceMarker, kSitosV1Fence, marker_options (fh_token handle))]"
    "log (upd (\<lambda>p. p\<lparr>fp_may_have_submitted := True\<rparr>) v5) = log v5"
    using put_law[OF p] q2 by (simp_all add: marker_options_def upd_def case_prod_beta')
  with assms n p c show ?thesis
    by (auto simp: SubmitMarker_def Let_def Result_Ok_def Result_Err_def split: if_splits bool.splits)
qed

lemma BeginFence_log:
  assumes "BeginFence ft words budget v = (v', Result_Ok h)"
  shows "marked v v' h \<and> fh_token h = GenerateAckToken words"
proof -
  from assms obtain p v2 where p: "AdmitOperation (fst v) = Some p" "BeginFenceAdmitted ft words budget (p, snd v) = (v2, Result_Ok h)"
    "v' = upd LeaveOperation v2"
    by (auto simp: BeginFence_def Result_Ok_def Result_Err_def split: if_splits option.splits prod.splits)
  obtain v1 ok where c: "CheckGeneration ft (p, snd v) = (v1, ok)" by fastforce
  have lane: "lane_of (fst v1) = lane_of (fst v)" "log v1 = log v"
    using CheckGeneration_idle[OF c] p(1) by (auto simp: idle_def AdmitOperation_def lane_of_def split: if_splits)
  from p(2) c obtain key handle where m: "SubmitMarker ft key budget handle
      (upd (\<lambda>p. p\<lparr>fp_waiters := fp_waiters p @ [NewWaiter], fp_pending := Some handle\<rparr>) v1) = (v2, Result_Ok h)"
    "fh_through handle = fp_last_sequence (fst v1)" "fh_token handle = GenerateAckToken words" "FenceMarkerKey (fst v1) = Some key"
    by (auto simp: BeginFenceAdmitted_def Let_def Result_Ok_def Result_Err_def split: if_splits option.splits bool.splits)
  have "FenceMarkerKey (fst v) = Some key" "fp_last_sequence (fst v1) = fp_last_sequence (fst v)"
    using m(4) FenceMarkerKey_lane[OF lane(1)] lane(1) by (simp_all add: lane_of_def)
  with SubmitMarker_log[OF m(1)] m(2,3) lane(2) p(3) show ?thesis
    by (simp add: marked_def upd_def case_prod_beta')
qed

section \<open>A failed fence\<close>

text \<open>A fence that fails either submitted nothing or leaves the publisher closed.\<close>

lemma CancelPendingWaiter_closed: "\<not> fp_accepting (fst v) \<Longrightarrow> \<not> fp_accepting (fst (CancelPendingWaiter ft v))"
proof (cases "fp_pending (fst v)")
  case (Some h)
  assume closed: "\<not> fp_accepting (fst v)"
  let ?v = "upd (\<lambda>p. p\<lparr>fp_pending := None\<rparr>) v"
  have v: "\<not> fp_accepting (fst ?v)" using closed by (simp add: upd_def case_prod_beta')
  obtain v' t where n: "ct_now (ft_client ft) ?v = (v', t)" by fastforce
  have "\<not> fp_accepting (fst (set_waiter i fw v'))" for i fw
    using now_closed[OF n v] by (simp add: set_waiter_def upd_def case_prod_beta')
  with Some n v show ?thesis by (simp add: CancelPendingWaiter_def Let_def)
qed (simp add: CancelPendingWaiter_def)

lemma Disconnect_closed: "\<not> fp_accepting (fst (Disconnect ft v))"
  unfolding Disconnect_def by (rule CancelPendingWaiter_closed) (simp add: upd_def case_prod_beta')

lemma ClosePublisher_closed: "\<not> fp_accepting (fst (ClosePublisher ft v))"
  unfolding ClosePublisher_def by (rule Disconnect_closed)

lemma CheckGeneration_failed:
  "CheckGeneration ft v = (v', False) \<Longrightarrow> fp_disconnected (fst v) \<or> \<not> fp_accepting (fst v')"
  by (auto simp: CheckGeneration_def Disconnect_closed split: if_splits prod.splits bool.splits)

lemma SubmitMarker_failed:
  assumes "SubmitMarker ft key budget handle v = (v', Inl e)"
  shows "fp_disconnected (fst v') \<or> \<not> fp_accepting (fst v')"
proof -
  obtain v1 now where n: "ct_now (ft_client ft) v = (v1, now)" by fastforce
  let ?v2 = "upd (\<lambda>p. p\<lparr>fp_first_error := None\<rparr>) (upd (SetDeadline (fh_token handle) (SaturatingDeadlineAt now budget)) v1)"
  obtain v3 put where p: "ct_put (ft_client ft) key EncodeFenceMarker kSitosV1Fence \<lparr>po_ack_token = Some (fh_token handle), po_fence_lane = None\<rparr> ?v2 = (v3, put)"
    by fastforce
  let ?v4 = "if IsOk put then v3 else upd (\<lambda>p. p\<lparr>fp_may_have_submitted := True\<rparr>) v3"
  obtain v5 ok where c: "CheckGeneration ft ?v4 = (v5, ok)" by fastforce
  from assms n p c have v': "\<not> ok" "v' = upd (\<lambda>p. p\<lparr>fp_may_have_submitted := True\<rparr>) v5"
    by (auto simp: SubmitMarker_def Let_def Result_Ok_def split: if_splits bool.splits)
  have "fp_disconnected (fst v5) \<or> \<not> fp_accepting (fst v5)"
    using c v'(1) by (auto simp: CheckGeneration_def Disconnect_closed split: if_splits prod.splits bool.splits)
  then show ?thesis unfolding v'(2) by (cases v5) (simp add: upd_def)
qed

lemma BeginFence_failed:
  assumes "BeginFence ft words budget v = (v', Inl e)"
  shows "log v' = log v \<or> fp_disconnected (fst v') \<or> \<not> fp_accepting (fst v')"
proof (cases "budget > 0 \<and> fp_accepting (fst v)")
  case True
  then obtain p where p: "AdmitOperation (fst v) = Some p" by (auto simp: AdmitOperation_def)
  obtain v2 r where b: "BeginFenceAdmitted ft words budget (p, snd v) = (v2, r)" by fastforce
  with True assms p have v': "v' = upd LeaveOperation v2" "r = Inl e" by (auto simp: BeginFence_def)
  obtain v1 ok where c: "CheckGeneration ft (p, snd v) = (v1, ok)" by fastforce
  have l1: "log v1 = log v" using CheckGeneration_idle[OF c] by (simp add: idle_def)
  from b v'(2) c consider "v2 = v1" | key handle w where "SubmitMarker ft key budget handle w = (v2, Inl e)"
    by (auto simp: BeginFenceAdmitted_def Let_def split: if_splits option.splits bool.splits)
  then show ?thesis
  proof cases
    case 1
    with l1 v'(1) show ?thesis by (simp add: upd_def case_prod_beta')
  next
    case 2
    from SubmitMarker_failed[OF this] show ?thesis unfolding v'(1) by (cases v2) (simp add: upd_def LeaveOperation_def)
  qed
qed (use assms in \<open>auto simp: BeginFence_def AdmitOperation_def split: if_splits\<close>)

section \<open>A wait ends\<close>

lemma snd_upd [simp]: "snd (upd f v) = snd v" "snd (set_waiter i fw v) = snd v"
  by (cases v; simp add: upd_def set_waiter_def)+

lemma SampleMismatch_quiet: "SampleMismatch ft v = (v', m) \<Longrightarrow> quiet v v'"
  by (auto simp: SampleMismatch_def quiet_def split: if_splits prod.splits dest: generation_law)

lemma quiet_snd: "snd v' = snd v \<Longrightarrow> quiet v v'"
  by (simp add: quiet_def)

lemma quiet_upd: "quiet v v' \<Longrightarrow> quiet v (upd f v')" "quiet v v' \<Longrightarrow> quiet v (set_waiter i fw v')"
  by (simp_all add: quiet_def)

lemma PublishWaiterResult_quiet:
  assumes "PublishWaiterResult ft i n r v = (v', out)"
  shows "quiet v v'"
proof -
  obtain v1 m1 where s1: "SampleMismatch ft v = (v1, m1)" by fastforce
  note q1 = SampleMismatch_quiet[OF s1]
  show ?thesis
  proof (cases "ReserveWaiter m1 (DisconnectedResult (fst v1) n) r (waiter i v1)")
    case None
    with assms s1 q1 show ?thesis by (auto simp: PublishWaiterResult_def)
  next
    case (Some fw)
    let ?v1 = "set_waiter i fw v1"
    obtain v2 m2 where s2: "(if m1 then (?v1, True) else SampleMismatch ft ?v1) = (v2, m2)" by fastforce
    then have q2: "quiet ?v1 v2" by (auto split: if_splits dest: SampleMismatch_quiet simp: quiet_refl)
    have q: "quiet v v2" using quiet_trans[OF quiet_upd(2)[OF q1] q2] .
    obtain v3 t where n3: "ct_now (ft_client ft) v2 = (v3, t)" by fastforce
    have q3: "quiet v v3" using q now_quiet[OF n3] by (rule quiet_trans)
    from assms s1 Some s2 n3 have "(\<exists>fw. v' = set_waiter i fw v2) \<or> (\<exists>fw. v' = set_waiter i fw v3)"
      by (auto simp: PublishWaiterResult_def split: prod.splits if_splits)
    then show ?thesis using quiet_upd(2)[OF q] quiet_upd(2)[OF q3] by blast
  qed
qed

lemma PollObserved_quiet: "quiet v (PollObserved ft handle r v)"
  by (auto simp: PollObserved_def split: prod.splits option.splits bool.splits dest!: PublishWaiterResult_quiet intro: quiet_upd)

lemma CancelPendingWaiter_quiet: "quiet v (CancelPendingWaiter ft v)"
proof (cases "fp_pending (fst v)")
  case (Some h)
  let ?v = "upd (\<lambda>p. p\<lparr>fp_pending := None\<rparr>) v"
  obtain v' t where n: "ct_now (ft_client ft) ?v = (v', t)" by fastforce
  have "quiet v v'" using quiet_trans[OF quiet_upd(1)[OF quiet_refl] now_quiet[OF n]] .
  then show ?thesis using Some n quiet_upd(1)[OF quiet_refl] by (auto simp: CancelPendingWaiter_def Let_def intro: quiet_upd)
qed (simp add: CancelPendingWaiter_def quiet_refl)

lemma SettlePolled_quiet: "SettlePolled ft handle r v = (v', r') \<Longrightarrow> quiet v v'"
  by (auto simp: SettlePolled_def Let_def quiet_refl split: sum.splits prod.splits if_splits dest!: now_quiet
      intro: quiet_upd quiet_upd[OF quiet_refl])

lemma WaitBuffer_returns: "\<exists>v' r. WaitBuffer ft handle v = Some (v', r) \<and> quiet v v'"
proof -
  have ok: "poller_ok (Some (PollCancelled handle)) (Some (PollObserved ft handle))"
    by (simp add: poller_ok_def PollCancelled_def PollObserved_quiet quiet_refl)
  have "\<exists>v' r. PollAcknowledgement (ft_client ft) pfx token deadline e (Some (PollCancelled handle)) (Some (PollObserved ft handle)) v = Some (v', r) \<and> quiet v v'" for pfx token deadline e
  proof (cases "BuildMetaAckKey pfx (FormatAckToken token)")
    case None
    then show ?thesis by (simp add: PollAcknowledgement_def quiet_refl del: split_paired_Ex)
  next
    case (Some key)
    then show ?thesis using PollLoop_returns[OF ok, where w = v] by (simp add: PollAcknowledgement_def del: split_paired_Ex) blast
  qed
  then obtain v1 r1 where p: "PollAcknowledgement (ft_client ft) (fpb_prefix (fp_binding (fst v))) (fh_token handle) (fh_deadline handle)
        (fh_diagnostic handle) (Some (PollCancelled handle)) (Some (PollObserved ft handle)) v = Some (v1, r1)" "quiet v v1" by blast
  obtain v2 r2 where s: "SettlePolled ft handle r1 v1 = (v2, r2)" by fastforce
  from p s quiet_trans[OF p(2) SettlePolled_quiet[OF s]] show ?thesis by (simp add: WaitBuffer_def quiet_upd)
qed

lemma WaitFence_returns: "\<exists>v' r. WaitFence ft handle v = Some (v', r) \<and> quiet v v'"
proof (cases "TerminalResultBefore (waiter (fh_waiter handle) v) (fh_deadline handle)")
  case None
  show ?thesis
  proof (cases "AdmitOperation (fst v)")
    case refused: None
    have "quiet v (fst (WaitRefused ft handle v))"
      by (auto simp: WaitRefused_def Let_def quiet_refl split: prod.splits if_splits dest!: now_quiet intro!: quiet_upd)
    with None refused show ?thesis by (cases "WaitRefused ft handle v") (simp add: WaitFence_def)
  next
    case (Some p)
    obtain v1 m where s: "SampleMismatch ft (p, snd v) = (v1, m)" by fastforce
    let ?v2 = "if m then CancelPendingWaiter ft (upd MarkGenerationMismatch v1) else v1"
    have q: "quiet v ?v2" using SampleMismatch_quiet[OF s] CancelPendingWaiter_quiet[of "upd MarkGenerationMismatch v1"]
      by (auto simp: quiet_def)
    have cache: "quiet ?v2 (fst (WaitCache ft handle ?v2))"
      using wait_until_law by (auto simp: WaitCache_def Let_def quiet_def)
    show ?thesis
    proof (cases "fpb_target (fp_binding (fst ?v2)) = TargetBuffer")
      case True
      obtain v3 r where "WaitBuffer ft handle ?v2 = Some (v3, r)" "quiet ?v2 v3" using WaitBuffer_returns by blast
      with True None Some s q show ?thesis by (auto simp: WaitFence_def Let_def intro: quiet_upd quiet_trans)
    next
      case False
      with cache None Some s q show ?thesis
        by (cases "WaitCache ft handle ?v2") (auto simp: WaitFence_def Let_def intro: quiet_upd quiet_trans)
    qed
  qed
qed (simp add: WaitFence_def quiet_refl)

end

section \<open>A link over a client world\<close>

context client_world
begin

lemma FenceLink_world: "fence_world (FenceLink ct) elapsed submitted"
  by unfold_locales (use wait_law in \<open>auto simp: link_defs split: prod.splits dest: now_law sleep_law get_law put_law\<close>)

end

interpretation silent_link: fence_world "FenceLink SilentTransport" fst snd
  by (rule silent.FenceLink_world)

section \<open>Properties\<close>

text \<open>C7: a fence covers exactly what was submitted before it.  A publisher whose lane is sound submits some
  of the items it is given, among them all it reports as successful, in order and under
  consecutive sequence numbers that never wrap; the fence that follows submits its marker once,
  under the key of the last number; the wait for it returns, submits nothing, and a result it
  reports is the one its waiter shows before the deadline.\<close>

theorem publisher_fence_covers:
  assumes "fence_world ft elapsed submitted" "lane_wf (fst v)"
    and "SubmitAll ft items v = (v1, rs)" "BeginFence ft words budget v1 = (v2, Result_Ok h)"
  shows "(\<exists>sent key. subseq sent items \<and> subseq (map fst (filter (\<lambda>(_, r). IsOk r) (zip items rs))) sent \<and>
      unat (fh_through h) = unat (fp_last_sequence (fst v)) + length sent \<and> FenceMarkerKey (fst v1) = Some key \<and>
      submitted (snd v2) = submitted (snd v) @ lane_numbered (fp_uuid (fst v)) (unat (fp_last_sequence (fst v))) sent @
        [(key, EncodeFenceMarker, kSitosV1Fence, marker_options (GenerateAckToken words))]) \<and>
    (\<exists>v3 result. WaitFence ft h v2 = Some (v3, result) \<and> submitted (snd v3) = submitted (snd v2) \<and>
      (\<forall>r. result = Result_Ok r \<and> fh_waiter h < length (fp_waiters (fst v3)) \<longrightarrow>
        TerminalResultBefore (waiter (fh_waiter h) v3) (fh_deadline h) = Some r))"
proof (rule conjI)
  from fence_world.SubmitAll_log[OF assms(1,3,2)] obtain sent where sent: "subseq sent items"
    "subseq (map fst (filter (\<lambda>(_, r). IsOk r) (zip items rs))) sent"
    "unat (fp_last_sequence (fst v1)) = unat (fp_last_sequence (fst v)) + length sent"
    "submitted (snd v1) = submitted (snd v) @ lane_numbered (fp_uuid (fst v)) (unat (fp_last_sequence (fst v))) sent" by blast
  from fence_world.BeginFence_log[OF assms(1,4)] sent
  show "\<exists>sent key. subseq sent items \<and> subseq (map fst (filter (\<lambda>(_, r). IsOk r) (zip items rs))) sent \<and>
      unat (fh_through h) = unat (fp_last_sequence (fst v)) + length sent \<and> FenceMarkerKey (fst v1) = Some key \<and>
      submitted (snd v2) = submitted (snd v) @ lane_numbered (fp_uuid (fst v)) (unat (fp_last_sequence (fst v))) sent @
        [(key, EncodeFenceMarker, kSitosV1Fence, marker_options (GenerateAckToken words))]"
    by (auto simp: fence_world.marked_def[OF assms(1)])
next
  from fence_world.WaitFence_returns[OF assms(1)] obtain v3 result where
    "WaitFence ft h v2 = Some (v3, result)" "submitted (snd v3) = submitted (snd v2)"
    by (metis client_world.quiet_def fence_world.axioms(1)[OF assms(1)])
  then show "\<exists>v3 result. WaitFence ft h v2 = Some (v3, result) \<and> submitted (snd v3) = submitted (snd v2) \<and>
      (\<forall>r. result = Result_Ok r \<and> fh_waiter h < length (fp_waiters (fst v3)) \<longrightarrow>
        TerminalResultBefore (waiter (fh_waiter h) v3) (fh_deadline h) = Some r)"
    using WaitFence_visible by blast
qed


text \<open>Two items and a fence on the example publisher; the wait ends although nobody answers.\<close>

theorem publisher_fence_covers_witness:
  "\<exists>v1 rs v2 h v3 result. SubmitAll (FenceLink SilentTransport) [(''a'', [1], ''x''), (''b'', [2], ''x'')] (example_publisher, (0, [])) = (v1, rs) \<and>
     BeginFence (FenceLink SilentTransport) [1, 2, 3, 4] 1000 v1 = (v2, Result_Ok h) \<and> length (snd (snd v2)) = 3 \<and> fh_through h = 2 \<and>
     WaitFence (FenceLink SilentTransport) h v2 = Some (v3, result) \<and> snd (snd v3) = snd (snd v2)"
proof -
  let ?ft = "FenceLink SilentTransport" and ?items = "[(''a'', [1], ''x''), (''b'', [2], ''x'')]"
  let ?s = "SubmitAll ?ft ?items (example_publisher, (0, []))"
  let ?b = "BeginFence ?ft [1, 2, 3, 4] 1000 (fst ?s)"
  let ?h = "case snd ?b of Inr h \<Rightarrow> h"
  have ok: "IsOk (snd ?b)" "length (snd (snd (fst ?b))) = 3" "fh_through ?h = 2" by code_simp+
  note b = IsOk_pair[OF ok(1)]
  have "lane_wf (fst (example_publisher, (0 :: int, [] :: (string \<times> bytes \<times> string \<times> PutOptions) list)))" by code_simp
  from publisher_fence_covers[OF silent_link.fence_world_axioms this surjective_pairing b]
  obtain v3 result where "WaitFence ?ft ?h (fst ?b) = Some (v3, result)" "snd (snd v3) = snd (snd (fst ?b))" by blast
  then show ?thesis using b ok(2,3) surjective_pairing[of ?s] by blast
qed

end
