(* ===== verification/BufferPublisher.thy ===== *)
theory BufferPublisher
  imports FenceSubmission MetadataParser ClientNode
begin

text \<open>
  The buffer publisher, \<open>src/buffer_publisher.cpp\<close>: the discovery of the session's generation,
  opening, pushes and fences over the fence publisher.  The implementation object is the
  publisher of the world with the names it is bound to; \<open>bp_open\<close> is false in a moved-from
  publisher.
\<close>

section \<open>Discovery of the session generation\<close>

record Discovery =
  dc_generation :: "FenceUuid option"
  dc_invalid_reply :: bool

definition DiscoverSink :: "string \<Rightarrow> (Discovery \<times> 'w) QueryResultSink" where
  "DiscoverSink metadata_key key payload encoding = (\<lambda>(s, w).
    let invalid = ((s\<lparr>dc_invalid_reply := True\<rparr>, w), Some False) in
    if key \<noteq> metadata_key \<or> encoding \<noteq> kSitosV1 then invalid
    else (case Option.bind (Decode payload) As_string of
      None \<Rightarrow> invalid
    | Some json \<Rightarrow>
        (case ParseMetadata json of
           None \<Rightarrow> invalid
         | Some g \<Rightarrow>
             if dc_generation s \<noteq> None then ((s\<lparr>dc_invalid_reply := True\<rparr>, w), Some True)
             else ((s\<lparr>dc_generation := Some g\<rparr>, w), Some True))))"

definition DiscoverSessionGeneration :: "'w ClientTransport \<Rightarrow> ClientConfig \<Rightarrow> string \<Rightarrow> 'w \<Rightarrow> 'w \<times> FenceUuid Result" where
  "DiscoverSessionGeneration ct config sid w =
    (case BuildMetaSessionKey (cc_prefix config) sid of
       None \<Rightarrow> (w, Err InvalidKey ''invalid session id'')
     | Some metadata_key \<Rightarrow>
         (case WaitForStorageNodeWithin ct (cc_prefix config) (cc_query_timeout config) w of (w, query_timeout) \<Rightarrow>
            (case TransportGet ct metadata_key (DiscoverSink metadata_key) query_timeout
                \<lparr>dc_generation = None, dc_invalid_reply = False\<rparr> w of
               ((s, w), Inl e) \<Rightarrow> (w, Inl e)
             | ((s, w), Inr _) \<Rightarrow>
                 if dc_invalid_reply s then (w, Err TypeMismatch ''invalid session metadata'')
                 else (case dc_generation s of
                   None \<Rightarrow> (w, Err NotFound '''')
                 | Some g \<Rightarrow> (w, Result_Ok g)))))"

section \<open>Opening\<close>

record BufferPublisher =
  bp_open :: bool
  bp_prefix :: string
  bp_sid :: string
  bp_class :: BufferClass

text \<open>\<open>Open\<close> with an injected transport, which may be null; \<open>uuid\<close> is the generated publisher identity
  and \<open>generation\<close> samples the transport's.\<close>

definition OpenWithTransport :: "'w ClientTransport \<Rightarrow> bool \<Rightarrow> ('w \<Rightarrow> bool) \<Rightarrow> ('w \<Rightarrow> 'w \<times> u64) \<Rightarrow> FenceUuid \<Rightarrow>
    ClientConfig \<Rightarrow> string \<Rightarrow> BufferClass \<Rightarrow> 'w \<Rightarrow> 'w \<times> (BufferPublisher \<times> FencePublisher) Result" where
  "OpenWithTransport ct has_transport supports generation uuid config sid buffer_class w =
    (if \<not> has_transport then (w, Err InvalidArgument ''null transport'')
     else (case ValidateClientConfig config of
       Inl e \<Rightarrow> (w, Inl e)
     | Inr _ \<Rightarrow>
         if cc_zenoh_config_json config \<noteq> None
         then (w, Err InvalidArgument ''injected transport cannot apply zenoh configuration'')
         else if \<not> IsValidSessionId sid then (w, Err InvalidKey ''invalid session id'')
         else if \<not> supports w then (w, Err InvalidArgument ''Transport does not support Fence'')
         else (case DiscoverSessionGeneration ct config sid w of
           (w, Inl e) \<Rightarrow> (w, Inl e)
         | (w, Inr g) \<Rightarrow>
             (case generation w of (w, transport_generation) \<Rightarrow>
               (w, Result_Ok (\<lparr>bp_open = True, bp_prefix = cc_prefix config, bp_sid = sid, bp_class = buffer_class\<rparr>,
                  AllowSynced (NewPublisher uuid \<lparr>fpb_target = TargetBuffer, fpb_prefix = cc_prefix config, fpb_sid = sid,
                    fpb_receiver_generation = g, fpb_buffer_class = Some buffer_class, fpb_durability = Applied\<rparr>
                    transport_generation)))))))"

text \<open>The overload that opens its own transport; \<open>open_zenoh\<close> is the adapter's factory.\<close>

definition OpenPublisher :: "'w ClientTransport \<Rightarrow> (string option \<Rightarrow> 'w \<Rightarrow> 'w \<times> unit Result) \<Rightarrow> ('w \<Rightarrow> bool) \<Rightarrow> ('w \<Rightarrow> 'w \<times> u64) \<Rightarrow>
    FenceUuid \<Rightarrow> ClientConfig \<Rightarrow> string \<Rightarrow> BufferClass \<Rightarrow> 'w \<Rightarrow> 'w \<times> (BufferPublisher \<times> FencePublisher) Result" where
  "OpenPublisher ct open_zenoh supports generation uuid config sid buffer_class w =
    (case ValidateClientConfig config of
       Inl e \<Rightarrow> (w, Inl e)
     | Inr _ \<Rightarrow>
         (case open_zenoh (cc_zenoh_config_json config) w of
            (w, Inl e) \<Rightarrow> (w, Inl e)
          | (w, Inr _) \<Rightarrow>
              OpenWithTransport ct True supports generation uuid (config\<lparr>cc_zenoh_config_json := None\<rparr>) sid buffer_class w))"

section \<open>Pushes and fences\<close>

definition kZenohBytes :: string where "kZenohBytes = ''zenoh/bytes''"

definition Push :: "'w FenceTransport \<Rightarrow> BufferPublisher \<Rightarrow> string \<Rightarrow> bytes \<Rightarrow> 'w pub_world \<Rightarrow> 'w pub_world \<times> unit Result" where
  "Push ft bp key payload v =
    (if \<not> bp_open bp \<or> \<not> fp_accepting (fst v) then (v, Err Disconnected '''')
     else (case BuildBufferKey (bp_prefix bp) (bp_sid bp) (bp_class bp) key of
       None \<Rightarrow> (v, Err InvalidKey ''invalid buffer key'')
     | Some full_key \<Rightarrow> SubmitData ft full_key payload kZenohBytes v))"

datatype FenceDurability = DurabilityApplied | DurabilitySynced

record FenceReceipt =
  fr_through :: u64
  fr_durability :: FenceDurability

definition ack_durability :: "FenceDurability \<Rightarrow> AckDurability" where
  "ack_durability d = (if d = DurabilitySynced then Synced else Applied)"

definition FenceReceived :: "'w FenceTransport \<Rightarrow> FenceDurability \<Rightarrow> FenceHandle \<Rightarrow> AckResultV1 Result \<Rightarrow> 'w pub_world \<Rightarrow>
    'w pub_world \<times> FenceReceipt Result" where
  "FenceReceived ft durability handle result v = (case result of
     Inl e \<Rightarrow> (ClosePublisher ft v, Inl e)
   | Inr r \<Rightarrow>
       if ar_operation_kind r \<noteq> OpFence \<or> ar_durability r \<noteq> ack_durability durability \<or> ar_through_sequence r \<noteq> fh_through handle
       then (ClosePublisher ft v, Err TypeMismatch ''Fence acknowledgement fingerprint mismatch'')
       else if ar_status r \<noteq> Ok then (ClosePublisher ft v, Err (ar_status r) (ar_message r))
       else (v, Result_Ok \<lparr>fr_through = ar_through_sequence r, fr_durability = durability\<rparr>))"

definition Fence :: "'w FenceTransport \<Rightarrow> u32 list \<Rightarrow> BufferPublisher \<Rightarrow> FenceDurability \<Rightarrow> int \<Rightarrow> 'w pub_world \<Rightarrow>
    ('w pub_world \<times> FenceReceipt Result) option" where
  "Fence ft words bp durability timeout v =
    (if \<not> bp_open bp \<or> \<not> fp_accepting (fst v) then Some (v, Err Disconnected '''')
     else if durability = DurabilitySynced \<and> bp_class bp = Ephemeral
     then Some (v, Err InvalidArgument ''synchronized Fence requires a durable buffer'')
     else
       (case BeginFence ft words timeout (upd (SetDurability (ack_durability durability)) v) of
          (v, Inl e) \<Rightarrow> Some (v, Inl e)
        | (v, Inr handle) \<Rightarrow>
            (case WaitFence ft handle v of
               None \<Rightarrow> None
             | Some (v, result) \<Rightarrow> Some (FenceReceived ft durability handle result v))))"

section \<open>Discovery reads the node's metadata\<close>

lemma discover_one:
  assumes "ParseMetadata json = Some g"
  shows "deliver (DiscoverSink key) {} [Some (Inr \<lparr>qr_key = key, qr_payload = Encode (PV_Str json), qr_encoding = kSitosV1\<rparr>)]
      (\<lparr>dc_generation = None, dc_invalid_reply = False\<rparr>, w) =
    ((\<lparr>dc_generation = Some g, dc_invalid_reply = False\<rparr>, w), Result_Ok ())"
  using assms by (simp add: DiscoverSink_def As_string_def normalize_def Let_def)


section \<open>What a fence call reports\<close>

lemma ClosePublisher_log:
  assumes "fence_world ft elapsed submitted"
  shows "submitted (snd (ClosePublisher ft v)) = submitted (snd v)"
proof -
  have "fence_world.idle submitted v (ClosePublisher ft v)"
    unfolding ClosePublisher_def
    by (rule fence_world.idle_trans[OF assms fence_world.idle_upd[OF assms] fence_world.Disconnect_idle[OF assms]]) (simp add: lane_of_def)
  then show ?thesis by (simp add: fence_world.idle_def[OF assms])
qed

lemma FenceReceived_log:
  assumes "fence_world ft elapsed submitted" "FenceReceived ft durability h r v = (v', result)"
  shows "submitted (snd v') = submitted (snd v)" "result = Inl e \<Longrightarrow> \<not> fp_accepting (fst v')"
  using assms(2)
  by (auto simp: FenceReceived_def Result_Ok_def Result_Err_def ClosePublisher_log[OF assms(1)] fence_world.ClosePublisher_closed[OF assms(1)]
      split: sum.splits if_splits)

text \<open>The result a receipt vouches for.\<close>

definition receipt_of :: "FenceReceipt \<Rightarrow> AckResultV1 \<Rightarrow> bool" where
  "receipt_of receipt r \<longleftrightarrow> ar_operation_kind r = OpFence \<and> ar_status r = Ok \<and>
     ar_durability r = ack_durability (fr_durability receipt) \<and> ar_through_sequence r = fr_through receipt"

lemma FenceReceived_ok:
  assumes "FenceReceived ft durability h result v = (v', Result_Ok receipt)"
  shows "v' = v \<and> fr_durability receipt = durability \<and> fr_through receipt = fh_through h \<and> (\<exists>r. result = Result_Ok r \<and> receipt_of receipt r)"
  using assms by (auto simp: FenceReceived_def receipt_of_def Result_Ok_def Result_Err_def split: sum.splits if_splits)

section \<open>Properties\<close>

text \<open>C13: a buffer fence returns, and its answer means what it says.  A receipt names the requested durability
  and the last sequence number handed out; exactly one marker was submitted for it; and the
  result it was made from is a successful fence result with that durability and number, which
  the waiter of the fence shows before the deadline.  An error comes with no submission, or leaves the
  publisher closed for good, so that no later push can pass a number whose fate is unknown.\<close>

theorem buffer_fence_receipt:
  assumes "waiter_world ft" "fence_world ft elapsed submitted"
  shows "\<exists>v' result. Fence ft words bp durability timeout v = Some (v', result) \<and>
    (\<forall>receipt. result = Result_Ok receipt \<longrightarrow>
      fr_durability receipt = durability \<and> fr_through receipt = fp_last_sequence (fst v) \<and>
      (\<exists>key. FenceMarkerKey (SetDurability (ack_durability durability) (fst v)) = Some key \<and>
        submitted (snd v') = submitted (snd v) @ [(key, EncodeFenceMarker, kSitosV1Fence, marker_options (GenerateAckToken words))]) \<and>
      (\<exists>v1 h r. BeginFence ft words timeout (upd (SetDurability (ack_durability durability)) v) = (v1, Result_Ok h) \<and>
        TerminalResultBefore (waiter (fh_waiter h) v') (fh_deadline h) = Some r \<and> receipt_of receipt r)) \<and>
    (\<forall>e. result = Inl e \<longrightarrow> submitted (snd v') = submitted (snd v) \<or> fp_disconnected (fst v') \<or> \<not> fp_accepting (fst v'))"
proof (cases "(\<not> bp_open bp \<or> \<not> fp_accepting (fst v)) \<or> durability = DurabilitySynced \<and> bp_class bp = Ephemeral")
  case True
  then show ?thesis by (auto simp: Fence_def Result_Ok_def Result_Err_def simp del: split_paired_Ex)
next
  case False
  let ?v = "upd (SetDurability (ack_durability durability)) v"
  have v: "fst ?v = SetDurability (ack_durability durability) (fst v)" "snd ?v = snd v" "fp_last_sequence (fst ?v) = fp_last_sequence (fst v)"
    by (cases v; simp add: upd_def SetDurability_def)+
  obtain v1 begun where b: "BeginFence ft words timeout ?v = (v1, begun)" by fastforce
  show ?thesis
  proof (cases begun)
    case (Inl e)
    with False b fence_world.BeginFence_failed[OF assms(2), of words timeout ?v v1 e] v show ?thesis
      by (auto simp: Fence_def Result_Ok_def simp del: split_paired_Ex)
  next
    case (Inr h)
    then have bh: "BeginFence ft words timeout ?v = (v1, Result_Ok h)" using b by (simp add: Result_Ok_def)
    from fence_world.WaitFence_returns[OF assms(2)] obtain v2 result where wait: "WaitFence ft h v1 = Some (v2, result)"
      "submitted (snd v2) = submitted (snd v1)" by (metis client_world.quiet_def fence_world.axioms(1)[OF assms(2)])
    obtain v3 out where f: "FenceReceived ft durability h result v2 = (v3, out)" by fastforce
    have run: "Fence ft words bp durability timeout v = Some (v3, out)"
      using False b Inr wait(1) f by (auto simp: Fence_def)
    have len: "fh_waiter h < length (fp_waiters (fst v2))"
      using waiter_world.BeginFence_waiter[OF assms(1) bh] waiter_world.WaitFence_moves[OF assms(1) wait(1)] by (auto simp: moved_def)
    from fence_world.BeginFence_log[OF assms(2) bh] have m: "fh_through h = fp_last_sequence (fst v)"
      "\<exists>key. FenceMarkerKey (fst ?v) = Some key \<and>
        submitted (snd v1) = submitted (snd v) @ [(key, EncodeFenceMarker, kSitosV1Fence, marker_options (GenerateAckToken words))]"
      by (auto simp: fence_world.marked_def[OF assms(2)] v(1,2) SetDurability_def)
    have ok: "fr_durability receipt = durability \<and> fr_through receipt = fp_last_sequence (fst v) \<and>
        (\<exists>r. TerminalResultBefore (waiter (fh_waiter h) v3) (fh_deadline h) = Some r \<and> receipt_of receipt r)"
      if "out = Result_Ok receipt" for receipt
      using FenceReceived_ok[OF f[unfolded that]] m(1) WaitFence_visible[of ft h v1 v2] wait(1) len by auto
    have log: "submitted (snd v3) = submitted (snd v1)" using FenceReceived_log(1)[OF assms(2) f] wait(2) by simp
    have failed: "\<not> fp_accepting (fst v3)" if "out = Inl e" for e using FenceReceived_log(2)[OF assms(2) f that] .
    show ?thesis unfolding run using ok m(2) bh failed by (simp add: log v(1) del: split_paired_Ex) blast
  qed
qed


text \<open>A push and a fence that nobody answers: the fence returns and closes the publisher.\<close>

theorem buffer_fence_receipt_witness:
  "\<exists>v' result. Fence (FenceLink SilentTransport) [1, 2, 3, 4] \<lparr>bp_open = True, bp_prefix = ''app'', bp_sid = ''s1'', bp_class = Durable\<rparr>
       DurabilitySynced 1000 (example_publisher, (0, [])) = Some (v', result) \<and>
     (\<forall>e. result = Inl e \<longrightarrow> snd (snd v') = [] \<or> fp_disconnected (fst v') \<or> \<not> fp_accepting (fst v'))"
  using buffer_fence_receipt[OF link.waiter_world_axioms silent_link.fence_world_axioms, of "[1, 2, 3, 4]"
    "\<lparr>bp_open = True, bp_prefix = ''app'', bp_sid = ''s1'', bp_class = Durable\<rparr>" DurabilitySynced 1000 "(example_publisher, (0, []))"]
  by (simp del: split_paired_Ex) blast

end
