(* ===== verification/ParamSubscription.thy ===== *)
theory ParamSubscription
  imports ParamStore
begin

text \<open>
  Delta subscriptions, \<open>src/param_subscription.cpp\<close>: what a transport sample means to a subscriber, the
  queue of staged and admitted samples with its single drainer, and closing.  Each critical
  section under the subscription's lock is one definition; the step relations interleave them over
  any number of native callbacks, the subscribing call and any number of closing calls.
\<close>

section \<open>Decoding\<close>

datatype ParamChangeKind = ChangePut | ChangeDelete

record ParamChange =
  pch_kind :: ParamChangeKind
  pch_key :: string
  pch_value :: "ParamValue option"

record OwnedSample =
  os_key :: string
  os_payload :: bytes
  os_encoding :: string
  os_kind :: SampleKind

text \<open>The members of the subscription state that decoding reads.\<close>

record SubscriptionContext =
  sc_prefix :: string
  sc_scope :: Scope
  sc_list_prefix :: string

definition MatchesScope :: "ParsedKey \<Rightarrow> Scope \<Rightarrow> bool" where
  "MatchesScope p scope =
    (if scope_kind scope = ScopeBase then pk_kind p = KeyBase
     else pk_kind p = KeySession \<and> pk_sid p = scope_sid scope)"

text \<open>The test each decoder makes of a relative key; an empty list prefix selects every key.\<close>

definition InListPrefix :: "SubscriptionContext \<Rightarrow> string \<Rightarrow> bool" where
  "InListPrefix sc key \<longleftrightarrow> sc_list_prefix sc = '''' \<or> starts_with key (sc_list_prefix sc)"

definition put_change :: "string \<Rightarrow> ParamValue \<Rightarrow> ParamChange" where
  "put_change key v = \<lparr>pch_kind = ChangePut, pch_key = key, pch_value = Some v\<rparr>"

text \<open>The decoders return the changes with the warnings they log.\<close>

definition Sub_DecodeDelete :: "SubscriptionContext \<Rightarrow> ParsedKey \<Rightarrow> ParamChange list \<times> string list" where
  "Sub_DecodeDelete sc p =
    (if pk_is_batch p then ([], [''batch DELETE is unsupported''])
     else if \<not> InListPrefix sc (pk_relative_key p) then ([], [])
     else ([\<lparr>pch_kind = ChangeDelete, pch_key = pk_relative_key p, pch_value = None\<rparr>], []))"

fun Sub_BatchChanges :: "SubscriptionContext \<Rightarrow> BatchEntry list \<Rightarrow> ParamChange list \<Rightarrow> ParamChange list \<times> string list" where
  "Sub_BatchChanges sc [] changes = (changes, [])"
| "Sub_BatchChanges sc (entry # entries) changes =
    (if \<not> IsValidKey (be_key entry) then ([], [''batch sample contains an invalid key''])
     else Sub_BatchChanges sc entries
       (if InListPrefix sc (be_key entry) then changes @ [put_change (be_key entry) (be_value entry)] else changes))"

definition Sub_DecodeBatchSample :: "SubscriptionContext \<Rightarrow> OwnedSample \<Rightarrow> ParamChange list \<times> string list" where
  "Sub_DecodeBatchSample sc sample =
    (if os_encoding sample \<noteq> kSitosV1Batch then ([], [''batch sample has an unsupported encoding''])
     else (case DecodeBatch (os_payload sample) of
       None \<Rightarrow> ([], [''malformed batch sample''])
     | Some entries \<Rightarrow> Sub_BatchChanges sc entries []))"

definition Sub_DecodeOrdinary :: "SubscriptionContext \<Rightarrow> OwnedSample \<Rightarrow> ParsedKey \<Rightarrow> ParamChange list \<times> string list" where
  "Sub_DecodeOrdinary sc sample p =
    (if \<not> InListPrefix sc (pk_relative_key p) then ([], [])
     else if os_encoding sample = kSitosV1Batch then ([], [''ordinary sample has batch encoding''])
     else if os_encoding sample = kSitosV1 then
       (case Decode (os_payload sample) of
          None \<Rightarrow> ([], [''malformed sitos.v1 sample''])
        | Some v \<Rightarrow> ([put_change (pk_relative_key p) v], []))
     else ([put_change (pk_relative_key p) (PV_Bytes (os_payload sample))], [''unknown sample encoding; wrapped as bytes'']))"

definition Sub_Decode :: "SubscriptionContext \<Rightarrow> OwnedSample \<Rightarrow> ParamChange list option \<times> string list" where
  "Sub_Decode sc sample = (case ParseKey (sc_prefix sc) (os_key sample) of
     None \<Rightarrow> (Some [], [''malformed or reserved transport key''])
   | Some p \<Rightarrow>
       if \<not> MatchesScope p (sc_scope sc) then (None, [])
       else if os_kind sample = SampleDelete then map_prod Some id (Sub_DecodeDelete sc p)
       else if pk_is_batch p then map_prod Some id (Sub_DecodeBatchSample sc sample)
       else map_prod Some id (Sub_DecodeOrdinary sc sample p))"

text \<open>What \<open>Deliver\<close> hands to the callback, one change after another; an exception of the callback is
  logged and the next change follows.\<close>

definition ChangesOf :: "SubscriptionContext \<Rightarrow> OwnedSample \<Rightarrow> ParamChange list" where
  "ChangesOf sc sample = (case fst (Sub_Decode sc sample) of None \<Rightarrow> [] | Some changes \<Rightarrow> changes)"

text \<open>What \<open>Subscribe\<close> checks before it declares, and what it declares: the subscription's context and
  the selector.\<close>

definition SubscribeRequest :: "ParamStore \<Rightarrow> bool \<Rightarrow> string \<Rightarrow> string \<Rightarrow> (SubscriptionContext \<times> string) Result" where
  "SubscribeRequest store has_callback scope pfx =
    (if \<not> pst_open store then Err InvalidArgument ''moved-from ParamStore''
     else if \<not> has_callback then Err InvalidArgument ''empty subscription callback''
     else (case ParseAndValidateScope scope of
       Inl e \<Rightarrow> Inl e
     | Inr s \<Rightarrow>
         if scope_kind s = ScopeSnap then Err InvalidArgument ''snapshot scope is read-only''
         else (case ValidateListPrefix pfx of
           Inl e \<Rightarrow> Inl e
         | Inr _ \<Rightarrow>
             (let config_prefix = cc_prefix (pst_config store) in
              Result_Ok (\<lparr>sc_prefix = config_prefix, sc_scope = s, sc_list_prefix = pfx\<rparr>,
                config_prefix @ ''/'' @ ScopePath s @ ''/**'')))))"

section \<open>Critical sections\<close>

text \<open>A work item is named by the native callback that made it.  \<open>ss_drainer\<close> holds the drainer's
  thread while there is one; \<open>ss_released\<close> says that closing cleared prefix, callback and transport.\<close>

type_synonym work_item = "nat \<times> OwnedSample"

record SubscriptionState =
  ss_queue :: "work_item list"
  ss_accepting :: bool
  ss_staging :: bool
  ss_close_started :: bool
  ss_close_finished :: bool
  ss_drainer :: "nat option"
  ss_native_in_flight :: nat
  ss_released :: bool

definition NewSubscription :: SubscriptionState where
  "NewSubscription = \<lparr>ss_queue = [], ss_accepting = True, ss_staging = True, ss_close_started = False,
     ss_close_finished = False, ss_drainer = None, ss_native_in_flight = 0, ss_released = False\<rparr>"

definition AdmitNative :: "SubscriptionState \<Rightarrow> SubscriptionState option" where
  "AdmitNative st = (if \<not> ss_accepting st then None
     else Some (st\<lparr>ss_native_in_flight := ss_native_in_flight st + 1\<rparr>))"

datatype EnqueueOutcome = Staged | BecameDrainer | CallerDrains | AwaitItem

definition EnqueueItem :: "nat \<Rightarrow> work_item \<Rightarrow> SubscriptionState \<Rightarrow> SubscriptionState \<times> EnqueueOutcome" where
  "EnqueueItem thread item st =
    (let st = st\<lparr>ss_queue := ss_queue st @ [item]\<rparr> in
     if ss_staging st then (st, Staged)
     else (case ss_drainer st of
       None \<Rightarrow> (st\<lparr>ss_drainer := Some thread\<rparr>, BecameDrainer)
     | Some d \<Rightarrow> (st, if d = thread then CallerDrains else AwaitItem)))"

definition TakeItem :: "SubscriptionState \<Rightarrow> SubscriptionState \<times> work_item option" where
  "TakeItem st = (case ss_queue st of
     [] \<Rightarrow> (st\<lparr>ss_drainer := None\<rparr>, None)
   | item # rest \<Rightarrow> (st\<lparr>ss_queue := rest\<rparr>, Some item))"

definition CompleteNative :: "SubscriptionState \<Rightarrow> SubscriptionState" where
  "CompleteNative st = st\<lparr>ss_native_in_flight := ss_native_in_flight st - 1\<rparr>"

definition ActivateSubscription :: "nat \<Rightarrow> SubscriptionState \<Rightarrow> SubscriptionState \<times> bool" where
  "ActivateSubscription thread st =
    (let st = st\<lparr>ss_staging := False\<rparr> in
     if ss_queue st \<noteq> [] then (st\<lparr>ss_drainer := Some thread\<rparr>, True) else (st, False))"

definition FailAdmission :: "SubscriptionState \<Rightarrow> SubscriptionState" where
  "FailAdmission st = st\<lparr>ss_accepting := False\<rparr>"

definition FailReady :: "SubscriptionState \<Rightarrow> bool" where
  "FailReady st \<longleftrightarrow> ss_native_in_flight st = 0"

definition FailClear :: "SubscriptionState \<Rightarrow> SubscriptionState" where
  "FailClear st = st\<lparr>ss_queue := [], ss_staging := False\<rparr>"

datatype CloseEntry = CloseDone | CloseAwait | CloseProceed

definition BeginCloseState :: "SubscriptionState \<Rightarrow> SubscriptionState \<times> CloseEntry" where
  "BeginCloseState st =
    (if ss_close_finished st then (st, CloseDone)
     else if ss_close_started st then (st, CloseAwait)
     else (st\<lparr>ss_close_started := True, ss_accepting := False, ss_staging := False\<rparr>, CloseProceed))"

definition CloseReady :: "SubscriptionState \<Rightarrow> bool" where
  "CloseReady st \<longleftrightarrow> ss_native_in_flight st = 0 \<and> ss_queue st = [] \<and> ss_drainer st = None"

definition FinishClose :: "SubscriptionState \<Rightarrow> SubscriptionState" where
  "FinishClose st = st\<lparr>ss_released := True, ss_close_finished := True\<rparr>"

section \<open>Interleavings\<close>

text \<open>Where a call is.  Call 0 is \<open>Subscribe\<close>; \<open>Delivering\<close> names the item being delivered and the
  changes still to hand over.\<close>

datatype sub_call =
    Subscribing
  | Failing
  | NativeAdmitted nat OwnedSample
  | Draining
  | Delivering nat "ParamChange list"
  | Awaiting
  | Leaving
  | ClosingSub
  | CloseWaiting

text \<open>The log of changes handed to the callback, the items enqueued so far, and the next call's name are
  history; \<open>sw_opened\<close> and \<open>sw_failed\<close> record what the declaration reported.\<close>

record SubWorld =
  sw_context :: SubscriptionContext
  sw_state :: SubscriptionState
  sw_calls :: "nat \<rightharpoonup> sub_call"
  sw_complete :: "nat set"
  sw_log :: "ParamChange list"
  sw_enqueued :: "work_item list"
  sw_next :: nat
  sw_opened :: bool
  sw_failed :: bool

definition NewSubWorld :: "SubscriptionContext \<Rightarrow> SubWorld" where
  "NewSubWorld sc = \<lparr>sw_context = sc, sw_state = NewSubscription, sw_calls = [0 \<mapsto> Subscribing], sw_complete = {},
     sw_log = [], sw_enqueued = [], sw_next = 1, sw_opened = False, sw_failed = False\<rparr>"

fun after_enqueue :: "EnqueueOutcome \<Rightarrow> sub_call" where
  "after_enqueue Staged = Leaving"
| "after_enqueue BecameDrainer = Draining"
| "after_enqueue CallerDrains = Leaving"
| "after_enqueue AwaitItem = Awaiting"

text \<open>What the outside does: a sample arrives on a thread, or the owner of the handle closes it.\<close>

inductive sub_env :: "SubWorld \<Rightarrow> SubWorld \<Rightarrow> bool" where
  arrive: "AdmitNative (sw_state w) = Some st \<Longrightarrow>
    sub_env w (w\<lparr>sw_state := st, sw_calls := (sw_calls w)(sw_next w \<mapsto> NativeAdmitted thread sample), sw_next := sw_next w + 1\<rparr>)"
| close: "sw_opened w \<Longrightarrow> sw_calls w 0 = None \<Longrightarrow> BeginCloseState (sw_state w) = (st, entry) \<Longrightarrow> entry \<noteq> CloseDone \<Longrightarrow>
    sub_env w (w\<lparr>sw_state := st,
      sw_calls := (sw_calls w)(sw_next w \<mapsto> (if entry = CloseProceed then ClosingSub else CloseWaiting)), sw_next := sw_next w + 1\<rparr>)"

text \<open>What the calls under way do.\<close>

inductive sub_run :: "SubWorld \<Rightarrow> SubWorld \<Rightarrow> bool" where
  enqueue: "sw_calls w c = Some (NativeAdmitted thread sample) \<Longrightarrow> EnqueueItem thread (c, sample) (sw_state w) = (st, out) \<Longrightarrow>
    sub_run w (w\<lparr>sw_state := st, sw_calls := (sw_calls w)(c \<mapsto> after_enqueue out), sw_enqueued := sw_enqueued w @ [(c, sample)]\<rparr>)"
| take: "sw_calls w c = Some Draining \<Longrightarrow> TakeItem (sw_state w) = (st, Some (i, sample)) \<Longrightarrow>
    sub_run w (w\<lparr>sw_state := st, sw_calls := (sw_calls w)(c \<mapsto> Delivering i (ChangesOf (sw_context w) sample))\<rparr>)"
| callback: "sw_calls w c = Some (Delivering i (change # changes)) \<Longrightarrow>
    sub_run w (w\<lparr>sw_calls := (sw_calls w)(c \<mapsto> Delivering i changes),
      sw_log := (if ss_released (sw_state w) then sw_log w else sw_log w @ [change])\<rparr>)"
| complete: "sw_calls w c = Some (Delivering i []) \<Longrightarrow>
    sub_run w (w\<lparr>sw_calls := (sw_calls w)(c \<mapsto> Draining), sw_complete := insert i (sw_complete w)\<rparr>)"
| drained: "sw_calls w c = Some Draining \<Longrightarrow> TakeItem (sw_state w) = (st, None) \<Longrightarrow>
    sub_run w (w\<lparr>sw_state := st, sw_calls := (sw_calls w)(c := (if c = 0 then None else Some Leaving))\<rparr>)"
| awake: "sw_calls w c = Some Awaiting \<Longrightarrow> c \<in> sw_complete w \<Longrightarrow>
    sub_run w (w\<lparr>sw_calls := (sw_calls w)(c \<mapsto> Leaving)\<rparr>)"
| leave: "sw_calls w c = Some Leaving \<Longrightarrow>
    sub_run w (w\<lparr>sw_state := CompleteNative (sw_state w), sw_calls := (sw_calls w)(c := None)\<rparr>)"
| declared: "sw_calls w c = Some Subscribing \<Longrightarrow> ActivateSubscription thread (sw_state w) = (st, drains) \<Longrightarrow>
    sub_run w (w\<lparr>sw_state := st, sw_calls := (sw_calls w)(c := (if drains then Some Draining else None)), sw_opened := True\<rparr>)"
| declare_failed: "sw_calls w c = Some Subscribing \<Longrightarrow>
    sub_run w (w\<lparr>sw_state := FailAdmission (sw_state w), sw_calls := (sw_calls w)(c \<mapsto> Failing)\<rparr>)"
| failed: "sw_calls w c = Some Failing \<Longrightarrow> FailReady (sw_state w) \<Longrightarrow>
    sub_run w (w\<lparr>sw_state := FailClear (sw_state w), sw_calls := (sw_calls w)(c := None), sw_failed := True\<rparr>)"
| finish: "sw_calls w c = Some ClosingSub \<Longrightarrow> CloseReady (sw_state w) \<Longrightarrow>
    sub_run w (w\<lparr>sw_state := FinishClose (sw_state w), sw_calls := (sw_calls w)(c := None)\<rparr>)"
| woken: "sw_calls w c = Some CloseWaiting \<Longrightarrow> ss_close_finished (sw_state w) \<Longrightarrow>
    sub_run w (w\<lparr>sw_calls := (sw_calls w)(c := None)\<rparr>)"

definition sub_step :: "SubWorld \<Rightarrow> SubWorld \<Rightarrow> bool" where
  "sub_step w w' \<longleftrightarrow> sub_env w w' \<or> sub_run w w'"


section \<open>Subscribing\<close>

text \<open>The sequential shell of \<open>Subscribe\<close>: the checks, the declaration through the transport and the
  subscription that starts from it.  \<open>declare\<close> is the transport's \<open>DeclareSubscriber\<close>.\<close>

definition ParamStore_Subscribe :: "(string \<Rightarrow> 'w \<Rightarrow> 'w \<times> unit Result) \<Rightarrow> ParamStore \<Rightarrow> bool \<Rightarrow> string \<Rightarrow> string \<Rightarrow> 'w \<Rightarrow>
    'w \<times> SubWorld Result" where
  "ParamStore_Subscribe declare_subscriber store has_callback scope pfx w =
    (case SubscribeRequest store has_callback scope pfx of
       Inl e \<Rightarrow> (w, Inl e)
     | Inr (sc, selector) \<Rightarrow>
         (case declare_subscriber selector w of
            (w, Inl e) \<Rightarrow> (w, Inl e)
          | (w, Inr _) \<Rightarrow> (w, Result_Ok (NewSubWorld sc))))"

lemma Subscribe_refused:
  assumes "\<not> pst_open store \<or> \<not> has_callback \<or> ParseScope scope = None \<or> has_scope_kind scope ScopeSnap \<or> \<not> IsOk (ValidateListPrefix pfx)"
  shows "\<exists>e. \<forall>declare_subscriber w. ParamStore_Subscribe declare_subscriber store has_callback scope pfx w = (w, Inl e)"
proof -
  have "\<exists>e. SubscribeRequest store has_callback scope pfx = Inl e"
    using assms by (cases "ParseScope scope"; cases "ValidateListPrefix pfx")
      (auto simp: SubscribeRequest_def ParseAndValidateScope_def has_scope_kind_def Result_Err_def Result_Ok_def IsOk_def)
  then show ?thesis by (auto simp: ParamStore_Subscribe_def)
qed

section \<open>Properties\<close>

text \<open>C23: a call that fails its validation never touches the transport.  Every call of a moved-from store; a put,
  delete, get or presence test whose scope, key or client prefix does not make a key; a put or batch into a snapshot
  scope or with a deadline that is not positive; a delete outside the base scope; a batch with an invalid scope or
  any invalid key; a list with an invalid scope or prefix or without a sink; and a subscription with an
  invalid or snapshot scope, an invalid prefix or without a callback: each returns one and the same error whatever
  the transport would do, with the world unchanged.  An empty batch is answered without a submission.\<close>

theorem param_store_rejects_locally:
  "(\<not> pst_open store \<or> bad_target store scope key \<or> has_scope_kind scope ScopeSnap \<or> wo_ack options \<and> wo_ack_timeout options \<le> 0 \<longrightarrow>
      (\<exists>e. \<forall>(ct :: 'w ClientTransport) words w. ParamStore_Put ct words store scope key v options w = Some (w, Inl e))) \<and>
   (\<not> pst_open store \<or> bad_target store scope key \<or> has_scope_kind scope ScopeSnap \<or> has_scope_kind scope ScopeSession \<longrightarrow>
      (\<exists>e. \<forall>(ct :: 'w ClientTransport) w. ParamStore_Delete ct store scope key w = (w, Inl e))) \<and>
   (\<not> pst_open store \<or> ParseScope scope = None \<or> \<not> IsValidPrefix (cc_prefix (pst_config store)) \<or> has_scope_kind scope ScopeSnap \<or>
      wo_ack options \<and> wo_ack_timeout options \<le> 0 \<or> (\<exists>entry\<in>set batch. \<not> IsValidKey (be_key entry)) \<longrightarrow>
      (\<exists>e. \<forall>(ct :: 'w ClientTransport) words w. ParamStore_PutBatch ct words store scope batch options w = Some (w, Inl e))) \<and>
   (\<exists>r. \<forall>(ct :: 'w ClientTransport) words w. ParamStore_PutBatch ct words store scope [] options w = Some (w, r)) \<and>
   (\<not> pst_open store \<or> bad_target store scope key \<longrightarrow>
      (\<exists>e. \<forall>(ct :: 'w ClientTransport) w. ParamStore_Get ct store scope key w = (w, Inl e)) \<and>
      (\<exists>e. \<forall>(ct :: 'w ClientTransport) w. ParamStore_Contains ct store scope key w = (w, Inl e))) \<and>
   (\<not> pst_open store \<or> sink = None \<or> ParseScope scope = None \<or> \<not> IsOk (ValidateListPrefix pfx) \<longrightarrow>
      (\<exists>e. \<forall>(ct :: 'w ClientTransport) x w. ParamStore_List ct store scope pfx sink x w = ((x, w), Inl e))) \<and>
   (\<not> pst_open store \<or> \<not> has_callback \<or> ParseScope scope = None \<or> has_scope_kind scope ScopeSnap \<or> \<not> IsOk (ValidateListPrefix pfx) \<longrightarrow>
      (\<exists>e. \<forall>declare_subscriber (w :: 'w). ParamStore_Subscribe declare_subscriber store has_callback scope pfx w = (w, Inl e)))"
proof -
  have get: "\<exists>e. \<forall>(ct :: 'w ClientTransport) w. ParamStore_Get ct store scope key w = (w, Inl e)"
    if "\<not> pst_open store \<or> bad_target store scope key" using Get_refused[where 'a = 'w, OF that] by blast
  show ?thesis
    by (intro conjI impI; rule Put_refused Delete_refused PutBatch_refused empty_batch get Contains_refused List_refused Subscribe_refused; assumption)
qed

text \<open>On a transport that answers nothing, a get with an invalid key, a put into a snapshot and a subscription without a
  callback are refused as on every other.\<close>

theorem param_store_rejects_locally_witness:
  "(let store = \<lparr>pst_open = True, pst_config = \<lparr>cc_prefix = ''app'', cc_query_timeout = 1000, cc_zenoh_config_json = None\<rparr>\<rparr> in
    (\<exists>e. ParamStore_Get SilentTransport store ''base'' ''a//b'' (0, []) = ((0, []), Inl e)) \<and>
    (\<exists>e. ParamStore_Put SilentTransport [] store ''snap/s1'' ''a//b'' (PV_Bool True) DefaultWriteOptions (0, []) = Some ((0, []), Inl e)) \<and>
    (\<exists>e. ParamStore_Subscribe (\<lambda>_ w. (w, Result_Ok ())) store False ''base'' '''' (0 :: int, []) = ((0, [] :: (string \<times> bytes \<times> string \<times> PutOptions) list), Inl e)))"
proof -
  let ?store = "\<lparr>pst_open = True, pst_config = \<lparr>cc_prefix = ''app'', cc_query_timeout = 1000, cc_zenoh_config_json = None\<rparr>\<rparr>"
  have "\<not> IsValidKey ''a//b''" by code_simp
  then have bad: "bad_target ?store scope ''a//b''" for scope by (simp add: bad_target_def)
  note all = param_store_rejects_locally[where 'w = "int \<times> (string \<times> bytes \<times> string \<times> PutOptions) list",
      of ?store _ "''a//b''" DefaultWriteOptions "PV_Bool True" "[]" None "''''" False]
  have "\<exists>e. ParamStore_Get SilentTransport ?store ''base'' ''a//b'' (0, []) = ((0, []), Inl e)"
    using all[of "''base''", THEN conjunct2, THEN conjunct2, THEN conjunct2, THEN conjunct2, THEN conjunct1] bad by blast
  moreover have "\<exists>e. ParamStore_Put SilentTransport [] ?store ''snap/s1'' ''a//b'' (PV_Bool True) DefaultWriteOptions (0, []) = Some ((0, []), Inl e)"
    using all[of "''snap/s1''", THEN conjunct1] bad by blast
  moreover have "\<exists>e. ParamStore_Subscribe (\<lambda>_ w. (w, Result_Ok ())) ?store False ''base'' '''' (0 :: int, []) = ((0, [] :: (string \<times> bytes \<times> string \<times> PutOptions) list), Inl e)"
    using all[of "''base''", THEN conjunct2, THEN conjunct2, THEN conjunct2, THEN conjunct2, THEN conjunct2, THEN conjunct2] by blast
  ultimately show ?thesis unfolding Let_def by blast
qed

end
