(* ===== verification/SubscriptionRuns.thy ===== *)
theory SubscriptionRuns
  imports ParamSubscription
begin

text \<open>
  Invariants of the interleaved subscription: the counters of the state count the calls under way, one
  call at most drains, and the changes handed to the callback follow the order of the queue.
\<close>

section \<open>Sums over the calls\<close>

definition call_sum :: "(nat \<Rightarrow> sub_call \<Rightarrow> nat) \<Rightarrow> (nat \<rightharpoonup> sub_call) \<Rightarrow> nat" where
  "call_sum f m = (\<Sum>c\<in>dom m. f c (the (m c)))"

lemma call_sum_remove:
  assumes "finite (dom m)" "m c = Some a"
  shows "call_sum f m = call_sum f (m(c := None)) + f c a"
proof -
  have "call_sum f m = f c (the (m c)) + (\<Sum>x\<in>dom m - {c}. f x (the (m x)))"
    unfolding call_sum_def using assms by (intro sum.remove) auto
  moreover have "(\<Sum>x\<in>dom m - {c}. f x (the (m x))) = call_sum f (m(c := None))"
    unfolding call_sum_def by (intro sum.cong) auto
  ultimately show ?thesis using assms(2) by simp
qed

lemma call_sum_set:
  assumes "finite (dom m)"
  shows "call_sum f (m(c \<mapsto> b)) = call_sum f (m(c := None)) + f c b"
  using call_sum_remove[of "m(c \<mapsto> b)" c b f] assms by simp

lemma call_sum_fresh: "m c = None \<Longrightarrow> m(c := None) = m"
  by auto

lemma call_sum_zero: "finite (dom m) \<Longrightarrow> call_sum f m = 0 \<Longrightarrow> m c = Some a \<Longrightarrow> f c a = 0"
  using call_sum_remove[of m c a f] by simp

lemma call_sum_unique:
  assumes "finite (dom m)" "call_sum f m \<le> 1" "m c = Some a" "m d = Some b" "f c a > 0" "f d b > 0"
  shows "c = d"
proof (rule ccontr)
  assume "c \<noteq> d"
  then have "(m(c := None)) d = Some b" using assms(4) by simp
  with call_sum_remove[of "m(c := None)" d b f] call_sum_remove[OF assms(1,3), of f] assms show False by auto
qed

section \<open>Invariant\<close>

text \<open>A native callback counts as in flight from its admission until it leaves; the drainer is the one
  call that takes and delivers items.\<close>

fun native :: "nat \<Rightarrow> sub_call \<Rightarrow> nat" where
  "native c (NativeAdmitted t s) = 1"
| "native c Draining = (if c = 0 then 0 else 1)"
| "native c (Delivering i chs) = (if c = 0 then 0 else 1)"
| "native c Awaiting = 1"
| "native c Leaving = 1"
| "native c pc = 0"

fun drains :: "nat \<Rightarrow> sub_call \<Rightarrow> nat" where
  "drains c Draining = 1"
| "drains c (Delivering i chs) = 1"
| "drains c pc = 0"

fun subscribes :: "nat \<Rightarrow> sub_call \<Rightarrow> nat" where
  "subscribes c Subscribing = 1"
| "subscribes c pc = 0"

fun fails :: "nat \<Rightarrow> sub_call \<Rightarrow> nat" where
  "fails c Failing = 1"
| "fails c pc = 0"

fun closes :: "nat \<Rightarrow> sub_call \<Rightarrow> nat" where
  "closes c ClosingSub = 1"
| "closes c pc = 0"

fun close_waits :: "nat \<Rightarrow> sub_call \<Rightarrow> nat" where
  "close_waits c CloseWaiting = 1"
| "close_waits c pc = 0"

text \<open>The names of the calls, and the calls the subscribing thread makes.\<close>

definition calls_inv :: "SubWorld \<Rightarrow> bool" where
  "calls_inv w \<longleftrightarrow> finite (dom (sw_calls w)) \<and> 0 < sw_next w \<and> (\<forall>c\<in>dom (sw_calls w). c < sw_next w) \<and>
     (\<forall>c pc. sw_calls w c = Some pc \<longrightarrow> (if c = 0 then subscribes c pc + fails c pc + drains c pc = 1 else subscribes c pc + fails c pc = 0))"

text \<open>The counters and flags of the state against the number of native, draining, subscribing, failing, closing
  and close-awaiting calls.\<close>

definition tally :: "SubscriptionState \<Rightarrow> bool \<Rightarrow> bool \<Rightarrow> nat \<Rightarrow> nat \<Rightarrow> nat \<Rightarrow> nat \<Rightarrow> nat \<Rightarrow> nat \<Rightarrow> bool" where
  "tally st opened failed nn nd ns nf nc nw \<longleftrightarrow>
     ss_native_in_flight st = nn \<and> nd = (if ss_drainer st = None then 0 else 1) \<and> ns + nf = (if ss_staging st then 1 else 0) \<and>
     nc = (if ss_close_started st \<and> \<not> ss_close_finished st then 1 else 0) \<and>
     (ss_staging st \<longrightarrow> ss_drainer st = None \<and> \<not> opened \<and> \<not> failed) \<and>
     (\<not> ss_staging st \<longrightarrow> opened \<or> failed) \<and>
     (\<not> ss_staging st \<and> ss_drainer st = None \<longrightarrow> ss_queue st = []) \<and>
     (nf > 0 \<longrightarrow> \<not> ss_accepting st) \<and>
     (failed \<longrightarrow> \<not> ss_accepting st \<and> \<not> opened \<and> CloseReady st) \<and>
     (ss_close_started st \<longrightarrow> \<not> ss_accepting st \<and> \<not> ss_staging st \<and> opened) \<and>
     (ss_close_finished st \<longleftrightarrow> ss_released st) \<and>
     (ss_close_finished st \<longrightarrow> ss_close_started st \<and> CloseReady st) \<and>
     (nw > 0 \<longrightarrow> ss_close_started st)"

definition tally_inv :: "SubWorld \<Rightarrow> bool" where
  "tally_inv w \<longleftrightarrow> (let m = sw_calls w in tally (sw_state w) (sw_opened w) (sw_failed w) (call_sum native m) (call_sum drains m)
     (call_sum subscribes m) (call_sum fails m) (call_sum closes m) (call_sum close_waits m))"

text \<open>The part of the history the drainer's position fixes.\<close>

definition drain_inv :: "SubWorld \<Rightarrow> work_item list \<Rightarrow> bool" where
  "drain_inv w past \<longleftrightarrow> (let q = ss_queue (sw_state w); ch = (\<lambda>(i, s). ChangesOf (sw_context w) s) in
     (\<forall>c i chs. sw_calls w c = Some (Delivering i chs) \<longrightarrow> (\<exists>s given. sw_enqueued w = past @ (i, s) # q \<and>
        ch (i, s) = given @ chs \<and> sw_log w = concat (map ch past) @ given)) \<and>
     ((\<forall>c i chs. sw_calls w c \<noteq> Some (Delivering i chs)) \<longrightarrow> sw_enqueued w = past @ q \<and> sw_log w = concat (map ch past)) \<and>
     sw_complete w = fst ` set past)"

definition items_inv :: "SubWorld \<Rightarrow> bool" where
  "items_inv w \<longleftrightarrow> distinct (map fst (sw_enqueued w)) \<and>
     (\<forall>i\<in>fst ` set (sw_enqueued w). i < sw_next w \<and> (\<forall>t s. sw_calls w i \<noteq> Some (NativeAdmitted t s))) \<and>
     (\<forall>c. sw_calls w c = Some Awaiting \<longrightarrow> c \<in> fst ` set (sw_enqueued w) \<and> \<not> ss_staging (sw_state w)) \<and>
     (ss_staging (sw_state w) \<or> sw_failed w \<longrightarrow> sw_log w = [] \<and> sw_complete w = {})"

lemmas section_defs = AdmitNative_def EnqueueItem_def TakeItem_def CompleteNative_def ActivateSubscription_def FailAdmission_def
  FailReady_def FailClear_def BeginCloseState_def CloseReady_def FinishClose_def Let_def

lemma calls_new: "calls_inv (NewSubWorld sc)"
  by (simp add: calls_inv_def NewSubWorld_def)

lemma tally_new: "tally_inv (NewSubWorld sc)"
  by (simp add: tally_inv_def tally_def NewSubWorld_def NewSubscription_def call_sum_def Let_def)

text \<open>A step changes one call: the next one to arrive, or one under way.\<close>

definition sub_call_ok :: "nat \<Rightarrow> sub_call \<Rightarrow> bool" where
  "sub_call_ok c pc \<longleftrightarrow> (if c = 0 then subscribes c pc + fails c pc + drains c pc = 1 else subscribes c pc + fails c pc = 0)"

lemma sub_call_ok_simps [simp]: "sub_call_ok c Draining" "sub_call_ok c (Delivering i chs)" "sub_call_ok c Subscribing \<longleftrightarrow> c = 0" "sub_call_ok c Failing \<longleftrightarrow> c = 0"
  "sub_call_ok c (NativeAdmitted t s) \<longleftrightarrow> c \<noteq> 0" "sub_call_ok c Awaiting \<longleftrightarrow> c \<noteq> 0" "sub_call_ok c Leaving \<longleftrightarrow> c \<noteq> 0" "sub_call_ok c ClosingSub \<longleftrightarrow> c \<noteq> 0"
  "sub_call_ok c CloseWaiting \<longleftrightarrow> c \<noteq> 0"
  by (simp_all add: sub_call_ok_def)

lemma calls_inv_ok: "calls_inv w \<longleftrightarrow> finite (dom (sw_calls w)) \<and> 0 < sw_next w \<and> (\<forall>c\<in>dom (sw_calls w). c < sw_next w) \<and>
    (\<forall>c pc. sw_calls w c = Some pc \<longrightarrow> sub_call_ok c pc)"
  by (simp add: calls_inv_def sub_call_ok_def)

lemma calls_update:
  assumes "calls_inv w" "sw_calls w' = (sw_calls w)(c := new)"
    and "c = sw_next w \<and> sw_next w' = sw_next w + 1 \<or> c \<in> dom (sw_calls w) \<and> sw_next w' = sw_next w"
    and "\<And>pc. new = Some pc \<Longrightarrow> sub_call_ok c pc"
  shows "calls_inv w'"
  using assms unfolding calls_inv_ok by (auto simp: less_Suc_eq)

lemma calls_env: "sub_env w w' \<Longrightarrow> calls_inv w \<Longrightarrow> calls_inv w'"
  by (erule sub_env.cases; rule calls_update, assumption, simp) (auto simp: calls_inv_ok split: if_splits)

text \<open>The sums before and after a step.\<close>

lemma tally_call:
  assumes "calls_inv w" "c = sw_next w \<and> old = None \<or> sw_calls w c = old" "sw_calls w' = (sw_calls w)(c := new)"
    and "\<And>r. tally (sw_state w) (sw_opened w) (sw_failed w) (r native + case_option 0 (native c) old) (r drains + case_option 0 (drains c) old)
        (r subscribes + case_option 0 (subscribes c) old) (r fails + case_option 0 (fails c) old) (r closes + case_option 0 (closes c) old)
        (r close_waits + case_option 0 (close_waits c) old) \<Longrightarrow>
      tally (sw_state w') (sw_opened w') (sw_failed w') (r native + case_option 0 (native c) new) (r drains + case_option 0 (drains c) new)
        (r subscribes + case_option 0 (subscribes c) new) (r fails + case_option 0 (fails c) new) (r closes + case_option 0 (closes c) new)
        (r close_waits + case_option 0 (close_waits c) new)"
    and "tally_inv w"
  shows "tally_inv w'"
proof -
  let ?m = "sw_calls w" and ?r = "\<lambda>f. call_sum f ((sw_calls w)(c := None))"
  have fin: "finite (dom ?m)" and old: "?m c = old" using assms(1,2) by (auto simp: calls_inv_ok)
  have before: "call_sum f ?m = ?r f + case_option 0 (f c) old" for f
  proof (cases old)
    case None
    then have "?m(c := None) = ?m" using old by auto
    with None show ?thesis by simp
  qed (use call_sum_remove[OF fin] old in simp)
  have after: "call_sum f (sw_calls w') = ?r f + case_option 0 (f c) new" for f
    by (cases new) (simp_all add: assms(3) call_sum_set[OF fin])
  from assms(4)[of ?r] assms(5) show ?thesis by (simp add: tally_inv_def Let_def before after)
qed


lemma tally_env:
  assumes "sub_env w w'" "calls_inv w" "tally_inv w"
  shows "tally_inv w'"
  using assms(1)
proof (cases rule: sub_env.cases)
  case (arrive st thread sample)
  have "tally (sw_state w) op fl n d s f k cw \<Longrightarrow> tally st op fl (Suc n) d s f k cw" for op fl n d s f k cw
    using arrive(2) by (cases "ss_accepting (sw_state w)"; cases "ss_staging (sw_state w)") (simp_all add: tally_def AdmitNative_def, auto)
  with arrive(1) show ?thesis by (intro tally_call[OF assms(2) _ _ _ assms(3), of "sw_next w" None w' "Some (NativeAdmitted thread sample)"]) simp_all
next
  case (close st entry)
  have "tally (sw_state w) op fl n d s f k cw \<Longrightarrow>
      tally st op fl n d s f (if entry = CloseProceed then Suc k else k) (if entry = CloseProceed then cw else Suc cw)"
    if "op" for op fl n d s f k cw using close(4,5) that by (auto simp: tally_def section_defs split: if_splits)
  with close(1,2) show ?thesis
    by (intro tally_call[OF assms(2) _ _ _ assms(3), of "sw_next w" None w' "Some (if entry = CloseProceed then ClosingSub else CloseWaiting)"]) auto
qed


lemma run_call:
  assumes "calls_inv w" "tally_inv w" "sw_calls w c = Some old" "sw_calls w' = (sw_calls w)(c := new)" "sw_next w' = sw_next w"
    and "\<And>pc. sub_call_ok c old \<Longrightarrow> new = Some pc \<Longrightarrow> sub_call_ok c pc"
    and "\<And>op fl n d s f k cw. sub_call_ok c old \<Longrightarrow> op = sw_opened w \<Longrightarrow> fl = sw_failed w \<Longrightarrow>
      tally (sw_state w) op fl (n + native c old) (d + drains c old) (s + subscribes c old) (f + fails c old) (k + closes c old) (cw + close_waits c old) \<Longrightarrow>
      tally (sw_state w') (sw_opened w') (sw_failed w') (n + case_option 0 (native c) new) (d + case_option 0 (drains c) new)
        (s + case_option 0 (subscribes c) new) (f + case_option 0 (fails c) new) (k + case_option 0 (closes c) new)
        (cw + case_option 0 (close_waits c) new)"
  shows "calls_inv w' \<and> tally_inv w'"
proof
  have ok: "sub_call_ok c old" using assms(1,3) by (simp add: calls_inv_ok)
  show "calls_inv w'" using calls_update[OF assms(1,4)] assms(3,5,6) ok by blast
  show "tally_inv w'" using tally_call[OF assms(1) _ assms(4) _ assms(2), of "Some old"] assms(3,7) ok by simp
qed

lemmas tally_defs = tally_def section_defs

lemma after_enqueue_ok: "c \<noteq> 0 \<Longrightarrow> sub_call_ok c (after_enqueue out)"
  by (cases out) simp_all

lemma tally_enqueue:
  assumes "tally st op fl (Suc n) d s f k cw" "EnqueueItem thread item st = (st', out)" "0 < c"
  shows "tally st' op fl (n + native c (after_enqueue out)) (d + drains c (after_enqueue out)) (s + subscribes c (after_enqueue out))
    (f + fails c (after_enqueue out)) (k + closes c (after_enqueue out)) (cw + close_waits c (after_enqueue out))"
proof -
  have busy: "\<not> ss_close_finished st" "\<not> fl" using assms(1) by (auto simp: tally_def CloseReady_def)
  show ?thesis
  proof (cases "ss_staging st")
    case True
    with assms busy have "st' = st\<lparr>ss_queue := ss_queue st @ [item]\<rparr>" "out = Staged" by (simp_all add: EnqueueItem_def Let_def)
    with True assms(1,3) busy show ?thesis by (simp add: tally_def) auto
  next
    case False
    show ?thesis
    proof (cases "ss_drainer st")
      case None
      with False assms have "st' = st\<lparr>ss_queue := ss_queue st @ [item], ss_drainer := Some thread\<rparr>" "out = BecameDrainer"
        by (simp_all add: EnqueueItem_def Let_def)
      with None False assms(1,3) busy show ?thesis by (simp add: tally_def)
    next
      case (Some t)
      with False assms have "st' = st\<lparr>ss_queue := ss_queue st @ [item]\<rparr>" "out = CallerDrains \<or> out = AwaitItem"
        by (auto simp: EnqueueItem_def Let_def split: if_splits)
      with Some False assms(1,3) busy show ?thesis by (auto simp: tally_def)
    qed
  qed
qed

lemma tally_queue:
  assumes "tally st op fl n (Suc d) s f k cw"
  shows "tally (st\<lparr>ss_queue := q\<rparr>) op fl n (Suc d) s f k cw"
proof -
  have "ss_drainer st \<noteq> None" using assms by (auto simp: tally_def split: if_splits)
  with assms show ?thesis by (simp add: tally_def CloseReady_def) auto
qed

lemma tally_drained:
  assumes "tally st op fl n (Suc d) s f k cw" "ss_queue st = []"
  shows "tally (st\<lparr>ss_drainer := None\<rparr>) op fl n d s f k cw"
proof -
  have "ss_drainer st \<noteq> None" "d = 0" using assms by (auto simp: tally_def split: if_splits)
  with assms show ?thesis by (simp add: tally_def CloseReady_def) auto
qed

lemma tally_leave:
  assumes "tally st op fl (Suc n) d s f k cw"
  shows "tally (CompleteNative st) op fl n d s f k cw"
proof -
  have "\<not> fl" "\<not> ss_close_finished st" using assms by (auto simp: tally_def CloseReady_def)
  with assms show ?thesis by (simp add: tally_def CloseReady_def CompleteNative_def)
qed

lemma tally_activate:
  assumes "tally st op fl n d (Suc s) f k cw" "ActivateSubscription thread st = (st', dr)"
  shows "tally st' True fl n (d + (if dr then 1 else 0)) s f k cw"
proof -
  have "ss_staging st" using assms(1) by (auto simp: tally_def split: if_splits)
  with assms show ?thesis by (auto simp: tally_def ActivateSubscription_def Let_def CloseReady_def split: if_splits)
qed

lemma run_inv:
  assumes "sub_run w w'" "calls_inv w" "tally_inv w"
  shows "calls_inv w' \<and> tally_inv w'"
  using assms(1)
proof (cases rule: sub_run.cases)
  case (enqueue c thread sample st out)
  then show ?thesis
    by (intro run_call[OF assms(2,3), of c "NativeAdmitted thread sample" w' "Some (after_enqueue out)"])
      (simp_all add: tally_enqueue, metis after_enqueue_ok not_gr0)
next
  case (take c st i sample)
  then have "st = (sw_state w)\<lparr>ss_queue := tl (ss_queue (sw_state w))\<rparr>" by (auto simp: TakeItem_def split: list.splits)
  with take(1,2) tally_queue show ?thesis
    by (intro run_call[OF assms(2,3), of c Draining w' "Some (Delivering i (ChangesOf (sw_context w) sample))"]) auto
next
  case (callback c i change changes)
  then show ?thesis
    by (intro run_call[OF assms(2,3), of c "Delivering i (change # changes)" w' "Some (Delivering i changes)"])
      auto
next
  case (complete c i)
  then show ?thesis
    by (intro run_call[OF assms(2,3), of c "Delivering i []" w' "Some Draining"])
      auto
next
  case (drained c st)
  then have "st = (sw_state w)\<lparr>ss_drainer := None\<rparr>" "ss_queue (sw_state w) = []" by (auto simp: TakeItem_def split: list.splits)
  with drained(1,2) tally_drained show ?thesis
    by (intro run_call[OF assms(2,3), of c Draining w' "if c = 0 then None else Some Leaving"]) (auto split: if_splits)
next
  case (awake c)
  then show ?thesis
    by (intro run_call[OF assms(2,3), of c Awaiting w' "Some Leaving"])
      auto
next
  case (leave c)
  then show ?thesis
    by (intro run_call[OF assms(2,3), of c Leaving w' None]) (simp_all add: tally_leave)
next
  case (declared c thread st drains)
  then show ?thesis
    by (intro run_call[OF assms(2,3), of c Subscribing w' "if drains then Some Draining else None"])
      (auto dest: tally_activate split: if_splits)
next
  case (declare_failed c)
  then show ?thesis
    by (intro run_call[OF assms(2,3), of c Subscribing w' "Some Failing"]) (auto simp: tally_defs split: if_splits)
next
  case (failed c)
  then show ?thesis
    by (intro run_call[OF assms(2,3), of c Failing w' None]) (auto simp: tally_defs split: if_splits)
next
  case (finish c)
  then show ?thesis
    by (intro run_call[OF assms(2,3), of c ClosingSub w' None]) (auto simp: tally_defs split: if_splits)
next
  case (woken c)
  then show ?thesis
    by (intro run_call[OF assms(2,3), of c CloseWaiting w' None]) (auto simp: tally_defs split: if_splits)
qed


section \<open>The history of the queue\<close>

lemma one_drainer:
  assumes "calls_inv w" "tally_inv w" "sw_calls w c = Some pc" "drains c pc = 1"
  shows "ss_drainer (sw_state w) \<noteq> None" "\<not> ss_released (sw_state w)" "\<not> ss_staging (sw_state w)" "\<not> sw_failed w"
    and "sw_calls w d = Some pc' \<Longrightarrow> drains d pc' = 1 \<Longrightarrow> d = c"
proof -
  have fin: "finite (dom (sw_calls w))" using assms(1) by (simp add: calls_inv_def)
  have "call_sum drains (sw_calls w) > 0" using call_sum_remove[OF fin assms(3), of drains] assms(4) by simp
  with assms(2) show "ss_drainer (sw_state w) \<noteq> None" "\<not> ss_released (sw_state w)" "\<not> ss_staging (sw_state w)" "\<not> sw_failed w"
    by (auto simp: tally_inv_def tally_def Let_def CloseReady_def split: if_splits)
  show "d = c" if "sw_calls w d = Some pc'" "drains d pc' = 1"
    using call_sum_unique[OF fin, of drains d pc' c pc] assms that by (auto simp: tally_inv_def tally_def Let_def split: if_splits)
qed

lemma drain_same:
  assumes "drain_inv w past" "\<And>d i chs. sw_calls w' d = Some (Delivering i chs) \<longleftrightarrow> sw_calls w d = Some (Delivering i chs)"
    and "sw_context w' = sw_context w" "sw_log w' = sw_log w" "sw_complete w' = sw_complete w"
    and "ss_queue (sw_state w') = ss_queue (sw_state w) @ added" "sw_enqueued w' = sw_enqueued w @ added"
  shows "drain_inv w' past"
proof -
  have "(\<forall>c i chs. sw_calls w' c \<noteq> Some (Delivering i chs)) \<longleftrightarrow> (\<forall>c i chs. sw_calls w c \<noteq> Some (Delivering i chs))" using assms(2) by simp
  with assms show ?thesis unfolding drain_inv_def Let_def by simp
qed


lemma items_new: "items_inv (NewSubWorld sc)" "drain_inv (NewSubWorld sc) []"
  by (auto simp: items_inv_def drain_inv_def NewSubWorld_def NewSubscription_def Let_def)

lemma items_env:
  assumes "sub_env w w'" "calls_inv w" "items_inv w"
  shows "items_inv w'" "drain_inv w past \<Longrightarrow> \<exists>past. drain_inv w' past"
proof -
  have fresh: "sw_calls w (sw_next w) = None" using assms(2) by (auto simp: calls_inv_def)
  have "\<forall>i\<in>fst ` set (sw_enqueued w). i \<noteq> sw_next w" using assms(3) by (auto simp: items_inv_def)
  with assms(1,3) show "items_inv w'"
    by (cases rule: sub_env.cases) (auto simp: items_inv_def section_defs less_Suc_eq split: if_splits)
  assume d: "drain_inv w past"
  have "(\<forall>d i chs. sw_calls w' d = Some (Delivering i chs) \<longleftrightarrow> sw_calls w d = Some (Delivering i chs)) \<and>
      sw_context w' = sw_context w \<and> sw_log w' = sw_log w \<and> sw_complete w' = sw_complete w \<and>
      ss_queue (sw_state w') = ss_queue (sw_state w) \<and> sw_enqueued w' = sw_enqueued w"
    using assms(1) by (cases rule: sub_env.cases) (auto simp: fresh section_defs split: if_splits)
  with drain_same[OF d, of w' "[]"] show "\<exists>past. drain_inv w' past" by auto
qed

lemma after_enqueue_not [simp]: "after_enqueue out \<noteq> NativeAdmitted t s" "after_enqueue out \<noteq> Delivering i chs"
  by (cases out; simp)+

lemma items_run:
  assumes "sub_run w w'" "calls_inv w" "tally_inv w" "items_inv w"
  shows "items_inv w'"
  using assms(1)
proof (cases rule: sub_run.cases)
  case (enqueue c thread sample st out)
  have c: "c \<notin> fst ` set (sw_enqueued w)" "c < sw_next w"
    using assms(2,4) enqueue(2) by (auto simp: items_inv_def calls_inv_def)
  have st: "ss_staging st = ss_staging (sw_state w)" using enqueue(3)
    by (auto simp: EnqueueItem_def Let_def split: if_splits option.splits)
  have ids: "fst ` set (sw_enqueued w') = insert c (fst ` set (sw_enqueued w))" using enqueue(1) by simp
  have calls: "sw_calls w' i = (if i = c then Some (after_enqueue out) else sw_calls w i)" for i using enqueue(1) by simp
  have "distinct (map fst (sw_enqueued w'))" using assms(4) c(1) enqueue(1) by (simp add: items_inv_def)
  moreover have "\<forall>i\<in>fst ` set (sw_enqueued w'). i < sw_next w' \<and> (\<forall>t s. sw_calls w' i \<noteq> Some (NativeAdmitted t s))"
    unfolding ids calls using assms(4) c(2) enqueue(1) by (simp add: items_inv_def)
  moreover have "after_enqueue out = Awaiting \<longrightarrow> \<not> ss_staging st" using enqueue(3)
    by (auto simp: EnqueueItem_def Let_def split: if_splits option.splits)
  then have "\<forall>i. sw_calls w' i = Some Awaiting \<longrightarrow> i \<in> fst ` set (sw_enqueued w') \<and> \<not> ss_staging (sw_state w')"
    unfolding ids calls using assms(4) st enqueue(1) by (simp add: items_inv_def)
  moreover have "ss_staging (sw_state w') \<or> sw_failed w' \<longrightarrow> sw_log w' = [] \<and> sw_complete w' = {}"
    using assms(4) st enqueue(1) by (simp add: items_inv_def)
  ultimately show ?thesis unfolding items_inv_def by blast
next
  case (callback c i change changes)
  with assms(4) one_drainer(3,4)[OF assms(2,3) callback(2)] show ?thesis by (auto simp: items_inv_def)
next
  case (complete c i)
  with assms(4) one_drainer(3,4)[OF assms(2,3) complete(2)] show ?thesis by (auto simp: items_inv_def)
next
  case (failed c)
  with assms(3,4) have "ss_staging (sw_state w)" 
    using call_sum_remove[of "sw_calls w" c Failing fails] assms(2) by (auto simp: tally_inv_def tally_def Let_def calls_inv_def split: if_splits)
  with failed assms(4) show ?thesis by (auto simp: items_inv_def section_defs)
qed (use assms(4) in \<open>auto simp: items_inv_def section_defs split: if_splits list.splits\<close>)


lemma drain_at:
  assumes "drain_inv w past" "sw_calls w c = Some (Delivering i chs)"
  obtains s given where "sw_enqueued w = past @ (i, s) # ss_queue (sw_state w)" "ChangesOf (sw_context w) s = given @ chs"
    "sw_log w = concat (map (\<lambda>(i, s). ChangesOf (sw_context w) s) past) @ given" "sw_complete w = fst ` set past"
  using assms unfolding drain_inv_def Let_def by fastforce

lemma drain_run:
  assumes "sub_run w w'" "calls_inv w" "tally_inv w" "items_inv w" "drain_inv w past" "\<not> sw_failed w'"
  shows "\<exists>past. drain_inv w' past"
  using assms(1)
proof (cases rule: sub_run.cases)
  case (enqueue c thread sample st out)
  have q: "ss_queue st = ss_queue (sw_state w) @ [(c, sample)]" using enqueue(3)
    by (auto simp: EnqueueItem_def Let_def split: if_splits option.splits)
  have "drain_inv w' past"
    by (rule drain_same[OF assms(5), where added = "[(c, sample)]"]) (use enqueue q in auto)
  then show ?thesis ..
next
  case (take c st i sample)
  have only: "sw_calls w d \<noteq> Some (Delivering j chs)" for d j chs
    using one_drainer(5)[OF assms(2,3) take(2), of d "Delivering j chs"] take(2) by auto
  with assms(5) have h: "sw_enqueued w = past @ ss_queue (sw_state w)" "sw_log w = concat (map (\<lambda>(i, s). ChangesOf (sw_context w) s) past)"
    "sw_complete w = fst ` set past" by (auto simp: drain_inv_def Let_def)
  from take(3) have q: "ss_queue (sw_state w) = (i, sample) # ss_queue st" by (auto simp: TakeItem_def split: list.splits)
  have "drain_inv w' past" using take(1) only h q by (auto simp: drain_inv_def Let_def)
  then show ?thesis ..
next
  case (callback c i change changes)
  have only: "d = c" if "sw_calls w d = Some (Delivering j chs)" for d j chs
    using one_drainer(5)[OF assms(2,3) callback(2), of d "Delivering j chs"] that by auto
  have rel: "\<not> ss_released (sw_state w)" using one_drainer(2)[OF assms(2,3) callback(2)] by simp
  from assms(5) callback(2) obtain s given where h: "sw_enqueued w = past @ (i, s) # ss_queue (sw_state w)"
    "ChangesOf (sw_context w) s = given @ change # changes" "sw_log w = concat (map (\<lambda>(i, s). ChangesOf (sw_context w) s) past) @ given"
    "sw_complete w = fst ` set past" by (elim drain_at) blast
  have "drain_inv w' past" using callback(1) h rel only by (auto simp: drain_inv_def Let_def)
  then show ?thesis ..
next
  case (complete c i)
  have only: "d = c" if "sw_calls w d = Some (Delivering j chs)" for d j chs
    using one_drainer(5)[OF assms(2,3) complete(2), of d "Delivering j chs"] that by auto
  from assms(5) complete(2) obtain s given where h: "sw_enqueued w = past @ (i, s) # ss_queue (sw_state w)"
    "ChangesOf (sw_context w) s = given @ []" "sw_log w = concat (map (\<lambda>(i, s). ChangesOf (sw_context w) s) past) @ given"
    "sw_complete w = fst ` set past" by (elim drain_at)
  have "drain_inv w' (past @ [(i, s)])" using complete(1) h only by (auto simp: drain_inv_def Let_def)
  then show ?thesis ..
next
  case (declared c thread st drains)
  then have "drain_inv w' past"
    by (intro drain_same[OF assms(5), where added = "[]"]) (auto simp: section_defs split: if_splits)
  then show ?thesis ..
next
  case (drained c st)
  then have "drain_inv w' past"
    by (intro drain_same[OF assms(5), where added = "[]"]) (auto simp: section_defs split: if_splits list.splits)
  then show ?thesis ..
next
  case (failed c)
  with assms(6) show ?thesis by simp
qed (rule exI[of _ past], rule drain_same[OF assms(5), where added = "[]"], auto simp: section_defs)+


section \<open>Every call returns\<close>

fun weight :: "SubscriptionContext \<Rightarrow> nat \<Rightarrow> sub_call \<Rightarrow> nat" where
  "weight sc c (NativeAdmitted t s) = length (ChangesOf sc s) + 6"
| "weight sc c Subscribing = 4"
| "weight sc c Draining = 2"
| "weight sc c (Delivering i chs) = length chs + 3"
| "weight sc c Awaiting = 2"
| "weight sc c pc = 1"

definition sub_measure :: "SubWorld \<Rightarrow> nat" where
  "sub_measure w = call_sum (weight (sw_context w)) (sw_calls w) +
     sum_list (map (\<lambda>(i, s). length (ChangesOf (sw_context w) s) + 3) (ss_queue (sw_state w)))"

lemma run_measure:
  assumes "calls_inv w" "sw_calls w c = Some old" "sw_calls w' = (sw_calls w)(c := new)" "sw_context w' = sw_context w"
  shows "\<exists>r. sub_measure w = r + weight (sw_context w) c old +
      sum_list (map (\<lambda>(i, s). length (ChangesOf (sw_context w) s) + 3) (ss_queue (sw_state w))) \<and>
    sub_measure w' = r + case_option 0 (weight (sw_context w) c) new +
      sum_list (map (\<lambda>(i, s). length (ChangesOf (sw_context w) s) + 3) (ss_queue (sw_state w')))"
proof -
  have fin: "finite (dom (sw_calls w))" using assms(1) by (simp add: calls_inv_def)
  show ?thesis
    using assms(2-4) call_sum_remove[OF fin assms(2), of "weight (sw_context w)"]
    by (intro exI[of _ "call_sum (weight (sw_context w)) ((sw_calls w)(c := None))"])
      (cases new; simp add: sub_measure_def call_sum_set[OF fin])
qed

lemma run_decreases:
  assumes "sub_run w w'" "calls_inv w"
  shows "sub_measure w' < sub_measure w"
  using assms(1)
proof (cases rule: sub_run.cases)
  case (enqueue c thread sample st out)
  have "ss_queue st = ss_queue (sw_state w) @ [(c, sample)]" using enqueue(3)
    by (auto simp: EnqueueItem_def Let_def split: if_splits option.splits)
  moreover have "weight (sw_context w) c (after_enqueue out) \<le> 2" by (cases out) simp_all
  ultimately show ?thesis using run_measure[OF assms(2) enqueue(2), of w'] enqueue(1) by fastforce
next
  case (take c st i sample)
  with run_measure[OF assms(2) take(2), of w'] show ?thesis by (fastforce simp: TakeItem_def split: list.splits)
next
  case (callback c i change changes)
  with run_measure[OF assms(2) callback(2), of w'] show ?thesis by fastforce
next
  case (complete c i)
  with run_measure[OF assms(2) complete(2), of w'] show ?thesis by fastforce
next
  case (drained c st)
  then have "ss_queue (sw_state w) = []" "ss_queue st = []" by (auto simp: TakeItem_def split: list.splits)
  with drained run_measure[OF assms(2) drained(2), of w' "if c = 0 then None else Some Leaving"] show ?thesis by auto
next
  case (awake c)
  with run_measure[OF assms(2) awake(2), of w'] show ?thesis by fastforce
next
  case (leave c)
  with run_measure[OF assms(2) leave(2), of w'] show ?thesis by (fastforce simp: CompleteNative_def)
next
  case (declared c thread st drains)
  then have "ss_queue st = ss_queue (sw_state w)" by (auto simp: ActivateSubscription_def Let_def split: if_splits)
  with declared run_measure[OF assms(2) declared(2), of w' "if drains then Some Draining else None"] show ?thesis by auto
next
  case (declare_failed c)
  with run_measure[OF assms(2) declare_failed(2), of w'] show ?thesis by (fastforce simp: FailAdmission_def)
next
  case (failed c)
  with run_measure[OF assms(2) failed(2), of w'] show ?thesis by (fastforce simp: FailClear_def)
next
  case (finish c)
  with run_measure[OF assms(2) finish(2), of w'] show ?thesis by (fastforce simp: FinishClose_def)
next
  case (woken c)
  with run_measure[OF assms(2) woken(2), of w'] show ?thesis by fastforce
qed

lemma call_sum_pos: "call_sum f m > 0 \<Longrightarrow> \<exists>c a. m c = Some a \<and> f c a > 0"
proof (rule ccontr)
  assume "call_sum f m > 0" "\<nexists>c a. m c = Some a \<and> f c a > 0"
  moreover from this(2) have "call_sum f m = 0" unfolding call_sum_def by (intro sum.neutral) auto
  ultimately show False by simp
qed


text \<open>The calls that can always move.\<close>

definition sub_moves :: "sub_call \<Rightarrow> bool" where
  "sub_moves pc \<longleftrightarrow> pc \<notin> {Failing, Awaiting, ClosingSub, CloseWaiting}"

lemma sub_moves_run:
  assumes "sw_calls w c = Some pc" "sub_moves pc"
  shows "\<exists>w'. sub_run w w'"
proof (cases pc)
  case (NativeAdmitted t s)
  obtain st out where "EnqueueItem t (c, s) (sw_state w) = (st, out)" by fastforce
  from sub_run.enqueue[OF _ this] assms NativeAdmitted show ?thesis by blast
next
  case Draining
  obtain st item where t: "TakeItem (sw_state w) = (st, item)" by fastforce
  show ?thesis
  proof (cases item)
    case None
    then show ?thesis using sub_run.drained[of w c st] t assms Draining by auto
  next
    case (Some p)
    then show ?thesis using sub_run.take[of w c st "fst p" "snd p"] t assms Draining by auto
  qed
next
  case (Delivering i chs)
  then show ?thesis using sub_run.callback[of w c i "hd chs" "tl chs"] sub_run.complete[of w c i] assms by (cases chs) auto
next
  case Subscribing
  obtain st b where "ActivateSubscription 0 (sw_state w) = (st, b)" by fastforce
  from sub_run.declared[OF _ this] assms Subscribing show ?thesis by blast
next
  case Leaving
  then show ?thesis using sub_run.leave[of w c] assms by auto
qed (use assms in \<open>simp_all add: sub_moves_def\<close>)

lemma awaiting_run:
  assumes "tally_inv w" "calls_inv w" "items_inv w" "\<not> sw_failed w \<Longrightarrow> \<exists>past. drain_inv w past" "sw_calls w c = Some Awaiting"
  shows "\<exists>w'. sub_run w w'"
proof -
  have fin: "finite (dom (sw_calls w))" using assms(2) by (simp add: calls_inv_def)
  have item: "c \<in> fst ` set (sw_enqueued w)" "\<not> ss_staging (sw_state w)" using assms(3,5) by (auto simp: items_inv_def)
  have "ss_native_in_flight (sw_state w) > 0"
    using assms(1) call_sum_remove[OF fin assms(5), of native] by (simp add: tally_inv_def tally_def Let_def)
  then have "\<not> sw_failed w" using assms(1) by (auto simp: tally_inv_def tally_def Let_def CloseReady_def)
  then obtain past where d: "drain_inv w past" using assms(4) by blast
  show ?thesis
  proof (cases "\<exists>e pc. sw_calls w e = Some pc \<and> drains e pc > 0")
    case True
    then obtain e pc where "sw_calls w e = Some pc" "drains e pc > 0" by blast
    moreover from this(2) have "sub_moves pc" by (cases pc) (simp_all add: sub_moves_def)
    ultimately show ?thesis using sub_moves_run by blast
  next
    case False
    then have "ss_drainer (sw_state w) = None" using assms(1) call_sum_pos[of drains "sw_calls w"]
      by (auto simp: tally_inv_def tally_def Let_def split: if_splits)
    then have q: "ss_queue (sw_state w) = []" using assms(1) item(2) by (simp add: tally_inv_def tally_def Let_def)
    have "sw_calls w e \<noteq> Some (Delivering i chs)" for e i chs using False by force
    with d q have "sw_enqueued w = past" "sw_complete w = fst ` set past" by (auto simp: drain_inv_def Let_def)
    with item(1) show ?thesis using sub_run.awake[OF assms(5)] by blast
  qed
qed


lemma native_run:
  assumes "tally_inv w" "calls_inv w" "items_inv w" "\<not> sw_failed w \<Longrightarrow> \<exists>past. drain_inv w past"
    and "ss_native_in_flight (sw_state w) > 0 \<or> ss_drainer (sw_state w) \<noteq> None"
  shows "\<exists>w'. sub_run w w'"
proof -
  have "call_sum native (sw_calls w) > 0 \<or> call_sum drains (sw_calls w) > 0"
    using assms(1,5) by (auto simp: tally_inv_def tally_def Let_def split: if_splits)
  then obtain c pc where c: "sw_calls w c = Some pc" "native c pc > 0 \<or> drains c pc > 0" using call_sum_pos by metis
  then have "sub_moves pc \<or> pc = Awaiting" by (cases pc) (auto simp: sub_moves_def)
  with c(1) show ?thesis using sub_moves_run awaiting_run[OF assms(1-4)] by blast
qed

lemma not_stuck:
  assumes "tally_inv w" "calls_inv w" "items_inv w" "\<not> sw_failed w \<Longrightarrow> \<exists>past. drain_inv w past" "sw_calls w c = Some pc"
  shows "\<exists>w'. sub_run w w'"
proof (cases "sub_moves pc \<or> pc = Awaiting \<or> ss_native_in_flight (sw_state w) > 0 \<or> ss_drainer (sw_state w) \<noteq> None")
  case True
  then show ?thesis using sub_moves_run[OF assms(5)] awaiting_run[OF assms(1-4)] native_run[OF assms(1-4)] assms(5) by blast
next
  case False
  have fin: "finite (dom (sw_calls w))" using assms(2) by (simp add: calls_inv_def)
  note t = assms(1)[unfolded tally_inv_def tally_def Let_def]
  have closing: "\<exists>w'. sub_run w w'" if "sw_calls w e = Some ClosingSub" for e
  proof -
    have "ss_close_started (sw_state w)" using t call_sum_remove[OF fin that, of closes] by (auto split: if_splits)
    then have "CloseReady (sw_state w)" using t False by (auto simp: CloseReady_def)
    then show ?thesis using sub_run.finish[OF that] by blast
  qed
  from False consider "pc = Failing" | "pc = ClosingSub" | "pc = CloseWaiting" by (auto simp: sub_moves_def)
  then show ?thesis
  proof cases
    case 1
    then show ?thesis using sub_run.failed assms(5) False by (auto simp: FailReady_def)
  next
    case 2
    then show ?thesis using closing assms(5) by blast
  next
    case 3
    then have "ss_close_started (sw_state w)" using t call_sum_remove[OF fin assms(5), of close_waits] by simp
    then have "ss_close_finished (sw_state w) \<or> call_sum closes (sw_calls w) > 0" using t by auto
    then show ?thesis
    proof
      assume "call_sum closes (sw_calls w) > 0"
      then obtain e pc where "sw_calls w e = Some pc" "closes e pc > 0" using call_sum_pos by blast
      then show ?thesis using closing by (cases pc) auto
    qed (use sub_run.woken assms(5) 3 in blast)
  qed
qed

section \<open>Reachable worlds\<close>

definition sub_inv :: "SubWorld \<Rightarrow> bool" where
  "sub_inv w \<longleftrightarrow> calls_inv w \<and> tally_inv w \<and> items_inv w \<and> (\<not> sw_failed w \<longrightarrow> (\<exists>past. drain_inv w past))"

lemma failed_kept: "sub_step w w' \<Longrightarrow> sw_failed w \<Longrightarrow> sw_failed w'"
  unfolding sub_step_def by (auto elim!: sub_env.cases sub_run.cases)

lemma sub_inv_step:
  assumes "sub_step w w'" "sub_inv w"
  shows "sub_inv w'"
proof -
  have i: "calls_inv w" "tally_inv w" "items_inv w" using assms(2) by (simp_all add: sub_inv_def)
  have d: "\<exists>past. drain_inv w past" if "\<not> sw_failed w'" using assms(2) failed_kept[OF assms(1)] that by (auto simp: sub_inv_def)
  from assms(1) consider "sub_env w w'" | "sub_run w w'" by (auto simp: sub_step_def)
  then show ?thesis
  proof cases
    case 1
    from calls_env[OF 1 i(1)] tally_env[OF 1 i(1,2)] items_env[OF 1 i(1,3)] d show ?thesis unfolding sub_inv_def by blast
  next
    case 2
    from run_inv[OF 2 i(1,2)] items_run[OF 2 i] drain_run[OF 2 i] d show ?thesis unfolding sub_inv_def by blast
  qed
qed

lemma sub_inv_reachable: "sub_step\<^sup>*\<^sup>* (NewSubWorld sc) w \<Longrightarrow> sub_inv w"
proof (induction rule: rtranclp_induct)
  case base
  show ?case unfolding sub_inv_def using calls_new tally_new items_new by blast
qed (rule sub_inv_step)

lemma context_kept: "sub_step\<^sup>*\<^sup>* w w' \<Longrightarrow> sw_context w' = sw_context w"
  by (induction rule: rtranclp_induct) (auto simp: sub_step_def elim!: sub_env.cases sub_run.cases)

lemma log_prefix:
  assumes "sub_inv w"
  shows "prefix (sw_log w) (concat (map (\<lambda>(i, s). ChangesOf (sw_context w) s) (sw_enqueued w)))"
proof (cases "sw_failed w")
  case True
  then show ?thesis using assms by (simp add: sub_inv_def items_inv_def)
next
  case False
  then obtain past where d: "drain_inv w past" using assms by (auto simp: sub_inv_def)
  show ?thesis
  proof (cases "\<exists>c i chs. sw_calls w c = Some (Delivering i chs)")
    case True
    then obtain c i chs where c: "sw_calls w c = Some (Delivering i chs)" by blast
    obtain s given where h: "sw_enqueued w = past @ (i, s) # ss_queue (sw_state w)" "ChangesOf (sw_context w) s = given @ chs"
      "sw_log w = concat (map (\<lambda>(i, s). ChangesOf (sw_context w) s) past) @ given" by (rule drain_at[OF d c])
    have "prefix given (ChangesOf (sw_context w) s @ tl)" for tl using h(2) by simp
    then show ?thesis unfolding h(1,3) by simp
  next
    case False
    then have h: "sw_enqueued w = past @ ss_queue (sw_state w)" "sw_log w = concat (map (\<lambda>(i, s). ChangesOf (sw_context w) s) past)"
      using d by (simp_all add: drain_inv_def Let_def)
    show ?thesis unfolding h by simp
  qed
qed

text \<open>A finished close leaves nothing to deliver, and nothing starts again.\<close>

lemma finished_state:
  assumes "sub_inv w" "ss_close_finished (sw_state w)"
  shows "sw_log w = concat (map (\<lambda>(i, s). ChangesOf (sw_context w) s) (sw_enqueued w))" "\<not> ss_accepting (sw_state w)"
    and "sw_calls w c = Some pc \<Longrightarrow> native c pc = 0 \<and> drains c pc = 0"
proof -
  note t = assms(1)[unfolded sub_inv_def tally_inv_def tally_def Let_def]
  have fin: "finite (dom (sw_calls w))" using t by (simp add: calls_inv_def)
  have z: "call_sum native (sw_calls w) = 0" "call_sum drains (sw_calls w) = 0" "ss_queue (sw_state w) = []" "\<not> sw_failed w"
    using t assms(2) by (auto simp: CloseReady_def)
  show "\<not> ss_accepting (sw_state w)" using t assms(2) by simp
  have none: "native c pc = 0 \<and> drains c pc = 0" if "sw_calls w c = Some pc" for c pc
    using call_sum_zero[OF fin z(1) that] call_sum_zero[OF fin z(2) that] by simp
  then show "sw_calls w c = Some pc \<Longrightarrow> native c pc = 0 \<and> drains c pc = 0" .
  obtain past where d: "drain_inv w past" using assms(1) z(4) by (auto simp: sub_inv_def)
  have "sw_calls w e \<noteq> Some (Delivering i chs)" for e i chs using none by force
  with d z(3) show "sw_log w = concat (map (\<lambda>(i, s). ChangesOf (sw_context w) s) (sw_enqueued w))"
    by (simp add: drain_inv_def Let_def)
qed


lemma finished_step:
  assumes "sub_step w w'" "sub_inv w" "ss_close_finished (sw_state w)"
  shows "ss_close_finished (sw_state w') \<and> sw_log w' = sw_log w"
proof -
  note none = finished_state(3)[OF assms(2,3)]
  from assms(1) consider "sub_env w w'" | "sub_run w w'" by (auto simp: sub_step_def)
  then show ?thesis
  proof cases
    case 1
    then show ?thesis
      by (cases rule: sub_env.cases) (use finished_state(2)[OF assms(2,3)] assms(3) in \<open>auto simp: section_defs\<close>)
  next
    case 2
    have idle: "sw_calls w c \<noteq> Some (NativeAdmitted t s)" "sw_calls w c \<noteq> Some (Delivering i chs)" for c t s i chs
      using none by force+
    from 2 show ?thesis
      by (cases rule: sub_run.cases) (use idle assms(3) in \<open>auto simp: section_defs split: if_splits list.splits\<close>)
  qed
qed

lemma finished_steps:
  assumes "sub_step\<^sup>*\<^sup>* w w'" "sub_inv w" "ss_close_finished (sw_state w)"
  shows "sw_log w' = sw_log w"
proof -
  from assms have "sub_inv w' \<and> ss_close_finished (sw_state w') \<and> sw_log w' = sw_log w"
    by (induction rule: rtranclp_induct) (auto dest: sub_inv_step finished_step)
  then show ?thesis by simp
qed

lemma run_steps: "sub_run\<^sup>*\<^sup>* w w' \<Longrightarrow> sub_inv w \<Longrightarrow> sub_inv w'"
  by (induction rule: rtranclp_induct) (auto simp: sub_step_def intro: sub_inv_step)

lemma runs_bounded:
  assumes "(sub_run ^^ n) w w'" "sub_inv w"
  shows "n + sub_measure w' \<le> sub_measure w"
  using assms
proof (induction n arbitrary: w')
  case (Suc n)
  then obtain v where v: "(sub_run ^^ n) w v" "sub_run v w'" by auto
  have "sub_inv v" using v(1) Suc.prems(2) run_steps relpowp_imp_rtranclp by metis
  then have "sub_measure w' < sub_measure v" using run_decreases[OF v(2)] by (simp add: sub_inv_def)
  with Suc.IH[OF v(1) Suc.prems(2)] show ?case by simp
qed simp

lemma all_return:
  assumes "sub_inv w"
  shows "\<exists>w'. sub_run\<^sup>*\<^sup>* w w' \<and> sw_calls w' = Map.empty"
  using assms
proof (induction "sub_measure w" arbitrary: w rule: less_induct)
  case less
  show ?case
  proof (cases "sw_calls w = Map.empty")
    case False
    then obtain c pc where "sw_calls w c = Some pc" by fastforce
    from not_stuck[OF _ _ _ _ this] less.prems obtain v where v: "sub_run w v" unfolding sub_inv_def by blast
    have "sub_inv v" using sub_inv_step[of w v] v less.prems by (simp add: sub_step_def)
    moreover have "sub_measure v < sub_measure w" using run_decreases[OF v] less.prems by (simp add: sub_inv_def)
    ultimately obtain w' where "sub_run\<^sup>*\<^sup>* v w'" "sw_calls w' = Map.empty" using less.hyps by blast
    with v show ?thesis by (meson converse_rtranclp_into_rtranclp)
  qed blast
qed

section \<open>Properties\<close>

text \<open>C11: a subscription delivers in order and at most once, and closing it is final.  However native callbacks, the
  subscribing call and closing calls interleave, the changes handed to the callback are always a prefix of
  the changes of the samples in the order they were queued.  A declaration that failed handed over nothing.
  Once a close finished, the changes of every queued sample have been handed over and none follows.  No
  interleaving blocks: as long as a call is under way one of them can move, the calls under way make
  boundedly many steps, and all of them can return.\<close>

theorem subscription_ordered_and_final:
  assumes "sub_step\<^sup>*\<^sup>* (NewSubWorld sc) w"
  shows "prefix (sw_log w) (concat (map (\<lambda>(i, s). ChangesOf sc s) (sw_enqueued w))) \<and>
    (sw_failed w \<longrightarrow> sw_log w = []) \<and>
    (ss_close_finished (sw_state w) \<longrightarrow> sw_log w = concat (map (\<lambda>(i, s). ChangesOf sc s) (sw_enqueued w)) \<and>
      (\<forall>w'. sub_step\<^sup>*\<^sup>* w w' \<longrightarrow> sw_log w' = sw_log w)) \<and>
    (sw_calls w \<noteq> Map.empty \<longrightarrow> (\<exists>w'. sub_run w w')) \<and>
    (\<forall>n w'. (sub_run ^^ n) w w' \<longrightarrow> n \<le> sub_measure w) \<and>
    (\<exists>w'. sub_run\<^sup>*\<^sup>* w w' \<and> sw_calls w' = Map.empty)"
proof -
  have inv: "sub_inv w" by (rule sub_inv_reachable[OF assms])
  have sc: "sw_context w = sc" using context_kept[OF assms] by (simp add: NewSubWorld_def)
  have "sw_failed w \<longrightarrow> sw_log w = []" using inv by (simp add: sub_inv_def items_inv_def)
  moreover have "\<exists>w'. sub_run w w'" if "sw_calls w \<noteq> Map.empty"
  proof -
    from that obtain c pc where "sw_calls w c = Some pc" by fastforce
    from not_stuck[OF _ _ _ _ this] inv show ?thesis unfolding sub_inv_def by blast
  qed
  moreover have "n \<le> sub_measure w" if "(sub_run ^^ n) w w'" for n w' using runs_bounded[OF that inv] by simp
  ultimately show ?thesis
    using log_prefix[OF inv] finished_state(1)[OF inv] finished_steps[OF _ inv] all_return[OF inv] unfolding sc by blast
qed


text \<open>A sample staged before the declaration returned, delivered by the subscribing call, then a close.\<close>

definition example_subscription :: SubscriptionContext where
  "example_subscription = \<lparr>sc_prefix = ''app'', sc_scope = \<lparr>scope_kind = ScopeBase, scope_sid = ''''\<rparr>, sc_list_prefix = ''''\<rparr>"

definition example_put_sample :: OwnedSample where
  "example_put_sample = \<lparr>os_key = ''app/base/x'', os_payload = Encode (PV_Bool True), os_encoding = kSitosV1, os_kind = SamplePut\<rparr>"

lemma example_changes: "ChangesOf example_subscription example_put_sample = [put_change ''x'' (PV_Bool True)]"
  by code_simp

theorem subscription_ordered_and_final_witness:
  "\<exists>w. sub_step\<^sup>*\<^sup>* (NewSubWorld example_subscription) w \<and> ss_close_finished (sw_state w) \<and> sw_log w = [put_change ''x'' (PV_Bool True)] \<and>
     (\<forall>w'. sub_step\<^sup>*\<^sup>* w w' \<longrightarrow> sw_log w' = [put_change ''x'' (PV_Bool True)])"
proof -
  define w0 where "w0 = NewSubWorld example_subscription"
  define w1 where "w1 = w0\<lparr>sw_state := (sw_state w0)\<lparr>ss_native_in_flight := ss_native_in_flight (sw_state w0) + 1\<rparr>,
    sw_calls := (sw_calls w0)(sw_next w0 \<mapsto> NativeAdmitted 7 example_put_sample), sw_next := sw_next w0 + 1\<rparr>"
  define w2 where "w2 = w1\<lparr>sw_state := fst (EnqueueItem 7 (1, example_put_sample) (sw_state w1)),
    sw_calls := (sw_calls w1)(1 \<mapsto> after_enqueue Staged), sw_enqueued := sw_enqueued w1 @ [(1, example_put_sample)]\<rparr>"
  define w3 where "w3 = w2\<lparr>sw_state := CompleteNative (sw_state w2), sw_calls := (sw_calls w2)(1 := None)\<rparr>"
  define w4 where "w4 = w3\<lparr>sw_state := fst (ActivateSubscription 0 (sw_state w3)), sw_calls := (sw_calls w3)(0 := (if True then Some Draining else None)), sw_opened := True\<rparr>"
  define w5 where "w5 = w4\<lparr>sw_state := fst (TakeItem (sw_state w4)), sw_calls := (sw_calls w4)(0 \<mapsto> Delivering 1 (ChangesOf (sw_context w4) example_put_sample))\<rparr>"
  define w6 where "w6 = w5\<lparr>sw_calls := (sw_calls w5)(0 \<mapsto> Delivering 1 []),
      sw_log := (if ss_released (sw_state w5) then sw_log w5 else sw_log w5 @ [put_change ''x'' (PV_Bool True)])\<rparr>"
  define w7 where "w7 = w6\<lparr>sw_calls := (sw_calls w6)(0 \<mapsto> Draining), sw_complete := insert 1 (sw_complete w6)\<rparr>"
  define w8 where "w8 = w7\<lparr>sw_state := fst (TakeItem (sw_state w7)), sw_calls := (sw_calls w7)(0 := (if (0 :: nat) = 0 then None else Some Leaving))\<rparr>"
  define w9 where "w9 = w8\<lparr>sw_state := fst (BeginCloseState (sw_state w8)),
    sw_calls := (sw_calls w8)(sw_next w8 \<mapsto> (if CloseProceed = CloseProceed then ClosingSub else CloseWaiting)), sw_next := sw_next w8 + 1\<rparr>"
  define w10 where "w10 = w9\<lparr>sw_state := FinishClose (sw_state w9), sw_calls := (sw_calls w9)(2 := None)\<rparr>"
  note base = w0_def NewSubWorld_def NewSubscription_def section_defs example_changes
  have "sub_step w0 w1" unfolding sub_step_def w1_def by (rule disjI1, rule sub_env.arrive) (simp add: base)
  moreover have "sub_step w1 w2" unfolding sub_step_def w2_def by (rule disjI2, rule sub_run.enqueue) (simp_all add: base w1_def)
  moreover have "sub_step w2 w3" unfolding sub_step_def w3_def by (rule disjI2, rule sub_run.leave) (simp add: base w1_def w2_def)
  moreover have "sub_step w3 w4" unfolding sub_step_def w4_def by (rule disjI2, rule sub_run.declared) (simp_all add: base w1_def w2_def w3_def)
  moreover have s4: "sw_state w4 = NewSubscription\<lparr>ss_staging := False, ss_drainer := Some 0, ss_queue := [(1, example_put_sample)]\<rparr>"
    and m4: "sw_next w4 = 2" "sw_opened w4" "sw_calls w4 0 = Some Draining" "sw_context w4 = example_subscription"
    by (simp_all add: base w1_def w2_def w3_def w4_def)
  moreover note s = s4 m4 NewSubscription_def TakeItem_def example_changes
  moreover have "sub_step w4 w5" unfolding sub_step_def w5_def by (rule disjI2, rule sub_run.take) (simp_all add: s)
  moreover have "sub_step w5 w6" unfolding sub_step_def w6_def by (rule disjI2, rule sub_run.callback) (simp add: s w5_def)
  moreover have "sub_step w6 w7" unfolding sub_step_def w7_def by (rule disjI2, rule sub_run.complete) (simp add: w6_def)
  moreover have "sub_step w7 w8" unfolding sub_step_def w8_def
    by (rule disjI2, rule sub_run.drained) (simp_all add: s w5_def w6_def w7_def)
  moreover have s8: "sw_state w8 = NewSubscription\<lparr>ss_staging := False\<rparr>" and m8: "sw_next w8 = 2" "sw_opened w8" "sw_calls w8 0 = None"
    by (simp_all add: s w5_def w6_def w7_def w8_def)
  moreover have "sub_step w8 w9" unfolding sub_step_def w9_def
    by (rule disjI1, rule sub_env.close) (simp_all add: s8 m8 NewSubscription_def section_defs)
  moreover have "sub_step w9 w10" unfolding sub_step_def w10_def
    by (rule disjI2, rule sub_run.finish) (simp_all add: w9_def s8 m8 NewSubscription_def section_defs)
  ultimately have reach: "sub_step\<^sup>*\<^sup>* (NewSubWorld example_subscription) w10" unfolding w0_def
    by (meson converse_rtranclp_into_rtranclp rtranclp.rtrancl_refl)
  have fin: "ss_close_finished (sw_state w10)" by (simp add: w10_def FinishClose_def)
  have enq: "concat (map (\<lambda>(i, s). ChangesOf example_subscription s) (sw_enqueued w10)) = [put_change ''x'' (PV_Bool True)]"
  proof -
    have "sw_enqueued w10 = sw_enqueued w9" "sw_enqueued w9 = sw_enqueued w8" "sw_enqueued w8 = sw_enqueued w7"
      "sw_enqueued w7 = sw_enqueued w6" "sw_enqueued w6 = sw_enqueued w5" "sw_enqueued w5 = sw_enqueued w4"
      "sw_enqueued w4 = sw_enqueued w3" "sw_enqueued w3 = sw_enqueued w2" "sw_enqueued w2 = [(1, example_put_sample)]"
      by (simp add: w10_def, simp add: w9_def, simp add: w8_def, simp add: w7_def, simp add: w6_def, simp add: w5_def,
          simp add: w4_def, simp add: w3_def, simp add: w2_def w1_def w0_def NewSubWorld_def)
    then show ?thesis by (simp add: example_changes)
  qed
  note closed = mp[OF conjunct1[OF conjunct2[OF conjunct2[OF subscription_ordered_and_final[OF reach]]]] fin, unfolded enq]
  show ?thesis
    using reach fin conjunct1[OF closed] conjunct2[OF closed, unfolded conjunct1[OF closed]] by blast
qed

end
