(* ===== verification/SubscriptionMirror.thy ===== *)
theory SubscriptionMirror
  imports ParamSubscription ClientNode
begin

text \<open>
  A base subscriber mirrors the store.  The node and the subscriber interpret the same transport
  samples by separate code; here the two are compared sample by sample, the subscriber's map
  against the values a client reads from the node.  They part on two kinds of samples, whose keys the
  comparison keeps track of: an unacknowledged put whose \<open>sitos.v1\<close> payload does not decode is
  stored by the node and skipped by the subscriber, and a put of an ordinary key with the batch
  encoding is stored as bytes by the node and skipped by the subscriber.
\<close>

section \<open>The node's effect on the base\<close>

lemma ParseKey_base: "ParseKey p (p @ ''/base/'' @ u) = ParseBaseTail u"
  by (simp add: ParseKey_def StripPrefix_def starts_with_def)

text \<open>What an unacknowledged sample under \<open>base/\<close> does to the stored entries.\<close>

definition base_effect :: "TransportSample \<Rightarrow> string \<Rightarrow> (string \<times> bytes) list \<Rightarrow> (string \<times> bytes) list" where
  "base_effect s u data = (case ParseBaseTail u of
     None \<Rightarrow> data
   | Some k \<Rightarrow>
       if pk_is_batch k then
         (if IsBatchPut s then
            (case DecodeBatch (ts_payload s) of
               None \<Rightarrow> data
             | Some es \<Rightarrow> if (\<forall>e\<in>set es. IsValidKey (be_key e)) then fold (\<lambda>e. map_insert (be_key e) (Encode (be_value e))) es data else data)
          else data)
       else if ts_kind s = SampleDelete then map_erase (pk_relative_key k) data
       else map_insert (pk_relative_key k) (if ts_encoding s = kSitosV1 then ts_payload s else Encode (PV_Bytes (ts_payload s))) data)"

lemma eng_put_in_memory: "eng_put InMemoryOps k v e = (\<lparr>ime_data = map_insert k v (ime_data e)\<rparr>, ETrue)"
  by (cases e) (simp add: InMemoryOps_def InMemoryEngine_Put_def reply_of_def)

lemma ApplyEntries_in_memory:
  "\<exists>pr r. ApplyEntries InMemoryOps i es st = (\<lparr>as_engine = \<lparr>ime_data = fold (\<lambda>(k, v). map_insert k v) es (ime_data (as_engine st))\<rparr>,
     as_progress = pr, as_diagnostics = as_diagnostics st\<rparr>, Returned r)"
proof (induction es arbitrary: i st)
  case Nil
  then show ?case by (cases st; cases "as_engine st") simp
next
  case (Cons e es)
  obtain k v where "e = (k, v)" by fastforce
  then show ?case
    using Cons.IH[of "Suc i" "st\<lparr>as_engine := \<lparr>ime_data = map_insert k v (ime_data (as_engine st))\<rparr>,
        as_progress := map_option (\<lambda>p. p\<lparr>ap_applied_count := of_nat (Suc i)\<rparr>)
          (map_option (\<lambda>p. p\<lparr>ap_current_index := of_nat i, ap_engine_invoked := True\<rparr>) (as_progress st))\<rparr>"]
    by (cases "as_engine st") (simp add: eng_put_in_memory Let_def)
qed

lemma base_tail: "ParseBaseTail u = Some k \<Longrightarrow> pk_kind k = KeyBase"
  by (auto simp: ParseBaseTail_def parsed_def split: if_splits)

lemma ApplyParameterSample_base:
  assumes "ParseKey (ns_prefix st) (ts_key s) = ParseBaseTail u"
  shows "\<exists>cx r. ApplyParameterSample InMemoryOps False s (st, NewContext) =
      ((st\<lparr>ns_engine := \<lparr>ime_data = base_effect s u (ime_data (ns_engine st))\<rparr>\<rparr>, cx), Returned r)"
proof (cases "ParseBaseTail u")
  case None
  with assms show ?thesis by (cases "ns_engine st") (simp add: ApplyParameterSample_def base_effect_def)
next
  case (Some k)
  note kind = base_tail[OF Some]
  show ?thesis
  proof (cases "pk_is_batch k")
    case True
    show ?thesis
    proof (cases "DecodeBatch (ts_payload s)")
      case None
      with assms Some True kind show ?thesis
        by (cases "ns_engine st") (simp add: ApplyParameterSample_def base_effect_def Let_def on_base_def ApplyBatch_def diagnose_def)
    next
      case (Some es)
      let ?st = "\<lparr>as_engine = ns_engine st, as_progress = cx_progress (set_kind OpBatch NewContext), as_diagnostics = cx_diagnostics (set_kind OpBatch NewContext)\<rparr>"
      from ApplyEntries_in_memory[of 0 "EncodedBatchEntries es" ?st]
      obtain pr r where "ApplyEntries InMemoryOps 0 (EncodedBatchEntries es) ?st =
        (\<lparr>as_engine = \<lparr>ime_data = fold (\<lambda>e. map_insert (be_key e) (Encode (be_value e))) es (ime_data (ns_engine st))\<rparr>,
          as_progress = pr, as_diagnostics = as_diagnostics ?st\<rparr>, Returned r)"
        by (auto simp: EncodedBatchEntries_def fold_map comp_def)
      with assms \<open>ParseBaseTail u = Some k\<close> True kind Some FirstInvalid_None[of 0 es] show ?thesis
        by (cases "ns_engine st"; cases "FirstInvalidEntry 0 es")
          (auto simp: ApplyParameterSample_def base_effect_def Let_def on_base_def ApplyBatch_def diagnose_def split: prod.splits)
    qed
  next
    case False
    with assms Some kind show ?thesis
      by (cases "ns_engine st") (simp add: ApplyParameterSample_def base_effect_def NewContext_def on_base_def ApplyWrite_def set_invoked_def
          InMemoryOps_def InMemoryEngine_Put_def InMemoryEngine_Delete_def reply_of_def Let_def diagnose_def)
  qed
qed

lemma dispatch_base:
  assumes "ns_accepting st" "ts_key s = ns_prefix st @ ''/base/'' @ u" "ts_ack s = AckAttachmentAbsent"
  shows "\<exists>ds. DispatchSample InMemoryOps False s st =
    st\<lparr>ns_engine := \<lparr>ime_data = base_effect s u (ime_data (ns_engine st))\<rparr>, ns_log := ds\<rparr>"
proof -
  define path where "path = ns_prefix st @ ''/base/'' @ u"
  have key: "ParseKey (ns_prefix st) path = ParseBaseTail u" unfolding path_def by (rule ParseKey_base)
  have marker: "MarkerRoute (ns_prefix st) path = None" unfolding path_def by (rule MarkerRoute_base)
  have nf: "\<not> starts_with path (ns_prefix st @ ''/meta/fence/buffer/'')" "\<not> starts_with path (ns_prefix st @ ''/meta/fence/cache/'')"
    by (auto simp: starts_with_def path_def)
  have k: "ts_key s = path" by (simp add: assms(2) path_def)
  have d: "DispatchSample InMemoryOps False s st = OnSample InMemoryOps False False s st"
    using base_tail by (auto simp: DispatchSample_def DispatchData_def k marker key split: option.split)
  let ?st = "st\<lparr>ns_in_flight := ns_in_flight st + 1\<rparr>"
  from ApplyParameterSample_base[of ?st s u] key k obtain cx r where a: "ApplyParameterSample InMemoryOps False s (?st, NewContext) =
      ((?st\<lparr>ns_engine := \<lparr>ime_data = base_effect s u (ime_data (ns_engine st))\<rparr>\<rparr>, cx), Returned r)" by auto
  have "OnSampleAdmitted InMemoryOps False False s ?st =
      ?st\<lparr>ns_engine := \<lparr>ime_data = base_effect s u (ime_data (ns_engine st))\<rparr>, ns_log := ns_log st @ cx_diagnostics cx\<rparr>"
    using a unfolding OnSampleAdmitted_def by (simp add: k marker nf assms(3) EmitDiagnostics_def)
  then have "OnSample InMemoryOps False False s st =
      st\<lparr>ns_engine := \<lparr>ime_data = base_effect s u (ime_data (ns_engine st))\<rparr>, ns_log := ns_log st @ cx_diagnostics cx\<rparr>"
    using assms(1) by (simp add: OnSample_def Enter_def Leave_def)
  then show ?thesis unfolding d by (rule exI)
qed


section \<open>The subscriber's map\<close>

text \<open>What a client reads from the stored entries, and what a subscriber keeps; both with the canonical NaN.\<close>

definition stored_value :: "(string \<times> bytes) list \<Rightarrow> string \<Rightarrow> ParamValue option" where
  "stored_value data key = map_option normalize (Option.bind (map_of data key) Decode)"

definition apply_change :: "ParamChange \<Rightarrow> (string \<Rightarrow> ParamValue option) \<Rightarrow> string \<Rightarrow> ParamValue option" where
  "apply_change change m = m(pch_key change := (case pch_kind change of
     ChangePut \<Rightarrow> map_option normalize (pch_value change) | ChangeDelete \<Rightarrow> None))"

definition owned :: "TransportSample \<Rightarrow> OwnedSample" where
  "owned s = \<lparr>os_key = ts_key s, os_payload = ts_payload s, os_encoding = ts_encoding s, os_kind = ts_kind s\<rparr>"

definition base_context :: "string \<Rightarrow> SubscriptionContext" where
  "base_context p = \<lparr>sc_prefix = p, sc_scope = \<lparr>scope_kind = ScopeBase, scope_sid = ''''\<rparr>, sc_list_prefix = ''''\<rparr>"

text \<open>A sample under \<open>base/\<close> without an acknowledgement token, well formed or not.\<close>

definition base_sample :: "string \<Rightarrow> TransportSample \<Rightarrow> bool" where
  "base_sample p s \<longleftrightarrow> ts_ack s = AckAttachmentAbsent \<and> (\<exists>u. ts_key s = p @ ''/base/'' @ u)"

text \<open>The puts the two read differently, by the key they write: a put of an ordinary key with the batch schema, which the node stores
  as bytes, and one with the value schema whose payload does not decode, which the node stores as it is.  A subscriber drops both.\<close>

definition divergent :: "string \<Rightarrow> TransportSample \<Rightarrow> string set" where
  "divergent p s = {u. ts_key s = p @ ''/base/'' @ u \<and> IsValidKey u \<and> ts_kind s = SamplePut \<and>
     (ts_encoding s = kSitosV1Batch \<or> ts_encoding s = kSitosV1 \<and> Decode (ts_payload s) = None)}"

text \<open>The keys whose last write was such a put.\<close>

fun diverged :: "string \<Rightarrow> TransportSample list \<Rightarrow> string set \<Rightarrow> string set" where
  "diverged p [] D = D"
| "diverged p (s # samples) D = diverged p samples (D - pch_key ` set (ChangesOf (base_context p) (owned s)) \<union> divergent p s)"

lemma stored_insert: "stored_value (map_insert k v data) = (stored_value data)(k := map_option normalize (Decode v))"
  by (auto simp: stored_value_def fun_eq_iff)

lemma stored_encode: "stored_value (map_insert k (Encode v) data) = (stored_value data)(k := Some (normalize v))"
  by (simp add: stored_insert)

lemma stored_erase: "map_wf data \<Longrightarrow> stored_value (map_erase k data) = (stored_value data)(k := None)"
  by (auto simp: stored_value_def map_of_map_erase fun_eq_iff)

lemma batch_changes:
  "InListPrefix sc = (\<lambda>_. True) \<Longrightarrow> fst (Sub_BatchChanges sc es changes) =
     (if \<forall>e\<in>set es. IsValidKey (be_key e) then changes @ map (\<lambda>e. put_change (be_key e) (be_value e)) es else [])"
  by (induction es arbitrary: changes) auto

lemma stored_batch: "stored_value (fold (\<lambda>e. map_insert (be_key e) (Encode (be_value e))) es data) =
    fold apply_change (map (\<lambda>e. put_change (be_key e) (be_value e)) es) (stored_value data)"
  by (induction es arbitrary: data) (simp_all add: stored_encode put_change_def apply_change_def)

lemma base_prefix: "InListPrefix (base_context p) = (\<lambda>_. True)"
  by (simp add: InListPrefix_def base_context_def fun_eq_iff)

lemma base_effect_wf: "map_wf data \<Longrightarrow> map_wf (base_effect s u data)"
proof -
  have "map_wf data \<Longrightarrow> map_wf (fold (\<lambda>e. map_insert (be_key e) (Encode (be_value e))) es data)" for es
    by (induction es arbitrary: data) (simp_all add: map_insert_wf)
  then show "map_wf data \<Longrightarrow> map_wf (base_effect s u data)"
    by (auto simp: base_effect_def map_insert_wf map_erase_wf split: option.split)
qed

lemma mirror_agreed:
  assumes "divergent p s = {}" "ts_key s = p @ ''/base/'' @ u" "map_wf data"
  shows "stored_value (base_effect s u data) = fold apply_change (ChangesOf (base_context p) (owned s)) (stored_value data)"
proof (cases "ParseBaseTail u")
  case None
  then show ?thesis by (simp add: base_effect_def ChangesOf_def Sub_Decode_def base_context_def owned_def assms(2))
next
  case (Some k)
  have dec: "ParseKey (sc_prefix (base_context p)) (os_key (owned s)) = Some k"
    using Some assms(2) ParseKey_base by (simp add: base_context_def owned_def)
  have scope: "MatchesScope k (sc_scope (base_context p))" using base_tail[OF Some] by (simp add: MatchesScope_def base_context_def)
  note sel = owned_def base_prefix
  show ?thesis
  proof (cases "u = kBatchSegment")
    case True
    then have k: "pk_is_batch k" using Some by (auto simp: ParseBaseTail_def parsed_def)
    show ?thesis
    proof (cases "IsBatchPut s")
      case False
      then show ?thesis using Some k dec scope
        by (auto simp: base_effect_def ChangesOf_def Sub_Decode_def Sub_DecodeDelete_def Sub_DecodeBatchSample_def sel IsBatchPut_def
            intro: SampleKind.exhaust)
    next
      case True
      then show ?thesis using Some k dec scope batch_changes[OF base_prefix, of p _ "[]"]
        by (auto simp: base_effect_def ChangesOf_def Sub_Decode_def Sub_DecodeBatchSample_def sel IsBatchPut_def stored_batch
            split: option.split)
    qed
  next
    case False
    then have k: "\<not> pk_is_batch k" "pk_relative_key k = u" using Some by (auto simp: ParseBaseTail_def parsed_def split: if_splits)
    have "IsValidKey u" using Some False by (auto simp: ParseBaseTail_def parsed_def split: if_splits)
    then have enc: "ts_kind s = SamplePut \<Longrightarrow> ts_encoding s \<noteq> kSitosV1Batch \<and> (ts_encoding s = kSitosV1 \<longrightarrow> Decode (ts_payload s) \<noteq> None)"
      using assms(1,2) by (auto simp: divergent_def)
    show ?thesis
    proof (cases "ts_kind s")
      case SamplePut
      then show ?thesis using Some k dec scope enc
        by (auto simp: base_effect_def ChangesOf_def Sub_Decode_def Sub_DecodeOrdinary_def sel stored_insert put_change_def apply_change_def split: option.split)
    next
      case SampleDelete
      then show ?thesis using Some k dec scope
        by (simp add: base_effect_def ChangesOf_def Sub_Decode_def Sub_DecodeDelete_def sel stored_erase[OF assms(3)] apply_change_def)
    qed
  qed
qed

text \<open>What a divergent put does: the node's value of the key becomes the payload as bytes, or unreadable; the subscriber learns nothing.\<close>

lemma divergent_effect:
  assumes "u \<in> divergent p s"
  shows "ChangesOf (base_context p) (owned s) = []"
    "base_effect s u data = map_insert u (if ts_encoding s = kSitosV1 then ts_payload s else Encode (PV_Bytes (ts_payload s))) data"
proof -
  from assms have s: "ts_key s = p @ ''/base/'' @ u" "IsValidKey u" "ts_kind s = SamplePut"
    "ts_encoding s = kSitosV1Batch \<or> ts_encoding s = kSitosV1 \<and> Decode (ts_payload s) = None" by (auto simp: divergent_def)
  have tail: "ParseBaseTail u = Some (parsed KeyBase '''' '''' u False None)"
    using route_key_parses[OF base_value[OF s(2)], of p] ParseKey_base[of p u] by simp
  have dec: "ParseKey (sc_prefix (base_context p)) (os_key (owned s)) = Some (parsed KeyBase '''' '''' u False None)"
    using tail s(1) ParseKey_base by (simp add: base_context_def owned_def)
  have scope: "MatchesScope (parsed KeyBase '''' '''' u False None) (sc_scope (base_context p))" by (simp add: MatchesScope_def base_context_def)
  show "ChangesOf (base_context p) (owned s) = []"
    using dec scope s(3,4) by (auto simp: ChangesOf_def Sub_Decode_def Sub_DecodeOrdinary_def owned_def base_prefix)
  show "base_effect s u data = map_insert u (if ts_encoding s = kSitosV1 then ts_payload s else Encode (PV_Bytes (ts_payload s))) data"
    using tail s(3) by (simp add: base_effect_def)
qed

lemma apply_changes_at: "k \<in> pch_key ` set cs \<or> m k = m' k \<Longrightarrow> fold apply_change cs m k = fold apply_change cs m' k"
proof (induction cs arbitrary: m m')
  case (Cons c cs)
  then show ?case by (cases "k = pch_key c") (auto simp: apply_change_def)
qed simp

lemma mirror_sample:
  assumes "ts_key s = p @ ''/base/'' @ u" "map_wf data" "\<forall>k. k \<notin> D \<longrightarrow> stored_value data k = m k"
  shows "\<forall>k. k \<notin> D - pch_key ` set (ChangesOf (base_context p) (owned s)) \<union> divergent p s \<longrightarrow>
    stored_value (base_effect s u data) k = fold apply_change (ChangesOf (base_context p) (owned s)) m k"
proof (cases "divergent p s = {}")
  case True
  with mirror_agreed[OF True assms(1,2)] assms(3) show ?thesis by (auto intro!: apply_changes_at)
next
  case False
  then have u: "u \<in> divergent p s" using assms(1) by (auto simp: divergent_def)
  with divergent_effect[OF u] assms(3) show ?thesis by (auto simp: stored_insert)
qed

lemma mirror_run:
  assumes "ns_accepting st" "map_wf (ime_data (ns_engine st))" "\<forall>s\<in>set samples. base_sample (ns_prefix st) s"
    "\<forall>k. k \<notin> D \<longrightarrow> stored_value (ime_data (ns_engine st)) k = m k"
  shows "\<forall>k. k \<notin> diverged (ns_prefix st) samples D \<longrightarrow>
    stored_value (ime_data (ns_engine (fold (DispatchSample InMemoryOps False) samples st))) k =
    fold apply_change (concat (map (\<lambda>s. ChangesOf (base_context (ns_prefix st)) (owned s)) samples)) m k"
  using assms
proof (induction samples arbitrary: st D m)
  case (Cons s samples)
  then obtain u where u: "ts_key s = ns_prefix st @ ''/base/'' @ u" "ts_ack s = AckAttachmentAbsent" by (auto simp: base_sample_def)
  from dispatch_base[OF Cons.prems(1) u] obtain ds where d: "DispatchSample InMemoryOps False s st =
    st\<lparr>ns_engine := \<lparr>ime_data = base_effect s u (ime_data (ns_engine st))\<rparr>, ns_log := ds\<rparr>" by blast
  let ?st = "st\<lparr>ns_engine := \<lparr>ime_data = base_effect s u (ime_data (ns_engine st))\<rparr>, ns_log := ds\<rparr>"
  have st: "ns_accepting ?st" "map_wf (ime_data (ns_engine ?st))" "\<forall>s\<in>set samples. base_sample (ns_prefix ?st) s"
    using Cons.prems(1-3) base_effect_wf by auto
  have "\<forall>k. k \<notin> D - pch_key ` set (ChangesOf (base_context (ns_prefix st)) (owned s)) \<union> divergent (ns_prefix st) s \<longrightarrow>
      stored_value (ime_data (ns_engine ?st)) k = fold apply_change (ChangesOf (base_context (ns_prefix st)) (owned s)) m k"
    using mirror_sample[OF u(1) Cons.prems(2,4)] by simp
  from Cons.IH[OF st this] d show ?case by simp
qed simp

section \<open>Properties\<close>

text \<open>C12: what a subscriber of the base scope mirrors.  While a running node receives samples under \<open>base/\<close> that carry no acknowledgement
  token, puts of ordinary keys, deletes and batches, valid or not, in any order, a subscriber that applies the changes of
  the same samples to a copy of the store holds, up to the canonical NaN, the value a client reads from the node for every key whose last write
  was not a divergent put; and a divergent put, one of an ordinary key with the batch schema or with the value schema and a payload
  that does not decode, is invisible to the subscriber while the node now holds the payload as bytes, respectively as a value no
  client can read.\<close>

theorem subscriber_mirrors_store:
  assumes "ns_accepting st" "map_wf (ime_data (ns_engine st))" "\<forall>s\<in>set samples. base_sample (ns_prefix st) s"
  shows "(\<forall>k. k \<notin> diverged (ns_prefix st) samples {} \<longrightarrow>
      stored_value (ime_data (ns_engine (fold (DispatchSample InMemoryOps False) samples st))) k =
      fold apply_change (concat (map (\<lambda>s. ChangesOf (base_context (ns_prefix st)) (owned s)) samples)) (stored_value (ime_data (ns_engine st))) k) \<and>
    (\<forall>s k. base_sample (ns_prefix st) s \<and> k \<in> divergent (ns_prefix st) s \<longrightarrow>
      ChangesOf (base_context (ns_prefix st)) (owned s) = [] \<and>
      stored_value (ime_data (ns_engine (DispatchSample InMemoryOps False s st))) =
        (stored_value (ime_data (ns_engine st)))(k := (if ts_encoding s = kSitosV1 then None else Some (PV_Bytes (ts_payload s)))))"
proof (intro conjI)
  show "\<forall>k. k \<notin> diverged (ns_prefix st) samples {} \<longrightarrow>
      stored_value (ime_data (ns_engine (fold (DispatchSample InMemoryOps False) samples st))) k =
      fold apply_change (concat (map (\<lambda>s. ChangesOf (base_context (ns_prefix st)) (owned s)) samples)) (stored_value (ime_data (ns_engine st))) k"
    by (rule mirror_run[OF assms]) simp
  show "\<forall>s k. base_sample (ns_prefix st) s \<and> k \<in> divergent (ns_prefix st) s \<longrightarrow>
      ChangesOf (base_context (ns_prefix st)) (owned s) = [] \<and>
      stored_value (ime_data (ns_engine (DispatchSample InMemoryOps False s st))) =
        (stored_value (ime_data (ns_engine st)))(k := (if ts_encoding s = kSitosV1 then None else Some (PV_Bytes (ts_payload s))))"
  proof (intro allI impI; elim conjE)
    fix s k assume s: "base_sample (ns_prefix st) s" "k \<in> divergent (ns_prefix st) s"
    then have key: "ts_key s = ns_prefix st @ ''/base/'' @ k" "ts_ack s = AckAttachmentAbsent"
      "ts_encoding s = kSitosV1 \<longrightarrow> Decode (ts_payload s) = None" by (auto simp: base_sample_def divergent_def kSitosV1_def kSitosV1Batch_def)
    from dispatch_base[OF assms(1) key(1,2)] divergent_effect[OF s(2)] key(3)
    show "ChangesOf (base_context (ns_prefix st)) (owned s) = [] \<and>
      stored_value (ime_data (ns_engine (DispatchSample InMemoryOps False s st))) =
        (stored_value (ime_data (ns_engine st)))(k := (if ts_encoding s = kSitosV1 then None else Some (PV_Bytes (ts_payload s))))"
      by (auto simp: stored_insert normalize_def)
  qed
qed


text \<open>A put, a put of another key with the batch schema, and a delete.\<close>

definition mirror_example_sample :: "SampleKind \<Rightarrow> string \<Rightarrow> bytes \<Rightarrow> string \<Rightarrow> TransportSample" where
  "mirror_example_sample kind key payload encoding = \<lparr>ts_key = ''app/base/'' @ key, ts_payload = payload, ts_encoding = encoding,
     ts_ack = AckAttachmentAbsent, ts_kind = kind, ts_fence_lane = FenceLaneAbsent\<rparr>"

definition example_samples :: "TransportSample list" where
  "example_samples = [mirror_example_sample SamplePut ''x'' (Encode (PV_Bool True)) kSitosV1,
     mirror_example_sample SamplePut ''y'' [7] kSitosV1Batch, mirror_example_sample SampleDelete ''z'' [] '''']"

theorem subscriber_mirrors_store_witness:
  "stored_value (ime_data (ns_engine (fold (DispatchSample InMemoryOps False) example_samples example_node))) ''x'' = Some (PV_Bool True) \<and>
   diverged ''app'' example_samples {} = {''y''} \<and>
   stored_value (ime_data (ns_engine (DispatchSample InMemoryOps False (mirror_example_sample SamplePut ''y'' [7] kSitosV1Batch) example_node))) ''y'' =
     Some (PV_Bytes [7])"
proof -
  have st: "ns_accepting example_node" "map_wf (ime_data (ns_engine example_node))" "ns_prefix example_node = ''app''"
    "stored_value (ime_data (ns_engine example_node)) = Map.empty"
    by (simp_all add: example_node_def empty_engine_def stored_value_def fun_eq_iff)
  have keys: "IsValidKey ''x''" "IsValidKey ''y''" "IsValidKey ''z''" by code_simp+
  have base: "\<forall>s\<in>set example_samples. base_sample (ns_prefix example_node) s"
    by (simp add: example_samples_def mirror_example_sample_def base_sample_def st(3))
  have dv: "divergent ''app'' (mirror_example_sample SamplePut ''x'' (Encode (PV_Bool True)) kSitosV1) = {}"
    "divergent ''app'' (mirror_example_sample SamplePut ''y'' [7] kSitosV1Batch) = {''y''}"
    "divergent ''app'' (mirror_example_sample SampleDelete ''z'' [] '''') = {}"
    using keys by (auto simp: divergent_def mirror_example_sample_def kSitosV1_def kSitosV1Batch_def)
  have ch: "ChangesOf (base_context ''app'') (owned (mirror_example_sample SamplePut ''x'' (Encode (PV_Bool True)) kSitosV1)) = [put_change ''x'' (PV_Bool True)]"
    "ChangesOf (base_context ''app'') (owned (mirror_example_sample SamplePut ''y'' [7] kSitosV1Batch)) = []"
    "ChangesOf (base_context ''app'') (owned (mirror_example_sample SampleDelete ''z'' [] '''')) = [\<lparr>pch_kind = ChangeDelete, pch_key = ''z'', pch_value = None\<rparr>]"
    by code_simp+
  have d: "diverged ''app'' example_samples {} = {''y''}" by (simp add: example_samples_def dv ch put_change_def)
  note mirror = subscriber_mirrors_store[OF st(1,2) base, unfolded st(3,4)]
  have "stored_value (ime_data (ns_engine (fold (DispatchSample InMemoryOps False) example_samples example_node))) ''x'' = Some (PV_Bool True)"
    using mirror[THEN conjunct1, THEN spec[of _ "''x''"]] unfolding d
    by (simp add: example_samples_def ch apply_change_def put_change_def normalize_def)
  moreover have "stored_value (ime_data (ns_engine (DispatchSample InMemoryOps False (mirror_example_sample SamplePut ''y'' [7] kSitosV1Batch) example_node))) ''y'' =
     Some (PV_Bytes [7])"
    using mirror[THEN conjunct2, THEN spec[of _ "mirror_example_sample SamplePut ''y'' [7] kSitosV1Batch"], THEN spec[of _ "''y''"]] base
    unfolding dv st(3) by (simp add: example_samples_def mirror_example_sample_def kSitosV1_def kSitosV1Batch_def)
  ultimately show ?thesis using d by blast
qed

end
