(* ===== verification/ParamCache.thy ===== *)
theory ParamCache
  imports FenceSubmission ParamStore NodeSample
begin

text \<open>
  The session cache, \<open>src/param_cache.cpp\<close>: the state one attachment keeps, what a transport sample does
  to it, the attach sequence, reads, writes and the local-delivery fence.  The world is the
  cache's fence publisher with the cache state, its recovery record and what lies behind the transport; a
  transport call may change all of it, which is how callbacks and other threads act.  The
  recovery worker's protocol is the subject of \<open>CacheRecovery\<close>.
\<close>

section \<open>State\<close>

datatype CachePhase = PhaseBuffering | PhaseLive | PhaseStopping

datatype Mutation = MutationPut string ParamValue | MutationDelete string

text \<open>The value maps are unordered in the code; no operation depends on their order.\<close>

record CacheState =
  ca_prefix :: string
  ca_sid :: string
  ca_phase :: CachePhase
  ca_accepting :: bool
  ca_in_flight :: nat
  ca_baseline :: "ParamValue ordered_map"
  ca_effective :: "ParamValue ordered_map"
  ca_buffered :: "Mutation list"
  ca_buffered_observations :: "FenceLaneObservation list"
  ca_attach_generation :: FenceUuid
  ca_publisher_uuid :: FenceUuid
  ca_receiver :: FenceLaneState
  ca_dispatcher :: "Coordinator option"
  ca_registration :: nat
  ca_has_publisher :: bool

definition NewCacheState :: "string \<Rightarrow> string \<Rightarrow> FenceUuid \<Rightarrow> FenceUuid \<Rightarrow> Coordinator option \<Rightarrow> nat \<Rightarrow> bool \<Rightarrow> CacheState" where
  "NewCacheState pfx sid generation uuid dispatcher registration has_publisher =
    \<lparr>ca_prefix = pfx, ca_sid = sid, ca_phase = PhaseBuffering, ca_accepting = True, ca_in_flight = 0, ca_baseline = [],
     ca_effective = [], ca_buffered = [], ca_buffered_observations = [], ca_attach_generation = generation,
     ca_publisher_uuid = uuid, ca_receiver = FenceLaneInit, ca_dispatcher = map_option (Register registration) dispatcher,
     ca_registration = registration, ca_has_publisher = has_publisher\<rparr>"

record Recovery =
  rv_live :: "string list"
  rv_bound :: string
  rv_events :: u64
  rv_armed :: bool
  rv_stop :: bool
  rv_stale :: bool

definition NewRecovery :: Recovery where
  "NewRecovery = \<lparr>rv_live = [], rv_bound = '''', rv_events = 0, rv_armed = False, rv_stop = False, rv_stale = True\<rparr>"

type_synonym 'w cache_world = "(CacheState \<times> Recovery \<times> 'w) pub_world"

definition updc :: "(CacheState \<Rightarrow> CacheState) \<Rightarrow> 'w cache_world \<Rightarrow> 'w cache_world" where
  "updc f = (\<lambda>(p, st, w). (p, f st, w))"

definition updr :: "(Recovery \<Rightarrow> Recovery) \<Rightarrow> 'w cache_world \<Rightarrow> 'w cache_world" where
  "updr f = (\<lambda>(p, st, rv, w). (p, st, f rv, w))"

abbreviation cstate :: "'w cache_world \<Rightarrow> CacheState" where
  "cstate v \<equiv> fst (snd v)"

abbreviation recovery_of :: "'w cache_world \<Rightarrow> Recovery" where
  "recovery_of v \<equiv> fst (snd (snd v))"

section \<open>Leases\<close>

definition EnterState :: "CacheState \<Rightarrow> CacheState option" where
  "EnterState st = (if \<not> ca_accepting st then None else Some (st\<lparr>ca_in_flight := ca_in_flight st + 1\<rparr>))"

definition LeaveState :: "CacheState \<Rightarrow> CacheState" where
  "LeaveState st = st\<lparr>ca_in_flight := ca_in_flight st - 1\<rparr>"

definition CloseGate :: "CacheState \<Rightarrow> CacheState" where
  "CloseGate st = st\<lparr>ca_accepting := False\<rparr>"

definition ValidateCacheKey :: "string \<Rightarrow> unit Result" where
  "ValidateCacheKey key = (if \<not> IsValidKey key then Err InvalidKey ''invalid cache key'' else Result_Ok ())"

definition MatchesPrefix :: "string \<Rightarrow> string \<Rightarrow> bool" where
  "MatchesPrefix key pfx \<longleftrightarrow> pfx = '''' \<or> starts_with key pfx"

section \<open>Samples\<close>

definition IsExpected :: "ParsedKey \<Rightarrow> CacheState \<Rightarrow> bool \<Rightarrow> bool" where
  "IsExpected k st batch_allowed \<longleftrightarrow> pk_is_batch k = batch_allowed \<and> pk_kind k = KeySession \<and> pk_sid k = ca_sid st"

definition Cache_DecodeOrdinary :: "CacheState \<Rightarrow> TransportSample \<Rightarrow> Mutation option" where
  "Cache_DecodeOrdinary st sample = (case ParseKey (ca_prefix st) (ts_key sample) of
     None \<Rightarrow> None
   | Some k \<Rightarrow>
       if \<not> IsExpected k st False then None
       else if ts_kind sample = SampleDelete then Some (MutationDelete (pk_relative_key k))
       else if ts_encoding sample = kSitosV1Batch then None
       else if ts_encoding sample = kSitosV1 then map_option (MutationPut (pk_relative_key k)) (Decode (ts_payload sample))
       else Some (MutationPut (pk_relative_key k) (PV_Bytes (ts_payload sample))))"

definition BatchMutations :: "BatchEntry list \<Rightarrow> Mutation list option" where
  "BatchMutations es = those (map (\<lambda>e. if \<not> IsValidKey (be_key e) then None else Some (MutationPut (be_key e) (be_value e))) es)"

definition Cache_DecodeSample :: "CacheState \<Rightarrow> TransportSample \<Rightarrow> Mutation list option" where
  "Cache_DecodeSample st sample =
    (if ts_kind sample = SampleDelete then map_option (\<lambda>m. [m]) (Cache_DecodeOrdinary st sample)
     else (case ParseKey (ca_prefix st) (ts_key sample) of
       None \<Rightarrow> None
     | Some k \<Rightarrow>
         if pk_is_batch k then
           (if \<not> IsExpected k st True \<or> ts_encoding sample \<noteq> kSitosV1Batch then None
            else Option.bind (DecodeBatch (ts_payload sample)) BatchMutations)
         else map_option (\<lambda>m. [m]) (Cache_DecodeOrdinary st sample)))"

fun ApplyMutation :: "Mutation \<Rightarrow> CacheState \<Rightarrow> CacheState" where
  "ApplyMutation (MutationPut key v) st = st\<lparr>ca_effective := map_insert key v (ca_effective st)\<rparr>"
| "ApplyMutation (MutationDelete key) st = st\<lparr>ca_effective := (case map_of (ca_baseline st) key of
     Some v \<Rightarrow> map_insert key v (ca_effective st)
   | None \<Rightarrow> map_erase key (ca_effective st))\<rparr>"

definition ApplyMutations :: "Mutation list \<Rightarrow> CacheState \<Rightarrow> CacheState" where
  "ApplyMutations ms st = fold ApplyMutation ms st"

datatype CacheFenceAdmission = FenceBypass | FenceApply | FenceReject

definition Cache_AdmitFenceObservation :: "FenceLaneObservation \<Rightarrow> bool \<Rightarrow> CacheState \<Rightarrow> CacheState \<times> CacheFenceAdmission" where
  "Cache_AdmitFenceObservation observation processing_valid st = (case observation of
     FenceLaneObserved lane \<Rightarrow>
       if flm_publisher_uuid lane \<noteq> ca_publisher_uuid st then (st, FenceBypass)
       else (case Lane_Admit (flm_sequence lane) (ca_receiver st) of
         (r, False) \<Rightarrow> (st\<lparr>ca_receiver := r\<rparr>, FenceReject)
       | (r, True) \<Rightarrow>
           if \<not> processing_valid then (st\<lparr>ca_receiver := Lane_Complete (flm_sequence lane) (Some Error) r\<rparr>, FenceReject)
           else (st\<lparr>ca_receiver := r\<rparr>, FenceApply))
   | FenceLaneMalformed publisher sequence \<Rightarrow>
       if publisher = Some (ca_publisher_uuid st) then (st\<lparr>ca_receiver := Lane_RecordMalformed sequence (ca_receiver st)\<rparr>, FenceReject)
       else (st, FenceBypass)
   | FenceLaneAbsent \<Rightarrow> (st, FenceBypass))"

definition Cache_CompleteFenceObservation :: "FenceLaneObservation \<Rightarrow> CacheState \<Rightarrow> CacheState" where
  "Cache_CompleteFenceObservation observation st = (case observation of
     FenceLaneObserved lane \<Rightarrow>
       if flm_publisher_uuid lane = ca_publisher_uuid st
       then st\<lparr>ca_receiver := Lane_Complete (flm_sequence lane) None (ca_receiver st)\<rparr> else st
   | _ \<Rightarrow> st)"

text \<open>The data part of \<open>OnSample\<close>, under the sequence lock; the flag says that application started.\<close>

definition Cache_OnData :: "TransportSample \<Rightarrow> bool \<Rightarrow> CacheState \<Rightarrow> CacheState \<times> bool" where
  "Cache_OnData sample preadmitted st = (case Cache_DecodeSample st sample of
     None \<Rightarrow>
       if preadmitted then
         (case ts_fence_lane sample of
            FenceLaneObserved lane \<Rightarrow>
              if flm_publisher_uuid lane = ca_publisher_uuid st
              then (st\<lparr>ca_receiver := Lane_Complete (flm_sequence lane) (Some Error) (ca_receiver st)\<rparr>, False) else (st, False)
          | _ \<Rightarrow> (st, False))
       else (fst (Cache_AdmitFenceObservation (ts_fence_lane sample) False st), False)
   | Some ms \<Rightarrow>
       (case (if preadmitted then (st, FenceApply) else Cache_AdmitFenceObservation (ts_fence_lane sample) True st) of (st, admission) \<Rightarrow>
          if admission = FenceReject then (st, False)
          else if ca_phase st = PhaseBuffering then
            (st\<lparr>ca_buffered := ca_buffered st @ ms,
               ca_buffered_observations := ca_buffered_observations st @ (if admission = FenceApply then [ts_fence_lane sample] else [])\<rparr>, ms \<noteq> [])
          else if ca_phase st \<noteq> PhaseLive then (st, False)
          else (let st = ApplyMutations ms st in
            (if admission = FenceApply then Cache_CompleteFenceObservation (ts_fence_lane sample) st else st, ms \<noteq> []))))"

text \<open>A cache marker: the verdict of the lane completes the pending fence of the publisher.\<close>

definition Cache_OnMarker :: "(CacheState \<times> Recovery \<times> 'w) FenceTransport \<Rightarrow> FenceMarkerRoute \<Rightarrow> bool \<Rightarrow> TransportSample \<Rightarrow>
    'w cache_world \<Rightarrow> 'w cache_world" where
  "Cache_OnMarker ft route valid_route sample v =
    (let st = cstate v in
     if fmr_sid route \<noteq> ca_sid st \<or> fmr_receiver_generation route \<noteq> ca_attach_generation st \<or> fmr_publisher_uuid route \<noteq> ca_publisher_uuid st
     then v
     else (case ts_ack sample of
       AckObserved token \<Rightarrow>
         if \<not> ca_has_publisher st then v
         else
           (let result =
              (if valid_route \<and> ts_kind sample = SamplePut \<and> ts_encoding sample = kSitosV1Fence \<and> IsOk (DecodeFenceMarker (ts_payload sample))
               then Lane_Evaluate (fmr_through_sequence route) Applied (ca_receiver st)
               else (FenceOkResult (fmr_through_sequence route) Applied)\<lparr>ar_status := Error\<rparr>) in
            fst (CompleteFence ft token result v))
     | _ \<Rightarrow> v))"

definition Cache_OnSample :: "(CacheState \<times> Recovery \<times> 'w) FenceTransport \<Rightarrow> TransportSample \<Rightarrow> bool \<Rightarrow> 'w cache_world \<Rightarrow>
    'w cache_world \<times> bool" where
  "Cache_OnSample ft sample preadmitted v = (case EnterState (cstate v) of
     None \<Rightarrow> (v, False)
   | Some st \<Rightarrow>
       (let v = updc (\<lambda>_. st) v in
        case (case MarkerRoute (ca_prefix st) (ts_key sample) of
            Some (route, valid_route) \<Rightarrow>
              if fmr_target route = MarkerCache then (Cache_OnMarker ft route valid_route sample v, False)
              else (case Cache_OnData sample preadmitted (cstate v) of (st, started) \<Rightarrow> (updc (\<lambda>_. st) v, started))
          | None \<Rightarrow> (case Cache_OnData sample preadmitted (cstate v) of (st, started) \<Rightarrow> (updc (\<lambda>_. st) v, started)))
        of (v, started) \<Rightarrow> (updc LeaveState v, started)))"


section \<open>Dispatch\<close>

definition own_lane :: "TransportSample \<Rightarrow> CacheState \<Rightarrow> bool" where
  "own_lane sample st = (case ts_fence_lane sample of
     FenceLaneObserved lane \<Rightarrow> flm_publisher_uuid lane = ca_publisher_uuid st
   | FenceLaneMalformed publisher _ \<Rightarrow> publisher = Some (ca_publisher_uuid st)
   | FenceLaneAbsent \<Rightarrow> False)"

definition own_session :: "TransportSample \<Rightarrow> CacheState \<Rightarrow> bool" where
  "own_session sample st = (case ParseKey (ca_prefix st) (ts_key sample) of
     None \<Rightarrow> False
   | Some k \<Rightarrow> pk_kind k = KeySession \<and> pk_sid k = ca_sid st)"

text \<open>What the exception boundary of the callback leaves in the lane for covered data that was dropped.\<close>

definition RetainCacheDispatchFailure :: "TransportSample \<Rightarrow> bool \<Rightarrow> bool \<Rightarrow> CacheState \<Rightarrow> CacheState" where
  "RetainCacheDispatchFailure sample callback_admitted application_started st =
    (if \<not> own_lane sample st \<or> \<not> own_session sample st then st
     else (case ts_fence_lane sample of
       FenceLaneObserved lane \<Rightarrow>
         (let q = flm_sequence lane in
          st\<lparr>ca_receiver :=
            (if application_started then Lane_RecordRejected q OutcomeUnknown q ''covered buffer application failed'' (ca_receiver st)
             else if callback_admitted then Lane_RecordRejected q Error q ''covered buffer application failed'' (ca_receiver st)
             else Lane_RecordOverflow q (ca_receiver st))\<rparr>)
     | FenceLaneMalformed _ sequence \<Rightarrow> st\<lparr>ca_receiver := Lane_RecordMalformed sequence (ca_receiver st)\<rparr>
     | FenceLaneAbsent \<Rightarrow> st))"

definition CacheMarker :: "TransportSample \<Rightarrow> CacheState \<Rightarrow> bool" where
  "CacheMarker sample st = (case MarkerRoute (ca_prefix st) (ts_key sample) of
     Some (route, _) \<Rightarrow> fmr_target route = MarkerCache \<and> fmr_sid route = ca_sid st \<and> fmr_receiver_generation route = ca_attach_generation st
   | None \<Rightarrow> False)"

definition CachePrepare :: "bool \<Rightarrow> TransportSample \<Rightarrow> CacheState \<Rightarrow> CacheState \<times> bool" where
  "CachePrepare marker sample st =
    (if marker then (st, True)
     else (case ts_fence_lane sample of
       FenceLaneObserved lane \<Rightarrow> (case Lane_Admit (flm_sequence lane) (ca_receiver st) of (r, ok) \<Rightarrow> (st\<lparr>ca_receiver := r\<rparr>, ok))
     | FenceLaneMalformed _ sequence \<Rightarrow> (st\<lparr>ca_receiver := Lane_RecordMalformed sequence (ca_receiver st)\<rparr>, False)
     | FenceLaneAbsent \<Rightarrow> (st, False)))"

definition CacheOverflow :: "bool \<Rightarrow> TransportSample \<Rightarrow> CacheState \<Rightarrow> CacheState" where
  "CacheOverflow marker sample st =
    (if marker then st
     else (case ts_fence_lane sample of
       FenceLaneObserved lane \<Rightarrow> st\<lparr>ca_receiver := Lane_RecordOverflow (flm_sequence lane) (ca_receiver st)\<rparr>
     | FenceLaneMalformed _ sequence \<Rightarrow> st\<lparr>ca_receiver := Lane_RecordMalformed sequence (ca_receiver st)\<rparr>
     | FenceLaneAbsent \<Rightarrow> st))"

text \<open>The admission of a participating sample; \<open>None\<close> in the last component means that the sample bypasses
  the dispatcher.\<close>

definition CacheAdmit :: "TransportSample \<Rightarrow> CacheState \<Rightarrow> CacheState \<times> Outcome option" where
  "CacheAdmit sample st =
    (let marker = CacheMarker sample st in
     if \<not> (marker \<or> own_session sample st \<and> own_lane sample st) then (st, None)
     else (case ca_dispatcher st of
       None \<Rightarrow> (st, None)
     | Some co \<Rightarrow>
         (case Dispatch (ca_registration st) (CachePrepare marker sample) (CacheOverflow marker sample) co st of
            (co, st, outcome, _) \<Rightarrow> (st\<lparr>ca_dispatcher := Some co\<rparr>, Some outcome))))"

text \<open>An admitted entry waits for its turn, runs the callback and is released.\<close>

definition Cache_DispatchSample :: "(CacheState \<times> Recovery \<times> 'w) FenceTransport \<Rightarrow> TransportSample \<Rightarrow> 'w cache_world \<Rightarrow> 'w cache_world" where
  "Cache_DispatchSample ft sample v = (case CacheAdmit sample (cstate v) of
     (st, None) \<Rightarrow> fst (Cache_OnSample ft sample False (updc (\<lambda>_. st) v))
   | (st, Some outcome) \<Rightarrow>
       if outcome \<noteq> OAdmitted then updc (\<lambda>_. st) v
       else updc (\<lambda>st'. st'\<lparr>ca_dispatcher := map_option (EntryRelease (ca_registration st')) (ca_dispatcher st')\<rparr>)
         (fst (Cache_OnSample ft sample (\<not> CacheMarker sample (cstate v)) (updc (\<lambda>_. st) v))))"

section \<open>Building a candidate\<close>

definition ScopeQuery :: "ClientConfig \<Rightarrow> string \<Rightarrow> string" where
  "ScopeQuery config scope = cc_prefix config @ ''/'' @ scope @ ''/**''"

definition DecodeGetReply :: "CacheState \<Rightarrow> bool \<Rightarrow> string \<Rightarrow> bytes \<Rightarrow> string \<Rightarrow> (string \<times> ParamValue) Result" where
  "DecodeGetReply st snapshot full_key payload encoding = (case ParseKey (ca_prefix st) full_key of
     None \<Rightarrow> Err Error ''transport returned an invalid cache key''
   | Some k \<Rightarrow>
       if pk_is_batch k \<or> pk_kind k \<noteq> (if snapshot then KeySnapshot else KeySession) \<or> pk_sid k \<noteq> ca_sid st
       then Err Error ''transport returned an invalid cache key''
       else if encoding = kSitosV1Batch then Err Error ''transport returned a batch for a value query''
       else if encoding = kSitosV1 then
         (case Decode payload of
            None \<Rightarrow> Err Error ''transport returned malformed payload''
          | Some v \<Rightarrow> Result_Ok (pk_relative_key k, v))
       else Result_Ok (pk_relative_key k, PV_Bytes payload))"

definition FetchSink :: "CacheState \<Rightarrow> bool \<Rightarrow> ((ParamValue ordered_map \<times> ErrorInfo option) \<times> 'v) QueryResultSink" where
  "FetchSink st snapshot key payload encoding = (\<lambda>((out, protocol_error), v).
    case DecodeGetReply st snapshot key payload encoding of
      Inl e \<Rightarrow> (((out, Some e), v), Some False)
    | Inr (k, value) \<Rightarrow> (((map_insert k value out, protocol_error), v), Some True))"

definition Fetch :: "'w cache_world ClientTransport \<Rightarrow> string \<Rightarrow> bool \<Rightarrow> int \<Rightarrow> 'w cache_world \<Rightarrow> 'w cache_world \<times> ParamValue ordered_map Result" where
  "Fetch ct query snapshot timeout v =
    (case WaitForStorageNodeWithin ct (ca_prefix (cstate v)) timeout v of (v, query_timeout) \<Rightarrow>
       (case TransportGet ct query (FetchSink (cstate v) snapshot) query_timeout ([], None) v of
          ((_, v), Inl e) \<Rightarrow> (v, Inl e)
        | (((out, Some e), v), Inr _) \<Rightarrow> (v, Inl e)
        | (((out, None), v), Inr _) \<Rightarrow> (v, Result_Ok out)))"

definition CloseDispatch :: "CacheState \<Rightarrow> CacheState" where
  "CloseDispatch st = st\<lparr>ca_dispatcher := map_option (CloseRegistration (ca_registration st)) (ca_dispatcher st)\<rparr>"

text \<open>Closing the gate and the registration is followed by waits for admitted work, which change nothing.\<close>

definition CleanupCandidate :: "CacheState \<Rightarrow> CacheState" where
  "CleanupCandidate st = (CloseDispatch (CloseGate st))\<lparr>ca_phase := PhaseStopping, ca_baseline := [], ca_effective := [],
     ca_buffered := [], ca_buffered_observations := []\<rparr>"

definition GoLive :: "ParamValue ordered_map \<Rightarrow> ParamValue ordered_map \<Rightarrow> CacheState \<Rightarrow> CacheState" where
  "GoLive snapshot overlay st =
    (let st = st\<lparr>ca_baseline := snapshot, ca_effective := fold (\<lambda>(k, v). map_insert k v) overlay snapshot\<rparr>;
         st = ApplyMutations (ca_buffered st) st;
         st = fold Cache_CompleteFenceObservation (ca_buffered_observations st) st in
     st\<lparr>ca_buffered := [], ca_buffered_observations := [], ca_phase := PhaseLive\<rparr>)"

text \<open>The transport of a cache: its fence and client calls, the declaration of a subscriber and of a liveliness
  subscriber, and what it supports.\<close>

record 'w CacheTransport =
  ck_fence :: "(CacheState \<times> Recovery \<times> 'w) FenceTransport"
  ck_declare :: "string \<Rightarrow> 'w cache_world \<Rightarrow> 'w cache_world \<times> unit Result"
  ck_declare_liveliness :: "string \<Rightarrow> 'w cache_world \<Rightarrow> 'w cache_world \<times> unit Result"
  ck_dispatcher :: "Coordinator option"
  ck_supports_fence :: bool
  ck_supports_liveliness :: bool

text \<open>The values a new state draws: two identities, the registration and the transport generation.\<close>

record CacheSeeds =
  sd_generation :: FenceUuid
  sd_publisher_uuid :: FenceUuid
  sd_registration :: nat
  sd_transport_generation :: u64

definition CacheBinding :: "ClientConfig \<Rightarrow> string \<Rightarrow> FenceUuid \<Rightarrow> FencePublisherBinding" where
  "CacheBinding config sid generation = \<lparr>fpb_target = TargetCache, fpb_prefix = cc_prefix config, fpb_sid = sid,
     fpb_receiver_generation = generation, fpb_buffer_class = None, fpb_durability = Applied\<rparr>"

definition FetchScope :: "'w CacheTransport \<Rightarrow> ClientConfig \<Rightarrow> string \<Rightarrow> ('w cache_world \<Rightarrow> bool) \<Rightarrow> string \<Rightarrow> bool \<Rightarrow>
    'w cache_world \<Rightarrow> 'w cache_world \<times> ParamValue ordered_map Result" where
  "FetchScope tr config sid cancelled scope snapshot v =
    (if cancelled v then (v, Err Disconnected ''ParamCache recovery was stopped'')
     else Fetch (ft_client (ck_fence tr)) (ScopeQuery config (scope @ sid)) snapshot (cc_query_timeout config) v)"

definition BuildCandidate :: "'w CacheTransport \<Rightarrow> ClientConfig \<Rightarrow> string \<Rightarrow> ('w cache_world \<Rightarrow> bool) \<Rightarrow> CacheSeeds \<Rightarrow>
    'w cache_world \<Rightarrow> 'w cache_world \<times> unit Result" where
  "BuildCandidate tr config sid cancelled seeds v =
    (let st = NewCacheState (cc_prefix config) sid (sd_generation seeds) (sd_publisher_uuid seeds) (ck_dispatcher tr)
           (sd_registration seeds) (ck_supports_fence tr);
         p = NewPublisher (sd_publisher_uuid seeds) (CacheBinding config sid (sd_generation seeds)) (sd_transport_generation seeds);
         v = (p, st, snd (snd v)) in
     case ck_declare tr (ScopeQuery config (''session/'' @ sid)) v of
       (v, Inl e) \<Rightarrow> (updc CloseGate v, Inl e)
     | (v, Inr _) \<Rightarrow>
         (case ck_declare tr (cc_prefix config @ ''/meta/fence/cache/'' @ sid @ ''/**'') v of
            (v, Inl e) \<Rightarrow> (updc CleanupCandidate v, Inl e)
          | (v, Inr _) \<Rightarrow>
              (case FetchScope tr config sid cancelled ''snap/'' True v of
                 (v, Inl e) \<Rightarrow> (updc CleanupCandidate v, Inl e)
               | (v, Inr snapshot) \<Rightarrow>
                   (case FetchScope tr config sid cancelled ''session/'' False v of
                      (v, Inl e) \<Rightarrow> (updc CleanupCandidate v, Inl e)
                    | (v, Inr overlay) \<Rightarrow> (updc (GoLive snapshot overlay) v, Result_Ok ())))))"

definition QuiesceState :: "'w CacheTransport \<Rightarrow> 'w cache_world \<Rightarrow> 'w cache_world" where
  "QuiesceState tr v =
    (let v = (if ca_has_publisher (cstate v) then ClosePublisher (ck_fence tr) v else v) in
     updc (\<lambda>st. (CloseDispatch (CloseGate st))\<lparr>ca_phase := PhaseStopping\<rparr>) v)"


section \<open>Liveliness\<close>

definition OnLiveliness :: "string \<Rightarrow> string \<Rightarrow> TransportSample \<Rightarrow> Recovery \<Rightarrow> Recovery" where
  "OnLiveliness pfx sid sample rv = (case ParseSessionLivelinessKey pfx sid (ts_key sample) of
     None \<Rightarrow> rv
   | Some generation \<Rightarrow>
       (let put = (ts_kind sample = SamplePut);
            live = filter (\<lambda>g. g \<noteq> generation) (rv_live rv);
            rv = rv\<lparr>rv_events := rv_events rv + 1, rv_live := (if put then live @ [generation] else live)\<rparr> in
        if put \<and> rv_bound rv \<noteq> generation \<or> \<not> put \<and> rv_bound rv = generation
        then rv\<lparr>rv_bound := '''', rv_stale := True\<rparr> else rv))"

text \<open>What the worker waits for, and the step that keeps a rebuilt state.\<close>

definition RecoveryReady :: "Recovery \<Rightarrow> bool" where
  "RecoveryReady rv \<longleftrightarrow> rv_stop rv \<or> rv_armed rv \<and> rv_bound rv = '''' \<and> rv_live rv \<noteq> []"

definition KeepRebuild :: "u64 \<Rightarrow> Recovery \<Rightarrow> bool" where
  "KeepRebuild events rv \<longleftrightarrow> \<not> rv_stop rv \<and> rv_events rv = events"

definition BindRebuild :: "string \<Rightarrow> Recovery \<Rightarrow> Recovery" where
  "BindRebuild target rv = rv\<lparr>rv_bound := target, rv_stale := False\<rparr>"

text \<open>What \<open>Attach\<close> reads before its first query, and how it binds and arms.\<close>

definition Announced :: "Recovery \<Rightarrow> string" where
  "Announced rv = (if rv_live rv = [] then '''' else last (rv_live rv))"

definition BindAttached :: "string \<Rightarrow> u64 \<Rightarrow> Recovery \<Rightarrow> Recovery" where
  "BindAttached announced events rv =
    (let rv = (if announced \<noteq> '''' \<and> rv_events rv = events then rv\<lparr>rv_bound := announced\<rparr> else rv) in
     rv\<lparr>rv_stale := (rv_bound rv = ''''), rv_armed := True\<rparr>)"

definition StopRecovery :: "Recovery \<Rightarrow> Recovery" where
  "StopRecovery rv = rv\<lparr>rv_stop := True\<rparr>"

section \<open>The cache object\<close>

text \<open>A moved-from cache has no implementation; an attached one has published the state of the world.
  \<open>AttachedLive\<close> is attached with a recovery record.\<close>

datatype CacheHandle = MovedFrom | CacheDetached | CacheAttached | AttachedLive

definition LoadState :: "CacheHandle \<Rightarrow> unit Result" where
  "LoadState h = (case h of
     MovedFrom \<Rightarrow> Err InvalidArgument ''moved-from ParamCache''
   | CacheDetached \<Rightarrow> Err InvalidArgument ''ParamCache is detached''
   | _ \<Rightarrow> Result_Ok ())"

definition Cache_Open :: "bool \<Rightarrow> ClientConfig \<Rightarrow> CacheHandle Result" where
  "Cache_Open has_transport config =
    (if \<not> has_transport then Err InvalidArgument ''null transport''
     else (case ValidateClientConfig config of
       Inl e \<Rightarrow> Inl e
     | Inr _ \<Rightarrow>
         if cc_zenoh_config_json config \<noteq> None then Err InvalidArgument ''injected transport cannot apply zenoh configuration''
         else Result_Ok CacheDetached))"

definition Cache_GetShared :: "CacheHandle \<Rightarrow> string \<Rightarrow> CacheState \<Rightarrow> ParamValue Result" where
  "Cache_GetShared h key st = (case ValidateCacheKey key of
     Inl e \<Rightarrow> Inl e
   | Inr _ \<Rightarrow> (case LoadState h of
       Inl e \<Rightarrow> Inl e
     | Inr _ \<Rightarrow> (case map_of (ca_effective st) key of
         None \<Rightarrow> Err NotFound ''parameter key not found''
       | Some v \<Rightarrow> Result_Ok v)))"

definition Cache_Contains :: "CacheHandle \<Rightarrow> string \<Rightarrow> CacheState \<Rightarrow> bool Result" where
  "Cache_Contains h key st = (case ValidateCacheKey key of
     Inl e \<Rightarrow> Inl e
   | Inr _ \<Rightarrow> (case LoadState h of
       Inl e \<Rightarrow> Inl e
     | Inr _ \<Rightarrow> Result_Ok (map_of (ca_effective st) key \<noteq> None)))"

definition ends_with_slash :: "string \<Rightarrow> bool" where
  "ends_with_slash s \<longleftrightarrow> s \<noteq> [] \<and> last s = CHR ''/''"

definition ValidateCachePrefix :: "string \<Rightarrow> unit Result" where
  "ValidateCachePrefix pfx =
    (if pfx = '''' then Result_Ok ()
     else if hd pfx = CHR ''/'' \<or> ContainsDoubleSlash pfx \<or> (\<exists>c\<in>set pfx. c \<in> set ''*?#$%@:'') \<or>
        (\<exists>c\<in>set pfx. c \<in> {CHR '' '', CHR 0x09, CHR 0x0D, CHR 0x0A})
     then Err InvalidKey ''invalid List prefix''
     else if \<not> IsValidKey (if ends_with_slash pfx then butlast pfx else pfx) then Err InvalidKey ''invalid List prefix''
     else Result_Ok ())"

definition Cache_List :: "CacheHandle \<Rightarrow> string \<Rightarrow> (string \<Rightarrow> ParamValue \<Rightarrow> 's \<Rightarrow> 's \<times> bool) option \<Rightarrow> CacheState \<Rightarrow> 's \<Rightarrow> 's \<times> unit Result" where
  "Cache_List h pfx sink st s = (case sink of
     None \<Rightarrow> (s, Err InvalidArgument ''null List sink'')
   | Some f \<Rightarrow> (case ValidateCachePrefix pfx of
       Inl e \<Rightarrow> (s, Inl e)
     | Inr _ \<Rightarrow> (case LoadState h of
         Inl e \<Rightarrow> (s, Inl e)
       | Inr _ \<Rightarrow> (feed_values f (sort_key fst (filter (\<lambda>(k, _). MatchesPrefix k pfx) (ca_effective st))) s, Result_Ok ()))))"

text \<open>A write submits and then applies to the own map; it holds a lease throughout.\<close>

definition SubmitCacheWrite :: "'w CacheTransport \<Rightarrow> string \<Rightarrow> bytes \<Rightarrow> string \<Rightarrow> 'w cache_world \<Rightarrow> 'w cache_world \<times> unit Result" where
  "SubmitCacheWrite tr key payload encoding v =
    (if ca_has_publisher (cstate v) then SubmitData (ck_fence tr) key payload encoding v
     else ct_put (ft_client (ck_fence tr)) key payload encoding \<lparr>po_ack_token = None, po_fence_lane = None\<rparr> v)"

definition ApplyLocal :: "Mutation list \<Rightarrow> 'w cache_world \<Rightarrow> 'w cache_world \<times> unit Result" where
  "ApplyLocal ms v =
    (if ca_phase (cstate v) \<noteq> PhaseLive then (v, Err InvalidArgument ''ParamCache is detached'')
     else (updc (ApplyMutations ms) v, Result_Ok ()))"

definition CacheWrite :: "'w CacheTransport \<Rightarrow> string \<Rightarrow> bytes \<Rightarrow> string \<Rightarrow> Mutation list \<Rightarrow> 'w cache_world \<Rightarrow> 'w cache_world \<times> unit Result" where
  "CacheWrite tr key payload encoding ms v = (case EnterState (cstate v) of
     None \<Rightarrow> (v, Err InvalidArgument ''ParamCache is detached'')
   | Some st \<Rightarrow>
       (case (case SubmitCacheWrite tr key payload encoding (updc (\<lambda>_. st) v) of
            (v, Inl e) \<Rightarrow> (v, Inl e)
          | (v, Inr _) \<Rightarrow> ApplyLocal ms v) of
          (v, result) \<Rightarrow> (updc LeaveState v, result)))"

definition Cache_Put :: "'w CacheTransport \<Rightarrow> CacheHandle \<Rightarrow> string \<Rightarrow> ParamValue \<Rightarrow> 'w cache_world \<Rightarrow> 'w cache_world \<times> unit Result" where
  "Cache_Put tr h key value v = (case ValidateCacheKey key of
     Inl e \<Rightarrow> (v, Inl e)
   | Inr _ \<Rightarrow> (case LoadState h of
       Inl e \<Rightarrow> (v, Inl e)
     | Inr _ \<Rightarrow> (case BuildKey (ca_prefix (cstate v)) (''session/'' @ ca_sid (cstate v)) key of
         None \<Rightarrow> (v, Err InvalidKey ''invalid cache key'')
       | Some full_key \<Rightarrow> CacheWrite tr full_key (Encode value) kSitosV1 [MutationPut key value] v)))"

definition Cache_PutBatch :: "'w CacheTransport \<Rightarrow> CacheHandle \<Rightarrow> BatchEntry list \<Rightarrow> 'w cache_world \<Rightarrow> 'w cache_world \<times> unit Result" where
  "Cache_PutBatch tr h es v = (case LoadState h of
     Inl e \<Rightarrow> (v, Inl e)
   | Inr _ \<Rightarrow>
       if \<exists>e\<in>set es. \<not> IsValidKey (be_key e) then (v, Err InvalidKey ''invalid batch key'')
       else if es = [] then (v, Result_Ok ())
       else (case BuildBatchKey (ca_prefix (cstate v)) (''session/'' @ ca_sid (cstate v)) of
         None \<Rightarrow> (v, Err InvalidKey ''invalid batch scope'')
       | Some full_key \<Rightarrow> CacheWrite tr full_key (EncodeBatch es) kSitosV1Batch (map (\<lambda>e. MutationPut (be_key e) (be_value e)) es) v))"

definition LocalDeliveryResult :: "FenceHandle \<Rightarrow> AckResultV1 \<Rightarrow> unit Result" where
  "LocalDeliveryResult handle r =
    (if ar_operation_kind r \<noteq> OpFence \<or> ar_durability r \<noteq> Applied \<or> ar_through_sequence r \<noteq> fh_through handle
     then Err Error ''unexpected Fence result shape''
     else if ar_status r = Ok then Result_Ok () else Err (ar_status r) (ar_message r))"

definition WaitForLocalDelivery :: "'w CacheTransport \<Rightarrow> CacheHandle \<Rightarrow> u32 list \<Rightarrow> int \<Rightarrow> 'w cache_world \<Rightarrow>
    ('w cache_world \<times> unit Result) option" where
  "WaitForLocalDelivery tr h words timeout v = (case LoadState h of
     Inl e \<Rightarrow> Some (v, Inl e)
   | Inr _ \<Rightarrow> (case EnterState (cstate v) of
       None \<Rightarrow> Some (v, Err InvalidArgument ''ParamCache is detached'')
     | Some st \<Rightarrow>
         map_option (\<lambda>(v, result). (updc LeaveState v, result))
          (let v = updc (\<lambda>_. st) v in
           if \<not> ca_has_publisher st then Some (v, Err InvalidArgument ''ParamCache Fence is unavailable'')
           else (case BeginFence (ck_fence tr) words timeout v of
             (v, Inl e) \<Rightarrow> Some (v, Inl e)
           | (v, Inr handle) \<Rightarrow>
               (case WaitFence (ck_fence tr) handle v of
                  None \<Rightarrow> None
                | Some (v, Inl e) \<Rightarrow> Some (v, Inl e)
                | Some (v, Inr r) \<Rightarrow> Some (v, LocalDeliveryResult handle r))))))"

text \<open>\<open>worker_starts\<close> says that the recovery thread could be created.\<close>

definition Attach :: "'w CacheTransport \<Rightarrow> ClientConfig \<Rightarrow> string \<Rightarrow> CacheSeeds \<Rightarrow> bool \<Rightarrow> CacheHandle \<Rightarrow> 'w cache_world \<Rightarrow>
    'w cache_world \<times> CacheHandle \<times> unit Result" where
  "Attach tr config sid seeds worker_starts h v =
    (if h = MovedFrom then (v, h, Err InvalidArgument ''moved-from ParamCache'')
     else if \<not> IsValidSessionId sid then (v, h, Err InvalidKey ''invalid session id'')
     else if h \<noteq> CacheDetached then (v, h, Err InvalidArgument ''ParamCache is already attached'')
     else if \<not> ck_supports_liveliness tr then
       (case BuildCandidate tr config sid (\<lambda>_. False) seeds v of
          (v, Inl e) \<Rightarrow> (v, h, Inl e)
        | (v, Inr _) \<Rightarrow> (v, CacheAttached, Result_Ok ()))
     else (case BuildSessionLivelinessSelector (cc_prefix config) sid of
       None \<Rightarrow> (v, h, Err InvalidKey ''invalid session liveliness selector'')
     | Some selector \<Rightarrow>
         (case ck_declare_liveliness tr selector (updr (\<lambda>_. NewRecovery) v) of
            (v, Inl e) \<Rightarrow> (v, h, Inl e)
          | (v, Inr _) \<Rightarrow>
              (let announced = Announced (recovery_of v); events = rv_events (recovery_of v) in
               case BuildCandidate tr config sid (\<lambda>_. False) seeds v of
                 (v, Inl e) \<Rightarrow> (v, h, Inl e)
               | (v, Inr _) \<Rightarrow>
                   if \<not> worker_starts
                   then (updc CleanupCandidate v, h, Err Error ''failed to start the ParamCache recovery worker'')
                   else (updr (BindAttached announced events) v, AttachedLive, Result_Ok ())))))"

definition Detach :: "'w CacheTransport \<Rightarrow> CacheHandle \<Rightarrow> 'w cache_world \<Rightarrow> 'w cache_world \<times> CacheHandle" where
  "Detach tr h v =
    (if h = MovedFrom \<or> h = CacheDetached then (v, h)
     else (QuiesceState tr (if h = AttachedLive then updr StopRecovery v else v), CacheDetached))"

text \<open>\<open>recovery\<close> is what the atomic pointer \<open>impl_->recovery\<close> holds: it is null outside an attachment, before \<open>Attach\<close> has
  published the record, from the moment \<open>Detach\<close> withdraws it, and always on a transport without liveliness.\<close>

definition IsStale :: "CacheHandle \<Rightarrow> Recovery option \<Rightarrow> bool" where
  "IsStale h recovery =
    (if h = MovedFrom then False else (case recovery of None \<Rightarrow> False | Some rv \<Rightarrow> rv_stale rv))"

end
