(* ===== verification/CacheRuns.thy ===== *)
theory CacheRuns
  imports ParamCache
begin

text \<open>
  The runs of one cache attachment: admissions by any number of transport threads, the admitted
  callbacks in ticket order, callbacks that end in an exception, the switch to live, local
  writes and the close, in any order.  Two results rest on the invariant: what a live cache
  reads is the overlay over the snapshot wherever the two queries fell in the stream of samples,
  and a fence verdict of success means that the cache applied everything it covers.
\<close>

section \<open>Runs\<close>

text \<open>A run: the state, the admitted samples that wait for their turn, the mutations received so far with
  the number of the own lane they were received under, and what the two queries returned.\<close>

type_synonym cache_hist = "(u64 option \<times> Mutation list) list"
type_synonym cache_run = "CacheState \<times> TransportSample list \<times> cache_hist \<times> (ParamValue ordered_map \<times> ParamValue ordered_map) option"

fun lane_number :: "FenceLaneObservation \<Rightarrow> u64 option" where
  "lane_number (FenceLaneObserved lane) = Some (flm_sequence lane)"
| "lane_number _ = None"

text \<open>The attachment decoder yields no sequence zero.\<close>

fun lane_nonzero :: "FenceLaneObservation \<Rightarrow> bool" where
  "lane_nonzero (FenceLaneObserved lane) \<longleftrightarrow> flm_sequence lane \<noteq> 0"
| "lane_nonzero (FenceLaneMalformed _ sequence) \<longleftrightarrow> sequence \<noteq> Some 0"
| "lane_nonzero FenceLaneAbsent \<longleftrightarrow> True"

definition DataSample :: "CacheState \<Rightarrow> TransportSample \<Rightarrow> bool" where
  "DataSample st sample = (case MarkerRoute (ca_prefix st) (ts_key sample) of
     Some (route, _) \<Rightarrow> fmr_target route \<noteq> MarkerCache
   | None \<Rightarrow> True)"

definition CacheRelease :: "CacheState \<Rightarrow> CacheState" where
  "CacheRelease st = st\<lparr>ca_dispatcher := map_option (EntryRelease (ca_registration st)) (ca_dispatcher st)\<rparr>"

text \<open>What the state takes in of a sample.\<close>

definition Received :: "TransportSample \<Rightarrow> bool \<Rightarrow> CacheState \<Rightarrow> cache_hist" where
  "Received sample preadmitted st = (case Cache_DecodeSample st sample of
     None \<Rightarrow> []
   | Some ms \<Rightarrow>
       (let admission = (if preadmitted then FenceApply else snd (Cache_AdmitFenceObservation (ts_fence_lane sample) True st)) in
        if admission = FenceReject \<or> ca_phase st = PhaseStopping then []
        else [(if admission = FenceApply then lane_number (ts_fence_lane sample) else None, ms)]))"

text \<open>A callback that ends in an exception took in only the first \<open>k\<close> of the decoded mutations.\<close>

definition PartialMutations :: "nat \<Rightarrow> TransportSample \<Rightarrow> CacheState \<Rightarrow> Mutation list" where
  "PartialMutations k sample st = (case Cache_DecodeSample st sample of
     None \<Rightarrow> [] | Some ms \<Rightarrow> if ca_phase st = PhaseStopping then [] else take k ms)"

definition TakeIn :: "Mutation list \<Rightarrow> CacheState \<Rightarrow> CacheState" where
  "TakeIn ms st = (case ca_phase st of
     PhaseBuffering \<Rightarrow> st\<lparr>ca_buffered := ca_buffered st @ ms\<rparr>
   | PhaseLive \<Rightarrow> ApplyMutations ms st
   | PhaseStopping \<Rightarrow> st)"

definition CacheStop :: "CacheState \<Rightarrow> CacheState" where
  "CacheStop st = (CloseDispatch (CloseGate st))\<lparr>ca_phase := PhaseStopping\<rparr>"

inductive cache_step :: "TransportSample set \<Rightarrow> cache_run \<Rightarrow> cache_run \<Rightarrow> bool" for D where
  run_admit: "s \<in> D \<Longrightarrow> lane_nonzero (ts_fence_lane s) \<Longrightarrow> DataSample st s \<Longrightarrow> CacheAdmit s st = (st', Some out) \<Longrightarrow>
    cache_step D (st, q, h, i) (st', if out = OAdmitted then q @ [s] else q, h, i)"
| run_bypass: "s \<in> D \<Longrightarrow> lane_nonzero (ts_fence_lane s) \<Longrightarrow> DataSample st s \<Longrightarrow> CacheAdmit s st = (st, None) \<Longrightarrow>
    cache_step D (st, q, h, i) (fst (Cache_OnData s False st), q, h @ Received s False st, i)"
| run_process: "cache_step D (st, s # q, h, i) (CacheRelease (fst (Cache_OnData s True st)), q, h @ Received s True st, i)"
| run_skip: "\<not> ca_accepting st \<Longrightarrow> cache_step D (st, s # q, h, i) (CacheRelease st, q, h, i)"
| run_fail: "ms = PartialMutations k s st \<Longrightarrow>
    cache_step D (st, s # q, h, i) (CacheRelease (RetainCacheDispatchFailure s True (ms \<noteq> []) (TakeIn ms st)), q, h @ [(None, ms)], i)"
| run_drop: "s \<in> D \<Longrightarrow> lane_nonzero (ts_fence_lane s) \<Longrightarrow>
    cache_step D (st, q, h, i) (RetainCacheDispatchFailure s False False st, q, h, i)"
| run_live: "ca_phase st = PhaseBuffering \<Longrightarrow> map_wf snapshot \<Longrightarrow> map_wf overlay \<Longrightarrow>
    cache_step D (st, q, h, i) (GoLive snapshot overlay st, q, h, Some (snapshot, overlay))"
| run_write: "ca_phase st = PhaseLive \<Longrightarrow> cache_step D (st, q, h, i) (ApplyMutations ms st, q, h @ [(None, ms)], i)"
| run_stop: "cache_step D (st, q, h, i) (CacheStop st, q, h, i)"

text \<open>Between the steps another user of the transport's dispatcher may take or release tickets, and leases come and go.\<close>

inductive cache_reach :: "TransportSample set \<Rightarrow> CacheState \<Rightarrow> cache_run \<Rightarrow> bool" for D st0 where
  run_start: "cache_reach D st0 (st0, [], [], None)"
| run_step: "cache_reach D st0 r \<Longrightarrow> cache_step D r r' \<Longrightarrow> cache_reach D st0 r'"
| run_other: "cache_reach D st0 (st, q, h, i) \<Longrightarrow> cache_reach D st0 (st\<lparr>ca_dispatcher := d, ca_in_flight := f\<rparr>, q, h, i)"

section \<open>Values\<close>

fun OverlayApply :: "Mutation \<Rightarrow> (string \<rightharpoonup> ParamValue) \<Rightarrow> (string \<rightharpoonup> ParamValue)" where
  "OverlayApply (MutationPut k v) m = m(k \<mapsto> v)"
| "OverlayApply (MutationDelete k) m = m(k := None)"

abbreviation received :: "cache_hist \<Rightarrow> Mutation list" where
  "received h \<equiv> concat (map snd h)"

lemma ApplyMutation_only: "\<exists>e. ApplyMutation m st = st\<lparr>ca_effective := e\<rparr>"
  by (cases m) auto

lemma ApplyMutations_only: "\<exists>e. ApplyMutations ms st = st\<lparr>ca_effective := e\<rparr>"
proof (induction ms arbitrary: st)
  case Nil
  show ?case by (rule exI[of _ "ca_effective st"]) (simp add: ApplyMutations_def)
next
  case (Cons m ms)
  obtain e where "ApplyMutation m st = st\<lparr>ca_effective := e\<rparr>" using ApplyMutation_only by blast
  moreover obtain e' where "ApplyMutations ms (st\<lparr>ca_effective := e\<rparr>) = st\<lparr>ca_effective := e\<rparr>\<lparr>ca_effective := e'\<rparr>"
    using Cons.IH by blast
  ultimately show ?case by (auto simp: ApplyMutations_def)
qed

lemma ApplyMutations_fields [simp]:
  "ca_prefix (ApplyMutations ms st) = ca_prefix st" "ca_sid (ApplyMutations ms st) = ca_sid st"
  "ca_phase (ApplyMutations ms st) = ca_phase st" "ca_baseline (ApplyMutations ms st) = ca_baseline st"
  "ca_buffered (ApplyMutations ms st) = ca_buffered st"
  "ca_buffered_observations (ApplyMutations ms st) = ca_buffered_observations st"
  "ca_publisher_uuid (ApplyMutations ms st) = ca_publisher_uuid st"
  "ca_receiver (ApplyMutations ms st) = ca_receiver st"
  using ApplyMutations_only[of ms st] by auto

lemma ApplyMutation_view:
  assumes "map_wf (ca_effective st)" "map_of (ca_effective st) = map_of (ca_baseline st) ++ ov"
  shows "map_wf (ca_effective (ApplyMutation m st)) \<and>
    map_of (ca_effective (ApplyMutation m st)) = map_of (ca_baseline st) ++ OverlayApply m ov"
proof (cases m)
  case (MutationPut k v)
  with assms show ?thesis by (simp add: map_insert_wf)
next
  case (MutationDelete k)
  with assms show ?thesis
    by (auto simp: map_insert_wf map_erase_wf map_of_map_erase map_add_def fun_eq_iff split: option.split)
qed

lemma ApplyMutations_view:
  assumes "map_wf (ca_effective st)" "map_of (ca_effective st) = map_of (ca_baseline st) ++ ov"
  shows "map_wf (ca_effective (ApplyMutations ms st)) \<and>
    map_of (ca_effective (ApplyMutations ms st)) = map_of (ca_baseline st) ++ fold OverlayApply ms ov"
  using assms
proof (induction ms arbitrary: st ov)
  case (Cons m ms)
  have b: "ca_baseline (ApplyMutation m st) = ca_baseline st" using ApplyMutation_only[of m st] by auto
  from Cons.IH[of "ApplyMutation m st" "OverlayApply m ov"] ApplyMutation_view[OF Cons.prems, of m] b
  show ?case by (simp add: ApplyMutations_def)
qed (simp add: ApplyMutations_def)

lemma overlay_view:
  assumes "map_wf snapshot" "map_wf overlay"
  shows "map_wf (fold (\<lambda>(k, v). map_insert k v) overlay snapshot)"
    "map_of (fold (\<lambda>(k, v). map_insert k v) overlay snapshot) = map_of snapshot ++ map_of overlay"
proof -
  show "map_wf (fold (\<lambda>(k, v). map_insert k v) overlay snapshot)"
    using assms(1) by (induction overlay arbitrary: snapshot) (auto simp: map_insert_wf)
  have "distinct (map fst overlay)" by (rule map_wf_distinct[OF assms(2)])
  then show "map_of (fold (\<lambda>(k, v). map_insert k v) overlay snapshot) = map_of snapshot ++ map_of overlay"
  proof (induction overlay arbitrary: snapshot)
    case (Cons e es)
    obtain k v where e: "e = (k, v)" by (cases e)
    with Cons.prems have "map_of es k = None" by (simp add: map_of_eq_None_iff)
    then show ?case using Cons.IH[of "map_insert k v snapshot"] Cons.prems e
      by (auto simp: map_add_def fun_eq_iff split: option.split)
  qed simp
qed

text \<open>Applying a list of mutations again after a prefix of it has been applied changes nothing.\<close>

fun touches :: "string \<Rightarrow> Mutation \<Rightarrow> bool" where
  "touches k (MutationPut k' _) \<longleftrightarrow> k = k'"
| "touches k (MutationDelete k') \<longleftrightarrow> k = k'"

lemma fold_overlay_untouched: "\<forall>m\<in>set ms. \<not> touches k m \<Longrightarrow> fold OverlayApply ms ov k = ov k"
proof (induction ms arbitrary: ov)
  case (Cons m ms)
  then show ?case by (cases m) auto
qed simp

lemma fold_overlay_touched: "\<exists>m\<in>set ms. touches k m \<Longrightarrow> fold OverlayApply ms ov k = fold OverlayApply ms ov' k"
proof (induction ms arbitrary: ov ov')
  case (Cons a ms)
  show ?case
  proof (cases "\<exists>m\<in>set ms. touches k m")
    case True
    then show ?thesis using Cons.IH by simp
  next
    case False
    with Cons.prems have "touches k a" by auto
    with False show ?thesis by (cases a) (auto simp: fold_overlay_untouched)
  qed
qed simp

lemma fold_overlay_prefix:
  "fold OverlayApply ms (fold OverlayApply (take n ms) ov) = fold OverlayApply ms ov"
proof
  fix k
  show "fold OverlayApply ms (fold OverlayApply (take n ms) ov) k = fold OverlayApply ms ov k"
  proof (cases "\<exists>m\<in>set ms. touches k m")
    case True
    then show ?thesis by (rule fold_overlay_touched)
  next
    case False
    moreover from False have "\<forall>m\<in>set (take n ms). \<not> touches k m" by (meson in_set_takeD)
    ultimately show ?thesis by (simp add: fold_overlay_untouched)
  qed
qed

section \<open>The lane\<close>

abbreviation lane_sound :: "FenceLaneState \<Rightarrow> bool" where
  "lane_sound r \<equiv> \<exists>log. lane_inv r log"

lemma lane_good_step: "lane_sound r \<Longrightarrow> lane_event_ok r ev \<Longrightarrow> lane_sound (lane_step ev r)"
  using lane_step_inv by blast

text \<open>As long as no failure was latched, the numbers received are those completed followed by those buffered.\<close>

definition own_prefix :: "FenceLaneState \<Rightarrow> u64 list \<Rightarrow> u64 list \<Rightarrow> bool" where
  "own_prefix r received_numbers buffered \<longleftrightarrow>
     (fl_first_failure r = None \<longrightarrow> received_numbers = numbered (unat (fl_completed_through r)) @ buffered)"

lemma Admit_keeps:
  "fl_first_failure (fst (Lane_Admit q r)) = None \<Longrightarrow> fl_first_failure r = None"
  "fl_completed_through (fst (Lane_Admit q r)) = fl_completed_through r"
  "fl_reserved_through r \<le> fl_reserved_through (fst (Lane_Admit q r))"
  "snd (Lane_Admit q r) \<Longrightarrow> fl_reserved_through (fst (Lane_Admit q r)) = q \<and> q \<noteq> 0"
  by (auto simp: Lane_Admit_def Let_def split: if_splits option.splits)

lemma Record_keeps:
  "fl_first_failure (Lane_RecordRejected q s q' d r) \<noteq> None" "fl_first_failure (Lane_RecordOverflow q r) \<noteq> None"
  "fl_first_failure (Lane_RecordMalformed m r) \<noteq> None"
  "fl_reserved_through (Lane_RecordRejected q s q' d r) = fl_reserved_through r"
  "fl_reserved_through (Lane_RecordOverflow q r) = fl_reserved_through r"
  "fl_reserved_through (Lane_RecordMalformed m r) = fl_reserved_through r"
  by (simp_all add: Lane_RecordRejected_def Lane_RecordOverflow_def Lane_RecordMalformed_def Let_def split: option.splits)

lemma Complete_reserved [simp]: "fl_reserved_through (Lane_Complete q f r) = fl_reserved_through r"
  by (simp add: Lane_Complete_def Let_def)

lemma Complete_error: "fl_first_failure (Lane_Complete q (Some Error) r) \<noteq> None"
  by (simp add: Lane_Complete_def Let_def split: option.split)

lemma Complete_next:
  assumes "fl_first_failure (Lane_Complete q None r) = None" "q \<noteq> 0"
  shows "fl_first_failure r = None"
    "numbered (unat (fl_completed_through (Lane_Complete q None r))) = numbered (unat (fl_completed_through r)) @ [q]"
proof -
  from assms(1) have q: "q = fl_completed_through r + 1" "fl_completed_through (Lane_Complete q None r) = q"
    and f: "fl_first_failure r = None"
    by (auto simp: Lane_Complete_def Let_def split: if_splits option.splits)
  show "fl_first_failure r = None" by (rule f)
  have "unat q = Suc (unat (fl_completed_through r))"
    using word_succ_bounds(1)[of "fl_completed_through r"] q(1) assms(2) by fastforce
  with q(2) show "numbered (unat (fl_completed_through (Lane_Complete q None r))) = numbered (unat (fl_completed_through r)) @ [q]"
    using q(1) by (simp add: numbered_Suc)
qed

section \<open>The values of a run\<close>

definition value_inv :: "CacheState \<Rightarrow> Mutation list \<Rightarrow> (ParamValue ordered_map \<times> ParamValue ordered_map) option \<Rightarrow> bool" where
  "value_inv st ms i \<longleftrightarrow>
     (ca_phase st = PhaseBuffering \<longrightarrow> i = None \<and> ca_buffered st = ms) \<and> (ca_phase st = PhaseLive \<longrightarrow> i \<noteq> None) \<and>
     (\<forall>snapshot overlay. i = Some (snapshot, overlay) \<longrightarrow> ca_baseline st = snapshot \<and> map_wf (ca_effective st) \<and>
        map_of (ca_effective st) = map_of snapshot ++ fold OverlayApply ms (map_of overlay))"

lemma value_inv_cong:
  assumes "value_inv st ms i" "ca_phase st' = ca_phase st" "ca_buffered st' = ca_buffered st" "ca_baseline st' = ca_baseline st"
    "ca_effective st' = ca_effective st"
  shows "value_inv st' ms i"
  using assms by (simp add: value_inv_def)

lemma value_inv_TakeIn:
  assumes "value_inv st ms i" "ca_phase st = PhaseStopping \<longrightarrow> ms' = []"
  shows "value_inv (TakeIn ms' st) (ms @ ms') i"
proof (cases "ca_phase st")
  case PhaseLive
  then obtain snapshot overlay where i: "i = Some (snapshot, overlay)" using assms(1) by (auto simp: value_inv_def)
  with assms(1) have "ca_baseline st = snapshot" "map_wf (ca_effective st)"
    "map_of (ca_effective st) = map_of (ca_baseline st) ++ fold OverlayApply ms (map_of overlay)" by (simp_all add: value_inv_def)
  with ApplyMutations_view[OF this(2,3), of ms'] PhaseLive i show ?thesis by (simp add: value_inv_def TakeIn_def)
qed (use assms in \<open>simp_all add: value_inv_def TakeIn_def\<close>)

lemma Complete_observation_values:
  "ca_phase (Cache_CompleteFenceObservation ob st) = ca_phase st" "ca_buffered (Cache_CompleteFenceObservation ob st) = ca_buffered st"
  "ca_baseline (Cache_CompleteFenceObservation ob st) = ca_baseline st"
  "ca_effective (Cache_CompleteFenceObservation ob st) = ca_effective st"
  by (simp_all add: Cache_CompleteFenceObservation_def split: FenceLaneObservation.split)

lemma Admit_observation_only:
  "fst (Cache_AdmitFenceObservation ob b st) = st\<lparr>ca_receiver := ca_receiver (fst (Cache_AdmitFenceObservation ob b st))\<rparr>"
  by (auto simp: Cache_AdmitFenceObservation_def split: FenceLaneObservation.split prod.split bool.split)

lemma Complete_observation_only:
  "Cache_CompleteFenceObservation ob st = st\<lparr>ca_receiver := ca_receiver (Cache_CompleteFenceObservation ob st)\<rparr>"
  by (auto simp: Cache_CompleteFenceObservation_def split: FenceLaneObservation.split)

lemma ApplyMutation_receiver: "ApplyMutation m (st\<lparr>ca_receiver := r\<rparr>) = (ApplyMutation m st)\<lparr>ca_receiver := r\<rparr>"
  by (cases m) (auto split: option.split)

lemma ApplyMutations_receiver: "ApplyMutations ms (st\<lparr>ca_receiver := r\<rparr>) = (ApplyMutations ms st)\<lparr>ca_receiver := r\<rparr>"
  by (induction ms arbitrary: st) (simp_all add: ApplyMutations_def ApplyMutation_receiver)

text \<open>Up to the lane, a data callback takes in what it received.\<close>

lemma OnData_take:
  "fst (Cache_OnData s preadmitted st) = (TakeIn (received (Received s preadmitted st)) st)
     \<lparr>ca_receiver := ca_receiver (fst (Cache_OnData s preadmitted st)),
      ca_buffered_observations := ca_buffered_observations (fst (Cache_OnData s preadmitted st))\<rparr>" (is "?lhs = ?rhs")
proof (cases "Cache_DecodeSample st s")
  case None
  obtain r where "fst (Cache_AdmitFenceObservation (ts_fence_lane s) False st) = st\<lparr>ca_receiver := r\<rparr>"
    using Admit_observation_only by metis
  with None show ?thesis
    by (cases "ca_phase st"; cases preadmitted)
      (auto simp: Cache_OnData_def Received_def TakeIn_def ApplyMutations_def split: FenceLaneObservation.split)
next
  case (Some ms)
  define st1 admission where "st1 = fst (if preadmitted then (st, FenceApply) else Cache_AdmitFenceObservation (ts_fence_lane s) True st)"
    and "admission = snd (if preadmitted then (st, FenceApply) else Cache_AdmitFenceObservation (ts_fence_lane s) True st)"
  obtain r1 where r1: "st1 = st\<lparr>ca_receiver := r1\<rparr>"
    using Admit_observation_only[of "ts_fence_lane s" True st] that[of "ca_receiver st"] that unfolding st1_def
    by (cases preadmitted) auto
  have e: "(if preadmitted then (st, FenceApply) else Cache_AdmitFenceObservation (ts_fence_lane s) True st) = (st1, admission)"
    by (simp add: st1_def admission_def)
  have a: "(if preadmitted then FenceApply else snd (Cache_AdmitFenceObservation (ts_fence_lane s) True st)) = admission"
    by (simp add: admission_def)
  note unf = Cache_OnData_def Received_def TakeIn_def Some e a Let_def
  obtain r2 where c: "Cache_CompleteFenceObservation (ts_fence_lane s) (ApplyMutations ms st1) = (ApplyMutations ms st1)\<lparr>ca_receiver := r2\<rparr>"
    using Complete_observation_only by metis
  show ?thesis
  proof (cases "ca_phase st")
    case PhaseBuffering
    then show ?thesis by (simp add: unf r1)
  next
    case PhaseLive
    with c show ?thesis by (simp add: unf r1 ApplyMutations_receiver) (simp add: ApplyMutations_def)
  next
    case PhaseStopping
    then show ?thesis by (simp add: unf r1)
  qed
qed

lemma Received_stopping: "ca_phase st = PhaseStopping \<Longrightarrow> Received s p st = []"
  by (simp add: Received_def Let_def split: option.split)

lemma value_inv_OnData:
  assumes "value_inv st ms i"
  shows "value_inv (fst (Cache_OnData s p st)) (ms @ received (Received s p st)) i"
proof -
  obtain r os where "fst (Cache_OnData s p st) = (TakeIn (received (Received s p st)) st)\<lparr>ca_receiver := r, ca_buffered_observations := os\<rparr>"
    using OnData_take by metis
  moreover have "value_inv (TakeIn (received (Received s p st)) st) (ms @ received (Received s p st)) i"
    by (rule value_inv_TakeIn[OF assms]) (simp add: Received_stopping)
  ultimately show ?thesis by (auto elim: value_inv_cong)
qed

lemma Retain_only:
  "RetainCacheDispatchFailure s b c st = st\<lparr>ca_receiver := ca_receiver (RetainCacheDispatchFailure s b c st)\<rparr>"
  by (auto simp: RetainCacheDispatchFailure_def Let_def split: FenceLaneObservation.split)

lemma Prepare_only: "fst (CachePrepare m s st) = st\<lparr>ca_receiver := ca_receiver (fst (CachePrepare m s st))\<rparr>"
  by (auto simp: CachePrepare_def split: FenceLaneObservation.split prod.split)

lemma Overflow_only: "CacheOverflow m s st = st\<lparr>ca_receiver := ca_receiver (CacheOverflow m s st)\<rparr>"
  by (auto simp: CacheOverflow_def split: FenceLaneObservation.split)

text \<open>What a dispatch does to the state its callbacks act on.\<close>

lemma Dispatch_state:
  assumes "Dispatch r prepare overflow c s = (c', s', out, e)"
  obtains "out = OClosed" "s' = s" | "out = OOverflow" "s' = overflow s" | "out = ORejected" "prepare s = (s', False)"
    | "out = OAdmitted" "prepare s = (s', True)"
  using assms by (auto simp: Dispatch_def TryEnter_def HasCapacity_def split: option.splits if_splits prod.splits bool.splits)

lemma CacheAdmit_cases:
  assumes "CacheAdmit s st = (st', Some out)"
  obtains d where "out = OClosed" "st' = st\<lparr>ca_dispatcher := d\<rparr>"
    | d where "out = OOverflow" "st' = (CacheOverflow (CacheMarker s st) s st)\<lparr>ca_dispatcher := d\<rparr>"
    | d st1 where "out = ORejected" "CachePrepare (CacheMarker s st) s st = (st1, False)" "st' = st1\<lparr>ca_dispatcher := d\<rparr>"
    | d st1 where "out = OAdmitted" "CachePrepare (CacheMarker s st) s st = (st1, True)" "st' = st1\<lparr>ca_dispatcher := d\<rparr>"
proof -
  from assms obtain co co' st1 e where
    d: "Dispatch (ca_registration st) (CachePrepare (CacheMarker s st) s) (CacheOverflow (CacheMarker s st) s) co st = (co', st1, out, e)"
    and st': "st' = st1\<lparr>ca_dispatcher := Some co'\<rparr>"
    by (auto simp: CacheAdmit_def Let_def split: if_splits option.splits prod.splits)
  from d show ?thesis
  proof (cases rule: Dispatch_state)
    case 1
    with st' show ?thesis by (intro that(1)[of "Some co'"]) simp_all
  next
    case 2
    with st' show ?thesis by (intro that(2)[of "Some co'"]) simp_all
  next
    case 3
    with st' show ?thesis by (intro that(3)[of st1 "Some co'"]) simp_all
  next
    case 4
    with st' show ?thesis by (intro that(4)[of st1 "Some co'"]) simp_all
  qed
qed

lemma CacheAdmit_only:
  assumes "CacheAdmit s st = (st', Some out)"
  obtains r d where "st' = st\<lparr>ca_receiver := r, ca_dispatcher := d\<rparr>"
proof -
  from assms show ?thesis
  proof (cases rule: CacheAdmit_cases)
    case (1 d)
    then show ?thesis by (intro that[where r = "ca_receiver st" and d = d]) simp
  next
    case (2 d)
    with Overflow_only[of "CacheMarker s st" s st] that show ?thesis by metis
  next
    case (3 d st1)
    with Prepare_only[of "CacheMarker s st" s st] that show ?thesis by (metis fst_conv)
  next
    case (4 d st1)
    with Prepare_only[of "CacheMarker s st" s st] that show ?thesis by (metis fst_conv)
  qed
qed

lemma Complete_fold_only:
  "fold Cache_CompleteFenceObservation os st = st\<lparr>ca_receiver := ca_receiver (fold Cache_CompleteFenceObservation os st)\<rparr>"
proof (induction os arbitrary: st)
  case (Cons ob os)
  then show ?case using Complete_observation_only[of ob st] by (metis (no_types, lifting) CacheState.surjective
        CacheState.update_convs(12) fold_simps(2))
qed simp

lemma GoLive_values:
  assumes "map_wf snapshot" "map_wf overlay"
  shows "value_inv (GoLive snapshot overlay st) (ca_buffered st) (Some (snapshot, overlay))"
proof -
  let ?e = "fold (\<lambda>(k, v). map_insert k v) overlay snapshot"
  define st1 where "st1 = st\<lparr>ca_baseline := snapshot, ca_effective := ?e\<rparr>"
  define st2 where "st2 = ApplyMutations (ca_buffered st) st1"
  have v: "map_wf (ca_effective st2) \<and> map_of (ca_effective st2) = map_of snapshot ++ fold OverlayApply (ca_buffered st) (map_of overlay)"
    using ApplyMutations_view[of st1 "map_of overlay" "ca_buffered st"] overlay_view[OF assms] by (simp add: st1_def st2_def)
  obtain r where "fold Cache_CompleteFenceObservation (ca_buffered_observations st2) st2 = st2\<lparr>ca_receiver := r\<rparr>"
    using Complete_fold_only by metis
  then have "GoLive snapshot overlay st = st2\<lparr>ca_receiver := r, ca_buffered := [], ca_buffered_observations := [], ca_phase := PhaseLive\<rparr>"
    by (simp add: GoLive_def Let_def st1_def st2_def)
  with v show ?thesis by (simp add: value_inv_def st2_def st1_def)
qed

lemma cache_step_values:
  assumes "cache_step D r r'" "value_inv (fst r) (received (fst (snd (snd r)))) (snd (snd (snd r)))"
  shows "value_inv (fst r') (received (fst (snd (snd r')))) (snd (snd (snd r')))"
  using assms
proof (induction rule: cache_step.induct)
  case (run_admit s st st' out q h i)
  then obtain r d where "st' = st\<lparr>ca_receiver := r, ca_dispatcher := d\<rparr>" using CacheAdmit_only by metis
  with run_admit show ?case by (auto elim: value_inv_cong)
next
  case (run_bypass s st q h i)
  then show ?case using value_inv_OnData[of st "received h" i s False] by simp
next
  case (run_process st s q h i)
  then show ?case using value_inv_OnData[of st "received h" i s True] by (auto simp: CacheRelease_def elim: value_inv_cong)
next
  case (run_skip st s q h i)
  then show ?case by (auto simp: CacheRelease_def elim: value_inv_cong)
next
  case (run_fail ms k s st q h i)
  have "value_inv (TakeIn ms st) (received h @ ms) i"
    using run_fail by (intro value_inv_TakeIn) (auto simp: PartialMutations_def split: option.split)
  moreover obtain r where "RetainCacheDispatchFailure s True (ms \<noteq> []) (TakeIn ms st) = (TakeIn ms st)\<lparr>ca_receiver := r\<rparr>"
    using Retain_only by metis
  ultimately show ?case by (auto simp: CacheRelease_def elim: value_inv_cong)
next
  case (run_drop s st q h i)
  moreover obtain r where "RetainCacheDispatchFailure s False False st = st\<lparr>ca_receiver := r\<rparr>" using Retain_only by metis
  ultimately show ?case by (auto elim: value_inv_cong)
next
  case (run_live st snapshot overlay q h i)
  then show ?case using GoLive_values[of snapshot overlay st] by (simp add: value_inv_def)
next
  case (run_write st q h i ms)
  then show ?case using value_inv_TakeIn[of st "received h" i ms] by (simp add: TakeIn_def)
next
  case (run_stop st q h i)
  then show ?case by (simp add: value_inv_def CacheStop_def CloseDispatch_def CloseGate_def)
qed


section \<open>The lane of a run\<close>

abbreviation observed_number :: "FenceLaneObservation \<Rightarrow> u64" where
  "observed_number ob \<equiv> the (lane_number ob)"

definition own_numbers :: "cache_hist \<Rightarrow> u64 list" where
  "own_numbers h = List.map_filter fst h"

lemma own_numbers_append [simp]: "own_numbers (h @ h') = own_numbers h @ own_numbers h'"
  by (simp add: own_numbers_def List.map_filter_def)

lemma own_numbers_simps [simp]: "own_numbers [] = []" "own_numbers [(None, ms)] = []" "own_numbers [(Some n, ms)] = [n]"
  by (simp_all add: own_numbers_def List.map_filter_def)

definition own_observation :: "FenceUuid \<Rightarrow> FenceLaneState \<Rightarrow> FenceLaneObservation \<Rightarrow> bool" where
  "own_observation u r ob = (case ob of
     FenceLaneObserved lane \<Rightarrow> flm_publisher_uuid lane = u \<and> flm_sequence lane \<noteq> 0 \<and> flm_sequence lane \<le> fl_reserved_through r
   | _ \<Rightarrow> False)"

definition lane_ok :: "FenceUuid \<Rightarrow> FenceLaneState \<Rightarrow> FenceLaneObservation list \<Rightarrow> FenceLaneObservation list \<Rightarrow> u64 list \<Rightarrow> bool" where
  "lane_ok u r os qs ns \<longleftrightarrow> lane_sound r \<and> (\<forall>ob\<in>set os \<union> set qs. own_observation u r ob) \<and> own_prefix r ns (map observed_number os)"

lemma own_observation_mono:
  "own_observation u r ob \<Longrightarrow> fl_reserved_through r \<le> fl_reserved_through r' \<Longrightarrow> own_observation u r' ob"
  by (auto simp: own_observation_def split: FenceLaneObservation.splits)

lemma lane_ok_subset: "lane_ok u r os qs ns \<Longrightarrow> set qs' \<subseteq> set qs \<Longrightarrow> lane_ok u r os qs' ns"
  by (auto simp: lane_ok_def)

lemma lane_ok_failed:
  assumes "lane_ok u r os qs ns" "lane_sound r'" "fl_reserved_through r' = fl_reserved_through r" "fl_first_failure r' \<noteq> None"
  shows "lane_ok u r' os qs ns'"
  using assms by (auto simp: lane_ok_def own_prefix_def own_observation_def split: FenceLaneObservation.splits)

lemma lane_ok_rejected:
  assumes "lane_ok u r os qs ns" "q \<noteq> 0" "s \<noteq> Ok" "IsWireStatus s"
  shows "lane_ok u (Lane_RecordRejected q s q d r) os qs ns'"
  using assms lane_good_step[of r "LRejected q s d"]
  by (intro lane_ok_failed[OF assms(1)]) (auto simp: lane_ok_def lane_event_ok_def lane_step_def Record_keeps)

lemma lane_ok_overflow:
  assumes "lane_ok u r os qs ns" "q \<noteq> 0"
  shows "lane_ok u (Lane_RecordOverflow q r) os qs ns'"
  using assms lane_good_step[of r "LOverflow q"]
  by (intro lane_ok_failed[OF assms(1)]) (auto simp: lane_ok_def lane_event_ok_def lane_step_def Record_keeps)

lemma lane_ok_malformed:
  assumes "lane_ok u r os qs ns" "m \<noteq> Some 0"
  shows "lane_ok u (Lane_RecordMalformed m r) os qs ns'"
  using assms lane_good_step[of r "LMalformed m"]
  by (intro lane_ok_failed[OF assms(1)]) (auto simp: lane_ok_def lane_event_ok_def lane_step_def Record_keeps)

lemma lane_ok_admit:
  assumes "lane_ok u r os qs ns" "q \<noteq> 0"
  shows "lane_ok u (fst (Lane_Admit q r)) os qs ns"
proof -
  have "lane_sound (fst (Lane_Admit q r))"
    using assms lane_good_step[of r "LAdmit q"] by (simp add: lane_ok_def lane_event_ok_def lane_step_def)
  with assms(1) Admit_keeps(1)[of q r] show ?thesis
    by (auto simp: lane_ok_def own_prefix_def Admit_keeps(2) intro: own_observation_mono[OF _ Admit_keeps(3)])
qed

lemma lane_ok_admitted:
  assumes "lane_ok u r os qs ns" "Lane_Admit (flm_sequence lane) r = (r', True)" "flm_publisher_uuid lane = u"
  shows "lane_ok u r' os (FenceLaneObserved lane # qs) ns \<and> lane_ok u r' os (qs @ [FenceLaneObserved lane]) ns"
proof -
  have a: "fl_reserved_through r' = flm_sequence lane" "flm_sequence lane \<noteq> 0"
    using Admit_keeps(4)[of "flm_sequence lane" r] assms(2) by simp_all
  with lane_ok_admit[OF assms(1) a(2)] assms(2,3) show ?thesis by (auto simp: lane_ok_def own_observation_def)
qed

lemma own_observation_event:
  "own_observation u r ob \<Longrightarrow> lane_event_ok r (LComplete (observed_number ob) None) \<and>
     lane_event_ok r (LComplete (observed_number ob) (Some Error)) \<and> observed_number ob \<noteq> 0"
  by (simp add: own_observation_def lane_event_ok_def split: FenceLaneObservation.splits)

lemma lane_ok_error:
  assumes "lane_ok u r os qs ns" "own_observation u r ob"
  shows "lane_ok u (Lane_Complete (observed_number ob) (Some Error) r) os qs ns'"
proof -
  have "lane_sound (Lane_Complete (observed_number ob) (Some Error) r)"
    using assms lane_good_step[of r "LComplete (observed_number ob) (Some Error)"] own_observation_event[OF assms(2)]
    by (auto simp: lane_ok_def lane_step_def)
  with assms(1) show ?thesis by (rule lane_ok_failed) (simp_all add: Complete_error)
qed

lemma lane_ok_complete:
  assumes "lane_ok u r os qs ns" "own_observation u r ob" "ns' = ns @ map observed_number os' "
    "map observed_number os @ map observed_number os' = observed_number ob # map observed_number os''" "set os'' \<subseteq> set os \<union> set os'"
    "\<forall>ob\<in>set os'. own_observation u r ob"
  shows "lane_ok u (Lane_Complete (observed_number ob) None r) os'' qs ns'"
proof -
  let ?n = "observed_number ob" and ?r = "Lane_Complete (observed_number ob) None r"
  note e = own_observation_event[OF assms(2)]
  have g: "lane_sound ?r" using assms(1) e lane_good_step[of r "LComplete ?n None"] by (auto simp: lane_ok_def lane_step_def)
  have "own_prefix ?r ns' (map observed_number os'')"
    unfolding own_prefix_def
  proof
    assume "fl_first_failure ?r = None"
    then have f: "fl_first_failure r = None"
      "numbered (unat (fl_completed_through ?r)) = numbered (unat (fl_completed_through r)) @ [?n]"
      using Complete_next e by blast+
    with assms(1,3,4) show "ns' = numbered (unat (fl_completed_through ?r)) @ map observed_number os''"
      by (simp add: lane_ok_def own_prefix_def)
  qed
  moreover have "\<forall>ob\<in>set os'' \<union> set qs. own_observation u ?r ob"
  proof -
    have "own_observation u ?r ob' = own_observation u r ob'" for ob' by (cases ob') (simp_all add: own_observation_def)
    moreover have "\<forall>ob\<in>set os'' \<union> set qs. own_observation u r ob" using assms(1,5,6) unfolding lane_ok_def by blast
    ultimately show ?thesis by blast
  qed
  ultimately show ?thesis using g by (simp add: lane_ok_def)
qed

lemma lane_ok_buffer:
  "lane_ok u r os (ob # qs) ns \<Longrightarrow> lane_ok u r (os @ [ob]) qs (ns @ [observed_number ob])"
  by (auto simp: lane_ok_def own_prefix_def)

lemma lane_ok_flush:
  "lane_ok u r os qs ns \<Longrightarrow> lane_ok u (fold (\<lambda>ob. Lane_Complete (observed_number ob) None) os r) [] qs ns"
proof (induction os arbitrary: r)
  case (Cons ob os)
  have "lane_ok u (Lane_Complete (observed_number ob) None r) os qs ns"
    using lane_ok_complete[OF Cons.prems, of ob ns "[]" os] Cons.prems by (auto simp: lane_ok_def)
  with Cons.IH show ?case by simp
qed simp


text \<open>The lane invariant of a run, and the steps that keep it.\<close>

definition run_lane :: "CacheState \<Rightarrow> TransportSample list \<Rightarrow> cache_hist \<Rightarrow> bool" where
  "run_lane st q h \<longleftrightarrow>
     lane_ok (ca_publisher_uuid st) (ca_receiver st) (ca_buffered_observations st) (map ts_fence_lane q) (own_numbers h) \<and>
     (ca_phase st = PhaseLive \<longrightarrow> ca_buffered_observations st = [])"

lemma own_complete:
  "own_observation (ca_publisher_uuid st) r ob \<Longrightarrow>
     Cache_CompleteFenceObservation ob st = st\<lparr>ca_receiver := Lane_Complete (observed_number ob) None (ca_receiver st)\<rparr>"
  by (simp add: own_observation_def Cache_CompleteFenceObservation_def split: FenceLaneObservation.splits)

lemma run_lane_process:
  assumes "run_lane st (s # q) h"
  shows "run_lane (fst (Cache_OnData s True st)) q (h @ Received s True st)"
proof -
  let ?ob = "ts_fence_lane s" and ?u = "ca_publisher_uuid st" and ?r = "ca_receiver st"
  have ok: "lane_ok ?u ?r (ca_buffered_observations st) (?ob # map ts_fence_lane q) (own_numbers h)"
    and live: "ca_phase st = PhaseLive \<longrightarrow> ca_buffered_observations st = []" using assms by (simp_all add: run_lane_def)
  have own: "own_observation ?u ?r ?ob" using ok by (simp add: lane_ok_def)
  then obtain lane where lane: "?ob = FenceLaneObserved lane" "flm_publisher_uuid lane = ?u"
    by (auto simp: own_observation_def split: FenceLaneObservation.splits)
  have rest: "lane_ok ?u ?r (ca_buffered_observations st) (map ts_fence_lane q) (own_numbers h)"
    by (rule lane_ok_subset[OF ok]) auto
  show ?thesis
  proof (cases "Cache_DecodeSample st s")
    case None
    with lane_ok_error[OF rest own] live lane show ?thesis by (simp add: Cache_OnData_def Received_def run_lane_def)
  next
    case (Some ms)
    show ?thesis
    proof (cases "ca_phase st")
      case PhaseBuffering
      with Some lane lane_ok_buffer[OF ok] show ?thesis by (simp add: Cache_OnData_def Received_def run_lane_def)
    next
      case PhaseLive
      with lane_ok_complete[OF rest own, of "own_numbers h @ [observed_number ?ob]" "[?ob]" "[]"] live own
      have "lane_ok ?u (Lane_Complete (observed_number ?ob) None ?r) [] (map ts_fence_lane q) (own_numbers h @ [observed_number ?ob])"
        by simp
      moreover have "Cache_CompleteFenceObservation ?ob (ApplyMutations ms st) =
          (ApplyMutations ms st)\<lparr>ca_receiver := Lane_Complete (observed_number ?ob) None ?r\<rparr>"
        using own_complete[of "ApplyMutations ms st" ?r ?ob] own by simp
      ultimately show ?thesis using Some PhaseLive lane live by (simp add: Cache_OnData_def Received_def run_lane_def Let_def)
    next
      case PhaseStopping
      with Some rest show ?thesis by (simp add: Cache_OnData_def Received_def run_lane_def)
    qed
  qed
qed

lemma Cache_DecodeSample_receiver [simp]: "Cache_DecodeSample (st\<lparr>ca_receiver := r\<rparr>) s = Cache_DecodeSample st s"
  by (simp add: Cache_DecodeSample_def Cache_DecodeOrdinary_def IsExpected_def split: option.split)

lemma run_lane_bypass:
  assumes "run_lane st q h" "lane_nonzero (ts_fence_lane s)"
  shows "run_lane (fst (Cache_OnData s False st)) q (h @ Received s False st)"
proof -
  let ?u = "ca_publisher_uuid st" and ?r = "ca_receiver st"
  have ok: "lane_ok ?u ?r (ca_buffered_observations st) (map ts_fence_lane q) (own_numbers h)"
    and live: "ca_phase st = PhaseLive \<longrightarrow> ca_buffered_observations st = []" using assms(1) by (simp_all add: run_lane_def)
  consider (other) "\<forall>b. Cache_AdmitFenceObservation (ts_fence_lane s) b st = (st, FenceBypass)"
    | (malformed) m where "m \<noteq> Some 0"
        "\<forall>b. Cache_AdmitFenceObservation (ts_fence_lane s) b st = (st\<lparr>ca_receiver := Lane_RecordMalformed m ?r\<rparr>, FenceReject)"
    | (own) lane where "ts_fence_lane s = FenceLaneObserved lane" "flm_publisher_uuid lane = ?u" "flm_sequence lane \<noteq> 0"
  proof (cases "ts_fence_lane s")
    case FenceLaneAbsent
    then show ?thesis by (intro other) (simp add: Cache_AdmitFenceObservation_def)
  next
    case (FenceLaneObserved lane)
    show ?thesis
    proof (cases "flm_publisher_uuid lane = ?u")
      case True
      with FenceLaneObserved assms(2) show ?thesis by (intro own[of lane]) simp_all
    next
      case False
      with FenceLaneObserved show ?thesis by (intro other) (simp add: Cache_AdmitFenceObservation_def)
    qed
  next
    case (FenceLaneMalformed p m)
    show ?thesis
    proof (cases "p = Some ?u")
      case True
      with FenceLaneMalformed assms(2) show ?thesis by (intro malformed[of m]) (simp_all add: Cache_AdmitFenceObservation_def)
    next
      case False
      with FenceLaneMalformed show ?thesis by (intro other) (simp add: Cache_AdmitFenceObservation_def)
    qed
  qed
  then show ?thesis
  proof cases
    case other
    then have "own_numbers (Received s False st) = []" by (simp add: Received_def Let_def split: option.split)
    moreover from other have "ca_receiver (fst (Cache_OnData s False st)) = ?r" "ca_publisher_uuid (fst (Cache_OnData s False st)) = ?u"
      "ca_buffered_observations (fst (Cache_OnData s False st)) = ca_buffered_observations st" "ca_phase (fst (Cache_OnData s False st)) = ca_phase st"
      by (simp_all add: Cache_OnData_def Let_def split: option.split)
    ultimately show ?thesis using ok live by (simp add: run_lane_def)
  next
    case (malformed m)
    then have "Received s False st = []" "fst (Cache_OnData s False st) = st\<lparr>ca_receiver := Lane_RecordMalformed m ?r\<rparr>"
      by (simp_all add: Received_def Cache_OnData_def Let_def split: option.split)
    with lane_ok_malformed[OF ok malformed(1)] live show ?thesis by (simp add: run_lane_def)
  next
    case (own lane)
    obtain r' b where a: "Lane_Admit (flm_sequence lane) ?r = (r', b)" by (cases "Lane_Admit (flm_sequence lane) ?r")
    show ?thesis
    proof (cases b)
      case False
      with own a have "Received s False st = []" "fst (Cache_OnData s False st) = st\<lparr>ca_receiver := r'\<rparr>"
        by (simp_all add: Received_def Cache_OnData_def Let_def Cache_AdmitFenceObservation_def split: option.split)
      with lane_ok_admit[OF ok own(3)] a live show ?thesis by (simp add: run_lane_def)
    next
      case True
      let ?st = "st\<lparr>ca_receiver := r'\<rparr>"
      have "run_lane ?st (s # q) h" using lane_ok_admitted[OF ok _ own(2), of r'] a True own(1) live by (simp add: run_lane_def)
      then have "run_lane (fst (Cache_OnData s True ?st)) q (h @ Received s True ?st)" by (rule run_lane_process)
      moreover have "fst (Cache_OnData s False st) = fst (Cache_OnData s True ?st)" "Received s False st = Received s True ?st"
        using own a True by (simp_all add: Received_def Cache_OnData_def Let_def Cache_AdmitFenceObservation_def split: option.split)
      ultimately show ?thesis by simp
    qed
  qed
qed


lemma CacheAdmit_own:
  assumes "CacheAdmit s st = (st', Some out)" "DataSample st s"
  shows "\<not> CacheMarker s st" "own_lane s st"
  using assms by (auto simp: CacheAdmit_def CacheMarker_def DataSample_def Let_def split: if_splits option.splits prod.splits)

lemma run_lane_overflow:
  assumes "run_lane st q h" "lane_nonzero (ts_fence_lane s)"
  shows "run_lane (CacheOverflow False s st) q h"
  using assms by (auto simp: run_lane_def CacheOverflow_def intro: lane_ok_overflow lane_ok_malformed split: FenceLaneObservation.split)

lemma run_lane_prepare:
  assumes "run_lane st q h" "lane_nonzero (ts_fence_lane s)" "own_lane s st" "CachePrepare False s st = (st', ok)"
  shows "run_lane st' (if ok then q @ [s] else q) h"
proof (cases "ts_fence_lane s")
  case (FenceLaneObserved lane)
  obtain r b where a: "Lane_Admit (flm_sequence lane) (ca_receiver st) = (r, b)" by fastforce
  with FenceLaneObserved assms(4) have st': "st' = st\<lparr>ca_receiver := r\<rparr>" "ok = b" by (auto simp: CachePrepare_def)
  have ok: "lane_ok (ca_publisher_uuid st) (ca_receiver st) (ca_buffered_observations st) (map ts_fence_lane q) (own_numbers h)"
    using assms(1) by (simp add: run_lane_def)
  show ?thesis
  proof (cases b)
    case True
    then show ?thesis using lane_ok_admitted[OF ok, of lane r] a assms(1,3) st' FenceLaneObserved by (simp add: run_lane_def own_lane_def)
  next
    case False
    then show ?thesis using lane_ok_admit[OF ok, of "flm_sequence lane"] a assms(1,2) st' FenceLaneObserved by (simp add: run_lane_def)
  qed
qed (use assms in \<open>auto simp: CachePrepare_def own_lane_def run_lane_def intro: lane_ok_malformed\<close>)

lemma run_lane_dispatcher [simp]:
  "run_lane (st\<lparr>ca_dispatcher := d\<rparr>) q h = run_lane st q h" "run_lane (st\<lparr>ca_in_flight := f\<rparr>) q h = run_lane st q h"
  by (simp_all add: run_lane_def)

lemma run_lane_release [simp]: "run_lane (CacheRelease st) q h = run_lane st q h"
  by (simp add: CacheRelease_def)

lemma run_lane_tl: "run_lane st (s # q) h \<Longrightarrow> run_lane st q h"
  by (auto simp: run_lane_def intro: lane_ok_subset)

lemma run_lane_TakeIn: "run_lane (TakeIn ms st) q h = run_lane st q h"
  by (cases "ca_phase st") (simp_all add: run_lane_def TakeIn_def)

lemma run_lane_retain:
  assumes "run_lane st q h" "lane_nonzero (ts_fence_lane s)"
  shows "run_lane (RetainCacheDispatchFailure s b c st) q h"
  using assms by (auto simp: run_lane_def RetainCacheDispatchFailure_def Let_def
      intro: lane_ok_rejected lane_ok_overflow lane_ok_malformed split: FenceLaneObservation.split)

lemma run_lane_admit:
  assumes "run_lane st q h" "lane_nonzero (ts_fence_lane s)" "DataSample st s" "CacheAdmit s st = (st', Some out)"
  shows "run_lane st' (if out = OAdmitted then q @ [s] else q) h"
proof -
  note own = CacheAdmit_own[OF assms(4,3)]
  from assms(4) show ?thesis
  proof (cases rule: CacheAdmit_cases)
    case (1 d)
    with assms(1) show ?thesis by simp
  next
    case (2 d)
    with run_lane_overflow[OF assms(1,2)] own show ?thesis by simp
  next
    case (3 d st1)
    with run_lane_prepare[OF assms(1,2) own(2), of st1 False] own show ?thesis by simp
  next
    case (4 d st1)
    with run_lane_prepare[OF assms(1,2) own(2), of st1 True] own show ?thesis by simp
  qed
qed

lemma Complete_fold_own:
  "\<forall>ob\<in>set os. own_observation (ca_publisher_uuid st) r ob \<Longrightarrow> fold Cache_CompleteFenceObservation os st =
     st\<lparr>ca_receiver := fold (\<lambda>ob. Lane_Complete (observed_number ob) None) os (ca_receiver st)\<rparr>"
proof (induction os arbitrary: st)
  case (Cons ob os)
  let ?st = "st\<lparr>ca_receiver := Lane_Complete (observed_number ob) None (ca_receiver st)\<rparr>"
  have "Cache_CompleteFenceObservation ob st = ?st" using Cons.prems by (intro own_complete) auto
  with Cons.IH[of ?st] Cons.prems show ?case by simp
qed simp

lemma run_lane_live:
  assumes "run_lane st q h"
  shows "run_lane (GoLive snapshot overlay st) q h"
proof -
  let ?st = "ApplyMutations (ca_buffered st) (st\<lparr>ca_baseline := snapshot, ca_effective := fold (\<lambda>(k, v). map_insert k v) overlay snapshot\<rparr>)"
  have ok: "lane_ok (ca_publisher_uuid st) (ca_receiver st) (ca_buffered_observations st) (map ts_fence_lane q) (own_numbers h)"
    using assms by (simp add: run_lane_def)
  then have "fold Cache_CompleteFenceObservation (ca_buffered_observations st) ?st = ?st\<lparr>ca_receiver :=
      fold (\<lambda>ob. Lane_Complete (observed_number ob) None) (ca_buffered_observations st) (ca_receiver ?st)\<rparr>"
    by (intro Complete_fold_own[where r = "ca_receiver st"]) (simp add: lane_ok_def)
  with lane_ok_flush[OF ok] show ?thesis by (simp add: GoLive_def Let_def run_lane_def)
qed

lemma own_lane_nonzero: "own_observation u r ob \<Longrightarrow> lane_nonzero ob"
  by (cases ob) (simp_all add: own_observation_def)

lemma run_lane_head: "run_lane st (s # q) h \<Longrightarrow> own_observation (ca_publisher_uuid st) (ca_receiver st) (ts_fence_lane s)"
  by (simp add: run_lane_def lane_ok_def)

lemma cache_step_lane:
  assumes "cache_step D r r'" "run_lane (fst r) (fst (snd r)) (fst (snd (snd r)))"
  shows "run_lane (fst r') (fst (snd r')) (fst (snd (snd r')))"
  using assms
proof (induction rule: cache_step.induct)
  case (run_admit s st st' out q h i)
  then show ?case using run_lane_admit[of st q h s st' out] by simp
next
  case (run_bypass s st q h i)
  then show ?case using run_lane_bypass[of st q h s] by simp
next
  case (run_process st s q h i)
  then show ?case using run_lane_process[of st s q h] by simp
next
  case (run_skip st s q h i)
  then show ?case using run_lane_tl[of st s q h] by simp
next
  case (run_fail ms k s st q h i)
  have "run_lane (TakeIn ms st) q h" using run_fail run_lane_tl[of st s q h] by (simp add: run_lane_TakeIn)
  then have "run_lane (RetainCacheDispatchFailure s True (ms \<noteq> []) (TakeIn ms st)) q h"
    using run_lane_head[of st s q h] own_lane_nonzero run_fail.prems by (intro run_lane_retain) auto
  then show ?case by (simp add: run_lane_def CacheRelease_def)
next
  case (run_drop s st q h i)
  then show ?case using run_lane_retain[of st q h s] by simp
next
  case (run_live st snapshot overlay q h i)
  then show ?case using run_lane_live[of st q h] by simp
next
  case (run_write st q h i ms)
  then show ?case by (auto simp: run_lane_def)
next
  case (run_stop st q h i)
  then show ?case by (simp add: run_lane_def CacheStop_def CloseDispatch_def CloseGate_def)
qed


section \<open>Where the numbered mutations come from\<close>

definition cache_identity :: "CacheState \<Rightarrow> string \<times> string \<times> FenceUuid" where
  "cache_identity st = (ca_prefix st, ca_sid st, ca_publisher_uuid st)"

lemma decode_identity: "cache_identity st' = cache_identity st \<Longrightarrow> Cache_DecodeSample st' s = Cache_DecodeSample st s"
  by (simp add: cache_identity_def Cache_DecodeSample_def Cache_DecodeOrdinary_def IsExpected_def split: option.split)

lemma identity_updates [simp]:
  "cache_identity (st\<lparr>ca_receiver := r\<rparr>) = cache_identity st" "cache_identity (st\<lparr>ca_dispatcher := d\<rparr>) = cache_identity st"
  "cache_identity (st\<lparr>ca_in_flight := f\<rparr>) = cache_identity st"
  "cache_identity (st\<lparr>ca_receiver := r, ca_buffered_observations := os\<rparr>) = cache_identity st"
  "cache_identity (CacheRelease st) = cache_identity st" "cache_identity (ApplyMutations ms st) = cache_identity st"
  "cache_identity (CacheStop st) = cache_identity st"
  by (simp_all add: cache_identity_def CacheRelease_def CacheStop_def CloseDispatch_def CloseGate_def)

lemma TakeIn_identity [simp]: "cache_identity (TakeIn ms st) = cache_identity st"
  by (cases "ca_phase st") (simp_all add: TakeIn_def cache_identity_def)

lemma OnData_identity [simp]: "cache_identity (fst (Cache_OnData s p st)) = cache_identity st"
  by (subst OnData_take) simp

lemma Retain_identity [simp]: "cache_identity (RetainCacheDispatchFailure s b c st) = cache_identity st"
  by (subst Retain_only) simp

lemma GoLive_identity [simp]: "cache_identity (GoLive snapshot overlay st) = cache_identity st"
proof -
  let ?st = "ApplyMutations (ca_buffered st) (st\<lparr>ca_baseline := snapshot, ca_effective := fold (\<lambda>(k, v). map_insert k v) overlay snapshot\<rparr>)"
  obtain r where "fold Cache_CompleteFenceObservation (ca_buffered_observations st) ?st = ?st\<lparr>ca_receiver := r\<rparr>"
    using Complete_fold_only by metis
  then show ?thesis by (simp add: GoLive_def Let_def cache_identity_def)
qed

lemma cache_step_identity: "cache_step D r r' \<Longrightarrow> cache_identity (fst r') = cache_identity (fst r)"
proof (induction rule: cache_step.induct)
  case (run_admit s st st' out q h i)
  then obtain r d where "st' = st\<lparr>ca_receiver := r, ca_dispatcher := d\<rparr>" using CacheAdmit_only by metis
  then show ?case by simp
qed simp_all

text \<open>A numbered entry of the history is the decoding of a delivered sample of the own lane under that number.\<close>

definition own_submission :: "TransportSample set \<Rightarrow> CacheState \<Rightarrow> u64 \<Rightarrow> Mutation list \<Rightarrow> bool" where
  "own_submission D st n ms \<longleftrightarrow> (\<exists>s\<in>D. \<exists>lane. ts_fence_lane s = FenceLaneObserved lane \<and> flm_publisher_uuid lane = ca_publisher_uuid st \<and>
     flm_sequence lane = n \<and> Cache_DecodeSample st s = Some ms)"

lemma own_submission_identity: "cache_identity st' = cache_identity st \<Longrightarrow> own_submission D st' n ms = own_submission D st n ms"
  using decode_identity[of st' st] by (simp add: own_submission_def cache_identity_def)

lemma Received_own:
  assumes "(Some n, ms) \<in> set (Received s p st)" "s \<in> D" "p \<longrightarrow> own_observation (ca_publisher_uuid st) (ca_receiver st) (ts_fence_lane s)"
  shows "own_submission D st n ms"
proof -
  from assms(1) have ms: "Cache_DecodeSample st s = Some ms" and n: "lane_number (ts_fence_lane s) = Some n"
    and a: "\<not> p \<longrightarrow> snd (Cache_AdmitFenceObservation (ts_fence_lane s) True st) = FenceApply"
    by (auto simp: Received_def Let_def split: option.splits if_splits)
  from n obtain lane where lane: "ts_fence_lane s = FenceLaneObserved lane" "flm_sequence lane = n" by (cases "ts_fence_lane s") auto
  have "flm_publisher_uuid lane = ca_publisher_uuid st"
    using a assms(3) lane by (cases p) (auto simp: Cache_AdmitFenceObservation_def own_observation_def split: if_splits)
  with ms lane assms(2) show ?thesis unfolding own_submission_def by blast
qed

definition history_ok :: "TransportSample set \<Rightarrow> cache_run \<Rightarrow> bool" where
  "history_ok D = (\<lambda>(st, q, h, i). set q \<subseteq> D \<and> (\<forall>n ms. (Some n, ms) \<in> set h \<longrightarrow> own_submission D st n ms))"

lemma cache_step_history:
  assumes "cache_step D r r'" "history_ok D r" "run_lane (fst r) (fst (snd r)) (fst (snd (snd r)))"
  shows "history_ok D r'"
proof -
  have own: "own_submission D (fst r') n ms = own_submission D (fst r) n ms" for n ms
    by (rule own_submission_identity[OF cache_step_identity[OF assms(1)]])
  from assms(1) show ?thesis
  proof (cases rule: cache_step.cases)
    case (run_bypass s st q h i)
    then show ?thesis using assms(2) own Received_own[of _ _ s False st D] by (auto simp: history_ok_def)
  next
    case (run_process st s q h i)
    moreover have "own_observation (ca_publisher_uuid st) (ca_receiver st) (ts_fence_lane s)"
      using run_process assms(3) by (intro run_lane_head) simp
    ultimately show ?thesis using assms(2) own Received_own[of _ _ s True st D] by (auto simp: history_ok_def)
  qed (use assms(2) own in \<open>auto simp: history_ok_def\<close>)
qed

definition cache_inv :: "TransportSample set \<Rightarrow> CacheState \<Rightarrow> cache_run \<Rightarrow> bool" where
  "cache_inv D st0 r \<longleftrightarrow> cache_identity (fst r) = cache_identity st0 \<and> value_inv (fst r) (received (fst (snd (snd r)))) (snd (snd (snd r))) \<and>
     run_lane (fst r) (fst (snd r)) (fst (snd (snd r))) \<and> history_ok D r"

lemma cache_reach_inv:
  assumes "cache_reach D (NewCacheState pfx sid g u d reg has) r"
  shows "cache_inv D (NewCacheState pfx sid g u d reg has) r"
  using assms
proof (induction rule: cache_reach.induct)
  case run_start
  have "lane_sound FenceLaneInit" using lane_inv_init by blast
  then show ?case
    by (simp add: cache_inv_def value_inv_def run_lane_def lane_ok_def own_prefix_def history_ok_def NewCacheState_def FenceLaneInit_def)
next
  case (run_step r r')
  then show ?case
    using cache_step_identity[of D r r'] cache_step_values[of D r r'] cache_step_lane[of D r r'] cache_step_history[of D r r']
    by (simp add: cache_inv_def)
next
  case (run_other st q h i f d)
  then show ?case using own_submission_identity[of "st\<lparr>ca_dispatcher := d, ca_in_flight := f\<rparr>" st D]
    by (auto simp: cache_inv_def history_ok_def elim: value_inv_cong)
qed

section \<open>The handler is a run\<close>

lemma run_leases: "cache_reach D st0 (st, q, h, i) \<Longrightarrow> cache_reach D st0 (st\<lparr>ca_in_flight := f\<rparr>, q, h, i)"
  using run_other[where d = "ca_dispatcher st"] by fastforce

lemma in_flight_irrelevant [simp]:
  "CacheMarker s (st\<lparr>ca_in_flight := f\<rparr>) = CacheMarker s st" "own_lane s (st\<lparr>ca_in_flight := f\<rparr>) = own_lane s st"
  "own_session s (st\<lparr>ca_in_flight := f\<rparr>) = own_session s st" "DataSample (st\<lparr>ca_in_flight := f\<rparr>) s = DataSample st s"
  by (simp_all add: CacheMarker_def own_lane_def own_session_def DataSample_def split: FenceLaneObservation.split option.split)

lemma OnSample_data:
  assumes "DataSample (cstate v) s"
  shows "cstate (fst (Cache_OnSample ft s p v)) = (if \<not> ca_accepting (cstate v) then cstate v
    else LeaveState (fst (Cache_OnData s p ((cstate v)\<lparr>ca_in_flight := ca_in_flight (cstate v) + 1\<rparr>))))"
proof -
  obtain pu st w where v: "v = (pu, st, w)" by (cases v)
  show ?thesis using assms
    by (auto simp: v Cache_OnSample_def EnterState_def DataSample_def updc_def Let_def split: option.splits prod.splits)
qed

lemma release_leave: "CacheRelease (LeaveState st) = LeaveState (CacheRelease st)"
  by (cases st) (simp add: CacheRelease_def LeaveState_def)

text \<open>A delivery that nothing interleaves with is such a run.\<close>

lemma dispatch_reach:
  assumes "cache_reach D st0 (cstate v, [], h, i)" "s \<in> D" "lane_nonzero (ts_fence_lane s)" "DataSample (cstate v) s"
  shows "\<exists>h'. cache_reach D st0 (cstate (Cache_DispatchSample ft s v), [], h', i)"
proof -
  obtain pu st w where v: "v = (pu, st, w)" by (cases v)
  obtain st1 out where a: "CacheAdmit s st = (st1, out)" by fastforce
  have data: "DataSample st s" using assms(4) v by simp
  show ?thesis
  proof (cases out)
    case None
    then have st1: "st1 = st" using a by (auto simp: CacheAdmit_def Let_def split: if_splits option.splits prod.splits)
    let ?st = "st\<lparr>ca_in_flight := ca_in_flight st + 1\<rparr>"
    have "cache_reach D st0 (?st, [], h, i)" using run_leases[of D st0 st] assms(1) v by simp
    moreover have "CacheAdmit s ?st = (?st, None)"
      using a None st1 by (auto simp: CacheAdmit_def Let_def split: if_splits option.splits prod.splits)
    moreover have "DataSample ?st s" using data by simp
    ultimately have "cache_reach D st0 (fst (Cache_OnData s False ?st), [], h @ Received s False ?st, i)"
      using run_step run_bypass assms(2,3) by blast
    then have "cache_reach D st0 (LeaveState (fst (Cache_OnData s False ?st)), [], h @ Received s False ?st, i)"
      unfolding LeaveState_def by (rule run_leases)
    then show ?thesis using OnSample_data[of v s ft False] a None st1 v data assms(1)
      by (auto simp: Cache_DispatchSample_def updc_def)
  next
    case (Some oc)
    have r1: "cache_reach D st0 (st1, if oc = OAdmitted then [s] else [], h, i)"
      using run_step[OF assms(1) run_admit[of s D "cstate v" st1 oc "[]" h i]] a Some v assms(2-4) by (auto split: if_splits)
    show ?thesis
    proof (cases "oc = OAdmitted")
      case False
      with r1 a Some v show ?thesis by (auto simp: Cache_DispatchSample_def updc_def)
    next
      case True
      have m: "\<not> CacheMarker s st" using CacheAdmit_own(1) a Some data by blast
      obtain r d where "st1 = st\<lparr>ca_receiver := r, ca_dispatcher := d\<rparr>" using CacheAdmit_only a Some by metis
      with data have d1: "DataSample st1 s" by (simp add: DataSample_def)
      let ?st = "st1\<lparr>ca_in_flight := ca_in_flight st1 + 1\<rparr>"
      have eq: "cstate (Cache_DispatchSample ft s v) = CacheRelease (if \<not> ca_accepting st1 then st1 else LeaveState (fst (Cache_OnData s True ?st)))"
        using OnSample_data[of "(pu, st1, w)" s ft True] a Some True v m d1
        by (cases "fst (Cache_OnSample ft s True (pu, st1, w))") (simp add: Cache_DispatchSample_def updc_def CacheRelease_def)
      show ?thesis
      proof (cases "ca_accepting st1")
        case False
        with run_step[OF r1, of "(CacheRelease st1, [], h, i)"] run_skip[of st1 D s "[]" h i] True eq show ?thesis by auto
      next
        case acc: True
        have "cache_reach D st0 (?st, [s], h, i)" using run_leases[of D st0 st1 "[s]" h i] r1 True by simp
        then have "cache_reach D st0 (CacheRelease (fst (Cache_OnData s True ?st)), [], h @ Received s True ?st, i)"
          using run_step run_process by blast
        then have "cache_reach D st0 (LeaveState (CacheRelease (fst (Cache_OnData s True ?st))), [], h @ Received s True ?st, i)"
          unfolding LeaveState_def by (rule run_leases)
        with acc eq show ?thesis by (auto simp: release_leave)
      qed
    qed
  qed
qed

text \<open>A cache without dispatcher that receives its own first write before its queries return.\<close>

definition example_cache :: CacheState where
  "example_cache = NewCacheState ''p'' ''s1'' [1] [2] None 0 True"

definition example_echo :: TransportSample where
  "example_echo = \<lparr>ts_key = ''p/session/s1/a'', ts_payload = [7], ts_encoding = ''b'', ts_ack = AckAttachmentAbsent, ts_kind = SamplePut,
     ts_fence_lane = FenceLaneObserved \<lparr>flm_publisher_uuid = [2], flm_sequence = 1\<rparr>\<rparr>"

definition example_live :: CacheState where
  "example_live = GoLive [] [(''a'', PV_Bytes [7])] (fst (Cache_OnData example_echo False example_cache))"

lemma example_decode: "Cache_DecodeSample example_cache example_echo = Some [MutationPut ''a'' (PV_Bytes [7])]"
  by code_simp

lemma IsValidKey_example: "IsValidKey ''a''"
  by code_simp

lemma example_run:
  "cache_reach {example_echo} (NewCacheState ''p'' ''s1'' [1] [2] None 0 True)
     (example_live, [], [(Some 1, [MutationPut ''a'' (PV_Bytes [7])])], Some ([], [(''a'', PV_Bytes [7])]))"
proof -
  have data: "DataSample example_cache example_echo" by code_simp
  have admit: "CacheAdmit example_echo example_cache = (example_cache, None)"
    by (simp add: CacheAdmit_def example_cache_def NewCacheState_def Let_def)
  have "Received example_echo False example_cache = [(Some 1, [MutationPut ''a'' (PV_Bytes [7])])]"
    by (simp add: Received_def example_decode) (simp add: Cache_AdmitFenceObservation_def example_cache_def example_echo_def NewCacheState_def
        Lane_Admit_def FenceLaneInit_def observe_def Let_def)
  with run_step[OF run_start run_bypass[OF _ _ data admit]]
  have "cache_reach {example_echo} example_cache (fst (Cache_OnData example_echo False example_cache), [],
      [(Some 1, [MutationPut ''a'' (PV_Bytes [7])])], None)" by (simp add: example_echo_def)
  moreover have "ca_phase (fst (Cache_OnData example_echo False example_cache)) = PhaseBuffering" by code_simp
  ultimately have "cache_reach {example_echo} example_cache (example_live, [], [(Some 1, [MutationPut ''a'' (PV_Bytes [7])])],
      Some ([], [(''a'', PV_Bytes [7])]))"
    unfolding example_live_def by (intro run_step[OF _ run_live]) (simp_all add: map_wf_def)
  then show ?thesis by (simp add: example_cache_def)
qed

section \<open>Properties\<close>

text \<open>C9: wherever the overlay query fell in the stream of samples, the cache reads as a consistent overlay over
  the snapshot.  Take any run of an attachment (samples of any lane, arriving before, between or after the queries, on any number
  of threads, with dropped and failing callbacks and local writes), where the overlay the query returned is the effect of some
  prefix of the received mutations on an earlier overlay.  Then the overlay after all received mutations decides every read, and a
  key it does not hold reads from the snapshot: nothing is lost, duplicated or resurrected.\<close>

theorem cache_reads_overlay_over_snapshot:
  assumes "cache_reach D (NewCacheState pfx sid g u d reg has) (st, q, h, Some (snapshot, overlay))"
    and "map_of overlay = fold OverlayApply (take n (received h)) ov" and "IsValidKey key"
  shows "Cache_GetShared CacheAttached key st = (case (map_of snapshot ++ fold OverlayApply (received h) ov) key of
      Some v \<Rightarrow> Result_Ok v | None \<Rightarrow> Err NotFound ''parameter key not found'') \<and>
    Cache_Contains CacheAttached key st = Result_Ok ((map_of snapshot ++ fold OverlayApply (received h) ov) key \<noteq> None)"
proof -
  have "map_of (ca_effective st) = map_of snapshot ++ fold OverlayApply (received h) (map_of overlay)"
    using cache_reach_inv[OF assms(1)] by (simp add: cache_inv_def value_inv_def)
  then have "map_of (ca_effective st) = map_of snapshot ++ fold OverlayApply (received h) ov"
    by (simp add: assms(2) fold_overlay_prefix)
  with assms(3) show ?thesis
    by (simp add: Cache_GetShared_def Cache_Contains_def ValidateCacheKey_def LoadState_def Result_Ok_def split: option.split)
qed

theorem cache_reads_overlay_over_snapshot_witness:
  "Cache_GetShared CacheAttached ''a'' example_live = Result_Ok (PV_Bytes [7])"
proof -
  have "map_of [(''a'', PV_Bytes [7])] = fold OverlayApply (take 1 (received [(Some 1 :: u64 option, [MutationPut ''a'' (PV_Bytes [7])])])) Map.empty"
    by simp
  from cache_reads_overlay_over_snapshot[OF example_run this, of "''a''"] show ?thesis by simp (use IsValidKey_example in simp)
qed

text \<open>C8: when the lane of a live cache answers a fence with success, the own submissions the cache has taken in are exactly
  those numbered 1 to the fence's number, in this order and each once, and each entry is the decoding of a delivered sample of the
  own lane.  A sample that was dropped, overflowed, failed half-way, arrived twice, out of order or with damaged metadata leaves
  no successful verdict behind.\<close>

theorem cache_fence_covers:
  assumes "cache_reach D (NewCacheState pfx sid g u d reg has) (st, q, h, i)" and "ca_phase st = PhaseLive"
    and "ar_status (Lane_Evaluate n Applied (ca_receiver st)) = Ok"
  shows "own_numbers h = numbered (unat n) \<and>
    (\<forall>k ms. (Some k, ms) \<in> set h \<longrightarrow> own_submission D (NewCacheState pfx sid g u d reg has) k ms)"
proof -
  note inv = cache_reach_inv[OF assms(1)]
  then obtain log where "lane_inv (ca_receiver st) log" by (auto simp: cache_inv_def run_lane_def lane_ok_def)
  with assms(3) have "fl_first_failure (ca_receiver st) = None" "fl_completed_through (ca_receiver st) = n"
    by (simp_all add: Evaluate_ok_iff)
  with inv assms(2) have "own_numbers h = numbered (unat n)" by (simp add: cache_inv_def run_lane_def lane_ok_def own_prefix_def)
  moreover have "\<forall>k ms. (Some k, ms) \<in> set h \<longrightarrow> own_submission D (NewCacheState pfx sid g u d reg has) k ms"
    using inv own_submission_identity[of st "NewCacheState pfx sid g u d reg has"] by (auto simp: cache_inv_def history_ok_def)
  ultimately show ?thesis by blast
qed

theorem cache_fence_covers_witness:
  "own_numbers [(Some 1, [MutationPut ''a'' (PV_Bytes [7])])] = numbered (unat (1 :: u64))"
proof -
  have "ca_phase example_live = PhaseLive" "ar_status (Lane_Evaluate 1 Applied (ca_receiver example_live)) = Ok" by code_simp+
  from cache_fence_covers[OF example_run this] show ?thesis by blast
qed

end
