(* ===== verification/CacheRecovery.thy ===== *)
theory CacheRecovery
  imports ParamCache
begin

text \<open>
  The recovery protocol of a cache attachment on a transport with liveliness: the liveliness callback, the attaching thread, the
  recovery worker and Detach, each critical section and each store to a shared pointer one step, in any interleaving.  The result is
  that a cache whose published recovery record does not report it stale serves a state that was built after the generation it is bound to had been announced
  and before anything contradicted it, that a stale cache with a live generation always has a worker step to take, and exactly when a
  state is served while no record is published, so that \<open>IsStale\<close> is false whatever the state is worth.
\<close>

section \<open>The protocol\<close>

datatype RecoveryWorker = WorkerIdle | WorkerBuilding string u64 nat

text \<open>Where the call that holds the lifecycle mutex is: first \<open>Attach\<close>, then \<open>Detach\<close>.  \<open>AttachStored\<close> has published the
  state but not armed the record, \<open>AttachArmed\<close> has not yet stored the record to \<open>impl_->recovery\<close>, \<open>DetachWithdrawn\<close> has
  exchanged that pointer for null, \<open>DetachStopping\<close> has set the stop flag and waits for the worker, \<open>DetachJoined\<close>
  quiesces the state, and \<open>DetachDone\<close> has withdrawn it.\<close>

datatype AttachStage = AttachStarted | AttachFailed | AttachBuilding string u64 nat | AttachStored string u64 | AttachArmed | AttachPublished |
  DetachWithdrawn | DetachStopping | DetachJoined | DetachDone

text \<open>What \<open>impl_->recovery\<close> holds.\<close>

definition recovery_pointer :: "AttachStage \<Rightarrow> Recovery \<Rightarrow> Recovery option" where
  "recovery_pointer a rv = (if a = AttachPublished then Some rv else None)"

text \<open>The stages in which \<open>LoadState\<close> finds a state.\<close>

definition serving :: "AttachStage \<Rightarrow> bool" where
  "serving a \<longleftrightarrow> (case a of AttachStarted \<Rightarrow> False | AttachFailed \<Rightarrow> False | AttachBuilding _ _ _ \<Rightarrow> False | DetachDone \<Rightarrow> False | _ \<Rightarrow> True)"

text \<open>The record, the worker, the attaching or detaching thread, the point in the event history at which the build of the state that is
  served began, if one is served, and the history: a generation, and whether its token was announced or withdrawn.\<close>

type_synonym recovery_run = "Recovery \<times> RecoveryWorker \<times> AttachStage \<times> nat option \<times> (string \<times> bool) list"

text \<open>What \<open>StoreState\<close> publishes is the state whose build began at the recorded point.  A worker's
  build that fails, or that a further event or the stop overtakes, is discarded.\<close>

inductive recovery_step :: "string \<Rightarrow> string \<Rightarrow> recovery_run \<Rightarrow> recovery_run \<Rightarrow> bool" for pfx sid where
  rec_event: "ParseSessionLivelinessKey pfx sid (ts_key s) = Some g \<Longrightarrow>
    recovery_step pfx sid (rv, wk, a, b, E) (OnLiveliness pfx sid s rv, wk, a, b, E @ [(g, ts_kind s = SamplePut)])"
| rec_other: "ParseSessionLivelinessKey pfx sid (ts_key s) = None \<Longrightarrow>
    recovery_step pfx sid (rv, wk, a, b, E) (OnLiveliness pfx sid s rv, wk, a, b, E)"
| rec_attach: "recovery_step pfx sid (rv, wk, AttachStarted, b, E)
    (rv, wk, AttachBuilding (Announced rv) (rv_events rv) (length E), b, E)"
| rec_store: "recovery_step pfx sid (rv, wk, AttachBuilding announced events n, b, E) (rv, wk, AttachStored announced events, Some n, E)"
| rec_fail: "recovery_step pfx sid (rv, wk, AttachBuilding announced events n, b, E) (rv, wk, AttachFailed, b, E)"
| rec_arm: "recovery_step pfx sid (rv, wk, AttachStored announced events, b, E) (BindAttached announced events rv, wk, AttachArmed, b, E)"
| rec_publish: "recovery_step pfx sid (rv, wk, AttachArmed, b, E) (rv, wk, AttachPublished, b, E)"
| rec_pick: "RecoveryReady rv \<Longrightarrow> \<not> rv_stop rv \<Longrightarrow>
    recovery_step pfx sid (rv, WorkerIdle, a, b, E) (rv, WorkerBuilding (last (rv_live rv)) (rv_events rv) (length E), a, b, E)"
| rec_keep: "KeepRebuild events rv \<Longrightarrow>
    recovery_step pfx sid (rv, WorkerBuilding target events n, a, b, E) (BindRebuild target rv, WorkerIdle, a, Some n, E)"
| rec_discard: "recovery_step pfx sid (rv, WorkerBuilding target events n, a, b, E) (rv, WorkerIdle, a, b, E)"
| rec_withdraw: "recovery_step pfx sid (rv, wk, AttachPublished, b, E) (rv, wk, DetachWithdrawn, b, E)"
| rec_stop: "recovery_step pfx sid (rv, wk, DetachWithdrawn, b, E) (StopRecovery rv, wk, DetachStopping, b, E)"
| rec_join: "recovery_step pfx sid (rv, WorkerIdle, DetachStopping, b, E) (rv, WorkerIdle, DetachJoined, b, E)"
| rec_clear: "recovery_step pfx sid (rv, wk, DetachJoined, b, E) (rv, wk, DetachDone, None, E)"

inductive recovery_reach :: "string \<Rightarrow> string \<Rightarrow> recovery_run \<Rightarrow> bool" for pfx sid where
  rec_start: "recovery_reach pfx sid (NewRecovery, WorkerIdle, AttachStarted, None, [])"
| rec_step: "recovery_reach pfx sid r \<Longrightarrow> recovery_step pfx sid r r' \<Longrightarrow> recovery_reach pfx sid r'"

section \<open>The invariant\<close>

text \<open>The announced generations after a history, the latest announcement last, and the events that contradict a generation.\<close>

definition live_event :: "string \<times> bool \<Rightarrow> string list \<Rightarrow> string list" where
  "live_event = (\<lambda>(g, put) live. filter (\<lambda>g'. g' \<noteq> g) live @ (if put then [g] else []))"

definition live_after :: "(string \<times> bool) list \<Rightarrow> string list" where
  "live_after E = fold live_event E []"

definition contradicts :: "string \<Rightarrow> string \<times> bool \<Rightarrow> bool" where
  "contradicts g = (\<lambda>(g', put). if put then g' \<noteq> g else g' = g)"

text \<open>A build that began at a point of the history is good for a generation.\<close>

definition build_good :: "(string \<times> bool) list \<Rightarrow> string \<Rightarrow> nat \<Rightarrow> bool" where
  "build_good E g n \<longleftrightarrow> n \<le> length E \<and> g \<noteq> '''' \<and> live_after (take n E) \<noteq> [] \<and> last (live_after (take n E)) = g \<and>
     (\<forall>e\<in>set (drop n E). \<not> contradicts g e)"

definition worker_ok :: "Recovery \<Rightarrow> RecoveryWorker \<Rightarrow> (string \<times> bool) list \<Rightarrow> bool" where
  "worker_ok rv wk E = (case wk of
     WorkerIdle \<Rightarrow> True
   | WorkerBuilding target events n \<Rightarrow> rv_armed rv \<and> n \<le> length E \<and> events = of_nat n \<and> target \<noteq> '''' \<and> live_after (take n E) \<noteq> [] \<and>
       target = last (live_after (take n E)))"

definition announced_ok :: "string \<Rightarrow> u64 \<Rightarrow> nat \<Rightarrow> (string \<times> bool) list \<Rightarrow> bool" where
  "announced_ok announced events n E \<longleftrightarrow> n \<le> length E \<and> events = of_nat n \<and>
     (announced \<noteq> '''' \<longrightarrow> live_after (take n E) \<noteq> [] \<and> announced = last (live_after (take n E)))"

definition attach_ok :: "Recovery \<Rightarrow> RecoveryWorker \<Rightarrow> AttachStage \<Rightarrow> nat option \<Rightarrow> (string \<times> bool) list \<Rightarrow> bool" where
  "attach_ok rv wk a b E \<longleftrightarrow> (b \<noteq> None \<longleftrightarrow> serving a) \<and> (case a of
     AttachStarted \<Rightarrow> \<not> rv_armed rv
   | AttachFailed \<Rightarrow> \<not> rv_armed rv
   | AttachBuilding announced events n \<Rightarrow> \<not> rv_armed rv \<and> announced_ok announced events n E
   | AttachStored announced events \<Rightarrow> \<not> rv_armed rv \<and> (\<exists>n. b = Some n \<and> announced_ok announced events n E)
   | DetachStopping \<Rightarrow> rv_armed rv \<and> rv_stop rv
   | DetachJoined \<Rightarrow> rv_armed rv \<and> rv_stop rv \<and> wk = WorkerIdle
   | DetachDone \<Rightarrow> rv_armed rv \<and> rv_stop rv \<and> wk = WorkerIdle
   | _ \<Rightarrow> rv_armed rv)"

definition recovery_inv :: "recovery_run \<Rightarrow> bool" where
  "recovery_inv = (\<lambda>(rv, wk, a, b, E).
     rv_live rv = live_after E \<and> rv_events rv = of_nat (length E) \<and> '''' \<notin> set (live_after E) \<and> (rv_stale rv \<longleftrightarrow> rv_bound rv = '''') \<and>
     (\<not> rv_armed rv \<longrightarrow> rv_bound rv = '''') \<and> (\<forall>n. b = Some n \<longrightarrow> rv_bound rv \<noteq> '''' \<longrightarrow> build_good E (rv_bound rv) n) \<and>
     worker_ok rv wk E \<and> attach_ok rv wk a b E)"

lemma live_after_snoc [simp]: "live_after (E @ [e]) = live_event e (live_after E)"
  by (simp add: live_after_def)

lemma OnLiveliness_fields:
  assumes "ParseSessionLivelinessKey pfx sid (ts_key s) = Some g"
  shows "rv_live (OnLiveliness pfx sid s rv) = live_event (g, ts_kind s = SamplePut) (rv_live rv)"
    "rv_events (OnLiveliness pfx sid s rv) = rv_events rv + 1" "rv_armed (OnLiveliness pfx sid s rv) = rv_armed rv"
    "rv_stop (OnLiveliness pfx sid s rv) = rv_stop rv"
    "rv_bound (OnLiveliness pfx sid s rv) = (if contradicts (rv_bound rv) (g, ts_kind s = SamplePut) then '''' else rv_bound rv)"
    "rv_stale (OnLiveliness pfx sid s rv) = (contradicts (rv_bound rv) (g, ts_kind s = SamplePut) \<or> rv_stale rv)"
  using assms by (simp_all add: OnLiveliness_def live_event_def contradicts_def Let_def)

lemma build_good_snoc: "build_good E g n \<Longrightarrow> \<not> contradicts g e \<Longrightarrow> build_good (E @ [e]) g n"
  by (auto simp: build_good_def)

text \<open>Events that do not contradict the latest generation leave it the latest.\<close>

lemma live_event_latest:
  assumes "live \<noteq> []" "last live = g" "\<not> contradicts g e"
  shows "live_event e live \<noteq> [] \<and> last (live_event e live) = g"
proof -
  obtain g' put where e: "e = (g', put)" by (cases e)
  have live: "live = butlast live @ [g]" using assms(1,2) append_butlast_last_id by metis
  show ?thesis
  proof (cases put)
    case True
    with assms(3) e show ?thesis by (simp add: contradicts_def live_event_def)
  next
    case False
    with assms(3) e have "filter (\<lambda>x. x \<noteq> g') live = filter (\<lambda>x. x \<noteq> g') (butlast live) @ [g]"
      by (subst live) (auto simp: contradicts_def)
    with False e show ?thesis by (simp add: live_event_def)
  qed
qed

lemma live_events_latest:
  "live \<noteq> [] \<Longrightarrow> last live = g \<Longrightarrow> \<forall>e\<in>set es. \<not> contradicts g e \<Longrightarrow>
     fold live_event es live \<noteq> [] \<and> last (fold live_event es live) = g"
  by (induction es arbitrary: live) (auto simp: live_event_latest)

lemma build_good_last:
  assumes "build_good E g n"
  shows "live_after E \<noteq> [] \<and> last (live_after E) = g"
proof -
  have "live_after E = fold live_event (drop n E) (live_after (take n E))"
    unfolding live_after_def by (metis append_take_drop_id fold_append comp_apply)
  with live_events_latest[of "live_after (take n E)" g "drop n E"] assms show ?thesis by (simp add: build_good_def)
qed

lemma worker_ok_snoc: "worker_ok rv wk E \<Longrightarrow> rv_armed rv' = rv_armed rv \<Longrightarrow> worker_ok rv' wk (E @ [e])"
  by (auto simp: worker_ok_def split: RecoveryWorker.splits)

lemma attach_ok_snoc: "attach_ok rv wk a b E \<Longrightarrow> rv_armed rv' = rv_armed rv \<Longrightarrow> rv_stop rv' = rv_stop rv \<Longrightarrow> attach_ok rv' wk a b (E @ [e])"
  by (auto simp: attach_ok_def announced_ok_def split: AttachStage.splits)

lemma generation_nonempty: "ParseSessionLivelinessKey pfx sid key = Some g \<Longrightarrow> g \<noteq> ''''"
  by (auto simp: ParseSessionLivelinessKey_Some IsValidAckUuid_def IsValidId_def)

lemma same_count: "n \<le> length E \<Longrightarrow> length E < 2 ^ 64 \<Longrightarrow> (of_nat n :: u64) = of_nat (length E) \<Longrightarrow> n = length E"
  by (drule arg_cong[where f = unat]) (simp add: unat_of_nat)

lemma recovery_step_inv:
  assumes "recovery_step pfx sid r r'" "recovery_inv r" "length (snd (snd (snd (snd r)))) < 2 ^ 64"
  shows "recovery_inv r'"
  using assms
proof (induction rule: recovery_step.induct)
  case (rec_event s g rv wk a b E)
  note f = OnLiveliness_fields[OF rec_event(1), of rv]
  have "'''' \<notin> set (live_after (E @ [(g, ts_kind s = SamplePut)]))"
    using rec_event.prems generation_nonempty[OF rec_event(1)] by (auto simp: recovery_inv_def live_event_def)
  with rec_event.prems show ?case
    by (auto simp: recovery_inv_def f build_good_snoc worker_ok_snoc[OF _ f(3)] attach_ok_snoc[OF _ f(3,4)])
next
  case (rec_other s rv wk a b E)
  then show ?case by (simp add: OnLiveliness_def)
next
  case (rec_attach rv wk b E)
  then show ?case by (auto simp: recovery_inv_def attach_ok_def announced_ok_def Announced_def serving_def)
next
  case (rec_store rv wk announced events n b E)
  then show ?case by (auto simp: recovery_inv_def attach_ok_def serving_def)
next
  case (rec_fail rv wk announced events n b E)
  then show ?case by (auto simp: recovery_inv_def attach_ok_def serving_def)
next
  case (rec_publish rv wk b E)
  then show ?case by (auto simp: recovery_inv_def attach_ok_def serving_def)
next
  case (rec_arm rv wk announced events b E)
  then obtain n where n: "b = Some n" "announced_ok announced events n E" "\<not> rv_armed rv" "rv_bound rv = ''''"
    by (auto simp: recovery_inv_def attach_ok_def)
  have "build_good E announced n" if "announced \<noteq> ''''" "rv_events rv = events"
    using that n rec_arm.prems same_count[of n E] by (auto simp: recovery_inv_def announced_ok_def build_good_def)
  with n rec_arm.prems show ?case
    by (auto simp: recovery_inv_def BindAttached_def attach_ok_def serving_def worker_ok_def Let_def split: RecoveryWorker.splits)
next
  case (rec_pick rv a b E)
  moreover have "last (live_after E) \<noteq> ''''" if "live_after E \<noteq> []"
    using that rec_pick.prems(1) last_in_set by (fastforce simp: recovery_inv_def)
  ultimately show ?case by (auto simp: recovery_inv_def RecoveryReady_def worker_ok_def attach_ok_def split: AttachStage.splits)
next
  case (rec_keep events rv target n a b E)
  have wk: "worker_ok rv (WorkerBuilding target events n) E" and ev: "rv_events rv = of_nat (length E)"
    using rec_keep.prems(1) by (simp_all add: recovery_inv_def)
  have w: "n \<le> length E" "events = of_nat n" "target \<noteq> ''''" "live_after (take n E) \<noteq> []" "target = last (live_after (take n E))"
    using wk by (auto simp: worker_ok_def)
  have e: "events = of_nat (length E)" using rec_keep(1) ev unfolding KeepRebuild_def by metis
  have "n = length E" using same_count[OF w(1)] w(2) e rec_keep.prems(2) by simp
  with w have "build_good E target n" by (simp add: build_good_def)
  with rec_keep show ?case
    by (auto simp: recovery_inv_def BindRebuild_def worker_ok_def attach_ok_def serving_def build_good_def split: AttachStage.splits)
next
  case (rec_discard rv target events n a b E)
  then show ?case by (auto simp: recovery_inv_def worker_ok_def attach_ok_def split: AttachStage.splits)
next
  case (rec_withdraw rv wk b E)
  then show ?case by (auto simp: recovery_inv_def attach_ok_def serving_def)
next
  case (rec_stop rv wk b E)
  then show ?case by (auto simp: recovery_inv_def StopRecovery_def worker_ok_def attach_ok_def serving_def split: RecoveryWorker.splits)
next
  case (rec_join rv b E)
  then show ?case by (auto simp: recovery_inv_def attach_ok_def serving_def)
next
  case (rec_clear rv wk b E)
  then show ?case by (auto simp: recovery_inv_def attach_ok_def serving_def)
qed

lemma history_grows: "recovery_step pfx sid r r' \<Longrightarrow> length (snd (snd (snd (snd r)))) \<le> length (snd (snd (snd (snd r'))))"
  by (induction rule: recovery_step.induct) auto

lemma recovery_reach_inv: "recovery_reach pfx sid r \<Longrightarrow> length (snd (snd (snd (snd r)))) < 2 ^ 64 \<Longrightarrow> recovery_inv r"
proof (induction rule: recovery_reach.induct)
  case rec_start
  then show ?case by (simp add: recovery_inv_def NewRecovery_def live_after_def worker_ok_def attach_ok_def serving_def)
next
  case (rec_step r r')
  then show ?case using history_grows[OF rec_step(2)] recovery_step_inv[OF rec_step(2)] by simp
qed


section \<open>Properties\<close>

text \<open>C10: however liveliness events, the attaching thread, the worker and Detach interleave, with fewer than \<open>2 ^ 64\<close> events: while the
  recovery record of an attachment is published, a cache that does not report itself stale serves a state, is bound to the generation
  announced last, that generation had been announced before the build of the served state began, and no event since then
  contradicted it (no withdrawal of it, no announcement of another).  The record is stale exactly when it is unbound, and an armed stale one with a
  live generation has work for the worker, whose rebuild binds the cache to the latest generation unless an event or the stop
  comes in between.  While the record is not published \<open>IsStale\<close> is false and says nothing: a state is served
  nevertheless from its publication by \<open>Attach\<close> to the publication of the record, and from the withdrawal of the record by
  \<open>Detach\<close> to that of the state, and at no other time; without liveliness there is no record at all.\<close>

theorem recovery_not_stale_is_current:
  assumes "recovery_reach pfx sid (rv, wk, a, b, E)" and "length E < 2 ^ 64"
  shows "(recovery_pointer a rv \<noteq> None \<and> \<not> IsStale AttachedLive (recovery_pointer a rv) \<longrightarrow> rv_live rv \<noteq> [] \<and> rv_bound rv = last (rv_live rv) \<and>
      (\<exists>n\<le>length E. b = Some n \<and> live_after (take n E) \<noteq> [] \<and> last (live_after (take n E)) = rv_bound rv \<and>
        (\<forall>e\<in>set (drop n E). \<not> contradicts (rv_bound rv) e))) \<and>
    (rv_stale rv \<longleftrightarrow> rv_bound rv = '''') \<and>
    (rv_armed rv \<and> rv_stale rv \<and> rv_live rv \<noteq> [] \<longrightarrow> RecoveryReady rv \<and>
      (\<not> rv_stop rv \<longrightarrow> KeepRebuild (rv_events rv) rv \<and> \<not> rv_stale (BindRebuild (last (rv_live rv)) rv) \<and>
        rv_bound (BindRebuild (last (rv_live rv)) rv) = last (rv_live rv))) \<and>
    (b \<noteq> None \<and> recovery_pointer a rv = None \<longleftrightarrow>
      a \<in> {AttachArmed, DetachWithdrawn, DetachStopping, DetachJoined} \<or> (\<exists>announced events. a = AttachStored announced events)) \<and>
    (recovery_pointer a rv \<noteq> None \<longrightarrow> b \<noteq> None) \<and> \<not> IsStale CacheAttached None"
proof -
  have inv: "recovery_inv (rv, wk, a, b, E)" using recovery_reach_inv[OF assms(1)] assms(2) by simp
  have live: "rv_live rv = live_after E" and stale: "rv_stale rv \<longleftrightarrow> rv_bound rv = ''''" and served: "b \<noteq> None \<longleftrightarrow> serving a"
    using inv by (simp_all add: recovery_inv_def attach_ok_def)
  have current: "rv_live rv \<noteq> [] \<and> rv_bound rv = last (rv_live rv) \<and>
      (\<exists>n\<le>length E. b = Some n \<and> live_after (take n E) \<noteq> [] \<and> last (live_after (take n E)) = rv_bound rv \<and>
        (\<forall>e\<in>set (drop n E). \<not> contradicts (rv_bound rv) e))" if unstale: "\<not> rv_stale rv" and pub: "a = AttachPublished"
  proof -
    have bound: "rv_bound rv \<noteq> ''''" using unstale stale by simp
    obtain n where n: "b = Some n" using served pub by (auto simp: serving_def)
    with inv bound have g: "build_good E (rv_bound rv) n" by (simp add: recovery_inv_def)
    then have "live_after E \<noteq> [] \<and> last (live_after E) = rv_bound rv" by (rule build_good_last)
    with g n live show ?thesis by (auto simp: build_good_def)
  qed
  have "recovery_pointer a rv \<noteq> None \<and> \<not> IsStale AttachedLive (recovery_pointer a rv) \<longleftrightarrow> a = AttachPublished \<and> \<not> rv_stale rv"
    by (simp add: recovery_pointer_def IsStale_def)
  moreover have "b \<noteq> None \<and> recovery_pointer a rv = None \<longleftrightarrow>
      a \<in> {AttachArmed, DetachWithdrawn, DetachStopping, DetachJoined} \<or> (\<exists>announced events. a = AttachStored announced events)"
    unfolding served by (cases a) (simp_all add: serving_def recovery_pointer_def)
  moreover have "recovery_pointer a rv \<noteq> None \<longrightarrow> b \<noteq> None" unfolding served by (simp add: serving_def recovery_pointer_def)
  moreover have "\<not> IsStale CacheAttached None" by (simp add: IsStale_def)
  moreover have "rv_armed rv \<and> rv_stale rv \<and> rv_live rv \<noteq> [] \<longrightarrow> RecoveryReady rv \<and>
      (\<not> rv_stop rv \<longrightarrow> KeepRebuild (rv_events rv) rv \<and> \<not> rv_stale (BindRebuild (last (rv_live rv)) rv) \<and>
        rv_bound (BindRebuild (last (rv_live rv)) rv) = last (rv_live rv))"
    using stale by (simp add: RecoveryReady_def KeepRebuild_def BindRebuild_def)
  ultimately show ?thesis using current stale by blast
qed

text \<open>An attachment that starts before the node does: it arms unbound and publishes, the node's token is announced and the worker rebuilds.\<close>

definition example_liveliness :: TransportSample where
  "example_liveliness = \<lparr>ts_key = ''p/meta/live/session/s1/g-1'', ts_payload = [], ts_encoding = '''', ts_ack = AckAttachmentAbsent,
     ts_kind = SamplePut, ts_fence_lane = FenceLaneAbsent\<rparr>"

definition example_armed :: Recovery where
  "example_armed = OnLiveliness ''p'' ''s1'' example_liveliness (BindAttached '''' 0 NewRecovery)"

lemma example_recovery:
  "recovery_reach ''p'' ''s1'' (BindRebuild ''g-1'' example_armed, WorkerIdle, AttachPublished, Some 1, [(''g-1'', True)])"
proof -
  note step = recovery_reach.rec_step[of "''p''" "''s1''"]
  have e: "Announced NewRecovery = ''''" "rv_events NewRecovery = 0" by (simp_all add: Announced_def NewRecovery_def)
  have 1: "recovery_reach ''p'' ''s1'' (NewRecovery, WorkerIdle, AttachBuilding '''' 0 0, None, [])"
    using step[OF rec_start rec_attach] e by simp
  note 2 = step[OF step[OF step[OF 1 rec_store] rec_arm] rec_publish]
  have "ParseSessionLivelinessKey ''p'' ''s1'' (ts_key example_liveliness) = Some ''g-1''" "ts_kind example_liveliness = SamplePut" by code_simp+
  with step[OF 2 rec_event[of _ _ example_liveliness]]
  have 3: "recovery_reach ''p'' ''s1'' (example_armed, WorkerIdle, AttachPublished, Some 0, [(''g-1'', True)])"
    by (simp add: example_armed_def)
  have f: "RecoveryReady example_armed" "\<not> rv_stop example_armed" "last (rv_live example_armed) = ''g-1''" "KeepRebuild (rv_events example_armed) example_armed"
    by code_simp+
  from step[OF step[OF 3 rec_pick[OF f(1,2)]] rec_keep[OF f(4)]] f(3) show ?thesis by simp
qed

theorem recovery_not_stale_is_current_witness:
  "\<not> IsStale AttachedLive (recovery_pointer AttachPublished (BindRebuild ''g-1'' example_armed)) \<and>
   rv_bound (BindRebuild ''g-1'' example_armed) = last (rv_live (BindRebuild ''g-1'' example_armed))"
proof -
  have s: "\<not> IsStale AttachedLive (recovery_pointer AttachPublished (BindRebuild ''g-1'' example_armed))"
    and p: "recovery_pointer AttachPublished (BindRebuild ''g-1'' example_armed) \<noteq> None"
    by (simp_all add: IsStale_def BindRebuild_def recovery_pointer_def)
  have len: "length [(''g-1'', True)] < 2 ^ 64" by simp
  from recovery_not_stale_is_current[OF example_recovery len] s p show ?thesis by blast
qed

end
