(* ===== verification/RocksDBEngine.thy ===== *)
theory RocksDBEngine
  imports NodeSampleProps
begin

text \<open>
  The persistent engine, \<open>src/rocksdb_engine.cpp\<close>, as it is built with RocksDB.  The database is a parameter: its calls, what an
  iterator yields and the text of a status.  What the engine relies on of them is the predicate \<open>rocksdb_lawful\<close>; under it the
  engine and its snapshots cannot be told from the in-memory engine.  The mutation mutex serialises puts, deletes and
  synchronisation, so each is one step.  The test seams are not part of the model.
\<close>

section \<open>The database\<close>

record RocksStatus =
  rk_code :: nat
  rk_text :: string

definition rk_ok :: "RocksStatus \<Rightarrow> bool" where
  "rk_ok s \<longleftrightarrow> rk_code s = 0"

definition rk_is_not_found :: "RocksStatus \<Rightarrow> bool" where
  "rk_is_not_found s \<longleftrightarrow> rk_code s = 1"

record RocksWriteOptions =
  wo_disable_wal :: bool
  wo_sync :: bool

text \<open>What a call may throw.\<close>

datatype NativeException = SystemException string error_code | StandardException string | UnknownException

text \<open>A read takes the snapshot of its options, if any.  An iterator is what it yields from the sought key on, and its
  status after each number of steps.\<close>

record ('db, 's) RocksDb =
  rk_open :: "string \<Rightarrow> 'db \<times> RocksStatus"
  rk_put :: "RocksWriteOptions \<Rightarrow> string \<Rightarrow> bytes \<Rightarrow> 'db \<Rightarrow> 'db \<times> RocksStatus"
  rk_delete :: "RocksWriteOptions \<Rightarrow> string \<Rightarrow> 'db \<Rightarrow> 'db \<times> RocksStatus"
  rk_flush_wal :: "bool \<Rightarrow> 'db \<Rightarrow> 'db \<times> (NativeException + RocksStatus)"
  rk_get :: "'s option \<Rightarrow> string \<Rightarrow> 'db \<Rightarrow> RocksStatus \<times> bytes"
  rk_iterate :: "'s option \<Rightarrow> string \<Rightarrow> 'db \<Rightarrow> entries \<times> (nat \<Rightarrow> RocksStatus)"
  rk_get_snapshot :: "'db \<Rightarrow> 'db \<times> 's"
  rk_release_snapshot :: "'s \<Rightarrow> 'db \<Rightarrow> 'db"

section \<open>The engine\<close>

definition RocksDBCategory :: error_category where
  "RocksDBCategory = OtherCategory 1"

definition MakeRocksDBError :: "RocksStatus \<Rightarrow> error_code" where
  "MakeRocksDBError status = \<lparr>ec_value = int (rk_code status) + 1, ec_category = RocksDBCategory\<rparr>"

definition UnsynchronizedWalWriteOptions :: RocksWriteOptions where
  "UnsynchronizedWalWriteOptions = \<lparr>wo_disable_wal = False, wo_sync = False\<rparr>"

definition BoundedDiagnostic :: "string \<Rightarrow> string" where
  "BoundedDiagnostic message = take 1024 message"

text \<open>The loop of \<open>ListEntries\<close>: the collected entries and the number of steps the iterator has made.\<close>

fun ListLoop :: "string \<Rightarrow> entries \<Rightarrow> entries \<Rightarrow> entries" where
  "ListLoop p [] out = out"
| "ListLoop p ((k, v) # rest) out = (if \<not> starts_with k p then out else ListLoop p rest (out @ [(k, v)]))"

definition ListEntries :: "('db, 's) RocksDb \<Rightarrow> 's option \<Rightarrow> string \<Rightarrow> 'db \<Rightarrow> RocksStatus \<times> entries" where
  "ListEntries R snapshot p db = (case rk_iterate R snapshot p db of (yielded, status) \<Rightarrow>
     (let out = ListLoop p yielded [] in (status (length out), out)))"

definition ReadEntry :: "('db, 's) RocksDb \<Rightarrow> 's option \<Rightarrow> string \<Rightarrow> 'x sink \<Rightarrow> 'db \<Rightarrow> 'x \<Rightarrow> 'x \<times> bool" where
  "ReadEntry R snapshot key sink db x = (case rk_get R snapshot key db of (status, v) \<Rightarrow>
     if rk_is_not_found status \<or> \<not> rk_ok status then (x, False) else (fst (sink key v x), True))"

definition ReadEntries :: "('db, 's) RocksDb \<Rightarrow> 's option \<Rightarrow> string \<Rightarrow> 'x sink \<Rightarrow> 'db \<Rightarrow> 'x \<Rightarrow> 'x \<times> bool" where
  "ReadEntries R snapshot p sink db x = (case ListEntries R snapshot p db of (status, es) \<Rightarrow>
     if \<not> rk_ok status then (x, False) else feed sink es x)"

definition RocksDBEngine_Open :: "('db, 's) RocksDb \<Rightarrow> string \<Rightarrow> 'db Result" where
  "RocksDBEngine_Open R path =
    (if path = '''' then Result_Err InvalidArgument ''RocksDB path must not be empty''
        \<lparr>ec_value = errc_value invalid_argument, ec_category = GenericCategory\<rparr>
     else (case rk_open R path of (db, status) \<Rightarrow>
       if \<not> rk_ok status then Result_Err Error (''RocksDB open failed: '' @ rk_text status) (MakeRocksDBError status)
       else Result_Ok db))"

definition RocksDBEngine_Put :: "('db, 's) RocksDb \<Rightarrow> string \<Rightarrow> bytes \<Rightarrow> 'db \<Rightarrow> 'db \<times> bool" where
  "RocksDBEngine_Put R key v db = (case rk_put R UnsynchronizedWalWriteOptions key v db of (db, status) \<Rightarrow> (db, rk_ok status))"

definition RocksDBEngine_Delete :: "('db, 's) RocksDb \<Rightarrow> string \<Rightarrow> 'db \<Rightarrow> 'db \<times> bool" where
  "RocksDBEngine_Delete R key db = (case rk_delete R UnsynchronizedWalWriteOptions key db of (db, status) \<Rightarrow> (db, rk_ok status))"

definition RocksDBEngine_GetSyncCapability :: SyncCapability where
  "RocksDBEngine_GetSyncCapability = kPowerLossDurable"

text \<open>The exceptions of \<open>Sync\<close> are told apart by whether the native call had been made; the mutex may throw before it.\<close>

definition SyncException :: "bool \<Rightarrow> NativeException \<Rightarrow> unit Result" where
  "SyncException native_invoked exception =
    (let status = (if native_invoked then OutcomeUnknown else Error);
         io_error = \<lparr>ec_value = 5, ec_category = GenericCategory\<rparr> in
     case exception of
       SystemException reason code \<Rightarrow> Result_Err status (BoundedDiagnostic (''RocksDB FlushWAL threw: '' @ reason)) code
     | StandardException reason \<Rightarrow> Result_Err status (BoundedDiagnostic (''RocksDB FlushWAL threw: '' @ reason)) io_error
     | UnknownException \<Rightarrow> Result_Err status ''RocksDB FlushWAL threw an unknown exception'' io_error)"

definition RocksDBEngine_Sync :: "('db, 's) RocksDb \<Rightarrow> NativeException option \<Rightarrow> 'db \<Rightarrow> 'db \<times> unit Result" where
  "RocksDBEngine_Sync R lock_exception db = (case lock_exception of
     Some exception \<Rightarrow> (db, SyncException False exception)
   | None \<Rightarrow> (case rk_flush_wal R True db of
       (db, Inl exception) \<Rightarrow> (db, SyncException True exception)
     | (db, Inr status) \<Rightarrow>
         if \<not> rk_ok status then (db, Result_Err OutcomeUnknown
           (BoundedDiagnostic (''RocksDB FlushWAL failed: '' @ rk_text status)) (MakeRocksDBError status))
         else (db, Result_Ok ())))"

definition RocksDBEngine_Get :: "('db, 's) RocksDb \<Rightarrow> string \<Rightarrow> 'x sink \<Rightarrow> 'db \<Rightarrow> 'x \<Rightarrow> 'x \<times> bool" where
  "RocksDBEngine_Get R = ReadEntry R None"

definition RocksDBEngine_List :: "('db, 's) RocksDb \<Rightarrow> string \<Rightarrow> 'x sink \<Rightarrow> 'db \<Rightarrow> 'x \<Rightarrow> 'x \<times> bool" where
  "RocksDBEngine_List R = ReadEntries R None"

definition RocksDBSnapshot_Get :: "('db, 's) RocksDb \<Rightarrow> 's \<Rightarrow> string \<Rightarrow> 'x sink \<Rightarrow> 'db \<Rightarrow> 'x \<Rightarrow> 'x \<times> bool" where
  "RocksDBSnapshot_Get R s = ReadEntry R (Some s)"

definition RocksDBSnapshot_List :: "('db, 's) RocksDb \<Rightarrow> 's \<Rightarrow> string \<Rightarrow> 'x sink \<Rightarrow> 'db \<Rightarrow> 'x \<Rightarrow> 'x \<times> bool" where
  "RocksDBSnapshot_List R s = ReadEntries R (Some s)"

text \<open>When the reader object cannot be allocated the native snapshot is released and the exception passes on.\<close>

definition RocksDBEngine_TakeSnapshot :: "('db, 's) RocksDb \<Rightarrow> bool \<Rightarrow> 'db \<Rightarrow> 'db \<times> 's option" where
  "RocksDBEngine_TakeSnapshot R allocated db = (case rk_get_snapshot R db of (db, s) \<Rightarrow>
     if allocated then (db, Some s) else (rk_release_snapshot R s db, None))"

section \<open>What the engine relies on\<close>

text \<open>
  The documented behaviour of the database, for states that report no I/O error on reading: keys are ordered bytewise, a get finds
  exactly the stored keys, an iterator yields the entries from the sought key on, a write that reports success is applied, a new snapshot
  has a handle of its own and what is stored at that moment, and keeps it until its handle is released, whatever is written or
  released meanwhile.  A failed write leaves the state out of scope.  \<open>live\<close> tells the handles taken and not released.
\<close>

definition write_lawful :: "('db \<Rightarrow> bool) \<Rightarrow> ('db \<Rightarrow> 's \<Rightarrow> bool) \<Rightarrow> ('s option \<Rightarrow> 'db \<Rightarrow> entries) \<Rightarrow> 'db \<Rightarrow> 'db \<Rightarrow> entries \<Rightarrow> bool" where
  "write_lawful healthy live content db db' es \<longleftrightarrow> healthy db' \<and> content None db' = es \<and>
     (\<forall>s. live db s \<longrightarrow> live db' s \<and> content (Some s) db' = content (Some s) db)"

definition reads_lawful :: "('db, 's) RocksDb \<Rightarrow> ('s option \<Rightarrow> 'db \<Rightarrow> entries) \<Rightarrow> 'db \<Rightarrow> 's option \<Rightarrow> bool" where
  "reads_lawful R content db s \<longleftrightarrow> map_wf (content s db) \<and>
     (\<forall>k. case map_of (content s db) k of
        None \<Rightarrow> rk_is_not_found (fst (rk_get R s k db))
      | Some v \<Rightarrow> rk_ok (fst (rk_get R s k db)) \<and> snd (rk_get R s k db) = v) \<and>
     (\<forall>p. fst (rk_iterate R s p db) = dropWhile (\<lambda>(k, _). k < p) (content s db) \<and> (\<forall>n. rk_ok (snd (rk_iterate R s p db) n)))"

definition snapshot_lawful :: "('db, 's) RocksDb \<Rightarrow> ('db \<Rightarrow> bool) \<Rightarrow> ('db \<Rightarrow> 's \<Rightarrow> bool) \<Rightarrow> ('s option \<Rightarrow> 'db \<Rightarrow> entries) \<Rightarrow> 'db \<Rightarrow> bool" where
  "snapshot_lawful R healthy live content db \<longleftrightarrow>
     (\<forall>db' s. rk_get_snapshot R db = (db', s) \<longrightarrow> \<not> live db s \<and> live db' s \<and> content (Some s) db' = content None db \<and>
        write_lawful healthy live content db db' (content None db)) \<and>
     (\<forall>s. live db s \<longrightarrow> healthy (rk_release_snapshot R s db) \<and> content None (rk_release_snapshot R s db) = content None db \<and>
        (\<forall>s'. live db s' \<and> s' \<noteq> s \<longrightarrow> live (rk_release_snapshot R s db) s' \<and>
           content (Some s') (rk_release_snapshot R s db) = content (Some s') db))"

definition rocksdb_lawful :: "('db, 's) RocksDb \<Rightarrow> ('db \<Rightarrow> bool) \<Rightarrow> ('db \<Rightarrow> 's \<Rightarrow> bool) \<Rightarrow> ('s option \<Rightarrow> 'db \<Rightarrow> entries) \<Rightarrow> bool" where
  "rocksdb_lawful R healthy live content \<longleftrightarrow> (\<forall>db. healthy db \<longrightarrow>
     reads_lawful R content db None \<and> (\<forall>s. live db s \<longrightarrow> reads_lawful R content db (Some s)) \<and>
     (\<forall>opts k v db' status. rk_put R opts k v db = (db', status) \<longrightarrow> rk_ok status \<longrightarrow>
        write_lawful healthy live content db db' (map_insert k v (content None db))) \<and>
     (\<forall>opts k db' status. rk_delete R opts k db = (db', status) \<longrightarrow> rk_ok status \<longrightarrow>
        write_lawful healthy live content db db' (map_erase k (content None db))) \<and>
     (\<forall>db' status. rk_flush_wal R True db = (db', Inr status) \<longrightarrow> rk_ok status \<longrightarrow> write_lawful healthy live content db db' (content None db)) \<and>
     snapshot_lawful R healthy live content db)"

lemma rocksdb_lawfulD:
  assumes "rocksdb_lawful R healthy live content" "healthy db"
  shows "reads_lawful R content db None" "live db s \<Longrightarrow> reads_lawful R content db (Some s)"
    "rk_put R opts k v db = (db', status) \<Longrightarrow> rk_ok status \<Longrightarrow> write_lawful healthy live content db db' (map_insert k v (content None db))"
    "rk_delete R opts k db = (db', status) \<Longrightarrow> rk_ok status \<Longrightarrow> write_lawful healthy live content db db' (map_erase k (content None db))"
    "rk_flush_wal R True db = (db', Inr status) \<Longrightarrow> rk_ok status \<Longrightarrow> write_lawful healthy live content db db' (content None db)"
    "snapshot_lawful R healthy live content db"
  using assms unfolding rocksdb_lawful_def by blast+

lemma ListLoop_takeWhile: "ListLoop p es out = out @ takeWhile (\<lambda>(k, _). starts_with k p) es"
  by (induction p es out rule: ListLoop.induct) auto

section \<open>Runs\<close>

text \<open>The calls of a host on an engine and on the snapshots it holds, which are numbered as they are taken: a snapshot whose
  reader object is allocated or not, and the destruction of one.\<close>

datatype RocksOp = RocksPut string bytes | RocksDelete string | RocksSync | RocksTake bool | RocksDrop nat

text \<open>A run in which all writes and synchronisations report success, over the database and the handles held.\<close>

definition rocks_step :: "('db, 's) RocksDb \<Rightarrow> RocksOp \<Rightarrow> 'db \<times> 's option list \<Rightarrow> ('db \<times> 's option list) option" where
  "rocks_step R op = (\<lambda>(db, hs). case op of
     RocksPut k v \<Rightarrow> (case RocksDBEngine_Put R k v db of (db, ok) \<Rightarrow> if ok then Some (db, hs) else None)
   | RocksDelete k \<Rightarrow> (case RocksDBEngine_Delete R k db of (db, ok) \<Rightarrow> if ok then Some (db, hs) else None)
   | RocksSync \<Rightarrow> (case RocksDBEngine_Sync R None db of (db, r) \<Rightarrow> if IsOk r then Some (db, hs) else None)
   | RocksTake allocated \<Rightarrow> (case RocksDBEngine_TakeSnapshot R allocated db of (db, s) \<Rightarrow> Some (db, hs @ [s]))
   | RocksDrop i \<Rightarrow> if i < length hs then (case hs ! i of
        None \<Rightarrow> Some (db, hs) | Some s \<Rightarrow> Some (rk_release_snapshot R s db, hs[i := None])) else None)"

fun rocks_run :: "('db, 's) RocksDb \<Rightarrow> RocksOp list \<Rightarrow> 'db \<times> 's option list \<Rightarrow> ('db \<times> 's option list) option" where
  "rocks_run R [] w = Some w"
| "rocks_run R (op # ops) w = Option.bind (rocks_step R op w) (rocks_run R ops)"

text \<open>The same operations on the in-memory engine, with the snapshot copies it takes.\<close>

fun memory_step :: "RocksOp \<Rightarrow> InMemoryEngine \<times> entries option list \<Rightarrow> InMemoryEngine \<times> entries option list" where
  "memory_step (RocksPut k v) (e, cs) = (fst (InMemoryEngine_Put k v e), cs)"
| "memory_step (RocksDelete k) (e, cs) = (fst (InMemoryEngine_Delete k e), cs)"
| "memory_step RocksSync (e, cs) = (e, cs)"
| "memory_step (RocksTake allocated) (e, cs) = (e, cs @ [if allocated then Some (TakeSnapshot InMemoryEngine_List e) else None])"
| "memory_step (RocksDrop i) (e, cs) = (e, cs[i := None])"

text \<open>The simulation: the same entries, and every held handle is live, its own, and reads as the copy taken for it.\<close>

definition handles_match :: "('db \<Rightarrow> 's \<Rightarrow> bool) \<Rightarrow> ('s option \<Rightarrow> 'db \<Rightarrow> entries) \<Rightarrow> 'db \<Rightarrow> 's option list \<Rightarrow> entries option list \<Rightarrow> bool" where
  "handles_match live content db hs cs \<longleftrightarrow> length cs = length hs \<and>
     (\<forall>i<length hs. cs ! i = map_option (\<lambda>s. content (Some s) db) (hs ! i)) \<and>
     (\<forall>i<length hs. \<forall>s. hs ! i = Some s \<longrightarrow> live db s) \<and>
     (\<forall>i<length hs. \<forall>j<length hs. i \<noteq> j \<longrightarrow> hs ! i \<noteq> None \<longrightarrow> hs ! i \<noteq> hs ! j)"

definition engines_match :: "('db \<Rightarrow> bool) \<Rightarrow> ('db \<Rightarrow> 's \<Rightarrow> bool) \<Rightarrow> ('s option \<Rightarrow> 'db \<Rightarrow> entries) \<Rightarrow>
    'db \<times> 's option list \<Rightarrow> InMemoryEngine \<times> entries option list \<Rightarrow> bool" where
  "engines_match healthy live content = (\<lambda>(db, hs) (e, cs). healthy db \<and> content None db = ime_data e \<and> handles_match live content db hs cs)"

lemma SyncException_not_ok [simp]: "\<not> IsOk (SyncException b exception)"
  by (simp add: SyncException_def Let_def split: NativeException.split)

lemma handles_match_keep:
  assumes "handles_match live content db hs cs"
    "\<And>i s. i < length hs \<Longrightarrow> hs ! i = Some s \<Longrightarrow> live db' s \<and> content (Some s) db' = content (Some s) db"
  shows "handles_match live content db' hs cs"
proof -
  have "cs ! i = map_option (\<lambda>s. content (Some s) db') (hs ! i)" if "i < length hs" for i
    using assms(1) assms(2)[OF that] that by (cases "hs ! i") (auto simp: handles_match_def)
  then show ?thesis using assms unfolding handles_match_def by simp
qed

lemma handles_match_write:
  "handles_match live content db hs cs \<Longrightarrow> write_lawful healthy live content db db' es \<Longrightarrow> handles_match live content db' hs cs"
  by (rule handles_match_keep, assumption) (auto simp: handles_match_def write_lawful_def)

lemma handles_match_push:
  assumes "handles_match live content db hs cs" "\<And>s. h = Some s \<Longrightarrow> live db s \<and> h \<notin> set hs" "c = map_option (\<lambda>s. content (Some s) db) h"
  shows "handles_match live content db (hs @ [h]) (cs @ [c])"
  using assms by (cases h) (auto simp: handles_match_def nth_append less_Suc_eq in_set_conv_nth)

lemma handles_match_drop:
  assumes "handles_match live content db hs cs"
  shows "handles_match live content db (hs[i := None]) (cs[i := None])"
  using assms by (cases "i < length hs") (auto simp: handles_match_def nth_list_update split: if_splits)

lemma engines_match_write:
  assumes "engines_match healthy live content (db, hs) (e, cs)" "write_lawful healthy live content db db' es"
  shows "engines_match healthy live content (db', hs) (\<lparr>ime_data = es\<rparr>, cs)"
  using assms handles_match_write[of live content db hs cs healthy db' es] by (simp add: engines_match_def write_lawful_def)

lemma take_match:
  assumes "rocksdb_lawful R healthy live content" "engines_match healthy live content (db, hs) (e, cs)"
    "RocksDBEngine_TakeSnapshot R allocated db = (db', h)"
  shows "engines_match healthy live content (db', hs @ [h]) (memory_step (RocksTake allocated) (e, cs))"
proof -
  obtain db1 s where g: "rk_get_snapshot R db = (db1, s)" by fastforce
  have m: "healthy db" "content None db = ime_data e" "handles_match live content db hs cs" using assms(2) by (simp_all add: engines_match_def)
  have law: "\<not> live db s" "live db1 s" "content (Some s) db1 = content None db" "write_lawful healthy live content db db1 (content None db)"
    using rocksdb_lawfulD(6)[OF assms(1) m(1)] g by (auto simp: snapshot_lawful_def)
  have h1: "healthy db1" "content None db1 = ime_data e" using law(4) m(2) by (simp_all add: write_lawful_def)
  have new: "Some s \<notin> set hs" using law(1) m(3) by (auto simp: handles_match_def in_set_conv_nth)
  note m1 = handles_match_write[OF m(3) law(4)]
  have wf: "map_wf (ime_data e)" using rocksdb_lawfulD(1)[OF assms(1) m(1)] m(2) by (simp add: reads_lawful_def)
  show ?thesis
  proof (cases allocated)
    case True
    then have "db' = db1" "h = Some s" using assms(3) g by (simp_all add: RocksDBEngine_TakeSnapshot_def)
    moreover have "handles_match live content db1 (hs @ [Some s]) (cs @ [Some (ime_data e)])"
      by (rule handles_match_push[OF m1]) (use law new m(2) in auto)
    ultimately show ?thesis using True h1 by (simp add: engines_match_def TakeSnapshot_in_memory[OF wf])
  next
    case False
    then have d: "db' = rk_release_snapshot R s db1" "h = None" using assms(3) g by (simp_all add: RocksDBEngine_TakeSnapshot_def)
    have rel: "healthy db'" "content None db' = content None db1"
      "\<forall>s'. live db1 s' \<and> s' \<noteq> s \<longrightarrow> live db' s' \<and> content (Some s') db' = content (Some s') db1"
      using rocksdb_lawfulD(6)[OF assms(1) h1(1)] law(2) by (simp_all add: snapshot_lawful_def d(1))
    have "handles_match live content db' hs cs"
    proof (rule handles_match_keep[OF m1])
      fix i s' assume "i < length hs" "hs ! i = Some s'"
      then have "live db1 s'" "s' \<noteq> s" using m1 new by (auto simp: handles_match_def in_set_conv_nth)
      with rel(3) show "live db' s' \<and> content (Some s') db' = content (Some s') db1" by blast
    qed
    then have "handles_match live content db' (hs @ [None]) (cs @ [None])" by (rule handles_match_push) simp_all
    with False d(2) rel(1,2) h1(2) show ?thesis by (simp add: engines_match_def)
  qed
qed

lemma drop_match:
  assumes "rocksdb_lawful R healthy live content" "engines_match healthy live content (db, hs) (e, cs)" "i < length hs" "hs ! i = Some s"
  shows "engines_match healthy live content (rk_release_snapshot R s db, hs[i := None]) (e, cs[i := None])"
proof -
  let ?db = "rk_release_snapshot R s db"
  have m: "healthy db" "content None db = ime_data e" "handles_match live content db hs cs" using assms(2) by (simp_all add: engines_match_def)
  have "live db s" using m(3) assms(3,4) by (simp add: handles_match_def)
  then have rel: "healthy ?db" "content None ?db = content None db"
      "\<forall>s'. live db s' \<and> s' \<noteq> s \<longrightarrow> live ?db s' \<and> content (Some s') ?db = content (Some s') db"
    using rocksdb_lawfulD(6)[OF assms(1) m(1)] by (simp_all add: snapshot_lawful_def)
  have "handles_match live content ?db (hs[i := None]) (cs[i := None])"
  proof (rule handles_match_keep[OF handles_match_drop[OF m(3)]])
    fix j s' assume j: "j < length (hs[i := None])" "hs[i := None] ! j = Some s'"
    then have "j \<noteq> i" "hs ! j = Some s'" using assms(3) by (auto simp: nth_list_update split: if_splits)
    moreover have "j < length hs" using j(1) by simp
    ultimately have "live db s'" "hs ! j \<noteq> hs ! i"
      using m(3) assms(3) unfolding handles_match_def by (blast, metis option.distinct(1))
    then have "live db s'" "s' \<noteq> s" using \<open>hs ! j = Some s'\<close> assms(4) by auto
    with rel(3) show "live ?db s' \<and> content (Some s') ?db = content (Some s') db" by blast
  qed
  with rel(1,2) m(2) show ?thesis by (simp add: engines_match_def)
qed

lemma rocks_step_match:
  assumes "rocksdb_lawful R healthy live content" "engines_match healthy live content (db, hs) (e, cs)" "rocks_step R op (db, hs) = Some w"
  shows "engines_match healthy live content w (memory_step op (e, cs))"
proof -
  have m: "healthy db" "content None db = ime_data e" using assms(2) by (simp_all add: engines_match_def)
  note law = rocksdb_lawfulD[OF assms(1) m(1)] and keep = engines_match_write[OF assms(2)]
  show ?thesis
  proof (cases op)
    case (RocksPut k v)
    obtain db1 status where "rk_put R UnsynchronizedWalWriteOptions k v db = (db1, status)" by fastforce
    with assms(3) RocksPut keep[OF law(3)[OF this]] m(2) show ?thesis
      by (cases e) (auto simp: rocks_step_def RocksDBEngine_Put_def InMemoryEngine_Put_def split: if_splits)
  next
    case (RocksDelete k)
    obtain db1 status where "rk_delete R UnsynchronizedWalWriteOptions k db = (db1, status)" by fastforce
    with assms(3) RocksDelete keep[OF law(4)[OF this]] m(2) show ?thesis
      by (cases e) (auto simp: rocks_step_def RocksDBEngine_Delete_def InMemoryEngine_Delete_def split: if_splits)
  next
    case RocksSync
    with assms(3) obtain db1 status where f: "rk_flush_wal R True db = (db1, Inr status)" "rk_ok status" "w = (db1, hs)"
      by (auto simp: rocks_step_def RocksDBEngine_Sync_def split: prod.splits sum.splits if_splits)
    with RocksSync keep[OF law(5)[OF f(1,2)]] m(2) show ?thesis by (cases e) simp
  next
    case (RocksTake allocated)
    obtain db1 h where t: "RocksDBEngine_TakeSnapshot R allocated db = (db1, h)" by fastforce
    with RocksTake assms(3) have "w = (db1, hs @ [h])" by (simp add: rocks_step_def)
    with take_match[OF assms(1,2) t] RocksTake show ?thesis by simp
  next
    case (RocksDrop i)
    with assms(3) have i: "i < length hs" by (auto simp: rocks_step_def split: if_splits)
    show ?thesis
    proof (cases "hs ! i")
      case None
      then have "cs[i := None] = cs" using assms(2) i by (auto simp: engines_match_def handles_match_def intro!: list_update_same_conv[THEN iffD2])
      with RocksDrop None assms(2,3) i show ?thesis by (simp add: rocks_step_def)
    next
      case (Some s)
      with RocksDrop assms(3) i drop_match[OF assms(1,2) i Some] show ?thesis by (simp add: rocks_step_def)
    qed
  qed
qed

lemma rocks_run_match:
  assumes "rocksdb_lawful R healthy live content" "engines_match healthy live content w m" "rocks_run R ops w = Some w'"
  shows "engines_match healthy live content w' (fold memory_step ops m)"
  using assms(2,3)
proof (induction ops arbitrary: w m)
  case (Cons op ops)
  then obtain w1 where s: "rocks_step R op w = Some w1" "rocks_run R ops w1 = Some w'" by (auto split: bind_splits)
  have "engines_match healthy live content w1 (memory_step op m)"
    using rocks_step_match[OF assms(1), of "fst w" "snd w" "fst m" "snd m" op w1] Cons.prems(1) s(1) by simp
  from Cons.IH[OF this s(2)] show ?case by simp
qed simp

lemma ReadEntry_content:
  assumes "reads_lawful R content db s"
  shows "ReadEntry R s key sink db x = SnapshotCopy_Get key sink (content s db) x"
proof -
  obtain status v where g: "rk_get R s key db = (status, v)" by fastforce
  have "case map_of (content s db) key of None \<Rightarrow> rk_is_not_found status | Some v' \<Rightarrow> rk_ok status \<and> v = v'"
    using assms g by (auto simp: reads_lawful_def split: option.split dest!: spec[of _ key])
  with g show ?thesis
    by (auto simp: ReadEntry_def SnapshotCopy_Get_def rk_ok_def rk_is_not_found_def split: option.splits)
qed

lemma ReadEntries_content:
  assumes "reads_lawful R content db s"
  shows "ReadEntries R s p sink db x = SnapshotCopy_List p sink (content s db) x"
proof -
  have "fst (rk_iterate R s p db) = dropWhile (\<lambda>(k, _). k < p) (content s db)" "\<And>n. rk_ok (snd (rk_iterate R s p db) n)"
    using assms unfolding reads_lawful_def by blast+
  then show ?thesis
    by (auto simp: ReadEntries_def ListEntries_def ListLoop_takeWhile SnapshotCopy_List_def map_prefix_range_def Let_def split: prod.splits)
qed

section \<open>Properties\<close>

text \<open>C26: the persistent engine cannot be told from the in-memory engine.  On a lawful database, after any sequence of puts, deletes,
  synchronisations that all reported success, snapshots taken, with their reader allocated or not, and snapshots destroyed, every get and
  every list of the engine hands the sink exactly what the in-memory engine with the same content hands it after the same operations, and every snapshot still
  held exactly what the copy that the in-memory engine took at the same point hands it: the same entries in the same order,
  stopping where the sink declines, with the same returned value.\<close>

theorem rocksdb_engine_equals_memory:
  assumes "rocksdb_lawful R healthy live content" and "healthy db" and "rocks_run R ops (db, []) = Some (db', hs)"
    and "fold memory_step ops (\<lparr>ime_data = content None db\<rparr>, []) = (e, cs)"
  shows "RocksDBEngine_Get R key sink db' x = InMemoryEngine_Get key sink e x \<and>
    RocksDBEngine_List R p sink db' x = InMemoryEngine_List p sink e x \<and> length cs = length hs \<and>
    (\<forall>i<length hs. case (hs ! i, cs ! i) of
       (None, None) \<Rightarrow> True
     | (Some s, Some c) \<Rightarrow> RocksDBSnapshot_Get R s key sink db' x = SnapshotCopy_Get key sink c x \<and>
         RocksDBSnapshot_List R s p sink db' x = SnapshotCopy_List p sink c x
     | _ \<Rightarrow> False)"
proof -
  have "engines_match healthy live content (db, []) (\<lparr>ime_data = content None db\<rparr>, [])"
    using assms(2) by (simp add: engines_match_def handles_match_def)
  from rocks_run_match[OF assms(1) this assms(3)] assms(4)
  have m: "healthy db'" "content None db' = ime_data e" "handles_match live content db' hs cs" by (simp_all add: engines_match_def)
  note law = rocksdb_lawfulD[OF assms(1) m(1)]
  have "case (hs ! i, cs ! i) of (None, None) \<Rightarrow> True
     | (Some s, Some c) \<Rightarrow> RocksDBSnapshot_Get R s key sink db' x = SnapshotCopy_Get key sink c x \<and>
         RocksDBSnapshot_List R s p sink db' x = SnapshotCopy_List p sink c x
     | _ \<Rightarrow> False" if "i < length hs" for i
    using that m(3) law(2) by (cases "hs ! i") (auto simp: handles_match_def RocksDBSnapshot_Get_def RocksDBSnapshot_List_def
        ReadEntry_content ReadEntries_content)
  moreover have "RocksDBEngine_Get R key sink db' x = InMemoryEngine_Get key sink e x \<and> RocksDBEngine_List R p sink db' x = InMemoryEngine_List p sink e x"
    using m(2) by (simp add: RocksDBEngine_Get_def RocksDBEngine_List_def ReadEntry_content[OF law(1)] ReadEntries_content[OF law(1)]
        InMemoryEngine_Get_def SnapshotCopy_Get_def InMemoryEngine_List_def SnapshotCopy_List_def)
  moreover have "length cs = length hs" using m(3) by (simp add: handles_match_def)
  ultimately show ?thesis by blast
qed

text \<open>A database that keeps its entries in an ordered list and numbers its snapshots, which are copies.\<close>

type_synonym ExampleRocks = "entries \<times> (nat \<rightharpoonup> entries) \<times> nat"

definition example_ok :: RocksStatus where
  "example_ok = \<lparr>rk_code = 0, rk_text = ''OK''\<rparr>"

definition example_content :: "nat option \<Rightarrow> ExampleRocks \<Rightarrow> entries" where
  "example_content s = (\<lambda>(d, m, n). case s of None \<Rightarrow> d | Some i \<Rightarrow> (case m i of None \<Rightarrow> [] | Some c \<Rightarrow> c))"

definition ExampleDb :: "(ExampleRocks, nat) RocksDb" where
  "ExampleDb = \<lparr>rk_open = (\<lambda>_. (([], Map.empty, 0), example_ok)),
     rk_put = (\<lambda>_ k v (d, w). ((map_insert k v d, w), example_ok)),
     rk_delete = (\<lambda>_ k (d, w). ((map_erase k d, w), example_ok)), rk_flush_wal = (\<lambda>_ db. (db, Inr example_ok)),
     rk_get = (\<lambda>s k db. case map_of (example_content s db) k of
        None \<Rightarrow> (\<lparr>rk_code = 1, rk_text = ''NotFound''\<rparr>, []) | Some v \<Rightarrow> (example_ok, v)),
     rk_iterate = (\<lambda>s p db. (dropWhile (\<lambda>(k, _). k < p) (example_content s db), \<lambda>_. example_ok)),
     rk_get_snapshot = (\<lambda>(d, m, n). ((d, m(n \<mapsto> d), n + 1), n)), rk_release_snapshot = (\<lambda>s (d, m, n). (d, m(s := None), n))\<rparr>"

definition example_healthy :: "ExampleRocks \<Rightarrow> bool" where
  "example_healthy = (\<lambda>(d, m, n). map_wf d \<and> (\<forall>i c. m i = Some c \<longrightarrow> map_wf c \<and> i < n))"

definition example_db_live :: "ExampleRocks \<Rightarrow> nat \<Rightarrow> bool" where
  "example_db_live = (\<lambda>(d, m, n) s. m s \<noteq> None)"

lemma ExampleDb_lawful: "rocksdb_lawful ExampleDb example_healthy example_db_live example_content"
proof -
  note defs = ExampleDb_def rk_ok_def rk_is_not_found_def example_ok_def example_healthy_def example_db_live_def
  have reads: "reads_lawful ExampleDb example_content db s" if "example_healthy db" "\<And>i. s = Some i \<Longrightarrow> example_db_live db i" for db s
    using that by (auto simp: reads_lawful_def defs example_content_def split: option.splits)
  have snap: "snapshot_lawful ExampleDb example_healthy example_db_live example_content db" if "example_healthy db" for db
  proof -
    obtain d m n where db: "db = (d, m, n)" by (metis surj_pair)
    with that have "m n = None" by (cases "m n") (auto simp: example_healthy_def)
    with that db show ?thesis by (auto simp: snapshot_lawful_def write_lawful_def defs example_content_def less_Suc_eq)
  qed
  have put: "write_lawful example_healthy example_db_live example_content db db' (map_insert k v (example_content None db))"
    if "example_healthy db" "rk_put ExampleDb opts k v db = (db', status)" for db db' k v opts status
    using that by (auto simp: write_lawful_def defs example_content_def map_insert_wf)
  have del: "write_lawful example_healthy example_db_live example_content db db' (map_erase k (example_content None db))"
    if "example_healthy db" "rk_delete ExampleDb opts k db = (db', status)" for db db' k opts status
    using that by (auto simp: write_lawful_def defs example_content_def map_erase_wf)
  have flush: "write_lawful example_healthy example_db_live example_content db db' (example_content None db)"
    if "example_healthy db" "rk_flush_wal ExampleDb True db = (db', Inr status)" for db db' status
    using that by (auto simp: write_lawful_def defs)
  show ?thesis unfolding rocksdb_lawful_def
    by (intro allI impI conjI) (blast intro: reads snap put del flush)+
qed

text \<open>A snapshot taken between two puts of a key keeps the first value.\<close>

theorem rocksdb_engine_equals_memory_witness:
  "\<exists>db'. rocks_run ExampleDb [RocksPut ''a'' [1], RocksTake True, RocksSync, RocksPut ''a'' [2], RocksDelete ''b''] (([], Map.empty, 0), []) = Some (db', [Some 0]) \<and>
     RocksDBEngine_Get ExampleDb ''a'' (\<lambda>k v x. ((k, v) # x, True)) db' [] = ([(''a'', [2])], True) \<and>
     RocksDBSnapshot_Get ExampleDb 0 ''a'' (\<lambda>k v x. ((k, v) # x, True)) db' [] = ([(''a'', [1])], True)"
proof -
  let ?ops = "[RocksPut ''a'' [1], RocksTake True, RocksSync, RocksPut ''a'' [2], RocksDelete ''b'']"
  let ?db = "([], Map.empty, 0) :: ExampleRocks"
  have run: "rocks_run ExampleDb ?ops (?db, []) = Some (([(''a'', [2])], [0 \<mapsto> [(''a'', [1])]], 1), [Some 0])"
    by (simp add: rocks_step_def RocksDBEngine_Put_def RocksDBEngine_Delete_def RocksDBEngine_Sync_def RocksDBEngine_TakeSnapshot_def
        ExampleDb_def rk_ok_def example_ok_def IsOk_def Result_Ok_def)
  have mem: "fold memory_step ?ops (\<lparr>ime_data = example_content None ?db\<rparr>, []) = (\<lparr>ime_data = [(''a'', [2])]\<rparr>, [Some [(''a'', [1])]])"
    by (simp add: InMemoryEngine_Put_def InMemoryEngine_Delete_def example_content_def TakeSnapshot_in_memory map_wf_def)
  have "example_healthy ?db" by (simp add: example_healthy_def)
  from rocksdb_engine_equals_memory[OF ExampleDb_lawful this run mem, of "''a''" "\<lambda>k v x. ((k, v) # x, True)" "[]" "''''"] run
  show ?thesis by (simp add: InMemoryEngine_Get_def SnapshotCopy_Get_def)
qed

text \<open>Whatever the database does: a read whose status is an error returns false and hands the sink nothing, not even the entries
  collected before the error; a synchronisation reports success exactly when the write-ahead log was flushed with
  the sync flag and success; and any other outcome is \<open>OutcomeUnknown\<close> once the native call was made, \<open>Error\<close> before it.\<close>

theorem rocksdb_errors_reported:
  "(\<not> rk_ok (fst (ListEntries R s p db)) \<longrightarrow> ReadEntries R s p sink db x = (x, False)) \<and>
   (\<not> rk_ok (fst (rk_get R s key db)) \<longrightarrow> ReadEntry R s key sink db x = (x, False)) \<and>
   (IsOk (snd (RocksDBEngine_Sync R lock db)) \<longleftrightarrow> lock = None \<and>
      (\<exists>db' status. rk_flush_wal R True db = (db', Inr status) \<and> rk_ok status)) \<and>
   (\<not> IsOk (snd (RocksDBEngine_Sync R lock db)) \<longrightarrow>
      StatusCode (snd (RocksDBEngine_Sync R lock db)) = (if lock = None then OutcomeUnknown else Error))"
  by (auto simp: ReadEntries_def ReadEntry_def RocksDBEngine_Sync_def SyncException_def Let_def IsOk_def Result_Ok_def Result_Err_def
      StatusCode_def MakeErrorInfo_def split: prod.splits sum.splits option.splits NativeException.splits)

theorem rocksdb_errors_reported_witness:
  "IsOk (snd (RocksDBEngine_Sync ExampleDb None ([], Map.empty, 0)))"
  using rocksdb_errors_reported[of ExampleDb None "''''" "([], Map.empty, 0)" "\<lambda>k v x. (x, True)" "()" "''''" None]
  by (simp add: ExampleDb_def rk_ok_def example_ok_def)

section \<open>The node's engine interface\<close>

definition RocksDBOps :: "('db, 's) RocksDb \<Rightarrow> 'db EngineOps" where
  "RocksDBOps R = \<lparr>
     eng_put = (\<lambda>k v db. case RocksDBEngine_Put R k v db of (db, ok) \<Rightarrow> (db, reply_of ok)),
     eng_delete = (\<lambda>k db. case RocksDBEngine_Delete R k db of (db, ok) \<Rightarrow> (db, reply_of ok)),
     eng_get = (\<lambda>k db. Some (fst (RocksDBEngine_Get R k last_sink db None))),
     eng_list = (\<lambda>p db. case RocksDBEngine_List R p collect_sink db [] of (es, ok) \<Rightarrow> (es, reply_of ok)),
     eng_capability = (\<lambda>_. RocksDBEngine_GetSyncCapability),
     eng_sync = (\<lambda>db. case RocksDBEngine_Sync R None db of (db, r) \<Rightarrow> (db, Some r)),
     eng_snapshot = (\<lambda>db. case rk_get_snapshot R db of (db, s) \<Rightarrow> Some (Some (fst (RocksDBSnapshot_List R s '''' collect_sink db []))))\<rparr>"

text \<open>The persistent engine meets the assumption the node's durable fences make of their engine.\<close>

lemma RocksDBOps_sync_honest: "sync_honest (RocksDBOps R)"
  by (auto simp: sync_honest_def RocksDBOps_def RocksDBEngine_Sync_def SyncException_def Let_def result_wf_def Result_Ok_def
      Result_Err_def MakeErrorInfo_def MakeErrorCode_def split: prod.splits sum.splits if_splits NativeException.splits)

end
