(* ===== verification/ZenohTransport.thy ===== *)
theory ZenohTransport
  imports AckClient
begin

text \<open>
  The Zenoh adapter, \<open>src/transport/zenoh_transport.cpp\<close>: encodings on the wire, samples and replies as they arrive, the
  calls of a transport and the lifetime of a query.  The native library is a parameter: the result code of each call, what it
  does to the world, and how it prints an encoding.  Ownership of native objects is not modelled; every native object
  of the code lives exactly as long as the call that uses it.
\<close>

section \<open>Errors\<close>

definition ZenohCategory :: error_category where
  "ZenohCategory = OtherCategory 2"

definition TransportCategory :: error_category where
  "TransportCategory = OtherCategory 3"

datatype TransportErrc = kErrDisconnected | kErrInvalidArg | kErrNoQuery

definition errc_number :: "TransportErrc \<Rightarrow> int" where
  "errc_number ec = (case ec of kErrDisconnected \<Rightarrow> -1 | kErrInvalidArg \<Rightarrow> -2 | kErrNoQuery \<Rightarrow> -3)"

definition TransportMessage :: "TransportErrc \<Rightarrow> string" where
  "TransportMessage ec = (case ec of
     kErrDisconnected \<Rightarrow> ''zenoh session is not available''
   | kErrInvalidArg \<Rightarrow> ''invalid argument''
   | kErrNoQuery \<Rightarrow> ''query is no longer valid (queryable destroyed)'')"

definition MakeZenohError :: "int \<Rightarrow> error_code" where
  "MakeZenohError rc = (if rc = 0 then no_error_code else \<lparr>ec_value = rc, ec_category = ZenohCategory\<rparr>)"

definition MakeTransportError :: "TransportErrc \<Rightarrow> error_code" where
  "MakeTransportError ec = \<lparr>ec_value = errc_number ec, ec_category = TransportCategory\<rparr>"

definition SemanticTransportError :: "Status \<Rightarrow> TransportErrc \<Rightarrow> 'a Result" where
  "SemanticTransportError status code = Result_Err status (TransportMessage code) (MakeTransportError code)"

section \<open>The native library\<close>

text \<open>An encoding is the predefined \<open>zenoh/bytes\<close> with a schema, or one made from its text.\<close>

datatype WireEncoding = BytesWithSchema string | EncodingFromText string

record WirePut =
  wp_key :: string
  wp_payload :: bytes
  wp_encoding :: WireEncoding
  wp_attachment :: "bytes option"
  wp_fence_profile :: bool

datatype WireKind = WireKindPut | WireKindDelete | WireKindOther

text \<open>A sample as it arrives.  A payload or an attachment that cannot be read as a slice is \<open>None\<close> inside.\<close>

record WireSample =
  ws_kind :: WireKind
  ws_key :: string
  ws_payload :: "bytes option"
  ws_encoding :: string
  ws_attachment :: "bytes option option"

text \<open>A reply: a sample, whose object or payload may be missing, or an error, whose payload may be missing or unreadable.
  A payload that cannot be read carries the result code.\<close>

datatype WireReply = WireNoSample | WireNoPayload | WireUnreadable int | WireReplySample string bytes string | WireReplyError "bytes option option"

datatype SubscriberSpace = SpaceData | SpaceLiveliness

record 'w ZenohNative =
  zn_keyexpr :: "string \<Rightarrow> int"
  zn_bytes :: "bytes \<Rightarrow> int"
  zn_set_schema :: "string \<Rightarrow> int"
  zn_encoding :: "string \<Rightarrow> int"
  zn_encoding_text :: "WireEncoding \<Rightarrow> string"
  zn_put :: "WirePut \<Rightarrow> 'w \<Rightarrow> 'w \<times> int"
  zn_delete :: "string \<Rightarrow> 'w \<Rightarrow> 'w \<times> int"
  zn_get :: "string \<Rightarrow> int \<Rightarrow> 'w \<Rightarrow> 'w \<times> int \<times> WireReply list"
  zn_reply :: "string \<Rightarrow> bytes \<Rightarrow> WireEncoding \<Rightarrow> 'w \<Rightarrow> 'w \<times> int"
  zn_reply_err :: "bytes \<Rightarrow> 'w \<Rightarrow> 'w \<times> int"
  zn_declare_subscriber :: "SubscriberSpace \<Rightarrow> string \<Rightarrow> 'w \<Rightarrow> 'w \<times> int"
  zn_declare_token :: "string \<Rightarrow> 'w \<Rightarrow> 'w \<times> int"
  zn_declare_queryable :: "string \<Rightarrow> 'w \<Rightarrow> 'w \<times> int"
  zn_declare_querier :: "string \<Rightarrow> 'w \<Rightarrow> 'w \<times> int"
  zn_matching :: "string \<Rightarrow> 'w \<Rightarrow> 'w \<times> int \<times> bool"
  zn_now :: "'w \<Rightarrow> 'w \<times> int"
  zn_sleep :: "int \<Rightarrow> 'w \<Rightarrow> 'w"

section \<open>Encodings and payloads\<close>

definition IsSitosSchema :: "string \<Rightarrow> bool" where
  "IsSitosSchema name \<longleftrightarrow> name = kSitosV1 \<or> name = kSitosV1Batch \<or> name = kSitosV1Ack \<or> name = kSitosV1Fence"

definition kCanonicalBytesPrefix :: string where "kCanonicalBytesPrefix = ''zenoh/bytes;''"
definition kLegacyBytesPrefix :: string where "kLegacyBytesPrefix = ''zenoh.bytes;''"

definition SitosSchemaFromEncoding :: "string \<Rightarrow> string option" where
  "SitosSchemaFromEncoding name =
    (let name = (if starts_with name kCanonicalBytesPrefix then drop (length kCanonicalBytesPrefix) name
               else if starts_with name kLegacyBytesPrefix then drop (length kLegacyBytesPrefix) name else name) in
     if IsSitosSchema name then Some name else None)"

definition MakeKeyexpr :: "'w ZenohNative \<Rightarrow> string \<Rightarrow> unit Result" where
  "MakeKeyexpr N key = (let rc = zn_keyexpr N key in if rc \<noteq> 0 then Result_ErrCode (MakeZenohError rc) else Result_Ok ())"

definition MakeEncoding :: "'w ZenohNative \<Rightarrow> string \<Rightarrow> WireEncoding Result" where
  "MakeEncoding N name = (case SitosSchemaFromEncoding name of
     Some schema \<Rightarrow> (let rc = zn_set_schema N schema in
       if rc \<noteq> 0 then Result_ErrCode (MakeZenohError rc) else Result_Ok (BytesWithSchema schema))
   | None \<Rightarrow> (let rc = zn_encoding N name in
       if rc \<noteq> 0 then Result_ErrCode (MakeZenohError rc) else Result_Ok (EncodingFromText name)))"

definition MakeBytes :: "'w ZenohNative \<Rightarrow> bytes \<Rightarrow> unit Result" where
  "MakeBytes N payload = (let rc = zn_bytes N payload in if rc \<noteq> 0 then Result_ErrCode (MakeZenohError rc) else Result_Ok ())"

definition NormalizeEncoding :: "string \<Rightarrow> string" where
  "NormalizeEncoding wire_id = (case SitosSchemaFromEncoding wire_id of Some schema \<Rightarrow> schema | None \<Rightarrow> wire_id)"

definition ReadAttachments :: "WireSample \<Rightarrow> AttachmentObservations" where
  "ReadAttachments s = (case ws_attachment s of
     None \<Rightarrow> ClassifyAttachment None
   | Some None \<Rightarrow> \<lparr>ao_ack = AckAttachmentMalformed, ao_lane = FenceLaneAbsent\<rparr>
   | Some (Some bs) \<Rightarrow> ClassifyAttachment (Some bs))"

section \<open>Replies\<close>

definition ConvertErrorReply :: "bytes option option \<Rightarrow> QueryReply Result" where
  "ConvertErrorReply payload = (case payload of
     Some (Some bs) \<Rightarrow> (case DecodeQueryErrorReply bs of
         Some status \<Rightarrow> Result_Err status ''storage node refused the query'' (MakeErrorCode status)
       | None \<Rightarrow> Result_Err Error ''zenoh get reply reported an error'' (MakeErrorCode Error))
   | _ \<Rightarrow> Result_Err Error ''zenoh get reply reported an error'' (MakeErrorCode Error))"

definition ConvertGetReply :: "WireReply \<Rightarrow> QueryReply Result" where
  "ConvertGetReply reply = (case reply of
     WireReplyError payload \<Rightarrow> ConvertErrorReply payload
   | WireNoSample \<Rightarrow> Result_Err Error ''zenoh get reply did not contain a sample'' (MakeErrorCode Error)
   | WireNoPayload \<Rightarrow> Result_Err Error ''zenoh get reply did not contain a payload'' (MakeErrorCode Error)
   | WireUnreadable rc \<Rightarrow> Result_Err Error ''failed to read zenoh get reply payload'' (MakeZenohError rc)
   | WireReplySample key payload encoding \<Rightarrow>
       Result_Ok \<lparr>qr_key = key, qr_payload = payload, qr_encoding = NormalizeEncoding encoding\<rparr>)"

section \<open>Samples\<close>

text \<open>What the subscriber callback hands on; an exception of the callback is contained.\<close>

definition OnSubscriberSample :: "bool \<Rightarrow> WireSample \<Rightarrow> TransportSample option" where
  "OnSubscriberSample active s =
    (if \<not> active then None
     else (case ws_kind s of
       WireKindOther \<Rightarrow> None
     | WireKindPut \<Rightarrow> (case ws_payload s of
         None \<Rightarrow> None
       | Some payload \<Rightarrow> (let a = ReadAttachments s in
           Some \<lparr>ts_key = ws_key s, ts_payload = payload, ts_encoding = NormalizeEncoding (ws_encoding s), ts_ack = ao_ack a,
              ts_kind = SamplePut, ts_fence_lane = ao_lane a\<rparr>))
     | WireKindDelete \<Rightarrow> (let a = ReadAttachments s in
         Some \<lparr>ts_key = ws_key s, ts_payload = [], ts_encoding = '''', ts_ack = ao_ack a, ts_kind = SampleDelete, ts_fence_lane = ao_lane a\<rparr>)))"

section \<open>The transport\<close>

record ZenohSession =
  zs_valid :: bool
  zs_fence_profile_supported :: bool
  zs_queriers :: "string list"

definition SupportsFenceProfile :: "ZenohSession \<Rightarrow> bool" where
  "SupportsFenceProfile z \<longleftrightarrow> zs_valid z \<and> zs_fence_profile_supported z"

definition PutOptionsInvalid :: "PutOptions \<Rightarrow> bool" where
  "PutOptionsInvalid options \<longleftrightarrow>
     po_ack_token options \<noteq> None \<and> po_fence_lane options \<noteq> None \<or>
     (case po_ack_token options of Some token \<Rightarrow> \<not> IsValidAckToken token | None \<Rightarrow> False) \<or>
     (case po_fence_lane options of
        Some lane \<Rightarrow> \<not> IsValidFenceUuid (flm_publisher_uuid lane) \<or> flm_sequence lane = 0
      | None \<Rightarrow> False)"

definition PutAttachment :: "PutOptions \<Rightarrow> bytes option" where
  "PutAttachment options = (case po_ack_token options of
     Some token \<Rightarrow> Some (EncodeAckAttachment token)
   | None \<Rightarrow> map_option EncodeFenceLaneAttachment (po_fence_lane options))"

definition native_result :: "'w \<times> int \<Rightarrow> 'w \<times> unit Result" where
  "native_result = (\<lambda>(w, rc). (w, if rc \<noteq> 0 then Result_ErrCode (MakeZenohError rc) else Result_Ok ()))"

definition Zenoh_Put :: "'w ZenohNative \<Rightarrow> ZenohSession \<Rightarrow> string \<Rightarrow> bytes \<Rightarrow> string \<Rightarrow> PutOptions \<Rightarrow> 'w \<Rightarrow> 'w \<times> unit Result" where
  "Zenoh_Put N z key payload encoding options w =
    (if PutOptionsInvalid options then (w, SemanticTransportError InvalidArgument kErrInvalidArg)
     else if \<not> zs_valid z then (w, SemanticTransportError Disconnected kErrDisconnected)
     else (case MakeEncoding N encoding of
       Inl e \<Rightarrow> (w, ErrFrom (Inl e :: WireEncoding Result))
     | Inr enc \<Rightarrow> (case MakeKeyexpr N key of
         Inl e \<Rightarrow> (w, ErrFrom (Inl e :: unit Result))
       | Inr _ \<Rightarrow> (case MakeBytes N payload of
           Inl e \<Rightarrow> (w, ErrFrom (Inl e :: unit Result))
         | Inr _ \<Rightarrow>
             (case (case PutAttachment options of None \<Rightarrow> Result_Ok () | Some bs \<Rightarrow> MakeBytes N bs) of
                Inl e \<Rightarrow> (w, ErrFrom (Inl e :: unit Result))
              | Inr _ \<Rightarrow> native_result (zn_put N \<lparr>wp_key = key, wp_payload = payload, wp_encoding = enc,
                  wp_attachment = PutAttachment options,
                  wp_fence_profile = (po_fence_lane options \<noteq> None \<or> encoding = kSitosV1Fence)\<rparr> w))))))"

definition Zenoh_Delete :: "'w ZenohNative \<Rightarrow> ZenohSession \<Rightarrow> string \<Rightarrow> PutOptions \<Rightarrow> 'w \<Rightarrow> 'w \<times> unit Result" where
  "Zenoh_Delete N z key options w =
    (if po_ack_token options \<noteq> None then (w, SemanticTransportError InvalidArgument kErrInvalidArg)
     else if \<not> zs_valid z then (w, SemanticTransportError Disconnected kErrDisconnected)
     else (case MakeKeyexpr N key of
       Inl e \<Rightarrow> (w, ErrFrom (Inl e :: unit Result))
     | Inr _ \<Rightarrow> native_result (zn_delete N key w)))"

text \<open>A get is handed to its completion as the list of converted replies.\<close>

definition Zenoh_Get :: "'w ZenohNative \<Rightarrow> ZenohSession \<Rightarrow> string \<Rightarrow> int \<Rightarrow> 'w \<Rightarrow> 'w \<times> QueryReply Result option list Result" where
  "Zenoh_Get N z keyexpr timeout w =
    (if timeout \<le> 0 then (w, SemanticTransportError InvalidArgument kErrInvalidArg)
     else if \<not> zs_valid z then (w, SemanticTransportError Disconnected kErrDisconnected)
     else (case MakeKeyexpr N keyexpr of
       Inl e \<Rightarrow> (w, ErrFrom (Inl e :: unit Result))
     | Inr _ \<Rightarrow> (case zn_get N keyexpr timeout w of (w, rc, replies) \<Rightarrow>
         if rc \<noteq> 0 then (w, Result_ErrCode (MakeZenohError rc))
         else (w, Result_Ok (map (\<lambda>r. Some (ConvertGetReply r)) replies)))))"

definition DeclareSampleSubscriber :: "'w ZenohNative \<Rightarrow> ZenohSession \<Rightarrow> SubscriberSpace \<Rightarrow> bool \<Rightarrow> string \<Rightarrow> 'w \<Rightarrow> 'w \<times> unit Result" where
  "DeclareSampleSubscriber N z space has_callback keyexpr w =
    (if \<not> zs_valid z then (w, SemanticTransportError Disconnected kErrDisconnected)
     else if \<not> has_callback then (w, SemanticTransportError InvalidArgument kErrInvalidArg)
     else (case MakeKeyexpr N keyexpr of
       Inl e \<Rightarrow> (w, ErrFrom (Inl e :: unit Result))
     | Inr _ \<Rightarrow> native_result (zn_declare_subscriber N space keyexpr w)))"

definition DeclareLivelinessToken :: "'w ZenohNative \<Rightarrow> ZenohSession \<Rightarrow> string \<Rightarrow> 'w \<Rightarrow> 'w \<times> unit Result" where
  "DeclareLivelinessToken N z key w =
    (if \<not> zs_valid z then (w, SemanticTransportError Disconnected kErrDisconnected)
     else (case MakeKeyexpr N key of
       Inl e \<Rightarrow> (w, ErrFrom (Inl e :: unit Result))
     | Inr _ \<Rightarrow> native_result (zn_declare_token N key w)))"

definition DeclareQueryable :: "'w ZenohNative \<Rightarrow> ZenohSession \<Rightarrow> bool \<Rightarrow> string \<Rightarrow> 'w \<Rightarrow> 'w \<times> unit Result" where
  "DeclareQueryable N z has_callback keyexpr w =
    (if \<not> has_callback then (w, SemanticTransportError InvalidArgument kErrInvalidArg)
     else if \<not> zs_valid z then (w, SemanticTransportError Disconnected kErrDisconnected)
     else (case MakeKeyexpr N keyexpr of
       Inl e \<Rightarrow> (w, ErrFrom (Inl e :: unit Result))
     | Inr _ \<Rightarrow> native_result (zn_declare_queryable N keyexpr w)))"

definition MatchingQuerier :: "'w ZenohNative \<Rightarrow> string \<Rightarrow> ZenohSession \<Rightarrow> 'w \<Rightarrow> ZenohSession \<times> 'w \<times> unit Result" where
  "MatchingQuerier N keyexpr z w =
    (if keyexpr \<in> set (zs_queriers z) then (z, w, Result_Ok ())
     else (case MakeKeyexpr N keyexpr of
       Inl e \<Rightarrow> (z, w, ErrFrom (Inl e :: unit Result))
     | Inr _ \<Rightarrow> (case zn_declare_querier N keyexpr w of (w, rc) \<Rightarrow>
         if rc \<noteq> 0 then (z, w, Result_ErrCode (MakeZenohError rc))
         else (z\<lparr>zs_queriers := zs_queriers z @ [keyexpr]\<rparr>, w, Result_Ok ()))))"

text \<open>The poll loop, in nanoseconds of the monotonic clock.\<close>

definition kMatchingPollInterval :: int where "kMatchingPollInterval = 10 * ns_per_ms"

partial_function (option) MatchingLoop :: "'w ZenohNative \<Rightarrow> string \<Rightarrow> int \<Rightarrow> 'w \<Rightarrow> ('w \<times> bool Result) option" where
  "MatchingLoop N keyexpr deadline w = (case zn_now N w of (w, now) \<Rightarrow>
     if now \<ge> deadline then Some (w, Result_Ok False)
     else (case zn_matching N keyexpr w of (w, rc, matching) \<Rightarrow>
       if rc \<noteq> 0 then Some (w, Result_ErrCode (MakeZenohError rc))
       else if matching then Some (w, Result_Ok True)
       else MatchingLoop N keyexpr deadline (zn_sleep N (min kMatchingPollInterval (deadline - now)) w)))"

definition WaitForMatchingQueryable :: "'w ZenohNative \<Rightarrow> string \<Rightarrow> int \<Rightarrow> ZenohSession \<Rightarrow> 'w \<Rightarrow> (ZenohSession \<times> 'w \<times> bool Result) option" where
  "WaitForMatchingQueryable N keyexpr deadline z w =
    (if \<not> zs_valid z then Some (z, w, SemanticTransportError Disconnected kErrDisconnected)
     else (case MatchingQuerier N keyexpr z w of
       (z, w, Inl e) \<Rightarrow> Some (z, w, ErrFrom (Inl e :: unit Result))
     | (z, w, Inr _) \<Rightarrow> map_option (\<lambda>(w, r). (z, w, r)) (MatchingLoop N keyexpr deadline w)))"

section \<open>Queries\<close>

text \<open>The lifetime of a query: the queryable is alive, the callback is running and the query object exists.\<close>

record QueryLife =
  ql_attached :: bool
  ql_active :: bool
  ql_alive :: bool

definition TransportQuery_Reply :: "'w ZenohNative \<Rightarrow> string \<Rightarrow> bytes \<Rightarrow> string \<Rightarrow> QueryLife \<Rightarrow> 'w \<Rightarrow> 'w \<times> unit Result" where
  "TransportQuery_Reply N key payload encoding q w =
    (if \<not> ql_attached q then (w, SemanticTransportError Error kErrNoQuery)
     else (case MakeEncoding N encoding of
       Inl e \<Rightarrow> (w, ErrFrom (Inl e :: WireEncoding Result))
     | Inr enc \<Rightarrow> (case MakeKeyexpr N key of
         Inl e \<Rightarrow> (w, ErrFrom (Inl e :: unit Result))
       | Inr _ \<Rightarrow> (case MakeBytes N payload of
           Inl e \<Rightarrow> (w, ErrFrom (Inl e :: unit Result))
         | Inr _ \<Rightarrow>
             if \<not> ql_active q \<or> \<not> ql_alive q then (w, SemanticTransportError Error kErrNoQuery)
             else native_result (zn_reply N key payload enc w)))))"

definition ReplyErrorPayload :: "'w ZenohNative \<Rightarrow> bytes \<Rightarrow> QueryLife \<Rightarrow> 'w \<Rightarrow> 'w \<times> unit Result" where
  "ReplyErrorPayload N payload q w =
    (if \<not> ql_attached q then (w, SemanticTransportError Error kErrNoQuery)
     else (case MakeBytes N payload of
       Inl e \<Rightarrow> (w, ErrFrom (Inl e :: unit Result))
     | Inr _ \<Rightarrow>
         if \<not> ql_active q \<or> \<not> ql_alive q then (w, SemanticTransportError Error kErrNoQuery)
         else native_result (zn_reply_err N payload w)))"

text \<open>The queryable callback: a dead queryable runs nothing, and when it returns, or throws, the query is inactive.\<close>

definition OnQueryable :: "(QueryLife \<Rightarrow> 'w \<Rightarrow> 'w) \<Rightarrow> bool \<Rightarrow> 'w \<Rightarrow> 'w \<times> QueryLife" where
  "OnQueryable callback alive w =
    (let q = \<lparr>ql_attached = True, ql_active = True, ql_alive = alive\<rparr> in
     if \<not> alive then (w, q\<lparr>ql_active := False\<rparr>) else (callback q w, q\<lparr>ql_active := False\<rparr>))"

section \<open>Opening\<close>

definition ConfigFailureStatus :: "bool \<Rightarrow> Status" where
  "ConfigFailureStatus user_config_provided = (if user_config_provided then InvalidArgument else Error)"

text \<open>The result codes of making the configuration and of opening the session.\<close>

definition OpenZenohTransport :: "(string option \<Rightarrow> int) \<Rightarrow> (string option \<Rightarrow> int) \<Rightarrow> string option \<Rightarrow> ZenohSession Result" where
  "OpenZenohTransport make_config open_session config_json =
    (if config_json = Some '''' then Err InvalidArgument ''zenoh configuration must not be empty''
     else if make_config config_json \<noteq> 0 then
       Result_Err (ConfigFailureStatus (config_json \<noteq> None))
         (if config_json \<noteq> None then ''invalid zenoh configuration'' else ''failed to create default zenoh configuration'')
         (MakeZenohError (make_config config_json))
     else if open_session config_json \<noteq> 0 then
       Result_Err Error ''failed to open zenoh session'' (MakeZenohError (open_session config_json))
     else Result_Ok \<lparr>zs_valid = True, zs_fence_profile_supported = (config_json = None), zs_queriers = []\<rparr>)"


section \<open>What a put looks like on arrival\<close>

text \<open>The hypotheses on the native side: a put that the network delivers arrives as a sample with its key, payload and
  attachment unchanged and its encoding as the library prints it, and the library prints \<open>zenoh/bytes\<close> with a
  schema as the prefix followed by the schema.\<close>

definition carried :: "'w ZenohNative \<Rightarrow> WirePut \<Rightarrow> WireSample" where
  "carried N p = \<lparr>ws_kind = WireKindPut, ws_key = wp_key p, ws_payload = Some (wp_payload p),
     ws_encoding = zn_encoding_text N (wp_encoding p), ws_attachment = map_option Some (wp_attachment p)\<rparr>"

definition prints_schema :: "'w ZenohNative \<Rightarrow> bool" where
  "prints_schema N \<longleftrightarrow> (\<forall>schema. zn_encoding_text N (BytesWithSchema schema) = kCanonicalBytesPrefix @ schema)"

text \<open>The identities in the options are arrays of sixteen bytes.\<close>

definition options_sized :: "PutOptions \<Rightarrow> bool" where
  "options_sized options \<longleftrightarrow> (\<forall>t. po_ack_token options = Some t \<longrightarrow> length t = 16) \<and>
     (\<forall>l. po_fence_lane options = Some l \<longrightarrow> length (flm_publisher_uuid l) = 16)"

lemma schema_prefixes: "SitosSchemaFromEncoding (kCanonicalBytesPrefix @ s) = (if IsSitosSchema s then Some s else None)"
  by (simp add: SitosSchemaFromEncoding_def Let_def)

lemma schema_plain: "IsSitosSchema s \<Longrightarrow> SitosSchemaFromEncoding s = Some s"
  by (auto simp: IsSitosSchema_def SitosSchemaFromEncoding_def kSitosV1_def kSitosV1Batch_def kSitosV1Ack_def kSitosV1Fence_def
      kCanonicalBytesPrefix_def kLegacyBytesPrefix_def)

lemma schema_valid: "SitosSchemaFromEncoding s = Some t \<Longrightarrow> IsSitosSchema t"
  by (auto simp: SitosSchemaFromEncoding_def Let_def split: if_splits)

text \<open>The encoding that arrives is the schema the encoding names, if it names one, and itself otherwise.\<close>

lemma encoding_arrives:
  assumes "MakeEncoding N encoding = Inr enc" "prints_schema N" "zn_encoding_text N (EncodingFromText encoding) = encoding"
  shows "NormalizeEncoding (zn_encoding_text N enc) = NormalizeEncoding encoding"
proof (cases "SitosSchemaFromEncoding encoding")
  case None
  with assms(1) have "enc = EncodingFromText encoding"
    by (auto simp: MakeEncoding_def Result_ErrCode_def Result_Ok_def Let_def split: if_splits)
  with assms(3) show ?thesis by simp
next
  case (Some schema)
  with assms(1) have "enc = BytesWithSchema schema"
    by (auto simp: MakeEncoding_def Result_ErrCode_def Result_Ok_def Let_def split: if_splits)
  with assms(2) Some schema_valid[OF Some] show ?thesis
    by (simp add: prints_schema_def NormalizeEncoding_def schema_prefixes)
qed

lemma attachment_arrives:
  assumes "\<not> PutOptionsInvalid options" "options_sized options"
  shows "ClassifyAttachment (PutAttachment options) = \<lparr>ao_ack = (case po_ack_token options of Some t \<Rightarrow> AckObserved t | None \<Rightarrow> AckAttachmentAbsent),
    ao_lane = (case po_fence_lane options of Some l \<Rightarrow> FenceLaneObserved l | None \<Rightarrow> FenceLaneAbsent)\<rparr>"
proof (cases "po_ack_token options")
  case (Some t)
  with assms have "length t = 16 \<and> IsValidAckToken t" "po_fence_lane options = None" by (auto simp: PutOptionsInvalid_def options_sized_def)
  with Some ClassifyAttachment_disjoint show ?thesis by (simp add: PutAttachment_def)
next
  case no_token: None
  show ?thesis
  proof (cases "po_fence_lane options")
    case None
    with no_token show ?thesis by (simp add: PutAttachment_def ClassifyAttachment_def)
  next
    case (Some lane)
    with assms have "lane_metadata_valid lane" by (auto simp: PutOptionsInvalid_def options_sized_def lane_metadata_valid_def)
    with Some no_token ClassifyAttachment_disjoint show ?thesis by (simp add: PutAttachment_def)
  qed
qed

lemma Zenoh_Put_ok:
  assumes "Zenoh_Put N z key payload encoding options w = (w', Result_Ok ())"
  obtains enc where "\<not> PutOptionsInvalid options" "zs_valid z" "MakeEncoding N encoding = Inr enc"
    "zn_put N \<lparr>wp_key = key, wp_payload = payload, wp_encoding = enc, wp_attachment = PutAttachment options,
       wp_fence_profile = (po_fence_lane options \<noteq> None \<or> encoding = kSitosV1Fence)\<rparr> w = (w', 0)"
  using assms by (auto simp: Zenoh_Put_def native_result_def SemanticTransportError_def Result_Err_def Result_Ok_def Result_ErrCode_def
      ErrFrom_def split: if_splits sum.splits prod.splits)

section \<open>Waiting for a queryable\<close>

text \<open>The clock: a time that the calls of the loop never turn back and that a sleep advances by what it sleeps.\<close>

definition clock_advances :: "'w ZenohNative \<Rightarrow> ('w \<Rightarrow> int) \<Rightarrow> bool" where
  "clock_advances N time \<longleftrightarrow>
     (\<forall>w w' now. zn_now N w = (w', now) \<longrightarrow> time w \<le> now \<and> now \<le> time w') \<and>
     (\<forall>k w w' rc m. zn_matching N k w = (w', rc, m) \<longrightarrow> time w \<le> time w') \<and>
     (\<forall>d w. time w + d \<le> time (zn_sleep N d w))"

definition seen_before :: "'w ZenohNative \<Rightarrow> string \<Rightarrow> int \<Rightarrow> 'w \<Rightarrow> bool" where
  "seen_before N keyexpr deadline w' \<longleftrightarrow> (\<exists>w0 w1 now. zn_now N w0 = (w1, now) \<and> now < deadline \<and> zn_matching N keyexpr w1 = (w', 0, True))"

lemma MatchingLoop_ends:
  assumes "clock_advances N time"
  shows "\<exists>w' r. MatchingLoop N keyexpr deadline w = Some (w', r) \<and> (r = Result_Ok True \<longrightarrow> seen_before N keyexpr deadline w')"
proof (induction "nat (deadline - time w)" arbitrary: w rule: less_induct)
  case less
  obtain w1 now where n: "zn_now N w = (w1, now)" by fastforce
  obtain w2 rc matching where m: "zn_matching N keyexpr w1 = (w2, rc, matching)" using prod_cases3 by blast
  note step = MatchingLoop.simps[of N keyexpr deadline w]
  consider "now \<ge> deadline" | "now < deadline" "rc \<noteq> 0" | "now < deadline" "rc = 0" matching | "now < deadline" "rc = 0" "\<not> matching"
    by fastforce
  then show ?case
  proof cases
    case 1
    with n show ?thesis by (simp add: step Result_Ok_def)
  next
    case 2
    with n m show ?thesis by (simp add: step Result_ErrCode_def Result_Ok_def)
  next
    case 3
    with n m show ?thesis by (auto simp: step seen_before_def)
  next
    case 4
    let ?w = "zn_sleep N (min kMatchingPollInterval (deadline - now)) w2"
    have "time w \<le> now" "now \<le> time w1" "time w1 \<le> time w2" "time w2 + min kMatchingPollInterval (deadline - now) \<le> time ?w"
      using assms n m unfolding clock_advances_def by blast+
    moreover have "0 < min kMatchingPollInterval (deadline - now)" using 4(1) by (simp add: kMatchingPollInterval_def ns_per_ms_def)
    ultimately have "nat (deadline - time ?w) < nat (deadline - time w)" using 4(1) by linarith
    from less[OF this] 4 n m show ?thesis by (simp add: step)
  qed
qed

section \<open>Properties\<close>

text \<open>C27: a put the adapter reports as submitted reaches a subscriber as the sample the rest of the system works with: the same key
  and payload, the encoding with the schema it names recovered from the wire form, exactly the typed attachment the caller gave
  (the token, the lane, or none, never both and never invented), and a fenced put always under the fence profile.
  Invalid options and a closed session are refused before any native call.\<close>

theorem zenoh_put_arrives:
  assumes "prints_schema N" and "zn_encoding_text N (EncodingFromText encoding) = encoding" and "options_sized options"
  shows "(Zenoh_Put N z key payload encoding options w = (w', Result_Ok ()) \<longrightarrow>
      (\<exists>p. zn_put N p w = (w', 0) \<and> (po_fence_lane options \<noteq> None \<or> encoding = kSitosV1Fence \<longrightarrow> wp_fence_profile p) \<and>
        OnSubscriberSample True (carried N p) = Some \<lparr>ts_key = key, ts_payload = payload, ts_encoding = NormalizeEncoding encoding,
          ts_ack = (case po_ack_token options of Some t \<Rightarrow> AckObserved t | None \<Rightarrow> AckAttachmentAbsent), ts_kind = SamplePut,
          ts_fence_lane = (case po_fence_lane options of Some l \<Rightarrow> FenceLaneObserved l | None \<Rightarrow> FenceLaneAbsent)\<rparr>)) \<and>
    (IsSitosSchema encoding \<longrightarrow> NormalizeEncoding encoding = encoding) \<and>
    (PutOptionsInvalid options \<or> \<not> zs_valid z \<longrightarrow> fst (Zenoh_Put N z key payload encoding options w) = w \<and>
      \<not> IsOk (snd (Zenoh_Put N z key payload encoding options w)))"
proof (intro conjI impI)
  assume "Zenoh_Put N z key payload encoding options w = (w', Result_Ok ())"
  then obtain enc where e: "\<not> PutOptionsInvalid options" "zs_valid z" "MakeEncoding N encoding = Inr enc"
    "zn_put N \<lparr>wp_key = key, wp_payload = payload, wp_encoding = enc, wp_attachment = PutAttachment options,
       wp_fence_profile = (po_fence_lane options \<noteq> None \<or> encoding = kSitosV1Fence)\<rparr> w = (w', 0)" by (rule Zenoh_Put_ok)
  let ?p = "\<lparr>wp_key = key, wp_payload = payload, wp_encoding = enc, wp_attachment = PutAttachment options,
     wp_fence_profile = (po_fence_lane options \<noteq> None \<or> encoding = kSitosV1Fence)\<rparr>"
  have "ReadAttachments (carried N ?p) = ClassifyAttachment (PutAttachment options)"
    by (cases "PutAttachment options") (simp_all add: ReadAttachments_def carried_def)
  with attachment_arrives[OF e(1) assms(3)] encoding_arrives[OF e(3) assms(1,2)] e(4)
  show "\<exists>p. zn_put N p w = (w', 0) \<and> (po_fence_lane options \<noteq> None \<or> encoding = kSitosV1Fence \<longrightarrow> wp_fence_profile p) \<and>
      OnSubscriberSample True (carried N p) = Some \<lparr>ts_key = key, ts_payload = payload, ts_encoding = NormalizeEncoding encoding,
        ts_ack = (case po_ack_token options of Some t \<Rightarrow> AckObserved t | None \<Rightarrow> AckAttachmentAbsent), ts_kind = SamplePut,
        ts_fence_lane = (case po_fence_lane options of Some l \<Rightarrow> FenceLaneObserved l | None \<Rightarrow> FenceLaneAbsent)\<rparr>"
    by (intro exI[of _ ?p]) (simp add: OnSubscriberSample_def Let_def, simp add: carried_def)
qed (auto simp: NormalizeEncoding_def schema_plain Zenoh_Put_def SemanticTransportError_def)

text \<open>A library that accepts everything, and a put of an acknowledged value.\<close>

definition ExampleNative :: "WirePut list ZenohNative" where
  "ExampleNative = \<lparr>zn_keyexpr = (\<lambda>_. 0), zn_bytes = (\<lambda>_. 0), zn_set_schema = (\<lambda>_. 0), zn_encoding = (\<lambda>_. 0),
     zn_encoding_text = (\<lambda>e. case e of BytesWithSchema s \<Rightarrow> kCanonicalBytesPrefix @ s | EncodingFromText t \<Rightarrow> t),
     zn_put = (\<lambda>p w. (w @ [p], 0)), zn_delete = (\<lambda>_ w. (w, 0)), zn_get = (\<lambda>_ _ w. (w, 0, [])), zn_reply = (\<lambda>_ _ _ w. (w, 0)),
     zn_reply_err = (\<lambda>_ w. (w, 0)), zn_declare_subscriber = (\<lambda>_ _ w. (w, 0)), zn_declare_token = (\<lambda>_ w. (w, 0)),
     zn_declare_queryable = (\<lambda>_ w. (w, 0)), zn_declare_querier = (\<lambda>_ w. (w, 0)), zn_matching = (\<lambda>_ w. (w, 0, True)),
     zn_now = (\<lambda>w. (w, 0)), zn_sleep = (\<lambda>_ w. w)\<rparr>"

definition example_ack_token :: AckToken where
  "example_ack_token = GenerateAckToken [1, 2, 3, 4]"

theorem zenoh_put_arrives_witness:
  "\<exists>p. zn_put ExampleNative p [] = ([p], 0) \<and> OnSubscriberSample True (carried ExampleNative p) =
     Some \<lparr>ts_key = ''p/base/a'', ts_payload = [1], ts_encoding = kSitosV1, ts_ack = AckObserved example_ack_token, ts_kind = SamplePut,
       ts_fence_lane = FenceLaneAbsent\<rparr>"
proof -
  let ?o = "\<lparr>po_ack_token = Some example_ack_token, po_fence_lane = None\<rparr>"
    and ?z = "\<lparr>zs_valid = True, zs_fence_profile_supported = True, zs_queriers = []\<rparr>"
  have t: "length example_ack_token = 16" "IsValidAckToken example_ack_token" by code_simp+
  have s: "IsSitosSchema kSitosV1" by (simp add: IsSitosSchema_def)
  have laws: "prints_schema ExampleNative" "zn_encoding_text ExampleNative (EncodingFromText kSitosV1) = kSitosV1" "options_sized ?o"
    using t by (simp_all add: prints_schema_def ExampleNative_def options_sized_def)
  have "\<exists>p. Zenoh_Put ExampleNative ?z ''p/base/a'' [1] kSitosV1 ?o [] = ([p], Result_Ok ())"
    using t schema_plain[OF s] by (simp add: Zenoh_Put_def PutOptionsInvalid_def MakeEncoding_def MakeKeyexpr_def MakeBytes_def PutAttachment_def
        ExampleNative_def native_result_def Result_Ok_def)
  then obtain p where "Zenoh_Put ExampleNative ?z ''p/base/a'' [1] kSitosV1 ?o [] = ([p], Result_Ok ())" by blast
  with zenoh_put_arrives[OF laws, of ?z "''p/base/a''" "[1]" "[]" "[p]"] s
  obtain p' where "zn_put ExampleNative p' [] = ([p], 0)" "OnSubscriberSample True (carried ExampleNative p') =
     Some \<lparr>ts_key = ''p/base/a'', ts_payload = [1], ts_encoding = kSitosV1, ts_ack = AckObserved example_ack_token, ts_kind = SamplePut,
       ts_fence_lane = FenceLaneAbsent\<rparr>" by auto
  then show ?thesis by (intro exI[of _ p']) (auto simp: ExampleNative_def)
qed

text \<open>A wait for a matching queryable ends under an advancing clock, and it reports a match only if the match was read before the
  deadline; on a closed session it is refused at once.\<close>

lemma zenoh_matching_wait_ends:
  assumes "clock_advances N time"
  shows "\<exists>z' w' r. WaitForMatchingQueryable N keyexpr deadline z w = Some (z', w', r) \<and>
    (r = Result_Ok True \<longrightarrow> zs_valid z \<and> seen_before N keyexpr deadline w')"
proof (cases "zs_valid z")
  case False
  then show ?thesis by (simp add: WaitForMatchingQueryable_def SemanticTransportError_def Result_Err_def Result_Ok_def)
next
  case True
  obtain z1 w1 q where q: "MatchingQuerier N keyexpr z w = (z1, w1, q)" using prod_cases3 by blast
  show ?thesis
  proof (cases q)
    case (Inl e)
    with True q show ?thesis by (simp add: WaitForMatchingQueryable_def ErrFrom_def Result_Err_def Result_Ok_def)
  next
    case (Inr u)
    obtain w' r where "MatchingLoop N keyexpr deadline w1 = Some (w', r)" "r = Result_Ok True \<longrightarrow> seen_before N keyexpr deadline w'"
      using MatchingLoop_ends[OF assms] by blast
    with True q Inr show ?thesis by (simp add: WaitForMatchingQueryable_def)
  qed
qed

text \<open>After its callback has returned, and after its queryable is gone, a query sends nothing.\<close>

lemma finished_query_sends_nothing:
  assumes "\<not> ql_active q \<or> \<not> ql_alive q"
  shows "fst (TransportQuery_Reply N key payload encoding q w) = w \<and> \<not> IsOk (snd (TransportQuery_Reply N key payload encoding q w)) \<and>
    fst (ReplyErrorPayload N payload q w) = w \<and> \<not> IsOk (snd (ReplyErrorPayload N payload q w)) \<and>
    \<not> ql_active (snd (OnQueryable callback alive w))"
  using assms by (auto simp: TransportQuery_Reply_def ReplyErrorPayload_def OnQueryable_def SemanticTransportError_def ErrFrom_def Let_def IsOk_def
      Result_Err_def
      split: sum.split)

end
