(* ===== verification/Spec2Isabelle.thy ===== *)
theory Spec2Isabelle
  imports Status Key ParamValue Batch Ack ListPrefix Sha256 AckRegistry StorageEngine FenceCodec FenceLane
    FenceDispatch FenceReceiver FlatJson SessionCatalog CatalogStore NodeApply NodeState NodeSample NodeSampleProps
    NodeQuery NodeQueryProps NodeLifecycle NodeLifecycleProps NodeReconcile Admission GetCompletion AckClient ParamStore ClientNode SessionView
    MetadataParser FencePublisher FenceArbitration FenceSubmission BufferPublisher
    ParamSubscription SubscriptionRuns SubscriptionMirror ParamCache CacheRuns CacheRecovery RocksDBEngine ZenohTransport
begin

text \<open>
  Sitos is a distributed parameter store over a publish/subscribe transport.  A storage node keeps a base
  store and, per session, a snapshot, a volatile overlay and write-once buffers, some of them durable.  Clients put, delete, read,
  list and subscribe to parameters, cache a session, view it in process, or publish buffers and fence them.  This development
  models the C++ core under \<open>src/\<close> and \<open>include/sitos/\<close> and proves its main properties.

  \<^bold>\<open>How the parts interact.\<close>  A client call validates its arguments, builds a key and hands a put, a delete or a query to the
  transport.  The node's subscriber path parses the key of a sample, claims the acknowledgement token if there is one, applies
  the write to the engine of the scope and records the result, which the client polls under the token's key.  The node's
  queryable path answers parameter, buffer and metadata queries.  A fence publisher numbers its submissions; the node's
  dispatch lanes and receiver registry, or the cache, keep per publisher the proof that all numbers up to
  the marker were applied.  The life cycle of a session is recorded in a durable catalog that a start reconciles.

  \<^bold>\<open>Vocabulary and wire formats.\<close>  \<open>Prelude\<close> holds bytes, words, little-endian integers, the collections of simplification
  rules and the codec contracts \<open>codec\<close> and \<open>exact_codec\<close>; \<open>Status\<close> models \<open>status.cpp\<close> and \<open>result.hpp\<close>.  \<open>Key\<close>
  (\<open>key.cpp\<close>), \<open>ParamValue\<close> (\<open>param_value.cpp\<close>), \<open>Batch\<close> (\<open>batch.cpp\<close>), \<open>Ack\<close> (\<open>ack.cpp\<close>), \<open>FenceCodec\<close> (the wire
  part of \<open>fence.cpp\<close>), \<open>Sha256\<close> (\<open>sha256.cpp\<close>), \<open>ListPrefix\<close> (\<open>list_prefix_validation.hpp\<close>, \<open>client_config.cpp\<close>) and
  \<open>MetadataParser\<close> (the JSON subset of \<open>buffer_publisher.cpp\<close>) model one file or part each.  Their lemmas give the grammars both ways,
  the round trips and the exactness of the decoders, and the equality of SHA-256 and UTF-8 validation with independent definitions.

  \<^bold>\<open>Engines and the catalog.\<close>  \<open>OrderedMap\<close> is the ordered map of the standard library as a sorted association list;
  \<open>StorageEngine\<close> has the engine contract as the locales \<open>storage_reader\<close> and \<open>storage_engine\<close> and interprets them on
  \<open>in_memory_engine.cpp\<close> and the snapshot copy.  \<open>RocksDBEngine\<close> models \<open>rocksdb_engine.cpp\<close> over any database that
  keeps the laws \<open>rocksdb_lawful\<close> and shows that it cannot be told from the in-memory engine, snapshots included.  \<open>FlatJson\<close>,
  \<open>SessionCatalog\<close> and \<open>CatalogStore\<close> model \<open>session_catalog.cpp\<close>: a record decodes exactly from its own encoding and the view of a
  running catalog is always the reloaded durable content.

  \<^bold>\<open>The storage node.\<close>  \<open>AckRegistry\<close> (\<open>ack_registry.cpp\<close>) keeps tokens with their results in a bounded ring; \<open>FenceLane\<close>,
  \<open>FenceDispatch\<close> and \<open>FenceReceiver\<close> are the receiver side of \<open>fence.cpp\<close>.  \<open>NodeApply\<close>, \<open>NodeState\<close>, \<open>NodeSample\<close>,
  \<open>NodeQuery\<close> and \<open>NodeLifecycle\<close> model \<open>storage_node.cpp\<close>: the state is one record with the session table, the registry and the
  gates, and each function is one definition over it.  \<open>NodeSampleProps\<close>, \<open>NodeQueryProps\<close>, \<open>NodeLifecycleProps\<close> and
  \<open>NodeReconcile\<close> hold what they guarantee: one result per token, sound fences, exact reads, and a life cycle that
  refines the legal steps of a catalog record under any failure.  \<open>Admission\<close> states the gate all leases share as a
  locale and interprets it on the node, the session, the dispatch lane and, in \<open>GetCompletion\<close> (\<open>transport/get_completion.cpp\<close>), the request.

  \<^bold>\<open>Clients.\<close>  \<open>AckClient\<close> (\<open>ack_client.cpp\<close>), \<open>ParamStore\<close> (\<open>param_store.cpp\<close>), \<open>ClientNode\<close> (what a list makes of the replies of any
  transport, and of the node's), \<open>SessionView\<close> (\<open>session_view.cpp\<close>), \<open>ParamSubscription\<close> with \<open>SubscriptionRuns\<close> and
  \<open>SubscriptionMirror\<close> (\<open>param_subscription.cpp\<close>), \<open>ParamCache\<close> with \<open>CacheRuns\<close> and \<open>CacheRecovery\<close>
  (\<open>param_cache.cpp\<close>), \<open>FencePublisher\<close> with \<open>FenceArbitration\<close> and \<open>FenceSubmission\<close> (the publisher of \<open>fence.cpp\<close>), \<open>BufferPublisher\<close>
  (\<open>buffer_publisher.cpp\<close>) and \<open>ZenohTransport\<close> (\<open>transport/zenoh_transport.cpp\<close>).

  \<^bold>\<open>Concurrency.\<close>  A method that holds its mutex throughout is one step.  Where the code releases a lock, each critical
  section is a definition of its own and a step relation or an event list interleaves them in any order (\<open>sub_run\<close>, \<open>cache_step\<close>,
  \<open>recovery_step\<close>, \<open>pub_step\<close>, the admission events).  Other threads may also act inside the transport calls of a fence publisher; what they may do is the
  locale \<open>waiter_world\<close>, fulfilled by a link with no other threads and by one that runs completions, closes and reconnections in every call.
  A wait on a condition is the condition it waits for.

  \<^bold>\<open>Parameters, bounds and fuel.\<close>  The network, the clock, the native transport, RocksDB, the file system and the host's engine are
  arguments of the definitions; the laws a theorem needs of them are its named hypotheses (\<open>client_world\<close>, \<open>fence_world\<close>,
  \<open>waiter_world\<close>, \<open>db_laws\<close>, \<open>env_laws\<close>, \<open>rocksdb_lawful\<close>), each fulfilled by a concrete instance in a witness.  Sequence numbers,
  lengths and generations are words of their width.  The polling loop of an acknowledged write has no bound in its text:
  it is a partial function, and it is proved to return under the laws of the clock.  The reader of catalog records terminates
  by the length of the text; the loops of the metadata parser take that length as fuel, which is enough because each round consumes a
  character, and its depth is the code's own limit.

  \<^bold>\<open>Not modelled.\<close>  Object ownership, moves and destructors beyond the flag of a moved-from object, the templates that convert through a
  parameter value, conversions to floating point types, logging output other than the node's diagnostics, the transport stub and the native declaration handles,
  exhaustion of memory except where the code handles it, the test access headers, the Python bindings, examples and tests.
\<close>

section \<open>Properties across components\<close>

text \<open>Every constructor of a result establishes, and error propagation preserves, the
  agreement of its three observers: a result is successful exactly when its status is Ok,
  and an error always carries a nonzero error code.\<close>

theorem result_observers_agree:
  "result_wf (Result_Ok v) \<and> result_wf (Result_Err s m c :: 'a Result) \<and>
   result_wf (Result_ErrCode c :: 'a Result) \<and>
   (result_wf (r :: 'b Result) \<longrightarrow> result_wf (ErrFrom r :: 'a Result) \<and> (IsOk r \<longleftrightarrow> StatusCode r = Ok))"
  by (cases r) (simp_all add: result_wf_def IsOk_def StatusCode_def ErrFrom_def Result_Ok_def
      Result_Err_def Result_ErrCode_def MakeLegacyErrorInfo_def)

theorem result_observers_agree_witness:
  "result_wf (ErrFrom (Err NotFound ''x'' :: unit Result) :: nat Result)"
proof -
  have "result_wf (Err NotFound ''x'' :: unit Result)" by simp
  with result_observers_agree[where r = "Err NotFound ''x'' :: unit Result"
      and v = "0::nat" and s = Ok and m = "''''" and c = no_error_code] show ?thesis by blast
qed

end
